(* ===== verification/Prelude.thy ===== *)
theory Prelude
  imports Main "HOL-Library.AList" "HOL-Library.Char_ord" "HOL-Library.List_Lexorder"
    "HOL-Library.Sublist"
begin

text \<open>
  What every component shares: results with early return (Rust's \<open>Result\<close> and its \<open>?\<close>
  operator), the state-threading computations of the client engine, ordered maps and sets
  (\<open>BTreeMap\<close>, \<open>BTreeSet\<close>) as sorted lists, and the laws of a keyed store as a locale.
\<close>

named_theorems res_elims \<open>how a sequence of fallible steps can have succeeded\<close>
named_theorems btree \<open>lookups and order of sorted association lists\<close>

section \<open>Results\<close>

text \<open>
  A fallible computation returns \<open>'e + 'a\<close>: \<open>Inl\<close> the error, \<open>Inr\<close> the value.
  \<open>bindE m f\<close> is \<open>let a = m?; f a\<close>.
\<close>

definition bindE :: "'e + 'a \<Rightarrow> ('a \<Rightarrow> 'e + 'b) \<Rightarrow> 'e + 'b" where
  "bindE m f = (case m of Inl e \<Rightarrow> Inl e | Inr a \<Rightarrow> f a)"

lemma bindE_simps [simp]:
  "bindE (Inl e) f = Inl e"
  "bindE (Inr a) f = f a"
  by (simp_all add: bindE_def)

lemma bindE_Inr_iff [res_elims]: "bindE m f = Inr b \<longleftrightarrow> (\<exists>a. m = Inr a \<and> f a = Inr b)"
  by (cases m) auto

lemma bindE_Inl_iff: "bindE m f = Inl e \<longleftrightarrow> m = Inl e \<or> (\<exists>a. m = Inr a \<and> f a = Inl e)"
  by (cases m) auto

lemma bindE_cong [fundef_cong]:
  assumes "m = m'" and "\<And>a. m' = Inr a \<Longrightarrow> f a = g a"
  shows "bindE m f = bindE m' g"
  using assms by (cases m') auto

lemma bindE_assoc: "bindE (bindE m f) g = bindE m (\<lambda>a. bindE (f a) g)"
  by (cases m) auto

definition ensure :: "bool \<Rightarrow> 'e \<Rightarrow> 'e + unit" where
  "ensure b e = (if b then Inr () else Inl e)"

lemma ensure_Inr_iff [res_elims]: "ensure b e = Inr u \<longleftrightarrow> b"
  by (simp add: ensure_def)

lemma ensure_simps [simp]: "ensure True e = Inr ()" "ensure False e = Inl e"
  by (simp_all add: ensure_def)

definition ok_or :: "'a option \<Rightarrow> 'e \<Rightarrow> 'e + 'a" where
  "ok_or v e = (case v of None \<Rightarrow> Inl e | Some a \<Rightarrow> Inr a)"

lemma ok_or_simps [simp]: "ok_or None e = Inl e" "ok_or (Some a) e = Inr a"
  by (simp_all add: ok_or_def)

lemma ok_or_Inr_iff [res_elims]: "ok_or v e = Inr a \<longleftrightarrow> v = Some a"
  by (cases v) simp_all

definition is_ok :: "'e + 'a \<Rightarrow> bool" where
  "is_ok r = (case r of Inl _ \<Rightarrow> False | Inr _ \<Rightarrow> True)"

lemma is_ok_simps [simp]: "is_ok (Inr a)" "\<not> is_ok (Inl e)"
  by (simp_all add: is_ok_def)

lemma is_ok_iff: "is_ok r \<longleftrightarrow> (\<exists>a. r = Inr a)"
  by (cases r) auto

text \<open>\<open>xs.iter().map(f).collect::<Result<Vec<_>>>()\<close>: the first failure wins.\<close>

fun emap :: "('a \<Rightarrow> 'e + 'b) \<Rightarrow> 'a list \<Rightarrow> 'e + 'b list" where
  "emap f [] = Inr []"
| "emap f (x # xs) = bindE (f x) (\<lambda>y. bindE (emap f xs) (\<lambda>ys. Inr (y # ys)))"

text \<open>A \<open>for\<close> loop over a slice with an accumulator and early return.\<close>

fun efold :: "('a \<Rightarrow> 'b \<Rightarrow> 'e + 'b) \<Rightarrow> 'a list \<Rightarrow> 'b \<Rightarrow> 'e + 'b" where
  "efold f [] acc = Inr acc"
| "efold f (x # xs) acc = bindE (f x acc) (\<lambda>acc'. efold f xs acc')"

text \<open>A \<open>for\<close> loop that only checks.\<close>

fun echeck :: "('a \<Rightarrow> 'e + unit) \<Rightarrow> 'a list \<Rightarrow> 'e + unit" where
  "echeck f [] = Inr ()"
| "echeck f (x # xs) = bindE (f x) (\<lambda>_. echeck f xs)"

lemma emap_cong [fundef_cong]:
  assumes "xs = ys" and "\<And>x. x \<in> set ys \<Longrightarrow> f x = g x"
  shows "emap f xs = emap g ys"
proof -
  have "(\<And>x. x \<in> set ys \<Longrightarrow> f x = g x) \<Longrightarrow> emap f ys = emap g ys"
    by (induction ys) auto
  then show ?thesis using assms by blast
qed

lemma emap_Inr_iff [res_elims]: "emap f xs = Inr ys \<longleftrightarrow> list_all2 (\<lambda>x y. f x = Inr y) xs ys"
proof (induction xs arbitrary: ys)
  case Nil
  then show ?case by auto
next
  case (Cons x xs)
  then show ?case by (cases ys) (auto simp: bindE_Inr_iff)
qed

lemma emap_Inr_length: "emap f xs = Inr ys \<Longrightarrow> length ys = length xs"
  by (simp add: emap_Inr_iff list_all2_lengthD)

lemma emap_mem: "emap f xs = Inr ys \<Longrightarrow> y \<in> set ys \<Longrightarrow> \<exists>x \<in> set xs. f x = Inr y"
proof (induction xs arbitrary: ys)
  case (Cons x xs)
  then show ?case by (auto simp: bindE_Inr_iff)
qed simp

lemma emap_all_ok: "\<forall>x \<in> set xs. f x = Inr (g x) \<Longrightarrow> emap f xs = Inr (map g xs)"
  by (induction xs) auto

lemma echeck_Inr_iff [res_elims]: "echeck f xs = Inr u \<longleftrightarrow> (\<forall>x \<in> set xs. f x = Inr ())"
  by (induction xs) (auto simp: bindE_Inr_iff)

lemma efold_append: "efold f (xs @ ys) acc = bindE (efold f xs acc) (efold f ys)"
proof (induction xs arbitrary: acc)
  case Nil
  show ?case by simp
next
  case (Cons x xs)
  show ?case by (cases "f x acc") (simp_all add: Cons.IH)
qed

text \<open>An invariant of the accumulator, kept by every iteration that does not return early.\<close>

lemma efold_inv:
  assumes "efold f xs acc = Inr acc'" and "P acc"
    and "\<And>x a b. x \<in> set xs \<Longrightarrow> f x a = Inr b \<Longrightarrow> P a \<Longrightarrow> P b"
  shows "P acc'"
  using assms
proof (induction xs arbitrary: acc)
  case Nil
  then show ?case by simp
next
  case (Cons x xs)
  then obtain a where a: "f x acc = Inr a" "efold f xs a = Inr acc'"
    by (auto simp: bindE_Inr_iff)
  from Cons.prems(3)[OF _ a(1) Cons.prems(2)] have "P a" by simp
  with a(2) show ?case by (rule Cons.IH) (use Cons.prems(3) in auto)
qed

lemma efold_each:
  "efold f xs acc = Inr acc' \<Longrightarrow> x \<in> set xs \<Longrightarrow> \<exists>a b. f x a = Inr b"
  by (induction xs arbitrary: acc) (auto simp: bindE_Inr_iff)

section \<open>Computations over a state\<close>

text \<open>
  The client engine's methods take \<open>&mut self\<close> and return a \<open>Result\<close>: they give the result
  and the state they leave, also when they fail (what a failed step leaves behind is undone
  by the savepoint or the transaction around it, in the model as in the code).
\<close>

type_synonym ('s, 'e, 'a) comp = "'s \<Rightarrow> ('e + 'a) \<times> 's"

definition retM :: "'a \<Rightarrow> ('s, 'e, 'a) comp" where
  "retM a s = (Inr a, s)"

definition failM :: "'e \<Rightarrow> ('s, 'e, 'a) comp" where
  "failM e s = (Inl e, s)"

definition bindM :: "('s, 'e, 'a) comp \<Rightarrow> ('a \<Rightarrow> ('s, 'e, 'b) comp) \<Rightarrow> ('s, 'e, 'b) comp" where
  "bindM m f s = (case m s of (Inl e, t) \<Rightarrow> (Inl e, t) | (Inr a, t) \<Rightarrow> f a t)"

text \<open>A pure fallible step (\<open>liftM\<close>), a read of the state (\<open>getsM\<close>, \<open>readM\<close>), a write.\<close>

definition liftM :: "'e + 'a \<Rightarrow> ('s, 'e, 'a) comp" where
  "liftM r s = (r, s)"

definition getsM :: "('s \<Rightarrow> 'a) \<Rightarrow> ('s, 'e, 'a) comp" where
  "getsM f s = (Inr (f s), s)"

definition readM :: "('s \<Rightarrow> 'e + 'a) \<Rightarrow> ('s, 'e, 'a) comp" where
  "readM f s = (f s, s)"

definition modifyM :: "('s \<Rightarrow> 's) \<Rightarrow> ('s, 'e, unit) comp" where
  "modifyM f s = (Inr (), f s)"

fun forM :: "('a \<Rightarrow> ('s, 'e, unit) comp) \<Rightarrow> 'a list \<Rightarrow> ('s, 'e, unit) comp" where
  "forM f [] = retM ()"
| "forM f (x # xs) = bindM (f x) (\<lambda>_. forM f xs)"

fun foldM :: "('a \<Rightarrow> 'b \<Rightarrow> ('s, 'e, 'b) comp) \<Rightarrow> 'a list \<Rightarrow> 'b \<Rightarrow> ('s, 'e, 'b) comp" where
  "foldM f [] acc = retM acc"
| "foldM f (x # xs) acc = bindM (f x acc) (\<lambda>acc'. foldM f xs acc')"

lemma comp_simps [simp]:
  "retM a s = (Inr a, s)"
  "failM e s = (Inl e, s)"
  "liftM r s = (r, s)"
  "getsM g s = (Inr (g s), s)"
  "readM h s = (h s, s)"
  "modifyM k s = (Inr (), k s)"
  by (simp_all add: retM_def failM_def liftM_def getsM_def readM_def modifyM_def)

lemma bindM_Inr [simp]: "m s = (Inr a, t) \<Longrightarrow> bindM m f s = f a t"
  by (simp add: bindM_def)

lemma bindM_Inl [simp]: "m s = (Inl e, t) \<Longrightarrow> bindM m f s = (Inl e, t)"
  by (simp add: bindM_def)

lemma bindM_ok_iff [res_elims]:
  "bindM m f s = (Inr b, u) \<longleftrightarrow> (\<exists>a t. m s = (Inr a, t) \<and> f a t = (Inr b, u))"
  by (auto simp: bindM_def split: prod.splits sum.splits)

lemma bindM_retM [simp]: "bindM (retM a) f = f a"
  by (rule ext) (simp add: bindM_def)

lemma bindM_liftM_Inr [simp]: "bindM (liftM (Inr a)) f = f a"
  by (rule ext) (simp add: bindM_def)

lemma bindM_liftM_Inl [simp]: "bindM (liftM (Inl e)) f s = (Inl e, s)"
  by (simp add: bindM_def)

lemma bindM_getsM [simp]: "bindM (getsM g) f s = f (g s) s"
  by (simp add: bindM_def)

lemma bindM_modifyM [simp]: "bindM (modifyM k) f s = f () (k s)"
  by (simp add: bindM_def)

lemma bindM_assoc: "bindM (bindM m f) g = bindM m (\<lambda>a. bindM (f a) g)"
  by (rule ext) (auto simp: bindM_def split: prod.splits sum.splits)

text \<open>
  A relation between the state before and after that is reflexive, transitive and kept by
  every step is kept by the loops. The success part and the failure part are stated
  together, since a failing step leaves a state too.
\<close>

lemma forM_rel:
  assumes "forM f xs s = (r, t)" and "\<And>s. R s s" and "\<And>a b c. R a b \<Longrightarrow> R b c \<Longrightarrow> R a c"
    and "\<And>x s r t. x \<in> set xs \<Longrightarrow> f x s = (r, t) \<Longrightarrow> R s t"
  shows "R s t"
  using assms(1,4)
proof (induction xs arbitrary: s)
  case Nil
  then show ?case using assms(2) by simp
next
  case (Cons x xs)
  obtain r' u where u: "f x s = (r', u)" by (cases "f x s")
  have R1: "R s u" using Cons.prems(2)[OF _ u] by simp
  show ?case
  proof (cases r')
    case (Inl e)
    with u Cons.prems(1) have "t = u" by (simp add: bindM_def)
    with R1 show ?thesis by simp
  next
    case (Inr a)
    with u Cons.prems(1) have "forM f xs u = (r, t)" by (simp add: bindM_def)
    then have "R u t" by (rule Cons.IH) (use Cons.prems(2) in auto)
    with R1 show ?thesis by (rule assms(3))
  qed
qed

lemma foldM_rel:
  assumes "foldM f xs acc s = (r, t)" and "\<And>s. R s s"
    and "\<And>a b c. R a b \<Longrightarrow> R b c \<Longrightarrow> R a c"
    and "\<And>x acc s r t. x \<in> set xs \<Longrightarrow> f x acc s = (r, t) \<Longrightarrow> R s t"
  shows "R s t"
  using assms(1,4)
proof (induction xs arbitrary: s acc)
  case Nil
  then show ?case using assms(2) by simp
next
  case (Cons x xs)
  obtain r' u where u: "f x acc s = (r', u)" by (cases "f x acc s")
  have R1: "R s u" using Cons.prems(2)[OF _ u] by simp
  show ?case
  proof (cases r')
    case (Inl e)
    with u Cons.prems(1) have "t = u" by (simp add: bindM_def)
    with R1 show ?thesis by simp
  next
    case (Inr a)
    with u Cons.prems(1) have "foldM f xs a u = (r, t)" by (simp add: bindM_def)
    then have "R u t"
      by (rule Cons.IH) (rule Cons.prems(2), simp_all)
    with R1 show ?thesis by (rule assms(3))
  qed
qed

text \<open>Run a step and hand its result on, whatever it is (a \<open>Result\<close> kept in a variable).\<close>

definition tryM :: "('s, 'e, 'a) comp \<Rightarrow> ('s, 'e, 'e + 'a) comp" where
  "tryM m s = (case m s of (r, t) \<Rightarrow> (Inr r, t))"

section \<open>Relations a computation keeps\<close>

text \<open>
  What holds between the state before and the state after, whether the computation succeeds or
  fails. A relation that is reflexive and transitive is kept by whatever is built from steps
  that keep it: the locale proves it once for every relation.
\<close>

definition keeps :: "('s \<Rightarrow> 's \<Rightarrow> bool) \<Rightarrow> ('s, 'e, 'a) comp \<Rightarrow> bool" where
  "keeps R m \<longleftrightarrow> (\<forall>s r t. m s = (r, t) \<longrightarrow> R s t)"

lemma keepsI: "(\<And>s r t. m s = (r, t) \<Longrightarrow> R s t) \<Longrightarrow> keeps R m"
  by (simp add: keeps_def)

lemma keepsD: "keeps R m \<Longrightarrow> m s = (r, t) \<Longrightarrow> R s t"
  by (simp add: keeps_def)

lemma keeps_if: "(b \<Longrightarrow> keeps R f) \<Longrightarrow> (\<not> b \<Longrightarrow> keeps R g) \<Longrightarrow> keeps R (if b then f else g)"
  by simp

lemma keeps_option:
  "(v = None \<Longrightarrow> keeps R f) \<Longrightarrow> (\<And>a. v = Some a \<Longrightarrow> keeps R (g a)) \<Longrightarrow>
   keeps R (case v of None \<Rightarrow> f | Some a \<Rightarrow> g a)"
  by (cases v) simp_all

lemma keeps_sum:
  "(\<And>e. v = Inl e \<Longrightarrow> keeps R (f e)) \<Longrightarrow> (\<And>a. v = Inr a \<Longrightarrow> keeps R (g a)) \<Longrightarrow>
   keeps R (case v of Inl e \<Rightarrow> f e | Inr a \<Rightarrow> g a)"
  by (cases v) simp_all

lemma keeps_prod: "(\<And>a b. v = (a, b) \<Longrightarrow> keeps R (f a b)) \<Longrightarrow> keeps R (case v of (a, b) \<Rightarrow> f a b)"
  by (cases v) simp

lemma keeps_let: "keeps R (f v) \<Longrightarrow> keeps R (let a = v in f a)"
  by simp

lemmas keeps_cases = keeps_if keeps_option keeps_sum keeps_prod keeps_let

locale kept =
  fixes R :: "'s \<Rightarrow> 's \<Rightarrow> bool"
  assumes refl: "R s s" and trans: "R s t \<Longrightarrow> R t u \<Longrightarrow> R s u"
begin

lemma keeps_pure: "keeps R (retM a)" "keeps R (failM e)" "keeps R (liftM r)"
  "keeps R (getsM g)" "keeps R (readM h)"
  by (auto simp: keeps_def refl)

lemma keeps_bind:
  assumes "keeps R m" and "\<And>a. keeps R (f a)"
  shows "keeps R (bindM m f)"
proof (rule keepsI)
  fix s r u
  assume b: "bindM m f s = (r, u)"
  obtain q t where q: "m s = (q, t)" by (cases "m s")
  have "R s t" using keepsD [OF assms(1) q] .
  moreover have "R t u"
    using b q keepsD [OF assms(2)] refl by (cases q) (auto simp: bindM_def)
  ultimately show "R s u" by (rule trans)
qed

lemma keeps_forM: "(\<And>a. a \<in> set xs \<Longrightarrow> keeps R (f a)) \<Longrightarrow> keeps R (forM f xs)"
  by (induction xs) (auto intro!: keeps_bind keeps_pure)

lemma keeps_foldM: "(\<And>a b. a \<in> set xs \<Longrightarrow> keeps R (f a b)) \<Longrightarrow> keeps R (foldM f xs b)"
  by (induction xs arbitrary: b) (auto intro!: keeps_bind keeps_pure)

lemma keeps_try: "keeps R m \<Longrightarrow> keeps R (tryM m)"
  by (auto simp: keeps_def tryM_def split: prod.splits)

lemmas keeps_rules = keeps_pure keeps_bind keeps_forM keeps_foldM keeps_try keeps_cases

end

section \<open>Ordered maps and sets\<close>

text \<open>
  \<open>BTreeMap<K, V>\<close> is an association list with strictly increasing keys, \<open>BTreeSet<K>\<close>
  a strictly increasing list. \<open>bt_ins\<close> is \<open>insert\<close>, \<open>map_of\<close> is \<open>get\<close>, iteration is the
  list itself.
\<close>

fun bt_ins :: "'k::linorder \<Rightarrow> 'v \<Rightarrow> ('k \<times> 'v) list \<Rightarrow> ('k \<times> 'v) list" where
  "bt_ins k v [] = [(k, v)]"
| "bt_ins k v ((k', v') # m) =
     (if k < k' then (k, v) # (k', v') # m
      else if k = k' then (k, v) # m
      else (k', v') # bt_ins k v m)"

definition bt_del :: "'k \<Rightarrow> ('k \<times> 'v) list \<Rightarrow> ('k \<times> 'v) list" where
  "bt_del k m = filter (\<lambda>(k', _). k' \<noteq> k) m"

definition bt_of :: "('k::linorder \<times> 'v) list \<Rightarrow> ('k \<times> 'v) list" where
  "bt_of kvs = fold (\<lambda>(k, v). bt_ins k v) kvs []"

definition bt_ok :: "('k::linorder \<times> 'v) list \<Rightarrow> bool" where
  "bt_ok m \<longleftrightarrow> sorted_wrt (<) (map fst m)"

definition bt_keys :: "('k \<times> 'v) list \<Rightarrow> 'k list" where
  "bt_keys m = map fst m"

fun bs_ins :: "'k::linorder \<Rightarrow> 'k list \<Rightarrow> 'k list" where
  "bs_ins k [] = [k]"
| "bs_ins k (k' # s) =
     (if k < k' then k # k' # s else if k = k' then k' # s else k' # bs_ins k s)"

definition bs_of :: "'k::linorder list \<Rightarrow> 'k list" where
  "bs_of ks = fold bs_ins ks []"

lemma map_of_bt_ins [simp]: "map_of (bt_ins k v m) = (map_of m)(k \<mapsto> v)"
  by (induction k v m rule: bt_ins.induct) (auto simp: fun_eq_iff)

lemma set_keys_bt_ins [simp]: "fst ` set (bt_ins k v m) = insert k (fst ` set m)"
  by (induction k v m rule: bt_ins.induct) auto

lemma bt_ok_Nil [simp]: "bt_ok []"
  by (simp add: bt_ok_def)

lemma bt_ok_Cons: "bt_ok ((k, v) # m) \<longleftrightarrow> (\<forall>k' \<in> fst ` set m. k < k') \<and> bt_ok m"
  by (auto simp: bt_ok_def)

lemma bt_ok_ins [btree, intro]: "bt_ok m \<Longrightarrow> bt_ok (bt_ins k v m)"
  by (induction k v m rule: bt_ins.induct) (auto simp: bt_ok_Cons)

lemma bt_ok_distinct: "bt_ok m \<Longrightarrow> distinct (map fst m)"
  by (simp add: bt_ok_def strict_sorted_iff)

lemma bt_ok_fold: "bt_ok m \<Longrightarrow> bt_ok (fold (\<lambda>(k, v). bt_ins k v) kvs m)"
  by (induction kvs arbitrary: m) (auto intro: bt_ok_ins)

lemma bt_ok_bt_of [btree, simp]: "bt_ok (bt_of kvs)"
  by (simp add: bt_of_def bt_ok_fold)

lemma map_of_fold_bt_ins: "map_of (fold (\<lambda>(k, v). bt_ins k v) kvs m) = map_of m ++ map_of (rev kvs)"
  by (induction kvs arbitrary: m) (auto simp: map_add_def fun_eq_iff split: option.splits)

lemma map_of_bt_of [btree]: "map_of (bt_of kvs) = map_of (rev kvs)"
  by (simp add: bt_of_def map_of_fold_bt_ins)

text \<open>A map built from distinct keys holds the values in place.\<close>

lemma map_of_bt_of_zip:
  assumes "distinct ks" and "length vs = length ks" and "i < length ks"
  shows "map_of (bt_of (zip ks vs)) (ks ! i) = Some (vs ! i)"
proof -
  have "distinct (map fst (rev (zip ks vs)))"
    using assms by (simp add: rev_map [symmetric])
  moreover have "(ks ! i, vs ! i) \<in> set (rev (zip ks vs))"
    using assms by (auto simp: set_zip)
  ultimately show ?thesis by (simp only: map_of_bt_of map_of_is_SomeI)
qed

lemma keys_bt_of: "fst ` set (bt_of kvs) = fst ` set kvs"
proof -
  have "fst ` set (fold (\<lambda>(k, v). bt_ins k v) kvs m) = fst ` set kvs \<union> fst ` set m" for m
  proof (induction kvs arbitrary: m)
    case (Cons kv kvs)
    then show ?case by (cases kv) simp
  qed simp
  then show ?thesis by (simp add: bt_of_def)
qed

lemma length_bt_of_zip:
  assumes "distinct ks" and "length vs = length ks"
  shows "length (bt_of (zip ks vs)) = length ks"
proof -
  have "set (map fst (bt_of (zip ks vs))) = set ks"
    using assms(2) by (metis keys_bt_of map_fst_zip set_map)
  then show ?thesis
    using assms(1) bt_ok_distinct [OF bt_ok_bt_of] by (metis distinct_card length_map)
qed

lemma bt_ok_tl: "bt_ok (p # m) \<Longrightarrow> bt_ok m"
  by (cases p) (simp add: bt_ok_Cons)

text \<open>Two ordered maps with the same lookups are the same list.\<close>

lemma bt_ext:
  assumes "bt_ok m" and "bt_ok n" and "map_of m = map_of n"
  shows "m = n"
proof -
  have "set m = set n"
    using assms by (metis bt_ok_distinct map_of_eqI map_of_inject_set)
  moreover have "sorted (map fst m)" "sorted (map fst n)"
    using assms(1,2) by (auto simp: bt_ok_def strict_sorted_imp_sorted)
  moreover have "inj_on fst (set m \<union> set n)"
    using assms(1) \<open>set m = set n\<close> by (metis bt_ok_distinct distinct_map sup.idem)
  ultimately show ?thesis
    using assms(1,2) by (metis bt_ok_distinct map_sorted_distinct_set_unique)
qed

lemma distinct_map_of_rev: "distinct (map fst m) \<Longrightarrow> map_of (rev m) = map_of m"
  by (rule map_of_inject_set [THEN iffD2]) (simp_all add: rev_map [symmetric])

text \<open>A map built from keys already in order is the list itself.\<close>

lemma bt_of_sorted: "bt_ok m \<Longrightarrow> bt_of m = m"
  by (rule bt_ext) (simp_all add: map_of_bt_of distinct_map_of_rev bt_ok_distinct)

text \<open>
  A loop that inserts one entry per item: the values are computed item by item and the map
  holds them all.
\<close>

lemma efold_bt_ins:
  assumes "\<And>x a. x \<in> set xs \<Longrightarrow> f x a = bindE (g x) (\<lambda>w. Inr (bt_ins (key x) w a))"
  shows "efold f xs acc =
    bindE (emap g xs) (\<lambda>ws. Inr (fold (\<lambda>(k, v). bt_ins k v) (zip (map key xs) ws) acc))"
  using assms
proof (induction xs arbitrary: acc)
  case Nil
  then show ?case by simp
next
  case (Cons x xs)
  have "efold f xs a = bindE (emap g xs)
      (\<lambda>ws. Inr (fold (\<lambda>(k, v). bt_ins k v) (zip (map key xs) ws) a))" for a
    using Cons by simp
  with Cons.prems [of x] show ?case
    by (cases "g x"; cases "emap g xs") auto
qed

lemma set_bs_ins [simp]: "set (bs_ins k s) = insert k (set s)"
  by (induction k s rule: bs_ins.induct) auto

lemma bs_ins_sorted: "sorted_wrt (<) s \<Longrightarrow> sorted_wrt (<) (bs_ins k s)"
  by (induction k s rule: bs_ins.induct) auto

lemma set_bs_of [simp]: "set (bs_of ks) = set ks"
proof -
  have "set (fold bs_ins ks s) = set ks \<union> set s" for s
    by (induction ks arbitrary: s) auto
  then show ?thesis by (simp add: bs_of_def)
qed

text \<open>A loop that rejects an item whose key it has seen accepts exactly the distinct lists.\<close>

lemma efold_bs_ins:
  assumes "\<And>x a b. x \<in> set xs \<Longrightarrow>
      f x a = Inr b \<longleftrightarrow> P x \<and> key x \<notin> set a \<and> b = bs_ins (key x) a"
  shows "efold f xs acc = Inr acc' \<longleftrightarrow>
    (\<forall>x \<in> set xs. P x) \<and> distinct (map key xs) \<and> set (map key xs) \<inter> set acc = {} \<and>
    acc' = fold bs_ins (map key xs) acc"
  using assms
proof (induction xs arbitrary: acc)
  case Nil
  then show ?case by auto
next
  case (Cons x xs)
  have "efold f xs a = Inr acc' \<longleftrightarrow>
    (\<forall>x \<in> set xs. P x) \<and> distinct (map key xs) \<and> set (map key xs) \<inter> set a = {} \<and>
    acc' = fold bs_ins (map key xs) a" for a
    by (rule Cons.IH) (use Cons.prems in auto)
  with Cons.prems [of x] show ?case by (auto simp: bindE_Inr_iff)
qed

lemma efold_bs_ins_ok:
  assumes "\<And>x a b. x \<in> set xs \<Longrightarrow>
      f x a = Inr b \<longleftrightarrow> P x \<and> key x \<notin> set a \<and> b = bs_ins (key x) a"
  shows "(\<exists>b. efold f xs acc = Inr b) \<longleftrightarrow>
    (\<forall>x \<in> set xs. P x) \<and> distinct (map key xs) \<and> set (map key xs) \<inter> set acc = {}"
  using efold_bs_ins [of xs f P key acc] assms by blast

lemma set_fold_bs_ins [simp]: "set (fold bs_ins ks s) = set ks \<union> set s"
  by (induction ks arbitrary: s) auto

lemma bs_of_sorted [simp]: "sorted_wrt (<) (bs_of ks)"
proof -
  have "sorted_wrt (<) s \<Longrightarrow> sorted_wrt (<) (fold bs_ins ks s)" for s
    by (induction ks arbitrary: s) (auto intro: bs_ins_sorted)
  then show ?thesis by (simp add: bs_of_def)
qed

lemma bs_of_distinct [simp]: "distinct (bs_of ks)"
  by (meson bs_of_sorted strict_sorted_iff)

text \<open>\<open>iter().collect::<BTreeSet<_>>().len() == len()\<close>\<close>

lemma length_bs_of: "length (bs_of ks) = length ks \<longleftrightarrow> distinct ks"
proof -
  have "length (bs_of ks) = card (set ks)"
    using distinct_card [OF bs_of_distinct, of ks] by simp
  then show ?thesis using card_distinct distinct_card by metis
qed

section \<open>Keyed stores\<close>

text \<open>
  What the engine relies on in every table it keys: a lookup sees the last write of its key
  and nothing else. Tables are interpreted below and in the component theories.
\<close>

locale keyed_store =
  fixes get :: "'m \<Rightarrow> 'k \<Rightarrow> 'v option"
    and put :: "'k \<Rightarrow> 'v \<Rightarrow> 'm \<Rightarrow> 'm"
    and del :: "'k \<Rightarrow> 'm \<Rightarrow> 'm"
  assumes get_put: "get (put k v m) = (get m)(k \<mapsto> v)"
    and get_del: "get (del k m) = (get m)(k := None)"
begin

lemma get_put_same: "get (put k v m) k = Some v"
  by (simp add: get_put)

lemma get_put_other: "k' \<noteq> k \<Longrightarrow> get (put k v m) k' = get m k'"
  by (simp add: get_put)

lemma get_del_same: "get (del k m) k = None"
  by (simp add: get_del)

lemma get_del_other: "k' \<noteq> k \<Longrightarrow> get (del k m) k' = get m k'"
  by (simp add: get_del)

text \<open>Writing a list of entries: the last entry of a key wins, other keys keep their value.\<close>

lemma get_fold_put: "get (fold (\<lambda>(k, v). put k v) kvs m) = get m ++ map_of (rev kvs)"
  by (induction kvs arbitrary: m)
     (auto simp: get_put map_add_def fun_eq_iff split: option.splits)

end

definition al_put :: "'k \<Rightarrow> 'v \<Rightarrow> ('k \<times> 'v) list \<Rightarrow> ('k \<times> 'v) list" where
  "al_put k v m = AList.update k v m"

definition al_del :: "'k \<Rightarrow> ('k \<times> 'v) list \<Rightarrow> ('k \<times> 'v) list" where
  "al_del k m = AList.delete k m"

interpretation al: keyed_store map_of al_put al_del
  by unfold_locales (simp_all add: al_put_def al_del_def update_conv' delete_conv')

lemma map_of_al_put [simp]: "map_of (al_put k v m) = (map_of m)(k \<mapsto> v)"
  by (rule al.get_put)

lemma map_of_al_del [simp]: "map_of (al_del k m) = (map_of m)(k := None)"
  by (rule al.get_del)

lemma bt_get_del: "map_of (bt_del k m) = (map_of m)(k := None)"
  by (induction m) (auto simp: bt_del_def fun_eq_iff)

interpretation bt: keyed_store map_of bt_ins bt_del
  by unfold_locales (simp_all add: bt_get_del)

lemma bt_ok_del [btree, intro]: "bt_ok m \<Longrightarrow> bt_ok (bt_del k m)"
  by (induction m) (auto simp: bt_del_def bt_ok_Cons)

section \<open>Lists\<close>

lemma find_Some_in: "find P xs = Some x \<Longrightarrow> x \<in> set xs \<and> P x"
  by (induction xs) (auto split: if_splits)

lemma find_None: "find P xs = None \<longleftrightarrow> (\<forall>x \<in> set xs. \<not> P x)"
  by (induction xs) auto

lemma find_filter: "find P xs = (case filter P xs of [] \<Rightarrow> None | x # _ \<Rightarrow> Some x)"
  by (induction xs) auto

lemma sort_key_id:
  assumes "sorted (map k xs)"
  shows "sort_key k xs = xs"
  using assms by (induction xs) (auto simp: insort_is_Cons)

end
