(* ===== verification/Text.thy ===== *)
theory Text
  imports Prelude
begin

text \<open>
  Rust strings. A \<open>String\<close> is its UTF-8 bytes (\<open>string\<close>, one \<open>char\<close> per byte), so \<open>Ord\<close> on
  strings is the byte order of \<open>List_Lexorder\<close>. \<open>encode_utf16\<close>, \<open>trim\<close>, \<open>split\<close> and the
  ASCII classes are the standard library's.
\<close>

abbreviation byte :: "char \<Rightarrow> nat" where
  "byte c \<equiv> of_char c"

text \<open>The code points of a UTF-8 text.\<close>

fun points :: "string \<Rightarrow> nat list" where
  "points [] = []"
| "points (a # r) =
     (if byte a < 128 then byte a # points r
      else if byte a < 224 then
        (case r of b # r' \<Rightarrow> ((byte a - 192) * 64 + (byte b - 128)) # points r' | _ \<Rightarrow> [])
      else if byte a < 240 then
        (case r of b # c # r' \<Rightarrow>
           ((byte a - 224) * 4096 + (byte b - 128) * 64 + (byte c - 128)) # points r'
         | _ \<Rightarrow> [])
      else
        (case r of b # c # d # r' \<Rightarrow>
           ((byte a - 240) * 262144 + (byte b - 128) * 4096 + (byte c - 128) * 64 + (byte d - 128))
             # points r'
         | _ \<Rightarrow> []))"

text \<open>\<open>str::encode_utf16\<close>: a code point above \<open>U+FFFF\<close> is a surrogate pair.\<close>

definition units :: "nat \<Rightarrow> nat list" where
  "units p = (if p < 65536 then [p]
     else [55296 + (p - 65536) div 1024, 56320 + (p - 65536) mod 1024])"

definition utf16 :: "string \<Rightarrow> nat list" where
  "utf16 s = concat (map units (points s))"

definition is_white :: "nat \<Rightarrow> bool" where
  "is_white p \<longleftrightarrow> 9 \<le> p \<and> p \<le> 13 \<or> p = 32 \<or> p = 133 \<or> p = 160 \<or> p = 5760
     \<or> 8192 \<le> p \<and> p \<le> 8202 \<or> p = 8232 \<or> p = 8233 \<or> p = 8239 \<or> p = 8287 \<or> p = 12288"

text \<open>\<open>s.trim().is_empty()\<close>\<close>

definition blank :: "string \<Rightarrow> bool" where
  "blank s \<longleftrightarrow> list_all is_white (points s)"

definition is_lower :: "char \<Rightarrow> bool" where
  "is_lower c \<longleftrightarrow> 97 \<le> byte c \<and> byte c \<le> 122"

definition is_upper :: "char \<Rightarrow> bool" where
  "is_upper c \<longleftrightarrow> 65 \<le> byte c \<and> byte c \<le> 90"

definition is_digit :: "char \<Rightarrow> bool" where
  "is_digit c \<longleftrightarrow> 48 \<le> byte c \<and> byte c \<le> 57"

definition to_lower :: "char \<Rightarrow> char" where
  "to_lower c = (if is_upper c then char_of (byte c + 32) else c)"

text \<open>To lower case on the bits of a character, as evaluation uses it.\<close>

lemma to_lower_code [code]:
  "to_lower (Char b0 b1 b2 b3 b4 b5 b6 b7) =
     (if \<not> b7 \<and> b6 \<and> \<not> b5 \<and> (b0 \<or> b1 \<or> b2 \<or> b3 \<or> b4) \<and> \<not> (b4 \<and> b3 \<and> (b2 \<or> b1 \<and> b0))
      then Char b0 b1 b2 b3 b4 True b6 b7 else Char b0 b1 b2 b3 b4 b5 b6 b7)"
  by (cases b0; cases b1; cases b2; cases b3; cases b4; cases b5; cases b6; cases b7;
      simp add: to_lower_def is_upper_def char_of_def bit_0)
definition lowercase :: "string \<Rightarrow> string" where
  "lowercase s = map to_lower s"

definition starts_with :: "string \<Rightarrow> string \<Rightarrow> bool" where
  "starts_with p s \<longleftrightarrow> take (length p) s = p"

text \<open>\<open>s.split(pattern)\<close>: always at least one part.\<close>

fun split_on :: "(char \<Rightarrow> bool) \<Rightarrow> string \<Rightarrow> string list" where
  "split_on p [] = [[]]"
| "split_on p (c # s) =
     (if p c then [] # split_on p s
      else (case split_on p s of [] \<Rightarrow> [[c]] | w # ws \<Rightarrow> (c # w) # ws))"

fun join :: "string \<Rightarrow> string list \<Rightarrow> string" where
  "join sep [] = []"
| "join sep [s] = s"
| "join sep (s # t # ss) = s @ sep @ join sep (t # ss)"

text \<open>Decimal digits of a number, as \<open>to_string\<close> prints an unsigned integer.\<close>

fun decimal :: "nat \<Rightarrow> string" where
  "decimal n = (if n < 10 then [char_of (48 + n)] else decimal (n div 10) @ [char_of (48 + n mod 10)])"

declare decimal.simps [simp del]

lemma starts_with_append: "starts_with p (p @ s)"
  by (simp add: starts_with_def)

lemma starts_with_iff: "starts_with p s \<longleftrightarrow> (\<exists>r. s = p @ r)"
  by (metis append_eq_conv_conj append_take_drop_id starts_with_def)

lemma split_on_nonempty: "split_on p s \<noteq> []"
  by (induction s) (auto split: list.splits)

text \<open>The characters of a text, each with its bytes; \<open>trim\<close>.\<close>

fun chars :: "string \<Rightarrow> string list" where
  "chars [] = []"
| "chars (a # r) =
     (if byte a < 128 then [a] # chars r
      else if byte a < 224 then (case r of b # r' \<Rightarrow> [a, b] # chars r' | _ \<Rightarrow> [])
      else if byte a < 240 then (case r of b # c # r' \<Rightarrow> [a, b, c] # chars r' | _ \<Rightarrow> [])
      else (case r of b # c # d # r' \<Rightarrow> [a, b, c, d] # chars r' | _ \<Rightarrow> []))"

definition white :: "string \<Rightarrow> bool" where
  "white c \<longleftrightarrow> (case points c of [p] \<Rightarrow> is_white p | _ \<Rightarrow> False)"

definition newline :: string where "newline = [CHR 0x0A]"

definition trim :: "string \<Rightarrow> string" where
  "trim s = concat (rev (dropWhile white (rev (dropWhile white (chars s)))))"

text \<open>The number some digits write.\<close>

definition number_of :: "string \<Rightarrow> nat" where
  "number_of s = fold (\<lambda>c n. 10 * n + (byte c - byte CHR ''0'')) s 0"

lemma number_of_append: "number_of (s @ [c]) = 10 * number_of s + (byte c - byte CHR ''0'')"
  by (simp add: number_of_def)

lemma number_of_decimal: "number_of (decimal n) = n"
proof (induction n rule: decimal.induct)
  case (1 n)
  have digit: "k < 10 \<Longrightarrow> of_char (char_of (48 + k) :: char) = 48 + k" for k :: nat by simp
  show ?case
  proof (cases "n < 10")
    case True
    then show ?thesis by (simp add: decimal.simps [of n] number_of_def digit)
  next
    case False
    with 1 show ?thesis by (subst decimal.simps) (simp add: number_of_append digit)
  qed
qed

lemma decimal_inject [simp]: "decimal a = decimal b \<longleftrightarrow> a = b"
  by (metis number_of_decimal)

text \<open>\<open>s.parse::<u64>()\<close>: digits, after at most one plus sign.\<close>

definition parse_u64 :: "string \<Rightarrow> nat option" where
  "parse_u64 s = (let t = (case s of c # r \<Rightarrow> if c = CHR ''+'' then r else s | [] \<Rightarrow> s) in
     if t \<noteq> [] \<and> list_all is_digit t \<and> number_of t < 2 ^ 64 then Some (number_of t) else None)"

text \<open>ASCII text: one code point and one UTF-16 unit per byte, so both orders agree.\<close>

definition ascii :: "string \<Rightarrow> bool" where
  "ascii s \<longleftrightarrow> (\<forall>c \<in> set s. byte c < 128)"

lemma points_ascii: "ascii s \<Longrightarrow> points s = map of_char s"
  by (induction s) (auto simp: ascii_def)

lemma utf16_ascii: "ascii s \<Longrightarrow> utf16 s = map of_char s"
proof -
  assume "ascii s"
  then have "units p = [p]" if "p \<in> set (map of_char s)" for p
    using that by (auto simp: units_def ascii_def)
  then have "concat (map units (map of_char s)) = concat (map (\<lambda>p. [p]) (map of_char s))"
    by (intro arg_cong [where f = concat] map_cong) auto
  then show ?thesis using \<open>ascii s\<close> by (simp add: utf16_def points_ascii comp_def)
qed

lemma utf16_ascii_less: "ascii s \<Longrightarrow> ascii t \<Longrightarrow> utf16 s < utf16 t \<longleftrightarrow> s < t"
proof (induction s arbitrary: t)
  case Nil
  then show ?case by (cases t) (auto simp: utf16_ascii)
next
  case (Cons c s)
  then show ?case
    by (cases t) (auto simp: utf16_ascii ascii_def less_char_def)
qed

end
