(* ===== verification/Json.thy ===== *)
theory Json
  imports Text
begin

text \<open>
  \<open>crates/core/src/lib.rs\<close>: JSON values, the error type and \<open>canonical_json\<close>. Numbers are
  \<open>serde_json::Number\<close>'s three cases; a finite double is a sign, a significand and a binary
  exponent. The functions of packages the repository only calls are fields of \<open>ext\<close>.
\<close>

section \<open>Values\<close>

datatype f64 = F64 (f_neg: bool) (f_mant: nat) (f_exp: int)

datatype number = PosInt nat | NegInt int | Float f64

datatype json =
    JNull
  | JBool bool
  | JNum number
  | JStr string
  | JArr "json list"
  | JObj "(string \<times> json) list"

text \<open>\<open>Error::Invalid\<close> carries its message, \<open>Error::Json\<close> the parser's.\<close>

datatype err = Invalid string | JsonError string

fun err_text :: "err \<Rightarrow> string" where
  "err_text (Invalid m) = m"
| "err_text (JsonError m) = m"

type_synonym 'a res = "err + 'a"

definition invalid :: "string \<Rightarrow> err" where
  "invalid m = Invalid m"

text \<open>
  Packages: \<open>serde_json::to_string\<close> of a string and of a value, \<open>serde_jcs::to_string\<close> of a
  scalar, \<open>serde_json::from_str\<close>, \<open>uuid::Uuid::parse_str\<close> (the hyphenated lower-case text,
  whether the variant is RFC 4122, the version number) and
  \<open>chrono::DateTime::parse_from_rfc3339\<close> followed by the UTC text with milliseconds, and
  the text SQLite reports a broken constraint with.
\<close>

record ext =
  x_string :: "string \<Rightarrow> string"
  x_text :: "json \<Rightarrow> string"
  x_jcs :: "json \<Rightarrow> string"
  x_parse :: "string \<Rightarrow> string + json"
  x_uuid :: "string \<Rightarrow> (string \<times> bool \<times> nat) option"
  x_rfc3339 :: "string \<Rightarrow> string option"
  x_sql :: "string \<Rightarrow> string"

definition from_str :: "ext \<Rightarrow> string \<Rightarrow> json res" where
  "from_str x s = (case x_parse x s of Inl m \<Rightarrow> Inl (JsonError m) | Inr v \<Rightarrow> Inr v)"

section \<open>Doubles\<close>

fun bits :: "nat \<Rightarrow> nat" where
  "bits n = (if n = 0 then 0 else Suc (bits (n div 2)))"

declare bits.simps [simp del]

text \<open>\<open>n as f64\<close>: rounded to 53 bits, ties to even.\<close>

definition f64_of_nat :: "nat \<Rightarrow> f64" where
  "f64_of_nat n =
     (let s = bits n - 53; q = n div 2 ^ s; r = n mod 2 ^ s in
      if s = 0 then F64 False n 0
      else if 2 * r > 2 ^ s \<or> (2 * r = 2 ^ s \<and> odd q) then F64 False (Suc q) (int s)
      else F64 False q (int s))"

definition f64_of_int :: "int \<Rightarrow> f64" where
  "f64_of_int i = (if i < 0 then (case f64_of_nat (nat (- i)) of F64 _ m e \<Rightarrow> F64 True m e)
     else f64_of_nat (nat i))"

definition f_is_zero :: "f64 \<Rightarrow> bool" where
  "f_is_zero f \<longleftrightarrow> f_mant f = 0"

text \<open>\<open>f.fract() == 0.0\<close>, and the magnitude of an integral double.\<close>

definition f_integral :: "f64 \<Rightarrow> bool" where
  "f_integral f \<longleftrightarrow> 0 \<le> f_exp f \<or> f_mant f mod 2 ^ nat (- f_exp f) = 0"

definition f_magnitude :: "f64 \<Rightarrow> nat" where
  "f_magnitude f = (if 0 \<le> f_exp f then f_mant f * 2 ^ nat (f_exp f)
     else f_mant f div 2 ^ nat (- f_exp f))"

fun as_f64 :: "json \<Rightarrow> f64 option" where
  "as_f64 (JNum (PosInt n)) = Some (f64_of_nat n)"
| "as_f64 (JNum (NegInt i)) = Some (f64_of_int i)"
| "as_f64 (JNum (Float f)) = Some f"
| "as_f64 _ = None"

definition max_safe_integer :: nat where
  "max_safe_integer = 9007199254740991"

lemma bits_le: "n < 2 ^ k \<Longrightarrow> bits n \<le> k"
proof (induction n arbitrary: k rule: bits.induct)
  case (1 n)
  show ?case
  proof (cases "n = 0")
    case True
    then show ?thesis by (simp add: bits.simps)
  next
    case False
    with "1.prems" obtain j where k: "k = Suc j" by (cases k) auto
    from "1.prems" have "n div 2 < 2 ^ j" by (simp add: k)
    with "1.IH" [OF False] have "bits (n div 2) \<le> j" by blast
    with False k show ?thesis by (simp add: bits.simps [of n])
  qed
qed

lemma bits_ge: "2 ^ k \<le> n \<Longrightarrow> k < bits n"
proof (induction n arbitrary: k rule: bits.induct)
  case (1 n)
  then have n: "n \<noteq> 0" by (metis le_zero_eq power_not_zero zero_neq_numeral)
  show ?case
  proof (cases k)
    case 0
    with n show ?thesis by (simp add: bits.simps [of n])
  next
    case (Suc j)
    with "1.prems" have "2 ^ j \<le> n div 2" by simp
    with "1.IH" [OF n] have "j < bits (n div 2)" by blast
    with n Suc show ?thesis by (simp add: bits.simps [of n])
  qed
qed

lemma bits_pow: "n \<noteq> 0 \<Longrightarrow> 2 ^ (bits n - 1) \<le> n"
proof (induction n rule: bits.induct)
  case (1 n)
  show ?case
  proof (cases "n div 2 = 0")
    case True
    with "1.prems" have "n = 1" by simp
    moreover have "bits (Suc 0) = 1" by (simp add: bits.simps [of "Suc 0"] bits.simps [of 0])
    ultimately show ?thesis by simp
  next
    case False
    with "1.IH" [OF "1.prems"] have ih: "2 ^ (bits (n div 2) - 1) \<le> n div 2" by simp
    have "bits (n div 2) \<noteq> 0" using False by (simp add: bits.simps [of "n div 2"])
    then have "2 ^ bits (n div 2) = 2 * 2 ^ (bits (n div 2) - 1)"
      by (cases "bits (n div 2)") simp_all
    also have "\<dots> \<le> 2 * (n div 2)" using ih by simp
    also have "\<dots> \<le> n" by simp
    finally show ?thesis using "1.prems" by (simp add: bits.simps [of n])
  qed
qed

text \<open>Up to \<open>2\<^sup>53 - 1\<close> an unsigned integer is a double exactly; above it the double is above too.\<close>

lemma f64_of_nat_exact: "n \<le> max_safe_integer \<Longrightarrow> f64_of_nat n = F64 False n 0"
proof -
  assume "n \<le> max_safe_integer"
  then have "n < 2 ^ 53" by (simp add: max_safe_integer_def)
  then have "bits n \<le> 53" by (rule bits_le)
  then show ?thesis by (simp add: f64_of_nat_def Let_def)
qed

lemma f64_of_nat_large:
  assumes "max_safe_integer < n"
  shows "max_safe_integer < f_magnitude (f64_of_nat n)"
proof -
  define s where "s = bits n - 53"
  have n: "2 ^ 53 \<le> n" using assms by (simp add: max_safe_integer_def)
  then have "53 < bits n" by (rule bits_ge)
  then have s: "0 < s" "bits n - 1 = 52 + s" by (simp_all add: s_def)
  have "n \<noteq> 0" using n by auto
  from bits_pow [OF this] have "2 ^ 52 * 2 ^ s \<le> n" by (simp only: s(2) power_add)
  then have q: "2 ^ 52 \<le> n div 2 ^ s" by (simp add: less_eq_div_iff_mult_less_eq)
  have "(2::nat) ^ 53 = 2 ^ 52 * 2 ^ 1" by simp
  also have "\<dots> \<le> 2 ^ 52 * 2 ^ s" using s(1) by (intro mult_le_mono power_increasing) auto
  also have "\<dots> \<le> (n div 2 ^ s) * 2 ^ s" using q by (rule mult_le_mono1)
  finally have base: "2 ^ 53 \<le> (n div 2 ^ s) * 2 ^ s" .
  then have "2 ^ 53 \<le> Suc (n div 2 ^ s) * 2 ^ s" by simp
  with base have "2 ^ 53 \<le> f_magnitude (f64_of_nat n)"
    using s(1) by (auto simp: f64_of_nat_def Let_def f_magnitude_def simp flip: s_def)
  then show ?thesis by (simp add: max_safe_integer_def)
qed

section \<open>Access\<close>

fun as_object :: "json \<Rightarrow> (string \<times> json) list option" where
  "as_object (JObj kvs) = Some kvs"
| "as_object _ = None"

fun as_array :: "json \<Rightarrow> json list option" where
  "as_array (JArr vs) = Some vs"
| "as_array _ = None"

fun as_str :: "json \<Rightarrow> string option" where
  "as_str (JStr s) = Some s"
| "as_str _ = None"

fun as_u64 :: "json \<Rightarrow> nat option" where
  "as_u64 (JNum (PosInt n)) = Some n"
| "as_u64 _ = None"

definition is_null :: "json \<Rightarrow> bool" where
  "is_null v \<longleftrightarrow> v = JNull"

definition is_object :: "json \<Rightarrow> bool" where
  "is_object v \<longleftrightarrow> as_object v \<noteq> None"

text \<open>\<open>Value::get\<close> and \<open>value["k"]\<close> (\<open>null\<close> where there is nothing).\<close>

fun get :: "json \<Rightarrow> string \<Rightarrow> json option" where
  "get (JObj kvs) k = map_of kvs k"
| "get _ k = None"

definition index :: "json \<Rightarrow> string \<Rightarrow> json" where
  "index v k = (case get v k of None \<Rightarrow> JNull | Some w \<Rightarrow> w)"

text \<open>\<open>Map::from_iter\<close>: an object built by inserting its entries in order.\<close>

definition obj :: "(string \<times> json) list \<Rightarrow> json" where
  "obj kvs = JObj (bt_of kvs)"

text \<open>\<open>value["k"] = w\<close> on an object; on \<open>null\<close> it makes an object, elsewhere it panics and
  the engine never does it.\<close>

fun set_key :: "json \<Rightarrow> string \<Rightarrow> json \<Rightarrow> json" where
  "set_key (JObj kvs) k w = JObj (bt_ins k w kvs)"
| "set_key _ k w = JObj [(k, w)]"

abbreviation jnat :: "nat \<Rightarrow> json" where
  "jnat n \<equiv> JNum (PosInt n)"

text \<open>\<open>Value::from(i64)\<close>\<close>

definition jint :: "int \<Rightarrow> json" where
  "jint i = JNum (if i < 0 then NegInt i else PosInt (nat i))"

lemma size_entry: "kv \<in> set kvs \<Longrightarrow> size (snd kv) < size (JObj kvs)"
proof (induction kvs)
  case Nil
  then show ?case by simp
next
  case (Cons a kvs)
  then show ?case by (cases a) (auto simp: less_Suc_eq)
qed

text \<open>Every object's keys are in order: what \<open>serde_json::Map\<close> guarantees.\<close>

function jwf :: "json \<Rightarrow> bool" where
  "jwf JNull = True"
| "jwf (JBool b) = True"
| "jwf (JNum n) = True"
| "jwf (JStr s) = True"
| "jwf (JArr vs) = list_all jwf vs"
| "jwf (JObj kvs) = (bt_ok kvs \<and> list_all (\<lambda>kv. jwf (snd kv)) kvs)"
  by pat_completeness auto
termination
proof (relation "measure size", goal_cases)
  case (3 kvs kv)
  from size_entry [OF this] show ?case by simp
qed (auto simp: less_Suc_eq_le size_list_estimation')

section \<open>Canonical text\<close>

text \<open>
  \<open>canonical_json\<close>: object keys sorted by UTF-16 code units, entries joined by commas; a
  scalar is printed by \<open>serde_jcs\<close>.
\<close>

function canonical_json :: "ext \<Rightarrow> json \<Rightarrow> string" where
  "canonical_json x (JObj kvs) =
     ''{'' @ join '','' (map (\<lambda>(k, t). x_string x k @ '':'' @ t)
        (sort_key (\<lambda>kt. utf16 (fst kt)) (map (\<lambda>kv. (fst kv, canonical_json x (snd kv))) kvs)))
     @ ''}''"
| "canonical_json x (JArr vs) = ''['' @ join '','' (map (canonical_json x) vs) @ '']''"
| "canonical_json x JNull = x_jcs x JNull"
| "canonical_json x (JBool b) = x_jcs x (JBool b)"
| "canonical_json x (JNum n) = x_jcs x (JNum n)"
| "canonical_json x (JStr s) = x_jcs x (JStr s)"
  by pat_completeness auto
termination
proof (relation "measure (\<lambda>(x, v). size v)", goal_cases)
  case (2 x kvs kv)
  from size_entry [OF this] show ?case by simp
qed (auto simp: less_Suc_eq_le size_list_estimation')

text \<open>
  The law of the parser the engine relies on: text the engine wrote reads back as the value
  it wrote. For canonical text it is asked only of the values in \<open>V\<close> (an integral double
  prints like an integer, so it does not hold of every value).
\<close>

definition text_ok :: "ext \<Rightarrow> json \<Rightarrow> bool" where
  "text_ok x v \<longleftrightarrow> x_parse x (x_text x v) = Inr v"

definition canonical_ok :: "ext \<Rightarrow> json \<Rightarrow> bool" where
  "canonical_ok x v \<longleftrightarrow> x_parse x (canonical_json x v) = Inr v"

lemma from_str_text: "text_ok x v \<Longrightarrow> from_str x (x_text x v) = Inr v"
  by (simp add: from_str_def text_ok_def)

lemma from_str_canonical: "canonical_ok x v \<Longrightarrow> from_str x (canonical_json x v) = Inr v"
  by (simp add: from_str_def canonical_ok_def)

lemma get_obj: "get (obj kvs) k = map_of (rev kvs) k"
  by (simp add: obj_def map_of_bt_of)

lemma get_set_key: "get (set_key (JObj kvs) k w) = (get (JObj kvs))(k \<mapsto> w)"
  by (auto simp: fun_eq_iff)

lemma index_set_key: "index (set_key (JObj kvs) k w) k' = (if k' = k then w else index (JObj kvs) k')"
  by (simp add: index_def)

lemma jwf_obj:
  assumes "list_all (\<lambda>kv. jwf (snd kv)) kvs"
  shows "jwf (obj kvs)"
proof -
  have step: "list_all (\<lambda>kv. jwf (snd kv)) m \<Longrightarrow> jwf v \<Longrightarrow> list_all (\<lambda>kv. jwf (snd kv)) (bt_ins k v m)"
    for k v and m :: "(string \<times> json) list"
    by (induction k v m rule: bt_ins.induct) auto
  have "list_all (\<lambda>kv. jwf (snd kv)) (fold (\<lambda>(k, v). bt_ins k v) kvs m)"
    if "list_all (\<lambda>kv. jwf (snd kv)) m" for m
    using assms that
  proof (induction kvs arbitrary: m)
    case Nil
    then show ?case by simp
  next
    case (Cons kv kvs)
    then show ?case by (cases kv) (simp add: step)
  qed
  from this [of "[]"] show ?thesis by (simp add: obj_def bt_of_def bt_ok_fold)
qed

text \<open>Objects with the same lookups are the same value.\<close>

lemma jobj_ext: "bt_ok m \<Longrightarrow> bt_ok n \<Longrightarrow> map_of m = map_of n \<Longrightarrow> JObj m = JObj n"
  by (simp add: bt_ext)

end
