(* ===== verification/Schema.thy ===== *)
theory Schema
  imports Json "HOL-Library.Product_Lexorder"
begin

text \<open>
  \<open>crates/core/src/schema.rs\<close>: the schema's descriptors, its validation, record keys and the
  normalisation of identities, states and patches. The schema and the package functions are
  arguments; \<open>serde_json::to_value\<close> of two value types is equal exactly when the types are.
\<close>

section \<open>Descriptors\<close>

datatype scalar_type = StString | StBoolean | StInt | StFloat | StDateTime | StUuid

datatype value_type = TScalar scalar_type | TEnum string | TList value_type

record enum_desc =
  e_name :: string
  e_values :: "string list"

record field_desc =
  f_name :: string
  f_type :: value_type
  f_nullable :: bool
  f_default :: "json option"

record relation_desc =
  r_name :: string
  r_target :: string
  r_fields :: "string list"
  r_target_fields :: "string list"
  r_on_delete :: string

record model_desc =
  m_name :: string
  m_version :: nat
  m_identity :: "string list"
  m_fields :: "field_desc list"
  m_relations :: "relation_desc list"
  m_unique :: "string list list"

record requirement_desc =
  q_model :: string
  q_field :: string
  q_name :: string
  q_arguments :: "(string \<times> string) list"

record schema =
  s_enums :: "enum_desc list"
  s_models :: "model_desc list"
  s_requirements :: "requirement_desc list"
  s_prerequisites :: "json list"
  s_policies :: "json list"

record rkey =
  k_model :: string
  k_identity :: json

definition encoded_identity :: "ext \<Rightarrow> rkey \<Rightarrow> string" where
  "encoded_identity x k = canonical_json x (k_identity k)"

definition encoded :: "ext \<Rightarrow> rkey \<Rightarrow> string" where
  "encoded x k = canonical_json x (JArr [JStr (k_model k), k_identity k])"

definition reserved_model_name :: "string \<Rightarrow> bool" where
  "reserved_model_name name =
     (let lower = lowercase name in starts_with ''ahead_'' lower \<or> starts_with ''sqlite_'' lower)"

fun is_scalar :: "value_type \<Rightarrow> bool" where
  "is_scalar (TScalar _) = True"
| "is_scalar _ = False"

fun is_list :: "value_type \<Rightarrow> bool" where
  "is_list (TList _) = True"
| "is_list _ = False"

text \<open>\<open>fields.iter().find(|f| &f.name == name)\<close>\<close>

definition field_of :: "model_desc \<Rightarrow> string \<Rightarrow> field_desc option" where
  "field_of m name = find (\<lambda>f. f_name f = name) (m_fields m)"

definition model_of :: "schema \<Rightarrow> string \<Rightarrow> model_desc res" where
  "model_of s name =
     ok_or (find (\<lambda>m. m_name m = name) (s_models s)) (invalid (''unknown model '' @ name))"

section \<open>Validation\<close>

fun validate_type :: "schema \<Rightarrow> value_type \<Rightarrow> unit res" where
  "validate_type s (TEnum name) =
     ensure (\<exists>e \<in> set (s_enums s). e_name e = name) (invalid ''unknown enum'')"
| "validate_type s (TList element) =
     ensure (is_scalar element) (invalid ''list elements must be scalar'')"
| "validate_type s _ = Inr ()"

text \<open>The loops over a growing \<open>BTreeSet\<close> thread it as a sorted list.\<close>

definition validate_enum :: "enum_desc \<Rightarrow> string list \<Rightarrow> string list res" where
  "validate_enum en names =
     bindE (ensure (\<not> (e_name en = [] \<or> e_name en \<in> set names \<or> e_values en = []
         \<or> [] \<in> set (e_values en) \<or> length (bs_of (e_values en)) \<noteq> length (e_values en)))
       (invalid ''invalid enum descriptor''))
     (\<lambda>_. Inr (bs_ins (e_name en) names))"

definition validate_field :: "schema \<Rightarrow> field_desc \<Rightarrow> string list \<Rightarrow> string list res" where
  "validate_field s f names =
     bindE (ensure (\<not> (f_name f = [] \<or> f_name f \<in> set names)) (invalid ''duplicate or empty field''))
     (\<lambda>_. bindE (validate_type s (f_type f))
     (\<lambda>_. bindE (ensure (\<not> (is_list (f_type f) \<and> f_nullable f)) (invalid ''lists cannot be nullable''))
     (\<lambda>_. Inr (bs_ins (f_name f) names))))"

definition validate_identity :: "model_desc \<Rightarrow> string \<Rightarrow> string list \<Rightarrow> string list res" where
  "validate_identity m name names =
     bindE (ok_or (field_of m name) (invalid ''identity field missing''))
     (\<lambda>f. bindE (ensure (\<not> (name \<in> set names \<or> f_nullable f \<or> \<not> is_scalar (f_type f)))
          (invalid ''invalid identity descriptor''))
     (\<lambda>_. Inr (bs_ins name names)))"

definition validate_model :: "schema \<Rightarrow> model_desc \<Rightarrow> string list \<Rightarrow> string list res" where
  "validate_model s m names =
     bindE (ensure (\<not> reserved_model_name (m_name m))
       (invalid (''model name '' @ m_name m @ '' uses a reserved prefix'')))
     (\<lambda>_. bindE (ensure (\<not> (m_name m = [] \<or> m_name m \<in> set names \<or> m_identity m = []))
       (invalid ''invalid model descriptor''))
     (\<lambda>_. bindE (ensure (\<not> (m_version m = 0 \<or> max_safe_integer < m_version m))
       (invalid ''invalid model version''))
     (\<lambda>_. bindE (efold (validate_field s) (m_fields m) [])
     (\<lambda>_. bindE (efold (validate_identity m) (m_identity m) [])
     (\<lambda>_. Inr (bs_ins (m_name m) names))))))"

definition validate_requirement :: "schema \<Rightarrow> requirement_desc \<Rightarrow> unit res" where
  "validate_requirement s q =
     bindE (model_of s (q_model q))
     (\<lambda>m. bindE (ensure (\<not> ((\<forall>f \<in> set (m_fields m). f_name f \<noteq> q_field q)
           \<or> (\<forall>p \<in> set (s_prerequisites s). index p ''name'' \<noteq> JStr (q_name q))))
         (invalid ''invalid prerequisite requirement''))
     (\<lambda>_. ensure (\<forall>kv \<in> set (q_arguments q). snd kv = ''self'')
         (invalid ''unsupported prerequisite argument expression'')))"

definition validate_unique :: "model_desc \<Rightarrow> string list \<Rightarrow> unit res" where
  "validate_unique m cols =
     ensure (\<not> (cols = [] \<or> length (bs_of cols) \<noteq> length cols
         \<or> (\<exists>name \<in> set cols. \<forall>f \<in> set (m_fields m). f_name f \<noteq> name)))
       (invalid ''invalid unique constraint'')"

definition validate_reference :: "model_desc \<Rightarrow> model_desc \<Rightarrow> string \<times> string \<Rightarrow> unit res" where
  "validate_reference m target lr =
     bindE (ok_or (field_of m (fst lr)) (invalid ''reference field missing''))
     (\<lambda>local. bindE (ok_or (field_of target (snd lr)) (invalid ''target field missing''))
     (\<lambda>remote. ensure (f_type local = f_type remote) (invalid ''reference field type mismatch'')))"

definition validate_relation ::
  "schema \<Rightarrow> model_desc \<Rightarrow> relation_desc \<Rightarrow> string list \<Rightarrow> string list res" where
  "validate_relation s m r names =
     bindE (model_of s (r_target r))
     (\<lambda>target. bindE (ensure (\<not> (r_name r = [] \<or> r_name r \<in> set names
           \<or> length (r_fields r) \<noteq> length (m_identity target)
           \<or> r_target_fields r \<noteq> m_identity target
           \<or> r_on_delete r \<notin> {''delete'', ''none''}))
         (invalid ''invalid reference relation''))
     (\<lambda>_. bindE (echeck (validate_reference m target) (zip (r_fields r) (r_target_fields r)))
     (\<lambda>_. Inr (bs_ins (r_name r) names))))"

definition validate_constraints :: "schema \<Rightarrow> model_desc \<Rightarrow> unit res" where
  "validate_constraints s m =
     bindE (echeck (validate_unique m) (m_unique m))
     (\<lambda>_. bindE (efold (validate_relation s m) (m_relations m) []) (\<lambda>_. Inr ()))"

definition validate :: "schema \<Rightarrow> unit res" where
  "validate s =
     bindE (ensure (s_models s \<noteq> []) (invalid ''models must be nonempty''))
     (\<lambda>_. bindE (efold validate_enum (s_enums s) [])
     (\<lambda>names. bindE (efold (validate_model s) (s_models s) names)
     (\<lambda>_. bindE (echeck (validate_requirement s) (s_requirements s))
     (\<lambda>_. echeck (validate_constraints s) (s_models s)))))"

section \<open>Values\<close>

text \<open>
  One representation per double: the significand is odd, or zero with exponent zero.
  \<open>f_canon\<close> also gives the positive zero for both zeros, as the \<open>Float\<close> case of \<open>scalar\<close> does.
\<close>

fun halve :: "nat \<Rightarrow> int \<Rightarrow> nat \<times> int" where
  "halve m e = (if m = 0 then (0, 0) else if even m then halve (m div 2) (e + 1) else (m, e))"

declare halve.simps [simp del]

definition f_canon :: "f64 \<Rightarrow> f64" where
  "f_canon f = (if f_is_zero f then F64 False 0 0
     else case halve (f_mant f) (f_exp f) of (m, e) \<Rightarrow> F64 (f_neg f) m e)"

definition f_as_i64 :: "f64 \<Rightarrow> int" where
  "f_as_i64 f = (if f_neg f then - int (f_magnitude f) else int (f_magnitude f))"

definition scalar :: "ext \<Rightarrow> scalar_type \<Rightarrow> json \<Rightarrow> json res" where
  "scalar x ty v = (case ty of
     StString \<Rightarrow> (case v of JStr _ \<Rightarrow> Inr v | _ \<Rightarrow> Inl (invalid ''invalid scalar type''))
   | StBoolean \<Rightarrow> (case v of JBool _ \<Rightarrow> Inr v | _ \<Rightarrow> Inl (invalid ''invalid scalar type''))
   | StInt \<Rightarrow>
       bindE (ok_or (as_f64 v) (invalid ''expected integer''))
       (\<lambda>f. if f_integral f \<and> f_magnitude f \<le> max_safe_integer then Inr (jint (f_as_i64 f))
            else Inl (invalid ''integer outside safe range''))
   | StFloat \<Rightarrow>
       bindE (ok_or (as_f64 v) (invalid ''expected finite float''))
       (\<lambda>f. Inr (JNum (Float (f_canon f))))
   | StUuid \<Rightarrow>
       bindE (ok_or (as_str v) (invalid ''expected UUID''))
       (\<lambda>u. bindE (ok_or (x_uuid x u) (invalid ''invalid UUID''))
       (\<lambda>(t, rfc, version).
          if length u \<noteq> 36 \<or> \<not> rfc \<or> \<not> (1 \<le> version \<and> version \<le> 8)
          then Inl (invalid ''invalid UUID format/version'')
          else Inr (JStr t)))
   | StDateTime \<Rightarrow>
       bindE (ok_or (as_str v) (invalid ''expected zoned dateTime''))
       (\<lambda>d. if length d < 20 \<or> d ! 10 \<noteq> CHR ''T'' then Inl (invalid ''invalid zoned dateTime'')
            else bindE (ok_or (x_rfc3339 x d) (invalid ''invalid zoned dateTime''))
              (\<lambda>t. Inr (JStr t))))"

fun value_n :: "ext \<Rightarrow> schema \<Rightarrow> value_type \<Rightarrow> json \<Rightarrow> json res" where
  "value_n x s (TScalar ty) v = scalar x ty v"
| "value_n x s (TEnum name) v =
     (if \<exists>en \<in> set (s_enums s). e_name en = name \<and> as_str v \<in> Some ` set (e_values en)
      then Inr v else Inl (invalid ''invalid enum value''))"
| "value_n x s (TList element) v =
     bindE (ok_or (as_array v) (invalid ''expected list''))
     (\<lambda>vs. bindE (emap (value_n x s element) vs) (\<lambda>ws. Inr (JArr ws)))"

lemma value_n_enum:
  "value_n x s (TEnum name) v =
     (if \<exists>t. as_str v = Some t \<and> (\<exists>en \<in> set (s_enums s). e_name en = name \<and> t \<in> set (e_values en))
      then Inr v else Inl (invalid ''invalid enum value''))"
  by auto

definition normalize_value :: "ext \<Rightarrow> schema \<Rightarrow> field_desc \<Rightarrow> json \<Rightarrow> json res" where
  "normalize_value x s f v =
     (if is_null v then
        (if f_nullable f then Inr JNull else Inl (invalid (f_name f @ '' is not nullable'')))
      else value_n x s (f_type f) v)"

section \<open>Keys, states and patches\<close>

definition identity_step ::
  "ext \<Rightarrow> schema \<Rightarrow> model_desc \<Rightarrow> (string \<times> json) list \<Rightarrow> string \<Rightarrow> (string \<times> json) list \<Rightarrow>
   (string \<times> json) list res" where
  "identity_step x s m input name acc =
     bindE (ok_or (field_of m name) (invalid ''identity descriptor missing''))
     (\<lambda>f. bindE (ok_or (map_of input name) (invalid ''identity missing''))
     (\<lambda>v. bindE (normalize_value x s f v) (\<lambda>w. Inr (bt_ins name w acc))))"

definition record_key :: "ext \<Rightarrow> schema \<Rightarrow> string \<Rightarrow> json \<Rightarrow> rkey res" where
  "record_key x s name identity =
     bindE (model_of s name)
     (\<lambda>m. bindE (ok_or (as_object identity) (invalid ''identity must be an object''))
     (\<lambda>input. bindE (ensure (\<not> (length input \<noteq> length (m_identity m)
           \<or> (\<exists>k \<in> set (bt_keys input). k \<notin> set (m_identity m))))
         (invalid ''identity must contain exactly identity fields''))
     (\<lambda>_. bindE (efold (identity_step x s m input) (m_identity m) [])
     (\<lambda>result. Inr \<lparr>k_model = name, k_identity = JObj result\<rparr>))))"

definition state_step ::
  "ext \<Rightarrow> schema \<Rightarrow> (string \<times> json) list \<Rightarrow> field_desc \<Rightarrow> (string \<times> json) list \<Rightarrow>
   (string \<times> json) list res" where
  "state_step x s input f acc =
     bindE (case map_of input (f_name f) of
         Some v \<Rightarrow> Inr v
       | None \<Rightarrow> if f_nullable f then Inr JNull
                 else Inl (invalid (''missing state field '' @ f_name f)))
     (\<lambda>v. bindE (normalize_value x s f v) (\<lambda>w. Inr (bt_ins (f_name f) w acc)))"

definition state_fields :: "model_desc \<Rightarrow> field_desc list" where
  "state_fields m = filter (\<lambda>f. f_name f \<notin> set (m_identity m)) (m_fields m)"

definition state_of :: "ext \<Rightarrow> schema \<Rightarrow> string \<Rightarrow> json \<Rightarrow> bool \<Rightarrow> json res" where
  "state_of x s name state loader =
     bindE (model_of s name)
     (\<lambda>m. bindE (ok_or (as_object state) (invalid ''state must be an object''))
     (\<lambda>input. bindE (ensure (\<not> (\<exists>k \<in> set (bt_keys input).
           (loader \<and> (\<forall>f \<in> set (m_fields m). f_name f \<noteq> k))
           \<or> (\<not> loader \<and> k \<in> set (m_identity m))))
         (invalid ''unknown or identity state field''))
     (\<lambda>_. bindE (efold (state_step x s input) (state_fields m) [])
     (\<lambda>result. Inr (JObj result)))))"

definition normalize_state :: "ext \<Rightarrow> schema \<Rightarrow> string \<Rightarrow> json \<Rightarrow> json res" where
  "normalize_state x s name state = state_of x s name state True"

definition validate_state :: "ext \<Rightarrow> schema \<Rightarrow> string \<Rightarrow> json \<Rightarrow> json res" where
  "validate_state x s name state = state_of x s name state False"

definition patch_step ::
  "ext \<Rightarrow> schema \<Rightarrow> model_desc \<Rightarrow> string \<times> json \<Rightarrow> (string \<times> json) list \<Rightarrow> (string \<times> json) list res" where
  "patch_step x s m kv acc =
     bindE (ensure (fst kv \<notin> set (m_identity m)) (invalid ''identity is immutable''))
     (\<lambda>_. bindE (ok_or (field_of m (fst kv)) (invalid ''unknown patch field''))
     (\<lambda>f. bindE (normalize_value x s f (snd kv)) (\<lambda>w. Inr (bt_ins (fst kv) w acc))))"

definition validate_patch :: "ext \<Rightarrow> schema \<Rightarrow> string \<Rightarrow> json \<Rightarrow> json res" where
  "validate_patch x s name patch =
     bindE (model_of s name)
     (\<lambda>m. bindE (ok_or (as_object patch) (invalid ''patch must be an object''))
     (\<lambda>input. bindE (efold (patch_step x s m) input []) (\<lambda>result. Inr (JObj result))))"

section \<open>What a valid schema is\<close>

definition enum_ok :: "enum_desc \<Rightarrow> bool" where
  "enum_ok e \<longleftrightarrow> e_name e \<noteq> [] \<and> e_values e \<noteq> [] \<and> [] \<notin> set (e_values e) \<and> distinct (e_values e)"

fun type_ok :: "schema \<Rightarrow> value_type \<Rightarrow> bool" where
  "type_ok s (TScalar _) = True"
| "type_ok s (TEnum name) = (name \<in> e_name ` set (s_enums s))"
| "type_ok s (TList element) = is_scalar element"

definition field_ok :: "schema \<Rightarrow> field_desc \<Rightarrow> bool" where
  "field_ok s f \<longleftrightarrow> f_name f \<noteq> [] \<and> type_ok s (f_type f) \<and> (is_list (f_type f) \<longrightarrow> \<not> f_nullable f)"

definition identity_ok :: "model_desc \<Rightarrow> string \<Rightarrow> bool" where
  "identity_ok m name \<longleftrightarrow>
     (case field_of m name of None \<Rightarrow> False | Some f \<Rightarrow> \<not> f_nullable f \<and> is_scalar (f_type f))"

definition model_ok :: "schema \<Rightarrow> model_desc \<Rightarrow> bool" where
  "model_ok s m \<longleftrightarrow> \<not> reserved_model_name (m_name m) \<and> m_name m \<noteq> [] \<and> m_identity m \<noteq> [] \<and>
     0 < m_version m \<and> m_version m \<le> max_safe_integer \<and>
     (\<forall>f \<in> set (m_fields m). field_ok s f) \<and> distinct (map f_name (m_fields m)) \<and>
     (\<forall>name \<in> set (m_identity m). identity_ok m name) \<and> distinct (m_identity m)"

definition requirement_ok :: "schema \<Rightarrow> requirement_desc \<Rightarrow> bool" where
  "requirement_ok s q \<longleftrightarrow>
     (\<exists>m. model_of s (q_model q) = Inr m \<and> q_field q \<in> f_name ` set (m_fields m)) \<and>
     JStr (q_name q) \<in> (\<lambda>p. index p ''name'') ` set (s_prerequisites s) \<and>
     (\<forall>kv \<in> set (q_arguments q). snd kv = ''self'')"

definition unique_ok :: "model_desc \<Rightarrow> string list \<Rightarrow> bool" where
  "unique_ok m cols \<longleftrightarrow> cols \<noteq> [] \<and> distinct cols \<and> set cols \<subseteq> f_name ` set (m_fields m)"

definition relation_ok :: "schema \<Rightarrow> model_desc \<Rightarrow> relation_desc \<Rightarrow> bool" where
  "relation_ok s m r \<longleftrightarrow> r_name r \<noteq> [] \<and> r_on_delete r \<in> {''delete'', ''none''} \<and>
     (\<exists>target. model_of s (r_target r) = Inr target \<and> r_target_fields r = m_identity target \<and>
        list_all2 (\<lambda>l t. \<exists>f g. field_of m l = Some f \<and> field_of target t = Some g \<and> f_type f = f_type g)
          (r_fields r) (m_identity target))"

definition schema_ok :: "schema \<Rightarrow> bool" where
  "schema_ok s \<longleftrightarrow> s_models s \<noteq> [] \<and>
     distinct (map e_name (s_enums s) @ map m_name (s_models s)) \<and>
     (\<forall>e \<in> set (s_enums s). enum_ok e) \<and> (\<forall>m \<in> set (s_models s). model_ok s m) \<and>
     (\<forall>q \<in> set (s_requirements s). requirement_ok s q) \<and>
     (\<forall>m \<in> set (s_models s). (\<forall>u \<in> set (m_unique m). unique_ok m u) \<and>
        (\<forall>r \<in> set (m_relations m). relation_ok s m r) \<and> distinct (map r_name (m_relations m)))"

lemma validate_type_iff: "validate_type s t = Inr () \<longleftrightarrow> type_ok s t"
  by (cases t) (auto simp: ensure_def image_iff)

lemma validate_enum_iff:
  "validate_enum e names = Inr b \<longleftrightarrow> enum_ok e \<and> e_name e \<notin> set names \<and> b = bs_ins (e_name e) names"
  by (auto simp: validate_enum_def enum_ok_def length_bs_of res_elims)

lemma validate_field_iff:
  "validate_field s f names = Inr b \<longleftrightarrow>
   field_ok s f \<and> f_name f \<notin> set names \<and> b = bs_ins (f_name f) names"
  by (auto simp: validate_field_def field_ok_def validate_type_iff res_elims)

lemma validate_identity_iff:
  "validate_identity m name names = Inr b \<longleftrightarrow>
   identity_ok m name \<and> name \<notin> set names \<and> b = bs_ins name names"
  by (auto simp: validate_identity_def identity_ok_def res_elims split: option.splits)

lemma validate_model_iff:
  "validate_model s m names = Inr b \<longleftrightarrow>
   model_ok s m \<and> m_name m \<notin> set names \<and> b = bs_ins (m_name m) names"
proof -
  have "(\<exists>b. efold (validate_field s) (m_fields m) [] = Inr b) \<longleftrightarrow>
      (\<forall>f \<in> set (m_fields m). field_ok s f) \<and> distinct (map f_name (m_fields m))"
    by (subst efold_bs_ins_ok [where P = "field_ok s" and key = f_name])
       (simp_all add: validate_field_iff)
  moreover have "(\<exists>b. efold (validate_identity m) (m_identity m) [] = Inr b) \<longleftrightarrow>
      (\<forall>n \<in> set (m_identity m). identity_ok m n) \<and> distinct (m_identity m)"
    by (subst efold_bs_ins_ok [where P = "identity_ok m" and key = "\<lambda>n. n"])
       (simp_all add: validate_identity_iff)
  ultimately show ?thesis
    by (auto simp: validate_model_def model_ok_def res_elims not_less)
qed

lemma validate_requirement_iff: "validate_requirement s q = Inr () \<longleftrightarrow> requirement_ok s q"
  unfolding validate_requirement_def requirement_ok_def
  by (auto simp: res_elims image_iff) metis+

lemma validate_unique_iff: "validate_unique m u = Inr () \<longleftrightarrow> unique_ok m u"
  by (auto simp: validate_unique_def unique_ok_def length_bs_of ensure_def image_iff subset_eq; metis)

lemma validate_reference_iff:
  "validate_reference m target lt = Inr () \<longleftrightarrow>
   (\<exists>f g. field_of m (fst lt) = Some f \<and> field_of target (snd lt) = Some g \<and> f_type f = f_type g)"
  by (auto simp: validate_reference_def res_elims)

lemma validate_relation_iff:
  "validate_relation s m r names = Inr b \<longleftrightarrow>
   relation_ok s m r \<and> r_name r \<notin> set names \<and> b = bs_ins (r_name r) names"
  by (auto simp: validate_relation_def relation_ok_def res_elims validate_reference_iff
      list_all2_iff case_prod_beta')

lemma validate_constraints_iff:
  "validate_constraints s m = Inr () \<longleftrightarrow> (\<forall>u \<in> set (m_unique m). unique_ok m u) \<and>
     (\<forall>r \<in> set (m_relations m). relation_ok s m r) \<and> distinct (map r_name (m_relations m))"
proof -
  have "(\<exists>b. efold (validate_relation s m) (m_relations m) [] = Inr b) \<longleftrightarrow>
      (\<forall>r \<in> set (m_relations m). relation_ok s m r) \<and> distinct (map r_name (m_relations m))"
    by (subst efold_bs_ins_ok [where P = "relation_ok s m" and key = r_name])
       (simp_all add: validate_relation_iff)
  then show ?thesis
    by (auto simp: validate_constraints_def res_elims validate_unique_iff)
qed

lemma validate_ok_iff: "validate s = Inr () \<longleftrightarrow> schema_ok s"
proof -
  have enums: "efold validate_enum (s_enums s) [] = Inr names \<longleftrightarrow>
      (\<forall>e \<in> set (s_enums s). enum_ok e) \<and> distinct (map e_name (s_enums s)) \<and>
      names = fold bs_ins (map e_name (s_enums s)) []" for names
    using efold_bs_ins [where P = enum_ok and key = e_name and f = validate_enum]
    by (simp add: validate_enum_iff)
  have models: "(\<exists>b. efold (validate_model s) (s_models s) names = Inr b) \<longleftrightarrow>
      (\<forall>m \<in> set (s_models s). model_ok s m) \<and> distinct (map m_name (s_models s)) \<and>
      set (map m_name (s_models s)) \<inter> set names = {}" for names
    by (subst efold_bs_ins_ok [where P = "model_ok s" and key = m_name])
       (simp_all add: validate_model_iff)
  have "validate s = Inr () \<longleftrightarrow> s_models s \<noteq> [] \<and>
      (\<exists>names. efold validate_enum (s_enums s) [] = Inr names \<and>
        (\<exists>b. efold (validate_model s) (s_models s) names = Inr b)) \<and>
      (\<forall>q \<in> set (s_requirements s). requirement_ok s q) \<and>
      (\<forall>m \<in> set (s_models s). validate_constraints s m = Inr ())"
    by (auto simp: validate_def res_elims validate_requirement_iff)
  also have "\<dots> \<longleftrightarrow> schema_ok s"
    unfolding enums models schema_ok_def validate_constraints_iff by auto
  finally show ?thesis .
qed

text \<open>
  C36: \<open>Schema::validate\<close> accepts exactly the well-formed schemas: distinct type names over enums
  and models together, no reserved table name, versions in range, distinct fields of known
  types, identity fields that exist and are non-null scalars, unique constraints and references
  over existing fields with the target's identity and its types.
\<close>

theorem validate_iff_schema_ok: "validate s = Inr () \<longleftrightarrow> schema_ok s"
  by (rule validate_ok_iff)

section \<open>Normal values\<close>

text \<open>
  What the engine relies on of \<open>uuid\<close> and \<open>chrono\<close>: a printed UUID parses to itself, and so does
  a printed UTC time whose year has four digits.
\<close>

definition time_text :: "string \<Rightarrow> bool" where
  "time_text t \<longleftrightarrow> 20 \<le> length t \<and> t ! 10 = CHR ''T''"

definition ext_ok :: "ext \<Rightarrow> bool" where
  "ext_ok x \<longleftrightarrow>
     (\<forall>u t r n. x_uuid x u = Some (t, r, n) \<longrightarrow> length t = 36 \<and> x_uuid x t = Some (t, r, n)) \<and>
     (\<forall>d t. x_rfc3339 x d = Some t \<longrightarrow> time_text t \<longrightarrow> x_rfc3339 x t = Some t)"

fun storable :: "value_type \<Rightarrow> json \<Rightarrow> bool" where
  "storable (TScalar StDateTime) (JStr t) = time_text t"
| "storable (TList ty) (JArr vs) = (\<forall>v \<in> set vs. storable ty v)"
| "storable _ _ = True"

lemma halve_odd: "odd m \<Longrightarrow> halve m e = (m, e)"
  by (cases "m = 0") (simp_all add: halve.simps)

lemma halve_result: "m \<noteq> 0 \<Longrightarrow> odd (fst (halve m e))"
proof (induction m e rule: halve.induct)
  case (1 m e)
  show ?case
  proof (cases "even m")
    case True
    with "1.prems" have "m div 2 \<noteq> 0" by auto
    with "1.IH" [OF "1.prems" True] True "1.prems" show ?thesis by (simp add: halve.simps [of m])
  next
    case False
    then show ?thesis by (simp add: halve_odd)
  qed
qed

lemma f_canon_idem: "f_canon (f_canon f) = f_canon f"
proof (cases "f_is_zero f")
  case True
  then show ?thesis by (simp add: f_canon_def f_is_zero_def)
next
  case False
  obtain m e where h: "halve (f_mant f) (f_exp f) = (m, e)" by fastforce
  with False halve_result [of "f_mant f" "f_exp f"] have "odd m" by (simp add: f_is_zero_def)
  then have "m \<noteq> 0" by (cases m) auto
  with h False \<open>odd m\<close> show ?thesis by (simp add: f_canon_def f_is_zero_def halve_odd)
qed

lemma jint_as_f64:
  assumes "nat (abs i) \<le> max_safe_integer"
  shows "as_f64 (jint i) = Some (F64 (i < 0) (nat (abs i)) 0)"
  using assms by (auto simp: jint_def f64_of_int_def f64_of_nat_exact)

lemma scalar_int_range:
  assumes "scalar x StInt v = Inr w"
  obtains i where "w = jint i" and "nat (abs i) \<le> max_safe_integer"
  using assms by (auto simp: scalar_def res_elims f_as_i64_def split: if_splits)

lemma scalar_idem:
  assumes "ext_ok x" and "scalar x ty v = Inr w" and "storable (TScalar ty) w"
  shows "scalar x ty w = Inr w"
proof (cases ty)
  case StInt
  with assms(2) obtain i where i: "w = jint i" "nat (abs i) \<le> max_safe_integer"
    using scalar_int_range by blast
  from jint_as_f64 [OF i(2)] i show ?thesis
    by (simp add: StInt scalar_def f_integral_def f_magnitude_def f_as_i64_def)
next
  case StFloat
  with assms(2) show ?thesis by (auto simp: scalar_def res_elims f_canon_idem)
next
  case StUuid
  with assms(2) obtain u t n where u: "x_uuid x u = Some (t, True, n)" "1 \<le> n" "n \<le> 8" "w = JStr t"
    by (auto simp: scalar_def res_elims split: if_splits)
  with assms(1) have "length t = 36" "x_uuid x t = Some (t, True, n)" by (auto simp: ext_ok_def)
  with u StUuid show ?thesis by (simp add: scalar_def)
next
  case StDateTime
  with assms(2) obtain d t where "w = JStr t" "x_rfc3339 x d = Some t"
    by (auto simp: scalar_def res_elims split: if_splits)
  with assms(1,3) StDateTime show ?thesis by (simp add: scalar_def ext_ok_def time_text_def)
qed (use assms in \<open>auto simp: scalar_def split: json.splits\<close>)

lemma value_n_idem:
  "ext_ok x \<Longrightarrow> value_n x s ty v = Inr w \<Longrightarrow> storable ty w \<Longrightarrow> value_n x s ty w = Inr w"
proof (induction ty arbitrary: v w)
  case (TScalar ty)
  then show ?case by (simp add: scalar_idem)
next
  case (TEnum name)
  then show ?case by (auto split: if_splits)
next
  case (TList ty)
  then obtain vs ws where w: "w = JArr ws" "emap (value_n x s ty) vs = Inr ws"
    by (auto simp: res_elims)
  have "\<forall>v \<in> set ws. value_n x s ty v = Inr v"
  proof
    fix v assume v: "v \<in> set ws"
    with w(2) obtain u where "value_n x s ty u = Inr v"
      by (auto simp: emap_Inr_iff list_all2_conv_all_nth in_set_conv_nth)
    with TList w(1) v show "value_n x s ty v = Inr v" by auto
  qed
  then have "emap (value_n x s ty) ws = Inr (map (\<lambda>v. v) ws)" by (intro emap_all_ok) simp
  with w(1) show ?case by simp
qed

text \<open>A normalised value is null exactly when the given one is, and is normal.\<close>

lemma value_n_not_null: "value_n x s ty v = Inr w \<Longrightarrow> v \<noteq> JNull \<Longrightarrow> w \<noteq> JNull"
  by (cases ty)
     (auto simp: res_elims scalar_def jint_def split: if_splits scalar_type.splits json.splits)

lemma normalize_value_idem:
  assumes "ext_ok x" and "normalize_value x s f v = Inr w" and "storable (f_type f) w"
  shows "normalize_value x s f w = Inr w"
proof (cases "is_null v")
  case True
  with assms(2) show ?thesis by (auto simp: normalize_value_def is_null_def split: if_splits)
next
  case False
  with assms(2) have w: "value_n x s (f_type f) v = Inr w" by (simp add: normalize_value_def)
  from value_n_not_null [OF this] False have "\<not> is_null w" by (simp add: is_null_def)
  with value_n_idem [OF assms(1) w assms(3)] show ?thesis by (simp add: normalize_value_def)
qed

section \<open>Normal records\<close>

definition storable_fields :: "model_desc \<Rightarrow> (string \<times> json) list \<Rightarrow> bool" where
  "storable_fields m kvs \<longleftrightarrow>
     (\<forall>(k, v) \<in> set kvs. \<forall>f. field_of m k = Some f \<longrightarrow> storable (f_type f) v)"

lemma storable_fieldsD:
  "storable_fields m kvs \<Longrightarrow> map_of kvs k = Some v \<Longrightarrow> field_of m k = Some f \<Longrightarrow> storable (f_type f) v"
  by (force simp: storable_fields_def dest: map_of_SomeD)

lemma model_of_in: "model_of s name = Inr m \<Longrightarrow> m \<in> set (s_models s) \<and> m_name m = name"
  by (auto simp: model_of_def res_elims dest: find_Some_in)

lemma field_of_in: "field_of m name = Some f \<Longrightarrow> f \<in> set (m_fields m) \<and> f_name f = name"
  by (auto simp: field_of_def dest: find_Some_in)

lemma schema_ok_model: "schema_ok s \<Longrightarrow> model_of s name = Inr m \<Longrightarrow> model_ok s m"
  by (auto simp: schema_ok_def dest: model_of_in)

lemma field_of_mem:
  assumes "model_ok s m" and "f \<in> set (m_fields m)"
  shows "field_of m (f_name f) = Some f"
proof (cases "field_of m (f_name f)")
  case None
  with assms(2) show ?thesis by (auto simp: field_of_def find_None)
next
  case (Some g)
  with field_of_in [OF this] assms show ?thesis by (auto simp: model_ok_def distinct_map inj_on_def)
qed

definition identity_value :: "ext \<Rightarrow> schema \<Rightarrow> model_desc \<Rightarrow> (string \<times> json) list \<Rightarrow> string \<Rightarrow> json res" where
  "identity_value x s m input name =
     bindE (ok_or (field_of m name) (invalid ''identity descriptor missing''))
     (\<lambda>f. bindE (ok_or (map_of input name) (invalid ''identity missing''))
     (\<lambda>v. normalize_value x s f v))"

definition state_value :: "ext \<Rightarrow> schema \<Rightarrow> (string \<times> json) list \<Rightarrow> field_desc \<Rightarrow> json res" where
  "state_value x s input f =
     bindE (case map_of input (f_name f) of
         Some v \<Rightarrow> Inr v
       | None \<Rightarrow> if f_nullable f then Inr JNull
                 else Inl (invalid (''missing state field '' @ f_name f)))
     (\<lambda>v. normalize_value x s f v)"

definition patch_value :: "ext \<Rightarrow> schema \<Rightarrow> model_desc \<Rightarrow> string \<times> json \<Rightarrow> json res" where
  "patch_value x s m kv =
     bindE (ensure (fst kv \<notin> set (m_identity m)) (invalid ''identity is immutable''))
     (\<lambda>_. bindE (ok_or (field_of m (fst kv)) (invalid ''unknown patch field''))
     (\<lambda>f. normalize_value x s f (snd kv)))"

lemma identity_loop:
  "efold (identity_step x s m input) names [] =
   bindE (emap (identity_value x s m input) names) (\<lambda>ws. Inr (bt_of (zip names ws)))"
  by (subst efold_bt_ins [where g = "identity_value x s m input" and key = "\<lambda>n. n"])
     (simp_all add: identity_step_def identity_value_def bindE_assoc bt_of_def)

lemma state_loop:
  "efold (state_step x s input) fs [] =
   bindE (emap (state_value x s input) fs) (\<lambda>ws. Inr (bt_of (zip (map f_name fs) ws)))"
  by (subst efold_bt_ins [where g = "state_value x s input" and key = f_name])
     (simp_all add: state_step_def state_value_def bindE_assoc bt_of_def)

lemma patch_loop:
  "efold (patch_step x s m) kvs [] =
   bindE (emap (patch_value x s m) kvs) (\<lambda>ws. Inr (bt_of (zip (map fst kvs) ws)))"
  by (subst efold_bt_ins [where g = "patch_value x s m" and key = fst])
     (simp_all add: patch_step_def patch_value_def bindE_assoc bt_of_def)

lemma emap_nth: "emap g xs = Inr ws \<Longrightarrow> i < length xs \<Longrightarrow> g (xs ! i) = Inr (ws ! i)"
  by (simp add: emap_Inr_iff list_all2_conv_all_nth)

lemma emap_nthI:
  "length ws = length xs \<Longrightarrow> (\<And>i. i < length xs \<Longrightarrow> g (xs ! i) = Inr (ws ! i)) \<Longrightarrow> emap g xs = Inr ws"
  by (simp add: emap_Inr_iff list_all2_conv_all_nth)

text \<open>Normalising again what an identity, state or patch loop produced gives it back.\<close>

lemma identity_again:
  assumes "ext_ok x" and "model_ok s m" and "emap (identity_value x s m input) (m_identity m) = Inr ws"
    and "storable_fields m (bt_of (zip (m_identity m) ws))"
  shows "emap (identity_value x s m (bt_of (zip (m_identity m) ws))) (m_identity m) = Inr ws"
proof (rule emap_nthI)
  show len: "length ws = length (m_identity m)" using assms(3) by (rule emap_Inr_length)
  fix i assume i: "i < length (m_identity m)"
  let ?n = "m_identity m ! i"
  from assms(2) have "distinct (m_identity m)" by (simp add: model_ok_def)
  with i len have l: "map_of (bt_of (zip (m_identity m) ws)) ?n = Some (ws ! i)"
    by (simp add: map_of_bt_of_zip)
  from emap_nth [OF assms(3) i] obtain f v where f: "field_of m ?n = Some f"
      "normalize_value x s f v = Inr (ws ! i)"
    by (auto simp: identity_value_def res_elims)
  from normalize_value_idem [OF assms(1) f(2)] storable_fieldsD [OF assms(4) l f(1)] f(1) l
  show "identity_value x s m (bt_of (zip (m_identity m) ws)) ?n = Inr (ws ! i)"
    by (simp add: identity_value_def)
qed

lemma state_again:
  assumes "ext_ok x" and "model_ok s m" and "emap (state_value x s input) (state_fields m) = Inr ws"
    and "storable_fields m (bt_of (zip (map f_name (state_fields m)) ws))"
  shows "emap (state_value x s (bt_of (zip (map f_name (state_fields m)) ws))) (state_fields m) = Inr ws"
proof (rule emap_nthI)
  let ?r = "bt_of (zip (map f_name (state_fields m)) ws)"
  show len: "length ws = length (state_fields m)" using assms(3) by (rule emap_Inr_length)
  fix i assume i: "i < length (state_fields m)"
  let ?f = "state_fields m ! i"
  have "distinct (map f_name (state_fields m))"
    using assms(2) by (auto simp: model_ok_def state_fields_def distinct_map inj_on_def)
  with i len map_of_bt_of_zip [of "map f_name (state_fields m)" ws i]
  have l: "map_of ?r (f_name ?f) = Some (ws ! i)" by simp
  have "?f \<in> set (m_fields m)" using nth_mem [OF i] by (auto simp: state_fields_def)
  with assms(2) have f: "field_of m (f_name ?f) = Some ?f" by (rule field_of_mem)
  from emap_nth [OF assms(3) i] obtain v where "normalize_value x s ?f v = Inr (ws ! i)"
    by (auto simp: state_value_def res_elims)
  from normalize_value_idem [OF assms(1) this storable_fieldsD [OF assms(4) l f]] l
  show "state_value x s ?r ?f = Inr (ws ! i)" by (simp add: state_value_def)
qed

lemma patch_again:
  assumes "ext_ok x" and "bt_ok kvs" and "emap (patch_value x s m) kvs = Inr ws"
    and "storable_fields m (zip (map fst kvs) ws)"
  shows "emap (patch_value x s m) (zip (map fst kvs) ws) = Inr ws"
proof (rule emap_nthI)
  have len: "length ws = length kvs" using assms(3) by (rule emap_Inr_length)
  then show "length ws = length (zip (map fst kvs) ws)" by simp
  fix i assume "i < length (zip (map fst kvs) ws)"
  with len have i: "i < length kvs" and z: "zip (map fst kvs) ws ! i = (fst (kvs ! i), ws ! i)" by simp_all
  from emap_nth [OF assms(3) i] obtain f where f: "fst (kvs ! i) \<notin> set (m_identity m)"
      "field_of m (fst (kvs ! i)) = Some f" "normalize_value x s f (snd (kvs ! i)) = Inr (ws ! i)"
    by (auto simp: patch_value_def res_elims)
  have "(fst (kvs ! i), ws ! i) \<in> set (zip (map fst kvs) ws)"
    using i len z by (metis length_map length_zip min.idem nth_mem)
  with assms(4) f(2) have "storable (f_type f) (ws ! i)" by (auto simp: storable_fields_def)
  from normalize_value_idem [OF assms(1) f(3) this] f(1,2) z
  show "patch_value x s m (zip (map fst kvs) ws ! i) = Inr (ws ! i)" by (simp add: patch_value_def)
qed

definition storable_record :: "schema \<Rightarrow> string \<Rightarrow> json \<Rightarrow> bool" where
  "storable_record s name w = (case model_of s name of Inl _ \<Rightarrow> True
     | Inr m \<Rightarrow> (case w of JObj kvs \<Rightarrow> storable_fields m kvs | _ \<Rightarrow> True))"

lemma storable_recordD:
  "storable_record s name (JObj kvs) \<Longrightarrow> model_of s name = Inr m \<Longrightarrow> storable_fields m kvs"
  by (simp add: storable_record_def)

lemma record_key_Inr:
  assumes "record_key x s name i = Inr k"
  obtains m input ws where "model_of s name = Inr m" and "i = JObj input"
    and "length input = length (m_identity m)" and "set (bt_keys input) \<subseteq> set (m_identity m)"
    and "emap (identity_value x s m input) (m_identity m) = Inr ws"
    and "k = \<lparr>k_model = name, k_identity = JObj (bt_of (zip (m_identity m) ws))\<rparr>"
proof -
  from assms obtain m input where m: "model_of s name = Inr m" "as_object i = Some input"
      "length input = length (m_identity m)" "set (bt_keys input) \<subseteq> set (m_identity m)"
    and "bindE (efold (identity_step x s m input) (m_identity m) [])
        (\<lambda>r. Inr \<lparr>k_model = name, k_identity = JObj r\<rparr>) = Inr k"
    by (auto simp: record_key_def res_elims)
  moreover from m(2) have "i = JObj input" by (cases i) simp_all
  ultimately show thesis using that by (auto simp: identity_loop res_elims)
qed

lemma state_of_Inr:
  assumes "state_of x s name v loader = Inr w"
  obtains m input ws where "model_of s name = Inr m" and "v = JObj input"
    and "emap (state_value x s input) (state_fields m) = Inr ws"
    and "w = JObj (bt_of (zip (map f_name (state_fields m)) ws))"
proof -
  from assms obtain m input where m: "model_of s name = Inr m" "as_object v = Some input"
    and "bindE (efold (state_step x s input) (state_fields m) []) (\<lambda>r. Inr (JObj r)) = Inr w"
    by (auto simp: state_of_def res_elims)
  moreover from m(2) have "v = JObj input" by (cases v) simp_all
  ultimately show thesis using that by (auto simp: state_loop res_elims)
qed

lemma validate_patch_Inr:
  assumes "validate_patch x s name v = Inr w"
  obtains m input ws where "model_of s name = Inr m" and "v = JObj input"
    and "emap (patch_value x s m) input = Inr ws" and "w = JObj (bt_of (zip (map fst input) ws))"
proof -
  from assms obtain m input where m: "model_of s name = Inr m" "as_object v = Some input"
    and "bindE (efold (patch_step x s m) input []) (\<lambda>r. Inr (JObj r)) = Inr w"
    by (auto simp: validate_patch_def res_elims)
  moreover from m(2) have "v = JObj input" by (cases v) simp_all
  ultimately show thesis using that by (auto simp: patch_loop res_elims)
qed

lemma record_key_again:
  assumes "record_key x s name i = Inr k" and "schema_ok s" and "ext_ok x"
    and "storable_record s name (k_identity k)"
  shows "record_key x s name (k_identity k) = Inr k"
proof -
  from assms(1) obtain m input ws where m: "model_of s name = Inr m"
      "emap (identity_value x s m input) (m_identity m) = Inr ws"
    and k: "k = \<lparr>k_model = name, k_identity = JObj (bt_of (zip (m_identity m) ws))\<rparr>"
    by (rule record_key_Inr)
  let ?r = "bt_of (zip (m_identity m) ws)"
  from assms(2) m(1) have mo: "model_ok s m" by (rule schema_ok_model)
  then have d: "distinct (m_identity m)" by (simp add: model_ok_def)
  have len: "length ws = length (m_identity m)" using m(2) by (rule emap_Inr_length)
  have again: "emap (identity_value x s m ?r) (m_identity m) = Inr ws"
    using assms(4) k m(1) by (intro identity_again [OF assms(3) mo m(2)]) (auto dest: storable_recordD)
  have "set (bt_keys ?r) = set (m_identity m)"
    using len by (metis bt_keys_def keys_bt_of map_fst_zip set_map)
  with again d len m(1) show ?thesis
    by (simp add: record_key_def identity_loop length_bt_of_zip k bex_simps)
qed

lemma scalar_value_present: "is_scalar ty \<Longrightarrow> value_n x s ty v = Inr w \<Longrightarrow> w \<noteq> JNull"
  by (cases ty) (auto simp: scalar_def res_elims jint_def split: scalar_type.splits json.splits if_splits prod.splits)

lemma identity_value_present: "identity_ok m n \<Longrightarrow> identity_value x s m input n = Inr v \<Longrightarrow> v \<noteq> JNull"
  by (auto simp: identity_value_def identity_ok_def res_elims normalize_value_def is_null_def
      dest: scalar_value_present split: option.splits if_splits)

text \<open>
  C37: record keys are normal forms. Under a valid schema, a key built by \<open>record_key\<close> whose
  identity holds no dateTime with a UTC year outside 0000 to 9999 (which normalisation does not
  take again) names its model and carries exactly the identity fields, none of them null, and
  building the key of its own identity gives the same key, so every table keyed by encoded
  identities is keyed by the record.
\<close>

theorem record_key_normal:
  assumes "record_key x s name i = Inr k" and "schema_ok s" and "ext_ok x"
    and "storable_record s name (k_identity k)"
  shows "record_key x s name (k_identity k) = Inr k \<and> k_model k = name \<and>
    (\<exists>m kvs. model_of s name = Inr m \<and> k_identity k = JObj kvs \<and> bt_ok kvs \<and>
       set (bt_keys kvs) = set (m_identity m) \<and> (\<forall>n v. map_of kvs n = Some v \<longrightarrow> v \<noteq> JNull))"
proof -
  from assms(1) obtain m input ws where m: "model_of s name = Inr m"
      "emap (identity_value x s m input) (m_identity m) = Inr ws"
    and k: "k = \<lparr>k_model = name, k_identity = JObj (bt_of (zip (m_identity m) ws))\<rparr>"
    by (rule record_key_Inr)
  let ?r = "bt_of (zip (m_identity m) ws)"
  from assms(2) m(1) have mo: "model_ok s m" by (rule schema_ok_model)
  then have d: "distinct (m_identity m)" by (simp add: model_ok_def)
  have len: "length ws = length (m_identity m)" using m(2) by (rule emap_Inr_length)
  have keys: "set (bt_keys ?r) = set (m_identity m)"
    using len by (metis bt_keys_def keys_bt_of map_fst_zip set_map)
  have "v \<noteq> JNull" if v: "map_of ?r n = Some v" for n v
  proof -
    from v have "n \<in> set (m_identity m)" using keys by (metis bt_keys_def map_of_eq_None_iff option.distinct(1) set_map)
    then obtain j where j: "j < length (m_identity m)" "n = m_identity m ! j" by (metis in_set_conv_nth)
    with v d len have "v = ws ! j" by (simp add: map_of_bt_of_zip)
    moreover have "identity_ok m n" using mo j by (simp add: model_ok_def)
    ultimately show ?thesis using emap_nth [OF m(2) j(1)] j(2) by (auto dest: identity_value_present)
  qed
  with record_key_again [OF assms] k m(1) keys show ?thesis by auto
qed

text \<open>
  States and patches are normal forms. What \<open>normalize_state\<close> (loader output) or
  \<open>validate_state\<close> (wire state) accepts is a state that both accept again unchanged, so a state
  that went through the server's readback passes the client's check as it is; and an accepted
  patch is accepted again unchanged.
\<close>

theorem state_normal:
  assumes "schema_ok s" and "ext_ok x" and "storable_record s name w"
  shows "(state_of x s name v loader = Inr w \<longrightarrow>
      validate_state x s name w = Inr w \<and> normalize_state x s name w = Inr w) \<and>
    (validate_patch x s name v = Inr w \<longrightarrow> jwf v \<longrightarrow> validate_patch x s name w = Inr w)"
proof (intro conjI impI)
  assume "state_of x s name v loader = Inr w"
  then obtain m input ws where m: "model_of s name = Inr m"
      "emap (state_value x s input) (state_fields m) = Inr ws"
    and w: "w = JObj (bt_of (zip (map f_name (state_fields m)) ws))"
    by (rule state_of_Inr)
  let ?r = "bt_of (zip (map f_name (state_fields m)) ws)"
  from assms(1) m(1) have mo: "model_ok s m" by (rule schema_ok_model)
  have len: "length ws = length (state_fields m)" using m(2) by (rule emap_Inr_length)
  have again: "emap (state_value x s ?r) (state_fields m) = Inr ws"
    using assms(3) w m(1) by (intro state_again [OF assms(2) mo m(2)]) (auto dest: storable_recordD)
  have keys: "set (bt_keys ?r) = f_name ` set (state_fields m)"
    using len by (metis bt_keys_def keys_bt_of length_map map_fst_zip set_map)
  have "state_of x s name (JObj ?r) l = Inr (JObj ?r)" for l
  proof -
    have "\<not> (\<exists>k \<in> set (bt_keys ?r). (l \<and> (\<forall>f \<in> set (m_fields m). f_name f \<noteq> k))
        \<or> (\<not> l \<and> k \<in> set (m_identity m)))"
      unfolding keys by (auto simp: state_fields_def)
    with again m(1) show ?thesis by (simp add: state_of_def state_loop)
  qed
  with w show "validate_state x s name w = Inr w" "normalize_state x s name w = Inr w"
    by (simp_all add: validate_state_def normalize_state_def)
next
  assume p: "validate_patch x s name v = Inr w" and "jwf v"
  from p obtain m input ws where m: "model_of s name = Inr m" "v = JObj input"
      "emap (patch_value x s m) input = Inr ws" "w = JObj (bt_of (zip (map fst input) ws))"
    by (rule validate_patch_Inr)
  with \<open>jwf v\<close> have b: "bt_ok input" by simp
  have len: "length ws = length input" using m(3) by (rule emap_Inr_length)
  with b have s: "bt_of (zip (map fst input) ws) = zip (map fst input) ws"
    by (intro bt_of_sorted) (simp add: bt_ok_def)
  have "emap (patch_value x s m) (zip (map fst input) ws) = Inr ws"
    using assms(3) m(1,4) by (intro patch_again [OF assms(2) b m(3)]) (auto simp: s dest: storable_recordD)
  with m(1,4) len show "validate_patch x s name w = Inr w"
    by (simp add: validate_patch_def patch_loop s)
qed

text \<open>
  The year of a UTC time is printed with a sign when it does not have four digits, and such a
  text is not accepted again: a time near the end of year 9999 with a negative offset is stored
  once and rejected from then on.
\<close>

lemma late_time_not_normal:
  assumes "x_rfc3339 x ''9999-12-31T23:59:59-01:00'' = Some ''+10000-01-01T00:59:59.000Z''"
  shows "scalar x StDateTime (JStr ''9999-12-31T23:59:59-01:00'') = Inr (JStr ''+10000-01-01T00:59:59.000Z'')"
    and "scalar x StDateTime (JStr ''+10000-01-01T00:59:59.000Z'') = Inl (Invalid ''invalid zoned dateTime'')"
  using assms by (simp_all add: scalar_def invalid_def)

end
