(* ===== verification/Examples.thy ===== *)
theory Examples
  imports Schema "HOL-Library.Code_Target_Nat"
begin

text \<open>
  Concrete package functions and a concrete schema, for evaluating the model on inputs: a
  printer and a parser of JSON without string escapes and with unsigned numbers, UUIDs taken as
  they are, UTC times taken as they are.
\<close>

definition quote :: "string \<Rightarrow> string" where
  "quote s = CHR 0x22 # s @ [CHR 0x22]"

function print_json :: "json \<Rightarrow> string" where
  "print_json JNull = ''null''"
| "print_json (JBool b) = (if b then ''true'' else ''false'')"
| "print_json (JNum (PosInt n)) = decimal n"
| "print_json (JNum (NegInt i)) = ''-'' @ decimal (nat (- i))"
| "print_json (JNum (Float f)) = decimal (f_magnitude f) @ ''.0''"
| "print_json (JStr s) = quote s"
| "print_json (JArr vs) = ''['' @ join '','' (map print_json vs) @ '']''"
| "print_json (JObj kvs) =
     ''{'' @ join '','' (map (\<lambda>kv. quote (fst kv) @ '':'' @ print_json (snd kv)) kvs) @ ''}''"
  by pat_completeness auto
termination
proof (relation "measure size", goal_cases)
  case (3 kvs kv)
  from size_entry [OF this] show ?case by simp
qed (auto simp: less_Suc_eq_le size_list_estimation')

text \<open>With ASCII keys the two orders agree and the printed text is the canonical text.\<close>

function ascii_keys :: "json \<Rightarrow> bool" where
  "ascii_keys (JArr vs) = list_all ascii_keys vs"
| "ascii_keys (JObj kvs) =
     (bt_ok kvs \<and> list_all (\<lambda>kv. ascii (fst kv)) kvs \<and> list_all (\<lambda>kv. ascii_keys (snd kv)) kvs)"
| "ascii_keys JNull = True"
| "ascii_keys (JBool b) = True"
| "ascii_keys (JNum n) = True"
| "ascii_keys (JStr s) = True"
  by pat_completeness auto
termination
proof (relation "measure size", goal_cases)
  case (3 kvs kv)
  from size_entry [OF this] show ?case by simp
qed (auto simp: less_Suc_eq_le size_list_estimation')

lemma sorted_ascii_keys:
  assumes "bt_ok kvs" and "\<forall>kv \<in> set kvs. ascii (fst kv)"
  shows "sorted (map (\<lambda>kv. utf16 (fst kv)) kvs)"
proof -
  have "sorted_wrt (\<lambda>a b. fst a < fst b) kvs" using assms(1) by (simp add: bt_ok_def sorted_wrt_map)
  then have "sorted_wrt (\<lambda>a b. utf16 (fst a) < utf16 (fst b)) kvs"
    by (rule sorted_wrt_mono_rel [rotated]) (use assms(2) in \<open>simp add: utf16_ascii_less\<close>)
  then show ?thesis by (auto simp: sorted_wrt_map intro: sorted_wrt_mono_rel [rotated])
qed

lemma canonical_print:
  assumes "x_string x = quote" and "x_jcs x = print_json"
  shows "ascii_keys v \<Longrightarrow> canonical_json x v = print_json v"
  using assms
proof (induction x v rule: canonical_json.induct)
  case (1 x kvs)
  then have ih: "map (\<lambda>kv. (fst kv, canonical_json x (snd kv))) kvs = map (\<lambda>kv. (fst kv, print_json (snd kv))) kvs"
    by (auto simp: list_all_iff)
  have "sorted (map (\<lambda>kt. utf16 (fst kt)) (map (\<lambda>kv. (fst kv, print_json (snd kv))) kvs))"
    using sorted_ascii_keys [of kvs] "1.prems" by (simp add: list_all_iff comp_def)
  from sort_key_id [OF this] "1.prems"(2,3) show ?case
    unfolding canonical_json.simps print_json.simps ih by (simp add: comp_def)
next
  case (2 x vs)
  then have "map (canonical_json x) vs = map print_json vs" by (auto simp: list_all_iff)
  then show ?case by (simp only: canonical_json.simps print_json.simps)
qed simp_all

lemma canonical_ok_print:
  assumes "x_string x = quote" and "x_jcs x = print_json" and "x_parse x (print_json v) = Inr v"
    and "ascii_keys v"
  shows "canonical_ok x v"
  using assms by (simp add: canonical_ok_def canonical_print)

fun parse_until :: "char \<Rightarrow> string \<Rightarrow> (string \<times> string) option" where
  "parse_until q [] = None"
| "parse_until q (c # s) = (if c = q then Some ([], s)
     else (case parse_until q s of None \<Rightarrow> None | Some (t, r) \<Rightarrow> Some (c # t, r)))"

fun parse_digits :: "nat \<Rightarrow> string \<Rightarrow> nat \<times> string" where
  "parse_digits n [] = (n, [])"
| "parse_digits n (c # s) = (if is_digit c then parse_digits (10 * n + (byte c - 48)) s else (n, c # s))"

fun parse_value :: "nat \<Rightarrow> string \<Rightarrow> (json \<times> string) option"
and parse_items :: "nat \<Rightarrow> string \<Rightarrow> (json list \<times> string) option"
and parse_members :: "nat \<Rightarrow> string \<Rightarrow> ((string \<times> json) list \<times> string) option" where
  "parse_value 0 s = None"
| "parse_value (Suc n) s =
     (case s of [] \<Rightarrow> None
      | c # r \<Rightarrow>
          if c = CHR 0x22 then map_option (\<lambda>(t, r'). (JStr t, r')) (parse_until CHR 0x22 r)
          else if c = CHR ''['' then
            (if take 1 r = '']'' then Some (JArr [], drop 1 r)
             else map_option (\<lambda>(vs, r'). (JArr vs, r')) (parse_items n r))
          else if c = CHR ''{'' then
            (if take 1 r = ''}'' then Some (JObj [], drop 1 r)
             else map_option (\<lambda>(kvs, r'). (obj kvs, r')) (parse_members n r))
          else if is_digit c then (case parse_digits 0 s of (k, r') \<Rightarrow> Some (jnat k, r'))
          else if starts_with ''true'' s then Some (JBool True, drop 4 s)
          else if starts_with ''false'' s then Some (JBool False, drop 5 s)
          else if starts_with ''null'' s then Some (JNull, drop 4 s)
          else None)"
| "parse_items 0 s = None"
| "parse_items (Suc n) s =
     (case parse_value n s of None \<Rightarrow> None
      | Some (v, r) \<Rightarrow>
          (case r of [] \<Rightarrow> None
           | c # r' \<Rightarrow>
               if c = CHR '']'' then Some ([v], r')
               else map_option (\<lambda>(vs, r''). (v # vs, r'')) (parse_items n r')))"
| "parse_members 0 s = None"
| "parse_members (Suc n) s =
     (case parse_until CHR 0x22 (drop 1 s) of None \<Rightarrow> None
      | Some (k, r0) \<Rightarrow>
          (case parse_value n (drop 1 r0) of None \<Rightarrow> None
           | Some (v, r) \<Rightarrow>
               (case r of [] \<Rightarrow> None
                | c # r' \<Rightarrow>
                    if c = CHR ''}'' then Some ([(k, v)], r')
                    else map_option (\<lambda>(kvs, r''). ((k, v) # kvs, r'')) (parse_members n r'))))"

definition parse_json :: "string \<Rightarrow> string + json" where
  "parse_json s = (case parse_value (length s + 1) s of
     Some (v, []) \<Rightarrow> Inr v | _ \<Rightarrow> Inl ''syntax error'')"

definition x0 :: ext where
  "x0 = \<lparr>x_string = quote, x_text = print_json, x_jcs = print_json, x_parse = parse_json,
     x_uuid = (\<lambda>u. if length u = 36 then Some (u, True, 4) else None),
     x_rfc3339 = (\<lambda>d. Some d), x_sql = (\<lambda>c. c @ '' constraint failed'')\<rparr>"

text \<open>Tasks belong to lists: a reference that deletes with its target, an enum, a default.\<close>

definition field :: "string \<Rightarrow> value_type \<Rightarrow> bool \<Rightarrow> field_desc" where
  "field n t b = \<lparr>f_name = n, f_type = t, f_nullable = b, f_default = None\<rparr>"

definition list_model :: model_desc where
  "list_model = \<lparr>m_name = ''List'', m_version = 1, m_identity = [''id''],
     m_fields = [field ''id'' (TScalar StString) False, field ''title'' (TScalar StString) False],
     m_relations = [], m_unique = []\<rparr>"

definition task_model :: model_desc where
  "task_model = \<lparr>m_name = ''Task'', m_version = 2, m_identity = [''id''],
     m_fields = [field ''id'' (TScalar StInt) False, field ''title'' (TScalar StString) False,
       field ''state'' (TEnum ''State'') False, field ''listId'' (TScalar StString) True],
     m_relations = [\<lparr>r_name = ''list'', r_target = ''List'', r_fields = [''listId''],
       r_target_fields = [''id''], r_on_delete = ''delete''\<rparr>],
     m_unique = [[''title'']]\<rparr>"

definition s0 :: schema where
  "s0 = \<lparr>s_enums = [\<lparr>e_name = ''State'', e_values = [''open'', ''done'']\<rparr>],
     s_models = [list_model, task_model], s_requirements = [], s_prerequisites = [], s_policies = []\<rparr>"

text \<open>The next release: a nullable field and a model more.\<close>

definition s1 :: schema where
  "s1 = s0\<lparr>s_models := [list_model,
     task_model\<lparr>m_fields := m_fields task_model @ [field ''note'' (TScalar StString) True]\<rparr>,
     \<lparr>m_name = ''Tag'', m_version = 1, m_identity = [''id''],
       m_fields = [field ''id'' (TScalar StInt) False], m_relations = [], m_unique = []\<rparr>]\<rparr>"


lemma s0_names: "\<not> reserved_model_name ''List''" "\<not> reserved_model_name ''Task''"
  by (simp_all add: reserved_model_name_def starts_with_def lowercase_def to_lower_def is_upper_def Let_def)

lemma s0_ok: "schema_ok s0"
  by (auto simp: schema_ok_def s0_def list_model_def task_model_def model_ok_def s0_names field_def max_safe_integer_def field_ok_def
   enum_ok_def identity_ok_def field_of_def unique_ok_def relation_ok_def model_of_def)

lemma canonical_ok_x0: "ascii_keys v \<Longrightarrow> parse_json (print_json v) = Inr v \<Longrightarrow> canonical_ok x0 v"
  by (rule canonical_ok_print) (simp_all add: x0_def)

lemma x0_ok: "ext_ok x0"
  by (auto simp: ext_ok_def x0_def split: if_splits)

lemmas s0_defs = s0_def list_model_def task_model_def field_def

lemmas scalar_eval = field_of_def normalize_value_def is_null_def scalar_def f64_of_nat_exact
  max_safe_integer_def f_integral_def f_magnitude_def f_as_i64_def jint_def

lemma task_key:
  "record_key x0 s0 ''Task'' (JObj [(''id'', jnat 7)]) =
   Inr \<lparr>k_model = ''Task'', k_identity = JObj [(''id'', jnat 7)]\<rparr>"
  by (simp add: s0_defs record_key_def model_of_def bt_keys_def identity_step_def scalar_eval)

theorem record_key_normal_witness:
  "record_key x0 s0 ''Task'' (JObj [(''id'', jnat 7)]) =
     Inr \<lparr>k_model = ''Task'', k_identity = JObj [(''id'', jnat 7)]\<rparr> \<and>
   set (bt_keys [(''id'', jnat 7)]) = {''id''}"
proof -
  have "storable_record s0 ''Task'' (JObj [(''id'', jnat 7)])"
    by (simp add: storable_record_def storable_fields_def model_of_def s0_defs field_of_def)
  with record_key_normal [OF task_key s0_ok x0_ok] have "\<exists>m kvs. model_of s0 ''Task'' = Inr m \<and>
      JObj [(''id'', jnat 7)] = JObj kvs \<and> set (bt_keys kvs) = set (m_identity m)"
    by auto
  then show ?thesis using task_key by (auto simp: model_of_def s0_defs)
qed

definition task_state :: json where
  "task_state = JObj [(''listId'', JStr ''l1''), (''state'', JStr ''open''), (''title'', JStr ''milk'')]"

lemma task_state_loaded:
  "state_of x0 s0 ''Task'' (JObj [(''id'', jnat 7), (''listId'', JStr ''l1''), (''state'', JStr ''open''),
     (''title'', JStr ''milk'')]) True = Inr task_state"
  by (simp add: s0_defs state_of_def model_of_def bt_keys_def state_fields_def state_step_def
      scalar_eval task_state_def)

theorem state_normal_witness:
  "validate_state x0 s0 ''Task'' task_state = Inr task_state"
proof -
  have "storable_record s0 ''Task'' task_state"
    by (simp add: storable_record_def storable_fields_def model_of_def s0_defs field_of_def task_state_def)
  from state_normal [OF s0_ok x0_ok this] task_state_loaded show ?thesis by blast
qed

end
