(* ===== verification/Compat.thy ===== *)
theory Compat
  imports Examples
begin

text \<open>
  \<open>Schema::compatibility\<close> (\<open>crates/core/src/schema.rs\<close>): whether a database built for one schema
  can be used, extended in place or has to be rebuilt under another.
\<close>

datatype additive_step = AddModel string | AddField string string

datatype compat = Identical | Additive "additive_step list" | Incompatible string

definition enum_values :: "schema \<Rightarrow> string \<Rightarrow> string list option" where
  "enum_values s name = map_option e_values (find (\<lambda>e. e_name e = name) (s_enums s))"

definition relation_tuple ::
  "relation_desc \<Rightarrow> string \<times> string \<times> string list \<times> string list \<times> string" where
  "relation_tuple r = (r_name r, r_target r, r_fields r, r_target_fields r, r_on_delete r)"

text \<open>A field of the stored model, looked up in the incoming one. \<open>Inl\<close> is the early return.\<close>

definition old_field :: "schema \<Rightarrow> schema \<Rightarrow> model_desc \<Rightarrow> model_desc \<Rightarrow> field_desc \<Rightarrow> string + unit" where
  "old_field stored incoming old new f =
     (case field_of new (f_name f) of
        None \<Rightarrow> Inl (''field '' @ m_name old @ ''.'' @ f_name f @ '' was removed or renamed'')
      | Some g \<Rightarrow>
          if f_type g \<noteq> f_type f \<or> f_nullable g \<noteq> f_nullable f
          then Inl (''field '' @ m_name old @ ''.'' @ f_name f @ '' changed its type or nullability'')
          else (case f_type f of
              TEnum name \<Rightarrow>
                ensure (enum_values stored name = enum_values incoming name)
                  (''enum '' @ name @ '' used by '' @ m_name old @ ''.'' @ f_name f @ '' changed its values'')
            | _ \<Rightarrow> Inr ()))"

definition new_field ::
  "model_desc \<Rightarrow> model_desc \<Rightarrow> field_desc \<Rightarrow> additive_step list \<Rightarrow> string + additive_step list" where
  "new_field old new f steps =
     (if \<exists>g \<in> set (m_fields old). f_name g = f_name f then Inr steps
      else if f_nullable f \<or> f_default f \<noteq> None then Inr (steps @ [AddField (m_name new) (f_name f)])
      else Inl (''field '' @ m_name new @ ''.'' @ f_name f @ '' is required and has no default''))"

definition old_model ::
  "schema \<Rightarrow> schema \<Rightarrow> model_desc \<Rightarrow> additive_step list \<Rightarrow> string + additive_step list" where
  "old_model stored incoming old steps =
     (case find (\<lambda>m. m_name m = m_name old) (s_models incoming) of
        None \<Rightarrow> Inl (''model '' @ m_name old @ '' was removed'')
      | Some new \<Rightarrow>
          bindE (ensure (m_version new = m_version old)
            (''model '' @ m_name old @ '' changed version from '' @ decimal (m_version old)
             @ '' to '' @ decimal (m_version new)))
          (\<lambda>_. bindE (ensure (m_identity new = m_identity old)
            (''model '' @ m_name old @ '' changed its identity''))
          (\<lambda>_. bindE (ensure (m_unique new = m_unique old)
            (''model '' @ m_name old @ '' changed its unique constraints''))
          (\<lambda>_. bindE (ensure (sort (map relation_tuple (m_relations old))
                = sort (map relation_tuple (m_relations new)))
            (''model '' @ m_name old @ '' changed its relations''))
          (\<lambda>_. bindE (echeck (old_field stored incoming old new) (m_fields old))
          (\<lambda>_. efold (new_field old new) (m_fields new) steps))))))"

definition added_models :: "schema \<Rightarrow> schema \<Rightarrow> additive_step list" where
  "added_models stored incoming =
     map (\<lambda>m. AddModel (m_name m))
       (filter (\<lambda>m. \<not> (\<exists>q \<in> set (s_models stored). m_name q = m_name m)) (s_models incoming))"

definition compatibility :: "schema \<Rightarrow> schema \<Rightarrow> compat" where
  "compatibility stored incoming =
     (case efold (old_model stored incoming) (s_models stored) [] of
        Inl reason \<Rightarrow> Incompatible reason
      | Inr steps \<Rightarrow>
          (let all = steps @ added_models stored incoming in
           if all = [] then Identical else Additive all))"

section \<open>Compatible schemas read the same records\<close>

lemma find_same_key:
  assumes "distinct (map k xs)" and "y \<in> set xs"
  shows "find (\<lambda>z. k z = k y) xs = Some y"
proof (cases "find (\<lambda>z. k z = k y) xs")
  case None
  with assms(2) show ?thesis by (auto simp: find_None)
next
  case (Some z)
  with find_Some_in [OF this] assms show ?thesis by (auto simp: distinct_map inj_on_def)
qed

lemma enum_values_member:
  assumes "schema_ok s"
  shows "(\<exists>en \<in> set (s_enums s). e_name en = name \<and> t \<in> set (e_values en)) \<longleftrightarrow>
    (\<exists>vs. enum_values s name = Some vs \<and> t \<in> set vs)"
proof -
  from assms have d: "distinct (map e_name (s_enums s))" by (simp add: schema_ok_def)
  show ?thesis
  proof
    assume "\<exists>en \<in> set (s_enums s). e_name en = name \<and> t \<in> set (e_values en)"
    then obtain en where "en \<in> set (s_enums s)" "e_name en = name" "t \<in> set (e_values en)" by blast
    with find_same_key [OF d this(1)] show "\<exists>vs. enum_values s name = Some vs \<and> t \<in> set vs"
      by (simp add: enum_values_def)
  next
    assume "\<exists>vs. enum_values s name = Some vs \<and> t \<in> set vs"
    then show "\<exists>en \<in> set (s_enums s). e_name en = name \<and> t \<in> set (e_values en)"
      by (auto simp: enum_values_def dest: find_Some_in)
  qed
qed

text \<open>The facts about one stored model that a classification other than \<open>Incompatible\<close> gives.\<close>

lemma compatible_model:
  assumes "\<And>r. compatibility stored incoming \<noteq> Incompatible r"
    and "old \<in> set (s_models stored)"
  obtains new where "find (\<lambda>m. m_name m = m_name old) (s_models incoming) = Some new"
    and "m_identity new = m_identity old"
    and "\<forall>f \<in> set (m_fields old). old_field stored incoming old new f = Inr ()"
proof -
  have "efold (old_model stored incoming) (s_models stored) [] \<noteq> Inl r" for r
    using assms(1) [of r] by (auto simp: compatibility_def)
  then obtain steps where "efold (old_model stored incoming) (s_models stored) [] = Inr steps"
    by (meson sumE)
  from efold_each [OF this assms(2)] obtain a b where "old_model stored incoming old a = Inr b" by blast
  then show thesis using that
    by (auto simp: old_model_def res_elims split: option.splits)
qed

lemma compatible_field:
  assumes ok: "schema_ok stored" "schema_ok incoming" and old: "old \<in> set (s_models stored)"
    and each: "\<forall>f \<in> set (m_fields old). old_field stored incoming old new f = Inr ()"
    and f: "field_of old n = Some f"
  shows "\<exists>g. field_of new n = Some g \<and>
    (\<forall>v. normalize_value x incoming g v = normalize_value x stored f v)"
proof -
  from field_of_in [OF f] have fm: "f \<in> set (m_fields old)" "f_name f = n" by simp_all
  with each have "old_field stored incoming old new f = Inr ()" by blast
  then obtain g where g: "field_of new n = Some g" "f_type g = f_type f" "f_nullable g = f_nullable f"
    and e: "\<And>name. f_type f = TEnum name \<Longrightarrow> enum_values stored name = enum_values incoming name"
    using fm(2)
    by (auto simp: old_field_def ensure_def split: option.splits if_splits value_type.splits)
  have ty: "type_ok stored (f_type f)"
    using ok(1) old fm(1) by (auto simp: schema_ok_def model_ok_def field_ok_def)
  have "value_n x incoming (f_type f) v = value_n x stored (f_type f) v" for v
  proof (cases "f_type f")
    case (TEnum name)
    then show ?thesis using e [OF TEnum] ok
      by (simp add: enum_values_member value_n_enum del: value_n.simps)
  next
    case (TList ty')
    then show ?thesis using ty by (cases ty') (auto cong: emap_cong)
  qed simp
  with g fm(2) field_of_in [OF g(1)] show ?thesis by (auto simp: normalize_value_def)
qed

text \<open>
  A compatible schema reads the records of the old one. When \<open>compatibility\<close> does not answer
  \<open>Incompatible\<close>, every identity and every patch the stored schema accepts is accepted by the
  incoming schema with the same normal form, so queued mutations and stored keys keep their
  meaning after the upgrade.
\<close>

theorem compatibility_keeps_records:
  assumes "schema_ok stored" and "schema_ok incoming"
    and "\<And>r. compatibility stored incoming \<noteq> Incompatible r"
  shows "(record_key x stored name i = Inr k \<longrightarrow> record_key x incoming name i = Inr k) \<and>
    (validate_patch x stored name p = Inr q \<longrightarrow> validate_patch x incoming name p = Inr q)"
proof (intro conjI impI)
  have model: "\<exists>new. model_of incoming name = Inr new \<and> m_identity new = m_identity old \<and>
      (\<forall>n f. field_of old n = Some f \<longrightarrow> (\<exists>g. field_of new n = Some g \<and>
        (\<forall>v. normalize_value x incoming g v = normalize_value x stored f v)))"
    if "model_of stored name = Inr old" for old
  proof -
    from model_of_in [OF that] have o: "old \<in> set (s_models stored)" "m_name old = name" by simp_all
    from assms(3) o(1) obtain new where n: "find (\<lambda>m. m_name m = m_name old) (s_models incoming) = Some new"
        "m_identity new = m_identity old" "\<forall>f \<in> set (m_fields old). old_field stored incoming old new f = Inr ()"
      by (rule compatible_model)
    with o compatible_field [OF assms(1,2) o(1) n(3)] show ?thesis by (auto simp: model_of_def)
  qed
  {
    assume "record_key x stored name i = Inr k"
    then obtain m input ws where m: "model_of stored name = Inr m" "i = JObj input"
        "length input = length (m_identity m)" "set (bt_keys input) \<subseteq> set (m_identity m)"
        "emap (identity_value x stored m input) (m_identity m) = Inr ws"
        "k = \<lparr>k_model = name, k_identity = JObj (bt_of (zip (m_identity m) ws))\<rparr>"
      by (rule record_key_Inr)
    from model [OF m(1)] obtain new where new: "model_of incoming name = Inr new" "m_identity new = m_identity m"
      and eq: "\<And>n f. field_of m n = Some f \<Longrightarrow> \<exists>g. field_of new n = Some g \<and>
        (\<forall>v. normalize_value x incoming g v = normalize_value x stored f v)" by blast
    have "identity_value x incoming new input n = Inr w" if "identity_value x stored m input n = Inr w" for n w
      using that eq [of n] by (auto simp: identity_value_def res_elims)
    with m(5) have "emap (identity_value x incoming new input) (m_identity m) = Inr ws"
      by (auto simp: emap_Inr_iff elim: list.rel_mono_strong)
    with m new show "record_key x incoming name i = Inr k"
      by (simp add: record_key_def identity_loop ensure_def subset_eq)
  next
    assume "validate_patch x stored name p = Inr q"
    then obtain m input ws where m: "model_of stored name = Inr m" "p = JObj input"
        "emap (patch_value x stored m) input = Inr ws" "q = JObj (bt_of (zip (map fst input) ws))"
      by (rule validate_patch_Inr)
    from model [OF m(1)] obtain new where new: "model_of incoming name = Inr new" "m_identity new = m_identity m"
      and eq: "\<And>n f. field_of m n = Some f \<Longrightarrow> \<exists>g. field_of new n = Some g \<and>
        (\<forall>v. normalize_value x incoming g v = normalize_value x stored f v)" by blast
    have "patch_value x incoming new kv = Inr w" if "patch_value x stored m kv = Inr w" for kv w
      using that eq [of "fst kv"] new(2) by (auto simp: patch_value_def res_elims)
    with m(3) have "emap (patch_value x incoming new) input = Inr ws"
      by (auto simp: emap_Inr_iff elim: list.rel_mono_strong)
    with m new show "validate_patch x incoming name p = Inr q"
      by (auto simp: validate_patch_def patch_loop)
  }
qed

text \<open>
  A database reopened with its own schema is left alone: every valid schema is \<open>Identical\<close> to
  itself.
\<close>

theorem compatibility_reflexive:
  assumes "schema_ok s"
  shows "compatibility s s = Identical"
proof -
  from assms have d: "distinct (map m_name (s_models s))" by (simp add: schema_ok_def)
  have "old_model s s m [] = Inr []" if m: "m \<in> set (s_models s)" for m
  proof -
    from assms m have mo: "model_ok s m" by (simp add: schema_ok_def)
    have "echeck (old_field s s m m) (m_fields m) = Inr ()"
      unfolding echeck_Inr_iff
      by (auto simp: old_field_def field_of_mem [OF mo] split: value_type.splits)
    moreover have "efold (new_field m m) fs [] = Inr []" if "set fs \<subseteq> set (m_fields m)" for fs
      using that by (induction fs) (auto simp: new_field_def)
    ultimately show ?thesis by (simp add: old_model_def find_same_key [OF d m])
  qed
  then have "efold (old_model s s) ms [] = Inr []" if "set ms \<subseteq> set (s_models s)" for ms
    using that by (induction ms) auto
  moreover have "added_models s s = []" by (auto simp: added_models_def filter_empty_conv)
  ultimately show ?thesis by (simp add: compatibility_def)
qed

section \<open>Witnesses\<close>

lemma s1_ok: "schema_ok s1"
proof -
  have "\<not> reserved_model_name ''Tag''"
    by (simp add: reserved_model_name_def starts_with_def lowercase_def to_lower_def is_upper_def Let_def)
  then show ?thesis
    by (auto simp: schema_ok_def s1_def s0_defs model_ok_def s0_names max_safe_integer_def field_ok_def
      enum_ok_def identity_ok_def field_of_def unique_ok_def relation_ok_def model_of_def)
qed

lemma s0_s1: "compatibility s0 s1 = Additive [AddField ''Task'' ''note'', AddModel ''Tag'']"
  by (simp add: compatibility_def s1_def s0_defs old_model_def new_field_def old_field_def
      field_of_def added_models_def relation_tuple_def enum_values_def Let_def)

theorem compatibility_keeps_records_witness:
  "record_key x0 s1 ''Task'' (JObj [(''id'', jnat 7)]) =
   Inr \<lparr>k_model = ''Task'', k_identity = JObj [(''id'', jnat 7)]\<rparr>"
  using compatibility_keeps_records [OF s0_ok s1_ok, of x0 "''Task''" "JObj [(''id'', jnat 7)]"] task_key
  by (simp add: s0_s1)

theorem compatibility_reflexive_witness: "compatibility s0 s0 = Identical"
  using compatibility_reflexive [OF s0_ok] .

end
