(* ===== verification/Connection.thy ===== *)
theory Connection
  imports Prelude "HOL-Library.Word"
begin

text \<open>
  \<open>crates/client/src/connection.rs\<close>: when a lane runs, waits or idles. Clock values are \<open>u64\<close>
  milliseconds, the attempt counter is a \<open>u32\<close>; the saturating operations are written out.
\<close>

type_synonym u32 = "32 word"
type_synonym u64 = "64 word"

definition saturating_add :: "'a::len word \<Rightarrow> 'a word \<Rightarrow> 'a word" where
  "saturating_add a b = (if unat a + unat b < 2 ^ LENGTH('a) then a + b else - 1)"

definition saturating_mul :: "'a::len word \<Rightarrow> 'a word \<Rightarrow> 'a word" where
  "saturating_mul a b = (if unat a * unat b < 2 ^ LENGTH('a) then a * b else - 1)"

record driver =
  running :: bool
  paused :: bool
  dirty :: bool
  in_flight :: bool
  attempt :: u32
  due :: u64

definition driver_default :: driver where
  "driver_default = \<lparr>running = False, paused = False, dirty = False, in_flight = False,
     attempt = 0, due = 0\<rparr>"

datatype connection_action = Idle | Sync | Wait u64

definition driver_start :: "u64 \<Rightarrow> driver \<Rightarrow> driver" where
  "driver_start now d = driver_default\<lparr>running := True, dirty := True, due := now\<rparr>"

definition driver_stop :: "driver \<Rightarrow> driver" where
  "driver_stop d = driver_default"

definition driver_pause :: "driver \<Rightarrow> driver" where
  "driver_pause d = d\<lparr>paused := True\<rparr>"

definition driver_resume :: "u64 \<Rightarrow> driver \<Rightarrow> driver" where
  "driver_resume now d = d\<lparr>paused := False, dirty := True, due := now\<rparr>"

definition driver_wake :: "driver \<Rightarrow> driver" where
  "driver_wake d = d\<lparr>dirty := True\<rparr>"

definition driver_next :: "u64 \<Rightarrow> driver \<Rightarrow> connection_action \<times> driver" where
  "driver_next now d =
     (if \<not> running d \<or> paused d \<or> in_flight d \<or> \<not> dirty d then (Idle, d)
      else if now < due d then (Wait (due d - now), d)
      else (Sync, d\<lparr>dirty := False, in_flight := True\<rparr>))"

definition backoff_base :: "u32 \<Rightarrow> u64" where
  "backoff_base n = min (saturating_mul 250 (push_bit (unat (min n 7)) 1)) 30000"

definition backoff :: "u32 \<Rightarrow> u64 \<Rightarrow> u64" where
  "backoff n entropy = backoff_base n * (800 + entropy mod 401) div 1000"

definition driver_complete :: "bool \<Rightarrow> u64 \<Rightarrow> u64 \<Rightarrow> driver \<Rightarrow> driver" where
  "driver_complete success now entropy d =
     (if \<not> running d \<or> \<not> in_flight d then d
      else if success then d\<lparr>in_flight := False, attempt := 0, due := now\<rparr>
      else d\<lparr>in_flight := False,
             due := saturating_add now (backoff (attempt d) entropy),
             attempt := saturating_add (attempt d) 1,
             dirty := True\<rparr>)"

section \<open>The driver under any sequence of calls\<close>

datatype driver_call =
    OpStart u64 | OpStop | OpPause | OpResume u64 | OpWake | OpNext u64 | OpComplete bool u64 u64

fun driver_op :: "driver_call \<Rightarrow> driver \<Rightarrow> connection_action option \<times> driver" where
  "driver_op (OpStart now) d = (None, driver_start now d)"
| "driver_op OpStop d = (None, driver_stop d)"
| "driver_op OpPause d = (None, driver_pause d)"
| "driver_op (OpResume now) d = (None, driver_resume now d)"
| "driver_op OpWake d = (None, driver_wake d)"
| "driver_op (OpNext now) d = (case driver_next now d of (a, d') \<Rightarrow> (Some a, d'))"
| "driver_op (OpComplete ok now e) d = (None, driver_complete ok now e d)"

fun driver_run :: "driver_call list \<Rightarrow> driver \<Rightarrow> connection_action list \<times> driver" where
  "driver_run [] d = ([], d)"
| "driver_run (op # ops) d =
     (case driver_op op d of (a, d') \<Rightarrow>
      case driver_run ops d' of (as, d'') \<Rightarrow>
        ((case a of None \<Rightarrow> as | Some b \<Rightarrow> b # as), d''))"

definition releases :: "driver_call \<Rightarrow> bool" where
  "releases op = (case op of OpStart _ \<Rightarrow> True | OpStop \<Rightarrow> True | OpComplete _ _ _ \<Rightarrow> True | _ \<Rightarrow> False)"

lemmas driver_defs = driver_default_def driver_start_def driver_stop_def driver_pause_def
  driver_resume_def driver_wake_def driver_next_def driver_complete_def

lemma driver_op_in_flight:
  "\<not> releases op \<Longrightarrow> in_flight d \<Longrightarrow> driver_op op d = (a, d') \<Longrightarrow> in_flight d' \<and> a \<noteq> Some Sync"
  by (cases op) (auto simp: driver_defs releases_def split: if_splits)

lemma driver_run_in_flight:
  "\<forall>op \<in> set ops. \<not> releases op \<Longrightarrow> in_flight d \<Longrightarrow> driver_run ops d = (as, d') \<Longrightarrow>
   Sync \<notin> set as \<and> in_flight d'"
proof (induction ops arbitrary: d as)
  case Nil
  then show ?case by simp
next
  case (Cons op ops)
  obtain a e where e: "driver_op op d = (a, e)" by (cases "driver_op op d")
  from Cons.prems(1,2) e have "in_flight e" "a \<noteq> Some Sync"
    using driver_op_in_flight by auto
  with Cons.IH Cons.prems e show ?case
    by (auto split: prod.splits option.splits)
qed

text \<open>
  One cycle at a time. After \<open>next\<close> answered \<open>Sync\<close>, no sequence of calls without a
  \<open>complete\<close>, \<open>start\<close> or \<open>stop\<close> answers \<open>Sync\<close> again: a wake, a pause, a resume or another
  \<open>next\<close> never starts a second request beside the one in flight.
\<close>

theorem one_cycle_in_flight:
  assumes "driver_next now d = (Sync, d')" and "\<forall>op \<in> set ops. \<not> releases op"
    and "driver_run ops d' = (as, d'')"
  shows "Sync \<notin> set as \<and> in_flight d''"
proof -
  from assms(1) have "in_flight d'" by (auto simp: driver_defs split: if_splits)
  from driver_run_in_flight [OF assms(2) this assms(3)] show ?thesis .
qed

definition consumes :: "connection_action option \<Rightarrow> driver_call \<Rightarrow> bool" where
  "consumes a op \<longleftrightarrow> a = Some Sync \<or> op = OpStop"

lemma driver_op_dirty:
  "dirty d \<Longrightarrow> driver_op op d = (a, d') \<Longrightarrow> \<not> consumes a op \<Longrightarrow> dirty d'"
  by (cases op) (auto simp: driver_defs consumes_def split: if_splits)

lemma driver_run_dirty:
  "dirty d \<Longrightarrow> driver_run ops d = (as, d') \<Longrightarrow> OpStop \<notin> set ops \<Longrightarrow> Sync \<notin> set as \<Longrightarrow> dirty d'"
proof (induction ops arbitrary: d as)
  case Nil
  then show ?case by simp
next
  case (Cons op ops)
  obtain a e where e: "driver_op op d = (a, e)" by (cases "driver_op op d")
  obtain bs f where f: "driver_run ops e = (bs, f)" by (cases "driver_run ops e")
  from Cons.prems e f have "a \<noteq> Some Sync" "Sync \<notin> set bs" "f = d'"
    by (auto split: option.splits)
  moreover from this Cons.prems e have "dirty e"
    by (auto intro: driver_op_dirty simp: consumes_def)
  ultimately show ?case using Cons.IH [of e bs] Cons.prems(3) f by simp
qed

text \<open>
  A wake is never lost. Whatever happens after it (a cycle in flight completing or
  failing, pauses, resumes), as long as no cycle was started and the lane was not stopped,
  the next \<open>next\<close> of a running, unpaused lane with nothing in flight is never \<open>Idle\<close>: it starts
  the cycle, or says how long to wait for it.
\<close>

theorem wake_never_lost:
  assumes "driver_run ops (driver_wake d) = (as, d')" and "OpStop \<notin> set ops"
    and "Sync \<notin> set as" and "running d'" and "\<not> paused d'" and "\<not> in_flight d'"
  shows "fst (driver_next now d') =
    (if due d' \<le> now then Sync else Wait (due d' - now)) \<and>
    fst (driver_next (due d') d') = Sync"
proof -
  have "dirty (driver_wake d)" by (simp add: driver_wake_def)
  from driver_run_dirty [OF this assms(1-3)] have "dirty d'" .
  with assms(4-6) show ?thesis by (auto simp: driver_next_def not_less)
qed

section \<open>Bounded backoff\<close>

lemma unat_max_u64: "unat (- 1 :: u64) = 2 ^ 64 - 1"
  by (simp add: unsigned_minus_1_eq_mask mask_eq_exp_minus_1)

lemma unat_less_8_cases: "unat (n::u32) \<le> 7 \<Longrightarrow> n \<in> {0, 1, 2, 3, 4, 5, 6, 7}"
proof -
  assume "unat n \<le> 7"
  then have "unat n \<in> unat ` {0, 1, 2, 3, 4, 5, 6, 7::u32}" by auto
  then show ?thesis by (metis imageE word_unat_eq_iff)
qed

lemma min_7_cases: "min n (7::u32) \<in> {0, 1, 2, 3, 4, 5, 6, 7}"
  by (rule unat_less_8_cases) (simp add: min_def word_le_nat_alt)

lemma unat_backoff_base: "unat (backoff_base n) = min (250 * 2 ^ min (unat n) 7) 30000"
proof -
  have "unat (min n 7) = min (unat n) 7"
    by (simp add: min_def word_le_nat_alt)
  moreover from min_7_cases [of n] have
    "unat (min (saturating_mul 250 (push_bit (unat (min n 7)) 1)) (30000::u64)) =
     min (250 * 2 ^ unat (min n 7)) 30000"
    by (elim insertE emptyE) (simp_all add: saturating_mul_def push_bit_eq_mult min_def)
  ultimately show ?thesis by (simp add: backoff_base_def)
qed

lemma unat_backoff:
  "unat (backoff n entropy) = min (250 * 2 ^ min (unat n) 7) 30000 * (800 + unat entropy mod 401) div 1000"
proof -
  let ?b = "min (250 * 2 ^ min (unat n) 7) 30000 :: nat"
  have j: "unat (800 + entropy mod 401) = 800 + unat entropy mod 401"
  proof -
    have "unat entropy mod 401 < 401" by simp
    then have "800 + unat entropy mod 401 < 18446744073709551616" by linarith
    then show ?thesis by (simp add: unat_word_ariths unat_mod_distrib)
  qed
  have "?b * (800 + unat entropy mod 401) \<le> 30000 * 1200"
    by (rule mult_le_mono) (auto simp: less_Suc_eq_le [symmetric])
  then have "?b * (800 + unat entropy mod 401) < 2 ^ 64" by simp
  then have "unat (backoff_base n * (800 + entropy mod 401)) = ?b * (800 + unat entropy mod 401)"
    by (simp add: unat_word_ariths unat_backoff_base j)
  then show ?thesis by (simp add: backoff_def unat_div_distrib)
qed

text \<open>
  C38: retry delays. A failed cycle is retried after \<open>min (250 * 2 ^ attempts) 30000\<close>
  milliseconds with a jitter between 80% and 120%, so never before 200 ms and never after
  36 s, whatever the clock, the number of failures and the entropy; the lane is dirty and free
  again, and the sum saturates at the end of the clock.
\<close>

theorem retry_delay_bounded:
  assumes "running d" and "in_flight d" and "driver_complete False now entropy d = d'"
  shows "\<exists>w. unat (due d') = min (unat now + w) (2 ^ 64 - 1) \<and> 200 \<le> w \<and> w \<le> 36000 \<and>
      w = min (250 * 2 ^ min (unat (attempt d)) 7) 30000 * (800 + unat entropy mod 401) div 1000 \<and>
      dirty d' \<and> \<not> in_flight d' \<and> running d' \<and> paused d' = paused d"
proof -
  let ?w = "unat (backoff (attempt d) entropy)"
  let ?b = "min (250 * 2 ^ min (unat (attempt d)) 7) 30000 :: nat"
  have b: "250 \<le> ?b" "?b \<le> 30000" by simp_all
  have j: "800 \<le> 800 + unat entropy mod 401" "800 + unat entropy mod 401 \<le> 1200"
    by (simp_all add: less_Suc_eq_le [symmetric])
  from mult_le_mono [OF b(1) j(1)] have "200 \<le> ?b * (800 + unat entropy mod 401) div 1000"
    by (simp add: less_eq_div_iff_mult_less_eq)
  moreover from mult_le_mono [OF b(2) j(2)]
  have "?b * (800 + unat entropy mod 401) \<le> 36000 * 1000" by simp
  then have "?b * (800 + unat entropy mod 401) div 1000 \<le> 36000"
    using div_le_mono [of _ "36000 * 1000" 1000] by fastforce
  moreover have "unat (saturating_add now (backoff (attempt d) entropy)) =
      min (unat now + ?w) (2 ^ 64 - 1)"
    by (simp add: saturating_add_def unat_word_ariths unat_max_u64 min_def)
  moreover from assms have "due d' = saturating_add now (backoff (attempt d) entropy)"
    "dirty d'" "\<not> in_flight d'" "running d'" "paused d' = paused d"
    by (auto simp add: driver_complete_def)
  ultimately show ?thesis
    using unat_backoff [of "attempt d" entropy] by (intro exI [of _ ?w]) (simp only: simp_thms)
qed

theorem one_cycle_in_flight_witness:
  "\<exists>d'. driver_next 10 (driver_start 10 driver_default) = (Sync, d') \<and>
     Sync \<notin> set (fst (driver_run [OpWake, OpNext 11, OpPause, OpResume 12, OpNext 13] d'))"
proof -
  let ?d = "driver_start 10 driver_default"
  let ?ops = "[OpWake, OpNext 11, OpPause, OpResume 12, OpNext 13]"
  have s: "driver_next 10 ?d = (Sync, snd (driver_next 10 ?d))" by (simp add: driver_defs)
  have "\<forall>op \<in> set ?ops. \<not> releases op" by (simp add: releases_def)
  from one_cycle_in_flight [OF s this prod.collapse [symmetric]] s show ?thesis by blast
qed

theorem wake_never_lost_witness:
  "fst (driver_next 12 (snd (driver_run [OpComplete True 12 0]
     (driver_wake (snd (driver_next 10 (driver_start 10 driver_default))))))) = Sync"
proof -
  let ?d = "snd (driver_next 10 (driver_start 10 driver_default))"
  let ?ops = "[OpComplete True 12 0]"
  let ?d' = "snd (driver_run ?ops (driver_wake ?d))"
  have r: "driver_run ?ops (driver_wake ?d) = ([], ?d')" by (simp add: driver_defs)
  have "running ?d'" "\<not> paused ?d'" "\<not> in_flight ?d'" "due ?d' = 12" by (simp_all add: driver_defs)
  from wake_never_lost [OF r _ _ this(1-3), of 12] this(4) show ?thesis by simp
qed

theorem retry_delay_bounded_witness:
  "unat (due (driver_complete False 5 200 (snd (driver_next 5 (driver_start 5 driver_default))))) = 255"
proof -
  let ?d = "snd (driver_next 5 (driver_start 5 driver_default))"
  have d: "running ?d" "in_flight ?d" "attempt ?d = 0" by (simp_all add: driver_defs)
  from retry_delay_bounded [OF d(1,2) refl, of 5 200] d(3) show ?thesis by auto
qed

end
