(* ===== verification/Protocol.thy ===== *)
theory Protocol
  imports Examples
begin

text \<open>
  \<open>crates/core/src/protocol.rs\<close>: counters, the push request and its receipt, authority records,
  pull requests and pages, and the frames of a live session, each with its decoder, its
  validation and its encoder. A body is the UTF-8 text on the wire. Where the code decodes with
  \<open>serde\<close>'s derived implementation the model reads the same fields; the text of such an error
  is the package's and is left empty.
\<close>

section \<open>Counters and codes\<close>

definition push_mutations :: nat where "push_mutations = 20"
definition push_bytes :: nat where "push_bytes = 256 * 1024"
definition pull_changes :: nat where "pull_changes = 50"

definition counter :: "nat \<Rightarrow> nat res" where
  "counter n = (if n \<le> max_safe_integer then Inr n
     else Inl (invalid ''counter outside safe integer range''))"

definition read_counter :: "json \<Rightarrow> bool \<Rightarrow> nat res" where
  "read_counter v positive =
     bindE (ok_or (as_f64 v) (invalid ''counter must be a number''))
     (\<lambda>f. if (f_neg f \<and> \<not> f_is_zero f) \<or> \<not> f_integral f \<or> max_safe_integer < f_magnitude f
            \<or> (positive \<and> f_is_zero f)
          then Inl (invalid ''invalid counter'') else Inr (f_magnitude f))"

definition code_byte :: "char \<Rightarrow> bool" where
  "code_byte c \<longleftrightarrow> is_lower c \<or> is_digit c"

definition valid_code :: "string \<Rightarrow> bool" where
  "valid_code s =
     (let parts = split_on (\<lambda>c. c \<in> {CHR ''.'', CHR ''_'', CHR ''-''}) s; first = hd parts in
      (case first of [] \<Rightarrow> False | c # _ \<Rightarrow> is_lower c) \<and> list_all code_byte first \<and>
      list_all (\<lambda>p. p \<noteq> [] \<and> list_all code_byte p) (tl parts))"

definition nonblank :: "json \<Rightarrow> string res" where
  "nonblank v = (case as_str v of
     Some s \<Rightarrow> if blank s then Inl (invalid ''expected nonblank string'') else Inr s
   | None \<Rightarrow> Inl (invalid ''expected nonblank string''))"

definition derive_error :: err where
  "derive_error = JsonError []"

text \<open>
  A struct's fields, from an object by name or from an array by position, as the derived
  decoders read them.
\<close>

definition wire_field :: "string list \<Rightarrow> json \<Rightarrow> string \<Rightarrow> json option" where
  "wire_field names v name = (case v of
     JObj kvs \<Rightarrow> map_of kvs name
   | JArr vs \<Rightarrow> map_of (zip names vs) name
   | _ \<Rightarrow> None)"

definition wire_shape :: "string list \<Rightarrow> json \<Rightarrow> bool" where
  "wire_shape names v = (case v of
     JObj _ \<Rightarrow> True | JArr vs \<Rightarrow> length vs \<le> length names | _ \<Rightarrow> False)"

section \<open>Push requests\<close>

record push_request =
  u_client :: string
  u_batch :: nat
  u_mutations :: "(nat \<times> json) list"
  u_models :: "(string \<times> nat) list"
  u_raw :: json

definition read_models :: "json \<Rightarrow> (string \<times> nat) list res" where
  "read_models v =
     bindE (ok_or (as_object v) (invalid ''models must declare a version per model''))
     (\<lambda>kvs. bindE (ensure (kvs \<noteq> []) (invalid ''models must declare at least one model''))
     (\<lambda>_. bindE (emap (\<lambda>(name, version).
            bindE (ensure (name \<noteq> []) (invalid ''model name must not be empty''))
            (\<lambda>_. bindE (read_counter version True) (\<lambda>n. Inr (name, n)))) kvs)
     (\<lambda>ps. Inr (bt_of ps))))"

definition read_cursors :: "json \<Rightarrow> (string \<times> nat) list res" where
  "read_cursors v =
     bindE (ok_or (as_object v) (invalid ''cursors must map channels to cursors''))
     (\<lambda>kvs. bindE (ensure (kvs \<noteq> []) (invalid ''cursors must name at least one channel''))
     (\<lambda>_. bindE (emap (\<lambda>(channel, cursor).
            bindE (ensure (channel \<noteq> []) (invalid ''channel must not be empty''))
            (\<lambda>_. bindE (read_counter cursor False) (\<lambda>n. Inr (channel, n)))) kvs)
     (\<lambda>ps. Inr (bt_of ps))))"

definition counters_json :: "(string \<times> nat) list \<Rightarrow> json" where
  "counters_json m = obj (map (\<lambda>(k, n). (k, jnat n)) m)"

definition push_mutation ::
  "json \<Rightarrow> nat list \<times> (nat \<times> json) list \<Rightarrow> (nat list \<times> (nat \<times> json) list) res" where
  "push_mutation act acc =
     bindE (ensure (is_object act) (invalid ''mutation must be object''))
     (\<lambda>_. bindE (read_counter (index act ''ordinal'') True)
     (\<lambda>ordinal. bindE (ensure (ordinal \<notin> set (fst acc)) (invalid ''duplicate ordinal''))
     (\<lambda>_. Inr (bs_ins ordinal (fst acc), snd acc @ [(ordinal, act)]))))"

definition push_decode :: "ext \<Rightarrow> string \<Rightarrow> push_request res" where
  "push_decode x bytes =
     bindE (from_str x bytes)
     (\<lambda>raw. bindE (nonblank (index raw ''clientId''))
     (\<lambda>client. bindE (read_counter (index raw ''batchSequence'') True)
     (\<lambda>batch. bindE (read_models (index raw ''models''))
     (\<lambda>models. bindE (ok_or (as_array (index raw ''mutations'')) (invalid ''mutations must be array''))
     (\<lambda>acts. bindE (ensure (\<not> (acts = [] \<or> push_mutations < length acts))
         (invalid (''batch must contain 1..'' @ decimal push_mutations @ '' mutations'')))
     (\<lambda>_. bindE (efold push_mutation acts ([], []))
     (\<lambda>acc. Inr \<lparr>u_client = client, u_batch = batch, u_mutations = snd acc,
        u_models = models, u_raw = raw\<rparr>)))))))"

definition push_encode :: "ext \<Rightarrow> push_request \<Rightarrow> string" where
  "push_encode x r = canonical_json x (u_raw r)"

section \<open>Authority records\<close>

record rejection =
  j_ordinal :: nat
  j_code :: string

record authority =
  a_model :: string
  a_identity :: json
  a_stamp :: nat
  a_state :: json
  a_error :: "string option"

definition authority_validate :: "authority \<Rightarrow> unit res" where
  "authority_validate r =
     bindE (ensure (a_model r \<noteq> []) (invalid ''record model must not be empty''))
     (\<lambda>_. bindE (ensure (is_object (a_identity r)) (invalid ''record identity must be an object''))
     (\<lambda>_. bindE (ensure (\<not> (a_stamp r = 0 \<or> \<not> is_ok (counter (a_stamp r))))
         (invalid ''record stamp must be a positive counter''))
     (\<lambda>_. case a_error r of
         Some code \<Rightarrow>
           bindE (ensure (valid_code code) (invalid ''record error must be a code''))
           (\<lambda>_. ensure (is_null (a_state r)) (invalid ''a record with an error carries no state''))
       | None \<Rightarrow>
           ensure (is_null (a_state r) \<or> is_object (a_state r))
             (invalid ''record state must be an object or null''))))"

definition authority_key :: "ext \<Rightarrow> authority \<Rightarrow> string" where
  "authority_key x r = a_model r @ CHR 0x00 # canonical_json x (a_identity r)"

definition is_error :: "authority \<Rightarrow> bool" where
  "is_error r \<longleftrightarrow> a_error r \<noteq> None"

definition derive_authority :: "json \<Rightarrow> authority res" where
  "derive_authority v =
     bindE (ok_or (Option.bind (get v ''model'') as_str) derive_error)
     (\<lambda>model. bindE (ok_or (get v ''identity'') derive_error)
     (\<lambda>identity. bindE (ok_or (Option.bind (get v ''stamp'') as_u64) derive_error)
     (\<lambda>stamp. bindE (case get v ''error'' of None \<Rightarrow> Inr None | Some JNull \<Rightarrow> Inr None
           | Some (JStr e) \<Rightarrow> Inr (Some e) | _ \<Rightarrow> Inl derive_error)
     (\<lambda>er. Inr \<lparr>a_model = model, a_identity = identity, a_stamp = stamp,
        a_state = index v ''state'', a_error = er\<rparr>))))"

definition decode_record :: "json \<Rightarrow> authority res" where
  "decode_record v =
     bindE (ensure (is_object v) (invalid ''record must be an object''))
     (\<lambda>_. bindE (ensure (\<not> (get v ''error'' = None \<and> get v ''state'' = None))
         (invalid ''record state missing''))
     (\<lambda>_. bindE (ensure (get v ''stamp'' \<noteq> None) (invalid ''record stamp missing''))
     (\<lambda>_. bindE (derive_authority v)
     (\<lambda>r. bindE (authority_validate r) (\<lambda>_. Inr r)))))"

definition unique_record :: "ext \<Rightarrow> authority \<Rightarrow> string list \<Rightarrow> string list res" where
  "unique_record x r keys =
     bindE (authority_validate r)
     (\<lambda>_. bindE (ensure (authority_key x r \<notin> set keys) (invalid ''duplicate record''))
     (\<lambda>_. Inr (bs_ins (authority_key x r) keys)))"

definition unique_records :: "ext \<Rightarrow> authority list \<Rightarrow> unit res" where
  "unique_records x rs = bindE (efold (unique_record x) rs []) (\<lambda>_. Inr ())"

definition authority_json :: "authority \<Rightarrow> json" where
  "authority_json r = obj ([(''model'', JStr (a_model r)), (''identity'', a_identity r),
     (''stamp'', jnat (a_stamp r)), (''state'', a_state r)]
     @ (case a_error r of None \<Rightarrow> [] | Some e \<Rightarrow> [(''error'', JStr e)]))"

section \<open>Receipts\<close>

record receipt =
  p_client :: string
  p_batch :: nat
  p_rejections :: "rejection list"
  p_records :: "authority list"

definition derive_rejection :: "json \<Rightarrow> rejection res" where
  "derive_rejection v =
     (let names = [''ordinal'', ''code''] in
      bindE (ensure (wire_shape names v) derive_error)
      (\<lambda>_. bindE (ok_or (Option.bind (wire_field names v ''ordinal'') as_u64) derive_error)
      (\<lambda>n. bindE (ok_or (Option.bind (wire_field names v ''code'') as_str) derive_error)
      (\<lambda>c. Inr \<lparr>j_ordinal = n, j_code = c\<rparr>))))"

definition rejection_validate :: "rejection \<Rightarrow> nat list \<Rightarrow> nat list res" where
  "rejection_validate r seen =
     bindE (counter (j_ordinal r))
     (\<lambda>_. bindE (ensure (\<not> (j_ordinal r = 0 \<or> blank (j_code r) \<or> j_ordinal r \<in> set seen))
         (invalid ''invalid rejection''))
     (\<lambda>_. Inr (bs_ins (j_ordinal r) seen)))"

definition receipt_validate :: "ext \<Rightarrow> receipt \<Rightarrow> unit res" where
  "receipt_validate x r =
     bindE (ensure (\<not> blank (p_client r)) (invalid ''receipt clientId must not be blank''))
     (\<lambda>_. bindE (ensure (\<not> (p_batch r = 0 \<or> \<not> is_ok (counter (p_batch r))))
         (invalid ''receipt batchSequence must be a positive counter''))
     (\<lambda>_. bindE (efold rejection_validate (p_rejections r) [])
     (\<lambda>_. bindE (unique_records x (p_records r))
     (\<lambda>_. ensure (\<not> (\<exists>a \<in> set (p_records r). is_error a))
         (invalid ''a receipt carries authority, never a read failure'')))))"

definition receipt_decode :: "ext \<Rightarrow> string \<Rightarrow> receipt res" where
  "receipt_decode x bytes =
     bindE (from_str x bytes)
     (\<lambda>v. bindE (ensure (is_object v) (invalid ''receipt must be an object''))
     (\<lambda>_. bindE (echeck (\<lambda>name. ensure (get v name \<noteq> None) (invalid (''receipt '' @ name @ '' missing'')))
           [''clientId'', ''batchSequence'', ''rejections'', ''records''])
     (\<lambda>_. bindE (read_counter (index v ''batchSequence'') True)
     (\<lambda>batch. bindE (ok_or (as_array (index v ''records'')) (invalid ''receipt records must be an array''))
     (\<lambda>vs. bindE (emap decode_record vs)
     (\<lambda>records. bindE (ok_or (as_str (index v ''clientId'')) derive_error)
     (\<lambda>client. bindE (ok_or (as_u64 (index v ''batchSequence'')) derive_error)
     (\<lambda>_. bindE (ok_or (as_array (index v ''rejections'')) derive_error)
     (\<lambda>js. bindE (emap derive_rejection js)
     (\<lambda>rejections.
        let r = \<lparr>p_client = client, p_batch = batch, p_rejections = rejections, p_records = records\<rparr> in
        bindE (receipt_validate x r) (\<lambda>_. Inr r)))))))))))"

definition receipt_json :: "receipt \<Rightarrow> json" where
  "receipt_json r = obj [(''clientId'', JStr (p_client r)), (''batchSequence'', jnat (p_batch r)),
     (''rejections'', JArr (map (\<lambda>j. obj [(''ordinal'', jnat (j_ordinal j)), (''code'', JStr (j_code j))])
        (p_rejections r))),
     (''records'', JArr (map authority_json (p_records r)))]"

definition receipt_encode :: "ext \<Rightarrow> receipt \<Rightarrow> string res" where
  "receipt_encode x r = bindE (receipt_validate x r) (\<lambda>_. Inr (canonical_json x (receipt_json r)))"

definition receipt_answers :: "receipt \<Rightarrow> string \<Rightarrow> nat \<Rightarrow> bool" where
  "receipt_answers r client batch \<longleftrightarrow> p_client r = client \<and> p_batch r = batch"

section \<open>Pulls and pages\<close>

record pull_request =
  l_models :: "(string \<times> nat) list"
  l_cursors :: "(string \<times> nat) list"

definition pull_decode :: "ext \<Rightarrow> string \<Rightarrow> pull_request res" where
  "pull_decode x bytes =
     bindE (from_str x bytes)
     (\<lambda>v. bindE (read_models (index v ''models''))
     (\<lambda>models. bindE (read_cursors (index v ''cursors''))
     (\<lambda>cursors. Inr \<lparr>l_models = models, l_cursors = cursors\<rparr>)))"

definition pull_json :: "pull_request \<Rightarrow> json" where
  "pull_json r = obj [(''models'', counters_json (l_models r)), (''cursors'', counters_json (l_cursors r))]"

definition pull_encode :: "ext \<Rightarrow> pull_request \<Rightarrow> string res" where
  "pull_encode x r =
     bindE (read_models (counters_json (l_models r)))
     (\<lambda>_. bindE (read_cursors (counters_json (l_cursors r)))
     (\<lambda>_. Inr (canonical_json x (pull_json r))))"

record cursor_range =
  c_from :: nat
  c_to :: nat
  c_head :: nat

definition continues :: "cursor_range \<Rightarrow> bool" where
  "continues c \<longleftrightarrow> c_to c < c_head c"

record pull_page =
  g_cursors :: "(string \<times> cursor_range) list"
  g_changes :: "authority list"

definition range_validate :: "string \<times> cursor_range \<Rightarrow> unit res" where
  "range_validate kc =
     bindE (ensure (fst kc \<noteq> []) (invalid ''channel must not be empty''))
     (\<lambda>_. bindE (counter (c_from (snd kc)))
     (\<lambda>_. bindE (counter (c_to (snd kc)))
     (\<lambda>_. bindE (counter (c_head (snd kc)))
     (\<lambda>_. bindE (ensure (\<not> c_to (snd kc) < c_from (snd kc)) (invalid ''page moves backwards''))
     (\<lambda>_. ensure (\<not> c_head (snd kc) < c_to (snd kc)) (invalid ''page reaches past the channel head''))))))"

definition page_validate :: "ext \<Rightarrow> pull_page \<Rightarrow> unit res" where
  "page_validate x p =
     bindE (ensure (g_cursors p \<noteq> []) (invalid ''page must name at least one channel''))
     (\<lambda>_. bindE (echeck range_validate (g_cursors p))
     (\<lambda>_. bindE (ensure (length (g_changes p) \<le> pull_changes * length (g_cursors p))
         (invalid (''page exceeds '' @ decimal pull_changes @ '' changes per channel'')))
     (\<lambda>_. unique_records x (g_changes p))))"

definition read_range ::
  "string \<times> json \<Rightarrow> (string \<times> cursor_range) list \<Rightarrow> (string \<times> cursor_range) list res" where
  "read_range kv acc =
     bindE (ensure (fst kv \<noteq> []) (invalid ''channel must not be empty''))
     (\<lambda>_. bindE (read_counter (index (snd kv) ''from'') False)
     (\<lambda>from_c. bindE (read_counter (index (snd kv) ''to'') False)
     (\<lambda>to_c. bindE (read_counter (index (snd kv) ''head'') False)
     (\<lambda>head_c. Inr (bt_ins (fst kv) \<lparr>c_from = from_c, c_to = to_c, c_head = head_c\<rparr> acc)))))"

definition page_decode_value :: "ext \<Rightarrow> json \<Rightarrow> pull_page res" where
  "page_decode_value x v =
     bindE (ensure (is_object v) (invalid ''page must be an object''))
     (\<lambda>_. bindE (echeck (\<lambda>name. ensure (get v name \<noteq> None) (invalid (''page '' @ name @ '' missing'')))
           [''cursors'', ''changes''])
     (\<lambda>_. bindE (ok_or (as_object (index v ''cursors''))
         (invalid ''page cursors must map channels to ranges''))
     (\<lambda>kvs. bindE (efold read_range kvs [])
     (\<lambda>cursors. bindE (ok_or (as_array (index v ''changes'')) (invalid ''page changes must be an array''))
     (\<lambda>vs. bindE (emap decode_record vs)
     (\<lambda>changes. let p = \<lparr>g_cursors = cursors, g_changes = changes\<rparr> in
        bindE (page_validate x p) (\<lambda>_. Inr p)))))))"

definition page_decode :: "ext \<Rightarrow> string \<Rightarrow> pull_page res" where
  "page_decode x bytes = bindE (from_str x bytes) (page_decode_value x)"

definition range_json :: "cursor_range \<Rightarrow> json" where
  "range_json c = obj [(''from'', jnat (c_from c)), (''to'', jnat (c_to c)), (''head'', jnat (c_head c))]"

definition page_json :: "pull_page \<Rightarrow> json" where
  "page_json p = obj [(''cursors'', obj (map (\<lambda>(k, c). (k, range_json c)) (g_cursors p))),
     (''changes'', JArr (map authority_json (g_changes p)))]"

definition page_encode :: "ext \<Rightarrow> pull_page \<Rightarrow> string res" where
  "page_encode x p = bindE (page_validate x p) (\<lambda>_. Inr (canonical_json x (page_json p)))"

definition page_channels :: "pull_page \<Rightarrow> string list" where
  "page_channels p = bt_keys (g_cursors p)"

section \<open>Live frames\<close>

record subscribe_request =
  b_channels :: "string list"
  b_models :: "(string \<times> nat) list"

definition normalize_channels :: "string list \<Rightarrow> string list res" where
  "normalize_channels channels =
     bindE (ensure (channels \<noteq> []) (invalid ''subscribe requires at least one channel''))
     (\<lambda>_. bindE (ensure ([] \<notin> set channels) (invalid ''channel must not be empty''))
     (\<lambda>_. Inr (sort_key utf16 (bs_of channels))))"

definition subscribe_new :: "string list \<Rightarrow> (string \<times> nat) list \<Rightarrow> subscribe_request res" where
  "subscribe_new channels models =
     bindE (normalize_channels channels)
     (\<lambda>cs. bindE (read_models (counters_json models))
     (\<lambda>ms. Inr \<lparr>b_channels = cs, b_models = ms\<rparr>))"

definition subscribe_decode :: "ext \<Rightarrow> string \<Rightarrow> subscribe_request res" where
  "subscribe_decode x bytes =
     (let names = [''type'', ''channels'', ''models''] in
      bindE (from_str x bytes)
      (\<lambda>v. bindE (ensure (wire_shape names v) derive_error)
      (\<lambda>_. bindE (ensure (case v of JObj kvs \<Rightarrow> set (bt_keys kvs) \<subseteq> set names | _ \<Rightarrow> True) derive_error)
      (\<lambda>_. bindE (ok_or (Option.bind (wire_field names v ''type'') as_str) derive_error)
      (\<lambda>kind. bindE (ok_or (Option.bind (wire_field names v ''channels'') as_array) derive_error)
      (\<lambda>vs. bindE (emap (\<lambda>c. ok_or (as_str c) derive_error) vs)
      (\<lambda>channels. bindE (ensure (kind = ''subscribe'') (invalid ''expected one subscribe frame with channels''))
      (\<lambda>_. bindE (read_models (case wire_field names v ''models'' of None \<Rightarrow> JNull | Some m \<Rightarrow> m))
      (\<lambda>models. subscribe_new channels models)))))))))"

definition subscribe_json :: "subscribe_request \<Rightarrow> json" where
  "subscribe_json r = obj [(''type'', JStr ''subscribe''), (''channels'', JArr (map JStr (b_channels r))),
     (''models'', counters_json (b_models r))]"

definition subscribe_encode :: "ext \<Rightarrow> subscribe_request \<Rightarrow> string" where
  "subscribe_encode x r = canonical_json x (subscribe_json r)"

record subscription_ack =
  ack_cursors :: "(string \<times> nat) list"

definition ack_new :: "(string \<times> nat) list \<Rightarrow> subscription_ack res" where
  "ack_new cursors = bindE (read_cursors (counters_json cursors)) (\<lambda>cs. Inr \<lparr>ack_cursors = cs\<rparr>)"

definition ack_error :: err where
  "ack_error = invalid ''invalid live subscription acknowledgement''"

definition replace_error :: "'e \<Rightarrow> 'e + 'a \<Rightarrow> 'e + 'a" where
  "replace_error e r = (case r of Inl _ \<Rightarrow> Inl e | Inr a \<Rightarrow> Inr a)"

definition ack_decode :: "ext \<Rightarrow> string \<Rightarrow> subscription_ack res" where
  "ack_decode x bytes =
     (let names = [''type'', ''cursors''] in
      bindE (replace_error ack_error (from_str x bytes))
      (\<lambda>v. bindE (ensure (wire_shape names v) ack_error)
      (\<lambda>_. bindE (ok_or (Option.bind (wire_field names v ''type'') as_str) ack_error)
      (\<lambda>kind. bindE (ok_or (wire_field names v ''cursors'') ack_error)
      (\<lambda>cursors. bindE (ensure (kind = ''subscribed'') ack_error)
      (\<lambda>_. bindE (replace_error ack_error (read_cursors cursors)) ack_new))))))"

definition confirms :: "subscription_ack \<Rightarrow> subscribe_request \<Rightarrow> bool" where
  "confirms a r \<longleftrightarrow> bt_keys (ack_cursors a) = b_channels r"

definition ack_json :: "subscription_ack \<Rightarrow> json" where
  "ack_json a = obj [(''type'', JStr ''subscribed''), (''cursors'', counters_json (ack_cursors a))]"

definition ack_encode :: "ext \<Rightarrow> subscription_ack \<Rightarrow> string" where
  "ack_encode x a = canonical_json x (ack_json a)"

datatype live_message = Acknowledged subscription_ack | Page pull_page

definition live_decode :: "ext \<Rightarrow> string \<Rightarrow> live_message res" where
  "live_decode x bytes =
     bindE (from_str x bytes)
     (\<lambda>v. bindE (ensure (is_object v) (invalid ''invalid live frame''))
     (\<lambda>_. if get v ''type'' \<noteq> None then bindE (ack_decode x bytes) (\<lambda>a. Inr (Acknowledged a))
          else (case page_decode x bytes of
              Inr p \<Rightarrow> Inr (Page p)
            | Inl e \<Rightarrow> Inl (invalid (''invalid live page: '' @ err_text e)))))"

section \<open>Reading back what was written\<close>

lemma get_index_obj [simp]:
  "is_object (obj kvs)" "as_object (obj kvs) = Some (bt_of kvs)"
  "index (obj kvs) k = (case map_of (rev kvs) k of None \<Rightarrow> JNull | Some w \<Rightarrow> w)"
  by (simp_all add: is_object_def obj_def index_def map_of_bt_of)

lemma read_counter_jnat: "n \<le> max_safe_integer \<Longrightarrow> (positive \<Longrightarrow> 0 < n) \<Longrightarrow> read_counter (jnat n) positive = Inr n"
  by (auto simp: read_counter_def f64_of_nat_exact f_is_zero_def f_integral_def f_magnitude_def)

lemma counter_Inr [simp]: "counter n = Inr k \<longleftrightarrow> n \<le> max_safe_integer \<and> k = n"
  by (auto simp: counter_def)

lemma counter_ok [simp]: "is_ok (counter n) \<longleftrightarrow> n \<le> max_safe_integer"
  by (auto simp: counter_def)

text \<open>What a counter read from the wire is: an integral number in the safe range.\<close>

lemma read_counter_range:
  "read_counter v positive = Inr n \<Longrightarrow> n \<le> max_safe_integer"
  by (auto simp: read_counter_def res_elims split: if_splits)

definition authority_ok :: "authority \<Rightarrow> bool" where
  "authority_ok r \<longleftrightarrow> a_model r \<noteq> [] \<and> is_object (a_identity r) \<and> 0 < a_stamp r \<and>
     a_stamp r \<le> max_safe_integer \<and>
     (case a_error r of Some code \<Rightarrow> valid_code code \<and> is_null (a_state r)
      | None \<Rightarrow> is_null (a_state r) \<or> is_object (a_state r))"

lemma authority_validate_iff: "authority_validate r = Inr () \<longleftrightarrow> authority_ok r"
  by (auto simp: authority_validate_def authority_ok_def res_elims split: option.splits)

lemma unique_records_iff:
  "unique_records x rs = Inr () \<longleftrightarrow>
   (\<forall>r \<in> set rs. authority_ok r) \<and> distinct (map (authority_key x) rs)"
proof -
  have "(\<exists>b. efold (unique_record x) rs [] = Inr b) \<longleftrightarrow>
      (\<forall>r \<in> set rs. authority_ok r) \<and> distinct (map (authority_key x) rs)"
    by (subst efold_bs_ins_ok [where P = authority_ok and key = "authority_key x"])
       (auto simp: unique_record_def res_elims authority_validate_iff)
  then show ?thesis by (auto simp: unique_records_def res_elims)
qed

lemma decode_authority_json: "authority_ok r \<Longrightarrow> decode_record (authority_json r) = Inr r"
  by (cases r)
     (auto simp: decode_record_def derive_authority_def authority_json_def get_obj
       authority_validate_iff [THEN iffD2] split: option.splits)

lemma emap_map: "emap f (map g xs) = emap (\<lambda>x. f (g x)) xs"
  by (induction xs) auto

lemma decode_authorities:
  "\<forall>r \<in> set rs. authority_ok r \<Longrightarrow> emap decode_record (map authority_json rs) = Inr rs"
  using emap_all_ok [of rs "\<lambda>r. decode_record (authority_json r)" "\<lambda>r. r"]
  by (simp add: emap_map decode_authority_json)

text \<open>
  Receipts round trip. Whatever receipt the server encodes, the client decodes to exactly
  that receipt: same client, batch, rejections and authority, nothing dropped by the decoder's
  own checks.
\<close>

theorem receipt_roundtrip:
  assumes "receipt_encode x r = Inr bytes" and "canonical_ok x (receipt_json r)"
  shows "receipt_decode x bytes = Inr r"
proof -
  from assms(1) have v: "receipt_validate x r = Inr ()" and b: "bytes = canonical_json x (receipt_json r)"
    by (auto simp: receipt_encode_def res_elims)
  from v have ok: "0 < p_batch r" "p_batch r \<le> max_safe_integer" "\<forall>a \<in> set (p_records r). authority_ok a"
    by (auto simp: receipt_validate_def res_elims unique_records_iff)
  have "emap derive_rejection (map (\<lambda>j. obj [(''ordinal'', jnat (j_ordinal j)), (''code'', JStr (j_code j))])
      (p_rejections r)) = Inr (map (\<lambda>j. j) (p_rejections r))"
    unfolding emap_map
    by (rule emap_all_ok) (simp add: derive_rejection_def wire_shape_def wire_field_def obj_def map_of_bt_of)
  with ok v show ?thesis
    by (simp add: receipt_decode_def b from_str_canonical [OF assms(2)])
       (cases r, simp add: receipt_json_def get_obj read_counter_jnat decode_authorities Let_def)
qed

text \<open>The well-formed page: what \<open>PullPage::validate\<close> accepts.\<close>

definition page_ok :: "ext \<Rightarrow> pull_page \<Rightarrow> bool" where
  "page_ok x p \<longleftrightarrow> g_cursors p \<noteq> [] \<and>
     (\<forall>(k, c) \<in> set (g_cursors p). k \<noteq> [] \<and> c_from c \<le> c_to c \<and> c_to c \<le> c_head c \<and>
        c_head c \<le> max_safe_integer) \<and>
     length (g_changes p) \<le> 50 * length (g_cursors p) \<and>
     (\<forall>r \<in> set (g_changes p). authority_ok r) \<and> distinct (map (authority_key x) (g_changes p))"

lemma range_validate_iff: "range_validate (k, c) = Inr () \<longleftrightarrow>
    k \<noteq> [] \<and> c_from c \<le> c_to c \<and> c_to c \<le> c_head c \<and> c_head c \<le> max_safe_integer"
  by (auto simp: range_validate_def res_elims not_less)

lemma page_validate_iff: "page_validate x p = Inr () \<longleftrightarrow> page_ok x p"
  by (auto simp: page_validate_def page_ok_def res_elims range_validate_iff unique_records_iff
      pull_changes_def)

lemma read_ranges:
  assumes "\<forall>(k, c) \<in> set cs. k \<noteq> [] \<and> c_from c \<le> c_to c \<and> c_to c \<le> c_head c \<and> c_head c \<le> max_safe_integer"
  shows "efold read_range (map (\<lambda>(k, c). (k, range_json c)) cs) acc =
    Inr (fold (\<lambda>(k, v). bt_ins k v) cs acc)"
  using assms
proof (induction cs arbitrary: acc)
  case Nil
  then show ?case by simp
next
  case (Cons kc cs)
  obtain k c where kc: "kc = (k, c)" by fastforce
  with Cons.prems have "read_range (k, range_json c) acc = Inr (bt_ins k c acc)"
    by (cases c) (simp add: read_range_def range_json_def read_counter_jnat)
  with Cons kc show ?case by simp
qed

lemma page_decoded:
  assumes "page_encode x p = Inr bytes" and "canonical_ok x (page_json p)" and "bt_ok (g_cursors p)"
  shows "page_decode x bytes = Inr p"
proof -
  from assms(1) have v: "page_validate x p = Inr ()" and b: "bytes = canonical_json x (page_json p)"
    by (auto simp: page_encode_def res_elims)
  then have ok: "page_ok x p" by (simp add: page_validate_iff)
  let ?cs = "map (\<lambda>(k, c). (k, range_json c)) (g_cursors p)"
  have "map fst ?cs = map fst (g_cursors p)" by (simp add: comp_def case_prod_beta')
  with assms(3) have cs: "bt_of ?cs = ?cs" by (intro bt_of_sorted) (simp only: bt_ok_def)
  have "efold read_range ?cs [] = Inr (g_cursors p)"
    using ok read_ranges [of "g_cursors p" "[]"] bt_of_sorted [OF assms(3)]
    by (simp add: page_ok_def bt_of_def)
  with ok v cs show ?thesis
    by (simp add: page_decode_def b from_str_canonical [OF assms(2)])
       (cases p, simp add: page_decode_value_def page_json_def get_obj decode_authorities page_ok_def Let_def)
qed

lemma page_decode_ok:
  assumes "page_decode x t = Inr q"
  shows "page_ok x q" and "bt_ok (g_cursors q)"
proof -
  from assms show "page_ok x q"
    by (auto simp: page_decode_def page_decode_value_def res_elims page_validate_iff Let_def)
  from assms obtain kvs where "efold read_range kvs [] = Inr (g_cursors q)"
    by (auto simp: page_decode_def page_decode_value_def res_elims Let_def)
  then show "bt_ok (g_cursors q)"
    by (rule efold_inv) (auto simp: read_range_def res_elims)
qed

text \<open>
  C39: pages round trip. When the canonical text of a page (its cursors in a sorted map, as the
  code holds them) parses back to the page's own JSON
  (which a state with an integral float, such as 1.0, does not: it is written as 1), whatever the
  server encodes, the client decodes to exactly that page. Only well-formed pages are ever
  encoded or decoded: no channel moves backwards or past its head, at most 50 changes per
  channel, every record once with a positive stamp.
\<close>

theorem page_roundtrip:
  assumes "page_encode x p = Inr bytes" and "canonical_ok x (page_json p)" and "bt_ok (g_cursors p)"
  shows "page_decode x bytes = Inr p \<and> page_ok x p \<and>
    (\<forall>t q. page_decode x t = Inr q \<longrightarrow> page_ok x q \<and> bt_ok (g_cursors q))"
proof (intro conjI allI impI)
  show "page_decode x bytes = Inr p" using assms by (rule page_decoded)
  from assms(1) show "page_ok x p" by (auto simp: page_encode_def res_elims page_validate_iff)
next
  fix t q
  assume q: "page_decode x t = Inr q"
  show "page_ok x q" "bt_ok (g_cursors q)" by (rule page_decode_ok [OF q])+
qed

definition counters_ok :: "bool \<Rightarrow> (string \<times> nat) list \<Rightarrow> bool" where
  "counters_ok positive m \<longleftrightarrow> m \<noteq> [] \<and> bt_ok m \<and>
     (\<forall>(k, n) \<in> set m. k \<noteq> [] \<and> n \<le> max_safe_integer \<and> (positive \<longrightarrow> 0 < n))"

lemma counters_json_sorted: "bt_ok m \<Longrightarrow> counters_json m = JObj (map (\<lambda>(k, n). (k, jnat n)) m)"
proof -
  assume "bt_ok m"
  have "map fst (map (\<lambda>(k, n). (k, jnat n)) m) = map fst m" by (simp add: comp_def case_prod_beta')
  with \<open>bt_ok m\<close> have "bt_ok (map (\<lambda>(k, n). (k, jnat n)) m)" by (simp only: bt_ok_def)
  then show ?thesis by (simp add: counters_json_def obj_def bt_of_sorted)
qed

lemma counters_each:
  assumes "\<forall>(k, n) \<in> set m. k \<noteq> [] \<and> n \<le> max_safe_integer \<and> (positive \<longrightarrow> 0 < n)"
  shows "emap (\<lambda>(name, v). bindE (ensure (name \<noteq> []) e)
      (\<lambda>_. bindE (read_counter v positive) (\<lambda>n. Inr (name, n)))) (map (\<lambda>(k, n). (k, jnat n)) m) = Inr m"
  using assms by (induction m) (auto simp: read_counter_jnat)

lemma read_models_counters: "counters_ok True m \<Longrightarrow> read_models (counters_json m) = Inr m"
  using counters_each [of m True]
  by (simp add: read_models_def counters_json_sorted counters_ok_def bt_of_sorted)

lemma read_cursors_counters: "counters_ok False m \<Longrightarrow> read_cursors (counters_json m) = Inr m"
  using counters_each [of m False]
  by (simp add: read_cursors_def counters_json_sorted counters_ok_def bt_of_sorted)

lemma read_counter_positive: "read_counter v positive = Inr n \<Longrightarrow> positive \<Longrightarrow> 0 < n"
proof -
  assume r: "read_counter v positive = Inr n" and "positive"
  then obtain f where f: "f_integral f" "\<not> f_is_zero f" "n = f_magnitude f"
    by (auto simp: read_counter_def bindE_Inr_iff split: if_splits)
  show "0 < n"
  proof (cases "0 \<le> f_exp f")
    case True
    with f show ?thesis by (simp add: f_magnitude_def f_is_zero_def)
  next
    case False
    with f(1) have "f_mant f = f_magnitude f * 2 ^ nat (- f_exp f)"
      by (auto simp: f_integral_def f_magnitude_def)
    with f(2,3) show ?thesis by (auto simp: f_is_zero_def)
  qed
qed

lemma emap_counters_range:
  assumes "emap (\<lambda>(name, v). bindE (ensure (name \<noteq> []) e)
      (\<lambda>_. bindE (read_counter v positive) (\<lambda>n. Inr (name, n)))) kvs = Inr ps" and "(k, n) \<in> set ps"
  shows "k \<noteq> [] \<and> n \<le> max_safe_integer \<and> (positive \<longrightarrow> 0 < n)"
proof -
  from assms(2) obtain i where "i < length ps" "(k, n) = ps ! i"
    by (auto simp: in_set_conv_nth)
  then have "i < length kvs" "(k, n) = ps ! i"
    by (simp_all add: emap_Inr_length [OF assms(1)])
  moreover obtain a v where "kvs ! i = (a, v)" by fastforce
  ultimately have "bindE (ensure (a \<noteq> []) e)
      (\<lambda>_. bindE (read_counter v positive) (\<lambda>n. Inr (a, n))) = Inr (k, n)"
    using emap_nth [OF assms(1), of i] by simp
  then have "k \<noteq> []" "read_counter v positive = Inr n"
    by (auto simp: bindE_Inr_iff ensure_Inr_iff)
  then show ?thesis using read_counter_range read_counter_positive by blast
qed

lemma counters_ok_bt_of:
  assumes "\<And>k n. (k, n) \<in> set ps \<Longrightarrow> k \<noteq> [] \<and> n \<le> max_safe_integer \<and> (positive \<longrightarrow> 0 < n)" and "ps \<noteq> []"
  shows "counters_ok positive (bt_of ps)"
proof -
  have "kn \<in> set (bt_of ps) \<Longrightarrow> kn \<in> set ps" for kn
  proof -
    assume "kn \<in> set (bt_of ps)"
    then have "map_of (bt_of ps) (fst kn) = Some (snd kn)"
      by (simp add: map_of_is_SomeI bt_ok_distinct)
    then have "map_of (rev ps) (fst kn) = Some (snd kn)" by (simp add: map_of_bt_of)
    then show ?thesis by (auto dest: map_of_SomeD)
  qed
  moreover have "bt_of ps \<noteq> []" using keys_bt_of [of ps] assms(2) by auto
  ultimately show ?thesis using assms(1) by (auto simp: counters_ok_def)
qed

text \<open>Everything read is a well-formed map of counters.\<close>

lemma read_models_ok:
  assumes "read_models v = Inr m"
  shows "counters_ok True m"
proof -
  from assms obtain kvs ps where "kvs \<noteq> []" "m = bt_of ps" and e: "emap (\<lambda>(name, version).
            bindE (ensure (name \<noteq> []) (invalid ''model name must not be empty''))
            (\<lambda>_. bindE (read_counter version True) (\<lambda>n. Inr (name, n)))) kvs = Inr ps"
    by (auto simp: read_models_def bindE_Inr_iff ensure_Inr_iff)
  moreover have "ps \<noteq> []" using emap_Inr_length [OF e] \<open>kvs \<noteq> []\<close> by auto
  ultimately show ?thesis using emap_counters_range [OF e] by (auto intro!: counters_ok_bt_of)
qed

lemma read_cursors_ok:
  assumes "read_cursors v = Inr m"
  shows "counters_ok False m"
proof -
  from assms obtain kvs ps where "kvs \<noteq> []" "m = bt_of ps" and e: "emap (\<lambda>(channel, cursor).
            bindE (ensure (channel \<noteq> []) (invalid ''channel must not be empty''))
            (\<lambda>_. bindE (read_counter cursor False) (\<lambda>n. Inr (channel, n)))) kvs = Inr ps"
    by (auto simp: read_cursors_def bindE_Inr_iff ensure_Inr_iff)
  moreover have "ps \<noteq> []" using emap_Inr_length [OF e] \<open>kvs \<noteq> []\<close> by auto
  ultimately show ?thesis using emap_counters_range [OF e] by (auto intro!: counters_ok_bt_of)
qed

lemma read_counter_same: "read_counter (jnat n) positive = Inr m \<Longrightarrow> m = n"
proof (cases "n \<le> max_safe_integer")
  case False
  then have "max_safe_integer < f_magnitude (f64_of_nat n)" by (intro f64_of_nat_large) simp
  then show "read_counter (jnat n) positive = Inr m \<Longrightarrow> m = n" by (simp add: read_counter_def)
qed (auto simp: read_counter_def f64_of_nat_exact f_magnitude_def split: if_splits)

lemma counters_each_same:
  assumes "emap (\<lambda>(name, v). bindE (ensure (name \<noteq> []) e)
      (\<lambda>_. bindE (read_counter v positive) (\<lambda>n. Inr (name, n)))) (map (\<lambda>(k, n). (k, jnat n)) m) = Inr ps"
  shows "ps = m"
  using assms
proof (induction m arbitrary: ps)
  case Nil
  then show ?case by simp
next
  case (Cons kn m)
  then show ?case
    by (cases kn) (auto simp: bindE_Inr_iff ensure_Inr_iff dest: read_counter_same)
qed

lemma read_models_same: "bt_ok m \<Longrightarrow> read_models (counters_json m) = Inr m' \<Longrightarrow> m' = m"
  by (auto simp: read_models_def counters_json_sorted bindE_Inr_iff ensure_Inr_iff bt_of_sorted
      dest: counters_each_same)

lemma read_cursors_same: "bt_ok m \<Longrightarrow> read_cursors (counters_json m) = Inr m' \<Longrightarrow> m' = m"
  by (auto simp: read_cursors_def counters_json_sorted bindE_Inr_iff ensure_Inr_iff bt_of_sorted
      dest: counters_each_same)

lemma normalize_channels_iff:
  "normalize_channels cs = Inr ds \<longleftrightarrow> cs \<noteq> [] \<and> [] \<notin> set cs \<and> ds = sort_key utf16 (bs_of cs)"
  by (auto simp: normalize_channels_def res_elims)

text \<open>
  Live frames and requests round trip. A subscription frame, an acknowledgement, a page and
  a pull request are decoded to what was encoded, and the two kinds of server frame are never
  taken for each other.
\<close>

theorem live_frames_roundtrip:
  assumes sub: "subscribe_new cs ms = Inr r" "canonical_ok x (subscribe_json r)"
    and ack: "ack_new cursors = Inr a" "canonical_ok x (ack_json a)"
    and page: "page_encode x p = Inr pbytes" "canonical_ok x (page_json p)" "bt_ok (g_cursors p)"
    and pull: "pull_encode x q = Inr qbytes" "canonical_ok x (pull_json q)"
      "bt_ok (l_models q)" "bt_ok (l_cursors q)"
  shows "subscribe_decode x (subscribe_encode x r) = Inr r \<and>
    live_decode x (ack_encode x a) = Inr (Acknowledged a) \<and>
    live_decode x pbytes = Inr (Page p) \<and> pull_decode x qbytes = Inr q"
proof (intro conjI)
  from sub(1) have m: "counters_ok True (b_models r)"
    by (auto simp: subscribe_new_def res_elims dest: read_models_ok)
  from sub(1) have c: "b_channels r = sort_key utf16 (bs_of cs)" "cs \<noteq> []" "[] \<notin> set cs"
    by (auto simp: subscribe_new_def res_elims normalize_channels_iff)
  have set_c: "set (b_channels r) = set cs" by (simp add: c(1))
  have b: "bs_of (b_channels r) = bs_of cs"
    using c(1) by (intro strict_sorted_equal) simp_all
  have cn: "normalize_channels (b_channels r) = Inr (b_channels r)"
    using c set_c b unfolding normalize_channels_iff by (metis set_empty)
  have "emap (\<lambda>c. ok_or (as_str c) derive_error) (map JStr (b_channels r)) = Inr (b_channels r)"
    using emap_all_ok [of "b_channels r" "\<lambda>c. ok_or (as_str (JStr c)) derive_error" "\<lambda>c. c"]
    by (simp add: emap_map)
  then show "subscribe_decode x (subscribe_encode x r) = Inr r"
    by (cases r)
       (use cn m sub(2) in \<open>simp add: subscribe_decode_def subscribe_encode_def from_str_canonical,
         simp add: subscribe_json_def wire_shape_def wire_field_def obj_def map_of_bt_of bt_keys_def
           keys_bt_of subscribe_new_def read_models_counters\<close>)
next
  from ack(1) have m: "counters_ok False (ack_cursors a)"
    by (auto simp: ack_new_def res_elims dest: read_cursors_ok)
  then have "ack_decode x (ack_encode x a) = Inr a"
    by (cases a)
       (use ack(2) in \<open>simp add: ack_decode_def ack_encode_def from_str_canonical replace_error_def,
         simp add: ack_json_def wire_shape_def wire_field_def obj_def map_of_bt_of ack_new_def
           read_cursors_counters\<close>)
  with ack(2) show "live_decode x (ack_encode x a) = Inr (Acknowledged a)"
    by (simp add: live_decode_def ack_encode_def from_str_canonical)
       (simp add: ack_json_def get_obj)
next
  from page(1) have "pbytes = canonical_json x (page_json p)" by (auto simp: page_encode_def res_elims)
  moreover have "is_object (page_json p)" "get (page_json p) ''type'' = None"
    by (simp_all add: page_json_def get_obj)
  ultimately show "live_decode x pbytes = Inr (Page p)"
    using page_decoded [OF page] page(2) by (simp add: live_decode_def from_str_canonical)
next
  from pull(1) have b: "qbytes = canonical_json x (pull_json q)"
    and "read_models (counters_json (l_models q)) = Inr (l_models q)"
      "read_cursors (counters_json (l_cursors q)) = Inr (l_cursors q)"
    using pull(3,4) by (auto simp: pull_encode_def res_elims dest: read_models_same read_cursors_same)
  then show "pull_decode x qbytes = Inr q"
    by (cases q) (use pull(2) in \<open>simp add: pull_decode_def from_str_canonical,
        simp add: pull_json_def get_obj\<close>)
qed

lemma push_mutations_loop:
  assumes "efold push_mutation acts ([], []) = Inr acc"
  shows "distinct (map fst (snd acc)) \<and> map snd (snd acc) = acts \<and>
    (\<forall>(n, act) \<in> set (snd acc). 0 < n \<and> n \<le> max_safe_integer)"
proof -
  have "efold push_mutation acts st = Inr acc \<Longrightarrow> set (fst st) = fst ` set (snd st) \<Longrightarrow>
      distinct (map fst (snd st)) \<Longrightarrow> \<forall>(n, act) \<in> set (snd st). 0 < n \<and> n \<le> max_safe_integer \<Longrightarrow>
      distinct (map fst (snd acc)) \<and> map snd (snd acc) = map snd (snd st) @ acts \<and>
      (\<forall>(n, act) \<in> set (snd acc). 0 < n \<and> n \<le> max_safe_integer)" for st
  proof (induction acts arbitrary: st)
    case Nil
    then show ?case by simp
  next
    case (Cons act acts)
    from Cons.prems(1) obtain n where n: "read_counter (index act ''ordinal'') True = Inr n"
        "n \<notin> set (fst st)" "efold push_mutation acts (bs_ins n (fst st), snd st @ [(n, act)]) = Inr acc"
      unfolding efold.simps push_mutation_def bindE_Inr_iff ensure_Inr_iff by blast
    from read_counter_positive [OF n(1)] read_counter_range [OF n(1)]
    have "0 < n" "n \<le> max_safe_integer" by simp_all
    with Cons.IH [OF n(3)] n(2) Cons.prems(2-4) show ?case by simp
  qed
  from this [of "([], [])"] assms show ?thesis by simp
qed

text \<open>
  A decoded push request has between one and twenty mutations with distinct positive
  ordinals, a positive sequence and a declared version per model; encoding it gives text that
  decodes to the same request, so a frozen batch is retried as the same batch.
\<close>

theorem push_request_roundtrip:
  assumes "push_decode x bytes = Inr r" and "canonical_ok x (u_raw r)"
  shows "push_decode x (push_encode x r) = Inr r \<and>
    1 \<le> length (u_mutations r) \<and> length (u_mutations r) \<le> 20 \<and>
    distinct (map fst (u_mutations r)) \<and> (\<forall>(n, act) \<in> set (u_mutations r). 0 < n \<and> n \<le> max_safe_integer) \<and>
    map snd (u_mutations r) = the (as_array (index (u_raw r) ''mutations'')) \<and>
    0 < u_batch r \<and> \<not> blank (u_client r) \<and> counters_ok True (u_models r)"
proof -
  from assms(1) obtain raw where raw: "from_str x bytes = Inr raw"
    by (auto simp: push_decode_def bindE_Inr_iff)
  with assms(1) obtain client batch models acts acc where
    rest: "nonblank (index raw ''clientId'') = Inr client"
      "read_counter (index raw ''batchSequence'') True = Inr batch"
      "read_models (index raw ''models'') = Inr models" and
    acts: "as_array (index raw ''mutations'') = Some acts" "acts \<noteq> []" "length acts \<le> 20"
      "efold push_mutation acts ([], []) = Inr acc" and
    r: "r = \<lparr>u_client = client, u_batch = batch, u_mutations = snd acc, u_models = models, u_raw = raw\<rparr>"
    unfolding push_decode_def bindE_Inr_iff ensure_Inr_iff ok_or_Inr_iff push_mutations_def not_less
    by fastforce
  from push_mutations_loop [OF acts(4)]
  have m: "distinct (map fst (snd acc))" "map snd (snd acc) = acts"
      "\<forall>(n, act) \<in> set (snd acc). 0 < n \<and> n \<le> max_safe_integer" by simp_all
  from m(2) have len: "length (snd acc) = length acts" by (metis length_map)
  have "\<not> blank client" using rest(1) by (auto simp: nonblank_def split: option.splits if_splits)
  moreover have "push_decode x (push_encode x r) = push_decode x bytes"
    using assms(2) by (simp add: push_decode_def push_encode_def from_str_canonical raw r)
  moreover have "1 \<le> length acts" using acts(2) by (cases acts) simp_all
  ultimately show ?thesis
    using assms(1) m len acts(1,3) read_counter_positive [OF rest(2)] read_models_ok [OF rest(3)]
    by (simp add: r)
qed

text \<open>
  An acknowledgement that confirms a request names exactly the requested channels, each
  with a head; when the channel names are ASCII the answer with exactly those channels always
  confirms.
\<close>

theorem confirms_channel_set:
  assumes "subscribe_new cs ms = Inr r" and "bt_ok (ack_cursors a)"
  shows "(confirms a r \<longrightarrow> set (bt_keys (ack_cursors a)) = set cs) \<and>
    ((\<forall>c \<in> set cs. ascii c) \<longrightarrow> set (bt_keys (ack_cursors a)) = set cs \<longrightarrow> confirms a r)"
proof (intro conjI impI)
  from assms(1) have c: "b_channels r = sort_key utf16 (bs_of cs)"
    by (auto simp: subscribe_new_def bindE_Inr_iff normalize_channels_iff)
  then show "confirms a r \<Longrightarrow> set (bt_keys (ack_cursors a)) = set cs"
    by (simp add: confirms_def)
  assume ascii: "\<forall>c \<in> set cs. ascii c" and keys: "set (bt_keys (ack_cursors a)) = set cs"
  have "sorted_wrt (\<lambda>s t. utf16 s < utf16 t) (bs_of cs)"
    by (rule sorted_wrt_mono_rel [OF _ bs_of_sorted]) (use ascii in \<open>simp add: utf16_ascii_less\<close>)
  then have "sorted (map utf16 (bs_of cs))"
    by (auto simp: sorted_wrt_map intro: sorted_wrt_mono_rel [rotated])
  then have "b_channels r = bs_of cs" by (simp add: c sort_key_id)
  moreover have "bt_keys (ack_cursors a) = bs_of cs"
    using assms(2) keys by (intro strict_sorted_equal) (simp_all add: bt_ok_def bt_keys_def)
  ultimately show "confirms a r" by (simp add: confirms_def)
qed

text \<open>
  Beyond ASCII the two orders differ: the request is sorted by UTF-16 units, the
  acknowledgement by bytes. For the channels \<open>U+FFFD\<close> and \<open>U+1F600\<close> the acknowledgement that
  names exactly the requested channels does not confirm the request.
\<close>

definition channel_fffd :: string where
  "channel_fffd = [CHR 0xEF, CHR 0xBF, CHR 0xBD]"

definition channel_1f600 :: string where
  "channel_1f600 = [CHR 0xF0, CHR 0x9F, CHR 0x98, CHR 0x80]"

text \<open>
  C40: a confirmation can miss. There is a request whose channels an acknowledgement names
  exactly and that it does not confirm: the request keeps them in UTF-16 order, the
  acknowledgement in the byte order of its map, and the two are compared as sequences.
\<close>

theorem confirms_misses_same_set:
  "\<exists>r a. subscribe_new [channel_fffd, channel_1f600] [(''Task'', 1)] = Inr r \<and>
     ack_new [(channel_fffd, 0), (channel_1f600, 0)] = Inr a \<and>
     set (bt_keys (ack_cursors a)) = set (b_channels r) \<and> \<not> confirms a r"
proof -
  let ?r = "\<lparr>b_channels = [channel_1f600, channel_fffd], b_models = [(''Task'', 1)]\<rparr>"
  let ?a = "\<lparr>ack_cursors = [(channel_fffd, 0), (channel_1f600, 0)]\<rparr>"
  have "subscribe_new [channel_fffd, channel_1f600] [(''Task'', 1)] = Inr ?r"
  proof -
    have "bs_of [channel_fffd, channel_1f600] = [channel_fffd, channel_1f600]"
      by (simp add: bs_of_def channel_fffd_def channel_1f600_def)
    moreover have "sort_key utf16 [channel_fffd, channel_1f600] = [channel_1f600, channel_fffd]"
      by (simp add: channel_fffd_def channel_1f600_def utf16_def units_def)
    moreover have "read_models (counters_json [(''Task'', 1)]) = Inr [(''Task'', 1)]"
      by (rule read_models_counters) (simp add: counters_ok_def bt_ok_def max_safe_integer_def)
    ultimately show ?thesis
      by (simp add: subscribe_new_def normalize_channels_def) (simp add: channel_fffd_def channel_1f600_def)
  qed
  moreover have "ack_new [(channel_fffd, 0), (channel_1f600, 0)] = Inr ?a"
  proof -
    have "read_cursors (counters_json [(channel_fffd, 0), (channel_1f600, 0)]) =
        Inr [(channel_fffd, 0), (channel_1f600, 0)]"
      by (rule read_cursors_counters)
         (simp add: counters_ok_def bt_ok_def channel_fffd_def channel_1f600_def)
    then show ?thesis by (simp add: ack_new_def)
  qed
  moreover have "set (bt_keys (ack_cursors ?a)) = set (b_channels ?r)" "\<not> confirms ?a ?r"
    by (auto simp: bt_keys_def confirms_def channel_fffd_def channel_1f600_def)
  ultimately show ?thesis by blast
qed

section \<open>Witnesses\<close>

definition demo_record :: authority where
  "demo_record = \<lparr>a_model = ''List'', a_identity = JObj [(''id'', JStr ''l1'')], a_stamp = 4,
     a_state = JObj [(''title'', JStr ''shop'')], a_error = None\<rparr>"

definition demo_receipt :: receipt where
  "demo_receipt = \<lparr>p_client = ''c1'', p_batch = 3,
     p_rejections = [\<lparr>j_ordinal = 7, j_code = ''todo.missing''\<rparr>], p_records = [demo_record]\<rparr>"

definition demo_page :: pull_page where
  "demo_page = \<lparr>g_cursors = [(''book'', \<lparr>c_from = 2, c_to = 5, c_head = 6\<rparr>)], g_changes = [demo_record]\<rparr>"

lemma demo_record_ok: "authority_ok demo_record"
  by (simp add: authority_ok_def demo_record_def is_object_def is_null_def max_safe_integer_def)

lemma demo_receipt_encoded:
  "receipt_encode x0 demo_receipt = Inr (canonical_json x0 (receipt_json demo_receipt))"
proof -
  have "efold rejection_validate (p_rejections demo_receipt) [] = Inr [7]"
    by (simp add: demo_receipt_def rejection_validate_def counter_def max_safe_integer_def blank_def is_white_def)
  moreover have "unique_records x0 (p_records demo_receipt) = Inr ()"
    by (simp add: unique_records_iff demo_receipt_def demo_record_ok)
  ultimately show ?thesis
    by (simp add: receipt_encode_def receipt_validate_def)
       (simp add: demo_receipt_def blank_def is_white_def max_safe_integer_def is_error_def demo_record_def)
qed

lemma demo_page_encoded: "page_encode x0 demo_page = Inr (canonical_json x0 (page_json demo_page))"
proof -
  have "page_validate x0 demo_page = Inr ()"
    by (simp add: page_validate_iff page_ok_def demo_page_def max_safe_integer_def demo_record_ok)
  then show ?thesis by (simp add: page_encode_def)
qed

lemma demo_receipt_canonical: "canonical_ok x0 (receipt_json demo_receipt)"
  by (rule canonical_ok_x0; code_simp)

lemma demo_page_canonical: "canonical_ok x0 (page_json demo_page)"
  by (rule canonical_ok_x0; code_simp)

lemma demo_page_sorted: "bt_ok (g_cursors demo_page)"
  by (simp add: demo_page_def bt_ok_def)

theorem receipt_roundtrip_witness:
  "receipt_decode x0 (canonical_json x0 (receipt_json demo_receipt)) = Inr demo_receipt"
  using receipt_roundtrip [OF demo_receipt_encoded demo_receipt_canonical] .

theorem page_roundtrip_witness:
  "page_decode x0 (canonical_json x0 (page_json demo_page)) = Inr demo_page"
  using page_roundtrip [OF demo_page_encoded demo_page_canonical demo_page_sorted] by blast

lemma demo_models: "counters_ok True [(''Task'', 2)]"
  by (simp add: counters_ok_def bt_ok_def max_safe_integer_def)

lemma demo_cursors: "counters_ok False [(''book'', 2)]"
  by (simp add: counters_ok_def bt_ok_def max_safe_integer_def)

lemma demo_subscribe:
  "subscribe_new [''book''] [(''Task'', 2)] = Inr \<lparr>b_channels = [''book''], b_models = [(''Task'', 2)]\<rparr>"
  by (simp add: subscribe_new_def normalize_channels_def bs_of_def read_models_counters [OF demo_models])

lemma demo_ack: "ack_new [(''book'', 2)] = Inr \<lparr>ack_cursors = [(''book'', 2)]\<rparr>"
  by (simp add: ack_new_def read_cursors_counters [OF demo_cursors])

theorem live_frames_roundtrip_witness:
  "subscribe_decode x0 (subscribe_encode x0 \<lparr>b_channels = [''book''], b_models = [(''Task'', 2)]\<rparr>) =
     Inr \<lparr>b_channels = [''book''], b_models = [(''Task'', 2)]\<rparr> \<and>
   live_decode x0 (canonical_json x0 (page_json demo_page)) = Inr (Page demo_page)"
proof -
  let ?q = "\<lparr>l_models = [(''Task'', 2)], l_cursors = [(''book'', 2)]\<rparr>"
  have s: "canonical_ok x0 (subscribe_json \<lparr>b_channels = [''book''], b_models = [(''Task'', 2)]\<rparr>)"
    by (rule canonical_ok_x0; code_simp)
  have a: "canonical_ok x0 (ack_json \<lparr>ack_cursors = [(''book'', 2)]\<rparr>)"
    by (rule canonical_ok_x0; code_simp)
  have q: "canonical_ok x0 (pull_json ?q)" by (rule canonical_ok_x0; code_simp)
  have e: "pull_encode x0 ?q = Inr (canonical_json x0 (pull_json ?q))"
    by (simp add: pull_encode_def read_models_counters [OF demo_models] read_cursors_counters [OF demo_cursors])
  from live_frames_roundtrip [OF demo_subscribe s demo_ack a demo_page_encoded demo_page_canonical
      demo_page_sorted e q] show ?thesis by (simp add: bt_ok_def)
qed

definition demo_push :: json where
  "demo_push = obj [(''clientId'', JStr ''c1''), (''batchSequence'', jnat 3),
     (''models'', counters_json [(''Task'', 2)]),
     (''mutations'', JArr [obj [(''ordinal'', jnat 1)], obj [(''ordinal'', jnat 2)]])]"

lemma demo_push_decoded:
  "push_decode x0 (print_json demo_push) = Inr \<lparr>u_client = ''c1'', u_batch = 3,
     u_mutations = [(1, obj [(''ordinal'', jnat 1)]), (2, obj [(''ordinal'', jnat 2)])],
     u_models = [(''Task'', 2)], u_raw = demo_push\<rparr>"
proof -
  have "from_str x0 (print_json demo_push) = Inr demo_push"
    by (simp add: from_str_def x0_def) code_simp
  moreover have "index demo_push ''models'' = counters_json [(''Task'', 2)]" by (simp add: demo_push_def)
  moreover have "index demo_push ''clientId'' = JStr ''c1''" "index demo_push ''batchSequence'' = jnat 3"
    "index demo_push ''mutations'' = JArr [obj [(''ordinal'', jnat 1)], obj [(''ordinal'', jnat 2)]]"
    by (simp_all add: demo_push_def)
  moreover have "efold push_mutation [obj [(''ordinal'', jnat 1)], obj [(''ordinal'', jnat 2)]] ([], []) =
      Inr ([1, 2], [(1, obj [(''ordinal'', jnat 1)]), (2, obj [(''ordinal'', jnat 2)])])"
    by (simp add: push_mutation_def read_counter_jnat max_safe_integer_def)
  ultimately show ?thesis
    by (simp add: push_decode_def nonblank_def blank_def is_white_def read_counter_jnat
        max_safe_integer_def read_models_counters [OF demo_models] push_mutations_def)
qed

theorem push_request_roundtrip_witness:
  "push_decode x0 (canonical_json x0 demo_push) = push_decode x0 (print_json demo_push)"
proof -
  have c: "canonical_ok x0 demo_push" by (rule canonical_ok_x0; code_simp)
  from push_request_roundtrip [OF demo_push_decoded] c show ?thesis
    by (simp add: push_encode_def demo_push_decoded)
qed

theorem confirms_channel_set_witness:
  "confirms \<lparr>ack_cursors = [(''book'', 2)]\<rparr> \<lparr>b_channels = [''book''], b_models = [(''Task'', 2)]\<rparr>"
proof -
  have "ascii ''book''" by (simp add: ascii_def)
  with confirms_channel_set [OF demo_subscribe, of "\<lparr>ack_cursors = [(''book'', 2)]\<rparr>"]
  show ?thesis by (simp add: bt_ok_def bt_keys_def)
qed

end
