(* ===== verification/Database.thy ===== *)
theory Database
  imports Protocol
begin

text \<open>
  What the client keeps in SQLite (\<open>crates/client/src/ddl.rs\<close>, \<open>rows.rs\<close>, \<open>store.rs\<close>,
  \<open>crates/sqlite/src/lib.rs\<close>): the framework's tables, two tables per model (the visible rows
  and the before images), and the codec between JSON and SQL values. A table is the list of its
  rows in the order a scan meets them; a statement's effect is written out, constraints included.
\<close>

section \<open>SQL values\<close>

datatype sqlval = SNull | SInt int | SReal f64 | SText string

definition as_i64 :: "number \<Rightarrow> int option" where
  "as_i64 n = (case n of PosInt k \<Rightarrow> if k < 2 ^ 63 then Some (int k) else None
     | NegInt i \<Rightarrow> Some i | Float _ \<Rightarrow> None)"

definition parameter :: "ext \<Rightarrow> json \<Rightarrow> sqlval" where
  "parameter x v = (case v of
     JNull \<Rightarrow> SNull
   | JBool b \<Rightarrow> SInt (if b then 1 else 0)
   | JNum n \<Rightarrow> (case as_i64 n of Some i \<Rightarrow> SInt i
       | None \<Rightarrow> (case as_f64 v of Some f \<Rightarrow> SReal f | None \<Rightarrow> SNull))
   | JStr s \<Rightarrow> SText s
   | _ \<Rightarrow> SText (x_text x v))"

text \<open>The value a column gives back.\<close>

fun column_value :: "sqlval \<Rightarrow> json" where
  "column_value SNull = JNull"
| "column_value (SInt i) = jint i"
| "column_value (SReal f) = JNum (Float f)"
| "column_value (SText s) = JStr s"

text \<open>SQL's \<open>=\<close> in a condition: never true of a null; numbers compare across storage classes.\<close>

fun sql_eq :: "sqlval \<Rightarrow> sqlval \<Rightarrow> bool" where
  "sql_eq (SInt i) (SInt j) = (i = j)"
| "sql_eq (SReal f) (SReal g) = (f_canon f = f_canon g)"
| "sql_eq (SInt i) (SReal f) = (f_integral f \<and> f_as_i64 f = i)"
| "sql_eq (SReal f) (SInt i) = (f_integral f \<and> f_as_i64 f = i)"
| "sql_eq (SText s) (SText t) = (s = t)"
| "sql_eq _ _ = False"

section \<open>Rows\<close>

definition decode_value :: "ext \<Rightarrow> value_type \<Rightarrow> json \<Rightarrow> json res" where
  "decode_value x ty v =
     (if is_null v then Inr JNull
      else (case ty of
          TScalar StBoolean \<Rightarrow>
            Inr (JBool (case v of JNum n \<Rightarrow> (case as_i64 n of Some i \<Rightarrow> i \<noteq> 0 | None \<Rightarrow> False) | _ \<Rightarrow> False))
        | TList _ \<Rightarrow> bindE (ok_or (as_str v) (invalid ''list column must be text'')) (from_str x)
        | _ \<Rightarrow> Inr v))"

definition decode_column ::
  "ext \<Rightarrow> model_desc \<Rightarrow> string \<times> json \<Rightarrow> (string \<times> json) list \<Rightarrow> (string \<times> json) list res" where
  "decode_column x m cv acc =
     bindE (ok_or (field_of m (fst cv)) (invalid (''unknown column '' @ fst cv)))
     (\<lambda>f. bindE (decode_value x (f_type f) (snd cv)) (\<lambda>w. Inr (bt_ins (fst cv) w acc)))"

definition decode_row :: "ext \<Rightarrow> model_desc \<Rightarrow> string list \<Rightarrow> json list \<Rightarrow> json res" where
  "decode_row x m columns row =
     bindE (efold (decode_column x m) (zip columns row) []) (\<lambda>kvs. Inr (JObj kvs))"

definition entries :: "json \<Rightarrow> (string \<times> json) list" where
  "entries v = (case as_object v of Some kvs \<Rightarrow> kvs | None \<Rightarrow> [])"

definition merge_identity :: "json \<Rightarrow> json \<Rightarrow> json" where
  "merge_identity identity state =
     JObj (fold (\<lambda>(k, v). bt_ins k v) (entries state) (entries identity))"

definition identity_params :: "ext \<Rightarrow> model_desc \<Rightarrow> json \<Rightarrow> sqlval list" where
  "identity_params x m identity = map (\<lambda>f. parameter x (index identity f)) (m_identity m)"

definition row_params :: "ext \<Rightarrow> model_desc \<Rightarrow> json \<Rightarrow> sqlval list" where
  "row_params x m row = map (\<lambda>f. parameter x (index row (f_name f))) (m_fields m)"

text \<open>A model's table: its rows by primary key. The columns are the fields, in their order.\<close>

type_synonym table = "(sqlval list \<times> sqlval list) list"

definition columns :: "model_desc \<Rightarrow> string list" where
  "columns m = map f_name (m_fields m)"

definition cell :: "model_desc \<Rightarrow> sqlval list \<Rightarrow> string \<Rightarrow> sqlval" where
  "cell m vals name = (case map_of (zip (columns m) vals) name of Some v \<Rightarrow> v | None \<Rightarrow> SNull)"

definition primary_key :: "model_desc \<Rightarrow> sqlval list \<Rightarrow> sqlval list" where
  "primary_key m vals = map (cell m vals) (m_identity m)"

definition not_null_ok :: "model_desc \<Rightarrow> sqlval list \<Rightarrow> bool" where
  "not_null_ok m vals \<longleftrightarrow> list_all2 (\<lambda>f v. v = SNull \<longrightarrow> f_nullable f) (m_fields m) vals"

text \<open>A unique index: no other row has the same values in its columns, unless one is null.\<close>

definition unique_index_ok ::
  "string list list \<Rightarrow> model_desc \<Rightarrow> sqlval list \<Rightarrow> sqlval list \<Rightarrow> table \<Rightarrow> bool" where
  "unique_index_ok indexes m key vals t \<longleftrightarrow>
     (\<forall>cols \<in> set indexes. \<forall>(k, other) \<in> set t.
        k \<noteq> key \<longrightarrow> \<not> list_all (\<lambda>c. sql_eq (cell m vals c) (cell m other c)) cols)"

definition constraint_error :: "ext \<Rightarrow> string \<Rightarrow> err" where
  "constraint_error x rule = invalid (''sqlite: '' @ x_sql x rule)"

definition table_insert ::
  "ext \<Rightarrow> string list list \<Rightarrow> model_desc \<Rightarrow> sqlval list \<Rightarrow> table \<Rightarrow> table res" where
  "table_insert x indexes m vals t =
     (let key = primary_key m vals in
      if \<not> not_null_ok m vals then Inl (constraint_error x ''NOT NULL'')
      else if map_of t key \<noteq> None \<or> \<not> unique_index_ok indexes m key vals t
      then Inl (constraint_error x ''UNIQUE'')
      else Inr (t @ [(key, vals)]))"

text \<open>
  \<open>ON CONFLICT(key) DO UPDATE\<close> of every column outside the key, or \<open>DO NOTHING\<close> where there is
  none: either way the row then holds the given values.
\<close>

definition table_upsert ::
  "ext \<Rightarrow> string list list \<Rightarrow> model_desc \<Rightarrow> sqlval list \<Rightarrow> table \<Rightarrow> table res" where
  "table_upsert x indexes m vals t =
     (let key = primary_key m vals in
      if \<not> not_null_ok m vals then Inl (constraint_error x ''NOT NULL'')
      else if \<not> unique_index_ok indexes m key vals t then Inl (constraint_error x ''UNIQUE'')
      else Inr (al_put key vals t))"

section \<open>The database\<close>

record mutation_row =
  mr_name :: string
  mr_version :: nat
  mr_push :: "nat option"
  mr_diverged :: bool

record operation_row =
  or_kind :: string
  or_model :: string
  or_identity :: string
  or_op :: string
  or_values :: "string option"

record rejection_row =
  rr_name :: string
  rr_code :: string
  rr_detail :: string

record client_row =
  cl_id :: string
  cl_next_ordinal :: nat
  cl_next_push :: nat
  cl_generation :: nat
  cl_last_completed :: nat
  cl_push_models :: "string option"

text \<open>
  Every framework table by its primary key, in key order: mutations and rejections by ordinal,
  operations by ordinal and position, dependencies by ordinal and target, prerequisites by
  ordinal and key, stamps by model and encoded identity, subscriptions by channel.
\<close>

record db =
  d_client :: "client_row option"
  d_stamps :: "((string \<times> string) \<times> nat) list"
  d_subs :: "(string \<times> nat) list"
  d_mutations :: "(nat \<times> mutation_row) list"
  d_operations :: "((nat \<times> nat) \<times> operation_row) list"
  d_deps :: "((nat \<times> nat) \<times> string) list"
  d_prereqs :: "((nat \<times> string) \<times> string option) list"
  d_rejections :: "(nat \<times> rejection_row) list"
  d_tables :: "string \<Rightarrow> table"

definition before_table :: "string \<Rightarrow> string" where
  "before_table model = ''ahead_before_'' @ model"

text \<open>The unique indexes \<open>model_ddl\<close> creates: on the visible table only.\<close>

definition indexes_of :: "string \<Rightarrow> model_desc \<Rightarrow> string list list" where
  "indexes_of table m = (if table = m_name m then m_unique m else [])"

text \<open>A statement on one model table.\<close>

definition on_table :: "string \<Rightarrow> (table \<Rightarrow> table res) \<Rightarrow> db \<Rightarrow> db res" where
  "on_table table f d =
     bindE (f (d_tables d table)) (\<lambda>t. Inr (d\<lparr>d_tables := (d_tables d)(table := t)\<rparr>))"

text \<open>Deleting a mutation row cascades to its operations, dependencies and prerequisites.\<close>

definition delete_mutation :: "nat \<Rightarrow> db \<Rightarrow> db" where
  "delete_mutation n d = d\<lparr>
     d_mutations := bt_del n (d_mutations d),
     d_operations := filter (\<lambda>((o', _), _). o' \<noteq> n) (d_operations d),
     d_deps := filter (\<lambda>((o', t), _). o' \<noteq> n \<and> t \<noteq> n) (d_deps d),
     d_prereqs := filter (\<lambda>((o', _), _). o' \<noteq> n) (d_prereqs d)\<rparr>"

definition insert_mutation_row :: "ext \<Rightarrow> nat \<Rightarrow> mutation_row \<Rightarrow> db \<Rightarrow> db res" where
  "insert_mutation_row x n r d =
     (if map_of (d_mutations d) n \<noteq> None then Inl (constraint_error x ''UNIQUE'')
      else Inr (d\<lparr>d_mutations := bt_ins n r (d_mutations d)\<rparr>))"

definition insert_operation_row :: "ext \<Rightarrow> nat \<times> nat \<Rightarrow> operation_row \<Rightarrow> db \<Rightarrow> db res" where
  "insert_operation_row x np r d =
     (if map_of (d_operations d) np \<noteq> None then Inl (constraint_error x ''UNIQUE'')
      else if map_of (d_mutations d) (fst np) = None then Inl (constraint_error x ''FOREIGN KEY'')
      else Inr (d\<lparr>d_operations := bt_ins np r (d_operations d)\<rparr>))"

text \<open>
  \<open>INSERT OR IGNORE\<close>: a duplicate key or a dependency that does not point backwards is skipped,
  a foreign key that does not exist is an error.
\<close>

definition insert_dependency_row :: "ext \<Rightarrow> nat \<Rightarrow> nat \<Rightarrow> string \<Rightarrow> db \<Rightarrow> db res" where
  "insert_dependency_row x n t kind d =
     (if map_of (d_deps d) (n, t) \<noteq> None \<or> \<not> t < n then Inr d
      else if map_of (d_mutations d) n = None \<or> map_of (d_mutations d) t = None
      then Inl (constraint_error x ''FOREIGN KEY'')
      else Inr (d\<lparr>d_deps := bt_ins (n, t) kind (d_deps d)\<rparr>))"

definition insert_prerequisite_row :: "ext \<Rightarrow> nat \<Rightarrow> string \<Rightarrow> db \<Rightarrow> db res" where
  "insert_prerequisite_row x n key d =
     (if map_of (d_prereqs d) (n, key) \<noteq> None then Inr d
      else if map_of (d_mutations d) n = None then Inl (constraint_error x ''FOREIGN KEY'')
      else Inr (d\<lparr>d_prereqs := bt_ins (n, key) None (d_prereqs d)\<rparr>))"

end
