(* ===== verification/Engine.thy ===== *)
theory Engine
  imports Database
begin

text \<open>
  \<open>crates/client/src/engine.rs\<close>, \<open>ledger.rs\<close> and the row operations of \<open>rows.rs\<close>: one handle
  per open transaction. A method is a computation over the transaction's working database, its
  savepoints and the set of tables it changed; a statement that fails leaves its table marked
  as changed and nothing else.
\<close>

record work =
  w_db :: db
  w_saves :: "(string \<times> db) list"
  w_changed :: "string list"

type_synonym 'a eng = "(work, err, 'a) comp"

text \<open>\<open>Engine::exec\<close>: mark the table, then run the statement.\<close>

definition exec :: "string \<Rightarrow> (db \<Rightarrow> db res) \<Rightarrow> unit eng" where
  "exec table f w =
     (let w' = w\<lparr>w_changed := bs_ins table (w_changed w)\<rparr> in
      case f (w_db w) of Inl e \<Rightarrow> (Inl e, w') | Inr d \<Rightarrow> (Inr (), w'\<lparr>w_db := d\<rparr>))"

definition exec_all :: "string \<Rightarrow> (db \<Rightarrow> db) \<Rightarrow> unit eng" where
  "exec_all table f = exec table (\<lambda>d. Inr (f d))"

definition query :: "(db \<Rightarrow> 'a) \<Rightarrow> 'a eng" where
  "query f = getsM (\<lambda>w. f (w_db w))"

definition query_res :: "(db \<Rightarrow> 'a res) \<Rightarrow> 'a eng" where
  "query_res f = readM (\<lambda>w. f (w_db w))"

text \<open>
  \<open>SAVEPOINT\<close>, \<open>RELEASE\<close> and \<open>ROLLBACK TO; RELEASE\<close> of the latest savepoint of that name. The
  names the engine uses are its own, so the check of the name never fails; a name that is not
  open is an error of SQLite.
\<close>

definition savepoint :: "string \<Rightarrow> unit eng" where
  "savepoint name = modifyM (\<lambda>w. w\<lparr>w_saves := (name, w_db w) # w_saves w\<rparr>)"

fun saves_from :: "string \<Rightarrow> (string \<times> db) list \<Rightarrow> (db \<times> (string \<times> db) list) option" where
  "saves_from name [] = None"
| "saves_from name ((n, d) # r) = (if n = name then Some (d, r) else saves_from name r)"

definition release :: "ext \<Rightarrow> string \<Rightarrow> unit eng" where
  "release x name w = (case saves_from name (w_saves w) of
     None \<Rightarrow> (Inl (constraint_error x ''no such savepoint''), w)
   | Some (d, r) \<Rightarrow> (Inr (), w\<lparr>w_saves := r\<rparr>))"

definition rollback_to :: "ext \<Rightarrow> string \<Rightarrow> unit eng" where
  "rollback_to x name w = (case saves_from name (w_saves w) of
     None \<Rightarrow> (Inl (constraint_error x ''no such savepoint''), w)
   | Some (d, r) \<Rightarrow> (Inr (), w\<lparr>w_db := d, w_saves := r\<rparr>))"

section \<open>Stamps and subscriptions\<close>

definition stamp_of :: "ext \<Rightarrow> rkey \<Rightarrow> db \<Rightarrow> nat" where
  "stamp_of x k d = (case map_of (d_stamps d) (k_model k, encoded_identity x k) of
     Some s \<Rightarrow> s | None \<Rightarrow> 0)"

definition record_stamp :: "ext \<Rightarrow> rkey \<Rightarrow> nat eng" where
  "record_stamp x k = query (stamp_of x k)"

definition set_record_stamp :: "ext \<Rightarrow> rkey \<Rightarrow> nat \<Rightarrow> unit eng" where
  "set_record_stamp x k s = exec_all ''ahead_record''
     (\<lambda>d. d\<lparr>d_stamps := bt_ins (k_model k, encoded_identity x k) s (d_stamps d)\<rparr>)"

definition cursor :: "string \<Rightarrow> nat option eng" where
  "cursor channel = query (\<lambda>d. map_of (d_subs d) channel)"

definition set_cursor :: "string \<Rightarrow> nat \<Rightarrow> unit eng" where
  "set_cursor channel c = exec_all ''ahead_subscription''
     (\<lambda>d. d\<lparr>d_subs := bt_ins channel c (d_subs d)\<rparr>)"

definition delete_subscription :: "string \<Rightarrow> unit eng" where
  "delete_subscription channel = exec_all ''ahead_subscription''
     (\<lambda>d. d\<lparr>d_subs := bt_del channel (d_subs d)\<rparr>)"

definition subscriptions :: "(string \<times> nat) list eng" where
  "subscriptions = query d_subs"

section \<open>Rows of a model's tables\<close>

definition row_at :: "ext \<Rightarrow> model_desc \<Rightarrow> string \<Rightarrow> json \<Rightarrow> db \<Rightarrow> json option res" where
  "row_at x m table identity d =
     (case map_of (d_tables d table) (identity_params x m identity) of
        None \<Rightarrow> Inr None
      | Some vals \<Rightarrow> bindE (decode_row x m (columns m) (map column_value vals)) (\<lambda>r. Inr (Some r)))"

definition row_get :: "ext \<Rightarrow> string \<Rightarrow> model_desc \<Rightarrow> json \<Rightarrow> json option eng" where
  "row_get x table m identity = query_res (row_at x m table identity)"

definition row_insert :: "ext \<Rightarrow> string \<Rightarrow> model_desc \<Rightarrow> json \<Rightarrow> unit eng" where
  "row_insert x table m row =
     exec table (on_table table (table_insert x (indexes_of table m) m (row_params x m row)))"

definition row_upsert :: "ext \<Rightarrow> string \<Rightarrow> model_desc \<Rightarrow> json \<Rightarrow> unit eng" where
  "row_upsert x table m row =
     exec table (on_table table (table_upsert x (indexes_of table m) m (row_params x m row)))"

definition row_delete :: "ext \<Rightarrow> string \<Rightarrow> model_desc \<Rightarrow> json \<Rightarrow> unit eng" where
  "row_delete x table m identity =
     exec table (on_table table (\<lambda>t. Inr (al_del (identity_params x m identity) t)))"

text \<open>\<open>WHERE\<close>: every listed column is null, or equal to the given value.\<close>

definition filter_matches :: "ext \<Rightarrow> model_desc \<Rightarrow> (string \<times> json) list \<Rightarrow> sqlval list \<Rightarrow> bool" where
  "filter_matches x m conds vals \<longleftrightarrow>
     (\<forall>(c, v) \<in> set conds.
        if is_null v then cell m vals c = SNull else sql_eq (cell m vals c) (parameter x v))"

definition rows_matching ::
  "ext \<Rightarrow> string \<Rightarrow> model_desc \<Rightarrow> (string \<times> json) list \<Rightarrow> db \<Rightarrow> json list res" where
  "rows_matching x table m conds d =
     emap (\<lambda>kv. decode_row x m (columns m) (map column_value (snd kv)))
       (filter (\<lambda>kv. filter_matches x m conds (snd kv)) (d_tables d table))"

definition rows_where :: "ext \<Rightarrow> string \<Rightarrow> model_desc \<Rightarrow> (string \<times> json) list \<Rightarrow> json list eng" where
  "rows_where x table m conds = query_res (rows_matching x table m conds)"

definition identity_of_row :: "model_desc \<Rightarrow> json \<Rightarrow> json" where
  "identity_of_row m row = obj (map (\<lambda>f. (f, index row f)) (m_identity m))"

definition identities_where ::
  "ext \<Rightarrow> string \<Rightarrow> model_desc \<Rightarrow> (string \<times> json) list \<Rightarrow> json list eng" where
  "identities_where x table m conds =
     bindM (rows_where x table m conds) (\<lambda>rows. retM (map (identity_of_row m) rows))"

text \<open>\<open>INSERT OR IGNORE ... SELECT\<close>: the visible row becomes the before image unless there is one.\<close>

definition copy_aside :: "ext \<Rightarrow> model_desc \<Rightarrow> json \<Rightarrow> unit eng" where
  "copy_aside x m identity =
     (let before = before_table (m_name m); key = identity_params x m identity in
      exec_all before (\<lambda>d.
        case map_of (d_tables d (m_name m)) key of
          None \<Rightarrow> d
        | Some vals \<Rightarrow>
            if map_of (d_tables d before) key = None
            then d\<lparr>d_tables := (d_tables d)(before := d_tables d before @ [(key, vals)])\<rparr>
            else d))"

definition count_rows :: "(db \<Rightarrow> 'r list) \<Rightarrow> nat eng" where
  "count_rows f = query (\<lambda>d. length (f d))"

end
