(* ===== verification/Queue.thy ===== *)
theory Queue
  imports Engine
begin

text \<open>
  \<open>crates/client/src/queue.rs\<close> and the queue's types in \<open>lib.rs\<close>: pending mutations with their
  operations, dependencies and prerequisites, the push in flight, completed pushes, rejections.
\<close>

section \<open>Operations and mutations\<close>

datatype op_kind = OpCreate | OpUpdate | OpDelete

datatype queue_kind = KWire | KCompanion | KEffect

record operation =
  o_model :: string
  o_op :: op_kind
  o_identity :: json
  o_values :: "json option"

record mutation =
  n_name :: string
  n_version :: nat
  n_operations :: "operation list"
  n_companion :: "operation list"
  n_effects :: "operation list"
  n_prerequisites :: "string list"
  n_lifecycle :: "nat list"
  n_sequence :: "nat list"

definition mutation_new :: "string \<Rightarrow> operation list \<Rightarrow> mutation" where
  "mutation_new name ops = \<lparr>n_name = name, n_version = 1, n_operations = ops, n_companion = [],
     n_effects = [], n_prerequisites = [], n_lifecycle = [], n_sequence = []\<rparr>"

record queued_op =
  qo_ordinal :: nat
  qo_position :: nat
  qo_kind :: queue_kind
  qo_op :: operation

record queued =
  q_ordinal :: nat
  q_push :: "nat option"
  q_diverged :: bool
  q_mutation :: mutation

fun op_text :: "op_kind \<Rightarrow> string" where
  "op_text OpCreate = ''create''"
| "op_text OpUpdate = ''update''"
| "op_text OpDelete = ''delete''"

fun kind_text :: "queue_kind \<Rightarrow> string" where
  "kind_text KWire = ''wire''"
| "kind_text KCompanion = ''companion''"
| "kind_text KEffect = ''effect''"

definition operation_json :: "operation \<Rightarrow> json" where
  "operation_json op = obj ([(''model'', JStr (o_model op)), (''op'', JStr (op_text (o_op op))),
     (''identity'', o_identity op)] @ (case o_values op of None \<Rightarrow> [] | Some v \<Rightarrow> [(''values'', v)]))"

definition mutation_json :: "mutation \<Rightarrow> json" where
  "mutation_json m = obj [(''name'', JStr (n_name m)), (''version'', jnat (n_version m)),
     (''operations'', JArr (map operation_json (n_operations m))),
     (''companion'', JArr (map operation_json (n_companion m))),
     (''effects'', JArr (map operation_json (n_effects m))),
     (''prerequisites'', JArr (map JStr (n_prerequisites m))),
     (''lifecycleDependencies'', JArr (map jnat (n_lifecycle m))),
     (''sequenceDependencies'', JArr (map jnat (n_sequence m)))]"

definition decode_kind :: "string \<Rightarrow> queue_kind res" where
  "decode_kind t = (if t = ''wire'' then Inr KWire else if t = ''companion'' then Inr KCompanion
     else if t = ''effect'' then Inr KEffect else Inl (invalid ''unknown operation kind''))"

definition decode_op_kind :: "string \<Rightarrow> op_kind res" where
  "decode_op_kind t = (if t = ''create'' then Inr OpCreate else if t = ''update'' then Inr OpUpdate
     else if t = ''delete'' then Inr OpDelete else Inl (invalid ''unknown operation''))"

definition decode_op :: "ext \<Rightarrow> (nat \<times> nat) \<times> operation_row \<Rightarrow> queued_op res" where
  "decode_op x row = (case row of ((ordinal, position), r) \<Rightarrow>
     bindE (decode_kind (or_kind r))
     (\<lambda>kind. bindE (decode_op_kind (or_op r))
     (\<lambda>op. bindE (from_str x (or_identity r))
     (\<lambda>identity. bindE (case or_values r of None \<Rightarrow> Inr None
           | Some t \<Rightarrow> bindE (from_str x t) (\<lambda>v. Inr (Some v)))
     (\<lambda>values. Inr \<lparr>qo_ordinal = ordinal, qo_position = position, qo_kind = kind,
        qo_op = \<lparr>o_model = or_model r, o_op = op, o_identity = identity, o_values = values\<rparr>\<rparr>)))))"

section \<open>Counters\<close>

definition bump_value :: "nat \<Rightarrow> nat res" where
  "bump_value n = (if n + 1 \<le> max_safe_integer then Inr (n + 1) else Inl (invalid ''counter exhausted''))"

definition current_client :: "client_row eng" where
  "current_client = query_res (\<lambda>d. ok_or (d_client d) (invalid ''client row missing''))"

definition update_client :: "(client_row \<Rightarrow> client_row) \<Rightarrow> unit eng" where
  "update_client f = exec_all ''ahead_client'' (\<lambda>d. d\<lparr>d_client := map_option f (d_client d)\<rparr>)"

definition allocate_ordinal :: "nat eng" where
  "allocate_ordinal = bindM current_client
     (\<lambda>c. bindM (liftM (bump_value (cl_next_ordinal c)))
     (\<lambda>n. bindM (update_client (\<lambda>r. r\<lparr>cl_next_ordinal := n\<rparr>))
     (\<lambda>_. retM (cl_next_ordinal c))))"

definition allocate_push :: "nat eng" where
  "allocate_push = bindM current_client
     (\<lambda>c. bindM (liftM (bump_value (cl_next_push c)))
     (\<lambda>n. bindM (update_client (\<lambda>r. r\<lparr>cl_next_push := n\<rparr>))
     (\<lambda>_. retM (cl_next_push c))))"

section \<open>Writing a mutation\<close>

definition insert_op :: "ext \<Rightarrow> schema \<Rightarrow> nat \<Rightarrow> nat \<Rightarrow> queue_kind \<Rightarrow> operation \<Rightarrow> unit eng" where
  "insert_op x s ordinal position kind op =
     bindM (liftM (record_key x s (o_model op) (o_identity op)))
     (\<lambda>k. exec ''ahead_mutation_operation'' (insert_operation_row x (ordinal, position)
        \<lparr>or_kind = kind_text kind, or_model = o_model op, or_identity = encoded_identity x k,
         or_op = op_text (o_op op), or_values = map_option (x_text x) (o_values op)\<rparr>))"

fun insert_ops :: "ext \<Rightarrow> schema \<Rightarrow> nat \<Rightarrow> nat \<Rightarrow> (queue_kind \<times> operation) list \<Rightarrow> unit eng" where
  "insert_ops x s ordinal position [] = retM ()"
| "insert_ops x s ordinal position ((kind, op) # ops) =
     bindM (insert_op x s ordinal position kind op)
     (\<lambda>_. insert_ops x s ordinal (position + 1) ops)"

definition mutation_ops :: "mutation \<Rightarrow> (queue_kind \<times> operation) list" where
  "mutation_ops m = map (Pair KWire) (n_operations m) @ map (Pair KCompanion) (n_companion m)
     @ map (Pair KEffect) (n_effects m)"

definition insert_mutation :: "ext \<Rightarrow> schema \<Rightarrow> nat \<Rightarrow> mutation \<Rightarrow> unit eng" where
  "insert_mutation x s ordinal m =
     bindM (exec ''ahead_mutation'' (insert_mutation_row x ordinal
        \<lparr>mr_name = n_name m, mr_version = n_version m, mr_push = None, mr_diverged = False\<rparr>))
     (\<lambda>_. bindM (insert_ops x s ordinal 0 (mutation_ops m))
     (\<lambda>_. bindM (forM (\<lambda>(kind, dep). exec ''ahead_mutation_dependency''
           (insert_dependency_row x ordinal dep kind))
         (map (Pair ''lifecycle'') (n_lifecycle m) @ map (Pair ''sequence'') (n_sequence m)))
     (\<lambda>_. forM (\<lambda>key. exec ''ahead_mutation_prerequisite'' (insert_prerequisite_row x ordinal key))
         (n_prerequisites m))))"

definition next_position :: "nat \<Rightarrow> db \<Rightarrow> nat" where
  "next_position ordinal d =
     foldr (\<lambda>((n, p), _) acc. if n = ordinal then max (p + 1) acc else acc) (d_operations d) 0"

definition add_effect :: "ext \<Rightarrow> schema \<Rightarrow> nat \<Rightarrow> operation \<Rightarrow> unit eng" where
  "add_effect x s ordinal op =
     bindM (query (next_position ordinal)) (\<lambda>p. insert_op x s ordinal p KEffect op)"

section \<open>Reading the queue\<close>

text \<open>Rows come back ordered by ordinal and position; grouping by ordinal is a filter.\<close>

definition ops_selected ::
  "ext \<Rightarrow> (nat \<times> nat \<Rightarrow> operation_row \<Rightarrow> bool) \<Rightarrow> db \<Rightarrow> queued_op list res" where
  "ops_selected x sel d = emap (decode_op x) (filter (\<lambda>(np, r). sel np r) (d_operations d))"

definition ops_of_kind :: "queue_kind \<Rightarrow> nat \<Rightarrow> queued_op list \<Rightarrow> operation list" where
  "ops_of_kind kind ordinal ops =
     map qo_op (filter (\<lambda>o'. qo_ordinal o' = ordinal \<and> qo_kind o' = kind) ops)"

definition queued_of ::
  "((nat \<times> nat) \<times> string) list \<Rightarrow> ((nat \<times> string) \<times> string option) list \<Rightarrow> queued_op list \<Rightarrow>
   nat \<times> mutation_row \<Rightarrow> queued" where
  "queued_of deps prereqs ops nr = (case nr of (n, r) \<Rightarrow>
     \<lparr>q_ordinal = n, q_push = mr_push r, q_diverged = mr_diverged r,
      q_mutation = \<lparr>n_name = mr_name r, n_version = mr_version r,
        n_operations = ops_of_kind KWire n ops, n_companion = ops_of_kind KCompanion n ops,
        n_effects = ops_of_kind KEffect n ops,
        n_prerequisites = map (\<lambda>((_, key), _). key) (filter (\<lambda>((o', _), _). o' = n) prereqs),
        n_lifecycle = map (\<lambda>((_, t), _). t) (filter (\<lambda>((o', _), k). o' = n \<and> k = ''lifecycle'') deps),
        n_sequence = map (\<lambda>((_, t), _). t) (filter (\<lambda>((o', _), k). o' = n \<and> k \<noteq> ''lifecycle'') deps)\<rparr>\<rparr>)"

definition queued_where :: "ext \<Rightarrow> (nat \<Rightarrow> bool) \<Rightarrow> db \<Rightarrow> queued list res" where
  "queued_where x sel d =
     (let mutations = filter (\<lambda>(n, _). sel n) (d_mutations d) in
      if mutations = [] then Inr []
      else bindE (ops_selected x (\<lambda>np _. sel (fst np)) d)
        (\<lambda>ops. Inr (map (queued_of (filter (\<lambda>((n, _), _). sel n) (d_deps d))
           (filter (\<lambda>((n, _), _). sel n) (d_prereqs d)) ops) mutations)))"

definition queued_all :: "ext \<Rightarrow> queued list eng" where
  "queued_all x = query_res (queued_where x (\<lambda>_. True))"

definition queued_one :: "ext \<Rightarrow> nat \<Rightarrow> queued option eng" where
  "queued_one x n = query_res (\<lambda>d. bindE (queued_where x (\<lambda>k. k = n) d)
     (\<lambda>qs. Inr (case qs of [] \<Rightarrow> None | q # _ \<Rightarrow> Some q)))"

definition op_on :: "ext \<Rightarrow> rkey \<Rightarrow> operation_row \<Rightarrow> bool" where
  "op_on x k r \<longleftrightarrow> or_model r = k_model k \<and> or_identity r = encoded_identity x k"

definition ops_for :: "ext \<Rightarrow> rkey \<Rightarrow> queued_op list eng" where
  "ops_for x k = query_res (ops_selected x (\<lambda>_. op_on x k))"

definition is_dirty :: "ext \<Rightarrow> rkey \<Rightarrow> db \<Rightarrow> bool" where
  "is_dirty x k d \<longleftrightarrow> (\<exists>(_, r) \<in> set (d_operations d). op_on x k r)"

definition dirty_record :: "ext \<Rightarrow> rkey \<Rightarrow> bool eng" where
  "dirty_record x k = query (is_dirty x k)"

section \<open>Changing the queue\<close>

definition update_mutation :: "nat \<Rightarrow> (mutation_row \<Rightarrow> mutation_row) \<Rightarrow> db \<Rightarrow> db" where
  "update_mutation n f d = d\<lparr>d_mutations := map (\<lambda>(k, r). (k, if k = n then f r else r)) (d_mutations d)\<rparr>"

definition set_diverged :: "nat \<Rightarrow> unit eng" where
  "set_diverged n = exec_all ''ahead_mutation'' (update_mutation n (\<lambda>r. r\<lparr>mr_diverged := True\<rparr>))"

definition mark_changed :: "string \<Rightarrow> unit eng" where
  "mark_changed table = modifyM (\<lambda>w. w\<lparr>w_changed := bs_ins table (w_changed w)\<rparr>)"

definition delete_mutations :: "nat list \<Rightarrow> unit eng" where
  "delete_mutations ordinals =
     bindM (forM (\<lambda>n. exec_all ''ahead_mutation'' (delete_mutation n)) ordinals)
     (\<lambda>_. forM mark_changed
        [''ahead_mutation_operation'', ''ahead_mutation_dependency'', ''ahead_mutation_prerequisite''])"

definition assign_push :: "nat list \<Rightarrow> nat \<Rightarrow> unit eng" where
  "assign_push ordinals push =
     forM (\<lambda>n. exec_all ''ahead_mutation'' (update_mutation n (\<lambda>r. r\<lparr>mr_push := Some push\<rparr>))) ordinals"

definition pushes :: "db \<Rightarrow> nat list" where
  "pushes d = bs_of (List.map_filter (\<lambda>(_, r). mr_push r) (d_mutations d))"

definition push_in_flight :: "db \<Rightarrow> nat option res" where
  "push_in_flight d = (case pushes d of [] \<Rightarrow> Inr None | [p] \<Rightarrow> Inr (Some p)
     | _ \<Rightarrow> Inl (invalid ''more than one push in flight''))"

definition in_flight_push :: "nat option eng" where
  "in_flight_push = query_res push_in_flight"

definition last_completed_push :: "nat eng" where
  "last_completed_push = bindM current_client (\<lambda>c. retM (cl_last_completed c))"

definition set_last_completed_push :: "nat \<Rightarrow> unit eng" where
  "set_last_completed_push n =
     update_client (\<lambda>r. r\<lparr>cl_last_completed := n, cl_push_models := None\<rparr>)"

definition push_models :: "ext \<Rightarrow> json option eng" where
  "push_models x = query_res (\<lambda>d. case Option.bind (d_client d) cl_push_models of
     None \<Rightarrow> Inr None | Some t \<Rightarrow> bindE (from_str x t) (\<lambda>v. Inr (Some v)))"

definition set_push_models :: "ext \<Rightarrow> json \<Rightarrow> unit eng" where
  "set_push_models x models = update_client (\<lambda>r. r\<lparr>cl_push_models := Some (x_text x models)\<rparr>)"

section \<open>Prerequisites and rejections\<close>

text \<open>\<open>MAX(error)\<close> ignores nulls: the greatest error text of the key, if any row has one.\<close>

fun max_error :: "string option list \<Rightarrow> string option" where
  "max_error [] = None"
| "max_error (None # es) = max_error es"
| "max_error (Some e # es) = (case max_error es of None \<Rightarrow> Some e | Some m \<Rightarrow> Some (max e m))"

definition prerequisite_errors :: "db \<Rightarrow> (string \<times> string option) list" where
  "prerequisite_errors d = map (\<lambda>key. (key, max_error
       (map snd (filter (\<lambda>((_, k), _). k = key) (d_prereqs d)))))
     (bs_of (map (\<lambda>((_, k), _). k) (d_prereqs d)))"

definition prerequisite_keys :: "(string \<times> string option) list eng" where
  "prerequisite_keys = query prerequisite_errors"

definition resolve_prerequisite :: "string \<Rightarrow> unit eng" where
  "resolve_prerequisite key = exec_all ''ahead_mutation_prerequisite''
     (\<lambda>d. d\<lparr>d_prereqs := filter (\<lambda>((_, k), _). k \<noteq> key) (d_prereqs d)\<rparr>)"

definition set_prerequisite_error :: "string \<Rightarrow> string option \<Rightarrow> unit eng" where
  "set_prerequisite_error key error = exec_all ''ahead_mutation_prerequisite''
     (\<lambda>d. d\<lparr>d_prereqs := map (\<lambda>((n, k), e). ((n, k), if k = key then error else e)) (d_prereqs d)\<rparr>)"

definition fail_prerequisite :: "string \<Rightarrow> string \<Rightarrow> unit eng" where
  "fail_prerequisite key error = set_prerequisite_error key (Some error)"

definition reset_prerequisite :: "string \<Rightarrow> unit eng" where
  "reset_prerequisite key = set_prerequisite_error key None"

definition insert_rejection :: "ext \<Rightarrow> nat \<Rightarrow> string \<Rightarrow> string \<Rightarrow> json \<Rightarrow> unit eng" where
  "insert_rejection x n name code detail = exec_all ''ahead_rejection''
     (\<lambda>d. d\<lparr>d_rejections := bt_ins n \<lparr>rr_name = name, rr_code = code, rr_detail = x_text x detail\<rparr>
        (d_rejections d)\<rparr>)"

definition rejections :: "rejection list eng" where
  "rejections = query (\<lambda>d. map (\<lambda>(n, r). \<lparr>j_ordinal = n, j_code = rr_code r\<rparr>) (d_rejections d))"

definition rejection_details :: "ext \<Rightarrow> json list eng" where
  "rejection_details x = query_res (\<lambda>d. emap (\<lambda>(_, r). from_str x (rr_detail r)) (d_rejections d))"

definition delete_rejection :: "nat \<Rightarrow> unit eng" where
  "delete_rejection n = exec_all ''ahead_rejection''
     (\<lambda>d. d\<lparr>d_rejections := bt_del n (d_rejections d)\<rparr>)"

end
