(* ===== verification/Mutate.thy ===== *)
theory Mutate
  imports Queue
begin

text \<open>
  \<open>crates/client/src/mutate.rs\<close>: reading and writing one record's visible row and before image,
  holding the truth of a record before it becomes dirty, replaying the queue over it, and the
  records a declared cascade reaches.
\<close>

section \<open>One operation on one row\<close>

fun apply_to_row :: "operation \<Rightarrow> json option \<Rightarrow> json option res" where
  "apply_to_row op row = (case o_op op of
     OpCreate \<Rightarrow>
       (case row of Some _ \<Rightarrow> Inl (invalid ''create already exists'')
        | None \<Rightarrow> bindE (ok_or (o_values op) (invalid ''create values missing''))
            (\<lambda>values. Inr (Some (merge_identity (o_identity op) values))))
   | OpUpdate \<Rightarrow>
       bindE (ok_or row (invalid ''update row missing''))
       (\<lambda>current. bindE (ok_or (Option.bind (o_values op) as_object) (invalid ''patch missing''))
       (\<lambda>patch. Inr (Some (fold (\<lambda>(k, v) r. set_key r k v) patch current))))
   | OpDelete \<Rightarrow> Inr None)"

declare apply_to_row.simps [simp del]

definition normalize_op :: "ext \<Rightarrow> schema \<Rightarrow> operation \<Rightarrow> operation res" where
  "normalize_op x s op =
     bindE (record_key x s (o_model op) (o_identity op))
     (\<lambda>k. let op' = op\<lparr>o_identity := k_identity k\<rparr> in
       (case o_op op of
          OpCreate \<Rightarrow>
            bindE (ok_or (o_values op) (invalid ''create values missing''))
            (\<lambda>v. bindE (normalize_state x s (o_model op) v) (\<lambda>w. Inr (op'\<lparr>o_values := Some w\<rparr>)))
        | OpUpdate \<Rightarrow>
            bindE (ok_or (o_values op) (invalid ''update values missing''))
            (\<lambda>v. bindE (validate_patch x s (o_model op) v) (\<lambda>w. Inr (op'\<lparr>o_values := Some w\<rparr>)))
        | OpDelete \<Rightarrow>
            bindE (ensure (o_values op = None) (invalid ''delete cannot contain values''))
            (\<lambda>_. Inr op')))"

section \<open>Rows, before images, truth\<close>

definition read_row :: "ext \<Rightarrow> schema \<Rightarrow> rkey \<Rightarrow> json option eng" where
  "read_row x s k = bindM (liftM (model_of s (k_model k)))
     (\<lambda>m. row_get x (k_model k) m (k_identity k))"

definition before_get :: "ext \<Rightarrow> schema \<Rightarrow> rkey \<Rightarrow> json option eng" where
  "before_get x s k = bindM (liftM (model_of s (k_model k)))
     (\<lambda>m. row_get x (before_table (k_model k)) m (k_identity k))"

definition before_set :: "ext \<Rightarrow> schema \<Rightarrow> rkey \<Rightarrow> json option \<Rightarrow> unit eng" where
  "before_set x s k row = bindM (liftM (model_of s (k_model k)))
     (\<lambda>m. case row of
        Some r \<Rightarrow> row_upsert x (before_table (k_model k)) m r
      | None \<Rightarrow> row_delete x (before_table (k_model k)) m (k_identity k))"

definition main_set :: "ext \<Rightarrow> schema \<Rightarrow> rkey \<Rightarrow> json option \<Rightarrow> unit eng" where
  "main_set x s k row = bindM (liftM (model_of s (k_model k)))
     (\<lambda>m. case row of
        Some r \<Rightarrow> row_upsert x (k_model k) m r
      | None \<Rightarrow> row_delete x (k_model k) m (k_identity k))"

definition truth :: "ext \<Rightarrow> schema \<Rightarrow> rkey \<Rightarrow> json option eng" where
  "truth x s k = bindM (dirty_record x k) (\<lambda>b. if b then before_get x s k else read_row x s k)"

definition apply_main :: "ext \<Rightarrow> schema \<Rightarrow> operation \<Rightarrow> unit eng" where
  "apply_main x s op =
     bindM (liftM (record_key x s (o_model op) (o_identity op)))
     (\<lambda>k. bindM (liftM (model_of s (o_model op)))
     (\<lambda>m. case o_op op of
         OpCreate \<Rightarrow>
           bindM (liftM (ok_or (o_values op) (invalid ''create values missing'')))
           (\<lambda>values. bindM (read_row x s k)
           (\<lambda>row. if row \<noteq> None then failM (invalid ''create already exists'')
                   else row_insert x (o_model op) m (merge_identity (o_identity op) values)))
       | OpUpdate \<Rightarrow>
           bindM (read_row x s k)
           (\<lambda>row. bindM (liftM (apply_to_row op row))
           (\<lambda>row'. bindM (liftM (ok_or row' (invalid ''update row missing'')))
           (\<lambda>r. row_upsert x (o_model op) m r)))
       | OpDelete \<Rightarrow> row_delete x (o_model op) m (o_identity op)))"

definition hold_truth :: "ext \<Rightarrow> schema \<Rightarrow> rkey \<Rightarrow> unit eng" where
  "hold_truth x s k = bindM (dirty_record x k)
     (\<lambda>b. if b then retM ()
          else bindM (liftM (model_of s (k_model k))) (\<lambda>m. copy_aside x m (k_identity k)))"

section \<open>Replay\<close>

text \<open>The queued operations in order; \<open>Inl\<close> is the ordinal of the first that does not apply.\<close>

fun replay :: "queued_op list \<Rightarrow> json option \<Rightarrow> nat + json option" where
  "replay [] row = Inr row"
| "replay (q # qs) row = (case apply_to_row (qo_op q) row of
     Inl _ \<Rightarrow> Inl (qo_ordinal q) | Inr row' \<Rightarrow> replay qs row')"

definition orelseM :: "'a eng \<Rightarrow> 'a eng \<Rightarrow> 'a eng" where
  "orelseM m h w = (case m w of (Inl _, w') \<Rightarrow> h w' | (Inr a, w') \<Rightarrow> (Inr a, w'))"

definition rebuild :: "ext \<Rightarrow> schema \<Rightarrow> rkey \<Rightarrow> nat option eng" where
  "rebuild x s k =
     bindM (before_get x s k)
     (\<lambda>held. bindM (ops_for x k)
     (\<lambda>ops. let failed = (case replay ops held of Inl n \<Rightarrow> Some n | Inr _ \<Rightarrow> None);
                 result = (case replay ops held of Inl _ \<Rightarrow> held | Inr row \<Rightarrow> row) in
        bindM (orelseM (main_set x s k result) (main_set x s k held))
        (\<lambda>_. bindM (if ops = [] then before_set x s k None else retM ())
        (\<lambda>_. bindM (case failed of None \<Rightarrow> retM () | Some n \<Rightarrow> set_diverged n)
        (\<lambda>_. retM failed)))))"

section \<open>Cascades\<close>

definition visit ::
  "ext \<Rightarrow> schema \<Rightarrow> model_desc \<Rightarrow> json \<Rightarrow> string list \<times> rkey list \<times> rkey list \<Rightarrow>
   (string list \<times> rkey list \<times> rkey list) res" where
  "visit x s m identity acc = (case acc of (seen, todo, result) \<Rightarrow>
     bindE (record_key x s (m_name m) identity)
     (\<lambda>child. if encoded x child \<in> set seen then Inr acc
        else Inr (bs_ins (encoded x child) seen, child # todo, result @ [child])))"

definition relation_filter :: "rkey \<Rightarrow> relation_desc \<Rightarrow> (string \<times> json) list" where
  "relation_filter parent r =
     map (\<lambda>(l, t). (l, index (k_identity parent) t)) (zip (r_fields r) (r_target_fields r))"

definition expand_relation ::
  "ext \<Rightarrow> schema \<Rightarrow> db \<Rightarrow> rkey \<Rightarrow> model_desc \<times> relation_desc \<Rightarrow>
   string list \<times> rkey list \<times> rkey list \<Rightarrow> (string list \<times> rkey list \<times> rkey list) res" where
  "expand_relation x s d parent mr acc = (case mr of (m, r) \<Rightarrow>
     if r_target r \<noteq> k_model parent \<or> r_on_delete r \<noteq> ''delete'' then Inr acc
     else bindE (rows_matching x (m_name m) m (relation_filter parent r) d)
       (\<lambda>rows. bindE (rows_matching x (before_table (m_name m)) m (relation_filter parent r) d)
       (\<lambda>befores. efold (visit x s m) (map (identity_of_row m) (rows @ befores)) acc)))"

definition model_relations :: "schema \<Rightarrow> (model_desc \<times> relation_desc) list" where
  "model_relations s = concat (map (\<lambda>m. map (Pair m) (m_relations m)) (s_models s))"

definition expand ::
  "ext \<Rightarrow> schema \<Rightarrow> db \<Rightarrow> rkey \<Rightarrow> string list \<times> rkey list \<times> rkey list \<Rightarrow>
   (string list \<times> rkey list \<times> rkey list) res" where
  "expand x s d parent acc = efold (expand_relation x s d parent) (model_relations s) acc"

text \<open>
  Every record the worklist can reach: the keys of the rows of the visible and before tables.
  A record enters the worklist once, when its encoded key is first seen, so the loop ends.
\<close>

definition row_keys :: "ext \<Rightarrow> schema \<Rightarrow> db \<Rightarrow> rkey set" where
  "row_keys x s d = (\<Union>m \<in> set (s_models s). \<Union>t \<in> {m_name m, before_table (m_name m)}.
     \<Union>kv \<in> set (d_tables d t).
       (case decode_row x m (columns m) (map column_value (snd kv)) of Inl _ \<Rightarrow> {}
        | Inr row \<Rightarrow> (case record_key x s (m_name m) (identity_of_row m row) of Inl _ \<Rightarrow> {}
            | Inr k \<Rightarrow> {k})))"

lemma finite_row_keys: "finite (row_keys x s d)"
  unfolding row_keys_def
  by (intro finite_UN_I) (auto split: sum.splits)

definition unseen :: "ext \<Rightarrow> schema \<Rightarrow> db \<Rightarrow> string list \<Rightarrow> nat" where
  "unseen x s d seen = card (encoded x ` row_keys x s d - set seen)"

lemma visit_measure:
  assumes "visit x s m identity (seen, todo, result) = Inr (seen', todo', result')"
    and "\<And>k. record_key x s (m_name m) identity = Inr k \<Longrightarrow> k \<in> row_keys x s d"
  shows "unseen x s d seen' + length todo' = unseen x s d seen + length todo"
proof -
  from assms(1) obtain child where c: "record_key x s (m_name m) identity = Inr child"
    and e: "(if encoded x child \<in> set seen then (seen, todo, result)
        else (bs_ins (encoded x child) seen, child # todo, result @ [child])) = (seen', todo', result')"
    by (auto simp: visit_def bindE_Inr_iff split: if_splits)
  show ?thesis
  proof (cases "encoded x child \<in> set seen")
    case True
    with e show ?thesis by simp
  next
    case False
    let ?U = "encoded x ` row_keys x s d"
    have "encoded x child \<in> ?U - set seen" using assms(2) [OF c] False by blast
    moreover have "?U - set seen' = (?U - set seen) - {encoded x child}" using e False by auto
    moreover have "finite (?U - set seen)" using finite_row_keys by simp
    ultimately have "Suc (unseen x s d seen') = unseen x s d seen"
      unfolding unseen_def by (metis card_Suc_Diff1)
    with e False show ?thesis by auto
  qed
qed

lemma rows_matching_keys:
  assumes "rows_matching x t m conds d = Inr rows" and "row \<in> set rows"
    and "m \<in> set (s_models s)" and "t \<in> {m_name m, before_table (m_name m)}"
    and "record_key x s (m_name m) (identity_of_row m row) = Inr k"
  shows "k \<in> row_keys x s d"
proof -
  from assms(1,2) obtain kv where "kv \<in> set (d_tables d t)"
      "decode_row x m (columns m) (map column_value (snd kv)) = Inr row"
    unfolding rows_matching_def by (auto dest!: emap_mem)
  with assms(3-5) show ?thesis unfolding row_keys_def by force
qed

lemma efold_measure:
  fixes \<mu> :: "'b \<Rightarrow> nat"
  assumes "efold f xs acc = Inr acc'" and "\<And>x a b. x \<in> set xs \<Longrightarrow> f x a = Inr b \<Longrightarrow> \<mu> b = \<mu> a"
  shows "\<mu> acc' = \<mu> acc"
  by (rule efold_inv [where P = "\<lambda>b. \<mu> b = \<mu> acc", OF assms(1)]) (use assms(2) in auto)

lemma expand_measure:
  assumes "expand x s d parent (seen, todo, result) = Inr (seen', todo', result')"
  shows "unseen x s d seen' + length todo' = unseen x s d seen + length todo"
proof -
  let ?\<mu> = "\<lambda>(seen, todo, result :: rkey list). unseen x s d seen + length (todo :: rkey list)"
  have "?\<mu> (seen', todo', result') = ?\<mu> (seen, todo, result)"
    using assms unfolding expand_def
  proof (rule efold_measure)
    fix mr a b
    assume mr: "mr \<in> set (model_relations s)" and e: "expand_relation x s d parent mr a = Inr b"
    obtain m r where m: "mr = (m, r)" "m \<in> set (s_models s)" using mr by (auto simp: model_relations_def)
    show "?\<mu> b = ?\<mu> a"
    proof (cases "r_target r \<noteq> k_model parent \<or> r_on_delete r \<noteq> ''delete''")
      case True
      with e m show ?thesis by (auto simp: expand_relation_def)
    next
      case False
      with e m obtain rows befores where
        r: "rows_matching x (m_name m) m (relation_filter parent r) d = Inr rows"
          "rows_matching x (before_table (m_name m)) m (relation_filter parent r) d = Inr befores"
          "efold (visit x s m) (map (identity_of_row m) (rows @ befores)) a = Inr b"
        by (auto simp: expand_relation_def bindE_Inr_iff split: if_splits)
      from r(3) show ?thesis
      proof (rule efold_measure)
        fix i a b
        assume i: "i \<in> set (map (identity_of_row m) (rows @ befores))" and v: "visit x s m i a = Inr b"
        have "k \<in> row_keys x s d" if "record_key x s (m_name m) i = Inr k" for k
          using i that rows_matching_keys [OF r(1) _ m(2)] rows_matching_keys [OF r(2) _ m(2)] by auto
        with v show "?\<mu> b = ?\<mu> a"
          by (cases a; cases b) (auto dest!: visit_measure [where d = d])
      qed
    qed
  qed
  then show ?thesis by simp
qed

function descend_loop ::
  "ext \<Rightarrow> schema \<Rightarrow> db \<Rightarrow> string list \<times> rkey list \<times> rkey list \<Rightarrow> rkey list res" where
  "descend_loop x s d (seen, [], result) = Inr result"
| "descend_loop x s d (seen, parent # todo, result) =
     bindE (expand x s d parent (seen, todo, result)) (descend_loop x s d)"
  by pat_completeness auto
termination
proof (relation "measure (\<lambda>(x, s, d, seen, todo, result). unseen x s d seen + length todo)", goal_cases)
  case (2 x s d seen parent todo result acc)
  obtain seen' todo' result' where "acc = (seen', todo', result')" by (cases acc)
  with expand_measure [of x s d parent seen todo result seen' todo' result'] 2 show ?case by auto
qed simp

definition descend :: "ext \<Rightarrow> schema \<Rightarrow> rkey \<Rightarrow> db \<Rightarrow> rkey list res" where
  "descend x s parent d = descend_loop x s d ([encoded x parent], [parent], [])"

definition descendants :: "ext \<Rightarrow> schema \<Rightarrow> rkey \<Rightarrow> rkey list eng" where
  "descendants x s parent = query_res (descend x s parent)"

definition delete_op :: "rkey \<Rightarrow> operation" where
  "delete_op k = \<lparr>o_model = k_model k, o_op = OpDelete, o_identity = k_identity k, o_values = None\<rparr>"

section \<open>Extending queued deletes\<close>

definition extend_delete :: "ext \<Rightarrow> schema \<Rightarrow> queued \<Rightarrow> rkey \<Rightarrow> unit eng" where
  "extend_delete x s q child =
     (if \<exists>e \<in> set (n_effects (q_mutation q)). o_model e = k_model child \<and> o_identity e = k_identity child
      then retM ()
      else bindM (hold_truth x s child)
        (\<lambda>_. bindM (add_effect x s (q_ordinal q) (delete_op child))
        (\<lambda>_. bindM (rebuild x s child) (\<lambda>_. retM ()))))"

definition refresh_one :: "ext \<Rightarrow> schema \<Rightarrow> queued \<Rightarrow> unit eng" where
  "refresh_one x s q =
     forM (\<lambda>op. bindM (liftM (record_key x s (o_model op) (o_identity op)))
         (\<lambda>parent. bindM (descendants x s parent) (forM (extend_delete x s q))))
       (filter (\<lambda>op. o_op op = OpDelete) (n_operations (q_mutation q) @ n_companion (q_mutation q)))"

definition refresh_pending :: "ext \<Rightarrow> schema \<Rightarrow> unit eng" where
  "refresh_pending x s = bindM (queued_all x) (forM (refresh_one x s))"

end
