(* ===== verification/Policies.thy ===== *)
theory Policies
  imports Mutate
begin

text \<open>
  \<open>crates/client/src/policies.rs\<close>: the dependencies and prerequisites a mutation gets from the
  schema and the queue when it is enqueued.
\<close>

section \<open>References\<close>

fun reference_identity :: "json \<Rightarrow> (string \<times> string) list \<Rightarrow> (string \<times> json) list \<Rightarrow> (string \<times> json) list option" where
  "reference_identity row [] acc = Some acc"
| "reference_identity row ((l, t) # lts) acc =
     (case get row l of None \<Rightarrow> None
      | Some v \<Rightarrow> if is_null v then None else reference_identity row lts (bt_ins t v acc))"

definition reference :: "ext \<Rightarrow> schema \<Rightarrow> rkey \<Rightarrow> string \<Rightarrow> rkey option eng" where
  "reference x s k name =
     bindM (liftM (bindE (model_of s (k_model k)) (\<lambda>m. ok_or
        (find (\<lambda>r. r_name r = name) (m_relations m)) (invalid ''unknown relation in dependency''))))
     (\<lambda>r. bindM (bindM (read_row x s k) (\<lambda>row. case row of Some v \<Rightarrow> retM (Some v) | None \<Rightarrow> truth x s k))
     (\<lambda>row. case row of None \<Rightarrow> retM None
      | Some v \<Rightarrow>
          (case reference_identity v (zip (r_fields r) (r_target_fields r)) [] of
             None \<Rightarrow> retM None
           | Some kvs \<Rightarrow> bindM (liftM (record_key x s (r_target r) (JObj kvs))) (\<lambda>t. retM (Some t)))))"

section \<open>Policies and their slots\<close>

definition policy_fn :: "schema \<Rightarrow> mutation \<Rightarrow> json option" where
  "policy_fn s m = find (\<lambda>p. index p ''name'' = JStr (n_name m)
       \<and> as_u64 (index p ''version'') = Some (n_version m)) (s_policies s)"

text \<open>The operations a slot takes from position \<open>at\<close>: one, or as many as match for a list.\<close>

fun slot_take :: "ext \<Rightarrow> schema \<Rightarrow> json \<Rightarrow> operation list \<Rightarrow> (rkey list \<times> operation list) res" where
  "slot_take x s slot [] = Inr ([], [])"
| "slot_take x s slot (op # ops) =
     (if index slot ''model'' \<noteq> JStr (o_model op) \<or> index slot ''operation'' \<noteq> JStr (op_text (o_op op))
      then Inr ([], op # ops)
      else bindE (record_key x s (o_model op) (o_identity op))
        (\<lambda>k. if index slot ''cardinality'' \<noteq> JStr ''list'' then Inr ([k], ops)
             else bindE (slot_take x s slot ops) (\<lambda>(ks, rest). Inr (k # ks, rest))))"

definition slot_step ::
  "ext \<Rightarrow> schema \<Rightarrow> json \<Rightarrow> (string \<times> rkey list) list \<times> operation list \<Rightarrow>
   ((string \<times> rkey list) list \<times> operation list) res" where
  "slot_step x s slot acc =
     bindE (ok_or (as_str (index slot ''name'')) (invalid ''slot name missing''))
     (\<lambda>name. bindE (slot_take x s slot (snd acc))
     (\<lambda>(ks, rest). Inr (bt_ins name ks (fst acc), rest)))"

definition slots :: "ext \<Rightarrow> schema \<Rightarrow> mutation \<Rightarrow> json \<Rightarrow> (string \<times> rkey list) list res" where
  "slots x s m policy =
     bindE (ok_or (as_array (index policy ''slots'')) (invalid ''client policy slots missing''))
     (\<lambda>vs. bindE (efold (slot_step x s) vs ([], n_operations m)) (\<lambda>acc. Inr (fst acc)))"

fun follow :: "ext \<Rightarrow> schema \<Rightarrow> string list \<Rightarrow> rkey \<Rightarrow> rkey option eng" where
  "follow x s [] k = retM (Some k)"
| "follow x s (part # parts) k =
     bindM (reference x s k part)
     (\<lambda>next. case next of None \<Rightarrow> retM None | Some k' \<Rightarrow> follow x s parts k')"

definition resolve_path :: "ext \<Rightarrow> schema \<Rightarrow> (string \<times> rkey list) list \<Rightarrow> string \<Rightarrow> rkey option eng" where
  "resolve_path x s slot_keys path =
     (let parts = split_on (\<lambda>c. c = CHR ''.'') path in
      case map_of slot_keys (hd parts) of
        Some [k] \<Rightarrow> follow x s (tl parts) k
      | _ \<Rightarrow> retM None)"

section \<open>Dependencies\<close>

definition prior_matches ::
  "ext \<Rightarrow> schema \<Rightarrow> operation \<Rightarrow> rkey \<Rightarrow> rkey list \<Rightarrow> operation \<Rightarrow> bool res" where
  "prior_matches x s op k references previous =
     bindE (record_key x s (o_model previous) (o_identity previous))
     (\<lambda>pk. Inr ((o_op previous = OpCreate \<and> pk \<in> set references)
        \<or> (o_op previous = OpDelete \<and> o_op op = OpCreate \<and> pk = k)))"

definition prior_lifecycle ::
  "ext \<Rightarrow> schema \<Rightarrow> operation \<Rightarrow> rkey \<Rightarrow> rkey list \<Rightarrow> queued \<Rightarrow> nat list \<Rightarrow> nat list res" where
  "prior_lifecycle x s op k references prior lifecycle =
     efold (\<lambda>previous acc. bindE (prior_matches x s op k references previous)
         (\<lambda>b. Inr (if b then bs_ins (q_ordinal prior) acc else acc)))
       (n_operations (q_mutation prior)) lifecycle"

definition requirement_key :: "ext \<Rightarrow> operation \<Rightarrow> requirement_desc \<Rightarrow> string option" where
  "requirement_key x op q =
     (case Option.bind (o_values op) (\<lambda>v. get v (q_field q)) of
        None \<Rightarrow> None
      | Some v \<Rightarrow> if is_null v then None
          else Some (canonical_json x (obj [(''name'', JStr (q_name q)),
            (''arguments'', obj (map (\<lambda>(k, _). (k, v)) (q_arguments q)))])))"

definition op_references :: "ext \<Rightarrow> schema \<Rightarrow> rkey \<Rightarrow> rkey list eng" where
  "op_references x s k =
     bindM (liftM (model_of s (k_model k)))
     (\<lambda>m. foldM (\<lambda>r acc. bindM (reference x s k (r_name r))
         (\<lambda>t. retM (case t of None \<Rightarrow> acc | Some t' \<Rightarrow> acc @ [t']))) (m_relations m) [k])"

definition derive_op ::
  "ext \<Rightarrow> schema \<Rightarrow> queued list \<Rightarrow> operation \<Rightarrow> nat list \<times> string list \<Rightarrow> (nat list \<times> string list) eng" where
  "derive_op x s queue op acc =
     bindM (liftM (record_key x s (o_model op) (o_identity op)))
     (\<lambda>k. bindM (op_references x s k)
     (\<lambda>references. bindM (liftM (efold (prior_lifecycle x s op k references) queue (fst acc)))
     (\<lambda>lifecycle. retM (lifecycle, snd acc @ List.map_filter (requirement_key x op)
        (filter (\<lambda>q. q_model q = o_model op) (s_requirements s))))))"

text \<open>One argument of a sequence reference: does the prior mutation's slot hold the same record?\<close>

fun arguments_match ::
  "ext \<Rightarrow> schema \<Rightarrow> (string \<times> rkey list) list \<Rightarrow> (string \<times> rkey list) list \<Rightarrow> (string \<times> json) list \<Rightarrow> bool eng" where
  "arguments_match x s current targets [] = retM True"
| "arguments_match x s current targets ((target, path) # args) =
     bindM (liftM (ok_or (as_str path) (invalid ''invalid sequence path'')))
     (\<lambda>p. bindM (resolve_path x s current p)
     (\<lambda>source. case (source, map_of targets target) of
         (Some k, Some ks) \<Rightarrow> if k \<in> set ks then arguments_match x s current targets args else retM False
       | _ \<Rightarrow> retM False))"

definition prior_sequence ::
  "ext \<Rightarrow> schema \<Rightarrow> (string \<times> rkey list) list \<Rightarrow> (string \<times> json) list \<Rightarrow> queued \<Rightarrow> nat list \<Rightarrow> nat list eng" where
  "prior_sequence x s current arguments prior acc =
     (case policy_fn s (q_mutation prior) of
        None \<Rightarrow> retM acc
      | Some policy \<Rightarrow>
          bindM (liftM (slots x s (q_mutation prior) policy))
          (\<lambda>targets. bindM (arguments_match x s current targets arguments)
          (\<lambda>b. retM (if b then bs_ins (q_ordinal prior) acc else acc))))"

definition sequence_reference ::
  "ext \<Rightarrow> schema \<Rightarrow> queued list \<Rightarrow> (string \<times> rkey list) list \<Rightarrow> json \<Rightarrow> nat list \<Rightarrow> nat list eng" where
  "sequence_reference x s queue current spec acc =
     bindM (liftM (ok_or (as_str (index spec ''name'')) (invalid ''invalid sequence descriptor'')))
     (\<lambda>name. bindM (liftM (ok_or (as_object (index spec ''arguments'')) (invalid ''invalid sequence arguments'')))
     (\<lambda>arguments. foldM (prior_sequence x s current arguments)
        (filter (\<lambda>q. n_name (q_mutation q) = name) queue) acc))"

definition derive_sequences :: "ext \<Rightarrow> schema \<Rightarrow> queued list \<Rightarrow> mutation \<Rightarrow> nat list eng" where
  "derive_sequences x s queue m =
     (let start = bs_of (n_sequence m) in
      case policy_fn s m of
        None \<Rightarrow> retM start
      | Some policy \<Rightarrow>
          bindM (liftM (slots x s m policy))
          (\<lambda>current. case as_array (index (index policy ''sequence'') ''after'') of
              None \<Rightarrow> retM start
            | Some specs \<Rightarrow> foldM (sequence_reference x s queue current) specs start))"

definition derive :: "ext \<Rightarrow> schema \<Rightarrow> mutation \<Rightarrow> mutation eng" where
  "derive x s m =
     bindM (queued_all x)
     (\<lambda>queue. bindM (foldM (derive_op x s queue) (n_operations m) (bs_of (n_lifecycle m), n_prerequisites m))
     (\<lambda>acc. let m' = m\<lparr>n_lifecycle := fst acc, n_prerequisites := bs_of (snd acc)\<rparr> in
        bindM (derive_sequences x s queue m') (\<lambda>sequences. retM (m'\<lparr>n_sequence := sequences\<rparr>))))"

end
