(* ===== verification/Enqueue.thy ===== *)
theory Enqueue
  imports Policies
begin

text \<open>
  The writes of \<open>crates/client/src/mutate.rs\<close>: enqueueing a mutation (its operations are applied to
  the visible rows at once and queued for the server) and a direct local write.
\<close>

text \<open>A child of a deleted record: hold its truth, delete its row, remember the effect.\<close>

definition delete_child :: "ext \<Rightarrow> schema \<Rightarrow> rkey \<Rightarrow> operation list \<Rightarrow> operation list eng" where
  "delete_child x s child effects =
     bindM (hold_truth x s child)
     (\<lambda>_. bindM (apply_main x s (delete_op child)) (\<lambda>_. retM (effects @ [delete_op child])))"

text \<open>One operation of the mutation: normalised, held, cascaded, applied.\<close>

definition enqueue_op ::
  "ext \<Rightarrow> schema \<Rightarrow> operation \<Rightarrow> operation list \<times> operation list \<Rightarrow> (operation list \<times> operation list) eng" where
  "enqueue_op x s op acc =
     bindM (liftM (normalize_op x s op))
     (\<lambda>op'. bindM (liftM (record_key x s (o_model op') (o_identity op')))
     (\<lambda>k. bindM (hold_truth x s k)
     (\<lambda>_. bindM (if o_op op' = OpDelete
            then bindM (descendants x s k) (\<lambda>children. foldM (delete_child x s) children (snd acc))
            else retM (snd acc))
     (\<lambda>effects. bindM (apply_main x s op')
     (\<lambda>_. retM (fst acc @ [op'], effects))))))"

definition check_dependency :: "ext \<Rightarrow> nat \<Rightarrow> unit eng" where
  "check_dependency x n = bindM (queued_one x n)
     (\<lambda>q. if q = None then failM (invalid ''unknown mutation dependency'') else retM ())"

definition enqueue :: "ext \<Rightarrow> schema \<Rightarrow> mutation \<Rightarrow> nat eng" where
  "enqueue x s m =
     bindM (liftM (ensure (\<not> (blank (n_name m) \<or> n_version m = 0 \<or> n_operations m = []))
       (invalid ''invalid named mutation'')))
     (\<lambda>_. bindM (forM (check_dependency x) (n_lifecycle m @ n_sequence m))
     (\<lambda>_. bindM (foldM (enqueue_op x s) (n_operations m @ n_companion m) ([], []))
     (\<lambda>(ops, effects).
        let wire = length (n_operations m) in
        bindM (derive x s (m\<lparr>n_operations := take wire ops, n_companion := drop wire ops,
           n_effects := effects\<rparr>))
        (\<lambda>m'. bindM allocate_ordinal
        (\<lambda>ordinal. bindM (insert_mutation x s ordinal m') (\<lambda>_. retM ordinal))))))"

definition direct_one :: "ext \<Rightarrow> schema \<Rightarrow> operation \<Rightarrow> unit eng" where
  "direct_one x s op =
     bindM (liftM (record_key x s (o_model op) (o_identity op)))
     (\<lambda>k. bindM (dirty_record x k)
     (\<lambda>dirty. bindM (apply_main x s op)
     (\<lambda>_. if \<not> dirty then retM ()
        else bindM (before_get x s k)
          (\<lambda>held. if held = None \<and> o_op op \<noteq> OpCreate then retM ()
             else if o_op op = OpDelete then before_set x s k None
             else (case apply_to_row op held of
                 Inr row \<Rightarrow> before_set x s k row
               | Inl _ \<Rightarrow> bindM (read_row x s k) (before_set x s k))))))"

definition direct :: "ext \<Rightarrow> schema \<Rightarrow> operation \<Rightarrow> unit eng" where
  "direct x s op =
     bindM (liftM (normalize_op x s op))
     (\<lambda>op'. bindM (liftM (record_key x s (o_model op') (o_identity op')))
     (\<lambda>k. bindM (if o_op op' = OpDelete
           then bindM (descendants x s k) (forM (\<lambda>child. direct_one x s (delete_op child)))
           else retM ())
     (\<lambda>_. direct_one x s op')))"

definition unsubscribe :: "string \<Rightarrow> unit eng" where
  "unsubscribe channel = delete_subscription channel"

end
