(* ===== verification/Authority.thy ===== *)
theory Authority
  imports Enqueue
begin

text \<open>
  \<open>crates/client/src/authority.rs\<close>: one applier for authoritative records, whichever path
  delivered them. Staging threads the transaction and the held keys together, since a record
  that fails leaves the keys it held (its writes are undone by its savepoint).
\<close>

section \<open>Reports\<close>

datatype report_kind = ReadFailed | Skipped | ReportConflict | Diverged

record report =
  t_kind :: report_kind
  t_model :: string
  t_identity :: json
  t_stamp :: nat
  t_code :: "string option"
  t_ordinal :: "nat option"
  t_detail :: json

definition report_new :: "report_kind \<Rightarrow> string \<Rightarrow> json \<Rightarrow> nat \<Rightarrow> report" where
  "report_new kind model identity stamp = \<lparr>t_kind = kind, t_model = model, t_identity = identity,
     t_stamp = stamp, t_code = None, t_ordinal = None, t_detail = JNull\<rparr>"

record apply_report =
  y_applied :: nat
  y_stale :: bool
  y_cursors :: "(string \<times> nat) list"
  y_reports :: "report list"

definition report_default :: apply_report where
  "report_default = \<lparr>y_applied = 0, y_stale = False, y_cursors = [], y_reports = []\<rparr>"

definition report_count :: "report_kind \<Rightarrow> apply_report \<Rightarrow> nat" where
  "report_count kind r = length (filter (\<lambda>t. t_kind t = kind) (y_reports r))"

section \<open>Staging\<close>

datatype disposition = Applied | Older | Same | Conflict "json option" "json option"

type_synonym held = "(string \<times> rkey) list"

type_synonym 'a staging = "(work \<times> held, err, 'a) comp"

definition on_work :: "'a eng \<Rightarrow> 'a staging" where
  "on_work m wh = (case m (fst wh) of (r, w) \<Rightarrow> (r, (w, snd wh)))"

definition hold_key :: "ext \<Rightarrow> rkey \<Rightarrow> unit staging" where
  "hold_key x k = modifyM (\<lambda>(w, h). (w, bt_ins (encoded x k) k h))"

definition stage_one :: "ext \<Rightarrow> schema \<Rightarrow> rkey \<Rightarrow> json option \<Rightarrow> unit staging" where
  "stage_one x s k v = bindM (on_work (dirty_record x k))
     (\<lambda>dirty. if dirty then bindM (on_work (before_set x s k v)) (\<lambda>_. hold_key x k)
        else on_work (main_set x s k v))"

definition incoming_row :: "ext \<Rightarrow> schema \<Rightarrow> rkey \<Rightarrow> authority \<Rightarrow> json option res" where
  "incoming_row x s k r =
     (if is_null (a_state r) then Inr None
      else bindE (validate_state x s (a_model r) (a_state r))
        (\<lambda>state. Inr (Some (merge_identity (k_identity k) state))))"

definition stage_authority :: "ext \<Rightarrow> schema \<Rightarrow> authority \<Rightarrow> disposition staging" where
  "stage_authority x s r =
     bindM (liftM (record_key x s (a_model r) (a_identity r)))
     (\<lambda>k. bindM (liftM (incoming_row x s k r))
     (\<lambda>incoming. bindM (on_work (record_stamp x k))
     (\<lambda>local. if a_stamp r < local then retM Older
        else if a_stamp r = local then
          bindM (on_work (truth x s k))
          (\<lambda>current. retM (if current = incoming then Same else Conflict current incoming))
        else
          bindM (stage_one x s k incoming)
          (\<lambda>_. bindM (if incoming = None
              then bindM (on_work (descendants x s k)) (forM (\<lambda>child. stage_one x s child None))
              else retM ())
          (\<lambda>_. bindM (on_work (set_record_stamp x k (a_stamp r))) (\<lambda>_. retM Applied))))))"

definition option_json :: "json option \<Rightarrow> json" where
  "option_json v = (case v of None \<Rightarrow> JNull | Some w \<Rightarrow> w)"

definition record_report :: "report_kind \<Rightarrow> authority \<Rightarrow> report" where
  "record_report kind r = report_new kind (a_model r) (a_identity r) (a_stamp r)"

fun staged_report :: "authority \<Rightarrow> err + disposition \<Rightarrow> bool \<times> report option" where
  "staged_report r (Inr Applied) = (True, None)"
| "staged_report r (Inr Older) = (False, None)"
| "staged_report r (Inr Same) = (False, None)"
| "staged_report r (Inr (Conflict local incoming)) = (False, Some ((record_report ReportConflict r)
     \<lparr>t_detail := obj [(''local'', option_json local), (''incoming'', option_json incoming)]\<rparr>))"
| "staged_report r (Inl e) = (False, Some ((record_report Skipped r)
     \<lparr>t_detail := obj [(''error'', JStr (err_text e))]\<rparr>))"

definition stage_isolated :: "ext \<Rightarrow> schema \<Rightarrow> authority \<Rightarrow> (bool \<times> report option) staging" where
  "stage_isolated x s r =
     (case a_error r of
        Some code \<Rightarrow> retM (False, Some ((record_report ReadFailed r)\<lparr>t_code := Some code\<rparr>))
      | None \<Rightarrow>
          bindM (on_work (savepoint ''record''))
          (\<lambda>_. bindM (tryM (stage_authority x s r))
          (\<lambda>staged. bindM (on_work (case staged of
                Inr _ \<Rightarrow> release x ''record'' | Inl _ \<Rightarrow> rollback_to x ''record''))
          (\<lambda>_. retM (staged_report r staged)))))"

section \<open>Deliveries\<close>

definition rebuild_one :: "ext \<Rightarrow> schema \<Rightarrow> rkey \<Rightarrow> report list \<Rightarrow> report list eng" where
  "rebuild_one x s k reports =
     bindM (rebuild x s k)
     (\<lambda>failed. case failed of
         None \<Rightarrow> retM reports
       | Some n \<Rightarrow> bindM (record_stamp x k)
           (\<lambda>stamp. retM (reports @
              [(report_new Diverged (k_model k) (k_identity k) stamp)\<lparr>t_ordinal := Some n\<rparr>])))"

definition rebuild_held :: "ext \<Rightarrow> schema \<Rightarrow> held \<Rightarrow> report list eng" where
  "rebuild_held x s h =
     bindM (foldM (rebuild_one x s) (map snd h) [])
     (\<lambda>reports. bindM (refresh_pending x s) (\<lambda>_. retM reports))"

definition add_staged :: "bool \<times> report option \<Rightarrow> apply_report \<Rightarrow> apply_report" where
  "add_staged be rep = rep\<lparr>y_applied := y_applied rep + (if fst be then 1 else 0),
     y_reports := y_reports rep @ (case snd be of None \<Rightarrow> [] | Some t \<Rightarrow> [t])\<rparr>"

definition stage_all :: "ext \<Rightarrow> schema \<Rightarrow> authority list \<Rightarrow> apply_report staging" where
  "stage_all x s rs = foldM (\<lambda>r rep. bindM (stage_isolated x s r) (\<lambda>be. retM (add_staged be rep)))
     rs report_default"

text \<open>A staging run from the empty set of held keys, which it gives back beside its value.\<close>

definition with_held :: "held \<Rightarrow> 'a staging \<Rightarrow> ('a \<times> held) eng" where
  "with_held h m w = (case m (w, h) of
     (Inl e, (w', _)) \<Rightarrow> (Inl e, w') | (Inr a, (w', h')) \<Rightarrow> (Inr (a, h'), w'))"

definition apply_records :: "ext \<Rightarrow> schema \<Rightarrow> authority list \<Rightarrow> apply_report eng" where
  "apply_records x s rs =
     bindM (with_held [] (stage_all x s rs))
     (\<lambda>(rep, h). bindM (rebuild_held x s h)
     (\<lambda>more. retM (rep\<lparr>y_reports := y_reports rep @ more\<rparr>)))"

end
