(* ===== verification/Push.thy ===== *)
theory Push
  imports Authority
begin

text \<open>
  \<open>crates/client/src/push.rs\<close>: freezing a batch of queued mutations and completing it from its
  receipt.
\<close>

section \<open>Freezing\<close>

definition declared_models :: "schema \<Rightarrow> (string \<times> nat) list" where
  "declared_models s = bt_of (map (\<lambda>m. (m_name m, m_version m)) (s_models s))"

definition client_id :: "string eng" where
  "client_id = query (\<lambda>d. case d_client d of None \<Rightarrow> [] | Some c \<Rightarrow> cl_id c)"

definition act_json :: "queued \<Rightarrow> json" where
  "act_json q = obj [(''ordinal'', jnat (q_ordinal q)), (''name'', JStr (n_name (q_mutation q))),
     (''version'', jnat (n_version (q_mutation q))),
     (''operations'', JArr (map operation_json (n_operations (q_mutation q))))]"

definition request_of :: "string \<Rightarrow> nat \<Rightarrow> json \<Rightarrow> queued list \<Rightarrow> json" where
  "request_of client push models qs = obj [(''clientId'', JStr client), (''batchSequence'', jnat push),
     (''models'', models), (''mutations'', JArr (map act_json qs))]"

definition request_json :: "nat \<Rightarrow> json \<Rightarrow> queued list \<Rightarrow> json eng" where
  "request_json push models qs = bindM client_id (\<lambda>c. retM (request_of c push models qs))"

definition encode_push :: "ext \<Rightarrow> nat \<Rightarrow> string eng" where
  "encode_push x push =
     bindM (queued_all x)
     (\<lambda>qs. bindM (push_models x)
     (\<lambda>frozen. bindM (liftM (ok_or frozen (invalid ''push in flight has no frozen declaration'')))
     (\<lambda>models. bindM (request_json push models (filter (\<lambda>q. q_push q = Some push) qs))
     (\<lambda>request. bindM (liftM (push_decode x (canonical_json x request)))
     (\<lambda>r. retM (push_encode x r))))))"

text \<open>
  The selection loop: \<open>blocked\<close> are the keys of prerequisites still pending or failed, \<open>unsent\<close>
  the ordinals not in a batch, \<open>weight\<close> the byte length of a candidate batch.
\<close>

definition is_blocked :: "string list \<Rightarrow> nat list \<Rightarrow> nat list \<Rightarrow> queued \<Rightarrow> bool" where
  "is_blocked blocked unsent chosen q \<longleftrightarrow>
     (\<exists>k \<in> set (n_prerequisites (q_mutation q)). k \<in> set blocked) \<or>
     (\<exists>d \<in> set (n_lifecycle (q_mutation q)). d \<in> set unsent) \<or>
     (\<exists>d \<in> set (n_sequence (q_mutation q)). d \<in> set unsent \<and> d \<notin> set chosen)"

fun select_batch ::
  "string list \<Rightarrow> nat list \<Rightarrow> (queued list \<Rightarrow> nat) \<Rightarrow> nat \<Rightarrow> queued list \<Rightarrow> queued list \<Rightarrow> queued list" where
  "select_batch blocked unsent weight max_bytes [] selected = selected"
| "select_batch blocked unsent weight max_bytes (q # qs) selected =
     (if is_blocked blocked unsent (map q_ordinal selected) q
        \<or> (selected \<noteq> [] \<and> max_bytes < weight (selected @ [q]))
      then select_batch blocked unsent weight max_bytes qs selected
      else if length selected + 1 = push_mutations then selected @ [q]
      else select_batch blocked unsent weight max_bytes qs (selected @ [q]))"

definition next_push :: "nat eng" where
  "next_push = query (\<lambda>d. case d_client d of None \<Rightarrow> 1 | Some c \<Rightarrow> cl_next_push c)"

definition freeze :: "ext \<Rightarrow> schema \<Rightarrow> nat \<Rightarrow> string option eng" where
  "freeze x s max_bytes =
     (if max_bytes = 0 then retM None
      else bindM in_flight_push (\<lambda>flying. case flying of
          Some push \<Rightarrow> bindM (encode_push x push) (\<lambda>b. retM (Some b))
        | None \<Rightarrow>
            bindM (queued_all x)
            (\<lambda>queue. bindM prerequisite_keys
            (\<lambda>pre. bindM next_push
            (\<lambda>n. bindM client_id
            (\<lambda>c. let free = filter (\<lambda>q. q_push q = None) queue;
                   models = counters_json (declared_models s);
                   selected = select_batch (map fst pre) (map q_ordinal free)
                     (\<lambda>qs. length (canonical_json x (request_of c n models qs))) max_bytes free [] in
               if selected = [] then retM None
               else bindM allocate_push
                 (\<lambda>push. bindM (assign_push (map q_ordinal selected) push)
                 (\<lambda>_. bindM (set_push_models x models)
                 (\<lambda>_. bindM (encode_push x push) (\<lambda>b. retM (Some b)))))))))))"

section \<open>Rejection\<close>

definition all_ops :: "mutation \<Rightarrow> operation list" where
  "all_ops m = n_operations m @ n_companion m @ n_effects m"

text \<open>
  The closure of the rejected ordinals under lifecycle dependencies: each round adds the queued
  mutations that depend on a rejected one. A round that adds something leaves fewer queued
  mutations outside, so there are at most as many rounds as queued mutations.
\<close>

definition dependents :: "queued list \<Rightarrow> (nat \<times> string) list \<Rightarrow> nat list" where
  "dependents queue rejected = map q_ordinal (filter (\<lambda>q.
     map_of rejected (q_ordinal q) = None \<and>
     (\<exists>d \<in> set (n_lifecycle (q_mutation q)). map_of rejected d \<noteq> None)) queue)"

definition reject_all :: "nat list \<Rightarrow> (nat \<times> string) list \<Rightarrow> (nat \<times> string) list" where
  "reject_all ids rejected = fold (\<lambda>n. bt_ins n ''dependency.rejected'') ids rejected"

definition outside :: "queued list \<Rightarrow> (nat \<times> string) list \<Rightarrow> nat" where
  "outside queue rejected = length (filter (\<lambda>q. map_of rejected (q_ordinal q) = None) queue)"

lemma map_of_reject_all:
  "map_of (reject_all ids rejected) n = (if n \<in> set ids then Some ''dependency.rejected'' else map_of rejected n)"
proof -
  have "map_of (fold (\<lambda>n. bt_ins n ''dependency.rejected'') ids m) n =
      (if n \<in> set ids then Some ''dependency.rejected'' else map_of m n)" for m
    by (induction ids arbitrary: m) auto
  then show ?thesis by (simp add: reject_all_def)
qed

lemma length_filter_strict:
  "x \<in> set xs \<Longrightarrow> P x \<Longrightarrow> \<not> Q x \<Longrightarrow> (\<And>y. Q y \<Longrightarrow> P y) \<Longrightarrow> length (filter Q xs) < length (filter P xs)"
proof (induction xs)
  case (Cons a xs)
  have le: "length (filter Q xs) \<le> length (filter P xs)"
    using Cons.prems(4) by (induction xs) (auto intro: le_SucI)
  show ?case
  proof (cases "a = x")
    case True
    with Cons.prems le show ?thesis by simp
  next
    case False
    with Cons have "length (filter Q xs) < length (filter P xs)" by simp
    with Cons.prems(4) [of a] show ?thesis by auto
  qed
qed simp

function reject_closure :: "queued list \<Rightarrow> (nat \<times> string) list \<Rightarrow> (nat \<times> string) list" where
  "reject_closure queue rejected =
     (let more = dependents queue rejected in
      if more = [] then rejected else reject_closure queue (reject_all more rejected))"
  by pat_completeness auto
termination
proof (relation "measure (\<lambda>(queue, rejected). outside queue rejected)", goal_cases)
  case (2 queue rejected more)
  then obtain q where "q \<in> set queue" "map_of rejected (q_ordinal q) = None" "q_ordinal q \<in> set more"
    by (fastforce simp: dependents_def filter_empty_conv)
  then show ?case
    by (auto simp: outside_def map_of_reject_all intro!: length_filter_strict split: if_splits)
qed simp

declare reject_closure.simps [simp del]

definition keys_held :: "ext \<Rightarrow> schema \<Rightarrow> operation list \<Rightarrow> held \<Rightarrow> held res" where
  "keys_held x s ops h = efold (\<lambda>op acc.
     bindE (record_key x s (o_model op) (o_identity op)) (\<lambda>k. Inr (bt_ins (encoded x k) k acc))) ops h"

definition rejection_detail :: "queued \<Rightarrow> string \<Rightarrow> json" where
  "rejection_detail q code = obj [(''ordinal'', jnat (q_ordinal q)), (''code'', JStr code),
     (''mutation'', mutation_json (q_mutation q)),
     (''records'', JArr (map (\<lambda>op. obj [(''model'', JStr (o_model op)), (''identity'', o_identity op)])
        (all_ops (q_mutation q))))]"

definition reject_one :: "ext \<Rightarrow> schema \<Rightarrow> (nat \<times> string) list \<Rightarrow> queued \<Rightarrow> held \<Rightarrow> held eng" where
  "reject_one x s rejected q affected =
     (let code = the (map_of rejected (q_ordinal q)) in
      bindM (liftM (keys_held x s (all_ops (q_mutation q)) affected))
      (\<lambda>affected'. bindM (insert_rejection x (q_ordinal q) (n_name (q_mutation q)) code (rejection_detail q code))
      (\<lambda>_. retM affected')))"

definition mark_rejected :: "ext \<Rightarrow> schema \<Rightarrow> rejection list \<Rightarrow> held eng" where
  "mark_rejected x s rs =
     bindM (queued_all x)
     (\<lambda>queue. let rejected = reject_closure queue (bt_of (map (\<lambda>r. (j_ordinal r, j_code r)) rs)) in
        bindM (foldM (reject_one x s rejected)
          (filter (\<lambda>q. map_of rejected (q_ordinal q) \<noteq> None) queue) [])
        (\<lambda>affected. bindM (delete_mutations (bt_keys rejected)) (\<lambda>_. retM affected)))"

definition remove_rejected :: "ext \<Rightarrow> schema \<Rightarrow> rejection list \<Rightarrow> unit eng" where
  "remove_rejected x s rs =
     bindM (mark_rejected x s rs) (\<lambda>affected. bindM (rebuild_held x s affected) (\<lambda>_. retM ()))"

section \<open>Acknowledgement\<close>

definition encoded_keys :: "ext \<Rightarrow> schema \<Rightarrow> (string \<times> json) list \<Rightarrow> string list res" where
  "encoded_keys x s mis = efold (\<lambda>(m, i) acc.
     bindE (record_key x s m i) (\<lambda>k. Inr (bs_ins (encoded x k) acc))) mis []"

text \<open>A companion delete outside the batch's wire records brings the deletes of its descendants.\<close>

definition companion_children :: "ext \<Rightarrow> schema \<Rightarrow> string list \<Rightarrow> operation \<Rightarrow> operation list \<Rightarrow> operation list eng" where
  "companion_children x s wire op ops =
     (if o_op op \<noteq> OpDelete then retM ops
      else bindM (liftM (record_key x s (o_model op) (o_identity op)))
        (\<lambda>k. if encoded x k \<in> set wire then retM ops
          else bindM (descendants x s k) (\<lambda>children. retM (ops @ map delete_op children))))"

definition settle_companion ::
  "ext \<Rightarrow> schema \<Rightarrow> string list \<Rightarrow> string list \<Rightarrow> operation \<Rightarrow> held \<Rightarrow> held eng" where
  "settle_companion x s wire covered op affected =
     bindM (liftM (record_key x s (o_model op) (o_identity op)))
     (\<lambda>k. if encoded x k \<in> set wire \<or> encoded x k \<in> set covered then retM affected
        else bindM (before_get x s k)
          (\<lambda>held. bindM (case apply_to_row op held of
              Inr row \<Rightarrow> before_set x s k row | Inl _ \<Rightarrow> retM ())
          (\<lambda>_. retM (bt_ins (encoded x k) k affected))))"

definition settle_mutation ::
  "ext \<Rightarrow> schema \<Rightarrow> string list \<Rightarrow> string list \<Rightarrow> queued \<Rightarrow> held \<Rightarrow> held eng" where
  "settle_mutation x s wire covered q affected =
     bindM (foldM (companion_children x s wire) (n_companion (q_mutation q)) (n_companion (q_mutation q)))
     (\<lambda>ops. foldM (settle_companion x s wire covered) ops affected)"

definition with_batch :: "nat \<Rightarrow> report \<Rightarrow> report" where
  "with_batch sequence t = (case t_detail t of
     JObj kvs \<Rightarrow> t\<lparr>t_detail := JObj (bt_ins ''batch'' (jnat sequence) kvs)\<rparr> | _ \<Rightarrow> t)"

definition stage_receipt :: "ext \<Rightarrow> schema \<Rightarrow> nat \<Rightarrow> authority list \<Rightarrow> apply_report staging" where
  "stage_receipt x s sequence rs = foldM (\<lambda>r rep.
     bindM (stage_isolated x s r)
     (\<lambda>(applied, entry). retM (add_staged (applied, map_option (with_batch sequence) entry) rep)))
     rs report_default"

text \<open>The checks before anything is written: who and what the receipt answers, what it covers.\<close>

definition check_receipt :: "nat \<Rightarrow> receipt \<Rightarrow> nat option eng" where
  "check_receipt sequence r =
     bindM (liftM (ensure (p_batch r = sequence) (invalid ''receipt answers another batch'')))
     (\<lambda>_. bindM client_id
     (\<lambda>c. bindM (liftM (ensure (p_client r = c) (invalid ''receipt answers another client'')))
     (\<lambda>_. bindM last_completed_push
     (\<lambda>last. if sequence \<le> last then retM None
        else bindM in_flight_push
          (\<lambda>flying. bindM (liftM (ok_or flying (invalid ''unknown batch receipt'')))
          (\<lambda>push. bindM (liftM (ensure (push = sequence)
                (invalid ''receipt does not answer the push in flight'')))
          (\<lambda>_. retM (Some push))))))))"

definition batch_of :: "ext \<Rightarrow> nat \<Rightarrow> queued list eng" where
  "batch_of x push = bindM (queued_all x) (\<lambda>qs. retM (filter (\<lambda>q. q_push q = Some push) qs))"

definition accepted_of :: "receipt \<Rightarrow> queued list \<Rightarrow> queued list" where
  "accepted_of r qs = filter (\<lambda>q. q_ordinal q \<notin> j_ordinal ` set (p_rejections r)) qs"

definition op_key :: "operation \<Rightarrow> string \<times> json" where
  "op_key op = (o_model op, o_identity op)"

definition check_coverage :: "ext \<Rightarrow> schema \<Rightarrow> receipt \<Rightarrow> queued list \<Rightarrow> (string list \<times> string list) res" where
  "check_coverage x s r qs =
     bindE (ensure (\<forall>j \<in> set (p_rejections r). j_ordinal j \<in> q_ordinal ` set qs)
       (invalid ''rejection ordinal not in batch''))
     (\<lambda>_. bindE (encoded_keys x s (map (\<lambda>a. (a_model a, a_identity a)) (p_records r)))
     (\<lambda>covered. bindE (encoded_keys x s (map op_key
           (concat (map (\<lambda>q. n_operations (q_mutation q)) (accepted_of r qs)))))
     (\<lambda>wire. (case find (\<lambda>k. k \<notin> set covered) wire of
         Some missing \<Rightarrow> Inl (invalid (''receipt omits the authority of accepted record '' @ missing))
       | None \<Rightarrow> Inr (wire, covered)))))"

definition acknowledge :: "ext \<Rightarrow> schema \<Rightarrow> nat \<Rightarrow> receipt \<Rightarrow> apply_report eng" where
  "acknowledge x s sequence r =
     bindM (check_receipt sequence r)
     (\<lambda>flying. case flying of None \<Rightarrow> retM (report_default\<lparr>y_stale := True\<rparr>)
      | Some push \<Rightarrow>
          bindM (batch_of x push)
          (\<lambda>qs. bindM (liftM (check_coverage x s r qs))
          (\<lambda>(wire, covered).
             bindM (liftM (keys_held x s (concat (map (\<lambda>q. all_ops (q_mutation q)) qs)) []))
             (\<lambda>affected. bindM (foldM (settle_mutation x s wire covered) (accepted_of r qs) affected)
             (\<lambda>affected'. bindM (with_held affected' (stage_receipt x s sequence (p_records r)))
             (\<lambda>(rep, held). bindM (mark_rejected x s (p_rejections r))
             (\<lambda>rejected_keys. bindM (delete_mutations (map q_ordinal (accepted_of r qs)))
             (\<lambda>_. bindM (rebuild_held x s (fold (\<lambda>(e, k). bt_ins e k) rejected_keys held))
             (\<lambda>more. bindM (set_last_completed_push push)
             (\<lambda>_. retM (rep\<lparr>y_reports := y_reports rep @ more\<rparr>)))))))))))"

end
