(* ===== verification/Frames.thy ===== *)
theory Frames
  imports Push
begin

text \<open>
  What the engine's operations leave alone. A relation between databases is kept by every
  operation whose statements keep it; the locales collect the operations level by level (reads,
  row operations, the queue, staging, the whole engine), and a relation is interpreted in the
  strongest locale whose statements it allows.
\<close>

definition on_db :: "(db \<Rightarrow> db \<Rightarrow> bool) \<Rightarrow> work \<Rightarrow> work \<Rightarrow> bool" where
  "on_db Q w w' \<longleftrightarrow> w_saves w' = w_saves w \<and> Q (w_db w) (w_db w')"

locale kept_db =
  fixes Q :: "db \<Rightarrow> db \<Rightarrow> bool"
  assumes q_refl: "Q d d" and q_trans: "Q d e \<Longrightarrow> Q e f \<Longrightarrow> Q d f"
begin

sublocale kept "on_db Q"
  by unfold_locales (auto simp: on_db_def intro: q_refl q_trans)

lemma keeps_exec: "(\<And>d d'. f d = Inr d' \<Longrightarrow> Q d d') \<Longrightarrow> keeps (on_db Q) (exec t f)"
  by (auto simp: keeps_def exec_def on_db_def Let_def intro: q_refl split: sum.splits)

lemma keeps_exec_all: "(\<And>d. Q d (f d)) \<Longrightarrow> keeps (on_db Q) (exec_all t f)"
  unfolding exec_all_def by (rule keeps_exec) auto

lemma keeps_mark: "keeps (on_db Q) (mark_changed t)"
  by (auto simp: keeps_def mark_changed_def on_db_def intro: q_refl)

lemma keeps_reads: "keeps (on_db Q) (query q)" "keeps (on_db Q) (query_res p)"
  unfolding query_def query_res_def by (intro keeps_pure)+

lemma keeps_orelse: "keeps (on_db Q) m \<Longrightarrow> keeps (on_db Q) h \<Longrightarrow> keeps (on_db Q) (orelseM m h)"
  unfolding keeps_def orelseM_def by (fastforce split: prod.splits sum.splits intro: trans)

lemma keeps_read_ops:
  "keeps (on_db Q) (record_stamp x k)" "keeps (on_db Q) (cursor c)" "keeps (on_db Q) subscriptions"
  "keeps (on_db Q) (row_get x t m i)" "keeps (on_db Q) (read_row x s k)" "keeps (on_db Q) (before_get x s k)"
  "keeps (on_db Q) (dirty_record x k)" "keeps (on_db Q) (descendants x s k)" "keeps (on_db Q) (ops_for x k)"
  "keeps (on_db Q) (queued_all x)" "keeps (on_db Q) (queued_one x n)" "keeps (on_db Q) current_client"
  "keeps (on_db Q) in_flight_push" "keeps (on_db Q) (push_models x)" "keeps (on_db Q) prerequisite_keys"
  "keeps (on_db Q) client_id" "keeps (on_db Q) next_push" "keeps (on_db Q) (request_json p v qs)"
  unfolding record_stamp_def cursor_def subscriptions_def row_get_def read_row_def before_get_def
    dirty_record_def descendants_def ops_for_def queued_all_def queued_one_def current_client_def
    in_flight_push_def push_models_def prerequisite_keys_def client_id_def next_push_def request_json_def
  by (intro keeps_reads keeps_rules)+

lemma keeps_truth: "keeps (on_db Q) (truth x s k)"
  unfolding truth_def by (intro keeps_read_ops keeps_rules)

lemmas keeps_base = keeps_truth keeps_read_ops keeps_reads keeps_mark keeps_orelse

lemma keeps_follow: "keeps (on_db Q) (reference x s k n)" "keeps (on_db Q) (follow x s parts k)"
proof -
  show ref: "keeps (on_db Q) (reference x s k n)" for k n
    unfolding reference_def by (intro keeps_base keeps_rules)
  show "keeps (on_db Q) (follow x s parts k)"
  proof (induction parts arbitrary: k)
    case Nil
    show ?case unfolding follow.simps by (rule keeps_pure)
  next
    case (Cons part parts)
    show ?case unfolding follow.simps by (intro ref Cons keeps_rules)
  qed
qed

lemma keeps_resolve_path: "keeps (on_db Q) (resolve_path x s ks path)"
proof (cases "map_of ks (hd (split_on (\<lambda>c. c = CHR ''.'') path))")
  case None
  then show ?thesis by (simp only: resolve_path_def Let_def option.case keeps_pure)
next
  case (Some keys)
  then show ?thesis
    by (cases keys; cases "tl keys")
       (simp_all only: resolve_path_def Let_def option.case list.case list.sel keeps_pure keeps_follow)
qed

lemma keeps_arguments: "keeps (on_db Q) (arguments_match x s current targets args)"
proof (induction args)
  case Nil
  show ?case unfolding arguments_match.simps by (rule keeps_pure)
next
  case (Cons tp args)
  obtain t p where "tp = (t, p)" by fastforce
  then show ?case unfolding arguments_match.simps
    by (simp only: arguments_match.simps prod.case) (intro keeps_resolve_path Cons keeps_rules)
qed

lemma keeps_derive: "keeps (on_db Q) (derive x s m)"
  unfolding derive_def derive_op_def op_references_def derive_sequences_def sequence_reference_def
    prior_sequence_def
  by (intro keeps_follow keeps_arguments keeps_base keeps_rules)

end

locale kept_rows = kept_db +
  assumes q_insert: "table_insert x ix m vals (d_tables d n) = Inr t \<Longrightarrow>
      Q d (d\<lparr>d_tables := (d_tables d)(n := t)\<rparr>)"
    and q_upsert: "table_upsert x ix m vals (d_tables d n) = Inr t \<Longrightarrow>
      Q d (d\<lparr>d_tables := (d_tables d)(n := t)\<rparr>)"
    and q_remove: "Q d (d\<lparr>d_tables := (d_tables d)(n := al_del key (d_tables d n))\<rparr>)"
    and q_copy: "map_of (d_tables d n) key = None \<Longrightarrow>
      Q d (d\<lparr>d_tables := (d_tables d)(n := d_tables d n @ [(key, vals)])\<rparr>)"
begin

lemma keeps_row_ops:
  "keeps (on_db Q) (row_insert x t m r)" "keeps (on_db Q) (row_upsert x t m r)"
  "keeps (on_db Q) (row_delete x t m i)"
  unfolding row_insert_def row_upsert_def row_delete_def
  by (rule keeps_exec, auto simp: on_table_def bindE_Inr_iff intro: q_insert q_upsert q_remove)+

lemma keeps_copy: "keeps (on_db Q) (copy_aside x m i)"
  unfolding copy_aside_def Let_def
  by (rule keeps_exec_all) (auto intro: q_copy q_refl split: option.splits)

lemma keeps_sets: "keeps (on_db Q) (main_set x s k v)" "keeps (on_db Q) (before_set x s k v)"
  unfolding main_set_def before_set_def by (intro keeps_row_ops keeps_rules)+

lemma keeps_hold: "keeps (on_db Q) (hold_truth x s k)"
  unfolding hold_truth_def by (intro keeps_copy keeps_base keeps_rules)

lemma keeps_apply: "keeps (on_db Q) (apply_main x s op)"
  unfolding apply_main_def
  by (cases "o_op op") (simp; intro keeps_row_ops keeps_base keeps_rules)+

lemma keeps_direct_one: "keeps (on_db Q) (direct_one x s op)"
  unfolding direct_one_def by (intro keeps_apply keeps_sets keeps_base keeps_rules)

lemma keeps_direct: "keeps (on_db Q) (direct x s op)"
  unfolding direct_def by (intro keeps_direct_one keeps_base keeps_rules)

lemmas keeps_row_level = keeps_direct keeps_apply keeps_hold keeps_sets keeps_copy keeps_row_ops

end

locale kept_queue = kept_rows +
  assumes q_effect: "or_kind r = ''effect'' \<Longrightarrow> insert_operation_row x np r d = Inr d' \<Longrightarrow> Q d d'"
    and q_diverged: "Q d (update_mutation n (\<lambda>r. r\<lparr>mr_diverged := True\<rparr>) d)"
begin

lemma keeps_add_effect: "keeps (on_db Q) (add_effect x s n op)"
  unfolding add_effect_def insert_op_def
  by (intro keeps_exec keeps_base keeps_rules) (erule q_effect [rotated], simp)

lemma keeps_diverged: "keeps (on_db Q) (set_diverged n)"
  unfolding set_diverged_def by (intro keeps_exec_all q_diverged)

lemma keeps_rebuild: "keeps (on_db Q) (rebuild x s k)"
  unfolding rebuild_def by (intro keeps_diverged keeps_sets keeps_base keeps_rules)

lemma keeps_refresh: "keeps (on_db Q) (refresh_pending x s)"
  unfolding refresh_pending_def refresh_one_def extend_delete_def
  by (intro keeps_rebuild keeps_add_effect keeps_hold keeps_base keeps_rules)

lemma keeps_rebuild_held: "keeps (on_db Q) (rebuild_held x s h)"
  unfolding rebuild_held_def rebuild_one_def
  by (intro keeps_refresh keeps_rebuild keeps_base keeps_rules)

end

lemmas statement_defs = insert_operation_row_def update_mutation_def insert_mutation_row_def
  insert_dependency_row_def insert_prerequisite_row_def delete_mutation_def

section \<open>Staging\<close>

text \<open>The relation on the transaction, whatever happens to the held keys.\<close>

definition on_staging :: "(db \<Rightarrow> db \<Rightarrow> bool) \<Rightarrow> work \<times> held \<Rightarrow> work \<times> held \<Rightarrow> bool" where
  "on_staging Q a b \<longleftrightarrow> on_db Q (fst a) (fst b)"

locale kept_staging = kept_queue
begin

sublocale staging: kept "on_staging Q"
  by unfold_locales (auto simp: on_staging_def intro: refl trans)

lemma keeps_on_work: "keeps (on_db Q) m \<Longrightarrow> keeps (on_staging Q) (on_work m)"
  by (auto simp: keeps_def on_staging_def on_work_def split: prod.splits)

lemma keeps_hold_key: "keeps (on_staging Q) (hold_key x k)"
  by (auto simp: keeps_def on_staging_def hold_key_def refl split: prod.splits)

lemma keeps_stage_one: "keeps (on_staging Q) (stage_one x s k v)"
  unfolding stage_one_def
  by (intro keeps_hold_key keeps_on_work keeps_row_level keeps_base staging.keeps_rules)

text \<open>The part of staging that writes: the record, its descendants and its stamp.\<close>

lemma keeps_stage_writes:
  assumes "\<And>d. Q d (d\<lparr>d_stamps := bt_ins (k_model k, encoded_identity x k) n (d_stamps d)\<rparr>)"
  shows "keeps (on_staging Q) (bindM (stage_one x s k v)
    (\<lambda>_. bindM (if v = None then bindM (on_work (descendants x s k)) (forM (\<lambda>child. stage_one x s child None))
        else retM ())
    (\<lambda>_. bindM (on_work (set_record_stamp x k n)) (\<lambda>_. retM c))))"
  using assms unfolding set_record_stamp_def
  by (intro keeps_stage_one keeps_on_work keeps_exec_all keeps_base staging.keeps_rules)

lemma keeps_stage_authority:
  assumes "\<And>d k n. Q d (d\<lparr>d_stamps := bt_ins k n (d_stamps d)\<rparr>)"
  shows "keeps (on_staging Q) (stage_authority x s r)"
  using assms unfolding stage_authority_def set_record_stamp_def
  by (intro keeps_stage_one keeps_on_work keeps_exec_all keeps_base staging.keeps_rules)

text \<open>A savepoint around a staged record: on failure the database is the one before it.\<close>

lemma keeps_isolated:
  assumes "keeps (on_staging Q) (stage_authority x s r)"
  shows "keeps (on_staging Q) (stage_isolated x s r)"
proof (rule keepsI)
  fix a res b
  assume run: "stage_isolated x s r a = (res, b)"
  obtain w h where a: "a = (w, h)" by fastforce
  show "on_staging Q a b"
  proof (cases "a_error r")
    case (Some code)
    with run show ?thesis by (simp add: stage_isolated_def staging.refl)
  next
    case None
    let ?w1 = "w\<lparr>w_saves := (''record'', w_db w) # w_saves w\<rparr>"
    obtain staged w2 h2 where st: "stage_authority x s r (?w1, h) = (staged, (w2, h2))"
      by (metis prod.collapse)
    from keepsD [OF assms st] have q: "w_saves w2 = (''record'', w_db w) # w_saves w" "Q (w_db w) (w_db w2)"
      by (simp_all add: on_staging_def on_db_def)
    have "on_work (savepoint ''record'') (w, h) = (Inr (), (?w1, h))"
      by (simp add: on_work_def savepoint_def)
    with run a None st q show ?thesis
      by (cases staged)
         (auto simp: stage_isolated_def tryM_def on_work_def release_def rollback_to_def
           on_staging_def on_db_def q_refl bindM_def)
  qed
qed

lemma keeps_with_held: "keeps (on_staging Q) m \<Longrightarrow> keeps (on_db Q) (with_held h m)"
  unfolding keeps_def with_held_def on_staging_def
  by (auto split: prod.splits sum.splits) (metis fst_conv)+

lemma keeps_apply_records:
  assumes "\<And>r. r \<in> set rs \<Longrightarrow> keeps (on_staging Q) (stage_authority x s r)"
  shows "keeps (on_db Q) (apply_records x s rs)"
  unfolding apply_records_def stage_all_def
  by (intro keeps_with_held keeps_isolated assms keeps_rebuild_held staging.keeps_rules keeps_rules)

end

section \<open>The queue and the push\<close>

text \<open>What the engine does to the client row: its counters and the push's contracts, never its identity or generation.\<close>

definition counters_only :: "(client_row \<Rightarrow> client_row) \<Rightarrow> bool" where
  "counters_only f \<longleftrightarrow> (\<forall>r. cl_id (f r) = cl_id r \<and> cl_generation (f r) = cl_generation r)"

locale kept_push = kept_staging +
  assumes q_operation: "insert_operation_row x np row d = Inr d' \<Longrightarrow> Q d d'"
    and q_assign: "Q d (update_mutation n (\<lambda>r. r\<lparr>mr_push := Some p\<rparr>) d)"
    and q_mutation: "insert_mutation_row x n r d = Inr d' \<Longrightarrow> Q d d'"
    and q_dependency: "insert_dependency_row x n target kind d = Inr d' \<Longrightarrow> Q d d'"
    and q_prerequisite: "insert_prerequisite_row x n key d = Inr d' \<Longrightarrow> Q d d'"
    and q_delete: "Q d (delete_mutation n d)"
    and q_resolve: "Q d (d\<lparr>d_prereqs := filter (\<lambda>((_, k), _). k \<noteq> key) (d_prereqs d)\<rparr>)"
    and q_error: "Q d (d\<lparr>d_prereqs := map (\<lambda>((n, k), e). ((n, k), if k = key then error else e)) (d_prereqs d)\<rparr>)"
    and q_rejection: "Q d (d\<lparr>d_rejections := bt_ins n rejected (d_rejections d)\<rparr>)"
    and q_dismiss: "Q d (d\<lparr>d_rejections := bt_del n (d_rejections d)\<rparr>)"
    and q_client: "counters_only f \<Longrightarrow> Q d (d\<lparr>d_client := map_option f (d_client d)\<rparr>)"
begin

lemma keeps_delete: "keeps (on_db Q) (delete_mutations ns)"
  unfolding delete_mutations_def by (intro keeps_exec_all q_delete keeps_base keeps_rules)

lemma keeps_client_update: "counters_only f \<Longrightarrow> keeps (on_db Q) (update_client f)"
  unfolding update_client_def by (intro keeps_exec_all q_client)

lemma keeps_counters: "keeps (on_db Q) allocate_ordinal" "keeps (on_db Q) allocate_push"
  "keeps (on_db Q) last_completed_push" "keeps (on_db Q) (set_last_completed_push n)"
  "keeps (on_db Q) (set_push_models x v)"
  unfolding allocate_ordinal_def allocate_push_def last_completed_push_def
    set_last_completed_push_def set_push_models_def
  by (intro keeps_client_update keeps_base keeps_rules; simp add: counters_only_def)+

lemma keeps_insert_op: "keeps (on_db Q) (insert_op x s n p kind op)"
  unfolding insert_op_def
  by (intro keeps_rules keeps_exec) (rule q_operation)

lemma keeps_insert_ops: "keeps (on_db Q) (insert_ops x s n p ops)"
proof (induction x s n p ops rule: insert_ops.induct)
  case 1
  show ?case unfolding insert_ops.simps by (rule keeps_pure)
next
  case 2
  show ?case unfolding insert_ops.simps by (intro keeps_bind keeps_insert_op 2)
qed

lemma keeps_insert_mutation: "keeps (on_db Q) (insert_mutation x s n m)"
  unfolding insert_mutation_def
  by (intro keeps_rules keeps_insert_ops keeps_exec)
     (auto intro: q_mutation q_dependency q_prerequisite)

lemma keeps_enqueue: "keeps (on_db Q) (enqueue x s m)"
  unfolding enqueue_def check_dependency_def enqueue_op_def delete_child_def
  by (intro keeps_insert_mutation keeps_derive keeps_counters keeps_row_level keeps_base keeps_rules)

lemma keeps_freeze: "keeps (on_db Q) (freeze x s n)"
  unfolding freeze_def encode_push_def assign_push_def
  by (intro keeps_counters keeps_exec_all q_assign keeps_base keeps_rules)

lemma keeps_reject: "keeps (on_db Q) (mark_rejected x s rs)"
  unfolding mark_rejected_def reject_one_def insert_rejection_def
  by (intro keeps_delete keeps_exec_all q_rejection keeps_base keeps_rules)

lemma keeps_remove_rejected: "keeps (on_db Q) (remove_rejected x s rs)"
  unfolding remove_rejected_def by (intro keeps_reject keeps_rebuild_held keeps_rules)

lemma keeps_check_receipt: "keeps (on_db Q) (check_receipt n r)"
  unfolding check_receipt_def by (intro keeps_counters keeps_base keeps_rules)

lemma keeps_settle: "keeps (on_db Q) (settle_mutation x s wire covered q h)"
  unfolding settle_mutation_def companion_children_def settle_companion_def
  by (intro keeps_row_level keeps_base keeps_rules)

lemma keeps_prerequisites: "keeps (on_db Q) (resolve_prerequisite k)"
  "keeps (on_db Q) (fail_prerequisite k e)" "keeps (on_db Q) (reset_prerequisite k)"
  "keeps (on_db Q) (delete_rejection n)"
  unfolding resolve_prerequisite_def fail_prerequisite_def reset_prerequisite_def
    set_prerequisite_error_def delete_rejection_def
  by (intro keeps_exec_all q_resolve q_error q_dismiss)+

lemma keeps_acknowledge:
  assumes "\<And>a. a \<in> set (p_records r) \<Longrightarrow> keeps (on_staging Q) (stage_authority x s a)"
  shows "keeps (on_db Q) (acknowledge x s n r)"
  unfolding acknowledge_def stage_receipt_def batch_of_def
  by (intro keeps_with_held keeps_isolated assms keeps_rebuild_held staging.keeps_rules
      keeps_check_receipt keeps_settle keeps_reject keeps_delete keeps_counters keeps_base keeps_rules)

end

end
