(* ===== verification/Rows.thy ===== *)
theory Rows
  imports Frames
begin

text \<open>
  The codec between records and table rows (\<open>crates/client/src/rows.rs\<close>): a normal record
  written to a model's table reads back as the same record.
\<close>

section \<open>Normal rows\<close>

text \<open>The values of a normalised record: every identity field, or every other field.\<close>

definition normal_values :: "ext \<Rightarrow> schema \<Rightarrow> model_desc \<Rightarrow> (string \<times> json) list \<Rightarrow> bool" where
  "normal_values x s m kvs \<longleftrightarrow> bt_ok kvs \<and>
     (\<forall>n v. map_of kvs n = Some v \<longrightarrow> (\<exists>f. field_of m n = Some f \<and> normalize_value x s f v = Inr v))"

lemma normal_valuesD:
  assumes "normal_values x s m kvs" and "map_of kvs n = Some v" and "field_of m n = Some f"
  shows "normalize_value x s f v = Inr v"
proof -
  from assms(1,2) obtain g where "field_of m n = Some g" "normalize_value x s g v = Inr v"
    unfolding normal_values_def by blast
  with assms(3) show ?thesis by simp
qed

definition list_texts_ok :: "ext \<Rightarrow> (string \<times> json) list \<Rightarrow> bool" where
  "list_texts_ok x kvs \<longleftrightarrow> (\<forall>(k, v) \<in> set kvs. as_array v \<noteq> None \<longrightarrow> text_ok x v)"

lemma map_of_bt_of_zip_nth:
  assumes "distinct ks" and "length vs = length ks" and "map_of (bt_of (zip ks vs)) n = Some v"
  obtains i where "i < length ks" and "n = ks ! i" and "v = vs ! i"
proof -
  from assms(3) have "n \<in> fst ` set (bt_of (zip ks vs))" by (metis domI dom_map_of_conv_image_fst)
  then have "n \<in> set ks" using assms(2) by (metis keys_bt_of map_fst_zip set_map)
  then obtain i where "i < length ks" "n = ks ! i" by (metis in_set_conv_nth)
  with assms that show thesis by (simp add: map_of_bt_of_zip)
qed

lemma record_key_values:
  assumes "record_key x s name i = Inr k" and "schema_ok s" and "ext_ok x"
    and "storable_record s name (k_identity k)"
  obtains m kvs where "model_of s name = Inr m" and "k_identity k = JObj kvs" and "k_model k = name"
    and "fst ` set kvs = set (m_identity m)" and "normal_values x s m kvs"
proof -
  from assms(1) obtain m input ws where m: "model_of s name = Inr m"
      "emap (identity_value x s m input) (m_identity m) = Inr ws"
    and k: "k = \<lparr>k_model = name, k_identity = JObj (bt_of (zip (m_identity m) ws))\<rparr>"
    by (rule record_key_Inr)
  let ?r = "bt_of (zip (m_identity m) ws)"
  from assms(2) m(1) have mo: "model_ok s m" by (rule schema_ok_model)
  then have d: "distinct (m_identity m)" by (simp add: model_ok_def)
  have len: "length ws = length (m_identity m)" using m(2) by (rule emap_Inr_length)
  have again: "emap (identity_value x s m ?r) (m_identity m) = Inr ws"
    using assms(4) k m(1) by (intro identity_again [OF assms(3) mo m(2)]) (auto dest: storable_recordD)
  have "\<exists>f. field_of m n = Some f \<and> normalize_value x s f v = Inr v" if v: "map_of ?r n = Some v" for n v
  proof -
    from map_of_bt_of_zip_nth [OF d len v] obtain j where j: "j < length (m_identity m)"
      "n = m_identity m ! j" "v = ws ! j" by blast
    with emap_nth [OF again j(1)] v show ?thesis by (auto simp: identity_value_def res_elims)
  qed
  moreover have "fst ` set ?r = set (m_identity m)" using len by (metis keys_bt_of map_fst_zip set_map)
  ultimately show thesis using that m(1) k by (auto simp: normal_values_def)
qed

lemma state_values:
  assumes "state_of x s name v loader = Inr w" and "schema_ok s" and "ext_ok x"
    and "storable_record s name w"
  obtains m kvs where "model_of s name = Inr m" and "w = JObj kvs"
    and "fst ` set kvs = f_name ` set (state_fields m)" and "normal_values x s m kvs"
proof -
  from assms(1) obtain m input ws where m: "model_of s name = Inr m"
      "emap (state_value x s input) (state_fields m) = Inr ws"
    and w: "w = JObj (bt_of (zip (map f_name (state_fields m)) ws))"
    by (rule state_of_Inr)
  let ?ks = "map f_name (state_fields m)"
  let ?r = "bt_of (zip ?ks ws)"
  from assms(2) m(1) have mo: "model_ok s m" by (rule schema_ok_model)
  then have d: "distinct ?ks"
    by (auto simp: model_ok_def state_fields_def distinct_map inj_on_def)
  have len: "length ws = length ?ks" using m(2) by (simp add: emap_Inr_length)
  have again: "emap (state_value x s ?r) (state_fields m) = Inr ws"
    using assms(4) w m(1) by (intro state_again [OF assms(3) mo m(2)]) (auto dest: storable_recordD)
  have "\<exists>f. field_of m n = Some f \<and> normalize_value x s f v = Inr v" if v: "map_of ?r n = Some v" for n v
  proof -
    from map_of_bt_of_zip_nth [OF d len v] obtain j where j: "j < length ?ks" "n = ?ks ! j" "v = ws ! j"
      by blast
    let ?f = "state_fields m ! j"
    have j': "j < length (state_fields m)" using j(1) by simp
    then have "?f \<in> set (m_fields m)" using nth_mem [OF j'] by (auto simp: state_fields_def)
    from field_of_mem [OF mo this] j have "field_of m n = Some ?f" by simp
    moreover from emap_nth [OF again j'] v j j' have "normalize_value x s ?f v = Inr v"
      by (auto simp: state_value_def res_elims)
    ultimately show ?thesis by blast
  qed
  moreover have "fst ` set ?r = f_name ` set (state_fields m)"
    using len by (metis keys_bt_of map_fst_zip set_map)
  ultimately show thesis using that m(1) w by (auto simp: normal_values_def)
qed

text \<open>A whole row: every field, normal, with readable list texts.\<close>

definition row_ok :: "ext \<Rightarrow> schema \<Rightarrow> model_desc \<Rightarrow> json \<Rightarrow> bool" where
  "row_ok x s m row \<longleftrightarrow> (\<exists>kvs. row = JObj kvs \<and> normal_values x s m kvs \<and>
     fst ` set kvs = set (columns m) \<and> list_texts_ok x kvs)"

lemma map_of_merge:
  "map_of (fold (\<lambda>(k, v). bt_ins k v) st idn) = map_of idn ++ map_of (rev st)"
  by (rule map_of_fold_bt_ins)

lemma merge_identity_row:
  assumes "model_ok s m" and "normal_values x s m ikvs" and "fst ` set ikvs = set (m_identity m)"
    and "normal_values x s m skvs" and "fst ` set skvs = f_name ` set (state_fields m)"
    and "list_texts_ok x skvs"
  shows "row_ok x s m (merge_identity (JObj ikvs) (JObj skvs))"
    and "n \<in> set (m_identity m) \<Longrightarrow> index (merge_identity (JObj ikvs) (JObj skvs)) n = index (JObj ikvs) n"
proof -
  let ?kvs = "fold (\<lambda>(k, v). bt_ins k v) skvs ikvs"
  have b: "bt_ok ikvs" "bt_ok skvs" using assms(2,4) by (simp_all add: normal_values_def)
  have lk: "map_of ?kvs = map_of ikvs ++ map_of skvs"
    using bt_ok_distinct [OF b(2)] by (simp add: map_of_fold_bt_ins distinct_map_of_rev)
  have ids: "set (m_identity m) \<subseteq> set (columns m)"
    using assms(1) by (force simp: model_ok_def identity_ok_def columns_def split: option.splits dest: field_of_in)
  have "fst ` set ?kvs = fst ` set skvs \<union> fst ` set ikvs"
    using lk by (metis dom_map_add dom_map_of_conv_image_fst)
  also have "\<dots> = set (columns m)"
    using ids assms(3,5) by (auto simp: columns_def state_fields_def)
  finally have keys: "fst ` set ?kvs = set (columns m)" .
  have bk: "bt_ok ?kvs" using b(1) by (rule bt_ok_fold)
  have "normal_values x s m ?kvs"
    using assms(2,4) bk by (auto simp: normal_values_def lk map_add_Some_iff)
  moreover have "list_texts_ok x ?kvs"
    unfolding list_texts_ok_def
  proof (intro ballI, clarify)
    fix k v a
    assume kv: "(k, v) \<in> set ?kvs" and a: "as_array v = Some a"
    from kv have "map_of ?kvs k = Some v" using bt_ok_distinct [OF bk] by simp
    then consider "map_of skvs k = Some v" | "map_of ikvs k = Some v" "map_of skvs k = None"
      by (auto simp: lk map_add_Some_iff)
    then show "text_ok x v"
    proof cases
      case 1
      with assms(6) a show ?thesis by (force simp: list_texts_ok_def dest: map_of_SomeD)
    next
      case 2
      then have "k \<in> set (m_identity m)" using assms(3) by (force dest: map_of_SomeD)
      with assms(1) have "identity_ok m k" by (simp add: model_ok_def)
      then obtain f where f': "field_of m k = Some f" "is_scalar (f_type f)"
        by (auto simp: identity_ok_def split: option.splits)
      with normal_valuesD [OF assms(2) 2(1)] have f: "normalize_value x s f v = Inr v" "is_scalar (f_type f)"
        by simp_all
      from a obtain vs where "v = JArr vs" by (cases v) simp_all
      with f show ?thesis
        by (cases "f_type f") (auto simp: normalize_value_def is_null_def scalar_def split: scalar_type.splits)
    qed
  qed
  ultimately show "row_ok x s m (merge_identity (JObj ikvs) (JObj skvs))"
    using keys by (auto simp: row_ok_def merge_identity_def entries_def)
  assume "n \<in> set (m_identity m)"
  then have "map_of skvs n = None"
    using assms(5) by (force simp: state_fields_def map_of_eq_None_iff)
  then show "index (merge_identity (JObj ikvs) (JObj skvs)) n = index (JObj ikvs) n"
    by (simp add: index_def merge_identity_def entries_def lk map_add_def)
qed

section \<open>Values and rows through SQL\<close>

lemma as_i64_jint: "nat (abs i) \<le> max_safe_integer \<Longrightarrow> \<exists>n. jint i = JNum n \<and> as_i64 n = Some i"
  by (auto simp: jint_def as_i64_def max_safe_integer_def)

lemma value_codec:
  assumes "normalize_value x s f v = Inr v" and "field_ok s f" and "as_array v \<noteq> None \<longrightarrow> text_ok x v"
  shows "decode_value x (f_type f) (column_value (parameter x v)) = Inr v"
proof (cases "v = JNull")
  case True
  then show ?thesis by (simp add: parameter_def decode_value_def is_null_def)
next
  case False
  with assms(1) have v: "value_n x s (f_type f) v = Inr v" by (simp add: normalize_value_def is_null_def)
  show ?thesis
  proof (cases "f_type f")
    case (TScalar ty)
    show ?thesis
    proof (cases ty)
      case StInt
      with v TScalar obtain i where i: "v = jint i" "nat (abs i) \<le> max_safe_integer"
        by (auto elim: scalar_int_range)
      from as_i64_jint [OF i(2)] i show ?thesis
        by (auto simp: TScalar StInt parameter_def decode_value_def is_null_def)
    next
      case StFloat
      with v TScalar obtain g where "v = JNum (Float g)"
        by (auto simp: scalar_def res_elims)
      then show ?thesis by (simp add: TScalar StFloat parameter_def as_i64_def decode_value_def is_null_def)
    qed (use v TScalar in \<open>auto simp: scalar_def res_elims parameter_def decode_value_def is_null_def
        jint_def as_i64_def split: json.splits if_splits prod.splits\<close>)
  next
    case (TEnum name)
    with v obtain t where "v = JStr t" by (cases v) (auto split: if_splits)
    then show ?thesis by (simp add: TEnum parameter_def decode_value_def is_null_def)
  next
    case (TList ty)
    with v obtain vs where "v = JArr vs" by (auto simp: res_elims)
    with assms(3) show ?thesis
      by (simp add: TList parameter_def decode_value_def is_null_def from_str_text)
  qed
qed

lemma efold_map: "efold f (map g xs) acc = efold (\<lambda>x. f (g x)) xs acc"
proof (induction xs arbitrary: acc)
  case (Cons x xs)
  then show ?case by (simp add: Cons.IH [abs_def])
qed simp

lemma row_codec:
  assumes "row_ok x s m row" and "model_ok s m"
  shows "decode_row x m (columns m) (map column_value (row_params x m row)) = Inr row"
proof -
  from assms(1) obtain kvs where row: "row = JObj kvs" and nv: "normal_values x s m kvs"
    and keys: "fst ` set kvs = set (columns m)" and tx: "list_texts_ok x kvs" by (auto simp: row_ok_def)
  have bk: "bt_ok kvs" using nv by (simp add: normal_values_def)
  let ?cols = "columns m"
  let ?vs = "map (\<lambda>f. index row (f_name f)) (m_fields m)"
  have d: "distinct ?cols" using assms(2) by (simp add: columns_def model_ok_def)
  have each: "decode_value x (f_type f) (column_value (parameter x (index row (f_name f)))) =
      Inr (index row (f_name f)) \<and> map_of kvs (f_name f) = Some (index row (f_name f))"
    if f: "f \<in> set (m_fields m)" for f
  proof -
    have "f_name f \<in> fst ` set kvs" using f keys by (simp add: columns_def)
    then obtain v where v: "map_of kvs (f_name f) = Some v" by (metis map_of_eq_None_iff not_None_eq)
    from normal_valuesD [OF nv v field_of_mem [OF assms(2) f]]
    have n: "normalize_value x s f v = Inr v" .
    have "as_array v \<noteq> None \<longrightarrow> text_ok x v" using tx v by (force simp: list_texts_ok_def dest: map_of_SomeD)
    moreover have "field_ok s f" using assms(2) f by (simp add: model_ok_def)
    ultimately show ?thesis using value_codec [OF n] v by (simp add: row index_def)
  qed
  let ?step = "\<lambda>f. bindE (ok_or (field_of m (f_name f)) (invalid (''unknown column '' @ f_name f)))
     (\<lambda>g. decode_value x (f_type g) (column_value (parameter x (index row (f_name f)))))"
  have z: "zip ?cols (map column_value (row_params x m row)) =
      map (\<lambda>f. (f_name f, column_value (parameter x (index row (f_name f))))) (m_fields m)"
    by (simp add: columns_def row_params_def zip_map_map zip_same_conv_map comp_def)
  have "efold (decode_column x m) (map (\<lambda>f. (f_name f, column_value (parameter x (index row (f_name f)))))
      (m_fields m)) [] = efold (\<lambda>f. decode_column x m (f_name f, column_value (parameter x (index row (f_name f)))))
      (m_fields m) []"
    by (simp add: efold_map comp_def)
  also have "\<dots> = bindE (emap ?step (m_fields m))
      (\<lambda>ws. Inr (fold (\<lambda>(k, v). bt_ins k v) (zip (map f_name (m_fields m)) ws) []))"
    by (rule efold_bt_ins) (simp add: decode_column_def bindE_assoc)
  also have "emap ?step (m_fields m) = Inr ?vs"
    by (rule emap_all_ok) (use each field_of_mem [OF assms(2)] in auto)
  finally have "efold (decode_column x m) (zip ?cols (map column_value (row_params x m row))) [] =
      Inr (bt_of (zip ?cols ?vs))"
    unfolding z by (simp add: bt_of_def columns_def)
  moreover have "bt_of (zip ?cols ?vs) = kvs"
  proof (rule bt_ext [OF bt_ok_bt_of bk], rule ext)
    fix n
    show "map_of (bt_of (zip ?cols ?vs)) n = map_of kvs n"
    proof (cases "n \<in> set ?cols")
      case True
      then obtain i where i: "i < length (m_fields m)" "n = f_name (m_fields m ! i)"
        by (auto simp: columns_def in_set_conv_nth)
      with map_of_bt_of_zip [OF d, of ?vs i] each [of "m_fields m ! i"] show ?thesis
        by (simp add: columns_def)
    next
      case False
      then have "n \<notin> fst ` set (bt_of (zip ?cols ?vs))"
        using keys_bt_of [of "zip ?cols ?vs"] by (auto dest: set_zip_leftD)
      with False keys show ?thesis by (metis map_of_eq_None_iff)
    qed
  qed
  ultimately show ?thesis using row by (simp add: decode_row_def)
qed

lemma row_cell:
  assumes "model_ok s m" and "field_of m n = Some f"
  shows "cell m (row_params x m row) n = parameter x (index row n)"
proof -
  from field_of_in [OF assms(2)] have f: "f \<in> set (m_fields m)" "f_name f = n" by simp_all
  have "map_of (zip (columns m) (row_params x m row)) = map_of (map (\<lambda>f. (f_name f, parameter x (index row (f_name f)))) (m_fields m))"
    by (simp add: columns_def row_params_def zip_map_map zip_same_conv_map comp_def)
  moreover have "distinct (map fst (map (\<lambda>f. (f_name f, parameter x (index row (f_name f)))) (m_fields m)))"
    using assms(1) by (simp add: comp_def model_ok_def)
  ultimately have "map_of (zip (columns m) (row_params x m row)) n = Some (parameter x (index row n))"
    using f by (metis (mono_tags, lifting) image_eqI list.set_map map_of_is_SomeI)
  then show ?thesis by (simp add: cell_def)
qed

lemma row_key:
  assumes "model_ok s m"
  shows "primary_key m (row_params x m row) = identity_params x m row"
proof -
  have "cell m (row_params x m row) n = parameter x (index row n)" if "n \<in> set (m_identity m)" for n
  proof -
    from assms that have "identity_ok m n" by (simp add: model_ok_def)
    then obtain f where "field_of m n = Some f" by (auto simp: identity_ok_def split: option.splits)
    with assms show ?thesis by (rule row_cell)
  qed
  then show ?thesis by (simp add: primary_key_def identity_params_def)
qed

end
