(* ===== verification/Writes.thy ===== *)
theory Writes
  imports Rows
begin

text \<open>
  The engine's writes as steps, each succeeding or failing half-way, and the relations every one
  of them keeps.
\<close>

datatype engine_write =
    WEnqueue mutation
  | WDirect operation
  | WSubscribe string
  | WUnsubscribe string
  | WPage "authority list" "(string \<times> nat) list"
  | WFreeze nat
  | WAcknowledge nat receipt
  | WReject "rejection list"
  | WReadiness string "string option option"
  | WDismiss nat

text \<open>The computation behind a write, its value dropped.\<close>

definition dropM :: "'a eng \<Rightarrow> unit eng" where
  "dropM m = bindM m (\<lambda>_. retM ())"

fun engine_step :: "ext \<Rightarrow> schema \<Rightarrow> engine_write \<Rightarrow> unit eng" where
  "engine_step x s (WEnqueue m) = dropM (enqueue x s m)"
| "engine_step x s (WDirect op) = direct x s op"
| "engine_step x s (WSubscribe c) = set_cursor c 0"
| "engine_step x s (WUnsubscribe c) = unsubscribe c"
| "engine_step x s (WPage rs cs) = bindM (apply_records x s rs) (\<lambda>_. forM (\<lambda>(c, n). set_cursor c n) cs)"
| "engine_step x s (WFreeze n) = dropM (freeze x s n)"
| "engine_step x s (WAcknowledge n r) = dropM (acknowledge x s n r)"
| "engine_step x s (WReject rs) = remove_rejected x s rs"
| "engine_step x s (WReadiness k None) = resolve_prerequisite k"
| "engine_step x s (WReadiness k (Some None)) = reset_prerequisite k"
| "engine_step x s (WReadiness k (Some (Some e))) = fail_prerequisite k e"
| "engine_step x s (WDismiss n) = delete_rejection n"

definition engine_run :: "ext \<Rightarrow> schema \<Rightarrow> engine_write list \<Rightarrow> work \<Rightarrow> work" where
  "engine_run x s ws w = fold (\<lambda>e w. snd (engine_step x s e w)) ws w"

section \<open>Relations every write keeps\<close>

locale kept_engine = kept_push +
  assumes q_stage: "keeps (on_staging Q) (stage_authority x s r)"
    and q_cursor: "Q d (d\<lparr>d_subs := bt_ins channel n (d_subs d)\<rparr>)"
    and q_unsubscribe: "Q d (d\<lparr>d_subs := bt_del channel (d_subs d)\<rparr>)"
begin

lemma keeps_subscriptions: "keeps (on_db Q) (set_cursor c n)" "keeps (on_db Q) (unsubscribe c)"
  unfolding set_cursor_def unsubscribe_def delete_subscription_def
  by (intro keeps_exec_all q_cursor q_unsubscribe)+

lemma keeps_step: "keeps (on_db Q) (engine_step x s e)"
  by (induction x s e rule: engine_step.induct; unfold engine_step.simps dropM_def;
      intro keeps_enqueue keeps_direct keeps_freeze keeps_subscriptions keeps_acknowledge
        keeps_apply_records keeps_remove_rejected keeps_prerequisites q_stage keeps_rules)

lemma run_kept: "on_db Q w (engine_run x s ws w)"
proof (induction ws arbitrary: w)
  case Nil
  show ?case by (simp add: engine_run_def refl)
next
  case (Cons e ws)
  have "on_db Q w (snd (engine_step x s e w))"
    by (rule keepsD [OF keeps_step prod.collapse [symmetric]])
  from trans [OF this Cons.IH] show ?case by (simp add: engine_run_def)
qed

end

end
