(* ===== verification/Stamps.thy ===== *)
theory Stamps
  imports Writes
begin

text \<open>
  Stamps: the evidence that keeps stale content out. Whatever the engine does, a record's stamp
  never goes back; staging a record behaves as one write to a register that keeps the content
  with the newest stamp.
\<close>

definition stamp_at :: "db \<Rightarrow> string \<times> string \<Rightarrow> nat" where
  "stamp_at d mk = (case map_of (d_stamps d) mk of None \<Rightarrow> 0 | Some n \<Rightarrow> n)"

definition stamps_le :: "db \<Rightarrow> db \<Rightarrow> bool" where
  "stamps_le d d' \<longleftrightarrow> stamp_at d \<le> stamp_at d'"

text \<open>Only the stamp of one record changes, and not beyond \<open>n\<close>.\<close>

definition stamps_to :: "string \<times> string \<Rightarrow> nat \<Rightarrow> db \<Rightarrow> db \<Rightarrow> bool" where
  "stamps_to mk n d d' \<longleftrightarrow> (\<forall>mk'. mk' \<noteq> mk \<longrightarrow> stamp_at d' mk' = stamp_at d mk') \<and>
     (stamp_at d mk \<le> n \<longrightarrow> stamp_at d mk \<le> stamp_at d' mk \<and> stamp_at d' mk \<le> n)"

lemma stamp_at_simps [simp]:
  "stamp_at (d\<lparr>d_tables := t\<rparr>) = stamp_at d" "stamp_at (d\<lparr>d_operations := os\<rparr>) = stamp_at d"
  "stamp_at (d\<lparr>d_mutations := ms\<rparr>) = stamp_at d" "stamp_at (d\<lparr>d_deps := ds\<rparr>) = stamp_at d"
  "stamp_at (d\<lparr>d_prereqs := ps\<rparr>) = stamp_at d" "stamp_at (d\<lparr>d_rejections := rs\<rparr>) = stamp_at d"
  "stamp_at (d\<lparr>d_client := c\<rparr>) = stamp_at d" "stamp_at (d\<lparr>d_subs := ss\<rparr>) = stamp_at d"
  by (simp_all add: stamp_at_def fun_eq_iff)

lemma stamp_at_set [simp]: "stamp_at (d\<lparr>d_stamps := bt_ins mk n (d_stamps d)\<rparr>) = (stamp_at d)(mk := n)"
  by (auto simp: stamp_at_def fun_eq_iff)

interpretation stamps_to: kept_push "stamps_to mk n" for mk n
  by unfold_locales (auto simp: stamps_to_def statement_defs split: if_splits)

interpretation stamps_le: kept_push stamps_le
  by unfold_locales (auto simp: stamps_le_def statement_defs intro: order_trans split: if_splits)

lemma stamp_of_at: "stamp_of x k d = stamp_at d (k_model k, encoded_identity x k)"
  by (simp add: stamp_of_def stamp_at_def)

lemma stage_authority_stamps: "keeps (on_staging stamps_le) (stage_authority x s r)"
proof (rule keepsI)
  fix a res b
  assume run: "stage_authority x s r a = (res, b)"
  obtain w h where a: "a = (w, h)" by fastforce
  show "on_staging stamps_le a b"
  proof (cases "record_key x s (a_model r) (a_identity r)")
    case (Inl e)
    with run show ?thesis by (simp add: stage_authority_def stamps_le.staging.refl)
  next
    case (Inr k)
    show ?thesis
    proof (cases "incoming_row x s k r")
      case (Inl e)
      with run Inr show ?thesis by (simp add: stage_authority_def stamps_le.staging.refl)
    next
      case inc: (Inr v)
      let ?mk = "(k_model k, encoded_identity x k)"
      let ?local = "stamp_of x k (w_db w)"
      have rd: "on_work (record_stamp x k) a = (Inr ?local, a)"
        by (simp add: a on_work_def record_stamp_def query_def)
      show ?thesis
      proof (cases "?local < a_stamp r")
        case False
        have "keeps (on_staging stamps_le) (on_work (truth x s k))"
          by (intro stamps_le.keeps_on_work stamps_le.keeps_base)
        then have "keeps (on_staging stamps_le) (bindM (on_work (truth x s k))
            (\<lambda>current. retM (if current = v then Same else Conflict current v)))"
          by (intro stamps_le.staging.keeps_rules)
        from keepsD [OF this] run Inr inc rd False show ?thesis
          by (auto simp: stage_authority_def stamps_le.staging.refl split: if_splits)
      next
        case True
        have "keeps (on_staging (stamps_to ?mk (a_stamp r))) (bindM (stage_one x s k v)
          (\<lambda>_. bindM (if v = None then bindM (on_work (descendants x s k)) (forM (\<lambda>child. stage_one x s child None))
              else retM ())
          (\<lambda>_. bindM (on_work (set_record_stamp x k (a_stamp r))) (\<lambda>_. retM Applied))))"
          by (rule stamps_to.keeps_stage_writes) (auto simp: stamps_to_def)
        from keepsD [OF this] run Inr inc rd True
        have "on_staging (stamps_to ?mk (a_stamp r)) a b" by (simp add: stage_authority_def)
        with True show ?thesis
          by (auto simp: on_staging_def on_db_def stamps_to_def stamps_le_def stamp_of_at a le_fun_def)
            (metis less_imp_le order_refl prod.exhaust)
      qed
    qed
  qed
qed

interpretation stamps_le: kept_engine stamps_le
  by unfold_locales (auto simp: stamps_le_def intro: stage_authority_stamps)

text \<open>
  C6: stamps never go back. Through any sequence of engine writes (local mutations, direct
  writes, subscribing and unsubscribing, pages, pushes and their receipts, rejections), each
  succeeding or failing half-way, the stamp of every record stays the same or grows, and the
  savepoints are balanced.
\<close>

theorem stamps_never_go_back:
  "stamp_at (w_db w) mk \<le> stamp_at (w_db (engine_run x s ws w)) mk \<and>
   w_saves (engine_run x s ws w) = w_saves w"
  using stamps_le.run_kept [of w x s ws] by (auto simp: on_db_def stamps_le_def dest: le_funD)

end
