(* ===== verification/Register.thy ===== *)
theory Register
  imports Stamps
begin

text \<open>
  Staging as a write to a register. The register of a record is its stamp and its last authority
  (the before image while the record is dirty, else the visible row); staging writes the pair of
  an incoming stamp and content, and the newest stamp wins. Deliveries therefore converge.
\<close>

section \<open>Staging as a write to a register\<close>

text \<open>The last authority held for a record: the before image while it is dirty, else the visible row.\<close>

definition truth_at :: "ext \<Rightarrow> model_desc \<Rightarrow> rkey \<Rightarrow> db \<Rightarrow> json option res" where
  "truth_at x m k d = row_at x m (if is_dirty x k d then before_table (k_model k) else k_model k) (k_identity k) d"

definition newest :: "nat \<times> 'c \<Rightarrow> nat \<times> 'c \<Rightarrow> nat \<times> 'c" where
  "newest held new = (if fst held < fst new then new else held)"

definition register :: "ext \<Rightarrow> model_desc \<Rightarrow> rkey \<Rightarrow> db \<Rightarrow> nat \<times> json option res" where
  "register x m k d = (stamp_of x k d, truth_at x m k d)"

lemma truth_at_eval:
  "model_of s (k_model k) = Inr m \<Longrightarrow> truth x s k w = (truth_at x m k (w_db w), w)"
  by (simp add: truth_def dirty_record_def query_def query_res_def truth_at_def before_get_def
      read_row_def row_get_def)

text \<open>What a record must be for its content to be stored and read back.\<close>

definition authority_normal :: "ext \<Rightarrow> schema \<Rightarrow> authority \<Rightarrow> bool" where
  "authority_normal x s r \<longleftrightarrow>
     (\<forall>k. record_key x s (a_model r) (a_identity r) = Inr k \<longrightarrow>
        storable_record s (a_model r) (k_identity k) \<and> canonical_ok x (k_identity k)) \<and>
     (\<forall>v. validate_state x s (a_model r) (a_state r) = Inr v \<longrightarrow>
        storable_record s (a_model r) v \<and> list_texts_ok x (entries v))"

lemma incoming_row_ok:
  assumes "schema_ok s" and "ext_ok x" and "authority_normal x s r"
    and "record_key x s (a_model r) (a_identity r) = Inr k" and "incoming_row x s k r = Inr (Some row)"
    and "model_of s (k_model k) = Inr m"
  shows "row_ok x s m row \<and> identity_params x m row = identity_params x m (k_identity k)"
proof -
  have st: "storable_record s (a_model r) (k_identity k)" using assms(3,4) by (simp add: authority_normal_def)
  from record_key_values [OF assms(4,1,2) st] obtain m' ikvs where i: "model_of s (a_model r) = Inr m'"
      "k_identity k = JObj ikvs" "k_model k = a_model r" "fst ` set ikvs = set (m_identity m')"
      "normal_values x s m' ikvs" by metis
  with assms(6) have m: "m' = m" by simp
  from assms(5) obtain v where v: "validate_state x s (a_model r) (a_state r) = Inr v"
      "row = merge_identity (k_identity k) v"
    by (auto simp: incoming_row_def bindE_Inr_iff split: if_splits)
  with assms(3) have sv: "storable_record s (a_model r) v" "list_texts_ok x (entries v)"
    by (simp_all add: authority_normal_def)
  from v(1) have "state_of x s (a_model r) (a_state r) False = Inr v" by (simp add: validate_state_def)
  from state_values [OF this assms(1,2) sv(1)] obtain m2 skvs where s2: "model_of s (a_model r) = Inr m2"
      "v = JObj skvs" "fst ` set skvs = f_name ` set (state_fields m2)" "normal_values x s m2 skvs" by metis
  from s2 i(1) m have sk: "v = JObj skvs" "fst ` set skvs = f_name ` set (state_fields m)"
    "normal_values x s m skvs" by simp_all
  have mo: "model_ok s m" using assms(1,6) by (rule schema_ok_model)
  have tx: "list_texts_ok x skvs" using sv(2) sk(1) by (simp add: entries_def)
  from merge_identity_row [OF mo i(5)[unfolded m] i(4)[unfolded m] sk(3,2) tx]
  show ?thesis by (simp add: v(2) i(2) sk(1) identity_params_def)
qed

lemma set_row:
  assumes "model_of s (k_model k) = Inr m" and "model_ok s m"
    and "\<And>row. v = Some row \<Longrightarrow> row_ok x s m row \<and> identity_params x m row = identity_params x m (k_identity k)"
  shows "main_set x s k v w = (Inr (), w') \<Longrightarrow>
      row_at x m (k_model k) (k_identity k) (w_db w') = Inr v \<and> d_operations (w_db w') = d_operations (w_db w)"
    and "before_set x s k v w = (Inr (), w') \<Longrightarrow>
      row_at x m (before_table (k_model k)) (k_identity k) (w_db w') = Inr v \<and>
      d_operations (w_db w') = d_operations (w_db w)"
proof -
  have up: "row_upsert x t m row w = (Inr (), w') \<Longrightarrow>
      row_at x m t (k_identity k) (w_db w') = Inr (Some row) \<and> d_operations (w_db w') = d_operations (w_db w)"
    if "v = Some row" for row t
    using assms(3) [OF that] row_codec [OF _ assms(2), of x row] row_key [OF assms(2), of x row]
    by (auto simp: row_upsert_def exec_def on_table_def table_upsert_def row_at_def Let_def
        split: sum.splits if_splits)
  have del: "row_delete x t m (k_identity k) w = (Inr (), w') \<Longrightarrow>
      row_at x m t (k_identity k) (w_db w') = Inr None \<and> d_operations (w_db w') = d_operations (w_db w)" for t
    by (auto simp: row_delete_def exec_def on_table_def row_at_def Let_def)
  show "main_set x s k v w = (Inr (), w') \<Longrightarrow>
      row_at x m (k_model k) (k_identity k) (w_db w') = Inr v \<and> d_operations (w_db w') = d_operations (w_db w)"
    using up del assms(1) by (cases v) (auto simp: main_set_def)
  show "before_set x s k v w = (Inr (), w') \<Longrightarrow>
      row_at x m (before_table (k_model k)) (k_identity k) (w_db w') = Inr v \<and>
      d_operations (w_db w') = d_operations (w_db w)"
    using up del assms(1) by (cases v) (auto simp: before_set_def)
qed

text \<open>Deleting rows only removes them.\<close>

definition rows_shrink :: "db \<Rightarrow> db \<Rightarrow> bool" where
  "rows_shrink d d' \<longleftrightarrow> d_operations d' = d_operations d \<and>
     (\<forall>t key. map_of (d_tables d t) key = None \<longrightarrow> map_of (d_tables d' t) key = None)"

interpretation rows_shrink: kept_db rows_shrink
  by unfold_locales (auto simp: rows_shrink_def)

interpretation shrink_staging: kept "on_staging rows_shrink"
  by unfold_locales (auto simp: on_staging_def intro: rows_shrink.refl rows_shrink.trans)

lemma shrink_stage_none: "keeps (on_staging rows_shrink) (stage_one x s k None)"
proof -
  have del: "keeps (on_db rows_shrink) (row_delete x t m i)" for t m i
    unfolding row_delete_def
    by (rule rows_shrink.keeps_exec) (auto simp: on_table_def rows_shrink_def)
  have w: "keeps (on_db rows_shrink) m \<Longrightarrow> keeps (on_staging rows_shrink) (on_work m)" for m :: "'a eng"
    by (auto simp: keeps_def on_staging_def on_work_def split: prod.splits)
  have h: "keeps (on_staging rows_shrink) (hold_key x k)"
    by (auto simp: keeps_def on_staging_def hold_key_def rows_shrink.refl split: prod.splits)
  show ?thesis
    unfolding stage_one_def main_set_def before_set_def option.case
    by (intro h w del rows_shrink.keeps_base rows_shrink.keeps_rules shrink_staging.keeps_rules)
qed

lemma stage_one_sets:
  assumes "stage_one x s k v (w, h) = (Inr (), (w', h'))" and "model_of s (k_model k) = Inr m"
    and "model_ok s m"
    and "\<And>row. v = Some row \<Longrightarrow> row_ok x s m row \<and> identity_params x m row = identity_params x m (k_identity k)"
  shows "truth_at x m k (w_db w') = Inr v \<and> d_operations (w_db w') = d_operations (w_db w)"
proof (cases "is_dirty x k (w_db w)")
  case True
  with assms(1) have b: "before_set x s k v w = (Inr (), w')"
    by (auto simp: stage_one_def on_work_def dirty_record_def query_def bindM_ok_iff hold_key_def
        split: prod.splits)
  from set_row(2) [OF assms(2-4) this] True show ?thesis by (auto simp: truth_at_def is_dirty_def)
next
  case False
  with assms(1) have b: "main_set x s k v w = (Inr (), w')"
    by (auto simp: stage_one_def on_work_def dirty_record_def query_def bindM_ok_iff split: prod.splits)
  from set_row(1) [OF assms(2-4) this] False show ?thesis by (auto simp: truth_at_def is_dirty_def)
qed


lemma shrink_truth:
  assumes "rows_shrink d d'" and "truth_at x m k d = Inr None"
  shows "truth_at x m k d' = Inr None"
  using assms
  by (auto simp: truth_at_def row_at_def rows_shrink_def is_dirty_def bindE_Inr_iff split: option.splits if_splits)

lemma on_work_stamp: "bindM (on_work (record_stamp x k)) f (w, h) = f (stamp_of x k (w_db w)) (w, h)"
  by (simp add: on_work_def record_stamp_def query_def bindM_def)

text \<open>Staging, by how the stamps compare: nothing changes unless the incoming one is newer.\<close>

lemma stage_authority_newer:
  assumes "stage_authority x s r (w, h) = (Inr disp, (w', h'))"
    and "record_key x s (a_model r) (a_identity r) = Inr k" and "incoming_row x s k r = Inr v"
    and "stamp_of x k (w_db w) < a_stamp r"
  obtains w1 h1 w2 h2 where "stage_one x s k v (w, h) = (Inr (), (w1, h1))"
    and "v \<noteq> None \<longrightarrow> w2 = w1" and "v = None \<longrightarrow> rows_shrink (w_db w1) (w_db w2)"
    and "set_record_stamp x k (a_stamp r) w2 = (Inr (), w')" and "disp = Applied"
proof -
  let ?mid = "if v = None then bindM (on_work (descendants x s k)) (forM (\<lambda>child. stage_one x s child None)) else retM ()"
  have "bindM (stage_one x s k v) (\<lambda>_. bindM ?mid (\<lambda>_. bindM (on_work (set_record_stamp x k (a_stamp r)))
      (\<lambda>_. retM Applied))) (w, h) = (Inr disp, (w', h'))"
    using assms by (simp add: stage_authority_def on_work_stamp)
  then obtain a1 a2 where c: "stage_one x s k v (w, h) = (Inr (), a1)" "?mid a1 = (Inr (), a2)"
      "on_work (set_record_stamp x k (a_stamp r)) a2 = (Inr (), (w', h'))" "disp = Applied"
    unfolding bindM_ok_iff by auto
  obtain w1 h1 w2 h2 where a: "a1 = (w1, h1)" "a2 = (w2, h2)" by (metis prod.exhaust)
  have "v \<noteq> None \<longrightarrow> w2 = w1" using c(2) a by auto
  moreover have "v = None \<longrightarrow> rows_shrink (w_db w1) (w_db w2)"
  proof
    assume n: "v = None"
    have "keeps (on_staging rows_shrink) (on_work (descendants x s k))"
      by (auto simp: keeps_def on_staging_def on_work_def split: prod.splits
          intro: keepsD [OF rows_shrink.keeps_read_ops(8)])
    then have "keeps (on_staging rows_shrink) ?mid"
      by (intro shrink_staging.keeps_rules shrink_stage_none)
    from keepsD [OF this c(2)] show "rows_shrink (w_db w1) (w_db w2)" by (simp add: a on_staging_def on_db_def)
  qed
  moreover have "set_record_stamp x k (a_stamp r) w2 = (Inr (), w')"
    using c(3) a by (auto simp: on_work_def split: prod.splits)
  ultimately show ?thesis using that c a by blast
qed

lemma stage_authority_not_newer:
  assumes "stage_authority x s r (w, h) = (Inr disp, (w', h'))"
    and "record_key x s (a_model r) (a_identity r) = Inr k" and "incoming_row x s k r = Inr v"
    and "model_of s (k_model k) = Inr m" and "\<not> stamp_of x k (w_db w) < a_stamp r"
  shows "w' = w \<and> h' = h \<and> (if a_stamp r < stamp_of x k (w_db w) then disp = Older
      else \<exists>held. truth_at x m k (w_db w) = Inr held \<and> disp = (if held = v then Same else Conflict held v))"
proof (cases "a_stamp r < stamp_of x k (w_db w)")
  case True
  with assms show ?thesis
    by (auto simp: stage_authority_def bindM_ok_iff on_work_def record_stamp_def query_def)
next
  case False
  with assms(5) have e: "stamp_of x k (w_db w) = a_stamp r" by simp
  have "bindM (on_work (truth x s k)) (\<lambda>current. retM (if current = v then Same else Conflict current v)) (w, h)
      = (Inr disp, (w', h'))"
    using assms(1-3) e by (simp add: stage_authority_def on_work_stamp)
  then obtain held where "on_work (truth x s k) (w, h) = (Inr held, (w', h'))"
      "disp = (if held = v then Same else Conflict held v)"
    unfolding bindM_ok_iff by auto
  with e show ?thesis by (auto simp: on_work_def truth_at_eval [OF assms(4)])
qed

lemma stamp_of_set: "set_record_stamp x k n w = (Inr (), w') \<Longrightarrow>
    w_db w' = (w_db w)\<lparr>d_stamps := bt_ins (k_model k, encoded_identity x k) n (d_stamps (w_db w))\<rparr>"
  by (auto simp: set_record_stamp_def exec_all_def exec_def Let_def)

lemma truth_at_stamps [simp]: "truth_at x m k (d\<lparr>d_stamps := st\<rparr>) = truth_at x m k d"
  by (simp add: truth_at_def row_at_def is_dirty_def)

lemma stage_authority_writes:
  assumes "schema_ok s" and "ext_ok x" and "authority_normal x s r"
    and "record_key x s (a_model r) (a_identity r) = Inr k" and "model_of s (k_model k) = Inr m"
    and "stage_authority x s r (w, h) = (Inr disp, (w', h'))"
  obtains v where "incoming_row x s k r = Inr v"
    and "register x m k (w_db w') = newest (register x m k (w_db w)) (a_stamp r, Inr v)"
proof -
  from assms(4,6) obtain v where v: "incoming_row x s k r = Inr v"
    by (cases "incoming_row x s k r") (auto simp: stage_authority_def)
  have mo: "model_ok s m" using assms(1,5) by (rule schema_ok_model)
  show ?thesis
  proof (cases "stamp_of x k (w_db w) < a_stamp r")
    case False
    from stage_authority_not_newer [OF assms(6,4) v assms(5) False] False
    show ?thesis by (intro that [OF v]) (simp add: register_def newest_def)
  next
    case True
    from stage_authority_newer [OF assms(6,4) v True] obtain w1 h1 w2
      where c: "stage_one x s k v (w, h) = (Inr (), (w1, h1))"
        "v \<noteq> None \<longrightarrow> w2 = w1" "v = None \<longrightarrow> rows_shrink (w_db w1) (w_db w2)"
        "set_record_stamp x k (a_stamp r) w2 = (Inr (), w')" by metis
    have "truth_at x m k (w_db w1) = Inr v"
      using stage_one_sets [OF c(1) assms(5) mo] incoming_row_ok [OF assms(1-4) _ assms(5)] v by blast
    with c(2,3) have "truth_at x m k (w_db w2) = Inr v" by (cases v) (auto intro: shrink_truth)
    with True stamp_of_set [OF c(4)] show ?thesis
      by (intro that [OF v]) (simp add: register_def newest_def stamp_of_def)
  qed
qed


text \<open>
  C7: staging refines a register. Staging a record is one write to the register of its key: the
  newer stamp wins and the disposition says how the incoming stamp compared, an equal stamp
  being \<open>Same\<close> or \<open>Conflict\<close> by content.
\<close>

theorem stage_refines_register:
  assumes "schema_ok s" and "ext_ok x" and "authority_normal x s r"
    and "record_key x s (a_model r) (a_identity r) = Inr k" and "model_of s (k_model k) = Inr m"
    and "stage_authority x s r (w, h) = (Inr disp, (w', h'))"
  shows "\<exists>v held. incoming_row x s k r = Inr v \<and>
    register x m k (w_db w') = newest (register x m k (w_db w)) (a_stamp r, Inr v) \<and>
    (a_stamp r = stamp_of x k (w_db w) \<longrightarrow> truth_at x m k (w_db w) = Inr held) \<and>
    disp = (if stamp_of x k (w_db w) < a_stamp r then Applied
      else if a_stamp r < stamp_of x k (w_db w) then Older
      else if held = v then Same else Conflict held v)"
proof -
  from stage_authority_writes [OF assms] obtain v where v: "incoming_row x s k r = Inr v"
    "register x m k (w_db w') = newest (register x m k (w_db w)) (a_stamp r, Inr v)" .
  show ?thesis
  proof (cases "stamp_of x k (w_db w) < a_stamp r")
    case True
    from stage_authority_newer [OF assms(6,4) v(1) True] have "disp = Applied" by metis
    with True v show ?thesis by auto
  next
    case False
    from stage_authority_not_newer [OF assms(6,4) v(1) assms(5) False] v False show ?thesis
      by (cases "a_stamp r < stamp_of x k (w_db w)") auto
  qed
qed

section \<open>Records do not disturb one another\<close>

text \<open>A key the schema made, whose identity is stored and read back.\<close>

definition stored_key :: "ext \<Rightarrow> schema \<Rightarrow> rkey \<Rightarrow> bool" where
  "stored_key x s k \<longleftrightarrow> record_key x s (k_model k) (k_identity k) = Inr k \<and>
     storable_record s (k_model k) (k_identity k) \<and> canonical_ok x (k_identity k)"

lemma authority_key:
  assumes "authority_normal x s r" and "record_key x s (a_model r) (a_identity r) = Inr k"
    and "schema_ok s" and "ext_ok x"
  shows "stored_key x s k"
proof -
  have "k_model k = a_model r" using assms(2) by (rule record_key_Inr) simp
  with assms record_key_again [OF assms(2-4)] show ?thesis by (simp add: authority_normal_def stored_key_def)
qed

lemma identity_value_back:
  assumes "model_ok s m" and "normal_values x s m kvs" and "n \<in> set (m_identity m)" and "map_of kvs n = Some v"
  obtains f where "field_of m n = Some f" and "decode_value x (f_type f) (column_value (parameter x v)) = Inr v"
proof -
  from assms(1,3) obtain f where f: "field_of m n = Some f" "is_scalar (f_type f)"
    by (auto simp: model_ok_def identity_ok_def split: option.splits)
  have n: "normalize_value x s f v = Inr v" using assms(2,4) f(1) by (rule normal_valuesD)
  have "as_array v = None"
    using n f(2) by (cases v; cases "f_type f")
      (auto simp: normalize_value_def is_null_def scalar_def split: scalar_type.splits)
  moreover have "field_ok s f" using assms(1) field_of_in [OF f(1)] by (simp add: model_ok_def)
  ultimately show ?thesis using that f(1) value_codec [OF n] by simp
qed

lemma identity_params_inj:
  assumes "stored_key x s k" and "stored_key x s k'" and "k_model k' = k_model k"
    and "schema_ok s" and "ext_ok x" and "model_of s (k_model k) = Inr m"
    and "identity_params x m (k_identity k) = identity_params x m (k_identity k')"
  shows "k = k'"
proof -
  from assms(1) have r: "record_key x s (k_model k) (k_identity k) = Inr k" "storable_record s (k_model k) (k_identity k)"
    by (simp_all add: stored_key_def)
  from assms(2,3) have r': "record_key x s (k_model k) (k_identity k') = Inr k'" "storable_record s (k_model k) (k_identity k')"
    by (simp_all add: stored_key_def)
  from record_key_values [OF r(1) assms(4,5) r(2)] obtain m1 kvs where "model_of s (k_model k) = Inr m1"
    "k_identity k = JObj kvs" "fst ` set kvs = set (m_identity m1)" "normal_values x s m1 kvs" by metis
  with assms(6) have k: "k_identity k = JObj kvs" "fst ` set kvs = set (m_identity m)" "normal_values x s m kvs"
    by simp_all
  from record_key_values [OF r'(1) assms(4,5) r'(2)] obtain m2 kvs' where "model_of s (k_model k) = Inr m2"
    "k_identity k' = JObj kvs'" "fst ` set kvs' = set (m_identity m2)" "normal_values x s m2 kvs'" by metis
  with assms(6) have k': "k_identity k' = JObj kvs'" "fst ` set kvs' = set (m_identity m)" "normal_values x s m kvs'"
    by simp_all
  have mo: "model_ok s m" using assms(4,6) by (rule schema_ok_model)
  have "map_of kvs n = map_of kvs' n" for n
  proof (cases "n \<in> set (m_identity m)")
    case True
    with k(2) k'(2) obtain v v' where v: "map_of kvs n = Some v" "map_of kvs' n = Some v'"
      by (metis map_of_eq_None_iff not_None_eq)
    from assms(7) True have "parameter x (index (k_identity k) n) = parameter x (index (k_identity k') n)"
      by (simp add: identity_params_def)
    then have "parameter x v = parameter x v'" using v by (simp add: k(1) k'(1) index_def)
    with identity_value_back [OF mo k(3) True v(1)] identity_value_back [OF mo k'(3) True v(2)] v
    show ?thesis by (metis Inr_inject option.inject)
  next
    case False
    with k(2) k'(2) show ?thesis by (metis map_of_eq_None_iff)
  qed
  then have "kvs = kvs'" using k(3) k'(3) by (intro bt_ext) (auto simp: normal_values_def)
  with k(1) k'(1) assms(3) show ?thesis by simp
qed

lemma encoded_identity_inj:
  assumes "stored_key x s k" and "stored_key x s k'" and "k_model k' = k_model k"
    and "encoded_identity x k' = encoded_identity x k"
  shows "k' = k"
proof -
  have "(Inr (k_identity k') :: err + json) = Inr (k_identity k)"
    using assms by (simp add: stored_key_def canonical_ok_def encoded_identity_def)
  with assms(3) show ?thesis by simp
qed

lemma before_reserved: "reserved_model_name (before_table t)"
proof -
  have "lowercase ''ahead_before_'' = ''ahead_'' @ ''before_''" by code_simp
  then have "lowercase (before_table t) = ''ahead_'' @ (''before_'' @ lowercase t)"
    unfolding before_table_def lowercase_def map_append by (simp only: append_assoc)
  then show ?thesis unfolding reserved_model_name_def Let_def by (metis starts_with_append)
qed

lemma before_not_model:
  assumes "model_of s name = Inr m" and "schema_ok s"
  shows "name \<noteq> before_table t"
proof
  assume n: "name = before_table t"
  have "model_ok s m" "m_name m = name" using schema_ok_model [OF assms(2,1)] model_of_in [OF assms(1)] by simp_all
  with n have "\<not> reserved_model_name (before_table t)" by (simp add: model_ok_def)
  with before_reserved show False by simp
qed

lemma truth_at_other:
  assumes "stored_key x s k" and "stored_key x s k'" and "k' \<noteq> k" and "schema_ok s" and "ext_ok x"
    and "model_of s (k_model k) = Inr m" and "model_of s (k_model k') = Inr m'"
    and "d' = d\<lparr>d_tables := (d_tables d)(t := al_put (identity_params x m' (k_identity k')) vals (d_tables d t))\<rparr>"
    and "t = k_model k' \<or> t = before_table (k_model k')"
  shows "truth_at x m k d' = truth_at x m k d"
proof -
  have "identity_params x m (k_identity k) \<noteq> identity_params x m' (k_identity k')" if "k_model k' = k_model k"
    using identity_params_inj [OF assms(1,2) that assms(4-6)] assms(3,6,7) that by auto
  moreover have "k_model k' \<noteq> before_table (k_model k)" "k_model k \<noteq> before_table (k_model k')"
    using before_not_model assms(4,6,7) by blast+
  ultimately show ?thesis
    using assms(8,9) by (auto simp: truth_at_def row_at_def is_dirty_def before_table_def)
qed


lemma upsert_db:
  assumes "row_upsert x t m row w = (Inr (), w')" and "model_ok s m"
    and "identity_params x m row = identity_params x m i"
  shows "\<exists>vals. w_db w' = (w_db w)\<lparr>d_tables := (d_tables (w_db w))
    (t := al_put (identity_params x m i) vals (d_tables (w_db w) t))\<rparr>"
  using assms(1) row_key [OF assms(2), of x row] assms(3)
  by (auto simp: row_upsert_def exec_def on_table_def table_upsert_def Let_def split: sum.splits if_splits)

lemma stage_one_other:
  assumes "stage_one x s k' (Some row) (w, h) = (Inr (), (w', h'))"
    and "identity_params x m' row = identity_params x m' (k_identity k')"
    and "stored_key x s k" and "stored_key x s k'" and "k' \<noteq> k" and "schema_ok s" and "ext_ok x"
    and "model_of s (k_model k) = Inr m" and "model_of s (k_model k') = Inr m'"
  shows "truth_at x m k (w_db w') = truth_at x m k (w_db w) \<and> d_stamps (w_db w') = d_stamps (w_db w)"
proof -
  obtain t where t: "t = k_model k' \<or> t = before_table (k_model k')" "row_upsert x t m' row w = (Inr (), w')"
    using assms(1,9)
    by (cases "is_dirty x k' (w_db w)")
      (auto simp: stage_one_def on_work_def dirty_record_def query_def bindM_ok_iff hold_key_def
        before_set_def main_set_def split: prod.splits)
  from upsert_db [OF t(2) schema_ok_model [OF assms(6,9)] assms(2)] obtain vals where
    d: "w_db w' = (w_db w)\<lparr>d_tables := (d_tables (w_db w))
      (t := al_put (identity_params x m' (k_identity k')) vals (d_tables (w_db w) t))\<rparr>" by blast
  from truth_at_other [OF assms(3-9) d t(1)] d show ?thesis by simp
qed

lemma stage_authority_other:
  assumes "stage_authority x s r (w, h) = (Inr disp, (w', h'))" and "authority_normal x s r"
    and "record_key x s (a_model r) (a_identity r) = Inr k'" and "\<not> is_null (a_state r)"
    and "stored_key x s k" and "k' \<noteq> k" and "schema_ok s" and "ext_ok x"
    and "model_of s (k_model k) = Inr m"
  shows "register x m k (w_db w') = register x m k (w_db w)"
proof -
  from assms(1,3) obtain v where v: "incoming_row x s k' r = Inr v"
    by (cases "incoming_row x s k' r") (auto simp: stage_authority_def)
  with assms(4) obtain row where row: "v = Some row" by (auto simp: incoming_row_def res_elims)
  have sk: "stored_key x s k'" by (rule authority_key [OF assms(2,3,7,8)])
  then have "record_key x s (k_model k') (k_identity k') = Inr k'" by (simp add: stored_key_def)
  then obtain m' where m': "model_of s (k_model k') = Inr m'" by (rule record_key_Inr)
  show ?thesis
  proof (cases "stamp_of x k' (w_db w) < a_stamp r")
    case False
    from stage_authority_not_newer [OF assms(1,3) v m' False] show ?thesis by simp
  next
    case True
    from stage_authority_newer [OF assms(1,3) v True] row obtain w1 h1 where
      c: "stage_one x s k' (Some row) (w, h) = (Inr (), (w1, h1))"
        "set_record_stamp x k' (a_stamp r) w1 = (Inr (), w')" by (metis option.distinct(1))
    have ids: "identity_params x m' row = identity_params x m' (k_identity k')"
      using incoming_row_ok [OF assms(7,8,2,3) _ m'] v row by simp
    from stage_one_other [OF c(1) ids assms(5) sk assms(6-9) m']
    have e: "truth_at x m k (w_db w1) = truth_at x m k (w_db w)" "d_stamps (w_db w1) = d_stamps (w_db w)"
      by simp_all
    have "(k_model k', encoded_identity x k') \<noteq> (k_model k, encoded_identity x k)"
      using encoded_identity_inj [OF assms(5) sk] assms(6) by auto
    with e stamp_of_set [OF c(2)] show ?thesis by (auto simp: register_def stamp_of_def)
  qed
qed

section \<open>Convergence\<close>

text \<open>What a list of records writes to the register of \<open>k\<close>.\<close>

definition writes_to :: "ext \<Rightarrow> schema \<Rightarrow> rkey \<Rightarrow> authority list \<Rightarrow> (nat \<times> json option res) set" where
  "writes_to x s k rs = {(a_stamp r, incoming_row x s k r) |r. r \<in> set rs \<and>
     record_key x s (a_model r) (a_identity r) = Inr k}"

text \<open>The one element with the greatest stamp.\<close>

definition newest_of :: "(nat \<times> 'c) set \<Rightarrow> nat \<times> 'c \<Rightarrow> bool" where
  "newest_of S e \<longleftrightarrow> e \<in> S \<and> (\<forall>e' \<in> S. fst e' < fst e \<or> e' = e)"

lemma newest_of_unique: "newest_of S e \<Longrightarrow> newest_of S e' \<Longrightarrow> e = e'"
  by (auto simp: newest_of_def) (metis less_asym)+

lemma newest_of_singleton: "newest_of {e} e"
  by (simp add: newest_of_def)

lemma newest_of_insert:
  "newest_of S held \<Longrightarrow> (fst new = fst held \<Longrightarrow> new = held) \<Longrightarrow> newest_of (insert new S) (newest held new)"
  unfolding newest_of_def newest_def by (cases "fst held < fst new") (auto simp: not_less le_less dest: less_trans)

lemma stage_isolated_clean:
  assumes "stage_isolated x s r (w, h) = (Inr (b, None), (w', h'))"
  obtains w0 w1 disp where "w_db w0 = w_db w" and "stage_authority x s r (w0, h) = (Inr disp, (w1, h'))"
    and "w_db w' = w_db w1" and "\<And>local incoming. disp \<noteq> Conflict local incoming"
proof -
  let ?w0 = "w\<lparr>w_saves := (''record'', w_db w) # w_saves w\<rparr>"
  obtain staged wh1 where st: "stage_authority x s r (?w0, h) = (staged, wh1)" by (metis prod.exhaust)
  obtain w1 h1 where wh: "wh1 = (w1, h1)" by fastforce
  have e: "a_error r = None" using assms by (auto simp: stage_isolated_def split: option.splits)
  have "bindM (on_work (case staged of Inr _ \<Rightarrow> release x ''record'' | Inl _ \<Rightarrow> rollback_to x ''record''))
      (\<lambda>_. retM (staged_report r staged)) (w1, h1) = (Inr (b, None), (w', h'))"
    using assms e st wh
    by (simp add: stage_isolated_def on_work_def savepoint_def tryM_def bindM_def modifyM_def split: sum.splits prod.splits)
  then obtain a where "on_work (case staged of Inr _ \<Rightarrow> release x ''record'' | Inl _ \<Rightarrow> rollback_to x ''record'')
      (w1, h1) = (a, (w', h'))" and sr: "staged_report r staged = (b, None)"
    by (auto simp: bindM_ok_iff)
  moreover from sr obtain disp where d: "staged = Inr disp" "\<And>local incoming. disp \<noteq> Conflict local incoming"
    by (cases "(r, staged)" rule: staged_report.cases) auto
  ultimately have "w_db w' = w_db w1 \<and> h' = h1"
    by (auto simp: on_work_def release_def split: prod.splits option.splits)
  with st d wh that [of ?w0 disp w1] show ?thesis by simp
qed


lemma isolated_register:
  assumes "stage_isolated x s r (w, h) = (Inr (b, None), (w', h'))"
    and "schema_ok s" and "ext_ok x" and "authority_normal x s r" and "stored_key x s k"
    and "model_of s (k_model k) = Inr m"
    and "is_null (a_state r) \<longrightarrow> record_key x s (a_model r) (a_identity r) = Inr k"
    and "newest_of S (register x m k (w_db w))"
  shows "newest_of (writes_to x s k [r] \<union> S) (register x m k (w_db w'))"
proof -
  from stage_isolated_clean [OF assms(1)] obtain w0 w1 disp where
    st: "w_db w0 = w_db w" "stage_authority x s r (w0, h) = (Inr disp, (w1, h'))" "w_db w' = w_db w1"
      "\<And>local incoming. disp \<noteq> Conflict local incoming" by metis
  from st(2) obtain k' where k': "record_key x s (a_model r) (a_identity r) = Inr k'"
    by (cases "record_key x s (a_model r) (a_identity r)") (auto simp: stage_authority_def)
  show ?thesis
  proof (cases "k' = k")
    case False
    with k' have "writes_to x s k [r] = {}" by (simp add: writes_to_def)
    moreover have "register x m k (w_db w1) = register x m k (w_db w0)"
      using assms(7) k' False
      by (intro stage_authority_other [OF st(2) assms(4) k' _ assms(5) _ assms(2,3,6)]) auto
    ultimately show ?thesis using assms(8) st by simp
  next
    case True
    from stage_authority_writes [OF assms(2-4) k'[unfolded True] assms(6) st(2)] obtain v where
      v: "incoming_row x s k r = Inr v"
        "register x m k (w_db w1) = newest (register x m k (w_db w)) (a_stamp r, Inr v)"
      by (metis st(1))
    have "(a_stamp r, Inr v) = register x m k (w_db w)" if e: "a_stamp r = fst (register x m k (w_db w))"
    proof -
      from e have "\<not> stamp_of x k (w_db w0) < a_stamp r" "\<not> a_stamp r < stamp_of x k (w_db w0)"
        by (simp_all add: register_def st(1))
      with stage_authority_not_newer [OF st(2) k'[unfolded True] v(1) assms(6)] st(4)
      have "truth_at x m k (w_db w) = Inr v" by (auto simp: st(1) split: if_splits)
      with e show ?thesis by (simp add: register_def)
    qed
    with newest_of_insert [OF assms(8), of "(a_stamp r, Inr v)"] v st(3) k' True
    show ?thesis by (simp add: writes_to_def)
  qed
qed

lemma writes_to_Cons: "writes_to x s k (r # rs) = writes_to x s k rs \<union> writes_to x s k [r]"
  by (auto simp: writes_to_def)

lemma stage_all_register:
  assumes "stage_all x s rs (w, h) = (Inr rep, (w', h'))" and "y_reports rep = []"
    and "schema_ok s" and "ext_ok x" and "\<And>r. r \<in> set rs \<Longrightarrow> authority_normal x s r"
    and "stored_key x s k" and "model_of s (k_model k) = Inr m"
    and "\<And>r. r \<in> set rs \<Longrightarrow> is_null (a_state r) \<Longrightarrow> record_key x s (a_model r) (a_identity r) = Inr k"
  shows "newest_of (insert (register x m k (w_db w)) (writes_to x s k rs)) (register x m k (w_db w'))"
proof -
  let ?f = "\<lambda>r rep. bindM (stage_isolated x s r) (\<lambda>be. retM (add_staged be rep))"
  have "y_reports acc = [] \<and> (newest_of S (register x m k (w_db w)) \<longrightarrow>
      newest_of (writes_to x s k rs \<union> S) (register x m k (w_db w')))"
    if "foldM ?f rs acc (w, h) = (Inr rep, (w', h'))" for acc S
    using that assms(5,8)
  proof (induction rs arbitrary: acc w h S)
    case Nil
    with assms(2) show ?case by (simp add: writes_to_def)
  next
    case (Cons r rs)
    from Cons.prems(1) have "bindM (stage_isolated x s r) (\<lambda>be. foldM ?f rs (add_staged be acc)) (w, h) =
        (Inr rep, (w', h'))"
      by (simp only: foldM.simps bindM_assoc bindM_retM)
    then obtain be wh1 where "stage_isolated x s r (w, h) = (Inr be, wh1)"
        "foldM ?f rs (add_staged be acc) wh1 = (Inr rep, (w', h'))"
      unfolding bindM_ok_iff by blast
    then obtain w1 h1 where run: "stage_isolated x s r (w, h) = (Inr be, (w1, h1))"
        "foldM ?f rs (add_staged be acc) (w1, h1) = (Inr rep, (w', h'))"
      by (cases wh1) simp
    have IH: "y_reports (add_staged be acc) = []" "newest_of S' (register x m k (w_db w1)) \<longrightarrow>
        newest_of (writes_to x s k rs \<union> S') (register x m k (w_db w'))" for S'
      using Cons.IH [OF run(2)] Cons.prems(2,3) by simp_all
    from IH(1) have n: "y_reports acc = []" "snd be = None" by (auto simp: add_staged_def split: option.splits)
    then have run': "stage_isolated x s r (w, h) = (Inr (fst be, None), (w1, h1))"
      using run(1) by (metis prod.collapse)
    have "newest_of (writes_to x s k [r] \<union> S) (register x m k (w_db w1))"
      if "newest_of S (register x m k (w_db w))"
      using isolated_register [OF run' assms(3,4) _ assms(6,7) _ that] Cons.prems(2,3) by simp
    with IH(2) n(1) show ?case unfolding writes_to_Cons [of x s k r rs] Un_assoc by blast
  qed
  from this [OF assms(1)[unfolded stage_all_def], of "{register x m k (w_db w)}"]
  have "newest_of (writes_to x s k rs \<union> {register x m k (w_db w)}) (register x m k (w_db w'))"
    using newest_of_singleton by blast
  then show ?thesis by simp
qed

text \<open>
  C8: deliveries converge. Two clients that hold the same authority of a record (its stamp and
  its last server content) and are delivered the same records, in any order, any number of times
  and in any pages, end with the same authority of that record, whatever each has queued or
  shows: the content with the newest stamp. This is for deliveries that report nothing in either
  run (no record skipped, no conflict) and delete no record but that one, since a deletion
  cascades to others.
\<close>

theorem deliveries_converge:
  assumes "schema_ok s" and "ext_ok x" and "stored_key x s k" and "model_of s (k_model k) = Inr m"
    and "\<forall>r \<in> set rs. authority_normal x s r \<and>
      (is_null (a_state r) \<longrightarrow> record_key x s (a_model r) (a_identity r) = Inr k)"
    and "set rs' = set rs" and "register x m k (w_db v) = register x m k (w_db w)"
    and "stage_all x s rs (w, h) = (Inr rep, (w', i))" and "y_reports rep = []"
    and "stage_all x s rs' (v, j) = (Inr rep', (v', l))" and "y_reports rep' = []"
  shows "register x m k (w_db w') = register x m k (w_db v') \<and>
    (\<forall>r \<in> set rs. record_key x s (a_model r) (a_identity r) = Inr k \<longrightarrow>
       a_stamp r \<le> stamp_of x k (w_db w'))"
proof -
  have n: "newest_of (insert (register x m k (w_db w)) (writes_to x s k rs)) (register x m k (w_db w'))"
    by (rule stage_all_register [OF assms(8,9,1,2) _ assms(3,4)]) (use assms(5) in auto)
  have "newest_of (insert (register x m k (w_db v)) (writes_to x s k rs')) (register x m k (w_db v'))"
    by (rule stage_all_register [OF assms(10,11,1,2) _ assms(3,4)]) (use assms(5,6) in auto)
  moreover have "writes_to x s k rs' = writes_to x s k rs" by (simp add: writes_to_def assms(6))
  ultimately have "register x m k (w_db w') = register x m k (w_db v')"
    using n assms(7) by (auto intro: newest_of_unique)
  moreover have "a_stamp r \<le> fst (register x m k (w_db w'))"
    if "r \<in> set rs" "record_key x s (a_model r) (a_identity r) = Inr k" for r
  proof -
    have "(a_stamp r, incoming_row x s k r) \<in> writes_to x s k rs" using that by (auto simp: writes_to_def)
    then have "(a_stamp r, incoming_row x s k r) \<in> insert (register x m k (w_db w)) (writes_to x s k rs)"
      by (rule insertI2)
    with n have "fst (a_stamp r, incoming_row x s k r) < fst (register x m k (w_db w')) \<or>
        (a_stamp r, incoming_row x s k r) = register x m k (w_db w')"
      unfolding newest_of_def by (elim conjE) (rule bspec)
    then show ?thesis by (elim disjE) (simp, simp add: prod_eq_iff)
  qed
  ultimately show ?thesis by (simp add: register_def)
qed

end
