(* ===== verification/Integrity.thy ===== *)
theory Integrity
  imports Writes
begin

text \<open>
  Integrity of the client's database: keys are unique, and every queued operation, dependency
  and prerequisite belongs to a queued mutation, dependencies pointing backwards.
\<close>

section \<open>Referential integrity\<close>

definition queue_ok :: "db \<Rightarrow> bool" where
  "queue_ok d \<longleftrightarrow>
     bt_ok (d_mutations d) \<and> bt_ok (d_operations d) \<and> bt_ok (d_deps d) \<and> bt_ok (d_prereqs d) \<and>
     bt_ok (d_rejections d) \<and>
     (\<forall>n p. map_of (d_operations d) (n, p) \<noteq> None \<longrightarrow> map_of (d_mutations d) n \<noteq> None) \<and>
     (\<forall>n target. map_of (d_deps d) (n, target) \<noteq> None \<longrightarrow> target < n \<and>
        map_of (d_mutations d) n \<noteq> None \<and> map_of (d_mutations d) target \<noteq> None) \<and>
     (\<forall>n key. map_of (d_prereqs d) (n, key) \<noteq> None \<longrightarrow> map_of (d_mutations d) n \<noteq> None)"

definition tables_ok :: "db \<Rightarrow> bool" where
  "tables_ok d \<longleftrightarrow> (\<forall>table. distinct (map fst (d_tables d table)))"

definition preserves :: "(db \<Rightarrow> bool) \<Rightarrow> db \<Rightarrow> db \<Rightarrow> bool" where
  "preserves I d d' \<longleftrightarrow> (I d \<longrightarrow> I d')"

lemma bt_ok_filter: "bt_ok m \<Longrightarrow> bt_ok (filter P m)"
  by (simp add: bt_ok_def sorted_wrt_map sorted_wrt_filter)

lemma bt_ok_map: "(\<And>e. fst (f e) = fst e) \<Longrightarrow> bt_ok (map f m) = bt_ok m"
  by (simp add: bt_ok_def sorted_wrt_map)

lemma map_of_map_None: "(\<And>e. fst (f e) = fst e) \<Longrightarrow> map_of (map f m) k = None \<longleftrightarrow> map_of m k = None"
  by (simp add: map_of_eq_None_iff image_image)

lemma map_of_filter_key:
  "(\<And>k v. P (k, v) = Q k) \<Longrightarrow> map_of (filter P m) k = (if Q k then map_of m k else None)"
  by (induction m) auto

lemma queue_ok_frame [simp]:
  "queue_ok (d\<lparr>d_tables := t\<rparr>) = queue_ok d" "queue_ok (d\<lparr>d_client := c\<rparr>) = queue_ok d"
  "queue_ok (d\<lparr>d_stamps := st\<rparr>) = queue_ok d" "queue_ok (d\<lparr>d_subs := ss\<rparr>) = queue_ok d"
  by (simp_all add: queue_ok_def)

lemma queue_ok_insert:
  assumes "queue_ok d"
  shows "insert_operation_row x np r d = Inr d' \<Longrightarrow> queue_ok d'"
    and "insert_mutation_row x n mr d = Inr d' \<Longrightarrow> queue_ok d'"
    and "insert_dependency_row x n target kind d = Inr d' \<Longrightarrow> queue_ok d'"
    and "insert_prerequisite_row x n key d = Inr d' \<Longrightarrow> queue_ok d'"
proof -
  note ok = assms[unfolded queue_ok_def]
  show "queue_ok d'" if "insert_operation_row x np r d = Inr d'"
  proof -
    from that have "d' = d\<lparr>d_operations := bt_ins np r (d_operations d)\<rparr>" "map_of (d_mutations d) (fst np) \<noteq> None"
      by (auto simp: insert_operation_row_def split: if_splits)
    with ok show ?thesis by (cases np) (auto simp: queue_ok_def)
  qed
  show "queue_ok d'" if "insert_mutation_row x n mr d = Inr d'"
  proof -
    from that have "d' = d\<lparr>d_mutations := bt_ins n mr (d_mutations d)\<rparr>"
      by (auto simp: insert_mutation_row_def split: if_splits)
    with ok show ?thesis by (auto simp: queue_ok_def)
  qed
  show "queue_ok d'" if "insert_dependency_row x n target kind d = Inr d'"
  proof (cases "d' = d")
    case False
    with that have "d' = d\<lparr>d_deps := bt_ins (n, target) kind (d_deps d)\<rparr>" "target < n"
        "map_of (d_mutations d) n \<noteq> None" "map_of (d_mutations d) target \<noteq> None"
      by (auto simp: insert_dependency_row_def split: if_splits)
    with ok show ?thesis by (auto simp: queue_ok_def)
  qed (use assms in simp)
  show "queue_ok d'" if "insert_prerequisite_row x n key d = Inr d'"
  proof (cases "d' = d")
    case False
    with that have "d' = d\<lparr>d_prereqs := bt_ins (n, key) None (d_prereqs d)\<rparr>" "map_of (d_mutations d) n \<noteq> None"
      by (auto simp: insert_prerequisite_row_def split: if_splits)
    with ok show ?thesis by (simp add: queue_ok_def) blast
  qed (use assms in simp)
qed

lemma queue_ok_update: "queue_ok (update_mutation n f d) = queue_ok d"
proof -
  let ?g = "\<lambda>(k, r). (k, if k = n then f r else r)"
  have "fst (?g e) = fst e" for e by (cases e) simp
  then show ?thesis by (simp add: queue_ok_def update_mutation_def bt_ok_map map_of_map_None del: not_None_eq)
qed

lemma queue_ok_delete: "queue_ok d \<Longrightarrow> queue_ok (delete_mutation n d)"
proof -
  have ops: "map_of (filter (\<lambda>((o', _), _). o' \<noteq> n) m) (k, p) = (if k \<noteq> n then map_of m (k, p) else None)"
    for m :: "((nat \<times> 'p) \<times> 'r) list" and k p
    by (subst map_of_filter_key [where Q = "\<lambda>(k, _). k \<noteq> n"]) auto
  have deps: "map_of (filter (\<lambda>((o', t), _). o' \<noteq> n \<and> t \<noteq> n) m) (k, t) =
      (if k \<noteq> n \<and> t \<noteq> n then map_of m (k, t) else None)" for m :: "((nat \<times> nat) \<times> string) list" and k t
    by (subst map_of_filter_key [where Q = "\<lambda>(k, t). k \<noteq> n \<and> t \<noteq> n"]) auto
  assume "queue_ok d"
  then show ?thesis unfolding queue_ok_def delete_mutation_def
    by (simp add: ops deps bt_get_del bt_ok_del bt_ok_filter)
qed

lemma queue_ok_prereqs:
  "queue_ok d \<Longrightarrow> queue_ok (d\<lparr>d_prereqs := filter (\<lambda>((_, k), _). k \<noteq> key) (d_prereqs d)\<rparr>)"
  "(\<And>e. fst (g e) = fst e) \<Longrightarrow> queue_ok d \<Longrightarrow> queue_ok (d\<lparr>d_prereqs := map g (d_prereqs d)\<rparr>)"
proof -
  have f: "map_of (filter (\<lambda>((_, k), _). k \<noteq> key) m) nk = (if snd nk \<noteq> key then map_of m nk else None)"
    for m :: "((nat \<times> string) \<times> 'r) list" and nk
    by (rule map_of_filter_key) auto
  show "queue_ok d \<Longrightarrow> queue_ok (d\<lparr>d_prereqs := filter (\<lambda>((_, k), _). k \<noteq> key) (d_prereqs d)\<rparr>)"
    unfolding queue_ok_def by (simp add: f bt_ok_filter) blast
  show "(\<And>e. fst (g e) = fst e) \<Longrightarrow> queue_ok d \<Longrightarrow> queue_ok (d\<lparr>d_prereqs := map g (d_prereqs d)\<rparr>)"
    unfolding queue_ok_def by (simp add: bt_ok_map map_of_map_None del: not_None_eq)
qed

lemma queue_ok_rejections: "queue_ok d \<Longrightarrow> bt_ok rs \<Longrightarrow> queue_ok (d\<lparr>d_rejections := rs\<rparr>)"
  by (simp add: queue_ok_def)

interpretation keeps_queue_ok: kept_push "preserves queue_ok"
proof unfold_locales
  fix d key error
  show "preserves queue_ok d (d\<lparr>d_prereqs := map (\<lambda>((n, k), e). ((n, k), if k = key then error else e)) (d_prereqs d)\<rparr>)"
    unfolding preserves_def by (intro impI queue_ok_prereqs) auto
next
  fix d n r
  show "preserves queue_ok d (d\<lparr>d_rejections := bt_ins n r (d_rejections d)\<rparr>)"
    "preserves queue_ok d (d\<lparr>d_rejections := bt_del n (d_rejections d)\<rparr>)"
    unfolding preserves_def by (auto intro!: queue_ok_rejections simp: queue_ok_def)
qed (auto simp: preserves_def queue_ok_update queue_ok_delete queue_ok_prereqs dest: queue_ok_insert)

interpretation keeps_tables_ok: kept_push "preserves tables_ok"
  by unfold_locales (auto simp: preserves_def tables_ok_def statement_defs table_insert_def table_upsert_def Let_def
    map_of_eq_None_iff  al_put_def al_del_def split: if_splits intro: distinct_update distinct_delete)

interpretation keeps_queue_ok: kept_engine "preserves queue_ok"
  by unfold_locales (auto simp: preserves_def intro: keeps_queue_ok.keeps_stage_authority)

interpretation keeps_tables_ok: kept_engine "preserves tables_ok"
  by unfold_locales (auto simp: preserves_def tables_ok_def intro!: keeps_tables_ok.keeps_stage_authority)

text \<open>
  C9: integrity. In a database where keys are unique and the queue's rows refer to queued
  mutations, with dependencies pointing to earlier ordinals, this stays so through any sequence
  of engine writes, each succeeding or failing half-way.
\<close>

theorem integrity_preserved:
  assumes "queue_ok (w_db w)" and "tables_ok (w_db w)"
  shows "queue_ok (w_db (engine_run x s ws w)) \<and> tables_ok (w_db (engine_run x s ws w))"
  using assms keeps_queue_ok.run_kept [of w x s ws] keeps_tables_ok.run_kept [of w x s ws]
  by (simp add: on_db_def preserves_def)

end
