(* ===== verification/Rejection.thy ===== *)
theory Rejection
  imports Frames
begin

text \<open>
  What rejecting mutations does to the queue: the dependents it reaches, the rows it deletes and
  the rejections it records.
\<close>

section \<open>Rejection reaches every dependent\<close>

text \<open>The ordinals a rejection takes with it: the rejected ones and every queued mutation
  with a lifecycle dependency on one of them.\<close>

inductive_set falls :: "queued list \<Rightarrow> nat set \<Rightarrow> nat set" for queue :: "queued list" and seeds :: "nat set" where
  seed: "n \<in> seeds \<Longrightarrow> n \<in> falls queue seeds"
| dependent: "q \<in> set queue \<Longrightarrow> d \<in> set (n_lifecycle (q_mutation q)) \<Longrightarrow> d \<in> falls queue seeds \<Longrightarrow>
    q_ordinal q \<in> falls queue seeds"

lemma dependents_fall:
  "dom (map_of rejected) \<subseteq> falls queue seeds \<Longrightarrow> set (dependents queue rejected) \<subseteq> falls queue seeds"
  by (fastforce simp: dependents_def dom_def intro: falls.dependent)

lemma dependents_empty:
  assumes "dependents queue rejected = []" and "seeds \<subseteq> dom (map_of rejected)"
  shows "falls queue seeds \<subseteq> dom (map_of rejected)"
proof
  fix n assume "n \<in> falls queue seeds"
  then show "n \<in> dom (map_of rejected)"
  proof induction
    case (dependent q d)
    with assms(1) show ?case by (auto simp: dependents_def filter_empty_conv)
  qed (use assms(2) in auto)
qed

lemma dom_reject_all: "dom (map_of (reject_all ids rejected)) = set ids \<union> dom (map_of rejected)"
  by (auto simp: dom_def map_of_reject_all)

lemma reject_closure_codes:
  "map_of (reject_closure queue rejected) n =
     (case map_of rejected n of Some c \<Rightarrow> Some c
      | None \<Rightarrow> if n \<in> falls queue (dom (map_of rejected)) then Some ''dependency.rejected'' else None)"
proof (induction queue rejected rule: reject_closure.induct)
  case (1 queue rejected)
  let ?more = "dependents queue rejected"
  show ?case
  proof (cases "?more = []")
    case True
    have "falls queue (dom (map_of rejected)) \<subseteq> dom (map_of rejected)"
      by (rule dependents_empty [OF True order_refl])
    with True show ?thesis by (auto simp: reject_closure.simps [of queue] split: option.splits)
  next
    case False
    let ?next = "reject_all ?more rejected"
    have new: "map_of rejected n = None" if "n \<in> set ?more" for n
      using that by (auto simp: dependents_def)
    have same: "falls queue (dom (map_of ?next)) = falls queue (dom (map_of rejected))"
    proof (intro equalityI subsetI)
      fix n assume "n \<in> falls queue (dom (map_of ?next))"
      then show "n \<in> falls queue (dom (map_of rejected))"
      proof induction
        case (seed n)
        then show ?case using dependents_fall [of rejected queue "dom (map_of rejected)"]
          unfolding dom_reject_all by (auto intro: falls.seed)
      qed (auto intro: falls.dependent)
    next
      fix n assume "n \<in> falls queue (dom (map_of rejected))"
      then show "n \<in> falls queue (dom (map_of ?next))"
        by induction (auto simp: dom_reject_all intro: falls.intros)
    qed
    have "reject_closure queue rejected = reject_closure queue ?next"
      using False by (simp add: reject_closure.simps [of queue rejected] Let_def)
    with 1 [OF refl False] have IH: "map_of (reject_closure queue rejected) n =
        (case map_of ?next n of Some c \<Rightarrow> Some c
         | None \<Rightarrow> if n \<in> falls queue (dom (map_of rejected)) then Some ''dependency.rejected'' else None)"
      by (simp only: same)
    moreover have "n \<in> set ?more \<Longrightarrow> map_of rejected n = None" using new by blast
    moreover have "n \<in> set ?more \<Longrightarrow> n \<in> falls queue (dom (map_of rejected))"
      using dependents_fall [of rejected queue "dom (map_of rejected)"] by (auto intro: falls.seed)
    ultimately show ?thesis by (simp add: map_of_reject_all del: not_None_eq split: option.splits)
  qed
qed

lemma forM_exec_all:
  "\<exists>c. forM (\<lambda>n. exec_all t (f n)) ns w = (Inr (), w\<lparr>w_db := fold f ns (w_db w), w_changed := c\<rparr>)"
proof (induction ns arbitrary: w)
  case Nil
  have "w\<lparr>w_db := w_db w, w_changed := w_changed w\<rparr> = w" by simp
  then show ?case by (auto intro: exI [of _ "w_changed w"])
next
  case (Cons n ns)
  obtain c where "exec_all t (f n) w = (Inr (), w\<lparr>w_db := f n (w_db w), w_changed := c\<rparr>)"
    by (cases w) (simp add: exec_all_def exec_def Let_def)
  with Cons.IH [of "w\<lparr>w_db := f n (w_db w), w_changed := c\<rparr>"] show ?case by auto
qed

lemma forM_mark: "forM mark_changed ts w = (Inr (), w\<lparr>w_changed := fold bs_ins ts (w_changed w)\<rparr>)"
  by (induction ts arbitrary: w) (simp_all add: mark_changed_def)

lemma delete_mutations_runs:
  "\<exists>c. delete_mutations ns w = (Inr (), w\<lparr>w_db := fold delete_mutation ns (w_db w), w_changed := c\<rparr>)"
proof -
  obtain c where "forM (\<lambda>n. exec_all ''ahead_mutation'' (delete_mutation n)) ns w =
      (Inr (), w\<lparr>w_db := fold delete_mutation ns (w_db w), w_changed := c\<rparr>)"
    using forM_exec_all by blast
  then show ?thesis unfolding delete_mutations_def
    by (simp add: forM_mark del: forM.simps) blast
qed

lemma delete_mutations_kept:
  "d_mutations (fold delete_mutation ns d) = filter (\<lambda>(n, _). n \<notin> set ns) (d_mutations d)"
  "d_operations (fold delete_mutation ns d) = filter (\<lambda>((n, _), _). n \<notin> set ns) (d_operations d)"
  "d_deps (fold delete_mutation ns d) = filter (\<lambda>((n, t), _). n \<notin> set ns \<and> t \<notin> set ns) (d_deps d)"
  "d_prereqs (fold delete_mutation ns d) = filter (\<lambda>((n, _), _). n \<notin> set ns) (d_prereqs d)"
  "d_rejections (fold delete_mutation ns d) = d_rejections d"
  "d_client (fold delete_mutation ns d) = d_client d" "d_tables (fold delete_mutation ns d) = d_tables d"
  "d_stamps (fold delete_mutation ns d) = d_stamps d" "d_subs (fold delete_mutation ns d) = d_subs d"
  by (induction ns arbitrary: d)
     (auto simp: delete_mutation_def bt_del_def case_prod_beta intro!: filter_cong)

lemma delete_mutationsE:
  assumes "delete_mutations ns w = (r, w')"
  obtains "r = Inr ()" and "w_db w' = fold delete_mutation ns (w_db w)"
  using assms delete_mutations_runs [of ns w] by auto

text \<open>The rejection rows a list of queued mutations leaves.\<close>

definition rejection_row_of :: "ext \<Rightarrow> (nat \<times> string) list \<Rightarrow> queued \<Rightarrow> rejection_row" where
  "rejection_row_of x rejected q = (let code = the (map_of rejected (q_ordinal q)) in
     \<lparr>rr_name = n_name (q_mutation q), rr_code = code, rr_detail = x_text x (rejection_detail q code)\<rparr>)"

lemma reject_one_runs:
  assumes "reject_one x s rejected q h w = (Inr h', w')"
  shows "w_db w' = (w_db w)\<lparr>d_rejections := bt_ins (q_ordinal q) (rejection_row_of x rejected q)
    (d_rejections (w_db w))\<rparr>"
  using assms
  by (auto simp: reject_one_def bindM_ok_iff insert_rejection_def exec_all_def exec_def Let_def
      rejection_row_of_def)

lemma foldM_reject:
  "foldM (reject_one x s rejected) qs h w = (Inr h', w') \<Longrightarrow>
   w_db w' = (w_db w)\<lparr>d_rejections := fold (\<lambda>q. bt_ins (q_ordinal q) (rejection_row_of x rejected q)) qs
     (d_rejections (w_db w))\<rparr>"
proof (induction qs arbitrary: h w)
  case (Cons q qs)
  from Cons.prems obtain h1 w1 where r: "reject_one x s rejected q h w = (Inr h1, w1)"
      "foldM (reject_one x s rejected) qs h1 w1 = (Inr h', w')"
    unfolding foldM.simps bindM_ok_iff by blast
  from Cons.IH [OF r(2)] reject_one_runs [OF r(1)] show ?case by simp
qed simp

lemma find_key:
  "distinct (map k qs) \<Longrightarrow> q \<in> set qs \<Longrightarrow> find (\<lambda>q'. k q' = k q) qs = Some q"
  by (induction qs) auto

lemma map_of_fold_ins:
  assumes "distinct (map k qs)"
  shows "map_of (fold (\<lambda>q. bt_ins (k q) (v q)) qs m) n =
    (case find (\<lambda>q. k q = n) qs of Some q \<Rightarrow> Some (v q) | None \<Rightarrow> map_of m n)"
  using assms
proof (induction qs arbitrary: m)
  case (Cons q qs)
  have "find (\<lambda>q'. k q' = n) qs = None" if "k q = n"
    using Cons.prems that by (auto simp: find_None_iff) (metis image_eqI)
  with Cons show ?case by (cases "k q = n") (auto split: option.splits)
qed simp

abbreviation seeds_of :: "rejection list \<Rightarrow> (nat \<times> string) list" where
  "seeds_of rs \<equiv> bt_of (map (\<lambda>r. (j_ordinal r, j_code r)) rs)"

lemma mark_rejected_runs:
  assumes "mark_rejected x s rs w = (Inr h, w')"
  obtains queue where "queued_where x (\<lambda>_. True) (w_db w) = Inr queue"
    and "w_db w' = (let rejected = reject_closure queue (seeds_of rs) in fold delete_mutation (bt_keys rejected)
      ((w_db w)\<lparr>d_rejections := fold (\<lambda>q. bt_ins (q_ordinal q) (rejection_row_of x rejected q))
        (filter (\<lambda>q. map_of rejected (q_ordinal q) \<noteq> None) queue) (d_rejections (w_db w))\<rparr>))"
proof -
  from assms obtain queue where q: "queued_where x (\<lambda>_. True) (w_db w) = Inr queue"
    by (cases "queued_where x (\<lambda>_. True) (w_db w)")
      (auto simp: mark_rejected_def queued_all_def query_res_def bindM_def)
  let ?rejected = "reject_closure queue (seeds_of rs)"
  from assms q obtain w1 where r:
      "foldM (reject_one x s ?rejected) (filter (\<lambda>q. map_of ?rejected (q_ordinal q) \<noteq> None) queue) [] w = (Inr h, w1)"
      "delete_mutations (bt_keys ?rejected) w1 = (Inr (), w')"
    by (auto simp: mark_rejected_def queued_all_def query_res_def bindM_ok_iff Let_def)
  from r(2) have "w_db w' = fold delete_mutation (bt_keys ?rejected) (w_db w1)" by (rule delete_mutationsE)
  with foldM_reject [OF r(1)] q that show ?thesis by (simp add: Let_def)
qed

lemma seeds_dom: "dom (map_of (seeds_of rs)) = j_ordinal ` set rs"
  by (simp add: map_of_bt_of dom_map_of_conv_image_fst image_image)

lemma rejected_code:
  "map_of (reject_closure queue (seeds_of rs)) n = (case map_of (seeds_of rs) n of Some c \<Rightarrow> Some c
     | None \<Rightarrow> if n \<in> falls queue (j_ordinal ` set rs) then Some ''dependency.rejected'' else None)"
  using reject_closure_codes [of queue "seeds_of rs" n] by (simp only: seeds_dom)

lemma rejected_iff:
  "map_of (reject_closure queue (seeds_of rs)) n \<noteq> None \<longleftrightarrow> n \<in> falls queue (j_ordinal ` set rs)"
proof -
  have "n \<in> falls queue (j_ordinal ` set rs)" if "map_of (seeds_of rs) n = Some c" for c
    using that seeds_dom [of rs] by (intro falls.seed) auto
  then show ?thesis by (auto simp: rejected_code split: option.splits)
qed

lemma rejected_keys: "set (bt_keys (reject_closure queue (seeds_of rs))) = falls queue (j_ordinal ` set rs)"
proof -
  have "dom (map_of (reject_closure queue (seeds_of rs))) = falls queue (j_ordinal ` set rs)"
    using rejected_iff by (auto simp del: not_None_eq)
  then show ?thesis by (simp only: bt_keys_def set_map dom_map_of_conv_image_fst)
qed

text \<open>
  C10: rejections take their dependents. Rejecting mutations removes from the queue exactly the
  rejected ones and those whose lifecycle depends on them, directly or through others; each of
  them leaves a rejection row, with the given code or \<open>dependency.rejected\<close>; every other
  mutation and rejection is as it was.
\<close>

theorem rejection_takes_dependents:
  assumes "mark_rejected x s rs w = (Inr h, w')" and "queued_where x (\<lambda>_. True) (w_db w) = Inr queue"
    and "distinct (map q_ordinal queue)"
  shows "let gone = falls queue (j_ordinal ` set rs); d = w_db w; d' = w_db w' in
    d_mutations d' = filter (\<lambda>(n, _). n \<notin> gone) (d_mutations d) \<and>
    (\<forall>q \<in> set queue. q_ordinal q \<in> gone \<longrightarrow>
       (\<exists>row. map_of (d_rejections d') (q_ordinal q) = Some row \<and> rr_name row = n_name (q_mutation q) \<and>
          (rr_code row = ''dependency.rejected'' \<or> \<lparr>j_ordinal = q_ordinal q, j_code = rr_code row\<rparr> \<in> set rs))) \<and>
    (\<forall>n. n \<notin> gone \<or> n \<notin> q_ordinal ` set queue \<longrightarrow> map_of (d_rejections d') n = map_of (d_rejections d) n)"
proof -
  let ?rejected = "reject_closure queue (seeds_of rs)"
  let ?hit = "filter (\<lambda>q. map_of ?rejected (q_ordinal q) \<noteq> None) queue"
  let ?gone = "falls queue (j_ordinal ` set rs)"
  have hit: "?hit = filter (\<lambda>q. q_ordinal q \<in> ?gone) queue" by (simp only: rejected_iff)
  obtain queue' where q': "queued_where x (\<lambda>_. True) (w_db w) = Inr queue'"
    and db: "w_db w' = (let rejected = reject_closure queue' (seeds_of rs) in fold delete_mutation (bt_keys rejected)
      ((w_db w)\<lparr>d_rejections := fold (\<lambda>q. bt_ins (q_ordinal q) (rejection_row_of x rejected q))
        (filter (\<lambda>q. map_of rejected (q_ordinal q) \<noteq> None) queue') (d_rejections (w_db w))\<rparr>))"
    using assms(1) by (rule mark_rejected_runs)
  from q' assms(2) have "queue' = queue" by simp
  with db have d': "w_db w' = fold delete_mutation (bt_keys ?rejected)
      ((w_db w)\<lparr>d_rejections := fold (\<lambda>q. bt_ins (q_ordinal q) (rejection_row_of x ?rejected q)) ?hit
        (d_rejections (w_db w))\<rparr>)"
    by (simp only: Let_def)
  have dist: "distinct (map q_ordinal ?hit)" using assms(3) by (simp add: distinct_map_filter)
  have rej: "map_of (d_rejections (w_db w')) n = (case find (\<lambda>q. q_ordinal q = n) ?hit of
      Some q \<Rightarrow> Some (rejection_row_of x ?rejected q) | None \<Rightarrow> map_of (d_rejections (w_db w)) n)" for n
    using map_of_fold_ins [OF dist] by (simp add: d' delete_mutations_kept)
  have found: "\<exists>row. map_of (d_rejections (w_db w')) (q_ordinal q) = Some row \<and>
      rr_name row = n_name (q_mutation q) \<and>
      (rr_code row = ''dependency.rejected'' \<or> \<lparr>j_ordinal = q_ordinal q, j_code = rr_code row\<rparr> \<in> set rs)"
    if q: "q \<in> set queue" "q_ordinal q \<in> ?gone" for q
  proof -
    have "find (\<lambda>q'. q_ordinal q' = q_ordinal q) ?hit = Some q"
      by (rule find_key [OF dist]) (simp only: hit, simp add: q)
    then have row: "map_of (d_rejections (w_db w')) (q_ordinal q) = Some (rejection_row_of x ?rejected q)"
      by (simp add: rej)
    have "map_of ?rejected (q_ordinal q) = Some ''dependency.rejected'' \<or>
        (\<exists>c. map_of ?rejected (q_ordinal q) = Some c \<and> \<lparr>j_ordinal = q_ordinal q, j_code = c\<rparr> \<in> set rs)"
    proof (cases "map_of (seeds_of rs) (q_ordinal q)")
      case None
      with q show ?thesis by (simp add: rejected_code)
    next
      case (Some c)
      then have "(q_ordinal q, c) \<in> set (rev (map (\<lambda>r. (j_ordinal r, j_code r)) rs))"
        by (intro map_of_SomeD) (simp add: map_of_bt_of)
      then obtain r where "r \<in> set rs" "j_ordinal r = q_ordinal q" "j_code r = c" by auto
      then have "\<lparr>j_ordinal = q_ordinal q, j_code = c\<rparr> \<in> set rs" by - (cases r, simp)
      with Some show ?thesis by (simp add: rejected_code)
    qed
    with row show ?thesis by (auto simp: rejection_row_of_def Let_def)
  qed
  have other: "map_of (d_rejections (w_db w')) n = map_of (d_rejections (w_db w)) n"
    if "n \<notin> ?gone \<or> n \<notin> q_ordinal ` set queue" for n
  proof -
    have "find (\<lambda>q. q_ordinal q = n) ?hit = None" using that unfolding hit find_None_iff by auto
    then show ?thesis by (simp add: rej)
  qed
  show ?thesis using found other by (simp add: Let_def d' delete_mutations_kept rejected_keys)
qed

end
