(* ===== verification/Freezing.thy ===== *)
theory Freezing
  imports Rejection "HOL-Library.Sublist"
begin

text \<open>
  What freezing a push selects.
\<close>

section \<open>Freezing\<close>

lemma subseq_subset: "subseq xs ys \<Longrightarrow> set xs \<subseteq> set ys"
  by (auto dest: list_emb_set)

lemma select_batch_sound:
  assumes "length sel < push_mutations"
  shows "\<exists>more. select_batch blocked unsent weight most qs sel = sel @ more \<and> subseq more qs \<and>
    length (sel @ more) \<le> push_mutations \<and>
    (\<forall>i < length more. \<not> is_blocked blocked unsent (map q_ordinal (sel @ take i more)) (more ! i) \<and>
       (sel @ take i more \<noteq> [] \<longrightarrow> weight (sel @ take (Suc i) more) \<le> most))"
  using assms
proof (induction qs arbitrary: sel)
  case Nil
  then show ?case by (intro exI [of _ "[]"]) simp
next
  case (Cons q qs)
  let ?skip = "is_blocked blocked unsent (map q_ordinal sel) q \<or> (sel \<noteq> [] \<and> most < weight (sel @ [q]))"
  show ?case
  proof (cases ?skip)
    case True
    from Cons.IH [OF Cons.prems] obtain more where
      "select_batch blocked unsent weight most qs sel = sel @ more" "subseq more qs"
      "length (sel @ more) \<le> push_mutations"
      "\<forall>i < length more. \<not> is_blocked blocked unsent (map q_ordinal (sel @ take i more)) (more ! i) \<and>
         (sel @ take i more \<noteq> [] \<longrightarrow> weight (sel @ take (Suc i) more) \<le> most)" by blast
    with True show ?thesis by (intro exI [of _ more]) (simp add: list_emb_Cons)
  next
    case False
    show ?thesis
    proof (cases "length sel + 1 = push_mutations")
      case True
      with False show ?thesis by (intro exI [of _ "[q]"]) (auto simp: not_less)
    next
      case more: False
      with Cons.prems have "length (sel @ [q]) < push_mutations" by simp
      from Cons.IH [OF this] obtain rest where r:
        "select_batch blocked unsent weight most qs (sel @ [q]) = (sel @ [q]) @ rest" "subseq rest qs"
        "length ((sel @ [q]) @ rest) \<le> push_mutations"
        "\<forall>i < length rest. \<not> is_blocked blocked unsent (map q_ordinal ((sel @ [q]) @ take i rest)) (rest ! i) \<and>
         ((sel @ [q]) @ take i rest \<noteq> [] \<longrightarrow> weight ((sel @ [q]) @ take (Suc i) rest) \<le> most)" by blast
      have "\<not> is_blocked blocked unsent (map q_ordinal (sel @ take i (q # rest))) ((q # rest) ! i) \<and>
         (sel @ take i (q # rest) \<noteq> [] \<longrightarrow> weight (sel @ take (Suc i) (q # rest)) \<le> most)"
        if "i < length (q # rest)" for i
        using that r(4) False by (cases i) (auto simp: not_less)
      with r(1-3) False more show ?thesis by (intro exI [of _ "q # rest"]) auto
    qed
  qed
qed

interpretation same_work: kept "(=) :: work \<Rightarrow> work \<Rightarrow> bool"
  by unfold_locales auto

lemma encode_push_reads: "encode_push x push w = (r, w') \<Longrightarrow> w' = w"
proof -
  have "keeps (=) (encode_push x push)"
    unfolding encode_push_def queued_all_def query_res_def push_models_def request_json_def client_id_def query_def
    by (intro same_work.keeps_rules)
  then show "encode_push x push w = (r, w') \<Longrightarrow> w' = w" by (auto dest: keepsD)
qed

lemma assign_push_db:
  "d_mutations (fold (\<lambda>n. update_mutation n (\<lambda>r. r\<lparr>mr_push := Some push\<rparr>)) ns d) =
   map (\<lambda>(n, r). (n, if n \<in> set ns then r\<lparr>mr_push := Some push\<rparr> else r)) (d_mutations d)"
  by (induction ns arbitrary: d) (auto simp: update_mutation_def)

lemma set_map_filter': "set (List.map_filter f xs) = {y. \<exists>x \<in> set xs. f x = Some y}"
  by (induction xs) (auto simp: List.map_filter_simps split: option.splits)

lemma pushes_one:
  assumes "pushes d = []" and "n \<in> set ns" and "n \<in> fst ` set (d_mutations d)"
    and "d_mutations d' = map (\<lambda>(n, r). (n, if n \<in> set ns then r\<lparr>mr_push := Some push\<rparr> else r)) (d_mutations d)"
  shows "push_in_flight d' = Inr (Some push)"
proof -
  have none: "mr_push r = None" if "(k, r) \<in> set (d_mutations d)" for k r
  proof (rule ccontr)
    assume "mr_push r \<noteq> None"
    then obtain p where "mr_push r = Some p" by blast
    then have "(case (k, r) of (_, r) \<Rightarrow> mr_push r) = Some p" by simp
    with that have "p \<in> set (List.map_filter (\<lambda>(_, r). mr_push r) (d_mutations d))"
      unfolding set_map_filter' by blast
    then have "p \<in> set (pushes d)" by (simp add: pushes_def)
    with assms(1) show False by simp
  qed
  have "set (List.map_filter (\<lambda>(_, r). mr_push r) (d_mutations d')) = {push}"
    using assms(2,3) none unfolding assms(4) set_map_filter' by (force split: if_splits)
  then have "set (pushes d') = {push}" by (simp add: pushes_def)
  moreover have "distinct (pushes d')" by (simp add: pushes_def)
  ultimately have "pushes d' = [push]"
    by (cases "pushes d'"; cases "tl (pushes d')") auto
  then show ?thesis by (simp add: push_in_flight_def)
qed


text \<open>What a new push is made of: the queue it was selected from, the batch, its number.\<close>

definition new_push :: "ext \<Rightarrow> schema \<Rightarrow> nat \<Rightarrow> db \<Rightarrow> queued list \<Rightarrow> queued list \<Rightarrow> nat \<Rightarrow> db \<Rightarrow> bool" where
  "new_push x s limit d queue batch push d' \<longleftrightarrow>
     queued_where x (\<lambda>_. True) d = Inr queue \<and> batch \<noteq> [] \<and> subseq batch queue \<and>
     length batch \<le> push_mutations \<and> (\<forall>q \<in> set batch. q_push q = None) \<and>
     (\<forall>i < length batch. \<not> is_blocked (map fst (prerequisite_errors d))
        (map q_ordinal (filter (\<lambda>q. q_push q = None) queue)) (map q_ordinal (take i batch)) (batch ! i)) \<and>
     (\<exists>c. d_client d = Some c \<and> push = cl_next_push c \<and>
        (1 < length batch \<longrightarrow> length (canonical_json x
           (request_of (cl_id c) push (counters_json (declared_models s)) batch)) \<le> limit) \<and>
        d_client d' = Some (c\<lparr>cl_next_push := push + 1,
          cl_push_models := Some (x_text x (counters_json (declared_models s)))\<rparr>)) \<and>
     d_mutations d' = map (\<lambda>(n, r). (n, if n \<in> q_ordinal ` set batch then r\<lparr>mr_push := Some push\<rparr> else r))
        (d_mutations d)"

lemma freeze_cases:
  assumes "freeze x s limit w = (Inr (Some b), w')"
  obtains (retry) push where "push_in_flight (w_db w) = Inr (Some push)" and "encode_push x push w = (Inr b, w)"
      and "w' = w"
  | (fresh) queue batch push where "push_in_flight (w_db w) = Inr None"
      and "new_push x s limit (w_db w) queue batch push (w_db w')" and "encode_push x push w' = (Inr b, w')"
proof -
  have l: "limit \<noteq> 0"
  proof
    assume "limit = 0"
    with assms show False by (simp add: freeze_def)
  qed
  from assms l obtain flying where f: "push_in_flight (w_db w) = Inr flying"
    by (cases "push_in_flight (w_db w)") (auto simp: freeze_def in_flight_push_def query_res_def bindM_def)
  show thesis
  proof (cases flying)
    case (Some push)
    with assms l f have "bindM (encode_push x push) (\<lambda>b. retM (Some b)) w = (Inr (Some b), w')"
      by (simp add: freeze_def in_flight_push_def query_res_def bindM_def [of "readM _"])
    then have e: "encode_push x push w = (Inr b, w')" by (auto simp: bindM_ok_iff)
    with encode_push_reads [OF e] f Some show thesis by (intro retry) simp_all
  next
    case None
    let ?models = "counters_json (declared_models s)"
    let ?next = "case d_client (w_db w) of None \<Rightarrow> 1 | Some c \<Rightarrow> cl_next_push c"
    let ?id = "case d_client (w_db w) of None \<Rightarrow> [] | Some c \<Rightarrow> cl_id c"
    from assms l f None obtain queue where q: "queued_where x (\<lambda>_. True) (w_db w) = Inr queue"
      by (cases "queued_where x (\<lambda>_. True) (w_db w)")
        (auto simp: freeze_def in_flight_push_def query_res_def queued_all_def bindM_def)
    let ?free = "filter (\<lambda>q. q_push q = None) queue"
    let ?weight = "\<lambda>qs. length (canonical_json x (request_of ?id ?next ?models qs))"
    let ?batch = "select_batch (map fst (prerequisite_errors (w_db w))) (map q_ordinal ?free) ?weight limit ?free []"
    from assms l f None q have run: "(if ?batch = [] then retM None
        else bindM allocate_push (\<lambda>push. bindM (assign_push (map q_ordinal ?batch) push)
          (\<lambda>_. bindM (set_push_models x ?models) (\<lambda>_. bindM (encode_push x push) (\<lambda>b. retM (Some b)))))) w =
        (Inr (Some b), w')"
      by (simp add: freeze_def in_flight_push_def query_res_def queued_all_def prerequisite_keys_def
          next_push_def client_id_def query_def bindM_def [of "readM _"] Let_def)
    then have ne: "?batch \<noteq> []" by auto
    with run have "bindM allocate_push (\<lambda>push. bindM (assign_push (map q_ordinal ?batch) push)
        (\<lambda>_. bindM (set_push_models x ?models) (\<lambda>_. bindM (encode_push x push) (\<lambda>b. retM (Some b))))) w =
        (Inr (Some b), w')" by simp
    then obtain push w1 w2 w3 where r: "allocate_push w = (Inr push, w1)"
        "assign_push (map q_ordinal ?batch) push w1 = (Inr (), w2)"
        "set_push_models x ?models w2 = (Inr (), w3)" "encode_push x push w3 = (Inr b, w')"
      unfolding bindM_ok_iff by auto
    from encode_push_reads [OF r(4)] r(4) have w3: "w3 = w'" "encode_push x push w' = (Inr b, w')" by simp_all
    from r(1) obtain c where c: "d_client (w_db w) = Some c" "push = cl_next_push c"
        "w_db w1 = (w_db w)\<lparr>d_client := Some (c\<lparr>cl_next_push := push + 1\<rparr>)\<rparr>"
      by (auto simp: allocate_push_def current_client_def query_res_def update_client_def exec_all_def exec_def
          bindM_ok_iff bump_value_def ok_or_def Let_def split: option.splits if_splits)
    from forM_exec_all [of "''ahead_mutation''" "\<lambda>n. update_mutation n (\<lambda>r. r\<lparr>mr_push := Some push\<rparr>)"
        "map q_ordinal ?batch" w1] r(2)
    have d2: "w_db w2 = fold (\<lambda>n. update_mutation n (\<lambda>r. r\<lparr>mr_push := Some push\<rparr>)) (map q_ordinal ?batch) (w_db w1)"
      by (auto simp: assign_push_def)
    have keep: "d_client (fold (\<lambda>n. update_mutation n f) ns d) = d_client d" for f ns d
      by (induction ns arbitrary: d) (auto simp: update_mutation_def)
    have d3: "w_db w' = (w_db w2)\<lparr>d_client := map_option (\<lambda>r. r\<lparr>cl_push_models := Some (x_text x ?models)\<rparr>)
        (d_client (w_db w2))\<rparr>"
      using r(3) w3 by (auto simp: set_push_models_def update_client_def exec_all_def exec_def Let_def)
    from select_batch_sound [of "[]" "map fst (prerequisite_errors (w_db w))" "map q_ordinal ?free" ?weight limit ?free]
    have s: "subseq ?batch ?free" "length ?batch \<le> push_mutations"
        "\<forall>i < length ?batch. \<not> is_blocked (map fst (prerequisite_errors (w_db w))) (map q_ordinal ?free)
           (map q_ordinal (take i ?batch)) (?batch ! i) \<and>
           (take i ?batch \<noteq> [] \<longrightarrow> ?weight (take (Suc i) ?batch) \<le> limit)"
      by (auto simp: push_mutations_def)
    have wt: "1 < length ?batch \<longrightarrow> ?weight ?batch \<le> limit"
    proof
      assume g: "1 < length ?batch"
      then have "take (length ?batch - 1) ?batch \<noteq> []" "length ?batch - 1 < length ?batch" by auto
      with s(3) have "?weight (take (Suc (length ?batch - 1)) ?batch) \<le> limit" by blast
      with g show "?weight ?batch \<le> limit" by simp
    qed
    have sub: "subseq ?batch queue" using s(1) by (meson subseq_filter_left subseq_order.trans)
    have "set ?batch \<subseteq> set ?free" using s(1) by (rule subseq_subset)
    then have unsent: "\<forall>q \<in> set ?batch. q_push q = None" unfolding set_filter by blast
    have cl: "d_client (w_db w') = Some (c\<lparr>cl_next_push := push + 1, cl_push_models := Some (x_text x ?models)\<rparr>)"
      by (simp add: d3 d2 keep c(3))
    have mu: "d_mutations (w_db w') = map (\<lambda>(n, r). (n, if n \<in> q_ordinal ` set ?batch
        then r\<lparr>mr_push := Some push\<rparr> else r)) (d_mutations (w_db w))"
      by (simp add: d3 d2 c(3) assign_push_db)
    have "\<exists>c. d_client (w_db w) = Some c \<and> push = cl_next_push c \<and>
        (1 < length ?batch \<longrightarrow> length (canonical_json x (request_of (cl_id c) push ?models ?batch)) \<le> limit) \<and>
        d_client (w_db w') = Some (c\<lparr>cl_next_push := push + 1, cl_push_models := Some (x_text x ?models)\<rparr>)"
      using c(1,2) wt cl by (intro exI [of _ c]) simp
    moreover have "\<forall>i < length ?batch. \<not> is_blocked (map fst (prerequisite_errors (w_db w)))
        (map q_ordinal ?free) (map q_ordinal (take i ?batch)) (?batch ! i)"
      using s(3) by blast
    ultimately have "new_push x s limit (w_db w) queue ?batch push (w_db w')"
      unfolding new_push_def using q ne sub s(2) unsent mu by (intro conjI)
    with f None w3 show thesis by (intro fresh) simp_all
  qed
qed

lemma queued_where_all:
  assumes "queued_where x (\<lambda>_. True) d = Inr queue"
  obtains ops where "queue = map (queued_of (d_deps d) (d_prereqs d) ops) (d_mutations d)"
proof (cases "d_mutations d = []")
  case True
  with assms that [of "[]"] show ?thesis by (simp add: queued_where_def)
next
  case False
  have "filter (\<lambda>(n, _). True) (d_mutations d) = d_mutations d" "filter (\<lambda>((n, _), _). True) (d_deps d) = d_deps d"
    "filter (\<lambda>((n, _), _). True) (d_prereqs d) = d_prereqs d"
    by (auto intro!: filter_True)
  with assms False that show ?thesis
    by (auto simp: queued_where_def Let_def bindE_Inr_iff case_prod_beta split: if_splits)
qed

lemma queue_ordinals:
  assumes "queued_where x (\<lambda>_. True) d = Inr queue"
  shows "map q_ordinal queue = map fst (d_mutations d)"
  using assms by (elim queued_where_all) (auto simp: queued_of_def)

lemma queue_prerequisites:
  assumes "queued_where x (\<lambda>_. True) d = Inr queue" and "q \<in> set queue" and "k \<in> set (n_prerequisites (q_mutation q))"
  shows "k \<in> set (map fst (prerequisite_errors d))"
proof -
  obtain ops where "queue = map (queued_of (d_deps d) (d_prereqs d) ops) (d_mutations d)"
    using assms(1) by (rule queued_where_all)
  with assms(2,3) have "k \<in> (\<lambda>((_, k), _). k) ` set (d_prereqs d)" by (force simp: queued_of_def)
  then show ?thesis by (simp add: prerequisite_errors_def comp_def)
qed

lemma nothing_in_flight:
  assumes "push_in_flight d = Inr None" and "queued_where x (\<lambda>_. True) d = Inr queue" and "q \<in> set queue"
  shows "q_push q = None"
proof -
  obtain ops where "queue = map (queued_of (d_deps d) (d_prereqs d) ops) (d_mutations d)"
    using assms(2) by (rule queued_where_all)
  with assms(3) obtain n r where r: "(n, r) \<in> set (d_mutations d)" "q_push q = mr_push r" by (auto simp: queued_of_def)
  have "pushes d = []" using assms(1) by (auto simp: push_in_flight_def split: list.splits)
  then have "set (pushes d) = {}" by simp
  then have "\<forall>e \<in> set (d_mutations d). (case e of (_, r) \<Rightarrow> mr_push r) \<noteq> Some p" for p
    by (auto simp: pushes_def set_map_filter')
  from this [of "the (mr_push r)"] r show ?thesis by (cases "mr_push r") force+
qed

lemma new_push_flies:
  assumes "new_push x s limit d queue batch push d'" and "push_in_flight d = Inr None"
  shows "push_in_flight d' = Inr (Some push)"
proof -
  from assms(1) have q: "queued_where x (\<lambda>_. True) d = Inr queue" and ne: "batch \<noteq> []" and sub: "subseq batch queue"
    and mu: "d_mutations d' = map (\<lambda>(n, r). (n, if n \<in> set (map q_ordinal batch)
        then r\<lparr>mr_push := Some push\<rparr> else r)) (d_mutations d)"
    by (simp_all add: new_push_def)
  obtain q0 where q0: "q0 \<in> set batch" using ne by (cases batch) auto
  then have "q_ordinal q0 \<in> set (map q_ordinal queue)" using subseq_subset [OF sub] by auto
  then have "q_ordinal q0 \<in> fst ` set (d_mutations d)" by (simp only: queue_ordinals [OF q] set_map)
  moreover have "pushes d = []" using assms(2) by (auto simp: push_in_flight_def split: list.splits)
  moreover have "q_ordinal q0 \<in> set (map q_ordinal batch)" using q0 by simp
  ultimately show ?thesis using mu by (intro pushes_one)
qed


end
