(* ===== verification/Acknowledge.thy ===== *)
theory Acknowledge
  imports Freezing
begin

text \<open>
  What acknowledging a push does: which receipts are refused, and how an accepted one completes
  the push in flight.
\<close>

text \<open>What staging, settling and rebuilding leave as it is: the client row, the push of every
  queued mutation, and the dependencies.\<close>

definition push_marks :: "db \<Rightarrow> (nat \<times> nat option) list" where
  "push_marks d = map (\<lambda>(n, r). (n, mr_push r)) (d_mutations d)"

definition same_pushes :: "db \<Rightarrow> db \<Rightarrow> bool" where
  "same_pushes d d' \<longleftrightarrow> d_client d' = d_client d \<and> push_marks d' = push_marks d \<and> d_deps d' = d_deps d"

interpretation same_pushes: kept_staging same_pushes
  by unfold_locales
    (auto simp: same_pushes_def push_marks_def insert_operation_row_def update_mutation_def comp_def case_prod_beta
      split: if_splits)

lemma same_pushes_authority: "keeps (on_staging same_pushes) (stage_authority x s r)"
  by (rule same_pushes.keeps_stage_authority) (simp add: same_pushes_def push_marks_def)

lemma same_pushes_settle: "keeps (on_db same_pushes) (foldM (settle_mutation x s wire covered) qs h)"
  unfolding settle_mutation_def companion_children_def settle_companion_def
  by (intro same_pushes.keeps_row_level same_pushes.keeps_base same_pushes.keeps_rules)

lemma same_pushes_receipt: "keeps (on_db same_pushes) (with_held h (stage_receipt x s n rs))"
  unfolding stage_receipt_def
  by (intro same_pushes.keeps_with_held same_pushes.staging.keeps_rules same_pushes.keeps_isolated
      same_pushes_authority)

lemma stage_receipt_stale: "stage_receipt x s n rs a = (Inr rep, b) \<Longrightarrow> \<not> y_stale rep"
proof -
  let ?f = "\<lambda>r rep. bindM (stage_isolated x s r)
     (\<lambda>(applied, entry). retM (add_staged (applied, map_option (with_batch n) entry) rep))"
  have "y_stale rep = y_stale acc" if "foldM ?f rs acc a = (Inr rep, b)" for acc
    using that
  proof (induction rs arbitrary: acc a)
    case (Cons r rs)
    then obtain acc' a' where "?f r acc a = (Inr acc', a')" "foldM ?f rs acc' a' = (Inr rep, b)"
      unfolding foldM.simps bindM_ok_iff by blast
    from this(1) have "y_stale acc' = y_stale acc" by (auto simp: bindM_ok_iff add_staged_def split: prod.splits)
    with Cons.IH [OF \<open>foldM ?f rs acc' a' = (Inr rep, b)\<close>] show ?case by simp
  qed simp
  then show "stage_receipt x s n rs a = (Inr rep, b) \<Longrightarrow> \<not> y_stale rep"
    by (auto simp: stage_receipt_def report_default_def)
qed

text \<open>The checks read only: a receipt they refuse changes nothing.\<close>

definition receipt_check :: "nat \<Rightarrow> receipt \<Rightarrow> db \<Rightarrow> nat option res" where
  "receipt_check n r d =
     (if p_batch r \<noteq> n then Inl (invalid ''receipt answers another batch'')
      else if p_client r \<noteq> (case d_client d of None \<Rightarrow> [] | Some c \<Rightarrow> cl_id c)
      then Inl (invalid ''receipt answers another client'')
      else (case d_client d of None \<Rightarrow> Inl (invalid ''client row missing'')
       | Some c \<Rightarrow>
         if n \<le> cl_last_completed c then Inr None
         else (case push_in_flight d of Inl e \<Rightarrow> Inl e
           | Inr None \<Rightarrow> Inl (invalid ''unknown batch receipt'')
           | Inr (Some push) \<Rightarrow> if push \<noteq> n then Inl (invalid ''receipt does not answer the push in flight'')
               else Inr (Some push))))"

lemma check_receipt_eval: "check_receipt n r w = (receipt_check n r (w_db w), w)"
  by (auto simp: check_receipt_def receipt_check_def client_id_def query_def last_completed_push_def
      current_client_def query_res_def in_flight_push_def bindM_def ensure_def ok_or_def
      split: sum.splits option.splits)

lemma bindM_okE:
  assumes "bindM m f s = (Inr b, u)"
  obtains a t where "m s = (Inr a, t)" and "f a t = (Inr b, u)"
  using assms by (auto simp: bindM_ok_iff)

text \<open>A receipt that is accepted, step by step.\<close>

lemma acknowledge_steps:
  assumes "acknowledge x s n r w = (Inr rep, w')" and "receipt_check n r (w_db w) = Inr (Some push)"
  obtains qs wire covered h0 h1 w1 rep1 h2 w2 h3 w3 w4 w5 more where
    "batch_of x push w = (Inr qs, w)" and "check_coverage x s r qs = Inr (wire, covered)"
    and "foldM (settle_mutation x s wire covered) (accepted_of r qs) h0 w = (Inr h1, w1)"
    and "with_held h1 (stage_receipt x s n (p_records r)) w1 = (Inr (rep1, h2), w2)"
    and "mark_rejected x s (p_rejections r) w2 = (Inr h3, w3)"
    and "delete_mutations (map q_ordinal (accepted_of r qs)) w3 = (Inr (), w4)"
    and "rebuild_held x s (fold (\<lambda>(e, k). bt_ins e k) h3 h2) w4 = (Inr more, w5)"
    and "set_last_completed_push push w5 = (Inr (), w')"
    and "rep = rep1\<lparr>y_reports := y_reports rep1 @ more\<rparr>"
proof -
  have b: "batch_of x push w = (r, w'') \<Longrightarrow> w'' = w" for r w''
    by (auto simp: batch_of_def queued_all_def query_res_def bindM_def split: sum.splits)
  have s: "set_last_completed_push push v = (Inr a, v') \<Longrightarrow> a = ()" "delete_mutations ns v = (Inr a, v') \<Longrightarrow> a = ()"
    for a :: unit and v v' ns by simp_all
  from assms have "bindM (batch_of x push)
          (\<lambda>qs. bindM (liftM (check_coverage x s r qs))
          (\<lambda>(wire, covered).
             bindM (liftM (keys_held x s (concat (map (\<lambda>q. all_ops (q_mutation q)) qs)) []))
             (\<lambda>affected. bindM (foldM (settle_mutation x s wire covered) (accepted_of r qs) affected)
             (\<lambda>affected'. bindM (with_held affected' (stage_receipt x s n (p_records r)))
             (\<lambda>(rep, held). bindM (mark_rejected x s (p_rejections r))
             (\<lambda>rejected_keys. bindM (delete_mutations (map q_ordinal (accepted_of r qs)))
             (\<lambda>_. bindM (rebuild_held x s (fold (\<lambda>(e, k). bt_ins e k) rejected_keys held))
             (\<lambda>more. bindM (set_last_completed_push push)
             (\<lambda>_. retM (rep\<lparr>y_reports := y_reports rep @ more\<rparr>)))))))))) w = (Inr rep, w')"
    by (simp add: acknowledge_def bindM_def [of "check_receipt n r"] check_receipt_eval)
  then show thesis
    by (elim bindM_okE; clarsimp; elim bindM_okE; clarsimp; elim bindM_okE; clarsimp) (rule that; (assumption | simp)?; drule b; simp)
qed


text \<open>A receipt covers an operation when one of its records has the operation's key.\<close>

definition covers :: "ext \<Rightarrow> schema \<Rightarrow> receipt \<Rightarrow> operation \<Rightarrow> bool" where
  "covers x s r op \<longleftrightarrow> (\<exists>a \<in> set (p_records r). \<exists>k k'.
     record_key x s (a_model a) (a_identity a) = Inr k \<and>
     record_key x s (o_model op) (o_identity op) = Inr k' \<and> encoded x k = encoded x k')"

lemma encoded_keys_set:
  "encoded_keys x s mis = Inr ks \<Longrightarrow>
   set ks = {e. \<exists>(m, i) \<in> set mis. \<exists>k. record_key x s m i = Inr k \<and> e = encoded x k}"
proof -
  have "set ks = set acc \<union> {e. \<exists>(m, i) \<in> set mis. \<exists>k. record_key x s m i = Inr k \<and> e = encoded x k}"
    if "efold (\<lambda>(m, i) acc. bindE (record_key x s m i) (\<lambda>k. Inr (bs_ins (encoded x k) acc))) mis acc = Inr ks" for acc
    using that
  proof (induction mis arbitrary: acc)
    case (Cons mi mis)
    obtain m i where mi: "mi = (m, i)" by (rule prod.exhaust)
    from Cons.prems obtain k where k: "record_key x s m i = Inr k"
        "efold (\<lambda>(m, i) acc. bindE (record_key x s m i) (\<lambda>k. Inr (bs_ins (encoded x k) acc))) mis
          (bs_ins (encoded x k) acc) = Inr ks"
      by (auto simp: mi res_elims)
    from Cons.IH [OF k(2)] k(1) mi show ?case by auto
  qed simp
  then show "encoded_keys x s mis = Inr ks \<Longrightarrow> ?thesis" by (fastforce simp: encoded_keys_def)
qed

lemma find_NoneD: "find P ys = None \<Longrightarrow> y \<in> set ys \<Longrightarrow> \<not> P y"
  by (induction ys) (auto split: if_splits)

lemma coverage_refused:
  assumes "(\<exists>j \<in> set (p_rejections r). j_ordinal j \<notin> q_ordinal ` set qs) \<or>
    (\<exists>q \<in> set qs. q_ordinal q \<notin> j_ordinal ` set (p_rejections r) \<and>
       (\<exists>op \<in> set (n_operations (q_mutation q)). \<not> covers x s r op))"
  shows "\<exists>e. check_coverage x s r qs = Inl e"
proof (rule ccontr)
  assume "\<nexists>e. check_coverage x s r qs = Inl e"
  then obtain wc where "check_coverage x s r qs = Inr wc" by (cases "check_coverage x s r qs") auto
  then obtain covered wire where w: "\<forall>j \<in> set (p_rejections r). j_ordinal j \<in> q_ordinal ` set qs"
      "encoded_keys x s (map (\<lambda>a. (a_model a, a_identity a)) (p_records r)) = Inr covered"
      "encoded_keys x s (map op_key (concat (map (\<lambda>q. n_operations (q_mutation q)) (accepted_of r qs)))) = Inr wire"
      "find (\<lambda>k. k \<notin> set covered) wire = None"
    unfolding check_coverage_def by (auto simp: res_elims split: option.splits)
  with assms obtain q op where q: "q \<in> set qs" "q_ordinal q \<notin> j_ordinal ` set (p_rejections r)"
      "op \<in> set (n_operations (q_mutation q))" "\<not> covers x s r op" by blast
  have ok: "\<exists>k. record_key x s m i = Inr k" if "(m, i) \<in> set mis" "encoded_keys x s mis = Inr ks" for m i mis ks
  proof -
    have "\<exists>k. record_key x s m i = Inr k"
      if "(m, i) \<in> set mis" "efold (\<lambda>(m, i) acc. bindE (record_key x s m i) (\<lambda>k. Inr (bs_ins (encoded x k) acc))) mis acc = Inr ks" for acc
      using that by (induction mis arbitrary: acc) (auto simp: res_elims)
    with that show ?thesis unfolding encoded_keys_def by blast
  qed
  have "op_key op \<in> set (map op_key (concat (map (\<lambda>q. n_operations (q_mutation q)) (accepted_of r qs))))"
    using q by (auto simp: accepted_of_def)
  then have "\<exists>k. record_key x s (o_model op) (o_identity op) = Inr k"
    using ok [OF _ w(3), of "o_model op" "o_identity op"] by (simp add: op_key_def)
  then obtain k where k: "record_key x s (o_model op) (o_identity op) = Inr k" ..
  have "encoded x k \<in> set wire"
    unfolding encoded_keys_set [OF w(3)] using k q
    by (force simp: accepted_of_def op_key_def)
  with find_NoneD [OF w(4)] have "encoded x k \<in> set covered" by blast
  then have "covers x s r op" using k unfolding encoded_keys_set [OF w(2)] covers_def by (auto; metis)
  with q(4) show False ..
qed

text \<open>
  C14: a receipt that does not belong changes nothing. One for another batch, another client or
  a push that is not in flight is an error; one for a push already completed is stale. A receipt
  for the push in flight is an error when it rejects a mutation that is not in the batch, or when
  some operation of a mutation it accepts has no record of it: none of its records has that
  operation's record key. In all of these the database is as it was.
\<close>

theorem acknowledge_refuses:
  assumes "d_client (w_db w) = Some c"
  shows "if p_batch r \<noteq> n \<or> p_client r \<noteq> cl_id c then \<exists>e. acknowledge x s n r w = (Inl e, w)
    else if n \<le> cl_last_completed c
    then acknowledge x s n r w = (Inr (report_default\<lparr>y_stale := True\<rparr>), w)
    else if push_in_flight (w_db w) \<noteq> Inr (Some n) then \<exists>e. acknowledge x s n r w = (Inl e, w)
    else \<forall>qs. batch_of x n w = (Inr qs, w) \<and>
      ((\<exists>j \<in> set (p_rejections r). j_ordinal j \<notin> q_ordinal ` set qs) \<or>
       (\<exists>q \<in> set qs. q_ordinal q \<notin> j_ordinal ` set (p_rejections r) \<and>
          (\<exists>op \<in> set (n_operations (q_mutation q)). \<not> covers x s r op))) \<longrightarrow>
      (\<exists>e. acknowledge x s n r w = (Inl e, w))"
proof -
  have refused: "\<exists>e. acknowledge x s n r w = (Inl e, w)"
    if "receipt_check n r (w_db w) = Inr (Some n)" "batch_of x n w = (Inr qs, w)" "check_coverage x s r qs = Inl e" for qs e
    using that by (simp add: acknowledge_def bindM_def [of "check_receipt n r"] check_receipt_eval)
  show ?thesis
    using assms
    by (auto simp: acknowledge_def bindM_def [of "check_receipt n r"] check_receipt_eval receipt_check_def
        split: sum.splits option.splits dest!: coverage_refused [where x = x and s = s])
qed

lemma accepted_or_rejected:
  "check_coverage x s r qs = Inr wc \<Longrightarrow> q \<in> set qs \<Longrightarrow>
   q \<in> set (accepted_of r qs) \<or> q_ordinal q \<in> j_ordinal ` set (p_rejections r)"
  by (auto simp: accepted_of_def)

lemma batch_ordinals:
  assumes "batch_of x push w = (Inr qs, w)" and "(n, r) \<in> set (d_mutations (w_db w))" and "mr_push r = Some push"
  shows "n \<in> q_ordinal ` set qs"
proof -
  from assms(1) obtain queue where q: "queued_where x (\<lambda>_. True) (w_db w) = Inr queue"
    "qs = filter (\<lambda>q. q_push q = Some push) queue"
    by (auto simp: batch_of_def queued_all_def query_res_def bindM_def split: sum.splits)
  obtain ops where "queue = map (queued_of (d_deps (w_db w)) (d_prereqs (w_db w)) ops) (d_mutations (w_db w))"
    using q(1) by (rule queued_where_all)
  with q(2) assms(2,3) show ?thesis by (force simp: queued_of_def)
qed

lemma filter_marks:
  "map (\<lambda>(n, r). (n, g r)) (filter (\<lambda>(k, _). P k) m) = filter (\<lambda>(k, _). P k) (map (\<lambda>(n, r). (n, g r)) m)"
  by (induction m) auto

text \<open>
  C13: an accepted receipt completes its push. The push answered was the one in flight; after
  it nothing is in flight, the push is recorded as the last completed and its frozen declaration
  is forgotten, every mutation of its batch has left the queue, and the mutations that remain were
  queued and unsent before. The same receipt again is stale and changes nothing.
\<close>

theorem acknowledge_completes:
  assumes "acknowledge x s n r w = (Inr rep, w')" and "\<not> y_stale rep"
  shows "push_in_flight (w_db w) = Inr (Some n) \<and> push_in_flight (w_db w') = Inr None \<and>
    (\<exists>c. d_client (w_db w) = Some c \<and> cl_last_completed c < n \<and>
       d_client (w_db w') = Some (c\<lparr>cl_last_completed := n, cl_push_models := None\<rparr>)) \<and>
    set (push_marks (w_db w')) \<subseteq> {(k, None) |k. (k, None) \<in> set (push_marks (w_db w))} \<and>
    acknowledge x s n r w' = (Inr (report_default\<lparr>y_stale := True\<rparr>), w')"
proof -
  have chk: "receipt_check n r (w_db w) = Inr (Some n)"
  proof (cases "receipt_check n r (w_db w)")
    case (Inl e)
    with assms(1) show ?thesis by (simp add: acknowledge_def bindM_def [of "check_receipt n r"] check_receipt_eval)
  next
    case (Inr f)
    with assms show ?thesis
      by (cases f) (auto simp: acknowledge_def bindM_def [of "check_receipt n r"] check_receipt_eval
        receipt_check_def split: sum.splits option.splits if_splits)
  qed
  then obtain c where c: "d_client (w_db w) = Some c" "cl_last_completed c < n" "p_batch r = n" "p_client r = cl_id c"
      "push_in_flight (w_db w) = Inr (Some n)"
    by (auto simp: receipt_check_def split: if_splits option.splits sum.splits)
  obtain qs wire covered h0 h1 w1 rep1 h2 w2 h3 w3 w4 w5 more where r:
    "batch_of x n w = (Inr qs, w)" "check_coverage x s r qs = Inr (wire, covered)"
    "foldM (settle_mutation x s wire covered) (accepted_of r qs) h0 w = (Inr h1, w1)"
    "with_held h1 (stage_receipt x s n (p_records r)) w1 = (Inr (rep1, h2), w2)"
    "mark_rejected x s (p_rejections r) w2 = (Inr h3, w3)"
    "delete_mutations (map q_ordinal (accepted_of r qs)) w3 = (Inr (), w4)"
    "rebuild_held x s (fold (\<lambda>(e, k). bt_ins e k) h3 h2) w4 = (Inr more, w5)"
    "set_last_completed_push n w5 = (Inr (), w')"
    using acknowledge_steps [OF assms(1) chk] by metis
  have s12: "same_pushes (w_db w) (w_db w2)"
    using keepsD [OF same_pushes_settle r(3)] keepsD [OF same_pushes_receipt r(4)]
    by (auto simp: on_db_def same_pushes_def)
  obtain queue where d3: "w_db w3 = (let rejected = reject_closure queue (seeds_of (p_rejections r)) in
      fold delete_mutation (bt_keys rejected)
      ((w_db w2)\<lparr>d_rejections := fold (\<lambda>q. bt_ins (q_ordinal q) (rejection_row_of x rejected q))
        (filter (\<lambda>q. map_of rejected (q_ordinal q) \<noteq> None) queue) (d_rejections (w_db w2))\<rparr>))"
    using r(5) by (rule mark_rejected_runs)
  let ?gone = "falls queue (j_ordinal ` set (p_rejections r)) \<union> q_ordinal ` set (accepted_of r qs)"
  have d4: "w_db w4 = fold delete_mutation (map q_ordinal (accepted_of r qs)) (w_db w3)"
    using r(6) by (rule delete_mutationsE)
  have m4: "d_mutations (w_db w4) = filter (\<lambda>(k, _). k \<notin> ?gone) (d_mutations (w_db w2))"
    unfolding d4 d3 Let_def delete_mutations_kept rejected_keys
    by (auto simp: case_prod_beta intro!: filter_cong)
  have c4: "d_client (w_db w4) = d_client (w_db w2)"
    unfolding d4 d3 Let_def delete_mutations_kept by simp
  have s5: "same_pushes (w_db w4) (w_db w5)"
    using keepsD [OF same_pushes.keeps_rebuild_held r(7)] by (simp add: on_db_def)
  have d': "w_db w' = (w_db w5)\<lparr>d_client := map_option (\<lambda>c. c\<lparr>cl_last_completed := n, cl_push_models := None\<rparr>)
      (d_client (w_db w5))\<rparr>"
    using r(8) by (auto simp: set_last_completed_push_def update_client_def exec_all_def exec_def Let_def)
  have cl: "d_client (w_db w') = Some (c\<lparr>cl_last_completed := n, cl_push_models := None\<rparr>)"
    using s12 s5 c4 c(1) d' by (simp add: same_pushes_def)
  have marks: "push_marks (w_db w') = filter (\<lambda>(k, _). k \<notin> ?gone) (push_marks (w_db w))"
  proof -
    have "push_marks (w_db w') = push_marks (w_db w4)" using s5 d' by (simp add: same_pushes_def push_marks_def)
    also have "\<dots> = filter (\<lambda>(k, _). k \<notin> ?gone) (push_marks (w_db w2))"
      unfolding push_marks_def m4 by (rule filter_marks)
    finally show ?thesis using s12 by (simp add: same_pushes_def)
  qed
  have unsent: "p = None" if kp: "(k, p) \<in> set (push_marks (w_db w'))" for k p
  proof (rule ccontr)
    assume "p \<noteq> None"
    then obtain p' where p: "p = Some p'" by blast
    from kp marks have "(k, p) \<in> set (push_marks (w_db w))" and out: "k \<notin> ?gone" by auto
    then obtain row where row: "(k, row) \<in> set (d_mutations (w_db w))" "mr_push row = Some p'"
      by (auto simp: push_marks_def p)
    have "p' \<in> set (pushes (w_db w))" using row by (force simp: pushes_def set_map_filter')
    moreover have "pushes (w_db w) = [n]" using c(5) by (auto simp: push_in_flight_def split: list.splits)
    ultimately have "p' = n" by simp
    with batch_ordinals [OF r(1) row(1)] row(2) obtain q where q: "q \<in> set qs" "q_ordinal q = k" by auto
    from accepted_or_rejected [OF r(2) q(1)] q(2) out show False by (auto intro: falls.seed)
  qed
  have "set (List.map_filter (\<lambda>(_, r). mr_push r) (d_mutations (w_db w'))) = {}"
  proof -
    have "mr_push row = None" if "(k, row) \<in> set (d_mutations (w_db w'))" for k row
      using that unsent [of k "mr_push row"] by (force simp: push_marks_def)
    then show ?thesis unfolding set_map_filter' by fastforce
  qed
  then have "set (pushes (w_db w')) = {}" by (simp add: pushes_def)
  then have "push_in_flight (w_db w') = Inr None" by (simp add: push_in_flight_def)
  moreover have "set (push_marks (w_db w')) \<subseteq> {(k, None) |k. (k, None) \<in> set (push_marks (w_db w))}"
  proof
    fix e assume e: "e \<in> set (push_marks (w_db w'))"
    obtain k p where kp: "e = (k, p)" by (rule prod.exhaust)
    with e unsent have "p = None" by blast
    with e kp marks show "e \<in> {(k, None) |k. (k, None) \<in> set (push_marks (w_db w))}" by auto
  qed
  moreover have "acknowledge x s n r w' = (Inr (report_default\<lparr>y_stale := True\<rparr>), w')"
    using c(3,4) by (simp add: acknowledge_def bindM_def [of "check_receipt n r"] check_receipt_eval
      receipt_check_def cl)
  ultimately show ?thesis using c cl by blast
qed

end
