(* ===== verification/Retrying.thy ===== *)
theory Retrying
  imports Freezing Stamps
begin

text \<open>
  What a retry of the push in flight depends on, and which writes leave it alone: pages, new
  mutations, direct writes and the rest may come between freezing a push and its receipt, and the
  push is still encoded to the same bytes.
\<close>

section \<open>What a request is made of\<close>

definition push_sender :: "db \<Rightarrow> (string \<times> string option) option" where
  "push_sender d = map_option (\<lambda>c. (cl_id c, cl_push_models c)) (d_client d)"

definition push_acts :: "nat \<Rightarrow> db \<Rightarrow> (nat \<times> string \<times> nat) list" where
  "push_acts push d = map (\<lambda>(n, r). (n, mr_name r, mr_version r)) (filter (\<lambda>(_, r). mr_push r = Some push) (d_mutations d))"

definition push_wires :: "nat \<Rightarrow> db \<Rightarrow> ((nat \<times> nat) \<times> operation_row) list" where
  "push_wires push d = filter (\<lambda>((n, p), r). n \<in> fst ` set (push_acts push d) \<and> or_kind r = ''wire'') (d_operations d)"

definition push_content ::
  "nat \<Rightarrow> db \<Rightarrow> nat list \<times> (string \<times> string option) option \<times> (nat \<times> string \<times> nat) list \<times>
   ((nat \<times> nat) \<times> operation_row) list" where
  "push_content push d = (pushes d, push_sender d, push_acts push d, push_wires push d)"

definition same_request :: "nat \<Rightarrow> db \<Rightarrow> db \<Rightarrow> bool" where
  "same_request push d d' \<longleftrightarrow> (pushes d = [push] \<longrightarrow> push_content push d' = push_content push d)"

text \<open>Decoding the wire operations of some mutations is decoding all and keeping theirs.\<close>

lemma decoded_wire: "decode_op x ((n, p), r) = Inr o1 \<Longrightarrow>
    qo_ordinal o1 = n \<and> (qo_kind o1 = KWire \<longleftrightarrow> or_kind r = ''wire'')"
  by (auto simp: decode_op_def decode_kind_def bindE_Inr_iff split: if_splits)

lemma decode_wires:
  "emap (decode_op x) rows = Inr ops \<Longrightarrow>
   emap (decode_op x) (filter (\<lambda>((n, p), r). P n \<and> or_kind r = ''wire'') rows) =
     Inr (filter (\<lambda>q. P (qo_ordinal q) \<and> qo_kind q = KWire) ops)"
proof (induction rows arbitrary: ops)
  case (Cons row rows)
  obtain n p r where row: "row = ((n, p), r)" by (metis prod.collapse)
  from Cons.prems obtain o1 os where "decode_op x row = Inr o1" "emap (decode_op x) rows = Inr os" "ops = o1 # os"
    by (auto simp: bindE_Inr_iff)
  with Cons.IH [of os] decoded_wire [of x n p r o1] row show ?case by auto
qed simp

definition act_of :: "queued_op list \<Rightarrow> nat \<times> string \<times> nat \<Rightarrow> json" where
  "act_of ops a = (case a of (n, name, version) \<Rightarrow> obj [(''ordinal'', jnat n), (''name'', JStr name),
     (''version'', jnat version), (''operations'', JArr (map operation_json (ops_of_kind KWire n ops)))])"

lemma batch_json:
  assumes "queued_where x (\<lambda>_. True) d = Inr queue" and "pushes d = [push]"
  shows "\<exists>ops. emap (decode_op x) (push_wires push d) = Inr ops \<and>
    map act_json (filter (\<lambda>q. q_push q = Some push) queue) = map (act_of ops) (push_acts push d)"
proof -
  have "d_mutations d \<noteq> []" using assms(2) by (auto simp: pushes_def List.map_filter_simps bs_of_def)
  then obtain all where all: "emap (decode_op x) (d_operations d) = Inr all"
      "queue = map (queued_of (d_deps d) (d_prereqs d) all) (d_mutations d)"
    using assms(1) by (auto simp: queued_where_def ops_selected_def Let_def bindE_Inr_iff case_prod_beta split: if_splits)
  let ?P = "\<lambda>n. n \<in> fst ` set (push_acts push d)"
  let ?ops = "filter (\<lambda>q. ?P (qo_ordinal q) \<and> qo_kind q = KWire) all"
  have "ops_of_kind KWire n all = ops_of_kind KWire n ?ops" if "?P n" for n
    using that by (auto simp: ops_of_kind_def intro!: arg_cong [of _ _ "map qo_op"] filter_cong)
  then have same: "act_of all a = act_of ?ops a" if "a \<in> set (push_acts push d)" for a
    using that by (force simp: act_of_def split: prod.splits)
  have "map act_json (filter (\<lambda>q. q_push q = Some push) queue) = map (act_of all) (push_acts push d)"
    unfolding all(2) push_acts_def filter_map map_map
    by (simp add: queued_of_def act_json_def act_of_def comp_def case_prod_beta')
  also have "\<dots> = map (act_of ?ops) (push_acts push d)" using same by (rule map_cong [OF refl])
  finally show ?thesis
    using decode_wires [OF all(1), of ?P] unfolding push_wires_def by blast
qed

lemma encode_push_content:
  assumes "encode_push x push w = (Inr b, w)" and "pushes (w_db w) = [push]"
    and "push_content push (w_db v) = push_content push (w_db w)"
    and "queued_where x (\<lambda>_. True) (w_db v) = Inr queue'"
  shows "encode_push x push v = (Inr b, v)"
proof -
  obtain queue where q: "queued_where x (\<lambda>_. True) (w_db w) = Inr queue"
    using assms(1) by (cases "queued_where x (\<lambda>_. True) (w_db w)")
      (auto simp: encode_push_def queued_all_def query_res_def bindM_def)
  have same: "pushes (w_db v) = [push]" "push_sender (w_db v) = push_sender (w_db w)" "push_acts push (w_db v) = push_acts push (w_db w)"
      "push_wires push (w_db v) = push_wires push (w_db w)"
    using assms(2,3) by (simp_all add: push_content_def)
  have "map act_json (filter (\<lambda>q. q_push q = Some push) queue') = map act_json (filter (\<lambda>q. q_push q = Some push) queue)"
    using batch_json [OF q assms(2)] batch_json [OF assms(4) same(1)] same(3,4) by auto
  then have "request_of c push models (filter (\<lambda>q. q_push q = Some push) queue') =
      request_of c push models (filter (\<lambda>q. q_push q = Some push) queue)" for c models
    by (simp add: request_of_def)
  then show ?thesis using assms(1) q assms(4) same(2)
    by (cases "d_client (w_db v)"; cases "d_client (w_db w)")
      (auto simp: encode_push_def queued_all_def query_res_def query_def push_models_def request_json_def client_id_def
        push_sender_def bindM_def split: sum.splits prod.splits option.splits)
qed

section \<open>What leaves it alone\<close>

lemma filter_bt_ins:
  "map_of m k = None \<Longrightarrow> \<not> P (k, v) \<Longrightarrow> filter P (bt_ins k v m) = filter P m"
  by (induction k v m rule: bt_ins.induct) (auto split: if_splits)

lemma map_filter_bt_ins:
  "map_of m k = None \<Longrightarrow> f (k, v) = None \<Longrightarrow> List.map_filter f (bt_ins k v m) = List.map_filter f m"
  by (induction k v m rule: bt_ins.induct) (auto simp: List.map_filter_simps split: if_splits option.splits)

text \<open>Marking a mutation as diverged, and adding an effect, change nothing of the request.\<close>

lemma diverged_content:
  "push_content push (update_mutation n (\<lambda>r. r\<lparr>mr_diverged := True\<rparr>) d) = push_content push d"
proof -
  let ?d = "update_mutation n (\<lambda>r. r\<lparr>mr_diverged := True\<rparr>) d"
  let ?f = "\<lambda>(k, r). (k, if k = n then r\<lparr>mr_diverged := True\<rparr> else r)"
  have "List.map_filter (\<lambda>(_, r). mr_push r) (map ?f ms) = List.map_filter (\<lambda>(_, r). mr_push r) ms"
    and "map (\<lambda>(n, r). (n, mr_name r, mr_version r)) (filter (\<lambda>(_, r). mr_push r = Some push) (map ?f ms)) =
      map (\<lambda>(n, r). (n, mr_name r, mr_version r)) (filter (\<lambda>(_, r). mr_push r = Some push) ms)" for ms :: "(nat \<times> mutation_row) list"
    by (induction ms) (auto simp: List.map_filter_simps split: if_splits option.splits)
  then have "pushes ?d = pushes d" "push_acts push ?d = push_acts push d"
    unfolding pushes_def push_acts_def update_mutation_def by simp_all
  then show ?thesis by (simp add: push_content_def push_sender_def push_wires_def) (simp add: update_mutation_def)
qed

lemma operation_content:
  assumes "insert_operation_row x np r d = Inr d'"
    and "or_kind r \<noteq> ''wire'' \<or> fst np \<notin> fst ` set (push_acts push d)"
  shows "push_content push d' = push_content push d"
proof -
  obtain n p where np: "np = (n, p)" by fastforce
  from assms(1) have d: "map_of (d_operations d) np = None" "d' = d\<lparr>d_operations := bt_ins np r (d_operations d)\<rparr>"
    by (auto simp: insert_operation_row_def split: if_splits)
  then have "push_acts push d' = push_acts push d" by (simp add: push_acts_def)
  moreover have "filter (\<lambda>((n, p), r). n \<in> fst ` set (push_acts push d) \<and> or_kind r = ''wire'') (bt_ins np r (d_operations d)) =
      filter (\<lambda>((n, p), r). n \<in> fst ` set (push_acts push d) \<and> or_kind r = ''wire'') (d_operations d)"
    using d(1) assms(2) by (intro filter_bt_ins) (auto simp: np)
  ultimately show ?thesis using d(2) by (simp add: push_content_def pushes_def push_sender_def push_wires_def)
qed

lemma mutation_content:
  assumes "insert_mutation_row x n r d = Inr d'" and "mr_push r = None"
  shows "push_content push d' = push_content push d \<and> n \<notin> fst ` set (push_acts push d)"
proof -
  from assms(1) have d: "map_of (d_mutations d) n = None" "d' = d\<lparr>d_mutations := bt_ins n r (d_mutations d)\<rparr>"
    by (auto simp: insert_mutation_row_def split: if_splits)
  from d(1) have "n \<notin> fst ` set (d_mutations d)" by (simp add: map_of_eq_None_iff)
  then have "n \<notin> fst ` set (push_acts push d)" by (force simp: push_acts_def)
  moreover have "push_acts push d' = push_acts push d" using d assms(2) by (simp add: push_acts_def filter_bt_ins)
  moreover have "pushes d' = pushes d" using d assms(2) by (simp add: pushes_def map_filter_bt_ins)
  ultimately show ?thesis using d(2) by (simp add: push_content_def push_sender_def push_wires_def)
qed

lemma client_content:
  assumes "\<And>c. cl_id (f c) = cl_id c \<and> cl_push_models (f c) = cl_push_models c"
  shows "push_content push (d\<lparr>d_client := map_option f (d_client d)\<rparr>) = push_content push d"
  using assms by (simp add: push_content_def pushes_def push_sender_def push_acts_def push_wires_def option.map_comp comp_def)

interpretation same_request: kept_staging "same_request push" for push
  by unfold_locales
    (auto simp: same_request_def diverged_content operation_content,
     auto simp: push_content_def pushes_def push_sender_def push_acts_def push_wires_def)

section \<open>A new mutation\<close>

text \<open>The rows of a mutation that is not of the push.\<close>

definition other_request :: "nat \<Rightarrow> nat \<Rightarrow> db \<Rightarrow> db \<Rightarrow> bool" where
  "other_request push n d d' \<longleftrightarrow>
     (pushes d = [push] \<and> n \<notin> fst ` set (push_acts push d) \<longrightarrow> push_content push d' = push_content push d)"

interpretation other_request: kept_db "other_request push n" for push n
  by unfold_locales (auto simp: other_request_def push_content_def)

lemma other_row: "insert_operation_row x (n, p) row d = Inr d' \<Longrightarrow> other_request push n d d'"
  by (simp add: other_request_def operation_content)

lemma other_ops: "keeps (on_db (other_request push n)) (insert_ops x s n p ops)"
proof (induction x s n p ops rule: insert_ops.induct)
  case 1
  show ?case unfolding insert_ops.simps by (rule other_request.keeps_pure)
next
  case 2
  show ?case unfolding insert_ops.simps insert_op_def
    by (intro other_request.keeps_rules other_request.keeps_exec other_row 2)
qed

lemma other_edges:
  "insert_dependency_row x n t kind d = Inr d' \<Longrightarrow> other_request push n d d'"
  "insert_prerequisite_row x n key d = Inr d' \<Longrightarrow> other_request push n d d'"
  by (auto simp: insert_dependency_row_def insert_prerequisite_row_def other_request_def push_content_def pushes_def
      push_sender_def push_acts_def push_wires_def split: if_splits)

lemma same_request_mutation: "keeps (on_db (same_request push)) (insert_mutation x s n m)"
proof (rule keepsI)
  fix w r w'
  assume run: "insert_mutation x s n m w = (r, w')"
  let ?row = "\<lparr>mr_name = n_name m, mr_version = n_version m, mr_push = None, mr_diverged = False\<rparr>"
  define rest where "rest = bindM (insert_ops x s n 0 (mutation_ops m))
     (\<lambda>_. bindM (forM (\<lambda>(kind, dep). exec ''ahead_mutation_dependency'' (insert_dependency_row x n dep kind))
         (map (Pair ''lifecycle'') (n_lifecycle m) @ map (Pair ''sequence'') (n_sequence m)))
     (\<lambda>_. forM (\<lambda>key. exec ''ahead_mutation_prerequisite'' (insert_prerequisite_row x n key)) (n_prerequisites m)))"
  have k: "keeps (on_db (other_request push n)) rest"
    unfolding rest_def
    by (intro other_request.keeps_rules other_ops other_request.keeps_exec) (auto intro: other_edges)
  show "on_db (same_request push) w w'"
  proof (cases "insert_mutation_row x n ?row (w_db w)")
    case (Inl e)
    with run show ?thesis by (auto simp: insert_mutation_def bindM_def exec_def Let_def on_db_def same_request_def)
  next
    case (Inr d)
    then obtain w1 where w1: "exec ''ahead_mutation'' (insert_mutation_row x n ?row) w = (Inr (), w1)"
        "w_db w1 = d" "w_saves w1 = w_saves w"
      by (auto simp: exec_def Let_def)
    with run have "rest w1 = (r, w')" by (simp add: insert_mutation_def rest_def bindM_def [of "exec _ _"])
    from keepsD [OF k this] mutation_content [OF Inr, of push] w1(2,3) show ?thesis
      by (auto simp: on_db_def other_request_def same_request_def push_content_def)
  qed
qed

lemma same_request_enqueue: "keeps (on_db (same_request push)) (enqueue x s m)"
proof -
  have "keeps (on_db (same_request push)) allocate_ordinal"
    unfolding allocate_ordinal_def update_client_def
    by (intro same_request.keeps_exec_all same_request.keeps_base same_request.keeps_rules)
      (simp add: same_request_def client_content)
  then show ?thesis
    unfolding enqueue_def check_dependency_def enqueue_op_def delete_child_def
    by (intro same_request_mutation same_request.keeps_derive same_request.keeps_row_level same_request.keeps_base
        same_request.keeps_rules)
qed

section \<open>The writes between a push and its receipt\<close>

text \<open>Every write but an acknowledgement and a rejection, which remove mutations.\<close>

fun spares_push :: "engine_write \<Rightarrow> bool" where
  "spares_push (WAcknowledge n r) = False"
| "spares_push (WReject rs) = False"
| "spares_push _ = True"

lemma same_request_freeze: "keeps (on_db (same_request push)) (freeze x s n)"
proof (rule keepsI)
  fix w r w'
  assume run: "freeze x s n w = (r, w')"
  have saves: "w_saves w' = w_saves w" using keepsD [OF stamps_le.keeps_freeze run] by (simp add: on_db_def)
  have "w' = w" if p: "pushes (w_db w) = [push]"
  proof (cases "n = 0")
    case False
    have "keeps (=) (bindM (encode_push x push) (\<lambda>b. retM (Some b)))"
      unfolding encode_push_def queued_all_def query_res_def push_models_def request_json_def client_id_def query_def
      by (intro same_work.keeps_rules)
    moreover have "bindM (encode_push x push) (\<lambda>b. retM (Some b)) w = (r, w')"
      using run False p by (simp add: freeze_def in_flight_push_def push_in_flight_def query_res_def bindM_def [of "readM _"])
    ultimately show ?thesis by (auto dest: keepsD)
  qed (use run in \<open>simp add: freeze_def\<close>)
  then show "on_db (same_request push) w w'" using saves by (auto simp: on_db_def same_request_def)
qed

lemma same_request_rows:
  "keeps (on_db (same_request push)) (set_cursor c n)" "keeps (on_db (same_request push)) (unsubscribe c)"
  "keeps (on_db (same_request push)) (resolve_prerequisite k)" "keeps (on_db (same_request push)) (fail_prerequisite k e)"
  "keeps (on_db (same_request push)) (reset_prerequisite k)" "keeps (on_db (same_request push)) (delete_rejection n)"
  unfolding set_cursor_def unsubscribe_def delete_subscription_def resolve_prerequisite_def fail_prerequisite_def
    reset_prerequisite_def set_prerequisite_error_def delete_rejection_def
  by (intro same_request.keeps_exec_all;
      simp add: same_request_def push_content_def pushes_def push_sender_def push_acts_def push_wires_def)+

lemma same_request_step:
  assumes "spares_push e"
  shows "keeps (on_db (same_request push)) (engine_step x s e)"
proof -
  have st: "keeps (on_staging (same_request push)) (stage_authority x s r)" for x s r
    by (rule same_request.keeps_stage_authority)
      (simp add: same_request_def push_content_def pushes_def push_sender_def push_acts_def push_wires_def)
  have "spares_push e \<longrightarrow> ?thesis"
    by (induction x s e rule: engine_step.induct; simp only: engine_step.simps dropM_def spares_push.simps simp_thms)
      (intro impI same_request_enqueue same_request.keeps_direct same_request_freeze same_request_rows
        same_request.keeps_apply_records st same_request.keeps_rules)+
  with assms show ?thesis by simp
qed

lemma same_request_run:
  assumes "\<forall>e \<in> set ws. spares_push e"
  shows "on_db (same_request push) w (engine_run x s ws w)"
  using assms
proof (induction ws arbitrary: w)
  case Nil
  show ?case by (simp add: engine_run_def same_request.refl)
next
  case (Cons e ws)
  have "on_db (same_request push) w (snd (engine_step x s e w))"
    using Cons.prems by (intro keepsD [OF same_request_step prod.collapse [symmetric]]) simp
  from same_request.trans [OF this Cons.IH] Cons.prems show ?case by (simp add: engine_run_def)
qed

text \<open>
  C12: a retry sends the same bytes. Once a push was frozen, and after any engine writes that are
  no acknowledgement and no rejection (pages, new mutations, direct writes, further freezes,
  subscriptions and prerequisites, each succeeding or failing half-way), freezing again with any
  positive byte limit gives the same bytes and changes nothing, as long as the rows of the queue
  can still be decoded.
\<close>

theorem freeze_retry:
  assumes "freeze x s limit w = (Inr (Some b), w')" and "\<forall>e \<in> set ws. spares_push e" and "0 < limit'"
    and "queued_where x (\<lambda>_. True) (w_db (engine_run x s ws w')) = Inr queue"
  shows "freeze x s limit' (engine_run x s ws w') = (Inr (Some b), engine_run x s ws w')"
proof -
  let ?v = "engine_run x s ws w'"
  obtain push where p: "push_in_flight (w_db w') = Inr (Some push)" "encode_push x push w' = (Inr b, w')"
    using assms(1) by (cases rule: freeze_cases) (auto dest: new_push_flies)
  then have one: "pushes (w_db w') = [push]" by (auto simp: push_in_flight_def split: list.splits)
  with same_request_run [OF assms(2), of push w' x s]
  have c: "push_content push (w_db ?v) = push_content push (w_db w')" by (simp add: on_db_def same_request_def)
  have "encode_push x push ?v = (Inr b, ?v)" by (rule encode_push_content [OF p(2) one c assms(4)])
  moreover have "push_in_flight (w_db ?v) = Inr (Some push)"
    using c one by (simp add: push_content_def push_in_flight_def)
  ultimately show ?thesis using assms(3) by (simp add: freeze_def in_flight_push_def query_res_def bindM_def)
qed

end
