(* ===== verification/Samples.thy ===== *)
theory Samples
  imports Examples Register Integrity Acknowledge Retrying
begin

text \<open>
  A client's database as it is after the first open, and the witnesses of the client's
  properties: each applies a property to a concrete run.
\<close>

definition client0 :: client_row where
  "client0 = \<lparr>cl_id = ''c'', cl_next_ordinal = 1, cl_next_push = 1, cl_generation = 1,
     cl_last_completed = 0, cl_push_models = None\<rparr>"

definition db0 :: db where
  "db0 = \<lparr>d_client = Some client0, d_stamps = [], d_subs = [], d_mutations = [], d_operations = [],
     d_deps = [], d_prereqs = [], d_rejections = [], d_tables = (\<lambda>_. [])\<rparr>"

definition work0 :: work where
  "work0 = \<lparr>w_db = db0, w_saves = [], w_changed = []\<rparr>"

definition list_id :: json where
  "list_id = JObj [(''id'', JStr ''l1'')]"

definition list_key :: rkey where
  "list_key = \<lparr>k_model = ''List'', k_identity = list_id\<rparr>"

definition list_at :: "nat \<Rightarrow> string \<Rightarrow> authority" where
  "list_at n title = \<lparr>a_model = ''List'', a_identity = list_id, a_stamp = n,
     a_state = JObj [(''title'', JStr title)], a_error = None\<rparr>"

lemma list_key_made: "record_key x0 s0 ''List'' list_id = Inr list_key"
  by code_simp

lemma list_key_stored: "stored_key x0 s0 list_key"
proof -
  have "canonical_ok x0 list_id"
    by (rule canonical_ok_x0) (code_simp, code_simp)
  moreover have "storable_record s0 ''List'' list_id"
    by (simp add: storable_record_def storable_fields_def model_of_def s0_defs field_of_def list_id_def)
  ultimately show ?thesis using list_key_made by (simp add: stored_key_def list_key_def)
qed

lemma list_state: "validate_state x0 s0 ''List'' (JObj [(''title'', JStr t)]) = Inr (JObj [(''title'', JStr t)])"
  by (simp add: validate_state_def state_of_def s0_defs model_of_def bt_keys_def state_fields_def
      state_step_def scalar_eval)

lemma list_title_storable: "storable_record s0 ''List'' (JObj [(''title'', JStr t)])"
  by (simp add: storable_record_def storable_fields_def model_of_def s0_defs field_of_def)

lemma list_at_normal: "authority_normal x0 s0 (list_at n t)"
proof -
  have "storable_record s0 ''List'' list_id" "canonical_ok x0 list_id"
    using list_key_stored by (simp_all add: stored_key_def list_key_def)
  then show ?thesis
    by (auto simp: authority_normal_def list_at_def list_state list_key_made list_key_def
        list_title_storable list_texts_ok_def entries_def)
qed

text \<open>A run whose outcome evaluates gives its value and final state.\<close>

lemma runE:
  assumes "case m of (Inr a, t) \<Rightarrow> P a t | _ \<Rightarrow> False"
  obtains a t where "m = (Inr a, t)" and "P a t"
  using assms by (cases m; cases "fst m") auto

theorem stage_refines_register_witness:
  "stamp_of x0 list_key (w_db (fst (snd (stage_authority x0 s0 (list_at 3 ''a'') (work0, []))))) = 3"
proof -
  have m: "model_of s0 (k_model list_key) = Inr list_model" by code_simp
  have "case stage_authority x0 s0 (list_at 3 ''a'') (work0, []) of (Inr _, _) \<Rightarrow> True | _ \<Rightarrow> False"
    by code_simp
  then obtain disp wh where "stage_authority x0 s0 (list_at 3 ''a'') (work0, []) = (Inr disp, wh)" by (rule runE)
  then obtain w' h' where run: "stage_authority x0 s0 (list_at 3 ''a'') (work0, []) = (Inr disp, (w', h'))"
    by (cases wh) simp
  have k: "record_key x0 s0 (a_model (list_at 3 ''a'')) (a_identity (list_at 3 ''a'')) = Inr list_key"
    by (simp add: list_at_def list_key_made)
  have "stamp_of x0 list_key (w_db work0) = 0" by (simp add: stamp_of_def work0_def db0_def)
  with stage_refines_register [OF s0_ok x0_ok list_at_normal k m run]
  have "stamp_of x0 list_key (w_db w') = 3"
    by (auto simp: register_def newest_def list_at_def)
  with run show ?thesis by simp
qed

theorem deliveries_converge_witness:
  "truth_at x0 list_model list_key
     (w_db (fst (snd (stage_all x0 s0 [list_at 1 ''a'', list_at 2 ''b''] (work0, []))))) =
   truth_at x0 list_model list_key
     (w_db (fst (snd (stage_all x0 s0 [list_at 2 ''b'', list_at 1 ''a''] (work0, [])))))"
proof -
  have m: "model_of s0 (k_model list_key) = Inr list_model" by code_simp
  let ?one = "stage_all x0 s0 [list_at 1 ''a'', list_at 2 ''b''] (work0, [])"
  let ?two = "stage_all x0 s0 [list_at 2 ''b'', list_at 1 ''a''] (work0, [])"
  have "case ?one of (Inr rep, _) \<Rightarrow> y_reports rep = [] | _ \<Rightarrow> False" by code_simp
  then obtain rep s where "?one = (Inr rep, s)" "y_reports rep = []" by (rule runE)
  then obtain w' i where one: "?one = (Inr rep, (w', i))" "y_reports rep = []" by (cases s) simp
  have "case ?two of (Inr rep, _) \<Rightarrow> y_reports rep = [] | _ \<Rightarrow> False" by code_simp
  then obtain rep' s' where "?two = (Inr rep', s')" "y_reports rep' = []" by (rule runE)
  then obtain v' j where two: "?two = (Inr rep', (v', j))" "y_reports rep' = []" by (cases s') simp
  have "\<forall>r \<in> set [list_at 1 ''a'', list_at 2 ''b'']. authority_normal x0 s0 r \<and>
      (is_null (a_state r) \<longrightarrow> record_key x0 s0 (a_model r) (a_identity r) = Inr list_key)"
    by (simp add: list_at_normal) (simp add: list_at_def list_key_made)
  from deliveries_converge [OF s0_ok x0_ok list_key_stored m this _ refl one two]
  have "register x0 list_model list_key (w_db w') = register x0 list_model list_key (w_db v')" by auto
  with one two show ?thesis by (simp add: register_def)
qed

definition list_op :: "op_kind \<Rightarrow> json option \<Rightarrow> operation" where
  "list_op op v = \<lparr>o_model = ''List'', o_op = op, o_identity = list_id, o_values = v\<rparr>"

definition create_list :: mutation where
  "create_list = mutation_new ''createList'' [list_op OpCreate (Some (JObj [(''title'', JStr ''a'')]))]"

theorem integrity_preserved_witness:
  "queue_ok (w_db (engine_run x0 s0 [WEnqueue create_list, WFreeze 1000, WUnsubscribe ''c''] work0))"
proof -
  have "queue_ok (w_db work0)" "tables_ok (w_db work0)"
    by (simp_all add: queue_ok_def tables_ok_def work0_def db0_def)
  from integrity_preserved [OF this] show ?thesis by blast
qed

section \<open>A push and its receipt\<close>

definition queued0 :: work where
  "queued0 = snd (enqueue x0 s0 create_list work0)"

definition frozen0 :: work where
  "frozen0 = snd (freeze x0 s0 1000 queued0)"

definition receipt0 :: receipt where
  "receipt0 = \<lparr>p_client = ''c'', p_batch = 1, p_rejections = [], p_records = [list_at 4 ''a'']\<rparr>"

lemma freeze_runs: "case freeze x0 s0 1000 queued0 of (Inr (Some _), _) \<Rightarrow> True | _ \<Rightarrow> False"
  by code_simp

lemma acknowledge_runs: "case acknowledge x0 s0 1 receipt0 frozen0 of (Inr rep, _) \<Rightarrow> \<not> y_stale rep | _ \<Rightarrow> False"
  by code_simp

lemma frozen_someE:
  assumes "case m of (Inr (Some b), w) \<Rightarrow> True | _ \<Rightarrow> False"
  obtains b w where "m = (Inr (Some b), w)"
  using assms by (cases m; cases "fst m"; cases "projr (fst m)") auto

theorem rejection_takes_dependents_witness:
  "d_mutations (w_db (snd (mark_rejected x0 s0 [\<lparr>j_ordinal = 1, j_code = ''no''\<rparr>] queued0))) = []"
proof -
  have "case mark_rejected x0 s0 [\<lparr>j_ordinal = 1, j_code = ''no''\<rparr>] queued0 of (Inr _, _) \<Rightarrow> True | _ \<Rightarrow> False"
    by code_simp
  then obtain h w' where run: "mark_rejected x0 s0 [\<lparr>j_ordinal = 1, j_code = ''no''\<rparr>] queued0 = (Inr h, w')"
    by (rule runE)
  have "case queued_where x0 (\<lambda>_. True) (w_db queued0) of Inr queue \<Rightarrow> map q_ordinal queue = [1] | _ \<Rightarrow> False"
    by code_simp
  then obtain queue where q: "queued_where x0 (\<lambda>_. True) (w_db queued0) = Inr queue" "map q_ordinal queue = [1]"
    by (auto split: sum.splits)
  have "distinct (map q_ordinal queue)" using q(2) by simp
  from rejection_takes_dependents [OF run q(1) this]
  have "d_mutations (w_db w') = filter (\<lambda>(n, _). n \<notin> falls queue {1}) (d_mutations (w_db queued0))"
    by (simp add: Let_def)
  moreover have "1 \<in> falls queue {1}" by (intro falls.seed) simp
  moreover have "map fst (d_mutations (w_db queued0)) = [1]" by code_simp
  ultimately show ?thesis using run by (auto simp: filter_empty_conv)
qed


text \<open>Between the push and its retry: a subscription, a second mutation and a newer record from the server.\<close>

definition between0 :: "engine_write list" where
  "between0 = [WSubscribe ''d'', WEnqueue (mutation_new ''renameList'' [list_op OpUpdate (Some (JObj [(''title'', JStr ''b'')]))]),
     WPage [list_at 5 ''c''] [(''d'', 7)], WFreeze 1]"

lemma between0_queue:
  "case queued_where x0 (\<lambda>_. True) (w_db (engine_run x0 s0 between0 frozen0)) of
     Inr queue \<Rightarrow> map q_ordinal queue = [1, 2] | Inl _ \<Rightarrow> False"
  by code_simp

theorem freeze_retry_witness:
  "\<exists>b. fst (freeze x0 s0 1 (engine_run x0 s0 between0 frozen0)) = Inr (Some b)"
proof -
  obtain b w' where run: "freeze x0 s0 1000 queued0 = (Inr (Some b), w')"
    using freeze_runs by (rule frozen_someE)
  then have w': "w' = frozen0" by (simp add: frozen0_def)
  obtain queue where q: "queued_where x0 (\<lambda>_. True) (w_db (engine_run x0 s0 between0 frozen0)) = Inr queue"
    using between0_queue by (auto split: sum.splits)
  have "\<forall>e \<in> set between0. spares_push e" by (simp add: between0_def)
  from freeze_retry [OF run this, of 1 queue] q w' show ?thesis by simp
qed

text \<open>A receipt without records does not cover the operation of the pushed mutation.\<close>

theorem acknowledge_refuses_witness:
  "\<exists>e. acknowledge x0 s0 1 (receipt0\<lparr>p_records := []\<rparr>) frozen0 = (Inl e, frozen0)"
proof -
  let ?r = "receipt0\<lparr>p_records := []\<rparr>"
  have "case d_client (w_db frozen0) of Some c \<Rightarrow> cl_id c = ''c'' \<and> cl_last_completed c = 0 | _ \<Rightarrow> False" by code_simp
  then obtain c where c: "d_client (w_db frozen0) = Some c" "cl_id c = ''c''" "cl_last_completed c = 0"
    by (auto split: option.splits)
  have "case queued_where x0 (\<lambda>_. True) (w_db frozen0) of
      Inr [q] \<Rightarrow> q_push q = Some 1 \<and> n_operations (q_mutation q) \<noteq> [] | _ \<Rightarrow> False" by code_simp
  then obtain q where q: "queued_where x0 (\<lambda>_. True) (w_db frozen0) = Inr [q]" "q_push q = Some 1"
      "n_operations (q_mutation q) \<noteq> []"
    by (auto split: sum.splits list.splits)
  have b: "batch_of x0 1 frozen0 = (Inr [q], frozen0)"
    using q(1,2) by (simp add: batch_of_def queued_all_def query_res_def bindM_def)
  have "\<not> covers x0 s0 ?r op" for op by (simp add: covers_def)
  with q(3) have open_op: "\<exists>op \<in> set (n_operations (q_mutation q)). \<not> covers x0 s0 ?r op"
    by (meson hd_in_set)
  have "push_in_flight (w_db frozen0) = Inr (Some 1)" by code_simp
  with acknowledge_refuses [OF c(1), of ?r 1 x0 s0] c(2,3) b open_op show ?thesis by (simp add: receipt0_def)
qed

theorem acknowledge_completes_witness:
  "push_in_flight (w_db (snd (acknowledge x0 s0 1 receipt0 frozen0))) = Inr None"
proof -
  obtain rep w' where run: "acknowledge x0 s0 1 receipt0 frozen0 = (Inr rep, w')" "\<not> y_stale rep"
    using acknowledge_runs by (rule runE)
  from acknowledge_completes [OF run] run(1) show ?thesis by simp
qed

end
