(* ===== verification/Pulls.thy ===== *)
theory Pulls
  imports Writes
begin

text \<open>
  The memory of the pulls a client issued (\<open>PullLedger\<close> of \<open>crates/client/src/lib.rs\<close>): how
  often each channel's subscription changed since the client was opened, and the cursors and
  subscription epochs of every request whose answer is outstanding.
\<close>

section \<open>The ledger\<close>

type_synonym channel_map = "(string \<times> nat) list"

record issued_pull =
  ip_cursors :: channel_map
  ip_epochs :: channel_map

record pulls =
  pl_epochs :: channel_map
  pl_issued :: "issued_pull list"
  pl_generation :: nat

definition pulls_default :: pulls where
  "pulls_default = \<lparr>pl_epochs = [], pl_issued = [], pl_generation = 0\<rparr>"

definition pull_capacity :: nat where
  "pull_capacity = 1024"

definition subscription_mark :: string where
  "subscription_mark = ''ahead_subscription:''"

definition pull_epoch :: "pulls \<Rightarrow> string \<Rightarrow> nat" where
  "pull_epoch p channel = (case map_of (pl_epochs p) channel of Some n \<Rightarrow> n | None \<Rightarrow> 0)"

definition is_mark :: "string \<Rightarrow> bool" where
  "is_mark table \<longleftrightarrow> take (length subscription_mark) table = subscription_mark"

definition mark_channel :: "string \<Rightarrow> string" where
  "mark_channel table = drop (length subscription_mark) table"

definition absorb_one :: "string \<Rightarrow> pulls \<Rightarrow> pulls" where
  "absorb_one mark p =
     p\<lparr>pl_epochs := bt_ins (mark_channel mark) (pull_epoch p (mark_channel mark) + 1) (pl_epochs p),
       pl_generation := pl_generation p + 1\<rparr>"

text \<open>The marks leave the set of changed tables; each advances the epoch of its channel.\<close>

definition absorb :: "string list \<Rightarrow> pulls \<Rightarrow> string list \<times> pulls" where
  "absorb changed p = (filter (\<lambda>t. \<not> is_mark t) changed, fold absorb_one (filter is_mark changed) p)"

definition current_epochs :: "pulls \<Rightarrow> channel_map \<Rightarrow> channel_map" where
  "current_epochs p cursors = map (\<lambda>(c, _). (c, pull_epoch p c)) cursors"

definition issue :: "channel_map \<Rightarrow> pulls \<Rightarrow> pulls" where
  "issue cursors p =
     (let kept = (if length (pl_issued p) = pull_capacity then tl (pl_issued p) else pl_issued p) in
      p\<lparr>pl_issued := kept @ [\<lparr>ip_cursors = cursors, ip_epochs = current_epochs p cursors\<rparr>]\<rparr>)"

text \<open>\<open>position\<close> and \<open>remove\<close>: the first request that fits, and the queue without it.\<close>

fun take_first :: "('a \<Rightarrow> bool) \<Rightarrow> 'a list \<Rightarrow> 'a list option" where
  "take_first P [] = None"
| "take_first P (a # as) = (if P a then Some as else map_option (\<lambda>r. a # r) (take_first P as))"

definition refresh_issued :: "channel_map \<Rightarrow> channel_map \<Rightarrow> issued_pull list \<Rightarrow> issued_pull list" where
  "refresh_issued cursors now =
     map (\<lambda>i. if ip_cursors i = cursors then i\<lparr>ip_epochs := now\<rparr> else i)"

definition stale :: "channel_map \<Rightarrow> pulls \<Rightarrow> bool \<times> pulls" where
  "stale cursors p =
     (let now = current_epochs p cursors in
      case take_first (\<lambda>i. ip_cursors i = cursors \<and> ip_epochs i = now) (pl_issued p) of
        Some rest \<Rightarrow> (False, p\<lparr>pl_issued := refresh_issued cursors now rest\<rparr>)
      | None \<Rightarrow>
          (case take_first (\<lambda>i. ip_cursors i = cursors) (pl_issued p) of
             Some rest \<Rightarrow> (True, p\<lparr>pl_issued := rest\<rparr>)
           | None \<Rightarrow> (False, p)))"

section \<open>What an answer is judged by\<close>

lemma take_first_None: "take_first P xs = None \<longleftrightarrow> (\<forall>a \<in> set xs. \<not> P a)"
  by (induction xs) auto

lemma take_first_Some:
  "take_first P xs = Some r \<Longrightarrow>
   \<exists>ys a zs. xs = ys @ a # zs \<and> r = ys @ zs \<and> P a \<and> (\<forall>b \<in> set ys. \<not> P b)"
proof (induction xs arbitrary: r)
  case (Cons b xs)
  show ?case
  proof (cases "P b")
    case True
    with Cons.prems have "b # xs = [] @ b # xs \<and> r = [] @ xs \<and> P b \<and> (\<forall>c \<in> set []. \<not> P c)" by simp
    then show ?thesis by blast
  next
    case False
    with Cons.prems obtain r' where r': "take_first P xs = Some r'" "r = b # r'" by auto
    from Cons.IH [OF r'(1)] obtain ys a zs where
      "xs = ys @ a # zs" "r' = ys @ zs" "P a" "\<forall>c \<in> set ys. \<not> P c" by blast
    with r'(2) False have "b # xs = (b # ys) @ a # zs \<and> r = (b # ys) @ zs \<and> P a \<and> (\<forall>c \<in> set (b # ys). \<not> P c)"
      by simp
    then show ?thesis by blast
  qed
qed simp

lemma take_first_length: "take_first P xs = Some r \<Longrightarrow> length xs = length r + 1"
  by (induction xs arbitrary: r) (auto split: if_splits)

datatype ledger_op = Issued channel_map | Answered channel_map | Committed "string list"

fun ledger_step :: "ledger_op \<Rightarrow> pulls \<Rightarrow> pulls" where
  "ledger_step (Issued cs) p = issue cs p"
| "ledger_step (Answered cs) p = snd (stale cs p)"
| "ledger_step (Committed changed) p = snd (absorb changed p)"

text \<open>The history, latest first, says whether a request is still current.\<close>

fun requested_since :: "channel_map \<Rightarrow> ledger_op list \<Rightarrow> bool" where
  "requested_since cs [] = False"
| "requested_since cs (Issued cs' # h) = (cs' = cs \<or> requested_since cs h)"
| "requested_since cs (Answered _ # h) = requested_since cs h"
| "requested_since cs (Committed changed # h) =
     ((\<forall>(c, _) \<in> set cs. subscription_mark @ c \<notin> set changed) \<and> requested_since cs h)"

fun ledger_after :: "ledger_op list \<Rightarrow> pulls" where
  "ledger_after [] = pulls_default"
| "ledger_after (e # h) = ledger_step e (ledger_after h)"

definition outstanding :: "channel_map \<Rightarrow> pulls \<Rightarrow> channel_map list" where
  "outstanding cs p = map ip_epochs (filter (\<lambda>i. ip_cursors i = cs) (pl_issued p))"

definition epochs_le :: "channel_map \<Rightarrow> channel_map \<Rightarrow> bool" where
  "epochs_le = list_all2 (\<lambda>(c, n) (c', n'). c = c' \<and> n \<le> n')"

lemma epochs_le_refl: "epochs_le a a"
  unfolding epochs_le_def by (rule list_all2_refl) auto

lemma epochs_le_trans: "epochs_le a b \<Longrightarrow> epochs_le b c \<Longrightarrow> epochs_le a c"
  unfolding epochs_le_def by (rule list_all2_trans) auto

lemma epochs_le_antisym: "epochs_le a b \<Longrightarrow> epochs_le b a \<Longrightarrow> a = b"
  unfolding epochs_le_def by (induction rule: list_all2_induct) auto

lemma epoch_absorb:
  "pull_epoch (fold absorb_one ms p) c = pull_epoch p c + length (filter (\<lambda>m. mark_channel m = c) ms)"
  by (induction ms arbitrary: p) (auto simp: absorb_one_def pull_epoch_def)

lemma issued_absorb: "pl_issued (fold absorb_one ms p) = pl_issued p"
  by (induction ms arbitrary: p) (auto simp: absorb_one_def)

lemma mark_of_channel: "is_mark (subscription_mark @ c)" "mark_channel (subscription_mark @ c) = c"
  "is_mark t \<Longrightarrow> subscription_mark @ mark_channel t = t"
  by (simp_all add: is_mark_def mark_channel_def) (metis append_take_drop_id)

lemma epoch_same_iff:
  "pull_epoch (snd (absorb changed p)) c = pull_epoch p c \<longleftrightarrow> subscription_mark @ c \<notin> set changed"
  using mark_of_channel by (fastforce simp: absorb_def epoch_absorb filter_empty_conv)

lemma current_absorb:
  "epochs_le (current_epochs p cs) (current_epochs (snd (absorb changed p)) cs)"
  "current_epochs (snd (absorb changed p)) cs = current_epochs p cs \<longleftrightarrow>
     (\<forall>(c, _) \<in> set cs. subscription_mark @ c \<notin> set changed)"
proof -
  show "epochs_le (current_epochs p cs) (current_epochs (snd (absorb changed p)) cs)"
    by (auto simp: epochs_le_def current_epochs_def absorb_def epoch_absorb list_all2_map1 list_all2_map2 list_all2_same)
  show "current_epochs (snd (absorb changed p)) cs = current_epochs p cs \<longleftrightarrow>
     (\<forall>(c, _) \<in> set cs. subscription_mark @ c \<notin> set changed)"
    by (auto simp: current_epochs_def epoch_same_iff)
qed

text \<open>The requests of one answer: the stale ones first, and a current one exactly if requested since.\<close>

definition ledger_ok :: "channel_map \<Rightarrow> bool \<Rightarrow> channel_map list \<Rightarrow> bool" where
  "ledger_ok now fresh es \<longleftrightarrow>
     (\<forall>e \<in> set es. epochs_le e now) \<and> sorted_wrt (\<lambda>a b. a = now \<longrightarrow> b = now) es \<and>
     (es \<noteq> [] \<longrightarrow> (now \<in> set es \<longleftrightarrow> fresh))"

lemma ledger_ok_tl: "ledger_ok now fresh es \<Longrightarrow> ledger_ok now fresh (tl es)"
proof (cases es)
  case (Cons e r)
  assume ok: "ledger_ok now fresh es"
  have "now \<in> set r \<longleftrightarrow> now \<in> set es" if "r \<noteq> []"
  proof (cases "e = now")
    case True
    with ok Cons have "\<forall>b \<in> set r. b = now" by (simp add: ledger_ok_def)
    with that True Cons show ?thesis by (metis hd_in_set list.set_intros(1))
  qed (auto simp: Cons)
  with ok Cons show ?thesis unfolding ledger_ok_def by simp
qed simp

lemma ledger_ok_issue: "ledger_ok now fresh es \<Longrightarrow> ledger_ok now True (es @ [now])"
  by (auto simp: ledger_ok_def sorted_wrt_append epochs_le_refl)

lemma ledger_ok_current: "\<forall>e \<in> set es. e = now \<Longrightarrow> ledger_ok now True es"
  by (induction es) (auto simp: ledger_ok_def epochs_le_refl)

lemma ledger_ok_newer:
  assumes "ledger_ok now fresh es" "epochs_le now now'" "now' \<noteq> now"
  shows "ledger_ok now' False es"
proof -
  have "e \<noteq> now'" "epochs_le e now'" if "e \<in> set es" for e
  proof -
    from that assms(1) have e: "epochs_le e now" by (auto simp: ledger_ok_def)
    from epochs_le_trans [OF this assms(2)] show "epochs_le e now'" .
    from e epochs_le_antisym [OF assms(2)] assms(3) show "e \<noteq> now'" by blast
  qed
  then show ?thesis by (auto simp: ledger_ok_def sorted_wrt_iff_nth_less)
qed

lemma filter_tl: "filter P (tl xs) = filter P xs \<or> filter P (tl xs) = tl (filter P xs)"
  by (cases xs) auto

lemma outstanding_issue:
  "outstanding cs (issue cs' p) \<in> {es @ (if cs' = cs then [current_epochs p cs] else []) | es.
     es = outstanding cs p \<or> es = tl (outstanding cs p)}"
  using filter_tl [of "\<lambda>i. ip_cursors i = cs" "pl_issued p"]
  by (auto simp: outstanding_def issue_def Let_def map_tl)

lemma take_first_filter:
  assumes "take_first P xs = Some r"
  shows "(\<And>a. P a \<Longrightarrow> \<not> Q a) \<Longrightarrow> filter Q r = filter Q xs"
    and "filter P r = tl (filter P xs)"
    and "\<exists>a \<in> set xs. P a"
  using take_first_Some [OF assms] by (auto simp: filter_empty_conv [THEN iffD2])

lemma outstanding_refresh:
  "outstanding cs (p\<lparr>pl_issued := refresh_issued cs' now r\<rparr>) =
     (if cs' = cs then map (\<lambda>_. now) (outstanding cs (p\<lparr>pl_issued := r\<rparr>)) else outstanding cs (p\<lparr>pl_issued := r\<rparr>))"
  by (induction r) (auto simp: outstanding_def refresh_issued_def)

lemma ledger_ok_answered:
  assumes "ledger_ok (current_epochs p cs) fresh (outstanding cs p)"
  shows "ledger_ok (current_epochs p cs) fresh (outstanding cs (snd (stale cs' p)))"
proof -
  let ?now = "current_epochs p cs'" and ?es = "outstanding cs p"
  let ?A = "\<lambda>i. ip_cursors i = cs' \<and> ip_epochs i = ?now" and ?B = "\<lambda>i. ip_cursors i = cs'"
  show ?thesis
  proof (cases "take_first ?A (pl_issued p)")
    case (Some rest)
    then have st: "snd (stale cs' p) = p\<lparr>pl_issued := refresh_issued cs' ?now rest\<rparr>" by (simp add: stale_def Let_def)
    show ?thesis
    proof (cases "cs' = cs")
      case True
      have "?now \<in> set ?es" using take_first_filter(3) [OF Some] True
        by (auto simp: outstanding_def intro: rev_image_eqI)
      with assms True have fresh by (auto simp: ledger_ok_def)
      with st True show ?thesis by (simp add: outstanding_refresh ledger_ok_current)
    next
      case False
      then have "outstanding cs (p\<lparr>pl_issued := rest\<rparr>) = ?es"
        using take_first_filter(1) [OF Some, of "\<lambda>i. ip_cursors i = cs"] by (simp add: outstanding_def)
      with st False assms show ?thesis by (simp add: outstanding_refresh)
    qed
  next
    case none: None
    show ?thesis
    proof (cases "take_first ?B (pl_issued p)")
      case (Some rest)
      with none have st: "snd (stale cs' p) = p\<lparr>pl_issued := rest\<rparr>" by (simp add: stale_def Let_def)
      have "outstanding cs (p\<lparr>pl_issued := rest\<rparr>) = (if cs' = cs then tl ?es else ?es)"
        using take_first_filter(1) [OF Some, of "\<lambda>i. ip_cursors i = cs"] take_first_filter(2) [OF Some]
        by (auto simp: outstanding_def map_tl)
      with st assms show ?thesis by (simp add: ledger_ok_tl)
    qed (use none assms in \<open>simp add: stale_def Let_def\<close>)
  qed
qed

lemma current_step:
  "current_epochs (issue cs' p) cs = current_epochs p cs"
  "current_epochs (snd (stale cs' p)) cs = current_epochs p cs"
  by (auto simp: current_epochs_def pull_epoch_def issue_def stale_def Let_def split: option.splits)

lemma ledger_ok_after:
  "ledger_ok (current_epochs (ledger_after h) cs) (requested_since cs h) (outstanding cs (ledger_after h))"
proof (induction h)
  case Nil
  show ?case by (simp add: ledger_ok_def outstanding_def pulls_default_def)
next
  case (Cons e h)
  let ?p = "ledger_after h"
  show ?case
  proof (cases e)
    case (Issued cs')
    from outstanding_issue [of cs cs' ?p] obtain es where
      es: "outstanding cs (issue cs' ?p) = es @ (if cs' = cs then [current_epochs ?p cs] else [])"
        "es = outstanding cs ?p \<or> es = tl (outstanding cs ?p)" by blast
    from es(2) Cons.IH have "ledger_ok (current_epochs ?p cs) (requested_since cs h) es"
      by (auto intro: ledger_ok_tl)
    with es(1) Issued show ?thesis by (auto simp: current_step intro: ledger_ok_issue)
  next
    case (Answered cs')
    with Cons.IH show ?thesis by (simp add: current_step ledger_ok_answered)
  next
    case (Committed changed)
    have out: "outstanding cs (snd (absorb changed ?p)) = outstanding cs ?p"
      by (simp add: outstanding_def absorb_def issued_absorb)
    show ?thesis
    proof (cases "\<forall>(c, _) \<in> set cs. subscription_mark @ c \<notin> set changed")
      case True
      with Cons.IH Committed out current_absorb(2) [of changed ?p cs] show ?thesis by simp
    next
      case False
      then have "requested_since cs (Committed changed # h) = False" by simp
      moreover have "current_epochs (snd (absorb changed ?p)) cs \<noteq> current_epochs ?p cs"
        using False current_absorb(2) [of changed ?p cs] by simp
      note ledger_ok_newer [OF Cons.IH current_absorb(1) this]
      ultimately show ?thesis by (simp only: Committed ledger_after.simps ledger_step.simps out)
    qed
  qed
qed

lemma stale_iff: "fst (stale cs p) \<longleftrightarrow> outstanding cs p \<noteq> [] \<and> current_epochs p cs \<notin> set (outstanding cs p)"
proof -
  let ?A = "\<lambda>i. ip_cursors i = cs \<and> ip_epochs i = current_epochs p cs"
  have "current_epochs p cs \<in> set (outstanding cs p) \<longleftrightarrow> (\<exists>i \<in> set (pl_issued p). ?A i)"
    by (auto simp: outstanding_def intro: rev_image_eqI)
  also have "\<dots> \<longleftrightarrow> take_first ?A (pl_issued p) \<noteq> None"
    by (simp only: take_first_None) blast
  finally have now: "current_epochs p cs \<in> set (outstanding cs p) \<longleftrightarrow> take_first ?A (pl_issued p) \<noteq> None" .
  have "outstanding cs p \<noteq> [] \<longleftrightarrow> (\<exists>i \<in> set (pl_issued p). ip_cursors i = cs)"
    by (auto simp: outstanding_def filter_empty_conv)
  also have "\<dots> \<longleftrightarrow> take_first (\<lambda>i. ip_cursors i = cs) (pl_issued p) \<noteq> None"
    by (simp only: take_first_None) blast
  finally show ?thesis using now by (simp add: stale_def Let_def split: option.splits)
qed

text \<open>
  C20: a page is judged stale exactly when the client has an outstanding pull with the page's
  channels and cursors, and no such pull was issued after the latest change of the subscription
  of one of its channels: whatever pulls were issued, answers judged and transactions committed
  before.
\<close>

theorem stale_iff_requested_before:
  "fst (stale cs (ledger_after h)) \<longleftrightarrow>
     outstanding cs (ledger_after h) \<noteq> [] \<and> \<not> requested_since cs h"
  using ledger_ok_after [of h cs] by (auto simp: stale_iff ledger_ok_def)

lemma stale_length: "length (pl_issued (snd (stale cs p))) \<le> length (pl_issued p)"
  by (auto simp: stale_def Let_def refresh_issued_def take_first_length split: option.splits)

lemma ledger_bounded: "length (pl_issued (ledger_after h)) \<le> pull_capacity"
proof (induction h)
  case Nil
  show ?case by (simp add: pulls_default_def)
next
  case (Cons e h)
  then show ?case
    using stale_length [of _ "ledger_after h"]
    by (cases e) (auto simp: issue_def absorb_def issued_absorb Let_def pull_capacity_def intro: order_trans)
qed

end
