(* ===== verification/Client.thy ===== *)
theory Client
  imports Pulls
begin

text \<open>
  The client handle of \<open>crates/client/src/lib.rs\<close>: its store with at most one open transaction,
  the write path that fences, commits and notifies, host transactions and their savepoints, and
  the calls built on them. Beginning, committing and rolling back can fail for reasons outside
  the program; those outcomes are an argument of the call.
\<close>

section \<open>The store\<close>

text \<open>The content every other connection sees, and the transaction this handle holds open.\<close>

record store =
  s_file :: db
  s_open :: "(db \<times> (string \<times> db) list) option"

record io =
  io_begin :: "err option"
  io_commit :: "err option"
  io_rollback :: "err option"

definition io_ok :: io where
  "io_ok = \<lparr>io_begin = None, io_commit = None, io_rollback = None\<rparr>"

definition store_begin :: "ext \<Rightarrow> io \<Rightarrow> (store, err, unit) comp" where
  "store_begin x io s = (case io_begin io of
       Some e \<Rightarrow> (Inl e, s)
     | None \<Rightarrow> (case s_open s of
         Some _ \<Rightarrow> (Inl (constraint_error x ''transaction within a transaction''), s)
       | None \<Rightarrow> (Inr (), s\<lparr>s_open := Some (s_file s, [])\<rparr>)))"

text \<open>A \<open>COMMIT\<close> that fails leaves the transaction open.\<close>

definition store_commit :: "ext \<Rightarrow> io \<Rightarrow> (store, err, unit) comp" where
  "store_commit x io s = (case s_open s of
       None \<Rightarrow> (Inl (constraint_error x ''no transaction is active''), s)
     | Some (d, _) \<Rightarrow> (case io_commit io of
         Some e \<Rightarrow> (Inl e, s)
       | None \<Rightarrow> (Inr (), \<lparr>s_file = d, s_open = None\<rparr>)))"

definition store_rollback :: "ext \<Rightarrow> io \<Rightarrow> (store, err, unit) comp" where
  "store_rollback x io s = (case s_open s of
       None \<Rightarrow> (Inl (constraint_error x ''no transaction is active''), s)
     | Some _ \<Rightarrow> (case io_rollback io of
         Some e \<Rightarrow> (Inl e, s)
       | None \<Rightarrow> (Inr (), s\<lparr>s_open := None\<rparr>)))"

text \<open>An engine computation over the open transaction, with the set of changed tables it extends.\<close>

definition open_work :: "string list \<Rightarrow> store \<Rightarrow> work" where
  "open_work changed s = (case s_open s of
       Some (d, saves) \<Rightarrow> \<lparr>w_db = d, w_saves = saves, w_changed = changed\<rparr>
     | None \<Rightarrow> \<lparr>w_db = s_file s, w_saves = [], w_changed = changed\<rparr>)"

definition close_work :: "work \<Rightarrow> store \<Rightarrow> store" where
  "close_work w s = s\<lparr>s_open := Some (w_db w, w_saves w)\<rparr>"

section \<open>The handle\<close>

text \<open>A watcher: the tables it names, whether its receiver is still there, the wake-ups sent.\<close>

record watcher =
  wa_tables :: "string list"
  wa_alive :: bool
  wa_signals :: nat

record session =
  ss_changed :: "string list"
  ss_savepoints :: "string list"
  ss_counter :: nat

record client =
  c_store :: store
  c_schema :: schema
  c_id :: string
  c_generation :: nat
  c_watchers :: "watcher list"
  c_session :: "session option"
  c_last_changed :: "string list"
  c_pulls :: pulls

type_synonym 'a call = "(client, err, 'a) comp"

definition watch :: "string list \<Rightarrow> client \<Rightarrow> client" where
  "watch tables c = c\<lparr>c_watchers := c_watchers c @ [\<lparr>wa_tables = tables, wa_alive = True, wa_signals = 0\<rparr>]\<rparr>"

definition touched :: "string list \<Rightarrow> watcher \<Rightarrow> bool" where
  "touched changed wa \<longleftrightarrow> (\<exists>t \<in> set (wa_tables wa). t \<in> set changed)"

definition wake_watchers :: "string list \<Rightarrow> watcher list \<Rightarrow> watcher list" where
  "wake_watchers changed was =
     map (\<lambda>wa. if touched changed wa then wa\<lparr>wa_signals := wa_signals wa + 1\<rparr> else wa)
       (filter (\<lambda>wa. touched changed wa \<longrightarrow> wa_alive wa) was)"

definition notify :: "string list \<Rightarrow> client \<Rightarrow> client" where
  "notify changed c = (case absorb changed (c_pulls c) of (tables, p) \<Rightarrow>
     c\<lparr>c_pulls := p, c_watchers := wake_watchers tables (c_watchers c), c_last_changed := tables\<rparr>)"

text \<open>\<open>UPDATE ahead_client SET generation = generation + 1 WHERE generation = ?\<close>, one row or none.\<close>

definition fence :: "nat \<Rightarrow> unit eng" where
  "fence generation w = (case d_client (w_db w) of
       Some r \<Rightarrow>
         if cl_generation r = generation
         then (Inr (), w\<lparr>w_db := (w_db w)\<lparr>d_client := Some (r\<lparr>cl_generation := generation + 1\<rparr>)\<rparr>\<rparr>)
         else (Inl (invalid ''stale client writer; reopen runtime''), w)
     | None \<Rightarrow> (Inl (invalid ''stale client writer; reopen runtime''), w))"

text \<open>The commit both write paths share: what follows a \<open>COMMIT\<close>, or the rollback after a failed one.\<close>

definition finish :: "ext \<Rightarrow> io \<Rightarrow> string list \<Rightarrow> 'a \<Rightarrow> 'a call" where
  "finish x io changed v c = (case store_commit x io (c_store c) of
       (Inl e, s) \<Rightarrow> (Inl e, c\<lparr>c_store := snd (store_rollback x io s)\<rparr>)
     | (Inr _, s) \<Rightarrow>
         (Inr v, notify (bs_ins ''ahead_client'' changed)
            (c\<lparr>c_store := s, c_generation := c_generation c + 1\<rparr>)))"

text \<open>\<open>self.store.rollback()?; Err(e)\<close>\<close>

definition abandon :: "ext \<Rightarrow> io \<Rightarrow> err \<Rightarrow> 'a call" where
  "abandon x io e c = (case store_rollback x io (c_store c) of
       (Inl e', s) \<Rightarrow> (Inl e', c\<lparr>c_store := s\<rparr>)
     | (Inr _, s) \<Rightarrow> (Inl e, c\<lparr>c_store := s\<rparr>))"

definition fenced :: "nat \<Rightarrow> 'a eng \<Rightarrow> 'a eng" where
  "fenced generation body = bindM body (\<lambda>v. bindM (fence generation) (\<lambda>_. retM v))"

definition client_write :: "ext \<Rightarrow> io \<Rightarrow> 'a eng \<Rightarrow> 'a call" where
  "client_write x io body c =
     (if c_session c \<noteq> None then (Inl (invalid ''client transaction active''), c)
      else case store_begin x io (c_store c) of
        (Inl e, s) \<Rightarrow> (Inl e, c\<lparr>c_store := s\<rparr>)
      | (Inr _, s) \<Rightarrow>
          (case fenced (c_generation c) body (open_work [] s) of
             (Inr v, w) \<Rightarrow> finish x io (w_changed w) v (c\<lparr>c_store := close_work w s\<rparr>)
           | (Inl e, w) \<Rightarrow> abandon x io e (c\<lparr>c_store := close_work w s\<rparr>)))"

text \<open>A read: on the connection that sees the committed content.\<close>

definition view :: "'a eng \<Rightarrow> 'a call" where
  "view body c =
     (fst (body \<lparr>w_db = s_file (c_store c), w_saves = [], w_changed = []\<rparr>), c)"

section \<open>Transactions of the host\<close>


text \<open>\<open>ClientTransaction\<close>: computations that also know how deep they are in nested savepoints.\<close>

type_synonym 'a tx = "nat \<Rightarrow> 'a eng"

definition tx_savepoint :: "ext \<Rightarrow> 'a tx \<Rightarrow> 'a tx" where
  "tx_savepoint x body depth =
     (let name = ''tx_'' @ decimal (depth + 1) in
      bindM (savepoint name)
      (\<lambda>_. bindM (tryM (body (depth + 1)))
      (\<lambda>r. case r of
           Inr v \<Rightarrow> bindM (release x name) (\<lambda>_. retM v)
         | Inl e \<Rightarrow> bindM (rollback_to x name) (\<lambda>_. failM e))))"

definition set_channel :: "string \<Rightarrow> bool \<Rightarrow> unit tx" where
  "set_channel channel subscribed depth =
     bindM (cursor channel)
     (\<lambda>at. if subscribed
        then (if at = None
              then bindM (set_cursor channel 0) (\<lambda>_. mark_changed (subscription_mark @ channel))
              else retM ())
        else bindM (if at \<noteq> None then mark_changed (subscription_mark @ channel) else retM ())
             (\<lambda>_. unsubscribe channel))"

definition tx_enqueue :: "ext \<Rightarrow> schema \<Rightarrow> mutation \<Rightarrow> nat tx" where
  "tx_enqueue x s m = tx_savepoint x (\<lambda>_. enqueue x s m)"

definition tx_direct :: "ext \<Rightarrow> schema \<Rightarrow> operation \<Rightarrow> unit tx" where
  "tx_direct x s op = tx_savepoint x (\<lambda>_. direct x s op)"

definition tx_read :: "ext \<Rightarrow> schema \<Rightarrow> rkey \<Rightarrow> json option tx" where
  "tx_read x s k depth =
     bindM (liftM (record_key x s (k_model k) (k_identity k))) (\<lambda>k'. read_row x s k')"

definition transaction :: "ext \<Rightarrow> io \<Rightarrow> 'a tx \<Rightarrow> 'a call" where
  "transaction x io body = client_write x io (body 0)"

section \<open>A transaction held open across calls\<close>

definition no_transaction :: err where
  "no_transaction = invalid ''no active transaction''"

definition begin_session :: "ext \<Rightarrow> io \<Rightarrow> unit call" where
  "begin_session x io c =
     (if c_session c \<noteq> None then (Inl (invalid ''transaction already active''), c)
      else case store_begin x io (c_store c) of
        (Inl e, s) \<Rightarrow> (Inl e, c\<lparr>c_store := s\<rparr>)
      | (Inr _, s) \<Rightarrow> (Inr (), c\<lparr>c_store := s,
          c_session := Some \<lparr>ss_changed = [], ss_savepoints = [], ss_counter = 0\<rparr>\<rparr>))"

definition in_session :: "'a tx \<Rightarrow> 'a call" where
  "in_session body c = (case c_session c of
       None \<Rightarrow> (Inl no_transaction, c)
     | Some ss \<Rightarrow> (case body 0 (open_work (ss_changed ss) (c_store c)) of
         (r, w) \<Rightarrow> (r, c\<lparr>c_store := close_work w (c_store c),
           c_session := Some (ss\<lparr>ss_changed := w_changed w\<rparr>)\<rparr>)))"

definition commit_session :: "ext \<Rightarrow> io \<Rightarrow> unit call" where
  "commit_session x io c = (case c_session c of
       None \<Rightarrow> (Inl no_transaction, c)
     | Some ss \<Rightarrow>
         (let c' = c\<lparr>c_session := None\<rparr> in
          if ss_savepoints ss \<noteq> [] then abandon x io (invalid ''unclosed savepoint'') c'
          else case fence (c_generation c) (open_work (ss_changed ss) (c_store c)) of
            (Inl e, w) \<Rightarrow> abandon x io e (c'\<lparr>c_store := close_work w (c_store c)\<rparr>)
          | (Inr _, w) \<Rightarrow> finish x io (w_changed w) () (c'\<lparr>c_store := close_work w (c_store c)\<rparr>)))"

definition rollback_session :: "ext \<Rightarrow> io \<Rightarrow> unit call" where
  "rollback_session x io c = (case c_session c of
       None \<Rightarrow> (Inl no_transaction, c)
     | Some _ \<Rightarrow> (case store_rollback x io (c_store c) of
         (r, s) \<Rightarrow> (r, c\<lparr>c_session := None, c_store := s\<rparr>)))"

text \<open>A savepoint statement of the session, on the open transaction.\<close>

definition session_statement :: "unit eng \<Rightarrow> session \<Rightarrow> unit call" where
  "session_statement m ss c = (case m (open_work (ss_changed ss) (c_store c)) of
       (r, w) \<Rightarrow> (r, c\<lparr>c_store := close_work w (c_store c), c_session := Some ss\<rparr>))"

definition session_savepoint :: "unit call" where
  "session_savepoint c = (case c_session c of
       None \<Rightarrow> (Inl no_transaction, c)
     | Some ss \<Rightarrow>
         (let n = ss_counter ss + 1; name = ''session_'' @ decimal n in
          session_statement (savepoint name)
            (ss\<lparr>ss_counter := n, ss_savepoints := ss_savepoints ss @ [name]\<rparr>) c))"

definition session_pop :: "(string \<Rightarrow> unit eng) \<Rightarrow> unit call" where
  "session_pop close c = (case c_session c of
       None \<Rightarrow> (Inl no_transaction, c)
     | Some ss \<Rightarrow>
         (if ss_savepoints ss = [] then (Inl (invalid ''no savepoint''), c)
          else session_statement (close (last (ss_savepoints ss)))
                 (ss\<lparr>ss_savepoints := butlast (ss_savepoints ss)\<rparr>) c))"

definition session_release :: "ext \<Rightarrow> unit call" where
  "session_release x = session_pop (release x)"

definition session_rollback_savepoint :: "ext \<Rightarrow> unit call" where
  "session_rollback_savepoint x = session_pop (rollback_to x)"

section \<open>Calls that write\<close>

definition drop_mutation :: "ext \<Rightarrow> io \<Rightarrow> nat \<Rightarrow> unit call" where
  "drop_mutation x io n c = client_write x io
     (bindM (queued_one x n)
      (\<lambda>found. case found of
          None \<Rightarrow> retM ()
        | Some q \<Rightarrow>
            if q_push q \<noteq> None
            then failM (invalid ''cannot drop a sent mutation with unknown/accepted outcome'')
            else remove_rejected x (c_schema c) [\<lparr>j_ordinal = n, j_code = ''dropped''\<rparr>])) c"

definition client_freeze :: "ext \<Rightarrow> io \<Rightarrow> nat \<Rightarrow> string option call" where
  "client_freeze x io max_bytes c = client_write x io (freeze x (c_schema c) max_bytes) c"

text \<open>The receipt is encoded and decoded again before it is believed.\<close>

definition client_acknowledge :: "ext \<Rightarrow> io \<Rightarrow> nat \<Rightarrow> receipt \<Rightarrow> apply_report call" where
  "client_acknowledge x io sequence r c =
     (case bindE (receipt_encode x r) (receipt_decode x) of
        Inl e \<Rightarrow> (Inl e, c)
      | Inr r' \<Rightarrow> client_write x io (acknowledge x (c_schema c) sequence r') c)"

datatype readiness = Pending | Ready | Failed

definition set_readiness :: "ext \<Rightarrow> io \<Rightarrow> string \<Rightarrow> readiness \<Rightarrow> unit call" where
  "set_readiness x io key v = client_write x io (case v of
       Ready \<Rightarrow> resolve_prerequisite key
     | Failed \<Rightarrow> fail_prerequisite key ''failed''
     | Pending \<Rightarrow> reset_prerequisite key)"

definition task :: "ext \<Rightarrow> string \<Rightarrow> string option \<Rightarrow> json" where
  "task x key error =
     (let fields = (case from_str x key of Inr (JObj kvs) \<Rightarrow> kvs | _ \<Rightarrow> []);
          keyed = bt_ins ''key'' (JStr key) fields in
      JObj (case error of
          None \<Rightarrow> bt_ins ''state'' (JStr ''pending'') keyed
        | Some reason \<Rightarrow>
            bt_ins ''error'' (JStr reason) (bt_ins ''state'' (JStr ''failed'') keyed)))"

definition handled_by :: "string list \<Rightarrow> json \<Rightarrow> bool" where
  "handled_by handlers t = (case as_str (index t ''name'') of
     Some name \<Rightarrow> name \<in> set handlers | None \<Rightarrow> False)"

fun first_task :: "ext \<Rightarrow> string list \<Rightarrow> (string \<times> string option) list \<Rightarrow> json option eng" where
  "first_task x handlers [] = retM None"
| "first_task x handlers ((key, error) # rest) =
     (if error \<noteq> None then first_task x handlers rest
      else if handled_by handlers (task x key None) then retM (Some (task x key None))
      else bindM (fail_prerequisite key ''missing prerequisite handler'')
             (\<lambda>_. first_task x handlers rest))"

definition next_task :: "ext \<Rightarrow> io \<Rightarrow> string list \<Rightarrow> json option call" where
  "next_task x io handlers = client_write x io (bindM prerequisite_keys (first_task x handlers))"

definition outcome :: "ext \<Rightarrow> io \<Rightarrow> string \<Rightarrow> string option \<Rightarrow> unit call" where
  "outcome x io key error = client_write x io (case error of
       None \<Rightarrow> resolve_prerequisite key
     | Some reason \<Rightarrow> fail_prerequisite key reason)"

definition dismiss_rejection :: "ext \<Rightarrow> io \<Rightarrow> nat \<Rightarrow> unit call" where
  "dismiss_rejection x io n = client_write x io (delete_rejection n)"

section \<open>Calls that read\<close>

definition client_read :: "ext \<Rightarrow> rkey \<Rightarrow> json option call" where
  "client_read x k c = (case record_key x (c_schema c) (k_model k) (k_identity k) of
       Inl e \<Rightarrow> (Inl e, c)
     | Inr k' \<Rightarrow> view (read_row x (c_schema c) k') c)"

definition client_stamp :: "ext \<Rightarrow> rkey \<Rightarrow> nat call" where
  "client_stamp x k c = (case record_key x (c_schema c) (k_model k) (k_identity k) of
       Inl e \<Rightarrow> (Inl e, c)
     | Inr k' \<Rightarrow> view (record_stamp x k') c)"

definition pending_count :: "nat call" where
  "pending_count = view (count_rows d_mutations)"

definition before_image_count :: "nat call" where
  "before_image_count c = view (query (\<lambda>d.
     sum_list (map (\<lambda>m. length (d_tables d (before_table (m_name m)))) (s_models (c_schema c))))) c"

definition client_cursor :: "string \<Rightarrow> nat call" where
  "client_cursor channel = view (bindM (cursor channel) (\<lambda>at. retM (case at of None \<Rightarrow> 0 | Some n \<Rightarrow> n)))"

definition client_subscriptions :: "channel_map call" where
  "client_subscriptions = view subscriptions"

definition client_last_completed :: "nat call" where
  "client_last_completed = view last_completed_push"

definition desired_channels :: "string list call" where
  "desired_channels = bindM client_subscriptions (\<lambda>subs. retM (bs_of (map fst subs)))"

definition pending_tasks :: "ext \<Rightarrow> json list call" where
  "pending_tasks x = view (bindM prerequisite_keys (\<lambda>ks. retM (map (\<lambda>(k, e). task x k e) ks)))"

definition client_rejections :: "rejection list call" where
  "client_rejections = view rejections"

section \<open>The status of a record\<close>

definition touches :: "rkey \<Rightarrow> queued \<Rightarrow> bool" where
  "touches k q \<longleftrightarrow> (\<exists>op \<in> set (all_ops (q_mutation q)). o_model op = k_model k \<and> o_identity op = k_identity k)"

definition prerequisite_state :: "(string \<times> string option) list \<Rightarrow> string \<Rightarrow> json" where
  "prerequisite_state errors k = (case map_of errors k of
       None \<Rightarrow> obj [(''key'', JStr k), (''state'', JStr ''ready'')]
     | Some (Some e) \<Rightarrow> obj [(''key'', JStr k), (''state'', JStr ''failed''), (''error'', JStr e)]
     | Some None \<Rightarrow> obj [(''key'', JStr k), (''state'', JStr ''pending'')])"

definition pending_status :: "(string \<times> string option) list \<Rightarrow> queued \<Rightarrow> json" where
  "pending_status errors q = obj [(''ordinal'', jnat (q_ordinal q)), (''name'', JStr (n_name (q_mutation q))),
     (''phase'', JStr (if q_push q = None then ''queued'' else ''frozen'')), (''diverged'', JBool (q_diverged q)),
     (''prerequisites'', JArr (map (prerequisite_state errors) (n_prerequisites (q_mutation q))))]"

definition names_record :: "rkey \<Rightarrow> json \<Rightarrow> bool" where
  "names_record k d = (case as_array (index d ''records'') of
       None \<Rightarrow> False
     | Some rs \<Rightarrow> (\<exists>r \<in> set rs. index r ''model'' = JStr (k_model k) \<and> index r ''identity'' = k_identity k))"

definition record_status :: "ext \<Rightarrow> rkey \<Rightarrow> json call" where
  "record_status x k c = (case record_key x (c_schema c) (k_model k) (k_identity k) of
       Inl e \<Rightarrow> (Inl e, c)
     | Inr k' \<Rightarrow> view (bindM prerequisite_keys
         (\<lambda>errors. bindM (queued_all x)
         (\<lambda>qs. bindM (rejection_details x)
         (\<lambda>details. retM (obj
            [(''pending'', JArr (map (pending_status errors) (filter (touches k') qs))),
             (''rejections'', JArr (filter (names_record k') details))]))))) c)"

end
