(* ===== verification/Downlink.thy ===== *)
theory Downlink
  imports Client
begin

text \<open>
  Incoming pages and the HTTP cycle (\<open>crates/client/src/downlink.rs\<close>, \<open>transport.rs\<close>): each channel
  of a page is gated by its cursor, the changes land by their stamps, and the cursors move in
  the same transaction.
\<close>

section \<open>Applying a page\<close>

definition stale_report :: apply_report where
  "stale_report = report_default\<lparr>y_stale := True\<rparr>"

text \<open>The channels a page moves, each with its new cursor; a gap in any of them refuses the page.\<close>

fun moving_from :: "channel_map \<Rightarrow> (string \<times> cursor_range) list \<Rightarrow> channel_map \<Rightarrow> channel_map res" where
  "moving_from subs [] moving = Inr moving"
| "moving_from subs ((channel, r) # rest) moving =
     (case map_of subs channel of
        None \<Rightarrow> moving_from subs rest moving
      | Some current \<Rightarrow>
          if c_to r \<le> current then moving_from subs rest moving
          else if current < c_from r then Inl (invalid ''pull cursor gap'')
          else moving_from subs rest (bt_ins channel (c_to r) moving))"

definition moving_channels :: "pull_page \<Rightarrow> channel_map call" where
  "moving_channels page = view (query_res (\<lambda>d. moving_from (d_subs d) (g_cursors page) []))"

text \<open>The cursor gate again, inside the transaction.\<close>

definition check_moving :: "channel_map \<Rightarrow> string \<times> cursor_range \<Rightarrow> unit eng" where
  "check_moving moving cr = (case map_of moving (fst cr) of
       None \<Rightarrow> retM ()
     | Some to \<Rightarrow> bindM (cursor (fst cr)) (\<lambda>at.
         let current = (case at of None \<Rightarrow> 0 | Some n \<Rightarrow> n) in
         if current \<noteq> c_from (snd cr) \<and> to \<le> current
         then failM (invalid ''cursor moved during page application'') else retM ()))"

definition write_page :: "ext \<Rightarrow> schema \<Rightarrow> pull_page \<Rightarrow> channel_map \<Rightarrow> apply_report eng" where
  "write_page x s page moving =
     bindM (forM (check_moving moving) (g_cursors page))
     (\<lambda>_. bindM (apply_records x s (g_changes page))
     (\<lambda>rep. bindM (forM (\<lambda>(channel, to). set_cursor channel to) moving)
     (\<lambda>_. retM (rep\<lparr>y_cursors := moving\<rparr>))))"

definition apply_current_page :: "ext \<Rightarrow> io \<Rightarrow> pull_page \<Rightarrow> apply_report call" where
  "apply_current_page x io page =
     bindM (moving_channels page)
     (\<lambda>moving c. if moving = [] then (Inr stale_report, c)
        else client_write x io (write_page x (c_schema c) page moving) c)"

definition page_froms :: "pull_page \<Rightarrow> channel_map" where
  "page_froms page = map (\<lambda>(c, r). (c, c_from r)) (g_cursors page)"

definition stale_subscription_page :: "pull_page \<Rightarrow> bool call" where
  "stale_subscription_page page c =
     (case stale (page_froms page) (c_pulls c) of (b, p) \<Rightarrow> (Inr b, c\<lparr>c_pulls := p\<rparr>))"

definition apply_page :: "ext \<Rightarrow> io \<Rightarrow> pull_page \<Rightarrow> apply_report call" where
  "apply_page x io page =
     bindM (liftM (page_validate x page))
     (\<lambda>_. bindM (stale_subscription_page page)
     (\<lambda>old. if old then retM stale_report else apply_current_page x io page))"

section \<open>Requests and answers\<close>

definition answers :: "pull_page \<Rightarrow> pull_request \<Rightarrow> bool" where
  "answers page request \<longleftrightarrow>
     length (g_cursors page) = length (l_cursors request) \<and>
     (\<forall>(c, r) \<in> set (g_cursors page). map_of (l_cursors request) c = Some (c_from r))"

definition client_declared :: "client \<Rightarrow> channel_map" where
  "client_declared c = declared_models (c_schema c)"

text \<open>The request is remembered before it is encoded.\<close>

definition downlink_request :: "ext \<Rightarrow> string option call" where
  "downlink_request x =
     bindM client_subscriptions
     (\<lambda>cursors. if cursors = [] then retM None
        else bindM (modifyM (\<lambda>c. c\<lparr>c_pulls := issue cursors (c_pulls c)\<rparr>))
          (\<lambda>_ c. (case pull_encode x \<lparr>l_models = client_declared c, l_cursors = cursors\<rparr> of
               Inl e \<Rightarrow> (Inl e, c) | Inr body \<Rightarrow> (Inr (Some body), c))))"

datatype page_outcome = Covered | Recover | PageApplied

record progress =
  pg_outcome :: page_outcome
  pg_gaps :: "string list"
  pg_continues :: "string list"
  pg_report :: apply_report

text \<open>Whether a channel of the page is a gap (\<open>Some True\<close>), moves (\<open>Some False\<close>) or neither.\<close>

definition channel_gate :: "channel_map \<Rightarrow> string \<times> cursor_range \<Rightarrow> bool option" where
  "channel_gate subs cr = (case map_of subs (fst cr) of
       None \<Rightarrow> None
     | Some at \<Rightarrow> if c_to (snd cr) \<le> at then None else Some (at < c_from (snd cr)))"

definition receive_downlink :: "ext \<Rightarrow> io \<Rightarrow> pull_page \<Rightarrow> pull_request option \<Rightarrow> progress call" where
  "receive_downlink x io page request =
     bindM (liftM (page_validate x page))
     (\<lambda>_. if \<not> (case request of None \<Rightarrow> True | Some r \<Rightarrow> answers page r)
          then failM (invalid ''response does not match pull request'')
          else
            (let p = \<lparr>pg_outcome = Covered, pg_gaps = [],
                 pg_continues = map fst (filter (\<lambda>(_, r). continues r) (g_cursors page)),
                 pg_report = report_default\<rparr> in
             bindM (stale_subscription_page page)
             (\<lambda>old. if old then retM p
                else bindM client_subscriptions
                (\<lambda>subs.
                   let gaps = map fst (filter (\<lambda>cr. channel_gate subs cr = Some True) (g_cursors page));
                       live = (\<exists>cr \<in> set (g_cursors page). channel_gate subs cr = Some False) in
                   if gaps \<noteq> [] then retM (p\<lparr>pg_outcome := Recover, pg_gaps := gaps\<rparr>)
                   else if live
                   then bindM (apply_current_page x io page)
                     (\<lambda>rep. retM (p\<lparr>pg_outcome := PageApplied, pg_report := rep\<rparr>))
                   else retM p))))"

section \<open>The HTTP cycle\<close>

datatype action = PushAction string | PullAction string

record cycle =
  sc_push_only :: bool
  sc_completed :: bool
  sc_active :: "action option"

definition cycle_default :: cycle where
  "cycle_default = \<lparr>sc_push_only = False, sc_completed = False, sc_active = None\<rparr>"

definition cycle_restart :: "cycle \<Rightarrow> cycle" where
  "cycle_restart cy = cy\<lparr>sc_completed := False, sc_active := None, sc_push_only := False\<rparr>"

definition cycle_restart_push_only :: "cycle \<Rightarrow> cycle" where
  "cycle_restart_push_only cy = (cycle_restart cy)\<lparr>sc_push_only := True\<rparr>"

type_synonym 'a cycle_call = "(cycle \<times> client, err, 'a) comp"

definition on_client :: "'a call \<Rightarrow> 'a cycle_call" where
  "on_client m s = (case m (snd s) of (r, c) \<Rightarrow> (r, (fst s, c)))"

definition set_cycle :: "(cycle \<Rightarrow> cycle) \<Rightarrow> unit cycle_call" where
  "set_cycle f = modifyM (\<lambda>(cy, c). (f cy, c))"

definition activate :: "action \<Rightarrow> action option cycle_call" where
  "activate a = bindM (set_cycle (\<lambda>cy. cy\<lparr>sc_active := Some a\<rparr>)) (\<lambda>_. retM (Some a))"

definition cycle_next :: "ext \<Rightarrow> io \<Rightarrow> action option cycle_call" where
  "cycle_next x io s = (case sc_active (fst s) of
       Some a \<Rightarrow> (Inr (Some a), s)
     | None \<Rightarrow>
         bindM (on_client (client_freeze x io push_bytes))
         (\<lambda>frozen. case frozen of
             Some body \<Rightarrow> activate (PushAction body)
           | None \<Rightarrow>
               bindM (getsM fst)
               (\<lambda>cy. if sc_push_only cy \<or> sc_completed cy then retM None
                  else bindM (on_client (downlink_request x))
                    (\<lambda>request. case request of
                        None \<Rightarrow> bindM (set_cycle (\<lambda>cy. cy\<lparr>sc_completed := True\<rparr>)) (\<lambda>_. retM None)
                      | Some body \<Rightarrow> activate (PullAction body)))) s)"

definition complete_push :: "ext \<Rightarrow> io \<Rightarrow> string \<Rightarrow> string \<Rightarrow> apply_report cycle_call" where
  "complete_push x io body bytes =
     bindM (liftM (push_decode x body))
     (\<lambda>request. bindM (liftM (receipt_decode x bytes))
     (\<lambda>r. bindM (on_client (client_acknowledge x io (u_batch request) r))
     (\<lambda>rep. bindM (set_cycle (\<lambda>cy. cy\<lparr>sc_completed := False\<rparr>)) (\<lambda>_. retM rep))))"

definition complete_pull :: "ext \<Rightarrow> io \<Rightarrow> string \<Rightarrow> string \<Rightarrow> apply_report cycle_call" where
  "complete_pull x io body bytes =
     bindM (liftM (pull_decode x body))
     (\<lambda>request. bindM (liftM (page_decode x bytes))
     (\<lambda>page. if \<not> answers page request then failM (invalid ''response does not match pull request'')
        else bindM (on_client (apply_page x io page))
          (\<lambda>rep. bindM (if \<not> (\<exists>(_, r) \<in> set (g_cursors page). continues r)
               then set_cycle (\<lambda>cy. cy\<lparr>sc_completed := True\<rparr>) else retM ())
          (\<lambda>_. retM rep))))"

definition cycle_complete :: "ext \<Rightarrow> io \<Rightarrow> string \<Rightarrow> report list cycle_call" where
  "cycle_complete x io bytes s = (case sc_active (fst s) of
       None \<Rightarrow> (Inl (invalid ''no transport action''), s)
     | Some a \<Rightarrow>
         bindM (case a of
             PushAction body \<Rightarrow> complete_push x io body bytes
           | PullAction body \<Rightarrow> complete_pull x io body bytes)
         (\<lambda>rep. bindM (set_cycle (\<lambda>cy. cy\<lparr>sc_active := None\<rparr>)) (\<lambda>_. retM (y_reports rep))) s)"

end
