(* ===== verification/Calls.thy ===== *)
theory Calls
  imports Downlink Stamps Integrity
begin

text \<open>
  The client under any sequence of calls: programs of the host inside a transaction, every call
  that changes the client, and the relations between committed contents they all keep, whatever
  beginning, committing and rolling back come to.
\<close>

section \<open>Calls\<close>

text \<open>What a host does in a transaction; it may catch an error or give up.\<close>

datatype tx_prog =
    TxEnqueue mutation
  | TxDirect operation
  | TxChannel string bool
  | TxNested tx_prog
  | TxThen tx_prog tx_prog
  | TxTry tx_prog
  | TxFail err

fun tx_run :: "ext \<Rightarrow> schema \<Rightarrow> tx_prog \<Rightarrow> unit tx" where
  "tx_run x s (TxEnqueue m) depth = dropM (tx_enqueue x s m depth)"
| "tx_run x s (TxDirect op) depth = tx_direct x s op depth"
| "tx_run x s (TxChannel c b) depth = set_channel c b depth"
| "tx_run x s (TxNested p) depth = tx_savepoint x (tx_run x s p) depth"
| "tx_run x s (TxThen p q) depth = bindM (tx_run x s p depth) (\<lambda>_. tx_run x s q depth)"
| "tx_run x s (TxTry p) depth = dropM (tryM (tx_run x s p depth))"
| "tx_run x s (TxFail e) depth = failM e"

datatype client_call =
    CTransaction tx_prog
  | CBegin
  | CSession tx_prog
  | CSavepoint
  | CRelease
  | CRollbackTo
  | CCommit
  | CRollback
  | CFreeze nat
  | CAcknowledge nat receipt
  | CPage pull_page
  | CReceive pull_page "pull_request option"
  | CRequest
  | CDrop nat
  | CReadiness string readiness
  | CNextTask "string list"
  | COutcome string "string option"
  | CDismiss nat
  | CWatch "string list"

fun client_do :: "ext \<Rightarrow> io \<Rightarrow> client_call \<Rightarrow> client \<Rightarrow> client" where
  "client_do x io (CTransaction p) c = snd (transaction x io (tx_run x (c_schema c) p) c)"
| "client_do x io CBegin c = snd (begin_session x io c)"
| "client_do x io (CSession p) c = snd (in_session (tx_run x (c_schema c) p) c)"
| "client_do x io CSavepoint c = snd (session_savepoint c)"
| "client_do x io CRelease c = snd (session_release x c)"
| "client_do x io CRollbackTo c = snd (session_rollback_savepoint x c)"
| "client_do x io CCommit c = snd (commit_session x io c)"
| "client_do x io CRollback c = snd (rollback_session x io c)"
| "client_do x io (CFreeze n) c = snd (client_freeze x io n c)"
| "client_do x io (CAcknowledge n r) c = snd (client_acknowledge x io n r c)"
| "client_do x io (CPage page) c = snd (apply_page x io page c)"
| "client_do x io (CReceive page request) c = snd (receive_downlink x io page request c)"
| "client_do x io CRequest c = snd (downlink_request x c)"
| "client_do x io (CDrop n) c = snd (drop_mutation x io n c)"
| "client_do x io (CReadiness k v) c = snd (set_readiness x io k v c)"
| "client_do x io (CNextTask hs) c = snd (next_task x io hs c)"
| "client_do x io (COutcome k e) c = snd (outcome x io k e c)"
| "client_do x io (CDismiss n) c = snd (dismiss_rejection x io n c)"
| "client_do x io (CWatch ts) c = watch ts c"

definition client_run :: "ext \<Rightarrow> (io \<times> client_call) list \<Rightarrow> client \<Rightarrow> client" where
  "client_run x calls c = fold (\<lambda>(io, e). client_do x io e) calls c"

definition committed :: "client \<Rightarrow> db" where
  "committed c = s_file (c_store c)"

lemma saves_from_mem: "saves_from n saves = Some (d, rest) \<Longrightarrow> (n, d) \<in> set saves \<and> set rest \<subseteq> set saves"
  by (induction n saves rule: saves_from.induct) (auto split: if_splits)

text \<open>What a nested savepoint comes to.\<close>

definition tx_name :: "nat \<Rightarrow> string" where
  "tx_name depth = ''tx_'' @ decimal (depth + 1)"

definition tx_mark :: "nat \<Rightarrow> work \<Rightarrow> work" where
  "tx_mark depth w = w\<lparr>w_saves := (tx_name depth, w_db w) # w_saves w\<rparr>"

lemma tx_savepoint_run:
  "tx_savepoint x body depth w = (case body (depth + 1) (tx_mark depth w) of
       (Inr v, w2) \<Rightarrow> bindM (release x (tx_name depth)) (\<lambda>_. retM v) w2
     | (Inl e, w2) \<Rightarrow> bindM (rollback_to x (tx_name depth)) (\<lambda>_. failM e) w2)"
  unfolding tx_savepoint_def Let_def savepoint_def bindM_modifyM tx_name_def [symmetric] tx_mark_def [symmetric]
  by (simp add: tryM_def bindM_def split: prod.splits sum.splits)

section \<open>Relations every call keeps\<close>

text \<open>The client after a write does not depend on the value the write hands back.\<close>

lemma client_write_drop: "snd (client_write x io (dropM body) c) = snd (client_write x io body c)"
proof -
  have "fenced g (dropM body) w = (case fenced g body w of (Inl e, w') \<Rightarrow> (Inl e, w') | (Inr _, w') \<Rightarrow> (Inr (), w'))"
    for g w
    by (auto simp: fenced_def dropM_def bindM_def retM_def fence_def split: prod.splits sum.splits option.splits)
  then show ?thesis
    by (auto simp: client_write_def finish_def abandon_def split: prod.splits sum.splits)
qed

text \<open>
  The ways a call touches the store. A relation between clients that all of them keep is kept by
  every call, and by every sequence of calls.
\<close>

locale kept_calls = kept_engine Q for Q :: "db \<Rightarrow> db \<Rightarrow> bool" +
  fixes R :: "client \<Rightarrow> client \<Rightarrow> bool"
  assumes r_refl: "R c c" and r_trans: "R c d \<Longrightarrow> R d e \<Longrightarrow> R c e"
    and r_same: "c_store c' = c_store c \<Longrightarrow> c_generation c' = c_generation c \<Longrightarrow> R c c'"
    and unit_write_kept: "keeps (on_db Q) m \<Longrightarrow> R c (snd (client_write x io (m :: unit eng) c))"
    and keeps_begin_session: "keeps R (begin_session x io)"
    and keeps_rollback_session: "keeps R (rollback_session x io)"
    and keeps_in_session: "keeps (on_db Q) (body 0) \<Longrightarrow> keeps R (in_session (body :: unit tx))"
    and keeps_commit_session: "keeps R (commit_session x io)"
    and keeps_savepoints: "keeps R session_savepoint" "keeps R (session_release x)"
      "keeps R (session_rollback_savepoint x)"
begin

sublocale calls: kept R
  by unfold_locales (auto intro: r_refl r_trans)

lemma write_kept:
  assumes "keeps (on_db Q) body"
  shows "R c (snd (client_write x io body c))"
proof -
  from assms have "keeps (on_db Q) (dropM body)" unfolding dropM_def by (intro keeps_rules)
  from unit_write_kept [OF this] show ?thesis by (simp add: client_write_drop)
qed

lemma keeps_tx_savepoint:
  assumes "keeps (on_db Q) (body (depth + 1))"
  shows "keeps (on_db Q) (tx_savepoint x body depth)"
proof (rule keepsI)
  fix w r w'
  assume run: "tx_savepoint x body depth w = (r, w')"
  obtain r2 w2 where b: "body (depth + 1) (tx_mark depth w) = (r2, w2)" by (metis prod.collapse)
  from keepsD [OF assms b] have "w_saves w2 = (tx_name depth, w_db w) # w_saves w" "Q (w_db w) (w_db w2)"
    by (simp_all add: on_db_def tx_mark_def)
  with run b show "on_db Q w w'"
    by (cases r2) (auto simp: tx_savepoint_run release_def rollback_to_def on_db_def q_refl)
qed

lemma keeps_tx: "keeps (on_db Q) (tx_run x s p depth)"
proof (induction p arbitrary: depth)
  case (TxChannel c b)
  show ?case unfolding tx_run.simps set_channel_def
    by (intro keeps_subscriptions keeps_base keeps_rules)
next
  case (TxNested p)
  show ?case unfolding tx_run.simps by (intro keeps_tx_savepoint TxNested)
next
  case (TxThen p q)
  show ?case unfolding tx_run.simps by (intro keeps_bind TxThen)
next
  case (TxTry p)
  show ?case unfolding tx_run.simps dropM_def by (intro keeps_bind keeps_try keeps_pure TxTry)
qed (unfold tx_run.simps dropM_def tx_enqueue_def tx_direct_def;
    intro keeps_tx_savepoint keeps_enqueue keeps_direct keeps_rules)+

lemma keeps_view: "keeps R (view body)"
  by (rule keepsI) (auto simp: view_def calls.refl)

text \<open>A call whose body depends on the client's schema.\<close>

lemma keeps_client_write:
  assumes "\<And>c. keeps (on_db Q) (body c)"
  shows "keeps R (\<lambda>c. client_write x io (body c) c)"
proof (rule keepsI)
  fix c r c'
  assume run: "client_write x io (body c) c = (r, c')"
  have "R c (snd (client_write x io (body c) c))" by (rule write_kept [OF assms])
  with run show "R c c'" by simp
qed

lemma keeps_apply_current: "keeps R (apply_current_page x io page)"
proof -
  have body: "keeps (on_db Q) (write_page x s page moving)" for s moving
    unfolding write_page_def check_moving_def Let_def
    by (intro keeps_apply_records keeps_subscriptions q_stage keeps_base keeps_rules)
  have "keeps R (\<lambda>c. if moving = [] then (Inr stale_report, c)
      else client_write x io (write_page x (c_schema c) page moving) c)" for moving
    using keepsD [OF keeps_client_write [OF body]] by (auto intro!: keepsI simp: calls.refl split: if_splits)
  then show ?thesis unfolding apply_current_page_def moving_channels_def
    by (intro calls.keeps_bind keeps_view)
qed

lemma keeps_stale_page: "keeps R (stale_subscription_page page)"
  by (rule keepsI) (auto simp: stale_subscription_page_def intro: r_same split: prod.splits)

lemma keeps_page: "keeps R (apply_page x io page)"
  "keeps R (receive_downlink x io page request)"
  unfolding apply_page_def receive_downlink_def Let_def client_subscriptions_def
  by (intro keeps_apply_current keeps_stale_page keeps_view calls.keeps_rules)+

lemma keeps_request: "keeps R (downlink_request x)"
proof -
  have "keeps R (modifyM (\<lambda>c. c\<lparr>c_pulls := issue cs (c_pulls c)\<rparr>))" for cs
    by (rule keepsI) (auto simp: modifyM_def intro: r_same)
  moreover have "keeps R (\<lambda>c. case pull_encode x \<lparr>l_models = client_declared c, l_cursors = cs\<rparr> of
      Inl e \<Rightarrow> (Inl e, c) | Inr body \<Rightarrow> (Inr (Some body), c))" for cs
    by (rule keepsI) (auto intro: calls.refl split: sum.splits)
  ultimately show ?thesis unfolding downlink_request_def client_subscriptions_def
    by (intro keeps_view calls.keeps_rules)
qed

lemma keeps_first_task: "keeps (on_db Q) (first_task x handlers ks)"
  by (induction x handlers ks rule: first_task.induct; unfold first_task.simps)
     (intro keeps_prerequisites keeps_rules; assumption)+

lemma keeps_snd: "keeps R m \<Longrightarrow> R c (snd (m c))"
  unfolding keeps_def by (cases "m c") auto

lemma keeps_drop: "keeps (on_db Q) (bindM (queued_one x n) (\<lambda>found. case found of
    None \<Rightarrow> retM ()
  | Some q \<Rightarrow> if q_push q \<noteq> None then failM e else remove_rejected x s rs))"
  by (intro keeps_remove_rejected keeps_base keeps_rules)

lemma do_related: "R c (client_do x io e c)"
proof (cases e)
  case (CTransaction p)
  show ?thesis unfolding CTransaction client_do.simps transaction_def by (rule write_kept [OF keeps_tx])
next
  case (CSession p)
  show ?thesis unfolding CSession client_do.simps
    by (rule keeps_snd, rule keeps_in_session, rule keeps_tx)
next
  case (CFreeze n)
  show ?thesis unfolding CFreeze client_do.simps client_freeze_def by (rule write_kept [OF keeps_freeze])
next
  case (CAcknowledge n r)
  have "keeps (on_db Q) (acknowledge x (c_schema c) n r')" for r' by (intro keeps_acknowledge q_stage)
  from write_kept [OF this] show ?thesis
    by (auto simp: CAcknowledge client_acknowledge_def calls.refl split: sum.splits)
next
  case (CDrop n)
  show ?thesis unfolding CDrop client_do.simps drop_mutation_def by (rule write_kept [OF keeps_drop])
next
  case (CReadiness k v)
  have "keeps (on_db Q) (case v of Pending \<Rightarrow> reset_prerequisite k | Ready \<Rightarrow> resolve_prerequisite k
      | Failed \<Rightarrow> fail_prerequisite k ''failed'')"
    by (cases v) (simp_all add: keeps_prerequisites)
  then show ?thesis unfolding CReadiness client_do.simps set_readiness_def
    by (cases v) (simp_all add: write_kept)
next
  case (COutcome k err)
  have "keeps (on_db Q) (case err of None \<Rightarrow> resolve_prerequisite k | Some reason \<Rightarrow> fail_prerequisite k reason)"
    by (intro keeps_prerequisites keeps_rules)
  from write_kept [OF this] show ?thesis unfolding COutcome client_do.simps outcome_def .
next
  case (CNextTask hs)
  have "keeps (on_db Q) (bindM prerequisite_keys (first_task x hs))"
    by (intro keeps_first_task keeps_base keeps_rules)
  from write_kept [OF this] show ?thesis unfolding CNextTask client_do.simps next_task_def .
next
  case (CDismiss n)
  show ?thesis unfolding CDismiss client_do.simps dismiss_rejection_def
    by (rule write_kept) (rule keeps_prerequisites)
next
  case (CWatch ts)
  show ?thesis unfolding CWatch client_do.simps by (rule r_same) (simp_all add: watch_def)
qed (simp only: client_do.simps, rule keeps_snd, rule keeps_begin_session keeps_rollback_session
    keeps_savepoints keeps_commit_session keeps_page keeps_request)+

lemma run_related: "R c (client_run x calls c)"
proof (induction calls arbitrary: c)
  case Nil
  show ?case by (simp add: client_run_def calls.refl)
next
  case (Cons e calls)
  obtain io call where e: "e = (io, call)" by fastforce
  from calls.trans [OF do_related Cons.IH] show ?case by (simp add: client_run_def e)
qed

end

section \<open>Relations between committed contents\<close>

locale kept_client = kept_engine +
  assumes q_fence: "d_client d = Some r \<Longrightarrow>
      Q d (d\<lparr>d_client := Some (r\<lparr>cl_generation := Suc (cl_generation r)\<rparr>)\<rparr>)"
begin

lemma keeps_fence: "keeps (on_db Q) (fence g)"
  by (auto simp: keeps_def fence_def on_db_def intro: q_fence q_refl split: option.splits if_splits)

text \<open>The open transaction and its savepoints hold what the relation allows after the committed content.\<close>

definition store_ok :: "store \<Rightarrow> bool" where
  "store_ok s \<longleftrightarrow> (case s_open s of None \<Rightarrow> True
     | Some (d, saves) \<Rightarrow> Q (s_file s) d \<and> (\<forall>(_, e) \<in> set saves. Q (s_file s) e))"

definition on_committed :: "client \<Rightarrow> client \<Rightarrow> bool" where
  "on_committed c c' \<longleftrightarrow>
     (store_ok (c_store c) \<longrightarrow> store_ok (c_store c') \<and> Q (committed c) (committed c'))"

lemma on_committed_refl: "on_committed c c"
  by (simp add: on_committed_def q_refl)

lemma on_committed_same: "c_store c' = c_store c \<Longrightarrow> on_committed c c'"
  by (simp add: on_committed_def committed_def q_refl)

lemma open_work_ok: "store_ok s \<Longrightarrow> on_db Q (open_work changed s) w \<Longrightarrow>
    store_ok (close_work w s) \<and> s_file (close_work w s) = s_file s"
  by (auto simp: store_ok_def open_work_def close_work_def on_db_def split: option.splits intro: q_trans)

lemma begin_ok: "store_begin x io s = (r, s') \<Longrightarrow> store_ok s \<Longrightarrow> store_ok s' \<and> s_file s' = s_file s"
  by (auto simp: store_begin_def store_ok_def q_refl split: option.splits)

lemma rollback_ok: "store_rollback x io s = (r, s') \<Longrightarrow> store_ok s \<Longrightarrow> store_ok s' \<and> s_file s' = s_file s"
  by (auto simp: store_rollback_def store_ok_def split: option.splits)

lemma commit_ok: "store_commit x io s = (r, s') \<Longrightarrow> store_ok s \<Longrightarrow> store_ok s' \<and> Q (s_file s) (s_file s')"
  by (auto simp: store_commit_def store_ok_def q_refl split: option.splits)

lemma on_committedI: "(store_ok (c_store c) \<Longrightarrow> store_ok (c_store c') \<and> Q (committed c) (committed c')) \<Longrightarrow>
    on_committed c c'"
  by (simp add: on_committed_def)

lemma keeps_finish: "keeps on_committed (finish x io changed v)"
proof (rule keepsI, rule on_committedI)
  fix c r c'
  assume run: "finish x io changed v c = (r, c')" and ok: "store_ok (c_store c)"
  obtain q s where s: "store_commit x io (c_store c) = (q, s)" by fastforce
  from commit_ok [OF s ok] have s2: "store_ok s" "Q (committed c) (s_file s)" by (simp_all add: committed_def)
  show "store_ok (c_store c') \<and> Q (committed c) (committed c')"
  proof (cases q)
    case (Inl e)
    obtain r2 s' where s': "store_rollback x io s = (r2, s')" by fastforce
    from rollback_ok [OF s' s2(1)] s2 run s s' Inl show ?thesis
      by (auto simp: finish_def committed_def)
  next
    case (Inr u)
    with run s s2 show ?thesis by (auto simp: finish_def committed_def notify_def split: prod.splits)
  qed
qed

lemma keeps_abandon: "keeps on_committed (abandon x io e)"
proof (rule keepsI, rule on_committedI)
  fix c r c'
  assume run: "abandon x io e c = (r, c')" and ok: "store_ok (c_store c)"
  obtain q s where s: "store_rollback x io (c_store c) = (q, s)" by fastforce
  from rollback_ok [OF s ok] run s show "store_ok (c_store c') \<and> Q (committed c) (committed c')"
    by (cases q) (auto simp: abandon_def committed_def q_refl)
qed

text \<open>A computation run in the open transaction, then handed to a continuation.\<close>

lemma then_kept:
  assumes "store_ok (c_store c)" "on_db Q (open_work changed (c_store c)) w" "keeps on_committed f"
  shows "on_committed c (snd (f (c\<lparr>c_store := close_work w (c_store c)\<rparr>)))"
proof (rule on_committedI)
  let ?c = "c\<lparr>c_store := close_work w (c_store c)\<rparr>"
  from open_work_ok [OF assms(1,2)] have "store_ok (c_store ?c)" "committed ?c = committed c"
    by (simp_all add: committed_def)
  with keepsD [OF assms(3), of ?c] show "store_ok (c_store (snd (f ?c))) \<and> Q (committed c) (committed (snd (f ?c)))"
    by (metis on_committed_def prod.collapse)
qed

lemma keeps_fenced: "keeps (on_db Q) body \<Longrightarrow> keeps (on_db Q) (fenced g body)"
  unfolding fenced_def by (intro keeps_fence keeps_rules)

lemma write_kept:
  assumes body: "keeps (on_db Q) body"
  shows "on_committed c (snd (client_write x io body c))"
proof (cases "store_ok (c_store c) \<and> c_session c = None")
  case False
  then show ?thesis by (auto simp: on_committed_def client_write_def q_refl)
next
  case ok: True
  obtain q s where s: "store_begin x io (c_store c) = (q, s)" by fastforce
  from begin_ok [OF s] ok have s2: "store_ok s" "s_file s = committed c" by (simp_all add: committed_def)
  obtain r w where w: "fenced (c_generation c) body (open_work [] s) = (r, w)" by fastforce
  from keepsD [OF keeps_fenced [OF body] w] have on: "on_db Q (open_work [] s) w" .
  let ?c = "c\<lparr>c_store := s\<rparr>"
  have to: "on_committed c c'" if "on_committed ?c c'" for c'
    using that s2 by (simp add: on_committed_def committed_def)
  have k: "on_committed ?c (snd (f (?c\<lparr>c_store := close_work w s\<rparr>)))" if "keeps on_committed f" for f :: "'a call"
    using then_kept [of ?c "[]" w f] that s2 on by simp
  show ?thesis
  proof (cases q)
    case (Inl e)
    with ok s s2 show ?thesis by (auto simp: client_write_def on_committed_def committed_def q_refl)
  next
    case (Inr u)
    with ok s w to [OF k [OF keeps_finish]] to [OF k [OF keeps_abandon]] show ?thesis
      by (cases r) (simp_all add: client_write_def)
  qed
qed

lemma keeps_write: "keeps (on_db Q) body \<Longrightarrow> keeps on_committed (client_write x io body)"
  using write_kept by (metis keepsI snd_conv)

lemma keeps_begin_session: "keeps on_committed (begin_session x io)"
proof (rule keepsI, rule on_committedI)
  fix c r c'
  assume run: "begin_session x io c = (r, c')" and ok: "store_ok (c_store c)"
  obtain q s where s: "store_begin x io (c_store c) = (q, s)" by fastforce
  from begin_ok [OF s ok] run s ok show "store_ok (c_store c') \<and> Q (committed c) (committed c')"
    by (cases q) (auto simp: begin_session_def committed_def q_refl split: if_splits)
qed

lemma keeps_rollback_session: "keeps on_committed (rollback_session x io)"
proof (rule keepsI, rule on_committedI)
  fix c r c'
  assume run: "rollback_session x io c = (r, c')" and ok: "store_ok (c_store c)"
  obtain q s where s: "store_rollback x io (c_store c) = (q, s)" by fastforce
  from rollback_ok [OF s ok] run s ok show "store_ok (c_store c') \<and> Q (committed c) (committed c')"
    by (auto simp: rollback_session_def committed_def q_refl split: option.splits)
qed

lemma keeps_in_session:
  assumes "keeps (on_db Q) (body 0)"
  shows "keeps on_committed (in_session body)"
proof (rule keepsI, rule on_committedI)
  fix c r c'
  assume run: "in_session body c = (r, c')" and ok: "store_ok (c_store c)"
  show "store_ok (c_store c') \<and> Q (committed c) (committed c')"
  proof (cases "c_session c")
    case None
    with run ok show ?thesis by (simp add: in_session_def q_refl)
  next
    case (Some ss)
    obtain q w where w: "body 0 (open_work (ss_changed ss) (c_store c)) = (q, w)" by fastforce
    from open_work_ok [OF ok keepsD [OF assms w]] run Some w show ?thesis
      by (auto simp: in_session_def committed_def q_refl)
  qed
qed

lemma keeps_commit_session: "keeps on_committed (commit_session x io)"
proof (rule keepsI)
  fix c r c'
  assume run: "commit_session x io c = (r, c')"
  show "on_committed c c'"
  proof (cases "c_session c")
    case None
    with run show ?thesis by (simp add: commit_session_def on_committed_same)
  next
    case (Some ss)
    let ?c = "c\<lparr>c_session := None\<rparr>"
    have to: "on_committed c d" if "on_committed ?c d" for d
      using that by (simp add: on_committed_def committed_def)
    obtain q w where w: "fence (c_generation c) (open_work (ss_changed ss) (c_store c)) = (q, w)" by fastforce
    note on = keepsD [OF keeps_fence w]
    have k: "on_committed ?c (snd (f (?c\<lparr>c_store := close_work w (c_store c)\<rparr>)))"
      if "keeps on_committed f" "store_ok (c_store c)" for f :: "unit call"
      using then_kept [of ?c "ss_changed ss" w f] that on by simp
    show ?thesis
    proof (cases "store_ok (c_store c)")
      case False
      then show ?thesis by (simp add: on_committed_def)
    next
      case True
      show ?thesis
      proof (cases "ss_savepoints ss = []")
        case False
        with run Some have "abandon x io (invalid ''unclosed savepoint'') ?c = (r, c')"
          by (simp add: commit_session_def Let_def)
        from to [OF keepsD [OF keeps_abandon this]] show ?thesis .
      next
        case empty: True
        with run Some w to [OF k [OF keeps_finish True]] to [OF k [OF keeps_abandon True]] show ?thesis
          by (cases q) (simp_all add: commit_session_def Let_def, (metis snd_conv)+)
      qed
    qed
  qed
qed

lemma statement_kept:
  assumes "\<And>w r w' f. m w = (r, w') \<Longrightarrow> Q f (w_db w) \<Longrightarrow> \<forall>(_, e) \<in> set (w_saves w). Q f e \<Longrightarrow>
      Q f (w_db w') \<and> (\<forall>(_, e) \<in> set (w_saves w'). Q f e)"
  shows "on_committed c (snd (session_statement m ss c))"
proof (rule on_committedI)
  assume ok: "store_ok (c_store c)"
  let ?w = "open_work (ss_changed ss) (c_store c)"
  obtain r w where w: "m ?w = (r, w)" by fastforce
  have "Q (committed c) (w_db ?w)" "\<forall>(_, e) \<in> set (w_saves ?w). Q (committed c) e"
    using ok by (auto simp: open_work_def store_ok_def committed_def q_refl split: option.splits)
  from assms [OF w this] w
  show "store_ok (c_store (snd (session_statement m ss c))) \<and> Q (committed c) (committed (snd (session_statement m ss c)))"
    by (auto simp: session_statement_def close_work_def store_ok_def committed_def q_refl)
qed

lemma keeps_savepoints:
  "keeps on_committed session_savepoint" "keeps on_committed (session_release x)"
  "keeps on_committed (session_rollback_savepoint x)"
proof -
  have s: "on_committed c (snd (session_statement (savepoint n) ss c))" for c n ss
    by (rule statement_kept) (auto simp: savepoint_def)
  have r: "on_committed c (snd (session_statement (release x n) ss c))" for c n ss
    by (rule statement_kept) (fastforce simp: release_def dest: saves_from_mem split: option.splits)
  have b: "on_committed c (snd (session_statement (rollback_to x n) ss c))" for c n ss
    by (rule statement_kept) (fastforce simp: rollback_to_def dest: saves_from_mem split: option.splits)
  have "on_committed c (snd (session_savepoint c))" "on_committed c (snd (session_release x c))"
    "on_committed c (snd (session_rollback_savepoint x c))" for c
    using s r b by (auto simp: session_savepoint_def session_release_def session_rollback_savepoint_def
      session_pop_def Let_def on_committed_refl split: option.splits)
  then show "keeps on_committed session_savepoint" "keeps on_committed (session_release x)"
    "keeps on_committed (session_rollback_savepoint x)"
    by (metis keepsI snd_conv)+
qed

sublocale committed: kept_calls Q on_committed
proof unfold_locales
  show "on_committed c e" if "on_committed c d" "on_committed d e" for c d e
    using that q_trans by (auto simp: on_committed_def)
qed (rule on_committed_refl on_committed_same write_kept keeps_begin_session keeps_rollback_session
    keeps_in_session keeps_commit_session keeps_savepoints; assumption)+

lemma committed_kept:
  "s_open (c_store c) = None \<Longrightarrow> Q (committed c) (committed (client_run x calls c))"
  using committed.run_related [of c x calls] by (simp add: on_committed_def store_ok_def)

end

section \<open>What the client keeps\<close>

text \<open>The committed generation: what fences a writer that has fallen behind.\<close>

definition generation_of :: "db \<Rightarrow> nat option" where
  "generation_of d = map_option cl_generation (d_client d)"

definition same_generation :: "db \<Rightarrow> db \<Rightarrow> bool" where
  "same_generation d d' \<longleftrightarrow> generation_of d' = generation_of d"

definition generation_le :: "db \<Rightarrow> db \<Rightarrow> bool" where
  "generation_le d d' \<longleftrightarrow> rel_option (\<le>) (generation_of d) (generation_of d')"

lemma generation_of_frame [simp]:
  "generation_of (d\<lparr>d_tables := t\<rparr>) = generation_of d" "generation_of (d\<lparr>d_operations := os\<rparr>) = generation_of d"
  "generation_of (d\<lparr>d_mutations := ms\<rparr>) = generation_of d" "generation_of (d\<lparr>d_deps := ds\<rparr>) = generation_of d"
  "generation_of (d\<lparr>d_prereqs := ps\<rparr>) = generation_of d" "generation_of (d\<lparr>d_rejections := rs\<rparr>) = generation_of d"
  "generation_of (d\<lparr>d_stamps := st\<rparr>) = generation_of d" "generation_of (d\<lparr>d_subs := ss\<rparr>) = generation_of d"
  by (simp_all add: generation_of_def)

lemma generation_of_counters [simp]:
  "counters_only f \<Longrightarrow> generation_of (d\<lparr>d_client := map_option f (d_client d)\<rparr>) = generation_of d"
  by (cases "d_client d") (simp_all add: generation_of_def counters_only_def)

lemma option_le_trans: "rel_option (\<le>) a b \<Longrightarrow> rel_option (\<le>) b c \<Longrightarrow> rel_option (\<le>) a (c :: nat option)"
  by (cases a; cases b; cases c) auto

lemma option_le_refl: "rel_option (\<le>) a (a :: nat option)"
  by (cases a) auto

interpretation same_generation: kept_push same_generation
  by unfold_locales (auto simp: same_generation_def statement_defs split: if_splits)

interpretation same_generation: kept_engine same_generation
  by unfold_locales (auto simp: same_generation_def intro!: same_generation.keeps_stage_authority)

interpretation generation_le: kept_push generation_le
  by unfold_locales (auto simp: generation_le_def statement_defs option_le_refl intro: option_le_trans split: if_splits)

interpretation generation_le: kept_engine generation_le
  by unfold_locales (auto simp: generation_le_def option_le_refl intro!: generation_le.keeps_stage_authority)

interpretation generation_le: kept_client generation_le
  by unfold_locales (simp add: generation_le_def generation_of_def)

interpretation stamps_le: kept_client stamps_le
  by unfold_locales (simp add: stamps_le_def)

interpretation keeps_queue_ok: kept_client "preserves queue_ok"
  by unfold_locales (simp add: preserves_def)

interpretation keeps_tables_ok: kept_client "preserves tables_ok"
  by unfold_locales (simp add: preserves_def tables_ok_def)

text \<open>
  C15: what every call keeps. A client that starts without an open transaction goes through any
  sequence of calls, and beginning, committing or rolling back fail or succeed in any way; then
  in the content every other connection sees no record's stamp has gone back, the generation has
  not, and the queue and the tables are intact if they were.
\<close>

theorem committed_content_kept:
  assumes "s_open (c_store c) = None" and "queue_ok (committed c)" and "tables_ok (committed c)"
  shows "stamp_at (committed c) mk \<le> stamp_at (committed (client_run x calls c)) mk \<and>
    rel_option (\<le>) (generation_of (committed c)) (generation_of (committed (client_run x calls c))) \<and>
    queue_ok (committed (client_run x calls c)) \<and> tables_ok (committed (client_run x calls c))"
  using assms stamps_le.committed_kept [of c x calls] generation_le.committed_kept [of c x calls]
    keeps_queue_ok.committed_kept [of c x calls] keeps_tables_ok.committed_kept [of c x calls]
  by (auto simp: stamps_le_def generation_le_def preserves_def dest: le_funD)

end
