(* ===== verification/Fencing.thy ===== *)
theory Fencing
  imports Calls
begin

text \<open>
  One write of the client: all of it or nothing, at most one writer. A handle whose generation is
  not the file's has fallen behind another writer and never writes again.
\<close>

section \<open>All or nothing\<close>

text \<open>The work a write starts from: the committed content.\<close>

definition fresh_work :: "db \<Rightarrow> work" where
  "fresh_work d = \<lparr>w_db = d, w_saves = [], w_changed = []\<rparr>"

text \<open>A client that is between calls: no transaction, neither its own nor of a host.\<close>

definition idle :: "client \<Rightarrow> bool" where
  "idle c \<longleftrightarrow> c_session c = None \<and> s_open (c_store c) = None"

text \<open>A write as one step on the committed content.\<close>

definition bump_generation :: "db \<Rightarrow> db" where
  "bump_generation d = d\<lparr>d_client := map_option (\<lambda>r. r\<lparr>cl_generation := cl_generation r + 1\<rparr>) (d_client d)\<rparr>"

definition atomic_write :: "io \<Rightarrow> 'a eng \<Rightarrow> 'a call" where
  "atomic_write io body c = (case io_begin io of Some e \<Rightarrow> (Inl e, c) | None \<Rightarrow>
     (case body (fresh_work (committed c)) of
        (Inl e, _) \<Rightarrow> (Inl e, c)
      | (Inr v, w) \<Rightarrow>
          if generation_of (w_db w) \<noteq> Some (c_generation c)
          then (Inl (invalid ''stale client writer; reopen runtime''), c)
          else (case io_commit io of
             Some e \<Rightarrow> (Inl e, c)
           | None \<Rightarrow> (Inr v, notify (bs_ins ''ahead_client'' (w_changed w))
               (c\<lparr>c_store := \<lparr>s_file = bump_generation (w_db w), s_open = None\<rparr>,
                  c_generation := c_generation c + 1\<rparr>)))))"

lemma fence_run:
  "fence g w = (if generation_of (w_db w) = Some g then (Inr (), w\<lparr>w_db := bump_generation (w_db w)\<rparr>)
     else (Inl (invalid ''stale client writer; reopen runtime''), w))"
  by (auto simp: fence_def generation_of_def bump_generation_def split: option.splits)

lemma idle_store: "idle c \<Longrightarrow> c_store c = \<lparr>s_file = committed c, s_open = None\<rparr>"
  by (cases "c_store c") (simp add: idle_def committed_def)

lemma write_atomic:
  assumes "idle c" and "io_rollback io = None"
  shows "client_write x io body c = atomic_write io body c"
proof -
  have same: "c\<lparr>c_store := \<lparr>s_file = committed c, s_open = None\<rparr>\<rparr> = c"
    using idle_store [OF assms(1)] by simp
  show ?thesis
  proof (cases "io_begin io")
    case (Some e)
    with assms same idle_store [OF assms(1)] show ?thesis
      by (auto simp: client_write_def atomic_write_def idle_def store_begin_def)
  next
    case None
    let ?s = "\<lparr>s_file = committed c, s_open = Some (committed c, [])\<rparr>"
    have b: "store_begin x io (c_store c) = (Inr (), ?s)" "open_work [] ?s = fresh_work (committed c)"
      using None idle_store [OF assms(1)] by (simp_all add: store_begin_def open_work_def fresh_work_def)
    obtain r w where w: "body (fresh_work (committed c)) = (r, w)" by fastforce
    show ?thesis
    proof (cases r)
      case (Inl e)
      with assms b w None same show ?thesis
        by (simp add: client_write_def idle_def fenced_def atomic_write_def abandon_def store_rollback_def close_work_def)
    next
      case (Inr v)
      with assms b w None same show ?thesis
        by (cases "io_commit io") (simp_all add: client_write_def idle_def fenced_def bindM_def retM_def fence_run atomic_write_def
          abandon_def store_rollback_def close_work_def finish_def store_commit_def)
    qed
  qed
qed

text \<open>
  When a failing write is rolled back and the rollback fails too, the transaction stays open; the
  error is then the rollback's, except after a failed commit, whose own error is kept.
\<close>

definition left_open :: "io \<Rightarrow> client \<Rightarrow> client \<Rightarrow> bool" where
  "left_open io c c' \<longleftrightarrow> c'\<lparr>c_store := c_store c\<rparr> = c \<and> committed c' = committed c \<and>
     (io_rollback io = None \<longrightarrow> c' = c)"

lemma write_steps:
  assumes "idle c" and "client_write x io body c = (r, c')"
  shows "case atomic_write io body c of
      (Inr v, c0) \<Rightarrow> r = Inr v \<and> c' = c0
    | (Inl e, c0) \<Rightarrow> c0 = c \<and> left_open io c c' \<and> r \<in> {Inl e} \<union> (case io_rollback io of None \<Rightarrow> {} | Some e' \<Rightarrow> {Inl e'})"
proof (cases "io_rollback io")
  case None
  with assms have "atomic_write io body c = (r, c')" by (simp add: write_atomic)
  with None show ?thesis
    by (auto simp: atomic_write_def left_open_def split: option.splits sum.splits prod.splits if_splits)
next
  case (Some e')
  note rb = this
  have same: "c\<lparr>c_store := \<lparr>s_file = committed c, s_open = None\<rparr>\<rparr> = c"
    using idle_store [OF assms(1)] by simp
  have opened: "left_open io c (c\<lparr>c_store := \<lparr>s_file = committed c, s_open = Some t\<rparr>\<rparr>)" for t
    using rb by (cases c) (simp add: left_open_def committed_def)
  have closed: "left_open io c c" by (simp add: left_open_def)
  show ?thesis
  proof (cases "io_begin io")
    case (Some e)
    with assms same idle_store [OF assms(1)] closed show ?thesis
      by (auto simp: client_write_def atomic_write_def idle_def store_begin_def)
  next
    case None
    let ?s = "\<lparr>s_file = committed c, s_open = Some (committed c, [])\<rparr>"
    have b: "store_begin x io (c_store c) = (Inr (), ?s)" "open_work [] ?s = fresh_work (committed c)"
      using None idle_store [OF assms(1)] by (simp_all add: store_begin_def open_work_def fresh_work_def)
    obtain q w where w: "body (fresh_work (committed c)) = (q, w)" by fastforce
    show ?thesis
    proof (cases q)
      case (Inl e)
      with assms b w None rb opened show ?thesis
        by (auto simp: client_write_def idle_def fenced_def atomic_write_def abandon_def store_rollback_def close_work_def)
    next
      case (Inr v)
      with assms b w None rb opened show ?thesis
        by (cases "io_commit io") (auto simp: client_write_def idle_def fenced_def bindM_def retM_def fence_run atomic_write_def
          abandon_def store_rollback_def close_work_def finish_def store_commit_def)
    qed
  qed
qed

text \<open>
  C16: a write is atomic. Between calls, a write of the client is one step: if beginning it, the
  body, the fence (the generation is not the file's) or the commit fails, it reports an error and
  the client and the committed content are the ones before; otherwise the committed content is
  the body's with its generation advanced, and only then are watchers woken and subscription
  marks taken. If undoing a failed write fails as well, only the open transaction is different,
  never the committed content, and the error may be the one of the rollback.
\<close>

theorem write_is_atomic:
  assumes "idle c" and "client_write x io body c = (r, c')"
  shows "case atomic_write io body c of
      (Inr v, c0) \<Rightarrow> r = Inr v \<and> c' = c0
    | (Inl e, c0) \<Rightarrow> c0 = c \<and> left_open io c c' \<and> r \<in> {Inl e} \<union> (case io_rollback io of None \<Rightarrow> {} | Some e' \<Rightarrow> {Inl e'})"
  using assms by (rule write_steps)

section \<open>One writer\<close>

text \<open>A handle that has fallen behind: the file's generation is not the one it would advance.\<close>

definition lagging :: "client \<Rightarrow> bool" where
  "lagging c \<longleftrightarrow> generation_of (committed c) \<noteq> Some (c_generation c) \<and>
     (case s_open (c_store c) of None \<Rightarrow> True
      | Some (d, saves) \<Rightarrow> same_generation (committed c) d \<and> (\<forall>(_, e) \<in> set saves. same_generation (committed c) e))"

definition on_lagging :: "client \<Rightarrow> client \<Rightarrow> bool" where
  "on_lagging c c' \<longleftrightarrow>
     (lagging c \<longrightarrow> lagging c' \<and> committed c' = committed c \<and> c_generation c' = c_generation c)"

lemma committed_simps [simp]: "committed (c\<lparr>c_session := ss\<rparr>) = committed c"
  "committed (c\<lparr>c_store := close_work w (c_store c)\<rparr>) = committed c"
  by (simp_all add: committed_def close_work_def)

definition contents :: "work \<Rightarrow> db set" where
  "contents w = insert (w_db w) (snd ` set (w_saves w))"

lemma lagging_iff: "lagging c \<longleftrightarrow> generation_of (committed c) \<noteq> Some (c_generation c) \<and>
    (\<forall>d \<in> contents (open_work changed (c_store c)). same_generation (committed c) d)"
  by (auto simp: lagging_def open_work_def contents_def committed_def same_generation_def split: option.splits)

lemma lagging_cong: "c_store c' = c_store c \<Longrightarrow> c_generation c' = c_generation c \<Longrightarrow> lagging c' = lagging c"
  unfolding lagging_iff [where changed = "[]"] by (simp add: committed_def)

lemma lagging_session [simp]: "lagging (c\<lparr>c_session := ss\<rparr>) = lagging c"
  by (rule lagging_cong) simp_all

lemma contents_close [simp]: "contents (open_work changed (close_work w s)) = contents w"
  by (simp add: open_work_def close_work_def contents_def)

text \<open>A computation in the open transaction that keeps the generation cannot pass the fence.\<close>

lemma lagging_run:
  assumes "lagging c" and "on_db same_generation (open_work changed (c_store c)) w"
  shows "lagging (c\<lparr>c_store := close_work w (c_store c)\<rparr>)" and "generation_of (w_db w) \<noteq> Some (c_generation c)"
  using assms
  by (auto simp: lagging_def open_work_def close_work_def on_db_def committed_def same_generation_def split: option.splits)

lemma abandon_lagging: "lagging c \<Longrightarrow> abandon x io e c = (r, c') \<Longrightarrow>
    lagging c' \<and> committed c' = committed c \<and> c_generation c' = c_generation c"
  by (auto simp: lagging_def abandon_def store_rollback_def committed_def split: option.splits prod.splits sum.splits)


lemma lagging_begin: "lagging c \<Longrightarrow> store_begin x io (c_store c) = (r, s) \<Longrightarrow>
    lagging (c\<lparr>c_store := s\<rparr>) \<and> s_file s = committed c"
  by (auto simp: lagging_def store_begin_def committed_def same_generation_def split: option.splits)

lemma lagging_write:
  assumes body: "keeps (on_db same_generation) body" and lag: "lagging c" and run: "client_write x io body c = (r, c')"
  shows "lagging c' \<and> committed c' = committed c \<and> c_generation c' = c_generation c \<and> (\<exists>e. r = Inl e)"
proof (cases "c_session c = None")
  case False
  with lag run show ?thesis by (auto simp: client_write_def)
next
  case True
  obtain q s where s: "store_begin x io (c_store c) = (q, s)" by fastforce
  note b = lagging_begin [OF lag s]
  show ?thesis
  proof (cases q)
    case (Inl e)
    with run s b True show ?thesis by (auto simp: client_write_def committed_def)
  next
    case (Inr u)
    let ?c = "c\<lparr>c_store := s\<rparr>"
    obtain q1 w1 where w1: "body (open_work [] s) = (q1, w1)" by fastforce
    from keepsD [OF body w1] have on: "on_db same_generation (open_work [] (c_store ?c)) w1" by simp
    note l = lagging_run [OF conjunct1 [OF b] on]
    from l(2) have "fenced (c_generation c) body (open_work [] s) =
        (case q1 of Inl e \<Rightarrow> (Inl e, w1) | Inr v \<Rightarrow> (Inl (invalid ''stale client writer; reopen runtime''), w1))"
      by (cases q1) (simp_all add: fenced_def bindM_def w1 fence_run)
    with run True s Inr obtain e where a: "abandon x io e (?c\<lparr>c_store := close_work w1 s\<rparr>) = (r, c')"
      by (cases q1) (auto simp: client_write_def)
    from l(1) have "lagging (?c\<lparr>c_store := close_work w1 s\<rparr>)" by simp
    from abandon_lagging [OF this a] a b show ?thesis
      by (auto simp: committed_def close_work_def abandon_def split: prod.splits sum.splits)
  qed
qed

lemma lagging_statement:
  assumes "\<And>w r w'. m w = (r, w') \<Longrightarrow> contents w' \<subseteq> contents w"
  shows "on_lagging c (snd (session_statement m ss c))"
proof -
  let ?w = "open_work (ss_changed ss) (c_store c)"
  obtain r w where w: "m ?w = (r, w)" by fastforce
  from assms [OF w] w show ?thesis
    by (auto simp: on_lagging_def session_statement_def lagging_iff [where changed = "ss_changed ss"])
qed

lemma lagging_savepoints: "keeps on_lagging session_savepoint" "keeps on_lagging (session_release x)"
  "keeps on_lagging (session_rollback_savepoint x)"
proof -
  have s: "on_lagging c (snd (session_statement (savepoint n) ss c))" for c n ss
    by (rule lagging_statement) (auto simp: savepoint_def contents_def)
  have r: "on_lagging c (snd (session_statement (release x n) ss c))" for c n ss
    by (rule lagging_statement) (fastforce simp: release_def contents_def dest: saves_from_mem split: option.splits)
  have b: "on_lagging c (snd (session_statement (rollback_to x n) ss c))" for c n ss
    by (rule lagging_statement) (force simp: rollback_to_def contents_def dest: saves_from_mem split: option.splits)
  have same: "on_lagging c c" for c by (simp add: on_lagging_def)
  have "on_lagging c (snd (session_savepoint c))" "on_lagging c (snd (session_release x c))"
    "on_lagging c (snd (session_rollback_savepoint x c))" for c
    using s r b same by (auto simp: session_savepoint_def session_release_def session_rollback_savepoint_def
      session_pop_def Let_def split: option.splits)
  then show "keeps on_lagging session_savepoint" "keeps on_lagging (session_release x)"
    "keeps on_lagging (session_rollback_savepoint x)"
    by (metis keepsI snd_conv)+
qed

lemma lagging_commit:
  assumes lag: "lagging c" and run: "commit_session x io c = (r, c')"
  shows "lagging c' \<and> committed c' = committed c \<and> c_generation c' = c_generation c"
proof (cases "c_session c")
  case None
  with lag run show ?thesis by (simp add: commit_session_def)
next
  case (Some ss)
  let ?c = "c\<lparr>c_session := None\<rparr>" and ?w = "open_work (ss_changed ss) (c_store c)"
  have "on_db same_generation (open_work (ss_changed ss) (c_store c)) ?w" by (simp add: on_db_def same_generation_def)
  note l = lagging_run [OF lag this]
  from l(2) have "fence (c_generation c) ?w = (Inl (invalid ''stale client writer; reopen runtime''), ?w)"
    by (simp add: fence_run)
  with run Some consider e where "abandon x io e ?c = (r, c')"
    | e where "abandon x io e (?c\<lparr>c_store := close_work ?w (c_store c)\<rparr>) = (r, c')"
    by (auto simp: commit_session_def Let_def split: if_splits)
  then show ?thesis
  proof cases
    case 1
    from abandon_lagging [OF _ this] lag show ?thesis by simp
  next
    case 2
    have "lagging ((c\<lparr>c_store := close_work ?w (c_store c)\<rparr>)\<lparr>c_session := None\<rparr>)"
      using l(1) by (simp only: lagging_session)
    then have "lagging (?c\<lparr>c_store := close_work ?w (c_store c)\<rparr>)"
      by (subst lagging_cong [of _ "(c\<lparr>c_store := close_work ?w (c_store c)\<rparr>)\<lparr>c_session := None\<rparr>"]) simp_all
    from abandon_lagging [OF this 2] show ?thesis by (simp add: committed_def close_work_def)
  qed
qed

interpretation lagging: kept_calls same_generation on_lagging
proof unfold_locales
  fix c c' :: client and m :: "unit eng" and x io
  show "on_lagging c c'" if "c_store c' = c_store c" "c_generation c' = c_generation c"
    using that lagging_cong [OF that] by (simp add: on_lagging_def committed_def)
  show "on_lagging c (snd (client_write x io m c))" if "keeps (on_db same_generation) m"
    using lagging_write [OF that _ prod.collapse [symmetric]] by (simp add: on_lagging_def)
next
  fix x io
  show "keeps on_lagging (begin_session x io)"
    by (rule keepsI) (auto simp: on_lagging_def begin_session_def store_begin_def lagging_def committed_def same_generation_def
      split: option.splits if_splits)
  show "keeps on_lagging (rollback_session x io)"
    by (rule keepsI) (auto simp: on_lagging_def rollback_session_def store_rollback_def lagging_def committed_def
      split: option.splits)
  show "keeps on_lagging (commit_session x io)"
    using lagging_commit by (intro keepsI) (simp add: on_lagging_def)
next
  fix body :: "unit tx"
  assume body: "keeps (on_db same_generation) (body 0)"
  show "keeps on_lagging (in_session body)"
  proof (rule keepsI)
    fix c r c'
    assume run: "in_session body c = (r, c')"
    show "on_lagging c c'"
    proof (cases "c_session c")
      case (Some ss)
      obtain q w where w: "body 0 (open_work (ss_changed ss) (c_store c)) = (q, w)" by fastforce
      from lagging_run(1) [OF _ keepsD [OF body w]] run Some w show ?thesis
        by (auto simp: on_lagging_def in_session_def committed_def close_work_def lagging_def)
    qed (use run in \<open>simp add: in_session_def on_lagging_def\<close>)
  qed
qed (rule lagging_savepoints | simp add: on_lagging_def)+

text \<open>
  What happens to a file that several handles use, seen by one of them: its own calls, and what
  the others commit while it holds no transaction open.
\<close>

datatype file_event = Own io client_call | Other db

fun event_do :: "ext \<Rightarrow> file_event \<Rightarrow> client \<Rightarrow> client" where
  "event_do x (Own io e) c = client_do x io e c"
| "event_do x (Other d) c = c\<lparr>c_store := (c_store c)\<lparr>s_file := d\<rparr>\<rparr>"

fun events_possible :: "ext \<Rightarrow> file_event list \<Rightarrow> client \<Rightarrow> bool" where
  "events_possible x [] c = True"
| "events_possible x (Own io e # es) c = events_possible x es (client_do x io e c)"
| "events_possible x (Other d # es) c \<longleftrightarrow> s_open (c_store c) = None \<and> generation_le (committed c) d \<and>
     events_possible x es (event_do x (Other d) c)"

definition fallen_behind :: "client \<Rightarrow> bool" where
  "fallen_behind c \<longleftrightarrow> (\<exists>g. generation_of (committed c) = Some g \<and> c_generation c < g)"

lemma behind_event:
  assumes "lagging c" and "fallen_behind c" and "events_possible x (ev # es) c"
  shows "lagging (event_do x ev c)" and "fallen_behind (event_do x ev c)"
    and "\<And>io e. ev = Own io e \<Longrightarrow> committed (event_do x ev c) = committed c"
proof -
  have own: "lagging (client_do x io e c) \<and> committed (client_do x io e c) = committed c \<and>
      c_generation (client_do x io e c) = c_generation c" for io e
    using lagging.do_related [of c x io e] assms(1) by (simp add: on_lagging_def)
  show "lagging (event_do x ev c)" "fallen_behind (event_do x ev c)"
    using own assms
    by (cases ev; fastforce simp: fallen_behind_def lagging_def committed_def generation_le_def option_rel_Some1)+
  show "committed (event_do x ev c) = committed c" if "ev = Own io e" for io e
    using own that by simp
qed

text \<open>
  C17: a writer that has fallen behind never writes again. Once another handle has committed a
  later generation, no call of this handle changes the committed content, however many calls it
  makes, whatever others commit meanwhile, and whether they are single writes, transactions held
  open, pages or receipts.
\<close>

theorem stale_writer_never_writes:
  assumes "s_open (c_store c) = None" and "fallen_behind c"
    and "events_possible x (evs @ [Own io e]) c"
  shows "committed (fold (event_do x) (evs @ [Own io e]) c) = committed (fold (event_do x) evs c)"
proof -
  have "lagging c" using assms(1,2) by (auto simp: lagging_def fallen_behind_def)
  then show ?thesis using assms(2,3)
  proof (induction evs arbitrary: c)
    case Nil
    from behind_event(3) [OF Nil(1,2), of x "Own io e" "[]" io e] Nil(3) show ?case by simp
  next
    case (Cons ev evs)
    have "events_possible x (evs @ [Own io e]) (event_do x ev c)" using Cons.prems(3) by (cases ev) simp_all
    from Cons.IH [OF behind_event(1,2) [OF Cons.prems(1,2) Cons.prems(3) [unfolded append_Cons]] this]
    show ?case by simp
  qed
qed

section \<open>A transaction held open is one transaction\<close>

text \<open>The same programs in one transaction, each error caught as the host of a session would.\<close>

definition one_by_one :: "unit tx list \<Rightarrow> unit tx" where
  "one_by_one bodies depth = forM (\<lambda>b. dropM (tryM (b depth))) bodies"

lemma one_by_one_Cons: "one_by_one (b # bodies) 0 w = one_by_one bodies 0 (snd (b 0 w))"
  by (simp add: one_by_one_def dropM_def tryM_def bindM_def retM_def split: prod.splits)

lemma one_by_one_ok: "\<exists>w'. one_by_one bodies 0 w = (Inr (), w')"
  by (induction bodies arbitrary: w) (auto simp: one_by_one_Cons, simp add: one_by_one_def retM_def)

lemma open_close: "open_work (w_changed w) (close_work w s) = w"
  by (simp add: open_work_def close_work_def)

lemma close_close: "close_work b (close_work w s) = close_work b s"
  by (simp add: close_work_def)

lemma session_bodies:
  "c_session c = Some ss \<Longrightarrow> s_open (c_store c) \<noteq> None \<Longrightarrow>
   one_by_one bodies 0 (open_work (ss_changed ss) (c_store c)) = (Inr (), w) \<Longrightarrow>
   fold (\<lambda>b c. snd (in_session b c)) bodies c =
     c\<lparr>c_store := close_work w (c_store c), c_session := Some (ss\<lparr>ss_changed := w_changed w\<rparr>)\<rparr>"
proof (induction bodies arbitrary: c ss)
  case Nil
  then show ?case by (cases c) (auto simp: one_by_one_def retM_def open_work_def close_work_def)
next
  case (Cons b bodies)
  obtain r w1 where b: "b 0 (open_work (ss_changed ss) (c_store c)) = (r, w1)" by fastforce
  let ?ss = "ss\<lparr>ss_changed := w_changed w1\<rparr>"
  let ?c = "c\<lparr>c_store := close_work w1 (c_store c), c_session := Some ?ss\<rparr>"
  have "one_by_one bodies 0 (open_work (ss_changed ?ss) (c_store ?c)) = (Inr (), w)"
    using Cons.prems(3) b by (simp add: one_by_one_Cons open_close)
  from Cons.IH [OF _ _ this] Cons.prems(1) b
  show ?case by (simp add: in_session_def close_work_def)
qed

text \<open>
  C18: a transaction the host holds open is one transaction. Beginning a session, running any
  programs in it and committing comes to the same result and the same client as one transaction
  that runs them one after the other, whatever committing and rolling back come to.
\<close>

theorem session_is_transaction:
  assumes "idle c" and "io_begin io = None"
  shows "commit_session x io (fold (\<lambda>b c. snd (in_session b c)) bodies (snd (begin_session x io c)))
       = transaction x io (one_by_one bodies) c"
proof -
  let ?s = "(c_store c)\<lparr>s_open := Some (s_file (c_store c), [])\<rparr>"
  let ?ss = "\<lparr>ss_changed = [], ss_savepoints = [], ss_counter = 0\<rparr>"
  let ?c = "c\<lparr>c_store := ?s, c_session := Some ?ss\<rparr>"
  have b: "store_begin x io (c_store c) = (Inr (), ?s)" "begin_session x io c = (Inr (), ?c)"
    using assms by (simp_all add: begin_session_def store_begin_def idle_def)
  obtain w where w: "one_by_one bodies 0 (open_work [] ?s) = (Inr (), w)"
    using one_by_one_ok by blast
  then have f: "fold (\<lambda>b c. snd (in_session b c)) bodies ?c =
      ?c\<lparr>c_store := close_work w (c_store ?c), c_session := Some (?ss\<lparr>ss_changed := w_changed w\<rparr>)\<rparr>"
    by (intro session_bodies) simp_all
  have none: "c_session c = None" using assms(1) by (simp add: idle_def)
  then have c: "c\<lparr>c_store := s, c_session := None\<rparr> = c\<lparr>c_store := s\<rparr>" for s by (cases c) simp
  show ?thesis
    using b w f none
    by (cases "fence (c_generation c) w")
       (auto simp: commit_session_def transaction_def client_write_def fenced_def bindM_def retM_def
         open_close close_close Let_def c split: sum.splits)
qed

end
