(* ===== verification/Paging.thy ===== *)
theory Paging
  imports Fencing
begin

text \<open>
  Pages against cursors: what a page does to the subscriptions, and what the HTTP cycle does with
  an answer it cannot use.
\<close>

section \<open>The cursors a page moves\<close>

definition same_subs :: "db \<Rightarrow> db \<Rightarrow> bool" where
  "same_subs d d' \<longleftrightarrow> d_subs d' = d_subs d"

interpretation same_subs: kept_push same_subs
  by unfold_locales (auto simp: same_subs_def statement_defs split: if_splits)

lemma records_same_subs: "keeps (on_db same_subs) (apply_records x s rs)"
  by (rule same_subs.keeps_apply_records, rule same_subs.keeps_stage_authority) (simp add: same_subs_def)

text \<open>Where a channel of a page moves to, seen from one cursor.\<close>

definition moves :: "nat option \<Rightarrow> cursor_range option \<Rightarrow> nat option" where
  "moves at rng = (case (at, rng) of
     (Some n, Some r) \<Rightarrow> if n < c_to r then Some (c_to r) else None | _ \<Rightarrow> None)"

definition gap :: "nat option \<Rightarrow> cursor_range option \<Rightarrow> bool" where
  "gap at rng \<longleftrightarrow> (case (at, rng) of (Some n, Some r) \<Rightarrow> n < c_to r \<and> n < c_from r | _ \<Rightarrow> False)"

lemma moving_from_step: "moving_from subs ((ch, r) # rest) acc =
    (if gap (map_of subs ch) (Some r) then Inl (invalid ''pull cursor gap'')
     else moving_from subs rest (case moves (map_of subs ch) (Some r) of None \<Rightarrow> acc | Some n \<Rightarrow> bt_ins ch n acc))"
  by (auto simp: gap_def moves_def split: option.splits)

lemma moving_from_error: "moving_from subs cs acc = Inl e \<Longrightarrow> e = invalid ''pull cursor gap''"
  by (induction subs cs acc rule: moving_from.induct) (auto split: option.splits if_splits)

lemma moving_from_ok_iff: "is_ok (moving_from subs cs acc) \<longleftrightarrow> (\<forall>(ch, r) \<in> set cs. \<not> gap (map_of subs ch) (Some r))"
proof (induction cs arbitrary: acc)
  case (Cons cr rest)
  obtain ch r where "cr = (ch, r)" by fastforce
  with Cons show ?case by (simp add: moving_from_step del: moving_from.simps)
qed simp

lemma moves_None [simp]: "moves at None = None"
  by (simp add: moves_def split: option.splits)

lemma moving_from_map:
  assumes "moving_from subs cs acc = Inr m" and "distinct (map fst cs)"
  shows "map_of m ch = (case moves (map_of subs ch) (map_of cs ch) of Some n \<Rightarrow> Some n | None \<Rightarrow> map_of acc ch)"
  using assms
proof (induction cs arbitrary: acc)
  case (Cons cr rest)
  obtain c r where cr: "cr = (c, r)" by fastforce
  let ?acc = "case moves (map_of subs c) (Some r) of None \<Rightarrow> acc | Some n \<Rightarrow> bt_ins c n acc"
  have "moving_from subs rest ?acc = Inr m" "c \<notin> fst ` set rest" "distinct (map fst rest)"
    using Cons.prems cr by (auto simp: moving_from_step simp del: moving_from.simps split: if_splits)
  moreover have "map_of rest c = None" using \<open>c \<notin> fst ` set rest\<close> by (simp add: map_of_eq_None_iff)
  ultimately show ?case using Cons.IH [of ?acc] cr
    by (cases "ch = c"; cases "moves (map_of subs c) (Some r)") (auto split: option.split)
qed simp

lemma moving_from_sorted: "moving_from subs cs acc = Inr m \<Longrightarrow> bt_ok acc \<Longrightarrow> bt_ok m"
  by (induction subs cs acc rule: moving_from.induct) (auto split: option.splits if_splits)

lemma forM_set_cursor:
  "forM (\<lambda>(c, n). set_cursor c n) m w = (Inr (), w') \<Longrightarrow>
     map_of (d_subs (w_db w')) = map_of (d_subs (w_db w)) ++ map_of (rev m)"
  by (induction m arbitrary: w)
     (auto simp: retM_def bindM_def set_cursor_def exec_all_def exec_def Let_def map_add_def fun_eq_iff split: option.splits)

lemma forM_set_cursor_rest:
  "forM (\<lambda>(c, n). set_cursor c n) m w = (Inr (), w') \<Longrightarrow> w_db w' = (w_db w)\<lparr>d_subs := d_subs (w_db w')\<rparr>"
proof (induction m arbitrary: w)
  case (Cons cn m)
  obtain c n where cn: "cn = (c, n)" by (rule prod.exhaust)
  from Cons.prems obtain w1 where w1: "set_cursor c n w = (Inr (), w1)" "forM (\<lambda>(c, n). set_cursor c n) m w1 = (Inr (), w')"
    by (auto simp: cn bindM_ok_iff)
  from w1(1) have "w_db w1 = (w_db w)\<lparr>d_subs := d_subs (w_db w1)\<rparr>"
    by (auto simp: set_cursor_def exec_all_def exec_def Let_def)
  moreover have "d = d0\<lparr>d_subs := d_subs d\<rparr>" if "d = d1\<lparr>d_subs := d_subs d\<rparr>" "d1 = d0\<lparr>d_subs := d_subs d1\<rparr>" for d d0 d1 :: db
    by (subst that(1), subst that(2)) simp
  ultimately show ?case using Cons.IH [OF w1(2)] by blast
qed (simp add: retM_def)

lemma bt_ok_rev: "bt_ok m \<Longrightarrow> map_of (rev m) = map_of m"
  by (simp add: bt_ok_distinct distinct_map_of_rev)

text \<open>The gate inside the transaction changes nothing.\<close>

lemma check_moving_same: "forM (check_moving moving) cs w = (r, w') \<Longrightarrow> w' = w"
proof -
  have one: "snd (check_moving moving cr w) = w" for cr w
    by (simp add: check_moving_def cursor_def query_def getsM_def retM_def failM_def bindM_def Let_def
      split: option.splits)
  show "forM (check_moving moving) cs w = (r, w') \<Longrightarrow> w' = w"
  proof (induction cs)
    case Nil
    then show ?case by (simp add: retM_def)
  next
    case (Cons cr cs)
    obtain q w1 where "check_moving moving cr w = (q, w1)" by fastforce
    with one [of cr w] have "check_moving moving cr w = (q, w)" by simp
    with Cons show ?case by (cases q) (auto simp: bindM_def)
  qed
qed

lemma write_page_ok:
  assumes "write_page x s page moving w = (Inr rep, w')" and "bt_ok moving"
  shows "map_of (d_subs (w_db w')) = map_of (d_subs (w_db w)) ++ map_of moving" and "y_cursors rep = moving"
    and "\<exists>rep0 w0. apply_records x s (g_changes page) w = (Inr rep0, w0) \<and> rep = rep0\<lparr>y_cursors := y_cursors rep\<rparr> \<and>
      w_db w' = (w_db w0)\<lparr>d_subs := d_subs (w_db w')\<rparr>"
proof -
  from assms(1) obtain w1 w2 rep0 where
    a: "apply_records x s (g_changes page) w1 = (Inr rep0, w2)" "w1 = w" and
    b: "forM (\<lambda>(c, n). set_cursor c n) moving w2 = (Inr (), w')" "rep = rep0\<lparr>y_cursors := moving\<rparr>"
    unfolding write_page_def bindM_ok_iff by (auto simp: retM_def dest: check_moving_same)
  have "d_subs (w_db w2) = d_subs (w_db w)"
    using keepsD [OF records_same_subs a(1)] a(2) by (simp add: on_db_def same_subs_def)
  with forM_set_cursor [OF b(1)] bt_ok_rev [OF assms(2)]
  show "map_of (d_subs (w_db w')) = map_of (d_subs (w_db w)) ++ map_of moving" by simp
  show "y_cursors rep = moving" using b(2) by simp
  show "\<exists>rep0 w0. apply_records x s (g_changes page) w = (Inr rep0, w0) \<and> rep = rep0\<lparr>y_cursors := y_cursors rep\<rparr> \<and>
      w_db w' = (w_db w0)\<lparr>d_subs := d_subs (w_db w')\<rparr>"
    using a b(2) forM_set_cursor_rest [OF b(1)] by auto
qed

text \<open>
  What applying a page comes to: its changes are staged on the committed content, as
  \<open>apply_records\<close> stages them, then the cursors behind it move, and the generation advances. The
  report is the one of staging, with the cursors that moved.
\<close>

definition page_effect :: "ext \<Rightarrow> pull_page \<Rightarrow> client \<Rightarrow> apply_report \<Rightarrow> client \<Rightarrow> bool" where
  "page_effect x page c rep c' \<longleftrightarrow>
     (let subs = map_of (d_subs (committed c)); ranges = map_of (g_cursors page) in
      (\<forall>(ch, rg) \<in> set (g_cursors page). \<not> gap (subs ch) (Some rg)) \<and>
      (\<forall>ch. map_of (y_cursors rep) ch = moves (subs ch) (ranges ch)) \<and>
      (\<forall>ch. map_of (d_subs (committed c')) ch =
         (case moves (subs ch) (ranges ch) of Some n \<Rightarrow> Some n | None \<Rightarrow> subs ch)) \<and>
      (\<exists>rep0 w0. apply_records x (c_schema c) (g_changes page) (fresh_work (committed c)) = (Inr rep0, w0) \<and>
         rep = rep0\<lparr>y_cursors := y_cursors rep\<rparr> \<and>
         committed c' = bump_generation ((w_db w0)\<lparr>d_subs := d_subs (committed c')\<rparr>)))"

text \<open>A page that moves no cursor of this client.\<close>

definition moves_none :: "pull_page \<Rightarrow> client \<Rightarrow> bool" where
  "moves_none page c \<longleftrightarrow>
     (\<forall>ch. moves (map_of (d_subs (committed c)) ch) (map_of (g_cursors page) ch) = None)"

definition page_outcome_ok :: "ext \<Rightarrow> io \<Rightarrow> bool \<Rightarrow> pull_page \<Rightarrow> client \<Rightarrow> apply_report res \<Rightarrow> client \<Rightarrow> bool" where
  "page_outcome_ok x io old page c r c' \<longleftrightarrow> (case r of
      Inl _ \<Rightarrow> committed c' = committed c \<and> (io_rollback io = None \<longrightarrow> idle c')
    | Inr rep \<Rightarrow> idle c' \<and> (if old \<or> moves_none page c then rep = stale_report \<and> committed c' = committed c
        else page_effect x page c rep c'))"

lemma write_result:
  assumes "idle c" and "client_write x io body c = (r, c')"
  shows "case r of Inl _ \<Rightarrow> left_open io c c' | Inr v \<Rightarrow> atomic_write io body c = (Inr v, c')"
  using write_steps [OF assms] by (auto split: prod.splits sum.splits option.splits)

lemma left_open_idle: "left_open io c c' \<Longrightarrow> idle c \<Longrightarrow>
    committed c' = committed c \<and> (io_rollback io = None \<longrightarrow> idle c')"
  by (auto simp: left_open_def)

lemma current_page:
  assumes "idle c" and "bt_ok (g_cursors page)" and run: "apply_current_page x io page c = (r, c')"
  shows "page_outcome_ok x io False page c r c'"
proof (cases "moving_from (d_subs (committed c)) (g_cursors page) []")
  case (Inl e)
  with run assms(1) show ?thesis
    by (auto simp: page_outcome_ok_def apply_current_page_def moving_channels_def view_def query_res_def readM_def
      bindM_def committed_def)
next
  case (Inr m)
  then have mv: "moving_channels page c = (Inr m, c)"
    by (simp add: moving_channels_def view_def query_res_def readM_def committed_def)
  have s: "bt_ok m" "distinct (map fst (g_cursors page))"
    using moving_from_sorted [OF Inr] assms(2) by (simp_all add: bt_ok_distinct)
  note mm = moving_from_map [OF Inr s(2)]
  have none: "moves_none page c \<longleftrightarrow> m = []"
  proof
    assume "moves_none page c"
    then have "map_of m = Map.empty" using mm by (simp add: moves_none_def fun_eq_iff)
    then show "m = []" by simp
  next
    assume "m = []"
    then have "moves (map_of (d_subs (committed c)) ch) (map_of (g_cursors page) ch) = None" for ch
      using mm [of ch] by (simp split: option.splits)
    then show "moves_none page c" by (simp add: moves_none_def)
  qed
  show ?thesis
  proof (cases "m = []")
    case True
    with run mv assms(1) none show ?thesis by (auto simp: page_outcome_ok_def apply_current_page_def bindM_def)
  next
    case False
    with run mv have wr: "client_write x io (write_page x (c_schema c) page m) c = (r, c')"
      by (simp add: apply_current_page_def bindM_def)
    note res = write_result [OF assms(1) wr]
    have idle: "idle (notify ch (c\<lparr>c_store := \<lparr>s_file = d, s_open = None\<rparr>, c_generation := g\<rparr>))"
      "committed (notify ch (c\<lparr>c_store := \<lparr>s_file = d, s_open = None\<rparr>, c_generation := g\<rparr>)) = d" for ch d g
      using assms(1) by (simp_all add: notify_def idle_def committed_def split: prod.splits)
    show ?thesis
    proof (cases r)
      case (Inl e)
      with res left_open_idle [OF _ assms(1)] show ?thesis by (simp add: page_outcome_ok_def)
    next
      case (Inr rep)
      with res obtain w where w: "write_page x (c_schema c) page m (fresh_work (committed c)) = (Inr rep, w)"
        and c': "committed c' = bump_generation (w_db w)" "idle c'"
        using idle by (auto simp: atomic_write_def split: option.splits sum.splits prod.splits if_splits)
      note w' = write_page_ok [OF w s(1)]
      have subs: "d_subs (bump_generation d) = d_subs d" for d by (simp add: bump_generation_def)
      have "\<forall>(ch, rg) \<in> set (g_cursors page). \<not> gap (map_of (d_subs (committed c)) ch) (Some rg)"
        using moving_from_ok_iff [of "d_subs (committed c)" "g_cursors page" "[]"]
          \<open>moving_from _ _ [] = Inr m\<close> by simp
      moreover have "\<exists>rep0 w0. apply_records x (c_schema c) (g_changes page) (fresh_work (committed c)) = (Inr rep0, w0) \<and>
         rep = rep0\<lparr>y_cursors := y_cursors rep\<rparr> \<and>
         committed c' = bump_generation ((w_db w0)\<lparr>d_subs := d_subs (committed c')\<rparr>)"
        using w'(3) unfolding c'(1) subs by metis
      ultimately show ?thesis using Inr c' w'(1,2) mm none False
        by (simp add: page_outcome_ok_def page_effect_def subs fresh_work_def map_add_def split: option.splits)
    qed
  qed
qed

lemma page_result:
  assumes "idle c" and "bt_ok (g_cursors page)" and run: "apply_page x io page c = (r, c')"
  shows "page_outcome_ok x io (fst (stale (page_froms page) (c_pulls c))) page c r c'"
proof (cases "page_validate x page")
  case (Inl e)
  with run assms(1) show ?thesis by (auto simp: apply_page_def page_outcome_ok_def)
next
  case (Inr u)
  obtain b p where st: "stale (page_froms page) (c_pulls c) = (b, p)" by fastforce
  let ?c = "c\<lparr>c_pulls := p\<rparr>"
  have c: "idle ?c" "committed ?c = committed c" "c_schema ?c = c_schema c"
    using assms(1) by (simp_all add: idle_def committed_def)
  show ?thesis
  proof (cases b)
    case True
    with run Inr st c show ?thesis
      by (auto simp: page_outcome_ok_def apply_page_def bindM_def stale_subscription_page_def retM_def)
  next
    case False
    with run Inr st have "apply_current_page x io page ?c = (r, c')"
      by (simp add: apply_page_def bindM_def stale_subscription_page_def)
    note cur = current_page [OF c(1) assms(2) this]
    have same: "page_effect x page ?c rep c' = page_effect x page c rep c'" "moves_none page ?c = moves_none page c" for rep
      by (simp_all only: page_effect_def moves_none_def c(2,3))
    from cur [unfolded page_outcome_ok_def same c(2)] st False show ?thesis
      by (simp add: page_outcome_ok_def split: sum.splits)
  qed
qed

text \<open>
  C19: what applying a page does, between calls and for a page whose channels are in order. If it
  fails, the committed content is untouched, and no transaction stays open unless the rollback
  fails too. If the answer is stale, or no subscribed channel's cursor is behind the page, nothing
  changes and the report says stale. Otherwise the page is applied whole: no subscribed channel of
  it is a gap, all its changes are staged, in its order, by \<open>apply_records\<close> on the committed
  content, every subscribed channel whose cursor is behind the page's end moves to that end, and
  no other cursor moves; the report is the one of staging the changes and names exactly the
  cursors that moved.
\<close>

theorem page_moves_cursors:
  assumes "idle c" and "bt_ok (g_cursors page)" and run: "apply_page x io page c = (r, c')"
  shows "case r of
      Inl _ \<Rightarrow> committed c' = committed c \<and> (io_rollback io = None \<longrightarrow> idle c')
    | Inr rep \<Rightarrow> idle c' \<and>
        (if fst (stale (page_froms page) (c_pulls c)) \<or> moves_none page c
         then rep = stale_report \<and> committed c' = committed c
         else page_effect x page c rep c')"
  using page_result [OF assms] by (simp add: page_outcome_ok_def)

section \<open>The HTTP cycle\<close>

lemma write_error:
  assumes "idle c" "io_rollback io = None" "client_write x io body c = (Inl e, c')"
  shows "c' = c"
proof -
  from assms(3) have "atomic_write io body c = (Inl e, c')" by (simp only: write_atomic [OF assms(1,2)])
  then show ?thesis by (auto simp: atomic_write_def split: option.splits prod.splits sum.splits if_splits)
qed

lemma complete_push_error:
  assumes "idle c" "io_rollback io = None" "complete_push x io body bytes (cy, c) = (Inl e, (cy', c'))"
  shows "cy' = cy \<and> c' = c"
proof (cases "push_decode x body")
  case (Inl e1)
  with assms(3) show ?thesis by (simp add: complete_push_def)
next
  case push: (Inr request)
  show ?thesis
  proof (cases "receipt_decode x bytes")
    case (Inl e1)
    with push assms(3) show ?thesis by (simp add: complete_push_def)
  next
    case (Inr r)
    obtain q c1 where a: "client_acknowledge x io (u_batch request) r c = (q, c1)" by fastforce
    from push Inr a assms(3) obtain e1 where "q = Inl e1" "cy' = cy" "c' = c1"
      by (cases q) (auto simp: complete_push_def bindM_def on_client_def set_cycle_def modifyM_def retM_def)
    with a write_error [OF assms(1,2)] show ?thesis
      by (auto simp: client_acknowledge_def split: sum.splits)
  qed
qed

lemma page_error:
  assumes "idle c" "io_rollback io = None" "apply_page x io page c = (Inl e, c')"
  shows "idle c' \<and> committed c' = committed c"
proof (cases "page_validate x page")
  case (Inl e1)
  with assms show ?thesis by (simp add: apply_page_def)
next
  case (Inr u)
  obtain b p where st: "stale (page_froms page) (c_pulls c) = (b, p)" by fastforce
  let ?c = "c\<lparr>c_pulls := p\<rparr>"
  have c: "idle ?c" "committed ?c = committed c" using assms(1) by (simp_all add: idle_def committed_def)
  from assms(3) Inr st have run: "apply_current_page x io page ?c = (Inl e, c')"
    by (cases b) (auto simp: apply_page_def bindM_def stale_subscription_page_def retM_def)
  obtain q where mv: "moving_channels page ?c = (q, ?c)" by (simp add: moving_channels_def view_def)
  have "c' = ?c"
  proof (cases q)
    case (Inl e1)
    with run mv show ?thesis by (simp add: apply_current_page_def bindM_def)
  next
    case (Inr m)
    with run mv have "client_write x io (write_page x (c_schema ?c) page m) ?c = (Inl e, c')"
      by (auto simp: apply_current_page_def bindM_def split: if_splits)
    from write_error [OF c(1) assms(2) this] show ?thesis .
  qed
  with c show ?thesis by simp
qed

lemma complete_pull_error:
  assumes "idle c" "io_rollback io = None" "complete_pull x io body bytes (cy, c) = (Inl e, (cy', c'))"
  shows "cy' = cy \<and> idle c' \<and> committed c' = committed c"
proof (cases "pull_decode x body")
  case (Inl e1)
  with assms show ?thesis by (simp add: complete_pull_def)
next
  case pull: (Inr request)
  show ?thesis
  proof (cases "page_decode x bytes")
    case (Inl e1)
    with pull assms show ?thesis by (simp add: complete_pull_def)
  next
    case page: (Inr page)
    show ?thesis
    proof (cases "answers page request")
      case False
      with pull page assms show ?thesis by (simp add: complete_pull_def)
    next
      case True
      obtain q c1 where a: "apply_page x io page c = (q, c1)" by fastforce
      from True pull page a assms(3) have "q = Inl e \<and> cy' = cy \<and> c' = c1"
        by (cases q) (auto simp: complete_pull_def bindM_def on_client_def set_cycle_def modifyM_def retM_def split: if_splits)
      with a page_error [OF assms(1,2)] show ?thesis by auto
    qed
  qed
qed

text \<open>
  An answer that cannot be used changes nothing. When completing the action in flight fails
  (the bytes do not decode, do not answer the request, name a gap, or the write fails), the cycle
  keeps its action, so the same bytes are sent again, and the committed content is untouched.
\<close>

theorem failed_answer_keeps_action:
  assumes "idle c" and "io_rollback io = None" and "cycle_complete x io bytes (cy, c) = (Inl e, (cy', c'))"
  shows "cy' = cy \<and> idle c' \<and> committed c' = committed c"
proof (cases "sc_active cy")
  case None
  with assms show ?thesis by (auto simp: cycle_complete_def)
next
  case (Some a)
  let ?m = "case a of PushAction body \<Rightarrow> complete_push x io body bytes | PullAction body \<Rightarrow> complete_pull x io body bytes"
  have "?m (cy, c) = (Inl e, (cy', c'))"
    using assms(3) Some
    by (auto simp: cycle_complete_def bindM_def set_cycle_def modifyM_def retM_def split: prod.splits sum.splits)
  with complete_push_error [OF assms(1,2)] complete_pull_error [OF assms(1,2)] assms(1)
  show ?thesis by (cases a) (auto, blast+)
qed

text \<open>
  An action is handed out until it is answered. What \<open>next\<close> returns is the action in flight,
  asking again returns it again and touches nothing, and a cycle that only pushes never pulls.
\<close>

theorem next_repeats_action:
  assumes "cycle_next x io s = (Inr (Some a), s')"
  shows "cycle_next x io' s' = (Inr (Some a), s') \<and>
    (sc_push_only (fst s) \<and> sc_active (fst s) = None \<longrightarrow> (\<exists>body. a = PushAction body))"
proof -
  have "sc_active (fst s') = Some a \<and> (sc_push_only (fst s) \<and> sc_active (fst s) = None \<longrightarrow> (\<exists>body. a = PushAction body))"
  proof (cases "sc_active (fst s)")
    case (Some b)
    with assms show ?thesis by (simp add: cycle_next_def)
  next
    case None
    obtain q c1 where f: "client_freeze x io push_bytes (snd s) = (q, c1)" by fastforce
    show ?thesis
    proof (cases q)
      case (Inl e)
      with assms None f show ?thesis by (simp add: cycle_next_def bindM_def on_client_def)
    next
      case (Inr frozen)
      with assms None f show ?thesis
        by (cases frozen) (auto simp: cycle_next_def bindM_def on_client_def activate_def set_cycle_def modifyM_def
          getsM_def retM_def split: if_splits prod.splits sum.splits option.splits)
    qed
  qed
  then show ?thesis by (simp add: cycle_next_def)
qed

text \<open>
  C21: a stale answer ends the cycle. When a page on which no channel continues answers the pull
  in flight, but was requested under an earlier subscription of one of its channels, nothing is
  applied, and yet the cycle is marked complete: unless something is queued, the next step of the
  cycle has nothing to do, though the cursor the new subscription reset is still behind.
\<close>

theorem stale_answer_completes_cycle:
  assumes "sc_active cy = Some (PullAction body)"
    and "pull_decode x body = Inr request" and "page_decode x bytes = Inr page" and "page_validate x page = Inr ()"
    and "answers page request" and "\<forall>(ch, rg) \<in> set (g_cursors page). \<not> continues rg"
    and "stale (page_froms page) (c_pulls c) = (True, p)"
  shows "cycle_complete x io bytes (cy, c) =
    (Inr [], (cy\<lparr>sc_completed := True, sc_active := None\<rparr>, c\<lparr>c_pulls := p\<rparr>))"
proof -
  have "\<not> (\<exists>(ch, rg) \<in> set (g_cursors page). continues rg)" using assms(6) by auto
  then show ?thesis using assms(1-5,7)
    by (simp add: cycle_complete_def complete_pull_def apply_page_def bindM_def on_client_def set_cycle_def modifyM_def
      retM_def stale_subscription_page_def stale_report_def report_default_def)
qed

end
