(* ===== verification/Live.thy ===== *)
theory Live
  imports Paging Connection
begin

text \<open>
  The live lane (\<open>crates/client/src/live.rs\<close>): one subscription at a time over a socket, catching
  up by pulls, pages applied in order from a bounded queue. The host reports events; the answers
  are the actions it takes. A call that fails drops its actions but keeps what it did to the
  session and the client.
\<close>

section \<open>State\<close>

datatype live_event =
    EStart | EStop | EPause | EResume | EWake | ENext
  | EMessage nat string
  | ECatchUp nat string
  | EOverflow nat
  | EClosed nat

datatype live_action =
    AOpen nat string
  | ARequest nat string
  | AClose nat "string option"
  | AWake
  | AReport "report list"
  | AWait u64

record live_session =
  lv_epoch :: nat
  lv_generation :: nat
  lv_subscribe :: subscribe_request
  lv_acknowledged :: bool
  lv_active :: "pull_request option"
  lv_again :: bool
  lv_queue :: "pull_page list"

definition queued_frames :: nat where
  "queued_frames = 64"

record lane =
  ln_driver :: driver
  ln_epoch :: nat
  ln_session :: "live_session option"

definition lane_default :: lane where
  "lane_default = \<lparr>ln_driver = driver_default, ln_epoch = 0, ln_session = None\<rparr>"

text \<open>During a call: the lane, the client and the actions so far.\<close>

record lane_state =
  st_lane :: lane
  st_client :: client
  st_actions :: "live_action list"

type_synonym 'a lane_call = "(lane_state, err, 'a) comp"

definition on_lane :: "(lane \<Rightarrow> lane) \<Rightarrow> unit lane_call" where
  "on_lane f = modifyM (\<lambda>st. st\<lparr>st_lane := f (st_lane st)\<rparr>)"

definition drive :: "(driver \<Rightarrow> driver) \<Rightarrow> unit lane_call" where
  "drive f = on_lane (\<lambda>l. l\<lparr>ln_driver := f (ln_driver l)\<rparr>)"

definition act :: "live_action \<Rightarrow> unit lane_call" where
  "act a = modifyM (\<lambda>st. st\<lparr>st_actions := st_actions st @ [a]\<rparr>)"

definition lane_client :: "'a call \<Rightarrow> 'a lane_call" where
  "lane_client m st = (case m (st_client st) of (r, c) \<Rightarrow> (r, st\<lparr>st_client := c\<rparr>))"

definition get_session :: "live_session option lane_call" where
  "get_session = getsM (\<lambda>st. ln_session (st_lane st))"

text \<open>\<open>expect("current session")\<close>: a panic, told apart from every error the code returns.\<close>

definition panic :: err where
  "panic = invalid ''panic: current session''"

definition the_session :: "live_session lane_call" where
  "the_session = bindM get_session (\<lambda>s. liftM (ok_or s panic))"

definition put_session :: "live_session \<Rightarrow> unit lane_call" where
  "put_session s = on_lane (\<lambda>l. l\<lparr>ln_session := Some s\<rparr>)"

section \<open>Ending a session\<close>

definition end_session :: "string option \<Rightarrow> unit lane_call" where
  "end_session reason = bindM get_session (\<lambda>s. case s of
       None \<Rightarrow> retM ()
     | Some v \<Rightarrow> bindM (on_lane (\<lambda>l. l\<lparr>ln_session := None\<rparr>)) (\<lambda>_. act (AClose (lv_epoch v) reason)))"

definition fail_session :: "string option \<Rightarrow> u64 \<Rightarrow> u64 \<Rightarrow> unit lane_call" where
  "fail_session reason now entropy =
     bindM (end_session reason) (\<lambda>_. drive (driver_complete False now entropy))"

section \<open>Pulls and queued pages\<close>

definition settle :: "progress \<Rightarrow> unit lane_call" where
  "settle p = bindM (if pg_outcome p = PageApplied then act AWake else retM ())
     (\<lambda>_. if y_reports (pg_report p) \<noteq> [] then act (AReport (y_reports (pg_report p))) else retM ())"

definition live_pull :: "ext \<Rightarrow> unit lane_call" where
  "live_pull x = bindM the_session
     (\<lambda>s. if lv_active s \<noteq> None then put_session (s\<lparr>lv_again := True\<rparr>)
        else bindM (lane_client (downlink_request x))
          (\<lambda>body. case body of
              None \<Rightarrow> retM ()
            | Some b \<Rightarrow> bindM (liftM (pull_decode x b))
                (\<lambda>request. bindM (put_session (s\<lparr>lv_active := Some request\<rparr>))
                (\<lambda>_. act (ARequest (lv_epoch s) b)))))"

text \<open>
  The loop over the queue, front first; every turn removes the front or returns. The outcomes of
  the store in one call are numbered by the length of the queue.
\<close>

fun drain_queue :: "ext \<Rightarrow> (nat \<Rightarrow> io) \<Rightarrow> pull_page list \<Rightarrow> unit lane_call" where
  "drain_queue x ios [] = retM ()"
| "drain_queue x ios (page # rest) = bindM the_session
     (\<lambda>s. if lv_active s \<noteq> None then retM ()
        else bindM (lane_client (receive_downlink x (ios (length rest + 1)) page None))
          (\<lambda>p. bindM (settle p)
          (\<lambda>_. if pg_outcome p = Recover then live_pull x
             else bindM (bindM the_session (\<lambda>s. put_session (s\<lparr>lv_queue := rest\<rparr>)))
                    (\<lambda>_. drain_queue x ios rest))))"

definition drain :: "ext \<Rightarrow> (nat \<Rightarrow> io) \<Rightarrow> unit lane_call" where
  "drain x ios = bindM the_session (\<lambda>s. drain_queue x ios (lv_queue s))"

definition overflow :: "ext \<Rightarrow> unit lane_call" where
  "overflow x = bindM the_session
     (\<lambda>s. if \<not> lv_acknowledged s then retM ()
        else bindM (put_session (s\<lparr>lv_queue := []\<rparr>)) (\<lambda>_. live_pull x))"

definition head_ahead :: "channel_map \<Rightarrow> string \<times> nat \<Rightarrow> bool" where
  "head_ahead subs ch = ((case map_of subs (fst ch) of None \<Rightarrow> 0 | Some n \<Rightarrow> n) < snd ch)"

definition live_message_event :: "ext \<Rightarrow> (nat \<Rightarrow> io) \<Rightarrow> string \<Rightarrow> u64 \<Rightarrow> u64 \<Rightarrow> unit lane_call" where
  "live_message_event x ios body now entropy =
     (case live_decode x body of
        Inl e \<Rightarrow> fail_session (Some (err_text e)) now entropy
      | Inr (Acknowledged ack) \<Rightarrow> bindM the_session
          (\<lambda>s. if lv_acknowledged s \<or> \<not> confirms ack (lv_subscribe s)
             then fail_session (Some ''invalid live subscription acknowledgement'') now entropy
             else bindM (put_session (s\<lparr>lv_acknowledged := True\<rparr>))
               (\<lambda>_. bindM (lane_client client_subscriptions)
               (\<lambda>subs. if \<exists>ch \<in> set (ack_cursors ack). head_ahead subs ch then live_pull x else retM ())))
      | Inr (Page page) \<Rightarrow> bindM the_session
          (\<lambda>s. if \<not> lv_acknowledged s
             then fail_session (Some ''live page before acknowledgement'') now entropy
             else if queued_frames \<le> length (lv_queue s) then overflow x
             else bindM (put_session (s\<lparr>lv_queue := lv_queue s @ [page]\<rparr>)) (\<lambda>_. drain x ios)))"

definition not_an_answer :: string where
  "not_an_answer = ''response does not match pull request''"

definition catch_up :: "ext \<Rightarrow> (nat \<Rightarrow> io) \<Rightarrow> string \<Rightarrow> u64 \<Rightarrow> u64 \<Rightarrow> unit lane_call" where
  "catch_up x ios body now entropy = bindM the_session
     (\<lambda>s. case lv_active s of
        None \<Rightarrow> failM (invalid ''catch-up response without a request'')
      | Some request \<Rightarrow> bindM (put_session (s\<lparr>lv_active := None\<rparr>))
          (\<lambda>_. case page_decode x body of
             Inl e \<Rightarrow> fail_session (Some (''invalid pull response: '' @ err_text e)) now entropy
           | Inr page \<Rightarrow>
               bindM (tryM (lane_client (receive_downlink x (ios 0) page (Some request))))
               (\<lambda>r. case r of
                  Inl e \<Rightarrow> if err_text e = not_an_answer then fail_session (Some (err_text e)) now entropy
                    else failM e
                | Inr p \<Rightarrow> bindM (settle p)
                    (\<lambda>_. bindM the_session
                    (\<lambda>s. if pg_continues p \<noteq> [] then live_pull x
                       else if lv_again s
                       then bindM (put_session (s\<lparr>lv_again := False\<rparr>)) (\<lambda>_. live_pull x)
                       else drain x ios)))))"

section \<open>Events\<close>

definition begin_live :: "ext \<Rightarrow> u64 \<Rightarrow> unit lane_call" where
  "begin_live x now = bindM (lane_client desired_channels)
     (\<lambda>channels. if channels = [] then drive (driver_complete True now 0)
        else bindM (getsM (\<lambda>st. st_client st))
          (\<lambda>c. bindM (liftM (subscribe_new channels (client_declared c)))
          (\<lambda>request. bindM (on_lane (\<lambda>l. l\<lparr>ln_epoch := ln_epoch l + 1,
                 ln_session := Some \<lparr>lv_epoch = ln_epoch l + 1, lv_generation = pl_generation (c_pulls c),
                   lv_subscribe = request, lv_acknowledged = False, lv_active = None, lv_again = False, lv_queue = []\<rparr>\<rparr>))
          (\<lambda>_. bindM (getsM (\<lambda>st. ln_epoch (st_lane st)))
          (\<lambda>epoch. act (AOpen epoch (subscribe_encode x request)))))))"

text \<open>An event of an epoch is heard only by the session of that epoch.\<close>

definition if_current :: "nat \<Rightarrow> unit lane_call \<Rightarrow> unit lane_call" where
  "if_current epoch m = bindM get_session (\<lambda>s. case s of
       Some v \<Rightarrow> if lv_epoch v = epoch then m else retM () | None \<Rightarrow> retM ())"

definition check_generation :: "u64 \<Rightarrow> unit lane_call" where
  "check_generation now = bindM get_session (\<lambda>s. bindM (getsM (\<lambda>st. pl_generation (c_pulls (st_client st))))
     (\<lambda>g. case s of
          Some v \<Rightarrow> if lv_generation v \<noteq> g
            then bindM (end_session None) (\<lambda>_. bindM (drive (driver_complete True now 0)) (\<lambda>_. drive driver_wake))
            else retM ()
        | None \<Rightarrow> retM ()))"

fun on_event :: "ext \<Rightarrow> (nat \<Rightarrow> io) \<Rightarrow> live_event \<Rightarrow> u64 \<Rightarrow> u64 \<Rightarrow> unit lane_call" where
  "on_event x ios EStart now entropy = drive (driver_start now)"
| "on_event x ios EStop now entropy = bindM (end_session None) (\<lambda>_. drive driver_stop)"
| "on_event x ios EPause now entropy = bindM get_session
     (\<lambda>s. bindM (if s \<noteq> None then bindM (end_session None) (\<lambda>_. drive (driver_complete True now 0)) else retM ())
     (\<lambda>_. drive driver_pause))"
| "on_event x ios EResume now entropy = drive (driver_resume now)"
| "on_event x ios EWake now entropy = drive driver_wake"
| "on_event x ios ENext now entropy = retM ()"
| "on_event x ios (EMessage epoch body) now entropy = if_current epoch (live_message_event x ios body now entropy)"
| "on_event x ios (ECatchUp epoch body) now entropy = if_current epoch (catch_up x ios body now entropy)"
| "on_event x ios (EOverflow epoch) now entropy = if_current epoch (overflow x)"
| "on_event x ios (EClosed epoch) now entropy = if_current epoch (fail_session None now entropy)"

definition next_step :: "ext \<Rightarrow> u64 \<Rightarrow> unit lane_call" where
  "next_step x now = bindM get_session
     (\<lambda>s. if s \<noteq> None then retM ()
        else bindM (getsM (\<lambda>st. driver_next now (ln_driver (st_lane st))))
          (\<lambda>(a, d). bindM (drive (\<lambda>_. d))
          (\<lambda>_. case a of Sync \<Rightarrow> begin_live x now | Wait millis \<Rightarrow> act (AWait millis) | Idle \<Rightarrow> retM ())))"

definition handle_lane :: "ext \<Rightarrow> (nat \<Rightarrow> io) \<Rightarrow> live_event \<Rightarrow> u64 \<Rightarrow> u64 \<Rightarrow> unit lane_call" where
  "handle_lane x ios ev now entropy =
     bindM (check_generation now) (\<lambda>_. bindM (on_event x ios ev now entropy) (\<lambda>_. next_step x now))"

definition handle :: "ext \<Rightarrow> (nat \<Rightarrow> io) \<Rightarrow> live_event \<Rightarrow> u64 \<Rightarrow> u64 \<Rightarrow> lane \<times> client \<Rightarrow>
    (err + live_action list) \<times> (lane \<times> client)" where
  "handle x ios ev now entropy lc =
     (case handle_lane x ios ev now entropy \<lparr>st_lane = fst lc, st_client = snd lc, st_actions = []\<rparr> of
        (Inl e, st) \<Rightarrow> (Inl e, (st_lane st, st_client st))
      | (Inr _, st) \<Rightarrow> (Inr (st_actions st), (st_lane st, st_client st)))"

end
