(* ===== verification/LiveOk.thy ===== *)
theory LiveOk
  imports Live
begin

text \<open>
  The live lane under any sequence of events: what holds of its state after every call, failed
  calls included, and what a call that fails while a session begins leaves behind.
\<close>

section \<open>Conditions on the lane\<close>

definition session_ok :: "live_session \<Rightarrow> bool" where
  "session_ok s \<longleftrightarrow> length (lv_queue s) \<le> queued_frames \<and>
     (\<not> lv_acknowledged s \<longrightarrow> lv_queue s = [] \<and> lv_active s = None \<and> \<not> lv_again s)"

definition lane_ok :: "lane \<Rightarrow> bool" where
  "lane_ok l \<longleftrightarrow> (\<forall>v. ln_session l = Some v \<longrightarrow> lv_epoch v = ln_epoch l \<and> session_ok v)"

text \<open>A lane whose session has its acknowledgement.\<close>

definition lane_live :: "lane \<Rightarrow> bool" where
  "lane_live l \<longleftrightarrow> lane_ok l \<and> (\<exists>v. ln_session l = Some v \<and> lv_acknowledged v)"

text \<open>
  From \<open>P\<close> a step that succeeds leads to \<open>Q\<close>; one that fails leaves the lane in order.
\<close>

definition leads :: "(lane \<Rightarrow> bool) \<Rightarrow> 'a lane_call \<Rightarrow> ('a \<Rightarrow> lane \<Rightarrow> bool) \<Rightarrow> bool" where
  "leads P m Q \<longleftrightarrow> (\<forall>st. P (st_lane st) \<longrightarrow>
     (case m st of (Inr a, st') \<Rightarrow> Q a (st_lane st') | (Inl e, st') \<Rightarrow> lane_ok (st_lane st')))"

named_theorems lane_rules \<open>how the steps of the lane lead from condition to condition\<close>

lemma leads_bind: "leads P m Q \<Longrightarrow> (\<And>a. leads (Q a) (f a) S) \<Longrightarrow> leads P (bindM m f) S"
  unfolding leads_def bindM_def by (fastforce split: prod.splits sum.splits)

lemma leads_weaken: "leads P m Q \<Longrightarrow> (\<And>l. P' l \<Longrightarrow> P l) \<Longrightarrow> (\<And>a l. Q a l \<Longrightarrow> Q' a l) \<Longrightarrow> leads P' m Q'"
  unfolding leads_def by (fastforce split: prod.splits sum.splits)

lemma leads_pre: "(\<And>l. P' l \<Longrightarrow> P l) \<Longrightarrow> leads P m Q \<Longrightarrow> leads P' m Q"
  by (rule leads_weaken)

text \<open>The last step of a computation, and steps before others with the most that holds after them.\<close>

lemma leads_last:
  "(\<And>l. P l \<Longrightarrow> Q a l) \<Longrightarrow> leads P (retM a) Q"
  "(\<And>l. P l \<Longrightarrow> lane_ok l) \<Longrightarrow> leads P (failM e) Q"
  "(\<And>l. P l \<Longrightarrow> Q' () l) \<Longrightarrow> leads P (act a') Q'"
  "(\<And>l. P l \<Longrightarrow> Q' () (f l)) \<Longrightarrow> leads P (on_lane f) Q'"
  "(\<And>l. P l \<Longrightarrow> Q' () (l\<lparr>ln_session := Some s\<rparr>)) \<Longrightarrow> leads P (put_session s) Q'"
  "(\<And>l d. P l \<Longrightarrow> Q' () (l\<lparr>ln_driver := d\<rparr>)) \<Longrightarrow> leads P (drive g) Q'"
  by (simp_all add: leads_def retM_def failM_def act_def on_lane_def put_session_def drive_def modifyM_def)

lemma leads_step:
  "(\<And>l. P l \<Longrightarrow> lane_ok l) \<Longrightarrow> leads P (liftM r) (\<lambda>_. P)"
  "(\<And>l. P l \<Longrightarrow> lane_ok l) \<Longrightarrow> leads P (lane_client k) (\<lambda>_. P)"
  "leads P (tryM (lane_client k)) (\<lambda>_. P)"
  "leads P (getsM g) (\<lambda>_. P)" "leads P (act a) (\<lambda>_. P)"
  "leads P get_session (\<lambda>s l. P l \<and> ln_session l = s)"
  by (cases r)
     (simp_all add: leads_def liftM_def lane_client_def tryM_def getsM_def act_def modifyM_def get_session_def
       split: prod.splits sum.splits)

lemma leads_the_session:
  assumes "\<And>l. P l \<Longrightarrow> lane_ok l"
  shows "leads P the_session (\<lambda>s l. P l \<and> ln_session l = Some s)"
proof -
  have "the_session st = (case ln_session (st_lane st) of None \<Rightarrow> (Inl panic, st) | Some s \<Rightarrow> (Inr s, st))" for st
    by (simp add: the_session_def get_session_def getsM_def bindM_def liftM_def split: option.splits)
  with assms show ?thesis by (simp add: leads_def split: option.splits)
qed

lemma leads_cases:
  "(b \<Longrightarrow> leads P f Q) \<Longrightarrow> (\<not> b \<Longrightarrow> leads P g Q) \<Longrightarrow> leads P (if b then f else g) Q"
  "(v = None \<Longrightarrow> leads P f Q) \<Longrightarrow> (\<And>a. v = Some a \<Longrightarrow> leads P (h a) Q) \<Longrightarrow>
     leads P (case v of None \<Rightarrow> f | Some a \<Rightarrow> h a) Q"
  "(\<And>e. w = Inl e \<Longrightarrow> leads P (f' e) Q) \<Longrightarrow> (\<And>a. w = Inr a \<Longrightarrow> leads P (h' a) Q) \<Longrightarrow>
     leads P (case w of Inl e \<Rightarrow> f' e | Inr a \<Rightarrow> h' a) Q"
  by (cases v; cases w; simp)+

lemma lane_ok_simps [simp]:
  "lane_ok (l\<lparr>ln_driver := d\<rparr>) = lane_ok l" "lane_live (l\<lparr>ln_driver := d\<rparr>) = lane_live l"
  "lane_ok (l\<lparr>ln_session := None\<rparr>)"
  "lane_ok (l\<lparr>ln_session := Some s\<rparr>) \<longleftrightarrow> lv_epoch s = ln_epoch l \<and> session_ok s"
  "lane_live (l\<lparr>ln_session := Some s\<rparr>) \<longleftrightarrow> lv_epoch s = ln_epoch l \<and> session_ok s \<and> lv_acknowledged s"
  by (auto simp: lane_ok_def lane_live_def)

lemma lane_okD: "lane_ok l \<Longrightarrow> ln_session l = Some s \<Longrightarrow> lv_epoch s = ln_epoch l \<and> session_ok s"
  by (simp add: lane_ok_def)

lemma lane_liveD: "lane_live l \<Longrightarrow> lane_ok l"
  by (simp add: lane_live_def)

lemma lane_live_session: "lane_live l \<Longrightarrow> ln_session l = Some s \<Longrightarrow>
    lv_epoch s = ln_epoch l \<and> session_ok s \<and> lv_acknowledged s"
  by (auto simp: lane_live_def lane_ok_def)

section \<open>The operations\<close>

lemma leads_end: "leads lane_ok (end_session reason) (\<lambda>_. lane_ok)"
  unfolding end_session_def
  by (rule leads_bind, rule leads_step, rule leads_cases, rule leads_last, simp, rule leads_bind,
      rule leads_last(4) [where Q' = "\<lambda>_. lane_ok"], simp, rule leads_last, simp)

lemma leads_failed: "leads lane_ok (fail_session reason now entropy) (\<lambda>_. lane_ok)"
  unfolding fail_session_def by (rule leads_bind, rule leads_end, rule leads_last, simp)

lemma leads_settle: "leads P (settle p) (\<lambda>_. P)"
  unfolding settle_def
  by (rule leads_bind [where Q = "\<lambda>_. P"]; rule leads_cases; rule leads_last; simp)

lemma leads_pull: "leads lane_live (live_pull x) (\<lambda>_. lane_ok)"
  unfolding live_pull_def
proof (rule leads_bind, rule leads_the_session, erule lane_liveD, rule leads_cases)
  fix s :: live_session
  let ?P = "\<lambda>l. lane_live l \<and> ln_session l = Some s"
  have ok: "?P l \<Longrightarrow> lane_ok l" for l by (simp add: lane_live_def)
  have keep: "?P l \<Longrightarrow> lane_ok (l\<lparr>ln_session := Some s'\<rparr>)"
    if "lv_epoch s' = lv_epoch s" "lv_queue s' = lv_queue s" "lv_acknowledged s' = lv_acknowledged s" for l s'
    using that by (auto dest!: lane_live_session simp: session_ok_def)
  show "leads ?P (put_session (s\<lparr>lv_again := True\<rparr>)) (\<lambda>_. lane_ok)"
    by (rule leads_last, rule keep) simp_all
  show "leads ?P (bindM (lane_client (downlink_request x)) (\<lambda>body. case body of None \<Rightarrow> retM ()
      | Some b \<Rightarrow> bindM (liftM (pull_decode x b)) (\<lambda>request. bindM (put_session (s\<lparr>lv_active := Some request\<rparr>))
          (\<lambda>_. act (ARequest (lv_epoch s) b))))) (\<lambda>_. lane_ok)"
    by (rule leads_bind, rule leads_step(2), erule ok, rule leads_cases, rule leads_last, erule ok,
        rule leads_bind, rule leads_step(1), erule ok, rule leads_bind,
        rule leads_last(5) [where Q' = "\<lambda>_. lane_ok"], rule keep, simp_all, rule leads_last, simp)
qed

definition lane_queue :: "pull_page list \<Rightarrow> lane \<Rightarrow> bool" where
  "lane_queue qs l \<longleftrightarrow> lane_ok l \<and> (\<exists>s. ln_session l = Some s \<and> lv_queue s = qs)"

lemma lane_queue_live: "lane_queue (q # qs) l \<Longrightarrow> lane_live l"
  by (auto simp: lane_queue_def lane_live_def session_ok_def dest: lane_okD)

lemma lane_queue_ok: "lane_queue qs l \<Longrightarrow> lane_ok l"
  by (simp add: lane_queue_def)

lemma leads_drain_queue: "leads (lane_queue qs) (drain_queue x ios qs) (\<lambda>_. lane_ok)"
proof (induction qs)
  case Nil
  show ?case unfolding drain_queue.simps by (rule leads_last, erule lane_queue_ok)
next
  case (Cons page rest)
  let ?P = "\<lambda>s l. lane_queue (page # rest) l \<and> ln_session l = Some s"
  have pop: "leads (lane_queue (page # rest)) (bindM the_session (\<lambda>s. put_session (s\<lparr>lv_queue := rest\<rparr>))) (\<lambda>_. lane_queue rest)"
    by (rule leads_bind, rule leads_the_session, erule lane_queue_ok, rule leads_last)
       (auto simp: lane_queue_def session_ok_def dest: lane_okD)
  show ?case unfolding drain_queue.simps
    by (rule leads_bind, rule leads_the_session, erule lane_queue_ok, rule leads_cases,
        rule leads_last, simp add: lane_queue_def,
        rule leads_bind, rule leads_step(2), simp add: lane_queue_def,
        rule leads_bind, rule leads_settle, rule leads_cases,
        rule leads_pre [OF _ leads_pull], erule lane_queue_live [OF conjunct1],
        rule leads_bind, rule leads_pre [OF _ pop], erule conjunct1, rule Cons.IH)
qed

lemma leads_drain: "leads lane_ok (drain x ios) (\<lambda>_. lane_ok)"
  unfolding drain_def
  by (rule leads_bind, rule leads_the_session, assumption, rule leads_pre [OF _ leads_drain_queue])
     (simp add: lane_queue_def)

lemma leads_overflow: "leads lane_ok (overflow x) (\<lambda>_. lane_ok)"
  unfolding overflow_def
  by (rule leads_bind, rule leads_the_session, assumption, rule leads_cases, rule leads_last, simp,
      rule leads_bind, rule leads_last(5) [where Q' = "\<lambda>_. lane_live"], auto simp: session_ok_def dest: lane_okD,
      rule leads_pull)

lemma leads_message: "leads lane_ok (live_message_event x ios body now entropy) (\<lambda>_. lane_ok)"
proof (cases "live_decode x body")
  case (Inl e)
  then show ?thesis by (simp add: live_message_event_def leads_failed)
next
  case (Inr m)
  show ?thesis
  proof (cases m)
    case (Acknowledged ack)
    show ?thesis unfolding live_message_event_def Inr Acknowledged sum.case live_message.case
      by (rule leads_bind, rule leads_the_session, assumption, rule leads_cases,
          rule leads_pre [OF _ leads_failed], erule conjunct1,
          rule leads_bind, rule leads_last(5) [where Q' = "\<lambda>_. lane_live"],
          auto simp: session_ok_def dest: lane_okD,
          rule leads_bind, rule leads_step(2), erule lane_liveD, rule leads_cases, rule leads_pull,
          rule leads_last, erule lane_liveD)
  next
    case (Page page)
    show ?thesis unfolding live_message_event_def Inr Page sum.case live_message.case
      by (rule leads_bind, rule leads_the_session, assumption, rule leads_cases,
          rule leads_pre [OF _ leads_failed], erule conjunct1, rule leads_cases,
          rule leads_pre [OF _ leads_overflow], erule conjunct1,
          rule leads_bind, rule leads_last(5) [where Q' = "\<lambda>_. lane_ok"],
          auto simp: session_ok_def dest: lane_okD intro: leads_drain)
  qed
qed

lemma leads_catch_up: "leads lane_ok (catch_up x ios body now entropy) (\<lambda>_. lane_ok)"
  unfolding catch_up_def
proof (rule leads_bind, rule leads_the_session, assumption, rule leads_cases(2))
  fix s :: live_session
  show "leads (\<lambda>l. lane_ok l \<and> ln_session l = Some s) (failM (invalid ''catch-up response without a request''))
    (\<lambda>_. lane_ok)"
    by (rule leads_last) simp
next
  fix s :: live_session and request
  assume active: "lv_active s = Some request"
  have put: "leads (\<lambda>l. lane_ok l \<and> ln_session l = Some s) (put_session (s\<lparr>lv_active := None\<rparr>)) (\<lambda>_. lane_live)"
    using active by (intro leads_last(5)) (auto simp: session_ok_def dest: lane_okD)
  have fail: "leads lane_live (fail_session why now entropy) (\<lambda>_. lane_ok)" for why
    by (rule leads_pre [OF lane_liveD leads_failed])
  have next_pull: "leads lane_live (bindM the_session (\<lambda>s. if pg_continues p \<noteq> [] then live_pull x
      else if lv_again s then bindM (put_session (s\<lparr>lv_again := False\<rparr>)) (\<lambda>_. live_pull x) else drain x ios)) (\<lambda>_. lane_ok)"
    for p
  proof (rule leads_bind, rule leads_the_session, erule lane_liveD, rule leads_cases, rule leads_pre [OF _ leads_pull],
      erule conjunct1, rule leads_cases)
    fix s :: live_session
    let ?P = "\<lambda>l. lane_live l \<and> ln_session l = Some s"
    show "leads ?P (bindM (put_session (s\<lparr>lv_again := False\<rparr>)) (\<lambda>_. live_pull x)) (\<lambda>_. lane_ok)"
      by (rule leads_bind, rule leads_last(5) [where Q' = "\<lambda>_. lane_live"])
         (auto simp: session_ok_def dest: lane_live_session intro: leads_pull)
    show "leads ?P (drain x ios) (\<lambda>_. lane_ok)"
      by (rule leads_pre [OF _ leads_drain]) (simp add: lane_live_def)
  qed
  have answer: "leads lane_live (case r of
        Inl e \<Rightarrow> if err_text e = not_an_answer then fail_session (Some (err_text e)) now entropy else failM e
      | Inr p \<Rightarrow> bindM (settle p) (\<lambda>_. bindM the_session (\<lambda>s. if pg_continues p \<noteq> [] then live_pull x
          else if lv_again s then bindM (put_session (s\<lparr>lv_again := False\<rparr>)) (\<lambda>_. live_pull x) else drain x ios)))
      (\<lambda>_. lane_ok)" for r
    by (rule leads_cases(3), rule leads_cases(1), rule fail, rule leads_last, erule lane_liveD,
        rule leads_bind, rule leads_settle, rule next_pull)
  show "leads (\<lambda>l. lane_ok l \<and> ln_session l = Some s) (bindM (put_session (s\<lparr>lv_active := None\<rparr>))
      (\<lambda>_. case page_decode x body of
         Inl e \<Rightarrow> fail_session (Some (''invalid pull response: '' @ err_text e)) now entropy
       | Inr page \<Rightarrow> bindM (tryM (lane_client (receive_downlink x (ios 0) page (Some request))))
           (\<lambda>r. case r of
              Inl e \<Rightarrow> if err_text e = not_an_answer then fail_session (Some (err_text e)) now entropy else failM e
            | Inr p \<Rightarrow> bindM (settle p) (\<lambda>_. bindM the_session (\<lambda>s. if pg_continues p \<noteq> [] then live_pull x
                else if lv_again s then bindM (put_session (s\<lparr>lv_again := False\<rparr>)) (\<lambda>_. live_pull x)
                else drain x ios)))))
      (\<lambda>_. lane_ok)"
    by (rule leads_bind, rule put, rule leads_cases(3), rule fail, rule leads_bind, rule leads_step(3), rule answer)
qed

lemma leads_begin: "leads lane_ok (begin_live x now) (\<lambda>_. lane_ok)"
  unfolding begin_live_def
  by (rule leads_bind, rule leads_step(2), assumption, rule leads_cases, rule leads_last, simp,
      rule leads_bind, rule leads_step(4), rule leads_bind, rule leads_step(1), assumption,
      rule leads_bind, rule leads_last(4) [where Q' = "\<lambda>_. lane_ok"],
      simp add: lane_ok_def session_ok_def, rule leads_bind, rule leads_step(4), rule leads_last)

lemma leads_current: "leads lane_ok m (\<lambda>_. lane_ok) \<Longrightarrow> leads lane_ok (if_current epoch m) (\<lambda>_. lane_ok)"
  unfolding if_current_def
  by (rule leads_bind, rule leads_step(6), rule leads_cases, rule leads_last, simp, rule leads_cases,
      erule leads_pre [rotated], simp, rule leads_last, simp)

lemma leads_event: "leads lane_ok (on_event x ios ev now entropy) (\<lambda>_. lane_ok)"
proof (cases ev)
  case EPause
  show ?thesis unfolding EPause on_event.simps
    by (rule leads_bind, rule leads_step(6), rule leads_bind [where Q = "\<lambda>_. lane_ok"], rule leads_cases, rule leads_bind,
        rule leads_pre [OF _ leads_end], erule conjunct1, rule leads_last, simp, rule leads_last, simp,
        rule leads_last, simp)
next
  case EStop
  show ?thesis unfolding EStop on_event.simps by (rule leads_bind, rule leads_end, rule leads_last, simp)
qed (simp only: on_event.simps; (rule leads_last | rule leads_current); simp?; rule leads_message leads_catch_up leads_overflow leads_failed)+

lemma leads_generation: "leads lane_ok (check_generation now) (\<lambda>_. lane_ok)"
  unfolding check_generation_def
  by (rule leads_bind, rule leads_step(6), rule leads_bind, rule leads_step(4), rule leads_cases, rule leads_last, simp,
      rule leads_cases, rule leads_bind, rule leads_pre [OF _ leads_end], erule conjunct1,
      rule leads_bind, rule leads_last(6) [where Q' = "\<lambda>_. lane_ok"], simp, rule leads_last, simp, rule leads_last, simp)

lemma leads_next: "leads lane_ok (next_step x now) (\<lambda>_. lane_ok)"
proof -
  have step: "leads lane_ok (case a of Sync \<Rightarrow> begin_live x now | Wait millis \<Rightarrow> act (AWait millis) | Idle \<Rightarrow> retM ())
      (\<lambda>_. lane_ok)" for a
    by (cases a) (simp_all add: leads_begin leads_last)
  have "leads lane_ok (case ad of (a, d) \<Rightarrow> bindM (drive (\<lambda>_. d)) (\<lambda>_. case a of Sync \<Rightarrow> begin_live x now
      | Wait millis \<Rightarrow> act (AWait millis) | Idle \<Rightarrow> retM ())) (\<lambda>_. lane_ok)" for ad
    by (cases ad, simp only: prod.case, rule leads_bind, rule leads_last(6) [where Q' = "\<lambda>_. lane_ok"], simp, rule step)
  then show ?thesis unfolding next_step_def
    by (intro leads_bind [OF leads_step(6)] leads_cases leads_last leads_bind [OF leads_step(4)])
       (auto intro: leads_pre)
qed

lemma handle_ok:
  assumes "lane_ok (fst lc)" and "handle x ios ev now entropy lc = (r, lc')"
  shows "lane_ok (fst lc')"
proof -
  have l: "leads lane_ok (handle_lane x ios ev now entropy) (\<lambda>_. lane_ok)"
    unfolding handle_lane_def
    by (rule leads_bind, rule leads_generation, rule leads_bind, rule leads_event, rule leads_next)
  obtain q st where q: "handle_lane x ios ev now entropy \<lparr>st_lane = fst lc, st_client = snd lc, st_actions = []\<rparr> = (q, st)"
    by fastforce
  from l assms(1) q have "lane_ok (st_lane st)"
    unfolding leads_def by (cases q) (force dest: spec [of _ "\<lparr>st_lane = fst lc, st_client = snd lc, st_actions = []\<rparr>"])+
  with assms(2) q show ?thesis by (cases q) (auto simp: handle_def)
qed

text \<open>
  The lane through a life: the client is whatever other calls have made of it when an event is
  handled, and the store does what it does.
\<close>

record happening =
  hp_client :: client
  hp_io :: "nat \<Rightarrow> io"
  hp_event :: live_event
  hp_now :: u64
  hp_entropy :: u64

definition happens :: "ext \<Rightarrow> happening \<Rightarrow> lane \<Rightarrow> (err + live_action list) \<times> (lane \<times> client)" where
  "happens x h l = handle x (hp_io h) (hp_event h) (hp_now h) (hp_entropy h) (l, hp_client h)"

definition lane_after :: "ext \<Rightarrow> happening list \<Rightarrow> lane \<Rightarrow> lane" where
  "lane_after x hs l = fold (\<lambda>h l. fst (snd (happens x h l))) hs l"

text \<open>
  C22: the live lane stays in order. Whatever events a host reports, in whatever order and of
  whatever epoch, and whether calls succeed or fail: a session belongs to the newest epoch, it
  holds at most 64 pages, and before its acknowledgement it holds none and has no pull in flight.
\<close>

theorem lane_stays_in_order:
  "case ln_session (lane_after x hs lane_default) of None \<Rightarrow> True
   | Some v \<Rightarrow> lv_epoch v = ln_epoch (lane_after x hs lane_default) \<and> length (lv_queue v) \<le> 64 \<and>
       (lv_acknowledged v \<or> (lv_queue v = [] \<and> lv_active v = None \<and> \<not> lv_again v))"
proof -
  have "lane_ok l \<Longrightarrow> lane_ok (lane_after x hs l)" for l
  proof (induction hs arbitrary: l)
    case Nil
    then show ?case by (simp add: lane_after_def)
  next
    case (Cons h hs)
    from handle_ok [of "(l, hp_client h)", OF _ prod.collapse [symmetric]] Cons.prems
    have "lane_ok (fst (snd (happens x h l)))" by (simp add: happens_def)
    from Cons.IH [OF this] show ?case by (simp add: lane_after_def)
  qed
  from this [of lane_default] have "lane_ok (lane_after x hs lane_default)"
    by (simp add: lane_ok_def lane_default_def)
  then show ?thesis by (auto simp: lane_ok_def session_ok_def queued_frames_def split: option.split)
qed

section \<open>Events of an abandoned session\<close>

fun of_epoch :: "nat \<Rightarrow> live_event \<Rightarrow> bool" where
  "of_epoch n (EMessage e _) = (e = n)"
| "of_epoch n (ECatchUp e _) = (e = n)"
| "of_epoch n (EOverflow e) = (e = n)"
| "of_epoch n (EClosed e) = (e = n)"
| "of_epoch n _ = False"

lemma if_current_other:
  "\<forall>v. ln_session (st_lane st) = Some v \<longrightarrow> lv_epoch v \<noteq> n \<Longrightarrow> if_current n m st = (Inr (), st)"
  by (simp add: if_current_def get_session_def bindM_def getsM_def retM_def split: option.splits)

text \<open>
  What an abandoned socket or request still delivers is ignored. An event of an epoch that
  is not the session's is handled exactly as if the host had only asked for the next decision.
\<close>

theorem old_epoch_ignored:
  assumes "of_epoch n ev" and "\<forall>v. ln_session (fst lc) = Some v \<longrightarrow> lv_epoch v \<noteq> n"
  shows "handle x ios ev now entropy lc = handle x ios ENext now entropy lc"
proof -
  let ?st = "\<lparr>st_lane = fst lc, st_client = snd lc, st_actions = []\<rparr>"
  obtain q st where st: "check_generation now ?st = (q, st)" by fastforce
  have "ln_session (st_lane st) = None \<or> ln_session (st_lane st) = ln_session (fst lc)"
    using st by (auto simp: check_generation_def get_session_def bindM_def getsM_def retM_def end_session_def on_lane_def
      modifyM_def act_def drive_def split: option.splits if_splits)
  with assms(2) have "\<forall>v. ln_session (st_lane st) = Some v \<longrightarrow> lv_epoch v \<noteq> n" by auto
  then have "on_event x ios ev now entropy st = on_event x ios ENext now entropy st"
    using assms(1) by (cases ev) (simp_all add: if_current_other retM_def)
  with st show ?thesis by (cases q) (simp_all add: handle_def handle_lane_def bindM_def)
qed

section \<open>A session that cannot begin\<close>

text \<open>The cycle is marked as running, and nothing runs.\<close>

definition stalled :: "lane \<Rightarrow> bool" where
  "stalled l \<longleftrightarrow> ln_session l = None \<and> in_flight (ln_driver l)"

definition restarts :: "live_event \<Rightarrow> bool" where
  "restarts ev \<longleftrightarrow> ev = EStart \<or> ev = EStop"

lemma stalled_handle:
  assumes "stalled (fst lc)" and "\<not> restarts ev"
  shows "\<exists>l. handle x ios ev now entropy lc = (Inr [], (l, snd lc)) \<and> stalled l"
proof -
  let ?st = "\<lparr>st_lane = fst lc, st_client = snd lc, st_actions = []\<rparr>"
  have quiet: "next_step x now st = (Inr (), st)" if "stalled (st_lane st)" for st
    using that by (cases st; cases "st_lane st") (simp add: stalled_def next_step_def get_session_def bindM_def getsM_def drive_def
      on_lane_def modifyM_def retM_def driver_next_def)
  have gen: "check_generation now ?st = (Inr (), ?st)"
    using assms(1) by (simp add: stalled_def check_generation_def get_session_def bindM_def getsM_def retM_def)
  have "\<exists>st. on_event x ios ev now entropy ?st = (Inr (), st) \<and> stalled (st_lane st) \<and> st_client st = snd lc \<and> st_actions st = []"
    using assms
    by (cases ev) (simp_all add: stalled_def restarts_def if_current_other drive_def on_lane_def modifyM_def retM_def bindM_def
      get_session_def getsM_def driver_pause_def driver_resume_def driver_wake_def)
  then obtain st where st: "on_event x ios ev now entropy ?st = (Inr (), st)" "stalled (st_lane st)"
    "st_client st = snd lc" "st_actions st = []" by blast
  from gen st quiet [OF st(2)] show ?thesis by (simp add: handle_def handle_lane_def bindM_def)
qed

lemma stalled_happens:
  assumes "stalled l" and "\<not> restarts (hp_event h)"
  shows "fst (happens x h l) = Inr []" and "stalled (fst (snd (happens x h l)))"
proof -
  from assms obtain l' where "happens x h l = (Inr [], (l', hp_client h))" "stalled l'"
    unfolding happens_def using stalled_handle [of "(l, hp_client h)" "hp_event h"] by fastforce
  then show "fst (happens x h l) = Inr []" "stalled (fst (snd (happens x h l)))" by simp_all
qed

lemma stalled_after: "stalled l \<Longrightarrow> \<forall>h \<in> set hs. \<not> restarts (hp_event h) \<Longrightarrow> stalled (lane_after x hs l)"
proof (induction hs arbitrary: l)
  case Nil
  then show ?case by (simp add: lane_after_def)
next
  case (Cons h hs)
  from Cons.prems have "stalled (fst (snd (happens x h l)))" by (intro stalled_happens(2)) simp_all
  with Cons show ?case by (simp add: lane_after_def)
qed

lemma start_without_channel_name:
  assumes "ln_session l = None" and "[] \<in> fst ` set (d_subs (committed c))"
  shows "\<exists>l'. handle x ios EStart now entropy (l, c) = (Inl (invalid ''channel must not be empty''), (l', c)) \<and> stalled l'"
proof -
  let ?l = "l\<lparr>ln_driver := (driver_start now (ln_driver l))\<lparr>dirty := False, in_flight := True\<rparr>\<rparr>"
  let ?cs = "bs_of (map fst (d_subs (committed c)))"
  have mem: "[] \<in> set ?cs" using assms(2) by simp
  then have cs: "?cs \<noteq> []" by (metis empty_iff empty_set)
  from mem cs have sub: "subscribe_new ?cs ms = Inl (invalid ''channel must not be empty'')" for ms
    by (simp add: subscribe_new_def normalize_channels_def)
  have d: "desired_channels c = (Inr ?cs, c)"
    by (simp add: desired_channels_def client_subscriptions_def view_def subscriptions_def query_def getsM_def bindM_def
      retM_def committed_def)
  have "driver_next now (driver_start now (ln_driver l)) = (Sync, (driver_start now (ln_driver l))\<lparr>dirty := False, in_flight := True\<rparr>)"
    by (simp add: driver_next_def driver_start_def driver_default_def)
  then have "handle x ios EStart now entropy (l, c) = (Inl (invalid ''channel must not be empty''), (?l, c))"
    using assms(1) cs sub d
    by (simp add: handle_def handle_lane_def check_generation_def next_step_def begin_live_def get_session_def bindM_def getsM_def
      drive_def on_lane_def modifyM_def retM_def liftM_def lane_client_def)
  moreover have "stalled ?l" using assms(1) by (simp add: stalled_def)
  ultimately show ?thesis by blast
qed

text \<open>
  C23: a session that cannot begin stalls the lane. When no session is open and a subscription's
  channel name is empty, which \<open>set_channel\<close> accepts, starting the lane fails because the
  session's first message cannot be built; and then every further event, in any number and with
  any state of the client, such as after that channel was unsubscribed, is answered with no action
  at all, until the host stops or starts the lane.
\<close>

theorem failed_begin_stalls:
  assumes "ln_session l = None" and "[] \<in> fst ` set (d_subs (committed c))"
  shows "\<exists>l'. handle x ios EStart now entropy (l, c) = (Inl (invalid ''channel must not be empty''), (l', c)) \<and>
    (\<forall>hs h. (\<forall>h' \<in> set (hs @ [h]). \<not> restarts (hp_event h')) \<longrightarrow>
       fst (happens x h (lane_after x hs l')) = Inr [])"
proof -
  obtain l' where l': "handle x ios EStart now entropy (l, c) = (Inl (invalid ''channel must not be empty''), (l', c))"
    and s: "stalled l'" using start_without_channel_name [OF assms] by blast
  have "fst (happens x h (lane_after x hs l')) = Inr []" if "\<forall>h' \<in> set (hs @ [h]). \<not> restarts (hp_event h')" for hs h
  proof -
    from that have "stalled (lane_after x hs l')" by (intro stalled_after s) simp
    then show ?thesis by (rule stalled_happens(1)) (use that in simp)
  qed
  with l' show ?thesis by blast
qed

end
