(* ===== verification/Runs.thy ===== *)
theory Runs
  imports Samples LiveOk
begin

text \<open>
  Concrete clients and calls: the witnesses of the properties of the client handle, its pages,
  its cycle and its live lane.
\<close>

definition db1 :: db where
  "db1 = db0\<lparr>d_subs := [(''ch'', 0)]\<rparr>"

definition open_on :: "db \<Rightarrow> client" where
  "open_on d = \<lparr>c_store = \<lparr>s_file = d, s_open = None\<rparr>, c_schema = s0, c_id = ''c'', c_generation = 1,
     c_watchers = [], c_session = None, c_last_changed = [], c_pulls = pulls_default\<rparr>"

definition page0 :: pull_page where
  "page0 = \<lparr>g_cursors = [(''ch'', \<lparr>c_from = 0, c_to = 3, c_head = 3\<rparr>)], g_changes = [list_at 1 ''a'']\<rparr>"

lemma idle_open_on: "idle (open_on d)"
  by (simp add: idle_def open_on_def)

lemma io_ok_simps [simp]: "io_begin io_ok = None" "io_commit io_ok = None" "io_rollback io_ok = None"
  by (simp_all add: io_ok_def)

theorem committed_content_kept_witness:
  "queue_ok (committed (client_run x0 [(io_ok, CTransaction (TxEnqueue create_list)), (io_ok, CFreeze 1000)] (open_on db1)))"
proof -
  have "s_open (c_store (open_on db1)) = None" "queue_ok (committed (open_on db1))" "tables_ok (committed (open_on db1))"
    by (simp_all add: open_on_def committed_def queue_ok_def tables_ok_def db1_def db0_def)
  from committed_content_kept [OF this] show ?thesis by blast
qed

theorem write_is_atomic_witness:
  "case client_write x0 io_ok (enqueue x0 s0 create_list) (open_on db0) of
     (Inr n, c) \<Rightarrow> n = 1 \<and> c_generation c = 2 \<and> s_open (c_store c) = None | _ \<Rightarrow> False"
proof -
  have "case atomic_write io_ok (enqueue x0 s0 create_list) (open_on db0) of
     (Inr n, c) \<Rightarrow> n = 1 \<and> c_generation c = 2 \<and> s_open (c_store c) = None | _ \<Rightarrow> False"
    by code_simp
  moreover obtain r c' where "client_write x0 io_ok (enqueue x0 s0 create_list) (open_on db0) = (r, c')" by fastforce
  ultimately show ?thesis using write_is_atomic [OF idle_open_on, of x0 io_ok "enqueue x0 s0 create_list" db0 r c']
    by (auto split: prod.splits sum.splits)
qed

text \<open>Another handle has committed generation 2.\<close>

theorem stale_writer_never_writes_witness:
  "committed (client_do x0 io_ok (CTransaction (TxEnqueue create_list)) (open_on (bump_generation db0))) = bump_generation db0"
proof -
  let ?c = "open_on (bump_generation db0)"
  have o: "s_open (c_store ?c) = None" by (simp add: open_on_def)
  have b: "fallen_behind ?c"
    by (simp add: fallen_behind_def open_on_def committed_def generation_of_def bump_generation_def db0_def client0_def)
  have "events_possible x0 ([] @ [Own io_ok (CTransaction (TxEnqueue create_list))]) ?c" by simp
  from stale_writer_never_writes [OF o b this] show ?thesis by (simp add: open_on_def committed_def)
qed

theorem session_is_transaction_witness:
  "case commit_session x0 io_ok (fold (\<lambda>b c. snd (in_session b c)) [tx_run x0 s0 (TxEnqueue create_list)]
      (snd (begin_session x0 io_ok (open_on db0)))) of
     (Inr _, c) \<Rightarrow> length (d_mutations (committed c)) = 1 | _ \<Rightarrow> False"
proof -
  have "case transaction x0 io_ok (one_by_one [tx_run x0 s0 (TxEnqueue create_list)]) (open_on db0) of
     (Inr _, c) \<Rightarrow> length (d_mutations (committed c)) = 1 | _ \<Rightarrow> False"
    by code_simp
  with session_is_transaction [OF idle_open_on, of io_ok x0 "[tx_run x0 s0 (TxEnqueue create_list)]" db0]
  show ?thesis by simp
qed

lemma page_runs: "case apply_page x0 io_ok page0 (open_on db1) of (Inr rep, _) \<Rightarrow> y_applied rep = 1 | _ \<Rightarrow> False"
  by code_simp

theorem page_moves_cursors_witness:
  "map_of (d_subs (committed (snd (apply_page x0 io_ok page0 (open_on db1))))) ''ch'' = Some 3"
proof -
  obtain rep c' where run: "apply_page x0 io_ok page0 (open_on db1) = (Inr rep, c')" "y_applied rep = 1"
    using page_runs by (rule runE)
  have "rep \<noteq> stale_report" using run(2) by (auto simp: stale_report_def report_default_def)
  moreover have "bt_ok (g_cursors page0)" by (simp add: page0_def bt_ok_def)
  ultimately have "page_effect x0 page0 (open_on db1) rep c'"
    using page_moves_cursors [OF idle_open_on _ run(1)] by (simp split: if_splits)
  then show ?thesis using run(1)
    by (simp add: page_effect_def Let_def page0_def moves_def open_on_def committed_def db1_def)
qed

definition pulling :: cycle where
  "pulling = cycle_default\<lparr>sc_active := Some (PullAction ''{}'')\<rparr>"

theorem failed_answer_keeps_action_witness:
  "fst (snd (cycle_complete x0 io_ok ''no answer'' (pulling, open_on db1))) = pulling"
proof -
  have "case cycle_complete x0 io_ok ''no answer'' (pulling, open_on db1) of (Inl _, _) \<Rightarrow> True | _ \<Rightarrow> False"
    by code_simp
  then obtain e cy' c' where run: "cycle_complete x0 io_ok ''no answer'' (pulling, open_on db1) = (Inl e, (cy', c'))"
    by (cases "cycle_complete x0 io_ok ''no answer'' (pulling, open_on db1)"; auto split: sum.splits)
  from failed_answer_keeps_action [OF idle_open_on _ run] run show ?thesis by simp
qed

theorem next_repeats_action_witness:
  "\<exists>a s'. cycle_next x0 io_ok (cycle_default, open_on db1) = (Inr (Some a), s') \<and>
     cycle_next x0 io_ok s' = (Inr (Some a), s')"
proof -
  have "case cycle_next x0 io_ok (cycle_default, open_on db1) of (Inr (Some _), _) \<Rightarrow> True | _ \<Rightarrow> False"
    by code_simp
  then obtain a s' where "cycle_next x0 io_ok (cycle_default, open_on db1) = (Inr (Some a), s')"
    by (cases "cycle_next x0 io_ok (cycle_default, open_on db1)"; auto split: sum.splits option.splits)
  from next_repeats_action [OF this, of io_ok] this show ?thesis by blast
qed

text \<open>A pull from cursor 0, then the channel is unsubscribed and subscribed again.\<close>

definition request0 :: pull_request where
  "request0 = \<lparr>l_models = [(''List'', 1)], l_cursors = [(''ch'', 0)]\<rparr>"

definition request_body :: string where
  "request_body = projr (pull_encode x0 request0)"

definition page_body :: string where
  "page_body = projr (page_encode x0 page0)"

definition resubscribed :: pulls where
  "resubscribed = snd (absorb [subscription_mark @ ''ch''] (issue [(''ch'', 0)] pulls_default))"

theorem stale_answer_completes_cycle_witness:
  "sc_completed (fst (snd (cycle_complete x0 io_ok page_body
     (cycle_default\<lparr>sc_active := Some (PullAction request_body)\<rparr>, open_on db1\<lparr>c_pulls := resubscribed\<rparr>))))"
proof -
  let ?cy = "cycle_default\<lparr>sc_active := Some (PullAction request_body)\<rparr>"
    and ?c = "open_on db1\<lparr>c_pulls := resubscribed\<rparr>"
  have a: "sc_active ?cy = Some (PullAction request_body)" by simp
  have r: "pull_decode x0 request_body = Inr request0" by code_simp
  have p: "page_decode x0 page_body = Inr page0" "page_validate x0 page0 = Inr ()" "answers page0 request0"
    by code_simp+
  have n: "\<forall>(ch, rg) \<in> set (g_cursors page0). \<not> continues rg" by (simp add: page0_def continues_def)
  have "fst (stale (page_froms page0) (c_pulls ?c))" by code_simp
  then obtain q where s: "stale (page_froms page0) (c_pulls ?c) = (True, q)" by (metis prod.collapse)
  from stale_answer_completes_cycle [OF a r p n s] show ?thesis by simp
qed

theorem old_epoch_ignored_witness:
  "handle x0 (\<lambda>_. io_ok) (EClosed 1) 5 0 (lane_default, open_on db1) =
   handle x0 (\<lambda>_. io_ok) ENext 5 0 (lane_default, open_on db1)"
proof -
  have "of_epoch 1 (EClosed 1)" "\<forall>v. ln_session (fst (lane_default, open_on db1)) = Some v \<longrightarrow> lv_epoch v \<noteq> 1"
    by (simp_all add: lane_default_def)
  from old_epoch_ignored [OF this] show ?thesis .
qed

theorem failed_begin_stalls_witness:
  "is_ok (fst (transaction x0 io_ok (set_channel [] True) (open_on db0))) \<and>
   \<not> is_ok (fst (handle x0 (\<lambda>_. io_ok) EStart 5 0
     (lane_default, snd (transaction x0 io_ok (set_channel [] True) (open_on db0)))))"
proof -
  let ?c = "snd (transaction x0 io_ok (set_channel [] True) (open_on db0))"
  have t: "is_ok (fst (transaction x0 io_ok (set_channel [] True) (open_on db0)))" by code_simp
  have "[] \<in> fst ` set (d_subs (committed ?c))" by code_simp
  with failed_begin_stalls [of lane_default ?c x0 "\<lambda>_. io_ok" 5 0] t show ?thesis
    by (auto simp: lane_default_def)
qed

end
