(* ===== verification/Contract.thy ===== *)
theory Contract
  imports Protocol
begin

text \<open>
  What a server serves (\<open>crates/server/src/lib.rs\<close>, \<open>error.rs\<close>): the configuration with its
  mutations and retained read contracts, their checks, and the decoding of an uploaded
  mutation's operations into the arguments of its handler.
\<close>

section \<open>Errors\<close>

record failure =
  fl_code :: string
  fl_message :: string
  fl_details :: json

type_synonym 'a sres = "failure + 'a"

definition fail_with :: "string \<Rightarrow> string \<Rightarrow> failure" where
  "fail_with code message = \<lparr>fl_code = code, fl_message = message, fl_details = JNull\<rparr>"

definition fail_code :: "string \<Rightarrow> failure" where
  "fail_code code = fail_with code code"

definition sres :: "string \<Rightarrow> 'a res \<Rightarrow> 'a sres" where
  "sres code r = (case r of Inl e \<Rightarrow> Inl (fail_with code (err_text e)) | Inr a \<Rightarrow> Inr a)"

lemma sres_Inr_iff [res_elims]: "sres code r = Inr a \<longleftrightarrow> r = Inr a"
  by (cases r) (simp_all add: sres_def)

definition config_code :: string where "config_code = ''config.invalid''"
definition internal_code :: string where "internal_code = ''internal''"
definition storage_code :: string where "storage_code = ''storage.invalid''"
definition request_code :: string where "request_code = ''request.invalid''"
definition model_version_code :: string where "model_version_code = ''model_version_unsupported''"

definition mutation_invalid :: failure where
  "mutation_invalid = fail_code ''mutation.invalid''"

definition checked :: "'a res \<Rightarrow> 'a sres" where
  "checked r = (case r of Inl _ \<Rightarrow> Inl mutation_invalid | Inr a \<Rightarrow> Inr a)"

section \<open>The configuration\<close>

record binding =
  bd_fields :: "string list"
  bd_slot :: string

record slot =
  sl_name :: string
  sl_model :: string
  sl_operation :: string
  sl_cardinality :: string
  sl_patch :: "string list"
  sl_bindings :: "binding list"

record server_mutation =
  sm_name :: string
  sm_version :: nat
  sm_slots :: "slot list"
  sm_input :: "schema option"
  sm_known :: "(string \<times> string list) list"

record contract =
  ct_name :: string
  ct_version :: nat
  ct_identity :: "string list"
  ct_fields :: "field_desc list"
  ct_enums :: "enum_desc list"

record config =
  cf_schema :: schema
  cf_mutations :: "server_mutation list"
  cf_loaders :: "string list"
  cf_models :: "contract list"

definition contract_schema :: "contract \<Rightarrow> schema" where
  "contract_schema c = \<lparr>s_enums = ct_enums c,
     s_models = [\<lparr>m_name = ct_name c, m_version = ct_version c, m_identity = ct_identity c,
       m_fields = ct_fields c, m_relations = [], m_unique = []\<rparr>],
     s_requirements = [], s_prerequisites = [], s_policies = []\<rparr>"

definition input_schema :: "config \<Rightarrow> server_mutation \<Rightarrow> schema" where
  "input_schema c m = (case sm_input m of None \<Rightarrow> cf_schema c | Some s \<Rightarrow> s)"

definition positive_counter :: "nat \<Rightarrow> bool" where
  "positive_counter n \<longleftrightarrow> is_ok (read_counter (jnat n) True)"

definition config_bad :: "string \<Rightarrow> failure" where
  "config_bad message = fail_with config_code message"

definition check_capability :: "model_desc \<Rightarrow> string \<Rightarrow> string list \<Rightarrow> string list sres" where
  "check_capability model name seen =
     bindE (ensure (name \<notin> set seen \<and> name \<notin> set (m_identity model) \<and> name \<in> f_name ` set (m_fields model))
       (config_bad ''invalid patch capability''))
     (\<lambda>_. Inr (bs_ins name seen))"

definition check_slot :: "schema \<Rightarrow> slot \<Rightarrow> string list \<Rightarrow> string list sres" where
  "check_slot s sl seen =
     bindE (sres config_code (model_of s (sl_model sl)))
     (\<lambda>model. bindE (ensure (sl_operation sl = ''update'' \<or> sl_patch sl = [])
         (config_bad ''patch capabilities require update operation''))
     (\<lambda>_. bindE (efold (check_capability model) (sl_patch sl) [])
     (\<lambda>_. bindE (ensure (sl_name sl \<notin> set seen \<and>
           sl_cardinality sl \<in> {''single'', ''optional'', ''list''} \<and>
           sl_operation sl \<in> {''create'', ''update'', ''delete''})
         (config_bad ''invalid slot descriptor''))
     (\<lambda>_. Inr (bs_ins (sl_name sl) seen)))))"

definition check_mutation :: "config \<Rightarrow> server_mutation \<Rightarrow> (string \<times> nat) list \<Rightarrow> (string \<times> nat) list sres" where
  "check_mutation c m versions =
     bindE (ensure (sm_name m \<noteq> [] \<and> positive_counter (sm_version m) \<and> (sm_name m, sm_version m) \<notin> set versions)
       (config_bad ''invalid mutation descriptor''))
     (\<lambda>_. bindE (sres config_code (validate (input_schema c m)))
     (\<lambda>_. bindE (efold (check_slot (input_schema c m)) (sm_slots m) [])
     (\<lambda>_. Inr (bs_ins (sm_name m, sm_version m) versions))))"

definition check_binding :: "schema \<Rightarrow> server_mutation \<Rightarrow> slot \<Rightarrow> binding \<Rightarrow> unit sres" where
  "check_binding s m sl b =
     bindE (ok_or (find (\<lambda>p. sl_name p = bd_slot b) (sm_slots m)) (config_bad ''binding target missing''))
     (\<lambda>parent. bindE (sres config_code (model_of s (sl_model parent)))
     (\<lambda>parent_model. bindE (sres config_code (model_of s (sl_model sl)))
     (\<lambda>child. ensure (sl_cardinality parent = ''single'' \<and> length (bd_fields b) = length (m_identity parent_model) \<and>
           set (bd_fields b) \<subseteq> f_name ` set (m_fields child))
         (config_bad ''invalid binding descriptor''))))"

definition default_contract :: "schema \<Rightarrow> model_desc \<Rightarrow> contract" where
  "default_contract s m = \<lparr>ct_name = m_name m, ct_version = m_version m, ct_identity = m_identity m,
     ct_fields = m_fields m,
     ct_enums = filter (\<lambda>e. \<exists>f \<in> set (m_fields m). f_type f = TEnum (e_name e)) (s_enums s)\<rparr>"

definition check_contract :: "schema \<Rightarrow> contract \<Rightarrow> (string \<times> nat) list \<Rightarrow> (string \<times> nat) list sres" where
  "check_contract s ct retained =
     bindE (sres config_code (model_of s (ct_name ct)))
     (\<lambda>current. bindE (ensure (positive_counter (ct_version ct) \<and> (ct_name ct, ct_version ct) \<notin> set retained \<and>
           ct_identity ct = m_identity current)
         (config_bad (''invalid model contract '' @ ct_name ct @ '' v'' @ decimal (ct_version ct))))
     (\<lambda>_. bindE (sres config_code (validate (contract_schema ct)))
     (\<lambda>_. Inr (bs_ins (ct_name ct, ct_version ct) retained))))"

text \<open>\<open>Config::decode\<close> after the derived decoding of its JSON.\<close>

definition config_decode :: "config \<Rightarrow> config sres" where
  "config_decode c =
     bindE (sres config_code (validate (cf_schema c)))
     (\<lambda>_. bindE (efold (check_mutation c) (cf_mutations c) [])
     (\<lambda>_. bindE (echeck (\<lambda>m. echeck (\<lambda>sl. echeck (check_binding (input_schema c m) m sl) (sl_bindings sl)) (sm_slots m))
         (cf_mutations c))
     (\<lambda>_. bindE (echeck (\<lambda>l. bindE (sres config_code (model_of (cf_schema c) l)) (\<lambda>_. Inr ())) (cf_loaders c))
     (\<lambda>_. let models = (if cf_models c = [] then map (default_contract (cf_schema c)) (s_models (cf_schema c))
              else cf_models c) in
       bindE (efold (check_contract (cf_schema c)) models [])
       (\<lambda>retained. bindE (echeck (\<lambda>m. ensure ((m_name m, m_version m) \<in> set retained)
            (config_bad (''model '' @ m_name m @ '' v'' @ decimal (m_version m) @ '' is not a retained contract'')))
          (s_models (cf_schema c)))
       (\<lambda>_. Inr (c\<lparr>cf_models := models\<rparr>)))))))"

definition contract_of :: "config \<Rightarrow> string \<Rightarrow> nat \<Rightarrow> schema option" where
  "contract_of c model version =
     map_option contract_schema (find (\<lambda>m. ct_name m = model \<and> ct_version m = version) (cf_models c))"

definition unsupported :: "string \<Rightarrow> nat \<Rightarrow> string \<Rightarrow> failure" where
  "unsupported name version message = (fail_with model_version_code message)
     \<lparr>fl_details := obj [(''model'', JStr name), (''version'', jnat version)]\<rparr>"

definition check_declared :: "config \<Rightarrow> (string \<times> nat) list \<Rightarrow> unit sres" where
  "check_declared c = echeck (\<lambda>(name, version).
     bindE (ensure (is_ok (model_of (cf_schema c) name))
       (unsupported name version (''model '' @ name @ '' is not served by this backend'')))
     (\<lambda>_. ensure (contract_of c name version \<noteq> None)
       (unsupported name version (''model '' @ name @ '' v'' @ decimal version @ '' is not a retained read contract''))))"

section \<open>An uploaded mutation\<close>

definition body_version :: "json \<Rightarrow> nat option" where
  "body_version body =
     (case read_counter (case get body ''version'' of None \<Rightarrow> jnat 1 | Some v \<Rightarrow> v) True of
        Inl _ \<Rightarrow> None | Inr n \<Rightarrow> Some n)"

definition descriptor :: "config \<Rightarrow> json \<Rightarrow> server_mutation sres" where
  "descriptor c body =
     bindE (ok_or (as_str (index body ''name'')) mutation_invalid)
     (\<lambda>name. bindE (ok_or (body_version body) mutation_invalid)
     (\<lambda>version. ok_or (find (\<lambda>m. sm_name m = name \<and> sm_version m = version) (cf_mutations c)) mutation_invalid))"

definition machine_name :: "string \<Rightarrow> string" where
  "machine_name name = fold (\<lambda>c s.
     if is_upper c then (if s = [] then [] else s @ ''_'') @ [to_lower c] else s @ [c]) name []"

definition not_allowed :: "server_mutation \<Rightarrow> failure" where
  "not_allowed d = fail_code (machine_name (sm_name d) @ ''.not_allowed'')"

definition create_field :: "ext \<Rightarrow> schema \<Rightarrow> (string \<times> json) list \<Rightarrow> field_desc \<Rightarrow>
    (string \<times> json) list \<Rightarrow> (string \<times> json) list sres" where
  "create_field x s source f data =
     bindE (ok_or (case map_of source (f_name f) of
         Some v \<Rightarrow> Some v | None \<Rightarrow> if f_nullable f then Some JNull else None) mutation_invalid)
     (\<lambda>v. bindE (checked (normalize_value x s f v)) (\<lambda>w. Inr (bt_ins (f_name f) w data)))"

definition patch_field :: "ext \<Rightarrow> schema \<Rightarrow> server_mutation \<Rightarrow> slot \<Rightarrow> model_desc \<Rightarrow> string \<times> json \<Rightarrow>
    (string \<times> json) list \<Rightarrow> (string \<times> json) list sres" where
  "patch_field x s d sl model nv data =
     (let name = fst nv;
          known = (case map_of (sm_known d) (sl_model sl) of
              Some names \<Rightarrow> name \<in> set names | None \<Rightarrow> name \<in> f_name ` set (m_fields model)) in
      if known \<and> name \<notin> set (sl_patch sl) then Inl (not_allowed d)
      else (case find (\<lambda>f. f_name f = name) (m_fields model) of
          None \<Rightarrow> Inr data
        | Some f \<Rightarrow> if name \<notin> set (sl_patch sl) then Inl (not_allowed d)
            else bindE (checked (normalize_value x s f (snd nv))) (\<lambda>w. Inr (bt_ins name w data))))"

text \<open>One operation of a slot: its argument and the record it targets.\<close>

definition slot_argument :: "ext \<Rightarrow> schema \<Rightarrow> server_mutation \<Rightarrow> slot \<Rightarrow> json \<Rightarrow> (json \<times> rkey) sres" where
  "slot_argument x s d sl op =
     bindE (checked (model_of s (sl_model sl)))
     (\<lambda>model. bindE (ok_or (as_object (index op ''identity'')) mutation_invalid)
     (\<lambda>source. bindE (checked (record_key x s (sl_model sl)
         (JObj (filter (\<lambda>(k, _). k \<in> set (m_identity model)) source))))
     (\<lambda>key. let identity = [(''identity'', k_identity key)] in
        if sl_operation sl = ''delete'' then Inr (obj identity, key)
        else bindE (ok_or (as_object (index op ''values'')) mutation_invalid)
          (\<lambda>values.
             if sl_operation sl = ''create''
             then bindE (efold (create_field x s values)
                   (filter (\<lambda>f. f_name f \<notin> set (m_identity model)) (m_fields model)) [])
               (\<lambda>data. Inr (obj (identity @ [(''data'', JObj data)]), key))
             else bindE (efold (patch_field x s d sl model) values [])
               (\<lambda>data. Inr (obj (identity @ [(''patch'', JObj data)]), key))))))"

definition fits_slot :: "slot \<Rightarrow> json \<Rightarrow> bool" where
  "fits_slot sl op \<longleftrightarrow> index op ''model'' = JStr (sl_model sl) \<and> index op ''op'' = JStr (sl_operation sl)"

text \<open>The operations a slot takes from the front: as many as fit for a list, else at most one.\<close>

fun take_slot :: "ext \<Rightarrow> schema \<Rightarrow> server_mutation \<Rightarrow> slot \<Rightarrow> json list \<Rightarrow>
    json list \<Rightarrow> rkey list \<Rightarrow> (json list \<times> rkey list \<times> json list) sres" where
  "take_slot x s d sl [] values targets = Inr (values, targets, [])"
| "take_slot x s d sl (op # ops) values targets =
     (if \<not> fits_slot sl op then Inr (values, targets, op # ops)
      else bindE (slot_argument x s d sl op)
        (\<lambda>(argument, key).
           if sl_cardinality sl \<noteq> ''list'' then Inr (values @ [argument], targets @ [key], ops)
           else take_slot x s d sl ops (values @ [argument]) (targets @ [key])))"

definition slot_value :: "slot \<Rightarrow> json list \<Rightarrow> json sres" where
  "slot_value sl values =
     (if sl_cardinality sl = ''list'' then Inr (JArr values)
      else case values of
          [v] \<Rightarrow> Inr v
        | _ \<Rightarrow> if sl_cardinality sl = ''optional'' then Inr JNull else Inl mutation_invalid)"

definition decode_slot :: "ext \<Rightarrow> schema \<Rightarrow> server_mutation \<Rightarrow> slot \<Rightarrow>
    (string \<times> json) list \<times> rkey list \<times> json list \<Rightarrow> ((string \<times> json) list \<times> rkey list \<times> json list) sres" where
  "decode_slot x s d sl acc = (case acc of (args, targets, ops) \<Rightarrow>
     bindE (take_slot x s d sl ops [] targets)
     (\<lambda>(values, targets', ops'). bindE (slot_value sl values)
     (\<lambda>v. Inr (bt_ins (sl_name sl) v args, targets', ops'))))"

definition bound_rows :: "slot \<Rightarrow> json \<Rightarrow> json list sres" where
  "bound_rows sl v =
     (if sl_cardinality sl = ''list'' then ok_or (as_array v) mutation_invalid
      else Inr (if is_null v then [] else [v]))"

definition bound_ok :: "binding \<Rightarrow> model_desc \<Rightarrow> json \<Rightarrow> json \<Rightarrow> bool" where
  "bound_ok b parent_model parent row \<longleftrightarrow>
     (\<forall>(name, id) \<in> set (zip (bd_fields b) (m_identity parent_model)).
        (case get (index row ''identity'') name of Some v \<Rightarrow> v | None \<Rightarrow> index (index row ''data'') name)
        = index (index parent ''identity'') id)"

definition check_bound :: "schema \<Rightarrow> server_mutation \<Rightarrow> json \<Rightarrow> slot \<Rightarrow> binding \<Rightarrow> unit sres" where
  "check_bound s d args sl b =
     bindE (ok_or (find (\<lambda>p. sl_name p = bd_slot b) (sm_slots d)) mutation_invalid)
     (\<lambda>parent. bindE (sres config_code (model_of s (sl_model parent)))
     (\<lambda>parent_model. bindE (bound_rows sl (index args (sl_name sl)))
     (\<lambda>rows. echeck (\<lambda>row. ensure (bound_ok b parent_model (index args (sl_name parent)) row)
         (fail_code (machine_name (sm_name d) @ ''.invalid''))) rows)))"

definition decode_mutation :: "ext \<Rightarrow> config \<Rightarrow> json \<Rightarrow> (json \<times> rkey list) sres" where
  "decode_mutation x c body =
     bindE (descriptor c body)
     (\<lambda>d. let s = input_schema c d in
       bindE (ok_or (as_array (index body ''operations'')) mutation_invalid)
       (\<lambda>ops. bindE (efold (decode_slot x s d) (sm_slots d) ([], [], ops))
       (\<lambda>(args, targets, rest). bindE (ensure (rest = []) mutation_invalid)
       (\<lambda>_. bindE (echeck (\<lambda>sl. echeck (check_bound s d (JObj args) sl) (sl_bindings sl))
           (filter (\<lambda>sl. sl_operation sl = ''create'') (sm_slots d)))
       (\<lambda>_. Inr (JObj args, targets))))))"

definition decode_arguments :: "ext \<Rightarrow> config \<Rightarrow> json \<Rightarrow> json sres" where
  "decode_arguments x c body =
     bindE (config_decode c) (\<lambda>c'. bindE (decode_mutation x c' body) (\<lambda>(args, _). Inr args))"

end
