(* ===== verification/Serving.thy ===== *)
theory Serving
  imports Contract
begin

text \<open>
  The server's engine (\<open>crates/server/src/host.rs\<close>, \<open>readback.rs\<close>, \<open>lib.rs\<close>): every access to
  storage and to the application's handlers and loaders is a request to the host, a parameter
  here, whose answers are decoded before they are believed.
\<close>

section \<open>The host\<close>

datatype host_request =
    Claim string string
  | SaveReceipt string string nat string
  | Head string
  | Scan string nat nat
  | Savepoint nat
  | Rollback nat
  | Release nat
  | Handle string nat json string nat
  | Load string nat "json list" string
  | AdvanceStamp string string
  | EnsureStamp string string
  | Publish string string json string nat

type_synonym 'h host = "host_request \<Rightarrow> ('h, string, json) comp"

type_synonym ('h, 'a) serving = "('h, failure, 'a) comp"

fun request_label :: "host_request \<Rightarrow> string" where
  "request_label (Claim _ _) = ''claim''"
| "request_label (SaveReceipt _ _ _ _) = ''saveReceipt''"
| "request_label (Head _) = ''head''"
| "request_label (Scan _ _ _) = ''scan''"
| "request_label (Savepoint n) = ''savepoint(ordinal '' @ decimal n @ '')''"
| "request_label (Rollback n) = ''rollback(ordinal '' @ decimal n @ '')''"
| "request_label (Release n) = ''release(ordinal '' @ decimal n @ '')''"
| "request_label (Handle _ _ _ _ n) = ''handle(ordinal '' @ decimal n @ '')''"
| "request_label (Load _ _ _ _) = ''load''"
| "request_label (AdvanceStamp _ _) = ''advanceStamp''"
| "request_label (EnsureStamp _ _) = ''ensureStamp''"
| "request_label (Publish _ _ _ _ _) = ''publish''"

fun invalid_answer_code :: "host_request \<Rightarrow> string" where
  "invalid_answer_code (Claim _ _) = storage_code"
| "invalid_answer_code (SaveReceipt _ _ _ _) = storage_code"
| "invalid_answer_code (Scan _ _ _) = storage_code"
| "invalid_answer_code (Handle _ _ _ _ _) = ''handler.invalid''"
| "invalid_answer_code (Load _ _ _ _) = ''loader.invalid''"
| "invalid_answer_code _ = ''host.invalid''"

definition invalid_response :: "host_request \<Rightarrow> string \<Rightarrow> failure" where
  "invalid_response rq detail =
     fail_with (invalid_answer_code rq) (request_label rq @ '' response invalid: '' @ detail)"

text \<open>\<open>call_typed\<close>: ask, file the host's own failure, decode the answer.\<close>

definition ask :: "'h host \<Rightarrow> host_request \<Rightarrow> (json \<Rightarrow> 'a res) \<Rightarrow> ('h, 'a) serving" where
  "ask host rq decode s = (case host rq s of
     (Inl m, s') \<Rightarrow> (Inl (fail_with ''host'' m), s')
   | (Inr v, s') \<Rightarrow> (case decode v of
       Inl e \<Rightarrow> (Inl (invalid_response rq (err_text e)), s')
     | Inr a \<Rightarrow> (Inr a, s')))"

section \<open>Its answers\<close>

definition strict_shape :: "string list \<Rightarrow> json \<Rightarrow> bool" where
  "strict_shape names v \<longleftrightarrow> wire_shape names v \<and>
     (case v of JObj kvs \<Rightarrow> set (bt_keys kvs) \<subseteq> set names | _ \<Rightarrow> True)"

definition field_with :: "string list \<Rightarrow> json \<Rightarrow> string \<Rightarrow> (json \<Rightarrow> 'a res) \<Rightarrow> 'a res" where
  "field_with names v name decode = bindE (ok_or (wire_field names v name) derive_error) decode"

definition text_field :: "string list \<Rightarrow> json \<Rightarrow> string \<Rightarrow> string res" where
  "text_field names v name = field_with names v name (\<lambda>w. ok_or (as_str w) derive_error)"

definition counter_field :: "bool \<Rightarrow> string list \<Rightarrow> json \<Rightarrow> string \<Rightarrow> nat res" where
  "counter_field positive names v name = field_with names v name (\<lambda>w. read_counter w positive)"

definition acknowledged :: "json \<Rightarrow> unit res" where
  "acknowledged v = ensure (is_null v) derive_error"

record claimed =
  cm_client :: string
  cm_owner :: string
  cm_sequence :: nat
  cm_receipt :: "string option"

definition claimed_of :: "json \<Rightarrow> claimed res" where
  "claimed_of v =
     (let names = [''clientId'', ''owner'', ''sequence'', ''receipt''] in
      bindE (ensure (strict_shape names v) derive_error)
      (\<lambda>_. bindE (text_field names v ''clientId'')
      (\<lambda>client. bindE (text_field names v ''owner'')
      (\<lambda>owner. bindE (counter_field False names v ''sequence'')
      (\<lambda>sequence. bindE (case wire_field names v ''receipt'' of
            None \<Rightarrow> Inr None
          | Some r \<Rightarrow> if is_null r then Inr None else bindE (ok_or (as_str r) derive_error) (\<lambda>t. Inr (Some t)))
      (\<lambda>receipt. Inr \<lparr>cm_client = client, cm_owner = owner, cm_sequence = sequence, cm_receipt = receipt\<rparr>))))))"

definition head_of :: "json \<Rightarrow> nat res" where
  "head_of v = read_counter v False"

definition stamped_of :: "json \<Rightarrow> nat res" where
  "stamped_of v = read_counter v True"

record invalidation =
  iv_channel :: string
  iv_cursor :: nat
  iv_model :: string
  iv_identity :: json
  iv_key :: string
  iv_stamp :: nat

definition invalidation_of :: "json \<Rightarrow> invalidation res" where
  "invalidation_of v =
     (let names = [''channel'', ''cursor'', ''model'', ''identity'', ''identityKey'', ''stamp''] in
      bindE (ensure (strict_shape names v) derive_error)
      (\<lambda>_. bindE (text_field names v ''channel'')
      (\<lambda>channel. bindE (counter_field True names v ''cursor'')
      (\<lambda>cursor. bindE (text_field names v ''model'')
      (\<lambda>model. bindE (field_with names v ''identity'' Inr)
      (\<lambda>identity. bindE (text_field names v ''identityKey'')
      (\<lambda>key. bindE (counter_field True names v ''stamp'')
      (\<lambda>stamp. Inr \<lparr>iv_channel = channel, iv_cursor = cursor, iv_model = model, iv_identity = identity,
         iv_key = key, iv_stamp = stamp\<rparr>))))))))"

definition scanned_of :: "json \<Rightarrow> invalidation list res" where
  "scanned_of v = bindE (ok_or (as_array v) derive_error) (emap invalidation_of)"

datatype loaded = LoadRows "json option list" | LoadRefused string | LoadFailed string

definition loaded_object :: "json \<Rightarrow> loaded res" where
  "loaded_object v =
     (let names = [''rejection'', ''error''] in
      bindE (ensure (is_object v \<and> strict_shape names v) derive_error)
      (\<lambda>_. case (wire_field names v ''rejection'', wire_field names v ''error'') of
          (Some r, None) \<Rightarrow> (case as_str r of
              Some code \<Rightarrow> if valid_code code then Inr (LoadRefused code)
                else Inl (invalid ''invalid loader refusal code'')
            | None \<Rightarrow> Inl (invalid ''invalid loader refusal code''))
        | (None, Some e) \<Rightarrow> (case as_str e of
              Some m \<Rightarrow> Inr (LoadFailed m) | None \<Rightarrow> Inl (invalid ''invalid loader error''))
        | _ \<Rightarrow> Inl (invalid ''a load answer carries rows, a refusal or a failure, not several'')))"

definition loaded_of :: "json \<Rightarrow> loaded res" where
  "loaded_of v = (case v of
     JArr vs \<Rightarrow> Inr (LoadRows (map (\<lambda>w. if is_null w then None else Some w) vs))
   | _ \<Rightarrow> loaded_object v)"

definition published_of :: "json \<Rightarrow> nat res" where
  "published_of v =
     (let names = [''cursor'', ''stamp''] in
      bindE (ensure (strict_shape names v) derive_error)
      (\<lambda>_. bindE (counter_field True names v ''cursor'') (\<lambda>_. counter_field True names v ''stamp'')))"

type_synonym record_ref = "string \<times> json"

definition record_ref_of :: "json \<Rightarrow> record_ref res" where
  "record_ref_of v =
     (let names = [''model'', ''identity''] in
      bindE (ensure (strict_shape names v) derive_error)
      (\<lambda>_. bindE (text_field names v ''model'')
      (\<lambda>model. bindE (field_with names v ''identity'' Inr) (\<lambda>identity. Inr (model, identity)))))"

definition refs_of :: "json \<Rightarrow> record_ref list res" where
  "refs_of v = bindE (ok_or (as_array v) derive_error) (emap record_ref_of)"

record publication =
  pb_channel :: string
  pb_records :: "record_ref list option"

definition publication_of :: "json \<Rightarrow> publication res" where
  "publication_of v =
     (let names = [''channel'', ''records''] in
      bindE (ensure (strict_shape names v) derive_error)
      (\<lambda>_. bindE (text_field names v ''channel'')
      (\<lambda>channel. bindE (case wire_field names v ''records'' of
            None \<Rightarrow> Inr None
          | Some r \<Rightarrow> if is_null r then Inr None else bindE (refs_of r) (\<lambda>rs. Inr (Some rs)))
      (\<lambda>records. Inr \<lparr>pb_channel = channel, pb_records = records\<rparr>))))"

datatype handled =
    Settled "record_ref list" "publication list"
  | Rejected string
  | HandlerFailed string

definition bad_ref :: "record_ref \<Rightarrow> bool" where
  "bad_ref r \<longleftrightarrow> fst r = [] \<or> \<not> is_object (snd r)"

definition bad_publication :: "publication \<Rightarrow> bool" where
  "bad_publication p \<longleftrightarrow> pb_channel p = [] \<or>
     (case pb_records p of None \<Rightarrow> False | Some rs \<Rightarrow> \<exists>r \<in> set rs. bad_ref r)"

definition named_error :: "string \<Rightarrow> 'a res \<Rightarrow> 'a res" where
  "named_error what r = (case r of Inl e \<Rightarrow> Inl (invalid (what @ err_text e)) | Inr a \<Rightarrow> Inr a)"

definition settled_of :: "json \<Rightarrow> json \<Rightarrow> handled res" where
  "settled_of changes publications =
     bindE (named_error ''invalid handler changes: '' (refs_of changes))
     (\<lambda>cs. bindE (named_error ''invalid handler publications: ''
         (bindE (ok_or (as_array publications) derive_error) (emap publication_of)))
     (\<lambda>ps. if (\<exists>r \<in> set cs. bad_ref r) \<or> (\<exists>p \<in> set ps. bad_publication p)
        then Inl (invalid ''invalid handler settlement'') else Inr (Settled cs ps)))"

definition handled_of :: "json \<Rightarrow> handled res" where
  "handled_of v =
     (let names = [''changes'', ''publications'', ''rejection'', ''error''];
          at = wire_field names v in
      bindE (ensure (strict_shape names v) derive_error)
      (\<lambda>_. case (at ''changes'', at ''publications'', at ''rejection'', at ''error'') of
          (None, None, Some r, None) \<Rightarrow> (case as_str r of
              Some code \<Rightarrow> if valid_code code then Inr (Rejected code) else Inl (invalid ''invalid rejection code'')
            | None \<Rightarrow> Inl (invalid ''invalid rejection code''))
        | (None, None, None, Some e) \<Rightarrow> (case as_str e of
              Some m \<Rightarrow> Inr (HandlerFailed m) | None \<Rightarrow> Inl (invalid ''invalid handler error''))
        | (_, _, Some _, _) \<Rightarrow> Inl (invalid ''a settlement carries changes and publications, a rejection or a failure, not several'')
        | (_, _, _, Some _) \<Rightarrow> Inl (invalid ''a settlement carries changes and publications, a rejection or a failure, not several'')
        | (Some cs, Some ps, None, None) \<Rightarrow> settled_of cs ps
        | _ \<Rightarrow> Inl (invalid ''invalid handler settlement'')))"

end
