(* ===== verification/Readback.thy ===== *)
theory Readback
  imports Serving
begin

text \<open>
  What a settled mutation leaves behind (\<open>crates/server/src/readback.rs\<close>): the changed records
  get their stamps, the loaders read them back at the versions the client declared, and the
  publications go out at those stamps.
\<close>

section \<open>Change sets\<close>

type_synonym changes = "(string \<times> rkey) list"

definition handler_code :: string where "handler_code = ''handler.invalid''"
definition loader_code :: string where "loader_code = ''loader.invalid''"
definition loader_failed :: string where "loader_failed = ''loader.failed''"
definition publish_code :: string where "publish_code = ''publish.invalid''"

definition unregistered :: failure where
  "unregistered = fail_with ''loader.unregistered'' ''unregistered loader''"

text \<open>\<open>map[key]\<close>, which panics where the key is missing.\<close>

definition panicked :: failure where "panicked = fail_code ''panic''"

definition lookup_at :: "('k \<times> 'v) list \<Rightarrow> 'k \<Rightarrow> 'v sres" where
  "lookup_at m k = ok_or (map_of m k) panicked"

definition resolve :: "ext \<Rightarrow> config \<Rightarrow> record_ref \<Rightarrow> rkey sres" where
  "resolve x c r =
     bindE (ensure (fst r \<in> set (cf_loaders c)) unregistered)
     (\<lambda>_. sres handler_code (record_key x (cf_schema c) (fst r) (snd r)))"

definition insert_change :: "ext \<Rightarrow> rkey \<Rightarrow> changes \<Rightarrow> changes" where
  "insert_change x key ch = bt_ins (encoded x key) key ch"

definition insert_refs :: "ext \<Rightarrow> config \<Rightarrow> record_ref list \<Rightarrow> changes \<Rightarrow> changes sres" where
  "insert_refs x c = efold (\<lambda>r ch. bindE (resolve x c r) (\<lambda>key. Inr (insert_change x key ch)))"

definition group_by_model :: "changes \<Rightarrow> (string \<times> string list) list" where
  "group_by_model ch = fold (\<lambda>(e, key) g.
     bt_ins (k_model key) ((case map_of g (k_model key) of None \<Rightarrow> [] | Some es \<Rightarrow> es) @ [e]) g) ch []"

section \<open>Stamps and publications\<close>

definition allocate_stamps :: "'h host \<Rightarrow> ext \<Rightarrow> changes \<Rightarrow> ('h, (string \<times> nat) list) serving" where
  "allocate_stamps host x ch = foldM (\<lambda>(e, key) stamps.
     bindM (ask host (AdvanceStamp (k_model key) (encoded_identity x key)) stamped_of)
     (\<lambda>stamp. retM (bt_ins e stamp stamps))) ch []"

definition publish_one :: "'h host \<Rightarrow> ext \<Rightarrow> string \<Rightarrow> rkey \<Rightarrow> nat \<Rightarrow> ('h, unit) serving" where
  "publish_one host x channel key stamp =
     (let rq = Publish channel (k_model key) (k_identity key) (encoded_identity x key) stamp in
      bindM (ask host rq published_of)
      (\<lambda>carried. liftM (ensure (carried = stamp) (invalid_response rq
         (''invalidation carries stamp '' @ decimal carried @ '', record is at '' @ decimal stamp)))))"

definition publish_member :: "'h host \<Rightarrow> ext \<Rightarrow> string \<Rightarrow> (string \<times> nat) list \<Rightarrow> string \<times> rkey \<Rightarrow> ('h, unit) serving" where
  "publish_member host x channel stamps = (\<lambda>(e, key).
     bindM (case map_of stamps e of
         Some stamp \<Rightarrow> retM stamp
       | None \<Rightarrow> ask host (EnsureStamp (k_model key) (encoded_identity x key)) stamped_of)
     (publish_one host x channel key))"

definition publish_intent :: "'h host \<Rightarrow> ext \<Rightarrow> config \<Rightarrow> changes \<Rightarrow> (string \<times> nat) list \<Rightarrow> publication \<Rightarrow> ('h, unit) serving" where
  "publish_intent host x c ch stamps p =
     bindM (liftM (ensure (pb_channel p \<noteq> []) (fail_with publish_code ''channel must not be empty'')))
     (\<lambda>_. bindM (liftM (case pb_records p of None \<Rightarrow> Inr ch | Some rs \<Rightarrow> insert_refs x c rs []))
     (\<lambda>members. forM (publish_member host x (pb_channel p) stamps) members))"

definition publish_intents :: "'h host \<Rightarrow> ext \<Rightarrow> config \<Rightarrow> changes \<Rightarrow> (string \<times> nat) list \<Rightarrow> publication list \<Rightarrow> ('h, unit) serving" where
  "publish_intents host x c ch stamps = forM (publish_intent host x c ch stamps)"

section \<open>Reading back\<close>

datatype readback = Refused string | Records "authority list"

text \<open>The declared version of every changed model, or the code that refuses the mutation.\<close>

fun changed_versions :: "config \<Rightarrow> (string \<times> nat) list \<Rightarrow> rkey list \<Rightarrow> (string \<times> nat) list \<Rightarrow>
    (string + (string \<times> nat) list) sres" where
  "changed_versions c declared [] vs = Inr (Inr vs)"
| "changed_versions c declared (key # keys) vs =
     (if k_model key \<notin> set (cf_loaders c) then Inl unregistered
      else case map_of declared (k_model key) of
          None \<Rightarrow> Inr (Inl model_version_code)
        | Some v \<Rightarrow> if contract_of c (k_model key) v = None then Inr (Inl model_version_code)
            else changed_versions c declared keys (bt_ins (k_model key) v vs))"

definition normalize_loaded :: "ext \<Rightarrow> schema \<Rightarrow> string \<Rightarrow> json option \<Rightarrow> json option" where
  "normalize_loaded x ct model state = (case state of
     None \<Rightarrow> Some JNull
   | Some w \<Rightarrow> (case normalize_state x ct model w of Inl _ \<Rightarrow> None | Inr n \<Rightarrow> Some n))"

text \<open>The rows of one load, one authority record per changed record; \<open>None\<close> refuses them.\<close>

fun authority_rows :: "ext \<Rightarrow> schema \<Rightarrow> string \<Rightarrow> changes \<Rightarrow> (string \<times> nat) list \<Rightarrow>
    (string \<times> json option) list \<Rightarrow> authority list \<Rightarrow> authority list option sres" where
  "authority_rows x ct model ch stamps [] acc = Inr (Some acc)"
| "authority_rows x ct model ch stamps ((e, row) # rows) acc =
     bindE (lookup_at ch e)
     (\<lambda>key. case normalize_loaded x ct model row of
         None \<Rightarrow> Inr None
       | Some state \<Rightarrow> bindE (lookup_at stamps e)
           (\<lambda>stamp. authority_rows x ct model ch stamps rows (acc @ [\<lparr>a_model = k_model key,
              a_identity = k_identity key, a_stamp = stamp, a_state = state, a_error = None\<rparr>])))"

definition not_retained :: "string \<Rightarrow> nat \<Rightarrow> failure" where
  "not_retained model v = fail_with internal_code (''model '' @ model @ '' v'' @ decimal v @ '' is not retained'')"

fun read_groups :: "'h host \<Rightarrow> ext \<Rightarrow> config \<Rightarrow> string \<Rightarrow> (string \<times> nat) list \<Rightarrow> changes \<Rightarrow> (string \<times> nat) list \<Rightarrow>
    (string \<times> string list) list \<Rightarrow> authority list \<Rightarrow> ('h, readback) serving" where
  "read_groups host x c owner versions ch stamps [] acc = retM (Records acc)"
| "read_groups host x c owner versions ch stamps ((model, keys) # groups) acc =
     bindM (liftM (lookup_at versions model))
     (\<lambda>v. bindM (liftM (ok_or (contract_of c model v) (not_retained model v)))
     (\<lambda>ct. bindM (liftM (emap (lookup_at ch) keys))
     (\<lambda>rkeys. bindM (ask host (Load model v (map k_identity rkeys) owner) loaded_of)
     (\<lambda>loaded. case loaded of
         LoadRefused rejection \<Rightarrow> retM (Refused rejection)
       | LoadFailed _ \<Rightarrow> retM (Refused loader_failed)
       | LoadRows rows \<Rightarrow>
           if length rows \<noteq> length keys then retM (Refused loader_code)
           else bindM (liftM (authority_rows x ct model ch stamps (zip keys rows) acc))
             (\<lambda>out. case out of
                 None \<Rightarrow> retM (Refused loader_code)
               | Some acc' \<Rightarrow> read_groups host x c owner versions ch stamps groups acc')))))"

definition read_back :: "'h host \<Rightarrow> ext \<Rightarrow> config \<Rightarrow> (string \<times> nat) list \<Rightarrow> string \<Rightarrow> changes \<Rightarrow>
    publication list \<Rightarrow> ('h, readback) serving" where
  "read_back host x c declared owner ch publications =
     bindM (liftM (changed_versions c declared (map snd ch) []))
     (\<lambda>checked. case checked of
         Inl code \<Rightarrow> retM (Refused code)
       | Inr versions \<Rightarrow> bindM (allocate_stamps host x ch)
           (\<lambda>stamps. bindM (read_groups host x c owner versions ch stamps (group_by_model ch) [])
           (\<lambda>out. case out of
               Refused code \<Rightarrow> retM (Refused code)
             | Records records \<Rightarrow> bindM (publish_intents host x c ch stamps publications)
                 (\<lambda>_. retM (Records records)))))"

end
