(* ===== verification/Serve.thy ===== *)
theory Serve
  imports Readback
begin

text \<open>
  The three requests a server answers (\<open>process_push\<close>, \<open>process_pull\<close> and \<open>settle_external\<close> of
  \<open>crates/server/src/lib.rs\<close>), each run in the application's transaction.
\<close>

section \<open>Push\<close>

definition principal_ok :: "string \<Rightarrow> unit sres" where
  "principal_ok owner = ensure (\<not> blank owner) (fail_with ''principal.invalid'' ''invalid principal'')"

definition server_head :: "'h host \<Rightarrow> string \<Rightarrow> ('h, nat) serving" where
  "server_head host channel = ask host (Head channel) head_of"

definition owner_mismatch :: failure where "owner_mismatch = fail_code ''client.owner_mismatch''"
definition push_overlap :: failure where "push_overlap = fail_code ''overlap''"
definition push_gap :: failure where "push_gap = fail_code ''gap''"
definition mutation_version_code :: string where "mutation_version_code = ''mutation_version_unsupported''"
definition handler_failed :: string where "handler_failed = ''handler.failed''"

type_synonym batch_result = "rejection list \<times> (string \<times> authority) list"

definition version_unserved :: "config \<Rightarrow> json \<Rightarrow> bool" where
  "version_unserved c body =
     (case (as_str (index body ''name''), body_version body) of
        (Some name, Some v) \<Rightarrow> (\<exists>m \<in> set (cf_mutations c). sm_name m = name) \<and>
          \<not> (\<exists>m \<in> set (cf_mutations c). sm_name m = name \<and> sm_version m = v)
      | _ \<Rightarrow> False)"

definition reject :: "nat \<Rightarrow> string \<Rightarrow> batch_result \<Rightarrow> batch_result" where
  "reject ordinal code acc = (fst acc @ [\<lparr>j_ordinal = ordinal, j_code = code\<rparr>], snd acc)"

definition insert_results :: "ext \<Rightarrow> config \<Rightarrow> authority list \<Rightarrow> (string \<times> authority) list \<Rightarrow>
    (string \<times> authority) list sres" where
  "insert_results x c = efold (\<lambda>r results.
     bindE (sres internal_code (record_key x (cf_schema c) (a_model r) (a_identity r)))
     (\<lambda>key. Inr (bt_ins (encoded x key) r results)))"

definition settle_handled :: "'h host \<Rightarrow> ext \<Rightarrow> config \<Rightarrow> (string \<times> nat) list \<Rightarrow> string \<Rightarrow> rkey list \<Rightarrow>
    handled \<Rightarrow> ('h, readback) serving" where
  "settle_handled host x c declared owner targets h = (case h of
     Rejected code \<Rightarrow> retM (Refused code)
   | HandlerFailed _ \<Rightarrow> retM (Refused handler_failed)
   | Settled cs ps \<Rightarrow>
       bindM (liftM (insert_refs x c cs (fold (insert_change x) targets [])))
       (\<lambda>ch. read_back host x c declared owner ch ps))"

text \<open>One mutation between its savepoint and its release.\<close>

definition run_mutation :: "'h host \<Rightarrow> ext \<Rightarrow> config \<Rightarrow> (string \<times> nat) list \<Rightarrow> string \<Rightarrow> nat \<Rightarrow> server_mutation \<Rightarrow>
    json \<Rightarrow> rkey list \<Rightarrow> batch_result \<Rightarrow> ('h, batch_result) serving" where
  "run_mutation host x c declared owner ordinal d args targets acc =
     bindM (ask host (Savepoint ordinal) acknowledged)
     (\<lambda>_. bindM (ask host (Handle (sm_name d) (sm_version d) args owner ordinal) handled_of)
     (\<lambda>h. bindM (settle_handled host x c declared owner targets h)
     (\<lambda>out. bindM (case out of
           Refused code \<Rightarrow> bindM (ask host (Rollback ordinal) acknowledged)
             (\<lambda>_. retM (reject ordinal code acc))
         | Records records \<Rightarrow> bindM (liftM (insert_results x c records (snd acc)))
             (\<lambda>results. retM (fst acc, results)))
     (\<lambda>acc'. bindM (ask host (Release ordinal) acknowledged) (\<lambda>_. retM acc')))))"

definition serve_mutation :: "'h host \<Rightarrow> ext \<Rightarrow> config \<Rightarrow> (string \<times> nat) list \<Rightarrow> string \<Rightarrow> nat \<times> json \<Rightarrow>
    batch_result \<Rightarrow> ('h, batch_result) serving" where
  "serve_mutation host x c declared owner m acc =
     (if version_unserved c (snd m) then retM (reject (fst m) mutation_version_code acc)
      else case bindE (descriptor c (snd m)) (\<lambda>d. bindE (decode_mutation x c (snd m)) (\<lambda>r. Inr (d, r))) of
          Inl refused \<Rightarrow> retM (reject (fst m) (fl_code refused) acc)
        | Inr (d, args, targets) \<Rightarrow> run_mutation host x c declared owner (fst m) d args targets acc)"

definition answer_batch :: "'h host \<Rightarrow> ext \<Rightarrow> config \<Rightarrow> string \<Rightarrow> push_request \<Rightarrow> ('h, string) serving" where
  "answer_batch host x c owner r =
     bindM (foldM (serve_mutation host x c (u_models r) owner) (u_mutations r) ([], []))
     (\<lambda>(rejections, results).
        bindM (liftM (sres internal_code (receipt_encode x \<lparr>p_client = u_client r, p_batch = u_batch r,
          p_rejections = rejections, p_records = map snd results\<rparr>)))
        (\<lambda>text. bindM (ask host (SaveReceipt owner (u_client r) (u_batch r) text) acknowledged)
        (\<lambda>_. retM text)))"

definition sequence_batch :: "'h host \<Rightarrow> ext \<Rightarrow> config \<Rightarrow> string \<Rightarrow> push_request \<Rightarrow> claimed \<Rightarrow> ('h, string) serving" where
  "sequence_batch host x c owner r locked =
     (if cm_client locked \<noteq> u_client r then failM (fail_with storage_code ''storage client mismatch'')
      else if cm_owner locked \<noteq> owner then failM owner_mismatch
      else if u_batch r = cm_sequence locked
      then liftM (ok_or (cm_receipt locked) (fail_with storage_code ''receipt missing''))
      else if u_batch r < cm_sequence locked then failM push_overlap
      else if u_batch r \<noteq> cm_sequence locked + 1 then failM push_gap
      else answer_batch host x c owner r)"

definition process_push :: "'h host \<Rightarrow> ext \<Rightarrow> config \<Rightarrow> string \<Rightarrow> string \<Rightarrow> ('h, string) serving" where
  "process_push host x c owner bytes =
     bindM (liftM (principal_ok owner))
     (\<lambda>_. bindM (liftM (sres request_code (push_decode x bytes)))
     (\<lambda>r. bindM (ask host (Claim owner (u_client r)) claimed_of)
     (\<lambda>locked. sequence_batch host x c owner r locked)))"

section \<open>Pull\<close>

type_synonym scanned = "(string \<times> (rkey \<times> nat)) list"

definition storage_bad :: "string \<Rightarrow> failure" where
  "storage_bad message = fail_with storage_code message"

definition scan_row :: "ext \<Rightarrow> config \<Rightarrow> string \<Rightarrow> nat \<Rightarrow> invalidation \<Rightarrow> nat \<times> scanned \<Rightarrow> (nat \<times> scanned) sres" where
  "scan_row x c channel maximum row acc =
     bindE (ensure (iv_channel row = channel \<and> fst acc < iv_cursor row \<and> iv_cursor row \<le> maximum)
       (storage_bad ''invalid invalidation order''))
     (\<lambda>_. bindE (ensure (iv_model row \<in> set (cf_loaders c)) unregistered)
     (\<lambda>_. bindE (sres storage_code (record_key x (cf_schema c) (iv_model row) (iv_identity row)))
     (\<lambda>key. bindE (ensure (iv_key row = encoded_identity x key) (storage_bad ''noncanonical identity''))
     (\<lambda>_. let entry = (case map_of (snd acc) (encoded x key) of
             None \<Rightarrow> (key, iv_stamp row) | Some found \<Rightarrow> found) in
        Inr (iv_cursor row,
          bt_ins (encoded x key) (fst entry, max (snd entry) (iv_stamp row)) (snd acc))))))"

definition scan_channel :: "'h host \<Rightarrow> ext \<Rightarrow> config \<Rightarrow> string \<times> nat \<Rightarrow> (string \<times> cursor_range) list \<times> scanned \<Rightarrow>
    ('h, (string \<times> cursor_range) list \<times> scanned) serving" where
  "scan_channel host x c cursor acc = (case cursor of (channel, from_c) \<Rightarrow>
     bindM (server_head host channel)
     (\<lambda>maximum. bindM (liftM (ensure (from_c \<le> maximum)
         (fail_with request_code (''cursor ahead of head on '' @ channel))))
     (\<lambda>_. bindM (ask host (Scan channel from_c pull_changes) scanned_of)
     (\<lambda>rows. bindM (liftM (ensure (length rows \<le> pull_changes) (storage_bad ''invalid scan size'')))
     (\<lambda>_. bindM (liftM (efold (scan_row x c channel maximum) rows (from_c, snd acc)))
     (\<lambda>(previous, records). retM (bt_ins channel \<lparr>c_from = from_c,
          c_to = (if length rows = pull_changes then previous else maximum), c_head = maximum\<rparr> (fst acc),
        records)))))))"

definition refusal_code :: "loaded \<Rightarrow> string" where
  "refusal_code l = (case l of LoadRefused rejection \<Rightarrow> rejection | _ \<Rightarrow> loader_failed)"

definition pulled_state :: "ext \<Rightarrow> schema \<Rightarrow> string \<Rightarrow> json option \<Rightarrow> string + json" where
  "pulled_state x ct model state = ok_or (normalize_loaded x ct model state) loader_code"

text \<open>One record asked for on its own.\<close>

definition load_one :: "'h host \<Rightarrow> ext \<Rightarrow> schema \<Rightarrow> string \<Rightarrow> nat \<Rightarrow> string \<Rightarrow> json \<Rightarrow> (string + json) list \<Rightarrow>
    ('h, (string + json) list) serving" where
  "load_one host x ct model v owner identity each =
     bindM (ask host (Load model v [identity] owner) loaded_of)
     (\<lambda>one. retM (each @ [case one of
         LoadRows [row] \<Rightarrow> pulled_state x ct model row
       | LoadRows _ \<Rightarrow> Inl loader_code
       | refused \<Rightarrow> Inl (refusal_code refused)]))"

definition load_group :: "'h host \<Rightarrow> ext \<Rightarrow> schema \<Rightarrow> string \<Rightarrow> nat \<Rightarrow> string \<Rightarrow> json list \<Rightarrow>
    ('h, (string + json) list) serving" where
  "load_group host x ct model v owner identities =
     bindM (ask host (Load model v identities owner) loaded_of)
     (\<lambda>loaded. case loaded of
         LoadRows rows \<Rightarrow>
           if length rows = length identities then retM (map (pulled_state x ct model) rows)
           else if length identities = 1 then retM [Inl loader_code]
           else foldM (load_one host x ct model v owner) identities []
       | refused \<Rightarrow>
           if length identities = 1 then retM [Inl (refusal_code refused)]
           else foldM (load_one host x ct model v owner) identities [])"

definition undeclared :: "string \<Rightarrow> failure" where
  "undeclared model = (fail_with model_version_code (''model '' @ model @ '' is not declared by the client''))
     \<lparr>fl_details := obj [(''model'', JStr model)]\<rparr>"

definition pull_group :: "'h host \<Rightarrow> ext \<Rightarrow> config \<Rightarrow> (string \<times> nat) list \<Rightarrow> string \<Rightarrow> scanned \<Rightarrow>
    string \<times> string list \<Rightarrow> (string \<times> (string + json)) list \<Rightarrow> ('h, (string \<times> (string + json)) list) serving" where
  "pull_group host x c models owner records g states = (case g of (model, keys) \<Rightarrow>
     bindM (liftM (ok_or (map_of models model) (undeclared model)))
     (\<lambda>v. bindM (liftM (ok_or (contract_of c model v) (not_retained model v)))
     (\<lambda>ct. bindM (liftM (emap (lookup_at records) keys))
     (\<lambda>found. bindM (load_group host x ct model v owner (map (\<lambda>(key, _). k_identity key) found))
     (\<lambda>outcome. retM (fold (\<lambda>(e, state). bt_ins e state) (zip keys outcome) states))))))"

definition pulled_change :: "(string \<times> (string + json)) list \<Rightarrow> string \<times> rkey \<times> nat \<Rightarrow> authority" where
  "pulled_change states = (\<lambda>(e, key, stamp). \<lparr>a_model = k_model key, a_identity = k_identity key,
     a_stamp = stamp,
     a_state = (case map_of states e of Some (Inr state) \<Rightarrow> state | _ \<Rightarrow> JNull),
     a_error = (case map_of states e of Some (Inl code) \<Rightarrow> Some code | _ \<Rightarrow> None)\<rparr>)"

definition process_pull :: "'h host \<Rightarrow> ext \<Rightarrow> config \<Rightarrow> string \<Rightarrow> string \<Rightarrow> ('h, string) serving" where
  "process_pull host x c owner bytes =
     bindM (liftM (principal_ok owner))
     (\<lambda>_. bindM (liftM (sres request_code (pull_decode x bytes)))
     (\<lambda>r. bindM (liftM (check_declared c (l_models r)))
     (\<lambda>_. bindM (foldM (scan_channel host x c) (l_cursors r) ([], []))
     (\<lambda>(cursors, records).
        bindM (foldM (pull_group host x c (l_models r) owner records)
          (group_by_model (map (\<lambda>(e, key, _). (e, key)) records)) [])
        (\<lambda>states. liftM (sres internal_code (page_encode x
          \<lparr>g_cursors = cursors, g_changes = map (pulled_change states) records\<rparr>)))))))"

section \<open>Changes made outside a handler\<close>

definition external_entry :: "(string \<times> nat) list \<Rightarrow> string \<times> rkey \<Rightarrow> json sres" where
  "external_entry stamps = (\<lambda>(e, key). bindE (lookup_at stamps e)
     (\<lambda>stamp. Inr (obj [(''model'', JStr (k_model key)), (''identity'', k_identity key), (''stamp'', jnat stamp)])))"

definition settle_external :: "'h host \<Rightarrow> ext \<Rightarrow> config \<Rightarrow> json \<Rightarrow> ('h, json) serving" where
  "settle_external host x c settlement =
     bindM (liftM (sres publish_code (handled_of settlement)))
     (\<lambda>settled. case settled of
         Settled cs ps \<Rightarrow> bindM (liftM (insert_refs x c cs []))
           (\<lambda>ch. bindM (allocate_stamps host x ch)
           (\<lambda>stamps. bindM (publish_intents host x c ch stamps ps)
           (\<lambda>_. bindM (liftM (emap (external_entry stamps) ch)) (\<lambda>entries. retM (JArr entries)))))
       | _ \<Rightarrow> failM (fail_with publish_code ''an external settlement carries changes and publications''))"

end
