(* ===== verification/Batches.thy ===== *)
theory Batches
  imports Serve
begin

text \<open>
  What a push does to its host, request by request: every mutation between its own savepoint
  and its release, the receipt stored last, and a retry answered from storage.
\<close>

section \<open>The requests a computation makes\<close>

definition logged :: "'h host \<Rightarrow> (host_request list \<times> 'h) host" where
  "logged host rq = (\<lambda>(log, s). case host rq s of (r, t) \<Rightarrow> (r, (log @ [rq], t)))"

definition asks :: "(host_request \<Rightarrow> bool) \<Rightarrow> host_request list \<times> 'h \<Rightarrow> host_request list \<times> 'h \<Rightarrow> bool" where
  "asks P s t \<longleftrightarrow> (\<exists>es. fst t = fst s @ es \<and> (\<forall>e \<in> set es. P e))"

interpretation asking: kept "asks P" for P
proof
  show "asks P s s" for s by (simp add: asks_def)
next
  fix s t u
  assume "asks P s t" and "asks P t u"
  then obtain a b where "fst t = fst s @ a" "fst u = fst t @ b" "\<forall>e \<in> set a. P e" "\<forall>e \<in> set b. P e"
    by (auto simp: asks_def)
  then show "asks P s u" by (auto simp: asks_def intro!: exI [of _ "a @ b"])
qed

lemma ask_log: "ask (logged host) rq d s = (r, t) \<Longrightarrow> fst t = fst s @ [rq]"
  by (auto simp: ask_def logged_def split: prod.splits sum.splits)

lemma keeps_ask: "P rq \<Longrightarrow> keeps (asks P) (ask (logged host) rq d)"
  by (rule keepsI) (auto simp: asks_def dest!: ask_log)

text \<open>Reading back: nothing but loads, stamps and publications.\<close>

fun reading :: "host_request \<Rightarrow> bool" where
  "reading (Load _ _ _ _) = True"
| "reading (AdvanceStamp _ _) = True"
| "reading (EnsureStamp _ _) = True"
| "reading (Publish _ _ _ _ _) = True"
| "reading _ = False"

abbreviation reads :: "(host_request list \<times> 'h, failure, 'a) comp \<Rightarrow> bool" where
  "reads \<equiv> keeps (asks reading)"

lemma allocate_reads: "reads (allocate_stamps (logged host) x ch)"
  unfolding allocate_stamps_def by (intro asking.keeps_rules) (auto intro!: asking.keeps_rules keeps_ask)

lemma publish_reads: "reads (publish_intents (logged host) x c ch stamps ps)"
  unfolding publish_intents_def publish_intent_def publish_member_def publish_one_def Let_def
  by (intro asking.keeps_rules keeps_ask) simp_all

lemma groups_read: "reads (read_groups (logged host) x c owner vs ch stamps groups acc)"
proof (induction "logged host" x c owner vs ch stamps groups acc rule: read_groups.induct)
  case (2 x c owner versions ch stamps model keys groups acc)
  have "reads (case loaded of LoadRefused rejection \<Rightarrow> retM (Refused rejection)
       | LoadFailed _ \<Rightarrow> retM (Refused loader_failed)
       | LoadRows rows \<Rightarrow>
           if length rows \<noteq> length keys then retM (Refused loader_code)
           else bindM (liftM (authority_rows x ct model ch stamps (zip keys rows) acc))
             (\<lambda>out. case out of None \<Rightarrow> retM (Refused loader_code)
               | Some acc' \<Rightarrow> read_groups (logged host) x c owner versions ch stamps groups acc'))" for loaded ct
    by (cases loaded) (auto intro!: asking.keeps_rules 2)
  then show ?case by (auto intro!: asking.keeps_rules keeps_ask)
qed (simp add: asking.keeps_pure)

lemma outcome_reads:
  "(\<And>code. out = Refused code \<Longrightarrow> reads (f code)) \<Longrightarrow> (\<And>rs. out = Records rs \<Longrightarrow> reads (g rs)) \<Longrightarrow>
   reads (case out of Refused code \<Rightarrow> f code | Records rs \<Rightarrow> g rs)"
  by (cases out) simp_all

lemma settle_reads: "reads (settle_handled (logged host) x c declared owner targets h)"
  unfolding settle_handled_def
  by (cases h) (auto simp: read_back_def intro!: asking.keeps_rules outcome_reads allocate_reads publish_reads groups_read)

section \<open>One mutation\<close>

definition bracketed :: "nat \<Rightarrow> bool \<Rightarrow> host_request list \<Rightarrow> bool" where
  "bracketed n undone es \<longleftrightarrow> (\<exists>name v args owner mid.
     es = Savepoint n # Handle name v args owner n # mid @ (if undone then [Rollback n] else []) @ [Release n] \<and>
     (\<forall>e \<in> set mid. reading e))"

text \<open>A mutation is refused before anything is asked, or it is bracketed by its savepoint.\<close>

definition verdict :: "nat \<times> json \<Rightarrow> host_request list \<times> bool \<Rightarrow> bool" where
  "verdict m v \<longleftrightarrow> v = ([], True) \<or> bracketed (fst m) (snd v) (fst v)"

lemma run_mutation_log:
  assumes "run_mutation (logged host) x c declared owner n d args targets acc s = (Inr acc', t)"
  shows "\<exists>es undone. fst t = fst s @ es \<and> bracketed n undone es \<and>
    map j_ordinal (fst acc') = map j_ordinal (fst acc) @ (if undone then [n] else [])"
proof -
  from assms obtain s1 h s2 out s3 s4 where
    s1: "ask (logged host) (Savepoint n) acknowledged s = (Inr (), s1)" and
    s2: "ask (logged host) (Handle (sm_name d) (sm_version d) args owner n) handled_of s1 = (Inr h, s2)" and
    s3: "settle_handled (logged host) x c declared owner targets h s2 = (Inr out, s3)" and
    s4: "(case out of
           Refused code \<Rightarrow> bindM (ask (logged host) (Rollback n) acknowledged) (\<lambda>_. retM (reject n code acc))
         | Records records \<Rightarrow> bindM (liftM (insert_results x c records (snd acc)))
             (\<lambda>results. retM (fst acc, results))) s3 = (Inr acc', s4)" and
    t: "ask (logged host) (Release n) acknowledged s4 = (Inr (), t)"
    unfolding run_mutation_def bindM_ok_iff by fastforce
  from keepsD [OF settle_reads s3] obtain mid where
    mid: "fst s3 = fst s2 @ mid" "\<forall>e \<in> set mid. reading e" by (auto simp: asks_def)
  show ?thesis
  proof (cases out)
    case (Refused code)
    with s4 have "fst s4 = fst s3 @ [Rollback n]" "acc' = reject n code acc"
      by (auto simp: bindM_ok_iff dest: ask_log)
    with ask_log [OF s1] ask_log [OF s2] ask_log [OF t] mid show ?thesis
      by (intro exI [of _ "Savepoint n # Handle (sm_name d) (sm_version d) args owner n # mid @ [Rollback n] @ [Release n]"]
          exI [of _ True]) (auto simp: bracketed_def reject_def)
  next
    case (Records records)
    with s4 have "s4 = s3" "fst acc' = fst acc" by (auto simp: bindM_ok_iff)
    with ask_log [OF s1] ask_log [OF s2] ask_log [OF t] mid show ?thesis
      by (intro exI [of _ "Savepoint n # Handle (sm_name d) (sm_version d) args owner n # mid @ [] @ [Release n]"]
          exI [of _ False]) (auto simp: bracketed_def)
  qed
qed

lemma serve_mutation_log:
  assumes "serve_mutation (logged host) x c declared owner m acc s = (Inr acc', t)"
  shows "\<exists>v. verdict m v \<and> fst t = fst s @ fst v \<and>
    map j_ordinal (fst acc') = map j_ordinal (fst acc) @ (if snd v then [fst m] else [])"
proof (cases "acc' = reject (fst m) mutation_version_code acc \<and> t = s \<or> (\<exists>code. acc' = reject (fst m) code acc \<and> t = s)")
  case True
  then show ?thesis by (intro exI [of _ "([], True)"]) (auto simp: verdict_def reject_def)
next
  case False
  with assms obtain d args targets where
    "run_mutation (logged host) x c declared owner (fst m) d args targets acc s = (Inr acc', t)"
    by (auto simp: serve_mutation_def split: if_splits sum.splits prod.splits)
  from run_mutation_log [OF this] show ?thesis by (fastforce simp: verdict_def)
qed

lemma serve_mutations_log:
  assumes "foldM (serve_mutation (logged host) x c declared owner) ms acc s = (Inr acc', t)"
  shows "\<exists>vs. list_all2 verdict ms vs \<and> fst t = fst s @ concat (map fst vs) \<and>
    map j_ordinal (fst acc') = map j_ordinal (fst acc) @ map (\<lambda>(m, v). fst m) (filter (\<lambda>(m, v). snd v) (zip ms vs))"
  using assms
proof (induction ms arbitrary: acc s)
  case Nil
  then show ?case by (intro exI [of _ "[]"]) simp
next
  case (Cons m ms)
  from Cons.prems obtain acc1 s1 where one: "serve_mutation (logged host) x c declared owner m acc s = (Inr acc1, s1)"
    and more: "foldM (serve_mutation (logged host) x c declared owner) ms acc1 s1 = (Inr acc', t)"
    by (auto simp: bindM_ok_iff)
  from serve_mutation_log [OF one] obtain v where v: "verdict m v" "fst s1 = fst s @ fst v"
    "map j_ordinal (fst acc1) = map j_ordinal (fst acc) @ (if snd v then [fst m] else [])" by blast
  from Cons.IH [OF more] obtain vs where vs: "list_all2 verdict ms vs" "fst t = fst s1 @ concat (map fst vs)"
    "map j_ordinal (fst acc') = map j_ordinal (fst acc1) @ map (\<lambda>(m, v). fst m) (filter (\<lambda>(m, v). snd v) (zip ms vs))" by blast
  from v vs show ?case by (intro exI [of _ "v # vs"]) simp
qed

section \<open>The batch\<close>

lemma ask_logged: "ask (logged host) rq d (log, s) = (case ask host rq d s of (r, t) \<Rightarrow> (r, (log @ [rq], t)))"
  by (auto simp: ask_def logged_def split: prod.splits sum.splits)

text \<open>
  C3: what a push asks of its host. An answered push is either a retry, answered with the
  receipt stored for exactly this batch and with no other request than the claim; or the next
  batch of this client: after the claim each mutation is refused without any request or runs
  between its own savepoint and release, with its rollback exactly when it is refused; then
  the receipt is stored, last, and it is the text answered, for this client and batch, with a
  rejection for exactly the refused mutations, in order.
\<close>

theorem push_is_bracketed:
  assumes "process_push (logged host) x c owner bytes ([], s) = (Inr text, (log, t))"
  shows "\<exists>r locked u. push_decode x bytes = Inr r \<and> ask host (Claim owner (u_client r)) claimed_of s = (Inr locked, u) \<and>
    cm_client locked = u_client r \<and> cm_owner locked = owner \<and>
    (log = [Claim owner (u_client r)] \<and> cm_sequence locked = u_batch r \<and> cm_receipt locked = Some text \<and> t = u \<or>
     cm_sequence locked + 1 = u_batch r \<and>
     (\<exists>vs rejections records. list_all2 verdict (u_mutations r) vs \<and>
        log = Claim owner (u_client r) # concat (map fst vs) @ [SaveReceipt owner (u_client r) (u_batch r) text] \<and>
        map j_ordinal rejections = map (\<lambda>(m, v). fst m) (filter (\<lambda>(m, v). snd v) (zip (u_mutations r) vs)) \<and>
        receipt_encode x \<lparr>p_client = u_client r, p_batch = u_batch r, p_rejections = rejections,
          p_records = records\<rparr> = Inr text))"
proof -
  from assms obtain r locked s1 where r: "push_decode x bytes = Inr r"
    and claim: "ask (logged host) (Claim owner (u_client r)) claimed_of ([], s) = (Inr locked, s1)"
    and seq: "sequence_batch (logged host) x c owner r locked s1 = (Inr text, (log, t))"
    by (auto simp: process_push_def bindM_ok_iff sres_Inr_iff)
  from claim obtain u where u: "ask host (Claim owner (u_client r)) claimed_of s = (Inr locked, u)"
    "s1 = ([Claim owner (u_client r)], u)" by (auto simp: ask_logged split: prod.splits)
  from seq have own: "cm_client locked = u_client r" "cm_owner locked = owner"
    by (auto simp: sequence_batch_def split: if_splits)
  show ?thesis
  proof (cases "u_batch r = cm_sequence locked")
    case True
    with seq own have "cm_receipt locked = Some text \<and> s1 = (log, t)"
      by (auto simp: sequence_batch_def res_elims)
    with True r u own show ?thesis by auto
  next
    case False
    with seq own have next_b: "u_batch r = cm_sequence locked + 1"
      and ans: "answer_batch (logged host) x c owner r s1 = (Inr text, (log, t))"
      by (auto simp: sequence_batch_def split: if_splits)
    from ans obtain rejections results s2 where
      run: "foldM (serve_mutation (logged host) x c (u_models r) owner) (u_mutations r) ([], []) s1 = (Inr (rejections, results), s2)"
      and enc: "sres internal_code (receipt_encode x \<lparr>p_client = u_client r, p_batch = u_batch r,
          p_rejections = rejections, p_records = map snd results\<rparr>) = Inr text"
      and save: "ask (logged host) (SaveReceipt owner (u_client r) (u_batch r) text) acknowledged s2 = (Inr (), (log, t))"
      by (auto simp: answer_batch_def bindM_ok_iff)
    from serve_mutations_log [OF run] obtain vs where vs: "list_all2 verdict (u_mutations r) vs"
      "fst s2 = fst s1 @ concat (map fst vs)"
      "map j_ordinal rejections = map (\<lambda>(m, v). fst m) (filter (\<lambda>(m, v). snd v) (zip (u_mutations r) vs))" by auto
    note e = enc [unfolded sres_Inr_iff]
    from vs(2) ask_log [OF save] u(2) have "log = Claim owner (u_client r) # concat (map fst vs) @
        [SaveReceipt owner (u_client r) (u_batch r) text]" by simp
    with next_b vs(1,3) e r u own show ?thesis by auto
  qed
qed

section \<open>Retries\<close>

text \<open>
  What storage documents: a claim reports the last receipt saved for this client, and goes on
  reporting it until another is saved.
\<close>

definition claims_last :: "'h host \<Rightarrow> string \<Rightarrow> string \<Rightarrow> nat \<Rightarrow> string \<Rightarrow> 'h \<Rightarrow> bool" where
  "claims_last host owner client n text s \<longleftrightarrow> (case ask host (Claim owner client) claimed_of s of
     (Inr locked, _) \<Rightarrow> locked = \<lparr>cm_client = client, cm_owner = owner, cm_sequence = n, cm_receipt = Some text\<rparr>
   | _ \<Rightarrow> False)"

definition remembers :: "'h host \<Rightarrow> bool" where
  "remembers host \<longleftrightarrow> (\<forall>owner client n text s t.
     (ask host (SaveReceipt owner client n text) acknowledged s = (Inr (), t) \<longrightarrow> claims_last host owner client n text t) \<and>
     (\<forall>r. claims_last host owner client n text s \<and> host (Claim owner client) s = (r, t) \<longrightarrow>
        claims_last host owner client n text t))"

lemma claims_lastD:
  assumes "claims_last host owner client n text s"
  obtains t where "ask host (Claim owner client) claimed_of s =
    (Inr \<lparr>cm_client = client, cm_owner = owner, cm_sequence = n, cm_receipt = Some text\<rparr>, t)"
  using assms by (auto simp: claims_last_def split: prod.splits sum.splits)

lemma ask_state: "ask host rq d s = (r, t) \<Longrightarrow> \<exists>q. host rq s = (q, t)"
  by (auto simp: ask_def split: prod.splits sum.splits)

lemma retry_answer:
  assumes "principal_ok owner = Inr ()" and "push_decode x bytes = Inr r"
    and "claims_last host owner (u_client r) (u_batch r) text s" and "remembers host"
  shows "\<exists>t. process_push host x c owner bytes s = (Inr text, t) \<and> claims_last host owner (u_client r) (u_batch r) text t"
proof -
  from assms(3) obtain t where t: "ask host (Claim owner (u_client r)) claimed_of s =
    (Inr \<lparr>cm_client = u_client r, cm_owner = owner, cm_sequence = u_batch r, cm_receipt = Some text\<rparr>, t)"
    by (rule claims_lastD)
  with assms(1,2) have "process_push host x c owner bytes s = (Inr text, t)"
    by (simp add: process_push_def sres_def sequence_batch_def)
  moreover have "claims_last host owner (u_client r) (u_batch r) text t"
    using ask_state [OF t] assms(3,4) by (auto simp: remembers_def)
  ultimately show ?thesis by blast
qed

lemma answered_is_stored:
  assumes "process_push host x c owner bytes s = (Inr text, t)" and "remembers host"
  shows "\<exists>r. principal_ok owner = Inr () \<and> push_decode x bytes = Inr r \<and>
    claims_last host owner (u_client r) (u_batch r) text t"
proof -
  from assms(1) obtain r locked u where p: "principal_ok owner = Inr ()" and r: "push_decode x bytes = Inr r"
    and claim: "ask host (Claim owner (u_client r)) claimed_of s = (Inr locked, u)"
    and seq: "sequence_batch host x c owner r locked u = (Inr text, t)"
    by (auto simp: process_push_def bindM_ok_iff sres_Inr_iff)
  have "claims_last host owner (u_client r) (u_batch r) text t"
  proof (cases "u_batch r = cm_sequence locked")
    case True
    with seq have l: "locked = \<lparr>cm_client = u_client r, cm_owner = owner, cm_sequence = u_batch r, cm_receipt = Some text\<rparr>" "t = u"
      by (cases locked, auto simp: sequence_batch_def res_elims split: if_splits)+
    with claim have "claims_last host owner (u_client r) (u_batch r) text s" by (simp add: claims_last_def)
    with ask_state [OF claim] l(2) assms(2) show ?thesis by (auto simp: remembers_def)
  next
    case False
    with seq obtain s2 where "ask host (SaveReceipt owner (u_client r) (u_batch r) text) acknowledged s2 = (Inr (), t)"
      by (auto simp: sequence_batch_def answer_batch_def bindM_ok_iff split: if_splits)
    with assms(2) show ?thesis unfolding remembers_def by blast
  qed
  with p r show ?thesis by blast
qed

text \<open>
  C4: a push is idempotent. Over a host that keeps its documented storage contract, a request
  that was answered once is answered with the same text every time it is delivered again, and
  none of these deliveries asks the host for anything but the claim: no handler, loader, stamp
  or publication runs a second time.
\<close>

theorem push_is_idempotent:
  assumes "process_push host x c owner bytes s = (Inr text, t)" and "remembers host"
  shows "(let again = (\<lambda>s. process_push (logged host) x c owner bytes s) in
     \<exists>r. push_decode x bytes = Inr r \<and> (\<forall>k. fst (again (((snd \<circ> again) ^^ k) ([], t))) = Inr text \<and>
       fst (((snd \<circ> again) ^^ k) ([], t)) = replicate k (Claim owner (u_client r))))"
proof -
  let ?again = "\<lambda>s. process_push (logged host) x c owner bytes s"
  from answered_is_stored [OF assms] obtain r where p: "principal_ok owner = Inr ()"
    and r: "push_decode x bytes = Inr r" and stored: "claims_last host owner (u_client r) (u_batch r) text t" by blast
  have once: "\<exists>u. ?again (log, s) = (Inr text, (log @ [Claim owner (u_client r)], u)) \<and>
      claims_last host owner (u_client r) (u_batch r) text u"
    if "claims_last host owner (u_client r) (u_batch r) text s" for log s
  proof -
    from that obtain u where u: "ask host (Claim owner (u_client r)) claimed_of s =
      (Inr \<lparr>cm_client = u_client r, cm_owner = owner, cm_sequence = u_batch r, cm_receipt = Some text\<rparr>, u)"
      by (rule claims_lastD)
    with p r have "?again (log, s) = (Inr text, (log @ [Claim owner (u_client r)], u))"
      by (simp add: process_push_def sres_def ask_logged bindM_def sequence_batch_def)
    moreover have "claims_last host owner (u_client r) (u_batch r) text u"
      using ask_state [OF u] that assms(2) by (auto simp: remembers_def)
    ultimately show ?thesis by blast
  qed
  have all: "\<exists>u. ((snd \<circ> ?again) ^^ k) ([], t) = (replicate k (Claim owner (u_client r)), u) \<and>
      claims_last host owner (u_client r) (u_batch r) text u" for k
  proof (induction k)
    case 0
    from stored show ?case by simp
  next
    case (Suc k)
    then obtain u where u: "((snd \<circ> ?again) ^^ k) ([], t) = (replicate k (Claim owner (u_client r)), u)"
      "claims_last host owner (u_client r) (u_batch r) text u" by blast
    from once [OF u(2), of "replicate k (Claim owner (u_client r))"] obtain v where
      v: "?again (((snd \<circ> ?again) ^^ k) ([], t)) = (Inr text, (replicate (Suc k) (Claim owner (u_client r)), v))"
      "claims_last host owner (u_client r) (u_batch r) text v"
      by (auto simp: u(1) replicate_append_same)
    have "((snd \<circ> ?again) ^^ Suc k) ([], t) = snd (?again (((snd \<circ> ?again) ^^ k) ([], t)))"
      by (simp only: funpow.simps comp_apply)
    with v show ?case by (simp only: snd_conv) blast
  qed
  have "fst (?again (((snd \<circ> ?again) ^^ k) ([], t))) = Inr text \<and>
      fst (((snd \<circ> ?again) ^^ k) ([], t)) = replicate k (Claim owner (u_client r))" for k
  proof -
    from all [of k] obtain u where u: "((snd \<circ> ?again) ^^ k) ([], t) = (replicate k (Claim owner (u_client r)), u)"
      "claims_last host owner (u_client r) (u_batch r) text u" by blast
    from once [OF u(2), of "replicate k (Claim owner (u_client r))"] show ?thesis by (auto simp only: u(1) fst_conv)
  qed
  with r show ?thesis unfolding Let_def by blast
qed

end
