(* ===== verification/Service.thy ===== *)
theory Service
  imports Serve Downlink
begin

text \<open>
  A served page: it answers the request, it is well formed, and it brings every channel it names
  to its head or at least fifty changes forward, so catching up ends.
\<close>

section \<open>One channel\<close>

lemma scan_rows_forward:
  assumes "efold (scan_row x c channel maximum) rows acc = Inr acc'"
  shows "fst acc + length rows \<le> fst acc' \<and> (fst acc \<le> maximum \<longrightarrow> fst acc' \<le> maximum)"
  using assms
proof (induction rows arbitrary: acc)
  case Nil
  then show ?case by simp
next
  case (Cons row rows)
  from Cons.prems obtain b where b: "scan_row x c channel maximum row acc = Inr b"
    "efold (scan_row x c channel maximum) rows b = Inr acc'" by (auto simp: bindE_Inr_iff)
  from b(1) have "fst acc < fst b" "fst b \<le> maximum" by (auto simp: scan_row_def res_elims Let_def)
  with Cons.IH [OF b(2)] show ?case by auto
qed

definition range_served :: "nat \<Rightarrow> cursor_range \<Rightarrow> bool" where
  "range_served from_c rg \<longleftrightarrow> c_from rg = from_c \<and> c_from rg \<le> c_to rg \<and> c_to rg \<le> c_head rg \<and>
     (continues rg \<longrightarrow> c_from rg + pull_changes \<le> c_to rg)"

lemma scan_channel_range:
  assumes "scan_channel host x c (channel, from_c) acc s = (Inr acc', t)"
  shows "\<exists>rg. fst acc' = bt_ins channel rg (fst acc) \<and> range_served from_c rg"
proof -
  from assms obtain maximum rows previous records s1 s2 where
    le: "from_c \<le> maximum" and "server_head host channel s = (Inr maximum, s1)"
    and "ask host (Scan channel from_c pull_changes) scanned_of s1 = (Inr rows, s2)"
    and rows: "efold (scan_row x c channel maximum) rows (from_c, snd acc) = Inr (previous, records)"
    and acc': "acc' = (bt_ins channel \<lparr>c_from = from_c,
          c_to = (if length rows = pull_changes then previous else maximum), c_head = maximum\<rparr> (fst acc), records)"
    by (auto simp: scan_channel_def bindM_ok_iff res_elims split: prod.splits)
  from scan_rows_forward [OF rows] le show ?thesis
    by (auto simp: acc' range_served_def continues_def)
qed

lemma scan_channels_ranges:
  assumes "foldM (scan_channel host x c) cs acc s = (Inr acc', t)"
  shows "\<exists>rgs. length rgs = length cs \<and> fst acc' = fold (\<lambda>(n, rg). bt_ins n rg) (zip (map fst cs) rgs) (fst acc) \<and>
    list_all2 (\<lambda>k rg. range_served (snd k) rg) cs rgs"
  using assms
proof (induction cs arbitrary: acc s)
  case Nil
  then show ?case by simp
next
  case (Cons k cs)
  obtain channel from_c where k: "k = (channel, from_c)" by fastforce
  from Cons.prems obtain b u where b: "scan_channel host x c (channel, from_c) acc s = (Inr b, u)"
    "foldM (scan_channel host x c) cs b u = (Inr acc', t)" by (auto simp: k bindM_ok_iff)
  from scan_channel_range [OF b(1)] obtain rg where "fst b = bt_ins channel rg (fst acc)" "range_served from_c rg" by blast
  moreover from Cons.IH [OF b(2)] obtain rgs where "length rgs = length cs"
    "fst acc' = fold (\<lambda>(n, rg). bt_ins n rg) (zip (map fst cs) rgs) (fst b)"
    "list_all2 (\<lambda>k rg. range_served (snd k) rg) cs rgs" by blast
  ultimately show ?case by (intro exI [of _ "rg # rgs"]) (simp add: k)
qed

section \<open>The page\<close>

text \<open>
  C5: a served page answers its request. When a pull is answered, the text is the encoding of a
  well-formed page that the client accepts as the answer of exactly this request: the channels
  asked for, each from the cursor asked. Every channel the page does not bring to its head moves
  at least fifty changes forward, so a client that pulls again while a page continues stops.
\<close>

theorem pull_answers_request:
  assumes "process_pull host x c owner bytes s = (Inr text, t)"
  shows "\<exists>r p. pull_decode x bytes = Inr r \<and> page_encode x p = Inr text \<and> page_ok x p \<and> answers p r \<and>
    bt_keys (g_cursors p) = bt_keys (l_cursors r) \<and>
    (\<forall>(n, rg) \<in> set (g_cursors p). continues rg \<longrightarrow> c_from rg + 50 \<le> c_to rg) \<and>
    (canonical_ok x (page_json p) \<longrightarrow> page_decode x text = Inr p)"
proof -
  from assms obtain r s1 cursors records s2 states where r: "pull_decode x bytes = Inr r"
    and run: "foldM (scan_channel host x c) (l_cursors r) ([], []) s1 = (Inr (cursors, records), s2)"
    and enc: "page_encode x \<lparr>g_cursors = cursors, g_changes = map (pulled_change states) records\<rparr> = Inr text"
    by (auto simp: process_pull_def bindM_ok_iff sres_Inr_iff)
  let ?p = "\<lparr>g_cursors = cursors, g_changes = map (pulled_change states) records\<rparr>"
  have sorted: "bt_ok (l_cursors r)"
    using r by (auto simp: pull_decode_def res_elims dest: read_cursors_ok simp: counters_ok_def)
  from scan_channels_ranges [OF run] obtain rgs where rgs: "length rgs = length (l_cursors r)"
    "cursors = fold (\<lambda>(n, rg). bt_ins n rg) (zip (map fst (l_cursors r)) rgs) []"
    "list_all2 (\<lambda>k rg. range_served (snd k) rg) (l_cursors r) rgs" by auto
  have keys: "map fst (zip (map fst (l_cursors r)) rgs) = map fst (l_cursors r)" using rgs(1) by simp
  with sorted have "bt_ok (zip (map fst (l_cursors r)) rgs)" unfolding bt_ok_def by (simp only:)
  with rgs(2) have cs: "cursors = zip (map fst (l_cursors r)) rgs" "bt_ok cursors"
    using bt_of_sorted [of "zip (map fst (l_cursors r)) rgs"] by (simp_all add: bt_of_def)
  have each: "map_of (l_cursors r) n = Some (c_from rg) \<and> (continues rg \<longrightarrow> c_from rg + 50 \<le> c_to rg)"
    if "(n, rg) \<in> set cursors" for n rg
  proof -
    from that cs(1) obtain i where i: "i < length (l_cursors r)" "n = fst (l_cursors r ! i)" "rg = rgs ! i"
      by (auto simp: set_zip)
    with rgs(3) have "range_served (snd (l_cursors r ! i)) rg" by (auto simp: list_all2_conv_all_nth)
    moreover have "map_of (l_cursors r) n = Some (snd (l_cursors r ! i))"
      using bt_ok_distinct [OF sorted] i by (simp add: map_of_is_SomeI)
    ultimately show ?thesis by (auto simp: range_served_def pull_changes_def)
  qed
  have "page_ok x ?p" using enc by (auto simp: page_encode_def res_elims page_validate_iff)
  moreover have "answers ?p r" using each cs(1) rgs(1) by (auto simp: answers_def)
  moreover have "bt_keys (g_cursors ?p) = bt_keys (l_cursors r)" using keys by (simp add: bt_keys_def cs(1))
  moreover have "canonical_ok x (page_json ?p) \<Longrightarrow> page_decode x text = Inr ?p"
    using page_decoded [OF enc] cs(2) by simp
  ultimately show ?thesis using r enc each by (intro exI [of _ r] exI [of _ ?p]) auto
qed

end
