(* ===== verification/Subscriptions.thy ===== *)
theory Subscriptions
  imports Serve
begin

text \<open>
  The server's side of a live connection (\<open>crates/server/src/live.rs\<close>): negotiation, the check of
  a page against the cursors it was asked for, and the per-socket state machine, with what makes
  it correct over every sequence of events.
\<close>

section \<open>Negotiation and pages\<close>

record negotiation =
  ng_response :: string
  ng_heads :: "(string \<times> nat) list"
  ng_models :: "(string \<times> nat) list"

definition negotiate :: "'h host \<Rightarrow> ext \<Rightarrow> config \<Rightarrow> string \<Rightarrow> string \<Rightarrow> ('h, negotiation) serving" where
  "negotiate host x c owner bytes =
     bindM (liftM (principal_ok owner))
     (\<lambda>_. bindM (liftM (sres request_code (subscribe_decode x bytes)))
     (\<lambda>r. bindM (liftM (check_declared c (b_models r)))
     (\<lambda>_. bindM (foldM (\<lambda>channel heads. bindM (server_head host channel)
           (\<lambda>n. retM (bt_ins channel n heads))) (b_channels r) [])
     (\<lambda>heads. bindM (liftM (sres internal_code (ack_new heads)))
     (\<lambda>ack. retM \<lparr>ng_response = ack_encode x ack, ng_heads = heads, ng_models = b_models r\<rparr>)))))"

record page_progress =
  pp_page :: string
  pp_cursors :: "(string \<times> cursor_range) list"

definition page_invalid :: "string \<Rightarrow> failure" where
  "page_invalid message = fail_with ''live.invalid_page'' message"

definition progress_of :: "ext \<Rightarrow> string \<Rightarrow> (string \<times> nat) list \<Rightarrow> page_progress sres" where
  "progress_of x page expected =
     bindE (case page_decode x page of
         Inl e \<Rightarrow> Inl (page_invalid (''invalid live page: '' @ err_text e)) | Inr p \<Rightarrow> Inr p)
     (\<lambda>p. bindE (ensure (bt_keys (g_cursors p) = bt_keys expected) (page_invalid ''invalid live page channels''))
     (\<lambda>_. bindE (echeck (\<lambda>(channel, rg). bindE (lookup_at expected channel)
           (\<lambda>n. ensure (c_from rg = n) (page_invalid (''invalid live page progression on '' @ channel))))
         (g_cursors p))
     (\<lambda>_. Inr \<lparr>pp_page = page, pp_cursors = g_cursors p\<rparr>)))"

definition server_pull :: "'h host \<Rightarrow> ext \<Rightarrow> config \<Rightarrow> string \<Rightarrow> (string \<times> nat) list \<Rightarrow> (string \<times> nat) list \<Rightarrow>
    ('h, page_progress) serving" where
  "server_pull host x c owner cursors models =
     bindM (liftM (sres request_code (pull_encode x \<lparr>l_models = models, l_cursors = cursors\<rparr>)))
     (\<lambda>request. bindM (process_pull host x c owner request)
     (\<lambda>page. liftM (progress_of x page cursors)))"

section \<open>The session of a socket\<close>

datatype socket_event = Committed string | Pulled string | SocketClosed

datatype socket_action =
    Listen string
  | Send string
  | Pull "(string \<times> nat) list" "(string \<times> nat) list"

record scope_state =
  ss_scope :: string
  ss_cursor :: nat
  ss_pending :: bool

record socket_session =
  sb_scopes :: "scope_state list"
  sb_running :: "(string \<times> nat) list option"
  sb_closed :: bool
  sb_models :: "(string \<times> nat) list"

definition open_socket :: "negotiation \<Rightarrow> socket_session \<times> socket_action list" where
  "open_socket n = (let scopes = map (\<lambda>(scope, h). \<lparr>ss_scope = scope, ss_cursor = h, ss_pending = False\<rparr>) (ng_heads n);
       cursors = fold (\<lambda>s. bt_ins (ss_scope s) (ss_cursor s)) scopes [] in
     (\<lparr>sb_scopes = scopes, sb_running = Some cursors, sb_closed = False, sb_models = ng_models n\<rparr>,
      map (\<lambda>s. Listen (ss_scope s)) scopes @ [Send (ng_response n), Pull cursors (ng_models n)]))"

definition event_invalid :: "string \<Rightarrow> failure" where
  "event_invalid message = fail_with ''live.invalid_event'' message"

text \<open>\<open>scope_mut\<close> and the change made through it: the first state of that scope.\<close>

fun change_scope :: "string \<Rightarrow> (scope_state \<Rightarrow> scope_state) \<Rightarrow> scope_state list \<Rightarrow> scope_state list option" where
  "change_scope name f [] = None"
| "change_scope name f (s # ss) =
     (if ss_scope s = name then Some (f s # ss)
      else map_option (\<lambda>rest. s # rest) (change_scope name f ss))"

definition scope_mut :: "string \<Rightarrow> (scope_state \<Rightarrow> scope_state) \<Rightarrow> (socket_session, failure, unit) comp" where
  "scope_mut name f sub = (case change_scope name f (sb_scopes sub) of
     None \<Rightarrow> (Inl (event_invalid (''scope '' @ name @ '' is not subscribed'')), sub)
   | Some scopes \<Rightarrow> (Inr (), sub\<lparr>sb_scopes := scopes\<rparr>))"

definition pending_cursors :: "scope_state list \<Rightarrow> (string \<times> nat) list" where
  "pending_cursors ss =
     (let pending = bs_of (map ss_scope (filter ss_pending ss)) in
      fold (\<lambda>s m. if ss_scope s \<in> set pending then bt_ins (ss_scope s) (ss_cursor s) m else m) ss [])"

definition drained_scopes :: "scope_state list \<Rightarrow> scope_state list" where
  "drained_scopes ss =
     (let pending = bs_of (map ss_scope (filter ss_pending ss)) in
      map (\<lambda>s. if ss_scope s \<in> set pending then s\<lparr>ss_pending := False\<rparr> else s) ss)"

definition next_pull :: "(socket_session, failure, socket_action list) comp" where
  "next_pull sub =
     (if \<not> list_ex ss_pending (sb_scopes sub) then (Inr [], sub)
      else let cursors = pending_cursors (sb_scopes sub) in
        (Inr [Pull cursors (sb_models sub)],
         sub\<lparr>sb_scopes := drained_scopes (sb_scopes sub), sb_running := Some cursors\<rparr>))"

definition advance_scope :: "string \<times> cursor_range \<Rightarrow> (socket_session, failure, unit) comp" where
  "advance_scope = (\<lambda>(scope, rg). scope_mut scope
     (\<lambda>s. s\<lparr>ss_cursor := c_to rg, ss_pending := ss_pending s \<or> continues rg\<rparr>))"

definition pulled_page :: "ext \<Rightarrow> string \<Rightarrow> (string \<times> nat) list \<Rightarrow> (socket_session, failure, socket_action list) comp" where
  "pulled_page x page asked =
     bindM (liftM (progress_of x page asked))
     (\<lambda>progress. bindM (forM advance_scope (pp_cursors progress))
     (\<lambda>_. bindM next_pull
     (\<lambda>pulls. retM ((if \<exists>(_, rg) \<in> set (pp_cursors progress). c_from rg < c_to rg
         then [Send (pp_page progress)] else []) @ pulls))))"

fun handle_event :: "ext \<Rightarrow> socket_event \<Rightarrow> (socket_session, failure, socket_action list) comp" where
  "handle_event x (Committed scope) =
     bindM (scope_mut scope (\<lambda>s. s\<lparr>ss_pending := True\<rparr>))
     (\<lambda>_. bindM (getsM (\<lambda>sub. sb_closed sub \<or> sb_running sub \<noteq> None))
     (\<lambda>busy. if busy then retM [] else next_pull))"
| "handle_event x (Pulled page) =
     bindM (getsM sb_running)
     (\<lambda>running. case running of
         None \<Rightarrow> failM (event_invalid ''no pull is outstanding'')
       | Some asked \<Rightarrow> bindM (modifyM (\<lambda>sub. sub\<lparr>sb_running := None\<rparr>))
         (\<lambda>_. bindM (getsM sb_closed)
         (\<lambda>closed. if closed then retM [] else pulled_page x page asked)))"
| "handle_event x SocketClosed =
     bindM (modifyM (\<lambda>sub. sub\<lparr>sb_closed := True,
       sb_scopes := map (\<lambda>s. s\<lparr>ss_pending := False\<rparr>) (sb_scopes sub)\<rparr>))
     (\<lambda>_. retM [])"

text \<open>A session over the events the host reports, with everything it asks for.\<close>

fun socket_run :: "ext \<Rightarrow> socket_event list \<Rightarrow> (socket_session, failure, socket_action list) comp" where
  "socket_run x [] = retM []"
| "socket_run x (e # es) =
     bindM (handle_event x e) (\<lambda>acts. bindM (socket_run x es) (\<lambda>rest. retM (acts @ rest)))"

end
