(* ===== verification/Sockets.thy ===== *)
theory Sockets
  imports Subscriptions
begin

text \<open>
  What holds of a socket's session over every sequence of events its host reports: one pull at a
  time, at the cursors streamed so far, frames that join without a gap, and no commit forgotten.
\<close>

section \<open>Scopes\<close>

definition cursors_of :: "scope_state list \<Rightarrow> string \<rightharpoonup> nat" where
  "cursors_of ss = map_of (map (\<lambda>s. (ss_scope s, ss_cursor s)) ss)"

definition pending_at :: "string \<Rightarrow> scope_state list \<Rightarrow> bool" where
  "pending_at n ss \<longleftrightarrow> (\<exists>s \<in> set ss. ss_scope s = n \<and> ss_pending s)"

lemma change_scope_split:
  "change_scope n f ss = Some ss' \<Longrightarrow>
   \<exists>as s bs. ss = as @ s # bs \<and> ss_scope s = n \<and> n \<notin> ss_scope ` set as \<and> ss' = as @ f s # bs"
proof (induction n f ss arbitrary: ss' rule: change_scope.induct)
  case (2 name f s ss)
  show ?case
  proof (cases "ss_scope s = name")
    case True
    with 2(2) show ?thesis by force
  next
    case False
    with 2(2) obtain rest where r: "change_scope name f ss = Some rest" "ss' = s # rest" by auto
    from 2(1) [OF False r(1)] obtain as t bs where
      "ss = as @ t # bs" "ss_scope t = name" "name \<notin> ss_scope ` set as" "rest = as @ f t # bs" by blast
    with False r(2) show ?thesis by (intro exI [of _ "s # as"]) auto
  qed
qed simp

text \<open>A change through \<open>scope_mut\<close> that keeps names and never clears a flag.\<close>

lemma change_scope_Some:
  assumes "change_scope n f ss = Some ss'"
    and "\<And>s. ss_scope (f s) = ss_scope s" and "\<And>s. ss_pending s \<Longrightarrow> ss_pending (f s)"
  shows "map ss_scope ss' = map ss_scope ss"
    and "\<exists>s \<in> set ss. ss_scope s = n \<and> f s \<in> set ss' \<and> cursors_of ss n = Some (ss_cursor s) \<and>
      cursors_of ss' = (cursors_of ss)(n \<mapsto> ss_cursor (f s))"
    and "pending_at m ss \<Longrightarrow> pending_at m ss'"
proof -
  from change_scope_split [OF assms(1)] obtain as s bs where
    sp: "ss = as @ s # bs" "ss_scope s = n" "n \<notin> ss_scope ` set as" "ss' = as @ f s # bs" by blast
  show "map ss_scope ss' = map ss_scope ss" by (simp add: sp assms(2))
  have "map_of (map (\<lambda>s. (ss_scope s, ss_cursor s)) as) n = None"
    using sp(3) by (force simp: map_of_eq_None_iff)
  then show "\<exists>s \<in> set ss. ss_scope s = n \<and> f s \<in> set ss' \<and> cursors_of ss n = Some (ss_cursor s) \<and>
      cursors_of ss' = (cursors_of ss)(n \<mapsto> ss_cursor (f s))"
    using sp by (intro bexI [of _ s]) (auto simp: cursors_of_def assms(2) map_add_def fun_eq_iff split: option.splits)
  show "pending_at m ss \<Longrightarrow> pending_at m ss'"
    using sp assms(2,3) by (auto simp: pending_at_def)
qed

lemma mark_scope:
  assumes "change_scope n (\<lambda>s. s\<lparr>ss_pending := True\<rparr>) ss = Some ss'"
  shows "map ss_scope ss' = map ss_scope ss" and "cursors_of ss' = cursors_of ss"
    and "pending_at n ss'" and "pending_at m ss \<Longrightarrow> pending_at m ss'"
proof -
  show "map ss_scope ss' = map ss_scope ss" by (rule change_scope_Some(1) [OF assms]) simp_all
  show "pending_at m ss'" if "pending_at m ss" by (rule change_scope_Some(3) [OF assms _ _ that]) simp_all
  have "\<exists>s \<in> set ss. ss_scope s = n \<and> s\<lparr>ss_pending := True\<rparr> \<in> set ss' \<and> cursors_of ss n = Some (ss_cursor s) \<and>
      cursors_of ss' = (cursors_of ss)(n \<mapsto> ss_cursor (s\<lparr>ss_pending := True\<rparr>))"
    by (rule change_scope_Some(2) [OF assms]) simp_all
  then obtain s where s: "s\<lparr>ss_pending := True\<rparr> \<in> set ss'" "ss_scope s = n" "cursors_of ss n = Some (ss_cursor s)"
    "cursors_of ss' = (cursors_of ss)(n \<mapsto> ss_cursor (s\<lparr>ss_pending := True\<rparr>))" by blast
  show "cursors_of ss' = cursors_of ss" using s(3,4) by (simp add: fun_upd_idem)
  show "pending_at n ss'" unfolding pending_at_def using s(1,2) by (intro bexI [OF _ s(1)]) simp
qed

lemma scope_mut_ok:
  "scope_mut n f sub = (Inr u, sub') \<longleftrightarrow>
   (\<exists>ss'. change_scope n f (sb_scopes sub) = Some ss' \<and> sub' = sub\<lparr>sb_scopes := ss'\<rparr>)"
  by (auto simp: scope_mut_def split: option.splits)

lemma fold_if_bt_ins:
  "fold (\<lambda>s m. if P s then bt_ins (k s) (v s) m else m) ss m =
   fold (\<lambda>(a, b). bt_ins a b) (map (\<lambda>s. (k s, v s)) (filter P ss)) m"
  by (induction ss arbitrary: m) auto

lemma distinct_name: "distinct (map ss_scope ss) \<Longrightarrow> s \<in> set ss \<Longrightarrow> t \<in> set ss \<Longrightarrow> ss_scope s = ss_scope t \<Longrightarrow> s = t"
  by (auto simp: distinct_map dest: inj_onD)

lemma pending_cursors_eq:
  assumes "distinct (map ss_scope ss)"
  shows "pending_cursors ss = bt_of (map (\<lambda>s. (ss_scope s, ss_cursor s)) (filter ss_pending ss))"
proof -
  have "filter (\<lambda>s. ss_scope s \<in> ss_scope ` {s \<in> set ss. ss_pending s}) ss = filter ss_pending ss"
    using distinct_name [OF assms] by (intro filter_cong) auto
  then show ?thesis
    by (simp add: pending_cursors_def fold_if_bt_ins bt_of_def)
qed

lemma pending_cursors_at:
  assumes "distinct (map ss_scope ss)"
  shows "bt_ok (pending_cursors ss)" and "map_of (pending_cursors ss) \<subseteq>\<^sub>m cursors_of ss"
    and "fst ` set (pending_cursors ss) = {n. pending_at n ss}"
proof -
  let ?kvs = "map (\<lambda>s. (ss_scope s, ss_cursor s)) (filter ss_pending ss)"
  show "bt_ok (pending_cursors ss)" by (simp add: pending_cursors_eq [OF assms])
  have "distinct (map fst ?kvs)" using assms by (simp add: comp_def distinct_map_filter)
  then have "map_of (pending_cursors ss) = map_of ?kvs"
    by (simp add: pending_cursors_eq [OF assms] map_of_bt_of distinct_map_of_rev)
  moreover have "map_of ?kvs n = Some k \<Longrightarrow> cursors_of ss n = Some k" for n k
    using assms by (auto simp: cursors_of_def comp_def dest!: map_of_SomeD intro!: map_of_is_SomeI)
  ultimately show "map_of (pending_cursors ss) \<subseteq>\<^sub>m cursors_of ss"
    by (auto simp: map_le_def)
  show "fst ` set (pending_cursors ss) = {n. pending_at n ss}"
    by (auto simp: pending_cursors_eq [OF assms] keys_bt_of pending_at_def image_iff)
qed

lemma drained_scopes_at:
  "map ss_scope (drained_scopes ss) = map ss_scope ss"
  "cursors_of (drained_scopes ss) = cursors_of ss"
  "\<not> pending_at n (drained_scopes ss)"
proof -
  show "map ss_scope (drained_scopes ss) = map ss_scope ss"
    by (auto simp: drained_scopes_def Let_def)
  show "cursors_of (drained_scopes ss) = cursors_of ss"
    unfolding cursors_of_def drained_scopes_def Let_def by (intro arg_cong [of _ _ map_of]) auto
  show "\<not> pending_at n (drained_scopes ss)"
    by (auto simp: drained_scopes_def Let_def pending_at_def)
qed

section \<open>The session's invariant\<close>

definition socket_ok :: "socket_session \<Rightarrow> bool" where
  "socket_ok sub \<longleftrightarrow> distinct (map ss_scope (sb_scopes sub)) \<and>
     (case sb_running sub of
        Some asked \<Rightarrow> bt_ok asked \<and> map_of asked \<subseteq>\<^sub>m cursors_of (sb_scopes sub)
      | None \<Rightarrow> sb_closed sub \<or> (\<forall>n. \<not> pending_at n (sb_scopes sub)))"

definition is_pull :: "socket_action \<Rightarrow> bool" where
  "is_pull a = (case a of Pull _ _ \<Rightarrow> True | _ \<Rightarrow> False)"

definition is_pulled :: "socket_event \<Rightarrow> bool" where
  "is_pulled e = (case e of Pulled _ \<Rightarrow> True | _ \<Rightarrow> False)"

definition pulls_outstanding :: "socket_session \<Rightarrow> nat" where
  "pulls_outstanding sub = (if sb_running sub = None then 0 else 1)"

definition pulls_scope :: "string \<Rightarrow> socket_action list \<Rightarrow> bool" where
  "pulls_scope n acts \<longleftrightarrow> (\<exists>cursors models. Pull cursors models \<in> set acts \<and> n \<in> fst ` set cursors)"

text \<open>The ranges of a scope in the frames sent, and ranges that join without a gap.\<close>

definition frame_range :: "ext \<Rightarrow> string \<Rightarrow> socket_action \<Rightarrow> cursor_range list" where
  "frame_range x n a = (case a of
     Send frame \<Rightarrow> (case page_decode x frame of
         Inr p \<Rightarrow> (case map_of (g_cursors p) n of Some rg \<Rightarrow> [rg] | None \<Rightarrow> [])
       | Inl _ \<Rightarrow> [])
   | _ \<Rightarrow> [])"

definition sent_ranges :: "ext \<Rightarrow> string \<Rightarrow> socket_action list \<Rightarrow> cursor_range list" where
  "sent_ranges x n acts = concat (map (frame_range x n) acts)"

fun joined :: "nat \<Rightarrow> cursor_range list \<Rightarrow> nat \<Rightarrow> bool" where
  "joined k [] k' \<longleftrightarrow> k = k'"
| "joined k (rg # rgs) k' \<longleftrightarrow> c_from rg = k \<and> c_from rg \<le> c_to rg \<and> joined (c_to rg) rgs k'"

lemma joined_append: "joined k (rs @ ss) k' \<longleftrightarrow> (\<exists>m. joined k rs m \<and> joined m ss k')"
  by (induction k rs k' rule: joined.induct) auto

lemma sent_ranges_append: "sent_ranges x n (as @ bs) = sent_ranges x n as @ sent_ranges x n bs"
  by (simp add: sent_ranges_def)

lemma sent_ranges_send [simp]: "page_decode x frame = Inr p \<Longrightarrow> sent_ranges x n [Send frame] =
    (case map_of (g_cursors p) n of Some rg \<Rightarrow> [rg] | None \<Rightarrow> [])"
  by (simp add: sent_ranges_def frame_range_def)

lemma sent_ranges_Cons: "sent_ranges x n (a # as) = sent_ranges x n [a] @ sent_ranges x n as"
  by (simp add: sent_ranges_def)

lemma sent_ranges_pull [simp]: "sent_ranges x n [Pull c m] = []" "sent_ranges x n [] = []"
  by (simp_all add: sent_ranges_def frame_range_def)

section \<open>The next pull\<close>

lemma list_ex_pending: "list_ex ss_pending ss \<longleftrightarrow> (\<exists>n. pending_at n ss)"
  by (auto simp: list_ex_iff pending_at_def)

text \<open>
  The pull of every pending scope: nothing stays pending, and the session is in order again.
\<close>

lemma next_pull_ok:
  assumes "next_pull sub = (Inr acts, sub')" and "distinct (map ss_scope (sb_scopes sub))" and "sb_running sub = None"
  shows "socket_ok sub'" "cursors_of (sb_scopes sub') = cursors_of (sb_scopes sub)"
    "length (filter is_pull acts) = pulls_outstanding sub'" "sent_ranges x n acts = []"
    "pending_at n (sb_scopes sub) \<Longrightarrow> pulls_scope n acts" "\<not> pending_at n (sb_scopes sub')"
    "sb_closed sub' = sb_closed sub"
proof -
  have "socket_ok sub' \<and> cursors_of (sb_scopes sub') = cursors_of (sb_scopes sub) \<and>
    length (filter is_pull acts) = pulls_outstanding sub' \<and> sent_ranges x n acts = [] \<and>
    (pending_at n (sb_scopes sub) \<longrightarrow> pulls_scope n acts) \<and> \<not> pending_at n (sb_scopes sub') \<and>
    sb_closed sub' = sb_closed sub"
  proof (cases "list_ex ss_pending (sb_scopes sub)")
    case False
    with assms show ?thesis
      by (auto simp: next_pull_def socket_ok_def pulls_outstanding_def list_ex_pending)
  next
    case True
    let ?c = "pending_cursors (sb_scopes sub)"
    from True assms(1) have a: "acts = [Pull ?c (sb_models sub)]"
      "sub' = sub\<lparr>sb_scopes := drained_scopes (sb_scopes sub), sb_running := Some ?c\<rparr>"
      by (auto simp: next_pull_def Let_def)
    from pending_cursors_at [OF assms(2)] assms(2) show ?thesis
      by (simp add: a socket_ok_def drained_scopes_at pulls_outstanding_def is_pull_def pulls_scope_def)
  qed
  then show "socket_ok sub'" "cursors_of (sb_scopes sub') = cursors_of (sb_scopes sub)"
    "length (filter is_pull acts) = pulls_outstanding sub'" "sent_ranges x n acts = []"
    "pending_at n (sb_scopes sub) \<Longrightarrow> pulls_scope n acts" "\<not> pending_at n (sb_scopes sub')"
    "sb_closed sub' = sb_closed sub"
    by simp_all
qed

section \<open>A page\<close>

lemma advance_scopes_ok:
  assumes "forM advance_scope cs sub = (Inr u, sub')" and "distinct (map fst cs)"
  shows "map ss_scope (sb_scopes sub') = map ss_scope (sb_scopes sub) \<and> sb_running sub' = sb_running sub \<and>
    sb_closed sub' = sb_closed sub \<and>
    cursors_of (sb_scopes sub') = cursors_of (sb_scopes sub) ++ map_of (map (\<lambda>(n, rg). (n, c_to rg)) cs) \<and>
    (\<forall>n. pending_at n (sb_scopes sub) \<longrightarrow> pending_at n (sb_scopes sub'))"
  using assms
proof (induction cs arbitrary: sub)
  case Nil
  then show ?case by simp
next
  case (Cons c cs)
  obtain n rg where c: "c = (n, rg)" by fastforce
  let ?f = "\<lambda>s. s\<lparr>ss_cursor := c_to rg, ss_pending := ss_pending s \<or> continues rg\<rparr>"
  from Cons.prems(1) obtain u' t where t: "scope_mut n ?f sub = (Inr u', t)" "forM advance_scope cs t = (Inr u, sub')"
    by (auto simp: c advance_scope_def bindM_ok_iff)
  then obtain ss where ss: "change_scope n ?f (sb_scopes sub) = Some ss" "t = sub\<lparr>sb_scopes := ss\<rparr>"
    by (auto simp: scope_mut_ok)
  have one: "map ss_scope ss = map ss_scope (sb_scopes sub)"
    "cursors_of ss = (cursors_of (sb_scopes sub))(n \<mapsto> c_to rg)"
    "\<And>m. pending_at m (sb_scopes sub) \<Longrightarrow> pending_at m ss"
    using change_scope_Some [OF ss(1)] by auto
  from Cons.prems(2) c have d: "distinct (map fst cs)" "n \<notin> fst ` set cs" by auto
  have m: "map_of (map (\<lambda>(n, rg). (n, c_to rg)) cs) n = None"
    using d(2) by (force simp: map_of_eq_None_iff)
  from Cons.IH [OF t(2) d(1)] show ?case
    using one m by (auto simp: ss(2) c map_add_def fun_eq_iff split: option.splits)
qed

text \<open>What the page check believes.\<close>

lemma progress_of_ok:
  assumes "progress_of x page asked = Inr pr" and "bt_ok asked"
  obtains p where "page_decode x page = Inr p" "pp_page pr = page" "pp_cursors pr = g_cursors p"
    "distinct (map fst (g_cursors p))"
    "\<And>n rg. map_of (g_cursors p) n = Some rg \<Longrightarrow> map_of asked n = Some (c_from rg) \<and> c_from rg \<le> c_to rg"
proof -
  from assms(1) obtain p where p: "page_decode x page = Inr p"
    by (cases "page_decode x page") (auto simp: progress_of_def)
  with assms(1) have q: "pp_page pr = page" "pp_cursors pr = g_cursors p"
    and each: "\<forall>(n, rg) \<in> set (g_cursors p). map_of asked n = Some (c_from rg)"
    by (auto simp: progress_of_def res_elims lookup_at_def)
  from page_decode_ok [OF p] have r: "\<forall>(n, rg) \<in> set (g_cursors p). c_from rg \<le> c_to rg"
    by (auto simp: page_ok_def)
  have "map_of asked n = Some (c_from rg) \<and> c_from rg \<le> c_to rg" if "map_of (g_cursors p) n = Some rg" for n rg
    using map_of_SomeD [OF that] each r by auto
  then show thesis
    using that [OF p q bt_ok_distinct [OF page_decode_ok(2) [OF p]]] by blast
qed

lemma pulled_page_ok:
  assumes run: "pulled_page x page asked sub = (Inr acts, sub')"
    and d: "distinct (map ss_scope (sb_scopes sub))" and r: "sb_running sub = None" and o: "\<not> sb_closed sub"
    and a: "bt_ok asked" "map_of asked \<subseteq>\<^sub>m cursors_of (sb_scopes sub)"
  shows "socket_ok sub'" "length (filter is_pull acts) = pulls_outstanding sub'"
    "pending_at n (sb_scopes sub) \<Longrightarrow> pulls_scope n acts" "\<not> sb_closed sub'"
    "cursors_of (sb_scopes sub) n = Some k \<Longrightarrow>
      \<exists>k'. cursors_of (sb_scopes sub') n = Some k' \<and> joined k (sent_ranges x n acts) k'"
proof -
  from run obtain pr t pulls where pr: "progress_of x page asked = Inr pr"
    and t: "forM advance_scope (pp_cursors pr) sub = (Inr (), t)" "next_pull t = (Inr pulls, sub')"
    and acts: "acts = (if \<exists>(_, rg) \<in> set (pp_cursors pr). c_from rg < c_to rg then [Send (pp_page pr)] else []) @ pulls"
    by (auto simp: pulled_page_def bindM_ok_iff)
  from progress_of_ok [OF pr a(1)] obtain p where p: "page_decode x page = Inr p" "pp_page pr = page"
    "pp_cursors pr = g_cursors p" "distinct (map fst (g_cursors p))"
    and each: "\<And>n rg. map_of (g_cursors p) n = Some rg \<Longrightarrow> map_of asked n = Some (c_from rg) \<and> c_from rg \<le> c_to rg"
    by metis
  note adv = advance_scopes_ok [OF t(1) [unfolded p(3)] p(4)]
  with d r have t': "distinct (map ss_scope (sb_scopes t))" "sb_running t = None" by simp_all
  note np = next_pull_ok [OF t(2) t']
  show "socket_ok sub'" by (rule np(1))
  show "\<not> sb_closed sub'" using np(7) adv o by simp
  show "length (filter is_pull acts) = pulls_outstanding sub'"
    using np(3) by (simp add: acts is_pull_def)
  show "pulls_scope n acts" if "pending_at n (sb_scopes sub)"
    using np(5) [of n] adv that by (auto simp: acts pulls_scope_def)
  show "\<exists>k'. cursors_of (sb_scopes sub') n = Some k' \<and> joined k (sent_ranges x n acts) k'"
    if k: "cursors_of (sb_scopes sub) n = Some k"
  proof (cases "map_of (g_cursors p) n")
    case None
    then have "map_of (map (\<lambda>(n, rg). (n, c_to rg)) (g_cursors p)) n = None"
      by (force simp: map_of_eq_None_iff)
    with k adv np(2) have "cursors_of (sb_scopes sub') n = Some k" by (simp add: map_add_def)
    with None np(4) p(1,2) show ?thesis by (simp add: acts sent_ranges_Cons [of _ _ _ pulls])
  next
    case (Some rg)
    then have "map_of (map (\<lambda>(n, rg). (n, c_to rg)) (g_cursors p)) n = Some (c_to rg)"
      by (simp add: map_of_map)
    with adv np(2) have k': "cursors_of (sb_scopes sub') n = Some (c_to rg)" by (simp add: map_add_def)
    from each [OF Some] a(2) k have f: "c_from rg = k" "c_from rg \<le> c_to rg"
      by (auto simp: map_le_def dom_def)
    show ?thesis
    proof (cases "\<exists>(_, rg) \<in> set (g_cursors p). c_from rg < c_to rg")
      case True
      with Some p k' f np(4) show ?thesis by (simp add: acts sent_ranges_Cons [of _ _ _ pulls])
    next
      case False
      with map_of_SomeD [OF Some] have "\<not> c_from rg < c_to rg" by auto
      with f have "c_to rg = k" by simp
      with False p k' np(4) show ?thesis by (simp add: acts sent_ranges_append)
    qed
  qed
qed

section \<open>Every event\<close>

lemma handle_event_ok:
  assumes "handle_event x e sub = (Inr acts, sub')" and "socket_ok sub"
  shows "socket_ok sub' \<and> length (filter is_pull acts) + pulls_outstanding sub =
      (if is_pulled e then 1 else 0) + pulls_outstanding sub' \<and>
    (\<forall>n k. cursors_of (sb_scopes sub) n = Some k \<longrightarrow>
      (\<exists>k'. cursors_of (sb_scopes sub') n = Some k' \<and> joined k (sent_ranges x n acts) k')) \<and>
    (e \<noteq> SocketClosed \<longrightarrow> sb_closed sub' = sb_closed sub)"
proof (cases e)
  case (Committed scope)
  let ?f = "\<lambda>s. s\<lparr>ss_pending := True\<rparr>"
  from assms(1) obtain t where t: "scope_mut scope ?f sub = (Inr (), t)"
    and rest: "(if sb_closed t \<or> sb_running t \<noteq> None then retM [] else next_pull) t = (Inr acts, sub')"
    by (auto simp: Committed bindM_ok_iff)
  from t obtain ss where ss: "change_scope scope ?f (sb_scopes sub) = Some ss" "t = sub\<lparr>sb_scopes := ss\<rparr>"
    by (auto simp: scope_mut_ok)
  have names: "map ss_scope ss = map ss_scope (sb_scopes sub)"
    and cs: "cursors_of ss = cursors_of (sb_scopes sub)"
    using mark_scope(1,2) [OF ss(1)] by simp_all
  show ?thesis
  proof (cases "sb_closed t \<or> sb_running t \<noteq> None")
    case True
    with rest have "acts = []" "sub' = t" by auto
    with True assms(2) names cs show ?thesis
      by (auto simp: Committed ss(2) socket_ok_def pulls_outstanding_def is_pulled_def split: option.splits)
  next
    case False
    with rest have np: "next_pull t = (Inr acts, sub')" by simp
    have "distinct (map ss_scope (sb_scopes t))" "sb_running t = None"
      using assms(2) names False by (simp_all add: ss(2) socket_ok_def)
    note np = next_pull_ok [OF np this]
    show ?thesis
      using np False by (simp add: Committed ss(2) cs pulls_outstanding_def is_pulled_def)
  qed
next
  case (Pulled page)
  from assms(1) obtain asked where a: "sb_running sub = Some asked"
    and rest: "(if sb_closed sub then retM [] else pulled_page x page asked) (sub\<lparr>sb_running := None\<rparr>) = (Inr acts, sub')"
    by (cases "sb_running sub") (simp_all add: Pulled)
  show ?thesis
  proof (cases "sb_closed sub")
    case True
    with rest assms(2) a show ?thesis by (auto simp: Pulled socket_ok_def pulls_outstanding_def is_pulled_def)
  next
    case False
    with rest have "pulled_page x page asked (sub\<lparr>sb_running := None\<rparr>) = (Inr acts, sub')" by simp
    note pp = pulled_page_ok [OF this]
    show ?thesis
      using pp(1-2,4-5) assms(2) a False by (simp add: Pulled socket_ok_def pulls_outstanding_def is_pulled_def)
  qed
next
  case SocketClosed
  have "cursors_of (map (\<lambda>s. s\<lparr>ss_pending := False\<rparr>) ss) = cursors_of ss" for ss
    by (simp add: cursors_of_def comp_def)
  with assms show ?thesis
    by (auto simp: SocketClosed socket_ok_def pulls_outstanding_def is_pulled_def comp_def pending_at_def split: option.splits)
qed

section \<open>Every sequence of events\<close>

lemma socket_run_ok:
  assumes "socket_run x es sub = (Inr acts, sub')" and "socket_ok sub"
  shows "socket_ok sub' \<and> length (filter is_pull acts) + pulls_outstanding sub =
      length (filter is_pulled es) + pulls_outstanding sub' \<and>
    (\<forall>n k. cursors_of (sb_scopes sub) n = Some k \<longrightarrow>
      (\<exists>k'. cursors_of (sb_scopes sub') n = Some k' \<and> joined k (sent_ranges x n acts) k')) \<and>
    (SocketClosed \<notin> set es \<longrightarrow> sb_closed sub' = sb_closed sub)"
  using assms
proof (induction es arbitrary: sub acts)
  case Nil
  then show ?case by simp
next
  case (Cons e es)
  from Cons.prems(1) obtain now t rest where e: "handle_event x e sub = (Inr now, t)"
    and es: "socket_run x es t = (Inr rest, sub')" "acts = now @ rest"
    by (auto simp: bindM_ok_iff)
  note one = handle_event_ok [OF e Cons.prems(2)]
  then have t: "socket_ok t" by blast
  note more = Cons.IH [OF es(1) t]
  have "\<exists>k'. cursors_of (sb_scopes sub') n = Some k' \<and> joined k (sent_ranges x n acts) k'"
    if n: "cursors_of (sb_scopes sub) n = Some k" for n k
  proof -
    from one n obtain m where m: "cursors_of (sb_scopes t) n = Some m" "joined k (sent_ranges x n now) m" by blast
    with more obtain k' where "cursors_of (sb_scopes sub') n = Some k'" "joined m (sent_ranges x n rest) k'" by blast
    with m(2) show ?thesis by (auto simp: es(2) sent_ranges_append joined_append)
  qed
  with one more show ?case by (auto simp: es(2))
qed

lemma open_socket_ok:
  assumes "bt_ok (ng_heads ng)"
  shows "socket_ok (fst (open_socket ng))"
    and "cursors_of (sb_scopes (fst (open_socket ng))) = map_of (ng_heads ng)"
    and "pulls_outstanding (fst (open_socket ng)) = 1" and "\<not> sb_closed (fst (open_socket ng))"
proof -
  let ?ss = "map (\<lambda>(scope, h). \<lparr>ss_scope = scope, ss_cursor = h, ss_pending = False\<rparr>) (ng_heads ng)"
  have kvs: "map (\<lambda>s. (ss_scope s, ss_cursor s)) ?ss = ng_heads ng"
    by (simp add: comp_def case_prod_beta')
  then have c: "cursors_of ?ss = map_of (ng_heads ng)" by (simp add: cursors_of_def)
  have "fold (\<lambda>s. bt_ins (ss_scope s) (ss_cursor s)) ?ss [] =
      fold (\<lambda>(a, b). bt_ins a b) (map (\<lambda>s. (ss_scope s, ss_cursor s)) ?ss) []"
    by (simp add: fold_map comp_def)
  then have f: "fold (\<lambda>s. bt_ins (ss_scope s) (ss_cursor s)) ?ss [] = ng_heads ng"
    by (simp only: kvs) (use bt_of_sorted [OF assms] in \<open>simp add: bt_of_def\<close>)
  have n: "map ss_scope ?ss = map fst (ng_heads ng)" by (simp add: comp_def case_prod_beta')
  show "socket_ok (fst (open_socket ng))"
    using assms bt_ok_distinct [OF assms] by (simp only: open_socket_def Let_def f) (simp add: socket_ok_def comp_def case_prod_beta' c [simplified case_prod_beta'])
  show "cursors_of (sb_scopes (fst (open_socket ng))) = map_of (ng_heads ng)"
    by (simp add: open_socket_def Let_def c)
  show "pulls_outstanding (fst (open_socket ng)) = 1" "\<not> sb_closed (fst (open_socket ng))"
    by (simp_all add: open_socket_def Let_def pulls_outstanding_def)
qed

text \<open>A pending scope stays pending until a pull asks for it; an accepted page asks for it.\<close>

lemma pending_step:
  assumes "handle_event x e sub = (Inr acts, sub')" and "socket_ok sub" and "\<not> sb_closed sub" and "e \<noteq> SocketClosed"
    and "pending_at n (sb_scopes sub)"
  shows "pulls_scope n acts \<or> \<not> is_pulled e \<and> pending_at n (sb_scopes sub')"
proof (cases e)
  case (Committed scope)
  from assms(2,3,5) obtain r where r: "sb_running sub = Some r"
    by (cases "sb_running sub") (auto simp: socket_ok_def)
  with assms(1) obtain ss where ss: "change_scope scope (\<lambda>s. s\<lparr>ss_pending := True\<rparr>) (sb_scopes sub) = Some ss"
    "sub' = sub\<lparr>sb_scopes := ss\<rparr>"
    by (auto simp: Committed bindM_ok_iff scope_mut_ok)
  from mark_scope(4) [OF ss(1) assms(5)] show ?thesis by (simp add: ss(2) Committed is_pulled_def)
next
  case (Pulled page)
  from assms(1,3) obtain asked where a: "sb_running sub = Some asked"
    and p: "pulled_page x page asked (sub\<lparr>sb_running := None\<rparr>) = (Inr acts, sub')"
    by (cases "sb_running sub") (simp_all add: Pulled)
  from assms(2,3,5) a show ?thesis
    by (intro disjI1 pulled_page_ok(3) [OF p]) (simp_all add: socket_ok_def)
next
  case SocketClosed
  with assms(4) show ?thesis by simp
qed

lemma pending_run:
  assumes "socket_run x es sub = (Inr acts, sub')" and "socket_ok sub" and "\<not> sb_closed sub" and "SocketClosed \<notin> set es"
    and "pending_at n (sb_scopes sub)"
  shows "pulls_scope n acts \<or> \<not> list_ex is_pulled es \<and> pending_at n (sb_scopes sub')"
  using assms
proof (induction es arbitrary: sub acts)
  case Nil
  then show ?case by simp
next
  case (Cons e es)
  from Cons.prems(1) obtain now t rest where e: "handle_event x e sub = (Inr now, t)"
    and es: "socket_run x es t = (Inr rest, sub')" "acts = now @ rest"
    by (auto simp: bindM_ok_iff)
  note one = handle_event_ok [OF e Cons.prems(2)]
  with Cons.prems(3,4) have t: "socket_ok t" "\<not> sb_closed t" by auto
  from pending_step [OF e Cons.prems(2,3) _ Cons.prems(5)] Cons.prems(4)
  have "pulls_scope n now \<or> \<not> is_pulled e \<and> pending_at n (sb_scopes t)" by auto
  with Cons.IH [OF es(1) t] Cons.prems(4) show ?case by (auto simp: es(2) pulls_scope_def)
qed

lemma commit_step:
  assumes "handle_event x (Committed n) sub = (Inr acts, sub')" and "socket_ok sub" and "\<not> sb_closed sub"
  shows "pulls_scope n acts \<or> pending_at n (sb_scopes sub')"
proof -
  from assms(1) obtain t where t: "scope_mut n (\<lambda>s. s\<lparr>ss_pending := True\<rparr>) sub = (Inr (), t)"
    and rest: "(if sb_closed t \<or> sb_running t \<noteq> None then retM [] else next_pull) t = (Inr acts, sub')"
    by (auto simp: bindM_ok_iff)
  from t obtain ss where ss: "change_scope n (\<lambda>s. s\<lparr>ss_pending := True\<rparr>) (sb_scopes sub) = Some ss"
    "t = sub\<lparr>sb_scopes := ss\<rparr>" by (auto simp: scope_mut_ok)
  have p: "pending_at n ss" by (rule mark_scope(3) [OF ss(1)])
  have d: "distinct (map ss_scope (sb_scopes t))"
    using mark_scope(1) [OF ss(1)] assms(2) by (simp add: ss(2) socket_ok_def)
  show ?thesis
  proof (cases "sb_closed t \<or> sb_running t \<noteq> None")
    case True
    with rest p show ?thesis by (auto simp: ss(2))
  next
    case False
    with rest d p next_pull_ok(5) [of t acts sub' n] show ?thesis by (simp add: ss(2))
  qed
qed

text \<open>
  C1: the live stream of a socket has no gap and one pull at a time. Whatever events the host
  reports and the session accepts, in any order: the pulls asked for are exactly the pages
  reported plus the one outstanding, if any; the outstanding pull asks each of its scopes from
  the cursor streamed so far; and the frames sent for a scope join, each starting where the one
  before ended, from the negotiated head to the session's cursor.
\<close>

theorem stream_is_gapless:
  assumes "bt_ok (ng_heads ng)" and "socket_run x es (fst (open_socket ng)) = (Inr acts, sub)"
  shows "length (filter is_pull acts) + 1 = length (filter is_pulled es) + pulls_outstanding sub \<and>
    (\<forall>asked. sb_running sub = Some asked \<longrightarrow> map_of asked \<subseteq>\<^sub>m cursors_of (sb_scopes sub)) \<and>
    (\<forall>n h. map_of (ng_heads ng) n = Some h \<longrightarrow>
      (\<exists>k. cursors_of (sb_scopes sub) n = Some k \<and> joined h (sent_ranges x n acts) k))"
  using socket_run_ok [OF assms(2) open_socket_ok(1) [OF assms(1)]] open_socket_ok(2,3) [OF assms(1)]
  by (auto simp: socket_ok_def split: option.splits)

text \<open>
  C2: no commit is forgotten. After a commit on a scope is reported, and until the socket closes,
  either a pull that names the scope has been asked for, or the scope is marked and a pull is
  outstanding whose page will ask for it: as soon as one page is reported after the commit, the
  scope has been pulled again.
\<close>

theorem commit_reaches_pull:
  assumes "bt_ok (ng_heads ng)"
    and "socket_run x (before @ Committed n # after) (fst (open_socket ng)) = (Inr acts, sub)"
    and "SocketClosed \<notin> set (before @ after)"
  shows "\<exists>earlier later. acts = earlier @ later \<and>
    (\<exists>mid. socket_run x before (fst (open_socket ng)) = (Inr earlier, mid)) \<and>
    (pulls_scope n later \<or> \<not> list_ex is_pulled after \<and> pending_at n (sb_scopes sub) \<and> sb_running sub \<noteq> None)"
proof -
  have app: "socket_run x (as @ bs) s = (Inr acts, sub) \<Longrightarrow>
      \<exists>a b t. socket_run x as s = (Inr a, t) \<and> socket_run x bs t = (Inr b, sub) \<and> acts = a @ b" for as bs s acts
    by (induction as arbitrary: s acts) (fastforce simp: bindM_ok_iff)+
  from app [OF assms(2)] obtain a b t where run: "socket_run x before (fst (open_socket ng)) = (Inr a, t)"
    "socket_run x (Committed n # after) t = (Inr b, sub)" "acts = a @ b" by blast
  from run(2) obtain now u rest where c: "handle_event x (Committed n) t = (Inr now, u)"
    "socket_run x after u = (Inr rest, sub)" "b = now @ rest" by (auto simp: bindM_ok_iff simp del: handle_event.simps)
  note first = socket_run_ok [OF run(1) open_socket_ok(1) [OF assms(1)]]
  with assms(3) open_socket_ok(4) [OF assms(1)] have t: "socket_ok t" "\<not> sb_closed t" by auto
  note second = handle_event_ok [OF c(1) t(1)]
  with t have u: "socket_ok u" "\<not> sb_closed u" by auto
  note third = socket_run_ok [OF c(2) u(1)]
  with u assms(3) have s: "socket_ok sub" "\<not> sb_closed sub" by auto
  have "pulls_scope n b \<or> \<not> list_ex is_pulled after \<and> pending_at n (sb_scopes sub)"
    using commit_step [OF c(1) t] pending_run [OF c(2) u] assms(3) by (auto simp: c(3) pulls_scope_def)
  moreover have "pending_at n (sb_scopes sub) \<Longrightarrow> sb_running sub \<noteq> None"
    using s by (cases "sb_running sub") (auto simp: socket_ok_def)
  ultimately show ?thesis using run(1,3) by blast
qed

end
