(* ===== verification/Deliveries.thy ===== *)
theory Deliveries
  imports Batches Service Sockets Samples
begin

text \<open>
  A small backend, and the witnesses of the server's properties: each applies a property to a
  request that is served, or to the events of a socket.
\<close>

section \<open>A backend\<close>

definition create_slot :: slot where
  "create_slot = \<lparr>sl_name = ''list'', sl_model = ''List'', sl_operation = ''create'',
     sl_cardinality = ''single'', sl_patch = [], sl_bindings = []\<rparr>"

definition backend :: config where
  "backend = \<lparr>cf_schema = s0,
     cf_mutations = [\<lparr>sm_name = ''createList'', sm_version = 1, sm_slots = [create_slot], sm_input = None, sm_known = []\<rparr>],
     cf_loaders = [''List'', ''Task''], cf_models = []\<rparr>"

text \<open>The configuration as \<open>config_decode\<close> leaves it: every model retained at its own version.\<close>

definition served :: config where
  "served = backend\<lparr>cf_models := map (default_contract s0) (s_models s0)\<rparr>"

lemma backend_served: "config_decode backend = Inr served"
  by code_simp

text \<open>
  A host that stores receipts, refuses the second mutation of a batch, loads every list with the
  title a, and has one channel with one change.
\<close>

definition claim_json :: "string \<Rightarrow> string \<Rightarrow> nat \<Rightarrow> json \<Rightarrow> json" where
  "claim_json client owner n receipt = obj [(''clientId'', JStr client), (''owner'', JStr owner),
     (''sequence'', jnat n), (''receipt'', receipt)]"

definition change_json :: "string \<Rightarrow> json" where
  "change_json channel = obj [(''channel'', JStr channel), (''cursor'', jnat 3), (''model'', JStr ''List''),
     (''identity'', list_id), (''identityKey'', JStr (print_json list_id)), (''stamp'', jnat 1)]"

definition shop :: "((string \<times> string) \<times> (nat \<times> string)) list host" where
  "shop rq s = (case rq of
     Claim owner client \<Rightarrow> (case map_of s (owner, client) of
         None \<Rightarrow> (Inr (claim_json client owner 0 JNull), s)
       | Some (n, text) \<Rightarrow> (Inr (claim_json client owner n (JStr text)), s))
   | SaveReceipt owner client n text \<Rightarrow>
       if n \<le> max_safe_integer then (Inr JNull, ((owner, client), (n, text)) # s) else (Inl ''out of range'', s)
   | Head _ \<Rightarrow> (Inr (jnat 3), s)
   | Scan channel after _ \<Rightarrow> (Inr (JArr (if after < 3 then [change_json channel] else [])), s)
   | Handle _ _ _ _ ordinal \<Rightarrow>
       (Inr (if ordinal = 2 then obj [(''rejection'', JStr ''list.taken'')]
         else obj [(''changes'', JArr []), (''publications'', JArr [obj [(''channel'', JStr ''ch'')]])]), s)
   | Load _ _ identities _ \<Rightarrow> (Inr (JArr (map (\<lambda>_. JObj [(''title'', JStr ''a'')]) identities)), s)
   | AdvanceStamp _ _ \<Rightarrow> (Inr (jnat 1), s)
   | EnsureStamp _ _ \<Rightarrow> (Inr (jnat 1), s)
   | Publish _ _ _ _ stamp \<Rightarrow> (Inr (obj [(''cursor'', jnat 1), (''stamp'', jnat stamp)]), s)
   | _ \<Rightarrow> (Inr JNull, s))"

definition create_json :: "nat \<Rightarrow> string \<Rightarrow> json" where
  "create_json ordinal i = obj [(''ordinal'', jnat ordinal), (''name'', JStr ''createList''), (''version'', jnat 1),
     (''operations'', JArr [obj [(''op'', JStr ''create''), (''model'', JStr ''List''),
        (''identity'', obj [(''id'', JStr i)]), (''values'', obj [(''title'', JStr ''a'')])]])]"

definition push_text :: string where
  "push_text = print_json (obj [(''clientId'', JStr ''c''), (''batchSequence'', jnat 1),
     (''models'', counters_json [(''List'', 1)]),
     (''mutations'', JArr [create_json 1 ''l1'', create_json 2 ''l2''])])"

definition pull_text :: string where
  "pull_text = print_json (pull_json \<lparr>l_models = [(''List'', 1)], l_cursors = [(''ch'', 0)]\<rparr>)"

section \<open>Push\<close>

definition undone :: "host_request \<Rightarrow> bool" where
  "undone rq = (case rq of Rollback _ \<Rightarrow> True | _ \<Rightarrow> False)"

lemma push_runs:
  "case process_push (logged shop) x0 served ''u'' push_text ([], []) of
     (Inr text, s) \<Rightarrow> filter undone (fst s) = [Rollback 2] \<and> length (fst s) = 12 | _ \<Rightarrow> False"
  by code_simp

lemma push_read: "case push_decode x0 push_text of Inr r \<Rightarrow> u_client r = ''c'' \<and> u_batch r = 1 | _ \<Rightarrow> False"
  by code_simp

lemma first_claim: "case ask shop (Claim ''u'' ''c'') claimed_of [] of (Inr l, t) \<Rightarrow> cm_sequence l = 0 | _ \<Rightarrow> False"
  by code_simp

theorem push_is_bracketed_witness:
  "case process_push (logged shop) x0 served ''u'' push_text ([], []) of
     (Inr reply, s) \<Rightarrow> last (fst s) = SaveReceipt ''u'' ''c'' 1 reply \<and> filter undone (fst s) = [Rollback 2]
   | _ \<Rightarrow> False"
proof -
  from push_runs obtain reply s where run: "process_push (logged shop) x0 served ''u'' push_text ([], []) = (Inr reply, s)"
    "filter undone (fst s) = [Rollback 2] \<and> length (fst s) = 12" by (rule runE)
  obtain log t where s: "s = (log, t)" by fastforce
  from push_is_bracketed [OF run(1) [unfolded s]] push_read obtain locked u where
    claim: "ask shop (Claim ''u'' ''c'') claimed_of [] = (Inr locked, u)"
    and out: "cm_sequence locked = 1 \<or> (\<exists>vs. log = Claim ''u'' ''c'' # concat vs @ [SaveReceipt ''u'' ''c'' 1 reply])"
    by fastforce
  from claim first_claim have "cm_sequence locked = 0" by simp
  with out have "last log = SaveReceipt ''u'' ''c'' 1 reply" by auto
  with run s show ?thesis by simp
qed

text \<open>The shop keeps the storage contract.\<close>

lemma claimed_json: "n \<le> max_safe_integer \<Longrightarrow> claimed_of (claim_json client owner n (JStr reply)) =
    Inr \<lparr>cm_client = client, cm_owner = owner, cm_sequence = n, cm_receipt = Some reply\<rparr>"
  by (simp add: claimed_of_def claim_json_def strict_shape_def wire_shape_def wire_field_def text_field_def
      counter_field_def field_with_def obj_def bt_of_def bt_keys_def read_counter_jnat is_null_def)

lemma shop_remembers: "remembers shop"
  unfolding remembers_def
proof (intro allI conjI impI)
  fix owner client reply :: string and n s t
  assume "ask shop (SaveReceipt owner client n reply) acknowledged s = (Inr (), t)"
  then have "n \<le> max_safe_integer" "t = ((owner, client), (n, reply)) # s"
    by (auto simp: ask_def shop_def split: if_splits sum.splits)
  then show "claims_last shop owner client n reply t"
    by (simp add: claims_last_def ask_def shop_def claimed_json)
next
  fix owner client reply :: string and n s t r
  assume a: "claims_last shop owner client n reply s \<and> shop (Claim owner client) s = (r, t)"
  then have "t = s" by (auto simp: shop_def split: option.splits prod.splits)
  with a show "claims_last shop owner client n reply t" by simp
qed

lemma push_served: "case process_push shop x0 served ''u'' push_text [] of (Inr reply, t) \<Rightarrow> True | _ \<Rightarrow> False"
  by code_simp

theorem push_is_idempotent_witness:
  "case process_push shop x0 served ''u'' push_text [] of
     (Inr reply, t) \<Rightarrow> fst (process_push (logged shop) x0 served ''u'' push_text ([], t)) = Inr reply
   | _ \<Rightarrow> False"
proof -
  from push_served obtain reply t where run: "process_push shop x0 served ''u'' push_text [] = (Inr reply, t)"
    by (rule runE)
  from push_is_idempotent [OF run shop_remembers] have
    "fst (process_push (logged shop) x0 served ''u'' push_text ([], t)) = Inr reply"
    unfolding Let_def by (metis funpow_0)
  with run show ?thesis by simp
qed

section \<open>Pull\<close>

lemma pull_served: "case process_pull shop x0 served ''u'' pull_text [] of (Inr reply, t) \<Rightarrow>
    (case page_decode x0 reply of Inr p \<Rightarrow> g_changes p = [list_at 1 ''a''] | _ \<Rightarrow> False) | _ \<Rightarrow> False"
  by code_simp

lemma pull_read: "pull_decode x0 pull_text = Inr \<lparr>l_models = [(''List'', 1)], l_cursors = [(''ch'', 0)]\<rparr>"
  by code_simp

theorem pull_answers_request_witness:
  "\<exists>reply t p. process_pull shop x0 served ''u'' pull_text [] = (Inr reply, t) \<and> page_encode x0 p = Inr reply \<and>
    page_ok x0 p \<and> answers p \<lparr>l_models = [(''List'', 1)], l_cursors = [(''ch'', 0)]\<rparr>"
proof -
  from pull_served obtain reply t where run: "process_pull shop x0 served ''u'' pull_text [] = (Inr reply, t)"
    by (rule runE)
  from pull_answers_request [OF run] pull_read show ?thesis using run by auto
qed

section \<open>A socket\<close>

definition greeting :: negotiation where
  "greeting = \<lparr>ng_response = ''subscribed'', ng_heads = [(''ch'', 2)], ng_models = [(''List'', 1)]\<rparr>"

definition frame_text :: string where
  "frame_text = print_json (page_json \<lparr>g_cursors = [(''ch'', \<lparr>c_from = 2, c_to = 3, c_head = 3\<rparr>)],
     g_changes = [list_at 1 ''a'']\<rparr>)"

lemma greeting_sorted: "bt_ok (ng_heads greeting)"
  by (simp add: greeting_def bt_ok_def)

lemma socket_runs:
  "case socket_run x0 ([Pulled frame_text] @ Committed ''ch'' # []) (fst (open_socket greeting)) of
     (Inr acts, sub) \<Rightarrow> length acts = 2 \<and> sent_ranges x0 ''ch'' acts = [\<lparr>c_from = 2, c_to = 3, c_head = 3\<rparr>] | _ \<Rightarrow> False"
  by code_simp

theorem stream_is_gapless_witness:
  "case socket_run x0 ([Pulled frame_text] @ Committed ''ch'' # []) (fst (open_socket greeting)) of
     (Inr acts, sub) \<Rightarrow> length (filter is_pull acts) = pulls_outstanding sub \<and>
       cursors_of (sb_scopes sub) ''ch'' = Some 3
   | _ \<Rightarrow> False"
proof -
  from socket_runs obtain acts sub where
    run: "socket_run x0 ([Pulled frame_text] @ Committed ''ch'' # []) (fst (open_socket greeting)) = (Inr acts, sub)"
    "length acts = 2 \<and> sent_ranges x0 ''ch'' acts = [\<lparr>c_from = 2, c_to = 3, c_head = 3\<rparr>]" by (rule runE)
  have h: "map_of (ng_heads greeting) ''ch'' = Some 2" by (simp add: greeting_def)
  from stream_is_gapless [OF greeting_sorted run(1)] h obtain k where
    k: "cursors_of (sb_scopes sub) ''ch'' = Some k" "joined 2 (sent_ranges x0 ''ch'' acts) k"
    and n: "length (filter is_pull acts) + 1 = length (filter is_pulled ([Pulled frame_text] @ Committed ''ch'' # [])) + pulls_outstanding sub"
    by blast
  from k(2) run(2) have "k = 3" by simp
  with k n run(1) show ?thesis by (simp add: is_pulled_def)
qed

theorem commit_reaches_pull_witness:
  "case socket_run x0 ([Pulled frame_text] @ Committed ''ch'' # []) (fst (open_socket greeting)) of
     (Inr acts, sub) \<Rightarrow> pulls_scope ''ch'' acts \<or> pending_at ''ch'' (sb_scopes sub) | _ \<Rightarrow> False"
proof -
  from socket_runs obtain acts sub where
    run: "socket_run x0 ([Pulled frame_text] @ Committed ''ch'' # []) (fst (open_socket greeting)) = (Inr acts, sub)"
    by (rule runE)
  from commit_reaches_pull [OF greeting_sorted run] obtain earlier later where
    "acts = earlier @ later" "pulls_scope ''ch'' later \<or> pending_at ''ch'' (sb_scopes sub)" by auto
  then have "pulls_scope ''ch'' acts \<or> pending_at ''ch'' (sb_scopes sub)" by (auto simp: pulls_scope_def)
  with run show ?thesis by (simp del: socket_run.simps)
qed

end
