(* ===== verification/Lexing.thy ===== *)
theory Lexing
  imports Protocol
begin

text \<open>
  The compiler's lexer (\<open>lex\<close> of \<open>crates/compiler/src/parse.rs\<close>): schema text to tokens with
  their positions. A position counts characters, so the text is taken character by character,
  each with its UTF-8 bytes.
\<close>

section \<open>Characters\<close>

definition is_alpha :: "char \<Rightarrow> bool" where
  "is_alpha c \<longleftrightarrow> is_lower c \<or> is_upper c"

definition word_char :: "char \<Rightarrow> bool" where
  "word_char c \<longleftrightarrow> is_alpha c \<or> is_digit c \<or> c = CHR ''_''"

definition in_word :: "string \<Rightarrow> bool" where
  "in_word c \<longleftrightarrow> (case c of [a] \<Rightarrow> word_char a | _ \<Rightarrow> False)"

definition backslash :: string where "backslash = [CHR 0x5C]"
definition quotes :: string where "quotes = [CHR 0x22]"

definition punctuation :: "string \<Rightarrow> bool" where
  "punctuation c \<longleftrightarrow> (case c of [a] \<Rightarrow> a \<in> set ''{}()[]?,.@<>:'' | _ \<Rightarrow> False)"

section \<open>Tokens\<close>

record pos =
  ps_line :: nat
  ps_col :: nat

record token =
  tk_text :: string
  tk_pos :: pos

definition eof_text :: string where "eof_text = ''<eof>''"

definition show_pos :: "pos \<Rightarrow> string" where
  "show_pos p = decimal (ps_line p) @ '':'' @ decimal (ps_col p)"

text \<open>\<open>at\<close>: a diagnostic at a source position.\<close>

definition at_pos :: "pos \<Rightarrow> string \<Rightarrow> string" where
  "at_pos p msg = show_pos p @ '': '' @ msg"

text \<open>
  What a compilation can end with besides a value: a diagnostic, a panic (an \<open>unwrap\<close> or an
  index that fails), or a loop that would go round without taking a token.
\<close>

datatype stop = Diagnostic string | Panic | Diverge

type_synonym 'a compiled = "stop + 'a"

text \<open>The rest of a string after its opening quote: what it takes, with the closing quote.\<close>

fun string_rest :: "string list \<Rightarrow> (string list \<times> string list) option" where
  "string_rest [] = None"
| "string_rest (c # cs) =
     (if c = quotes then Some ([c], cs)
      else if c = backslash
      then (case cs of [] \<Rightarrow> None
          | d # cs' \<Rightarrow> map_option (\<lambda>(b, r). (c # d # b, r)) (string_rest cs'))
      else map_option (\<lambda>(b, r). (c # b, r)) (string_rest cs))"

lemma string_rest_length: "string_rest cs = Some (b, r) \<Longrightarrow> length b + length r = length cs"
  by (induction cs arbitrary: b r rule: string_rest.induct) (auto split: if_splits list.splits)

definition word_of :: "string list \<Rightarrow> string list" where
  "word_of cs = takeWhile in_word cs"

function lex_from :: "string list \<Rightarrow> nat \<Rightarrow> nat \<Rightarrow> token list compiled" where
  "lex_from [] line col = Inr [\<lparr>tk_text = eof_text, tk_pos = \<lparr>ps_line = line, ps_col = col\<rparr>\<rparr>]"
| "lex_from (c # cs) line col =
     (let token = (\<lambda>text. \<lparr>tk_text = concat text, tk_pos = \<lparr>ps_line = line, ps_col = col\<rparr>\<rparr>) in
      if c = newline then lex_from cs (line + 1) 1
      else if white c then lex_from cs line (col + 1)
      else if c = ''/'' \<and> (case cs of d # _ \<Rightarrow> d = ''/'' | [] \<Rightarrow> False)
      then lex_from (dropWhile (\<lambda>d. d \<noteq> newline) (c # cs)) line
        (col + length (takeWhile (\<lambda>d. d \<noteq> newline) (c # cs)))
      else if in_word c
      then bindE (lex_from (drop (length (word_of (c # cs))) (c # cs)) line (col + length (word_of (c # cs))))
        (\<lambda>ts. Inr (token (word_of (c # cs)) # ts))
      else if c = quotes
      then (case string_rest cs of
          None \<Rightarrow> Inl (Diagnostic (at_pos \<lparr>ps_line = line, ps_col = col\<rparr> ''unterminated string''))
        | Some (b, r) \<Rightarrow> bindE (lex_from r line (col + 1 + length b)) (\<lambda>ts. Inr (token (c # b) # ts)))
      else if punctuation c then bindE (lex_from cs line (col + 1)) (\<lambda>ts. Inr (token [c] # ts))
      else Inl (Diagnostic (at_pos \<lparr>ps_line = line, ps_col = col\<rparr> (''unsupported character '' @ c))))"
  by pat_completeness auto
termination
proof (relation "measure (\<lambda>(cs, line, col). length cs)", goal_cases)
  case (4 c cs line col token)
  have "\<not> c = newline \<Longrightarrow> length (dropWhile (\<lambda>d. d \<noteq> newline) (c # cs)) < length (c # cs)"
    by (simp add: le_imp_less_Suc length_dropWhile_le)
  with 4 show ?case by simp
next
  case (5 c cs line col token)
  then show ?case by (simp add: word_of_def)
next
  case (6 c cs line col token br b r)
  then show ?case by (auto dest!: string_rest_length)
qed auto

definition lex :: "string \<Rightarrow> token list compiled" where
  "lex s = lex_from (chars s) 1 1"

text \<open>The tokens end with the end marker.\<close>

definition ends :: "token list \<Rightarrow> bool" where
  "ends ts \<longleftrightarrow> ts \<noteq> [] \<and> tk_text (last ts) = eof_text"

lemma ends_Cons: "ends ts \<Longrightarrow> ends (t # ts)"
  by (auto simp: ends_def)

lemma lex_ends: "lex_from cs line col = Inr ts \<Longrightarrow> ends ts"
proof (induction cs arbitrary: line col ts rule: length_induct)
  case (1 cs)
  then have IH: "lex_from ds l k = Inr us \<Longrightarrow> length ds < length cs \<Longrightarrow> ends us" for ds l k us by blast
  show ?case
  proof (cases cs)
    case Nil
    with 1(2) show ?thesis by (auto simp: ends_def)
  next
    case (Cons c rest)
    have comment: "c = ''/'' \<Longrightarrow> length (dropWhile (\<lambda>d. d \<noteq> newline) rest) < length cs"
      by (simp add: Cons le_imp_less_Suc length_dropWhile_le)
    have word: "in_word c \<Longrightarrow> length (drop (length (word_of cs)) cs) < length cs"
      by (simp add: Cons word_of_def)
    have quoted: "string_rest rest = Some (b, r) \<Longrightarrow> length r < length cs" for b r
      by (auto simp: Cons dest!: string_rest_length)
    have slash: "''/'' \<noteq> newline" by (simp add: newline_def)
    from 1(2) show ?thesis
      using IH [OF _ comment] IH [OF _ word] IH [OF _ quoted] IH slash
      by (auto simp: Cons Let_def bindE_Inr_iff intro!: ends_Cons split: if_splits option.splits)
  qed
qed

end
