(* ===== verification/Parsing.thy ===== *)
theory Parsing
  imports Lexing
begin

text \<open>
  The compiler's parser (\<open>crates/compiler/src/parse.rs\<close>): tokens to declarations. The parser's
  state is the tokens not taken yet; the end marker is never taken, so there is always one.
  A loop is \<open>p_while\<close>: a turn that takes no token could never end, which is an outcome of its
  own (\<open>Diverge\<close>), as is a panic; that neither happens is proved of the whole compiler.
\<close>

section \<open>Declarations\<close>

record enum_decl =
  ed_name :: string
  ed_values :: "string list"
  ed_deprecated :: "(string \<times> string option) list"
  ed_pos :: pos

record field_decl =
  fd_name :: string
  fd_type :: string
  fd_list :: bool
  fd_nullable :: bool
  fd_attributes :: "(string \<times> json) list"
  fd_deprecated :: "string option option"
  fd_pos :: pos

record unique_decl =
  ud_fields :: "string list"
  ud_pos :: pos

record model_decl =
  md_name :: string
  md_version :: nat
  md_identity :: "string list"
  md_fields :: "field_decl list"
  md_unique :: "unique_decl list"
  md_pos :: pos

record slot_decl =
  od_name :: string
  od_model :: string
  od_operation :: string
  od_cardinality :: string
  od_patch :: "string list option"
  od_bindings :: json
  od_deprecated :: "string option option"
  od_pos :: pos

record sequence_decl =
  qd_arguments :: json
  qd_pos :: pos

record mutation_decl =
  td_name :: string
  td_version :: nat
  td_slots :: "slot_decl list"
  td_sequence :: "sequence_decl option"
  td_pos :: pos

record prerequisite_field =
  pf_name :: string
  pf_type :: string
  pf_pos :: pos

record prerequisite_decl =
  pd_name :: string
  pd_fields :: "prerequisite_field list"
  pd_pos :: pos

record declarations =
  dc_enums :: "enum_decl list"
  dc_models :: "model_decl list"
  dc_mutations :: "mutation_decl list"
  dc_prerequisites :: "prerequisite_decl list"
  dc_end :: pos

section \<open>The parser's steps\<close>

type_synonym 'a parser = "token list \<Rightarrow> ('a \<times> token list) compiled"

definition retP :: "'a \<Rightarrow> 'a parser" where
  "retP a ts = Inr (a, ts)"

definition bindP :: "'a parser \<Rightarrow> ('a \<Rightarrow> 'b parser) \<Rightarrow> 'b parser" where
  "bindP p f ts = bindE (p ts) (\<lambda>(a, us). f a us)"

lemma bindP_cong [fundef_cong]:
  "p ts = q ts' \<Longrightarrow> (\<And>a us. q ts' = Inr (a, us) \<Longrightarrow> f a us = g a us) \<Longrightarrow> bindP p f ts = bindP q g ts'"
  by (auto simp: bindP_def bindE_def split: sum.splits)

definition p_pos :: "pos parser" where
  "p_pos ts = (case ts of [] \<Rightarrow> Inl Panic | t # _ \<Rightarrow> Inr (tk_pos t, ts))"

definition p_err :: "string \<Rightarrow> 'a parser" where
  "p_err msg ts = (case ts of [] \<Rightarrow> Inl Panic
     | t # _ \<Rightarrow> Inl (Diagnostic (at_pos (tk_pos t) (msg @ '' (found '' @ [CHR 0x27] @ tk_text t @ [CHR 0x27] @ '')''))))"

definition p_peek :: "string parser" where
  "p_peek ts = (case ts of [] \<Rightarrow> Inl Panic | t # _ \<Rightarrow> Inr (tk_text t, ts))"

text \<open>The token after the next one, if there is one.\<close>

definition p_second :: "string option parser" where
  "p_second ts = Inr (case ts of _ # t # _ \<Rightarrow> Some (tk_text t) | _ \<Rightarrow> None, ts)"

definition p_take :: "string parser" where
  "p_take = bindP p_peek (\<lambda>s ts. Inr (s, if s \<noteq> eof_text then tl ts else ts))"

definition p_eat :: "string \<Rightarrow> bool parser" where
  "p_eat s = bindP p_peek (\<lambda>t. if t = s then bindP p_take (\<lambda>_. retP True) else retP False)"

definition p_need :: "string \<Rightarrow> unit parser" where
  "p_need s = bindP (p_eat s) (\<lambda>b. if b then retP () else p_err (''expected '' @ s))"

definition is_ident :: "string \<Rightarrow> bool" where
  "is_ident s \<longleftrightarrow> (case s of [] \<Rightarrow> False | c # _ \<Rightarrow> is_alpha c \<or> c = CHR ''_'') \<and> list_all word_char s"

definition p_ident :: "string parser" where
  "p_ident = bindP p_take (\<lambda>s. if is_ident s then retP s else p_err ''expected identifier'')"

text \<open>A comma, unless the closing token is next.\<close>

definition p_sep :: "string \<Rightarrow> unit parser" where
  "p_sep e = bindP p_peek (\<lambda>s. if s \<noteq> e then p_need '','' else retP ())"

function p_while :: "bool parser \<Rightarrow> ('s \<Rightarrow> 's parser) \<Rightarrow> 's \<Rightarrow> 's parser" where
  "p_while cond body s ts =
     bindP cond (\<lambda>go us. if \<not> go then Inr (s, us)
       else bindP (body s)
         (\<lambda>s' us'. if length us' < length ts then p_while cond body s' us' else Inl Diverge) us) ts"
  by pat_completeness auto
termination
  by (relation "measure (\<lambda>(cond, body, s, ts). length ts)") auto

declare p_while.simps [simp del]

definition until :: "string \<Rightarrow> bool parser" where
  "until e = bindP (p_eat e) (\<lambda>b. retP (\<not> b))"

text \<open>A directive of a member: an at sign that is not doubled.\<close>

definition at_directive :: "bool parser" where
  "at_directive = bindP p_peek (\<lambda>s. bindP p_second
     (\<lambda>t. retP (s = ''@'' \<and> (case t of Some t \<Rightarrow> t \<noteq> ''@'' | None \<Rightarrow> False))))"

definition before_eof :: "bool parser" where
  "before_eof = bindP p_peek (\<lambda>s. retP (s \<noteq> eof_text))"

definition string_start :: "string \<Rightarrow> bool" where
  "string_start s = starts_with quotes s"

definition p_dotted :: "string \<Rightarrow> string parser" where
  "p_dotted = p_while (p_eat ''.'') (\<lambda>name. bindP p_ident (\<lambda>part. retP (name @ ''.'' @ part)))"

text \<open>The key of an argument: its name before a colon, else its place among the unnamed.\<close>

definition p_key :: "nat \<Rightarrow> (string \<times> nat) parser" where
  "p_key positional = bindP p_second (\<lambda>t.
     if t = Some '':'' then bindP p_ident (\<lambda>k. bindP (p_need '':'') (\<lambda>_. retP (k, positional)))
     else retP (decimal positional, positional + 1))"

section \<open>Expressions\<close>

text \<open>
  Lists, strings, dotted names and calls. The nesting is bounded by the tokens left, which is the
  fuel: \<open>p_list\<close> and \<open>p_call\<close> take the parser of the expressions inside them.
\<close>

definition p_string :: "ext \<Rightarrow> json parser" where
  "p_string x = bindP p_take (\<lambda>t. case from_str x t of Inr v \<Rightarrow> retP v | Inl _ \<Rightarrow> p_err ''invalid string'')"

definition p_name :: "string parser" where
  "p_name = bindP p_ident p_dotted"

definition p_list :: "json parser \<Rightarrow> json parser" where
  "p_list e = bindP (p_while (until '']'')
       (\<lambda>items. bindP e (\<lambda>v. bindP (p_sep '']'') (\<lambda>_. retP (items @ [v])))) [])
     (\<lambda>items. retP (JArr items))"

definition p_argument :: "json parser \<Rightarrow> nat \<times> (string \<times> json) list \<Rightarrow> (nat \<times> (string \<times> json) list) parser" where
  "p_argument e a = bindP (p_key (fst a)) (\<lambda>k. bindP e (\<lambda>v.
     if map_of (snd a) (fst k) \<noteq> None then p_err ''duplicate argument''
     else bindP (p_sep '')'') (\<lambda>_. retP (snd k, bt_ins (fst k) v (snd a)))))"

definition p_call :: "json parser \<Rightarrow> json parser" where
  "p_call e = bindP (p_need ''('') (\<lambda>_. bindP (p_while (until '')'') (p_argument e) (0, []))
     (\<lambda>a. retP (JObj (snd a))))"

primrec p_expression :: "ext \<Rightarrow> nat \<Rightarrow> json parser" where
  "p_expression x 0 = (\<lambda>_. Inl Diverge)"
| "p_expression x (Suc n) =
     bindP (p_eat ''['') (\<lambda>b.
       if b then p_list (p_expression x n)
       else bindP p_peek (\<lambda>s.
         if string_start s then p_string x
         else bindP p_name (\<lambda>name. bindP p_peek (\<lambda>s.
           if s = ''('' then bindP (p_call (p_expression x n))
             (\<lambda>args. retP (obj [(''name'', JStr name), (''arguments'', args)]))
           else retP (JStr name)))))"

definition p_arguments :: "ext \<Rightarrow> json parser" where
  "p_arguments x ts = p_call (p_expression x (length ts)) ts"

section \<open>Directives\<close>

definition p_version :: "bool \<Rightarrow> nat parser" where
  "p_version seen = (if seen then p_err ''duplicate version''
     else bindP (p_need ''('') (\<lambda>_. bindP p_take (\<lambda>t. case parse_u64 t of
         None \<Rightarrow> p_err ''expected positive version''
       | Some v \<Rightarrow> if v = 0 \<or> max_safe_integer < v then p_err ''version must be positive''
           else bindP (p_need '')'') (\<lambda>_. retP v))))"

definition p_reason :: "ext \<Rightarrow> string option parser" where
  "p_reason x = bindP p_ident (\<lambda>k.
     if k \<noteq> ''reason'' then p_err ''deprecated accepts only reason''
     else bindP (p_need '':'') (\<lambda>_. bindP p_peek (\<lambda>s.
       if \<not> string_start s then p_err ''deprecated reason must be a string''
       else bindP p_take (\<lambda>t. case from_str x t of
           Inr (JStr reason) \<Rightarrow> bindP (p_need '')'') (\<lambda>_. retP (Some reason))
         | _ \<Rightarrow> p_err ''invalid string''))))"

definition p_deprecation :: "ext \<Rightarrow> string option parser" where
  "p_deprecation x = bindP (p_eat ''('') (\<lambda>b. if \<not> b then retP None
     else bindP (p_eat '')'') (\<lambda>b. if b then retP None else p_reason x))"

definition p_names :: "string \<Rightarrow> string list parser" where
  "p_names e = p_while (until e)
     (\<lambda>n. bindP p_ident (\<lambda>i. bindP (p_sep e) (\<lambda>_. retP (n @ [i])))) []"

section \<open>Enums, models, mutations and prerequisites\<close>

definition enum_directive :: "ext \<Rightarrow> string \<Rightarrow> bool \<times> (string \<times> string option) list \<Rightarrow>
    (bool \<times> (string \<times> string option) list) parser" where
  "enum_directive x value m = bindP (p_need ''@'') (\<lambda>_. bindP p_ident (\<lambda>attr.
     if attr \<noteq> ''deprecated'' then p_err (''unsupported enum value directive '' @ attr)
     else if fst m then p_err ''duplicate deprecated''
     else bindP (p_deprecation x) (\<lambda>r. retP (True, snd m @ [(value, r)]))))"

definition enum_value :: "ext \<Rightarrow> string list \<times> (string \<times> string option) list \<Rightarrow>
    (string list \<times> (string \<times> string option) list) parser" where
  "enum_value x vs = bindP p_ident (\<lambda>value.
     bindP (p_while at_directive (enum_directive x value) (False, snd vs)) (\<lambda>m.
     bindP (p_eat '','') (\<lambda>_. retP (fst vs @ [value], snd m))))"

definition enum_block :: "ext \<Rightarrow> string \<Rightarrow> pos \<Rightarrow> enum_decl parser" where
  "enum_block x name p = bindP (p_while (until ''}'') (enum_value x) ([], []))
     (\<lambda>vs. retP \<lparr>ed_name = name, ed_values = fst vs, ed_deprecated = snd vs, ed_pos = p\<rparr>)"

definition field_directive :: "ext \<Rightarrow> field_decl \<Rightarrow> field_decl parser" where
  "field_directive x f = bindP (p_need ''@'') (\<lambda>_. bindP p_ident (\<lambda>attr.
     if attr = ''deprecated''
     then (if fd_deprecated f \<noteq> None then p_err ''duplicate field directive''
       else bindP (p_deprecation x) (\<lambda>r. retP (f\<lparr>fd_deprecated := Some r\<rparr>)))
     else if attr \<notin> {''reference'', ''inverse'', ''requires''}
     then p_err (''unsupported field directive '' @ attr)
     else bindP (p_arguments x) (\<lambda>args.
       if map_of (fd_attributes f) attr \<noteq> None then p_err ''duplicate field directive''
       else retP (f\<lparr>fd_attributes := bt_ins attr args (fd_attributes f)\<rparr>))))"

definition brackets :: "bool parser" where
  "brackets = bindP (p_eat ''['') (\<lambda>b. if b then bindP (p_need '']'') (\<lambda>_. retP True) else retP False)"

definition model_field :: "ext \<Rightarrow> pos \<Rightarrow> field_decl parser" where
  "model_field x p = bindP p_ident (\<lambda>name. bindP p_ident (\<lambda>ty. bindP brackets (\<lambda>list.
     bindP (p_eat ''?'') (\<lambda>nullable.
       p_while at_directive (field_directive x)
         \<lparr>fd_name = name, fd_type = ty, fd_list = list, fd_nullable = nullable, fd_attributes = [],
          fd_deprecated = None, fd_pos = p\<rparr>))))"

text \<open>A model's members are read into its declaration, beside whether a version was seen.\<close>

definition model_directive :: "pos \<Rightarrow> model_decl \<times> bool \<Rightarrow> (model_decl \<times> bool) parser" where
  "model_directive p m = bindP (p_need ''@'') (\<lambda>_. bindP p_ident (\<lambda>attr.
     if attr = ''version''
     then bindP (p_version (snd m)) (\<lambda>v. retP ((fst m)\<lparr>md_version := v\<rparr>, True))
     else bindP (p_need ''('') (\<lambda>_. bindP (p_names '')'') (\<lambda>names.
       if attr = ''id''
       then (if md_identity (fst m) \<noteq> [] then p_err ''duplicate identity''
         else retP ((fst m)\<lparr>md_identity := names\<rparr>, snd m))
       else if attr = ''unique''
       then retP ((fst m)\<lparr>md_unique := md_unique (fst m) @ [\<lparr>ud_fields = names, ud_pos = p\<rparr>]\<rparr>, snd m)
       else p_err (''unsupported model directive '' @ attr)))))"

definition model_member :: "ext \<Rightarrow> model_decl \<times> bool \<Rightarrow> (model_decl \<times> bool) parser" where
  "model_member x m = bindP p_pos (\<lambda>p. bindP (p_eat ''@'') (\<lambda>b.
     if b then model_directive p m
     else bindP (model_field x p) (\<lambda>f. retP ((fst m)\<lparr>md_fields := md_fields (fst m) @ [f]\<rparr>, snd m))))"

definition model_block :: "ext \<Rightarrow> string \<Rightarrow> pos \<Rightarrow> model_decl parser" where
  "model_block x name p = bindP (p_while (until ''}'') (model_member x)
       (\<lparr>md_name = name, md_version = 1, md_identity = [], md_fields = [], md_unique = [], md_pos = p\<rparr>, False))
     (\<lambda>m. retP (fst m))"

definition mutation_directive :: "ext \<Rightarrow> pos \<Rightarrow> mutation_decl \<times> bool \<Rightarrow> (mutation_decl \<times> bool) parser" where
  "mutation_directive x p m = bindP (p_need ''@'') (\<lambda>_. bindP p_ident (\<lambda>attr.
     if attr = ''sequence''
     then bindP (p_arguments x) (\<lambda>args.
       retP ((fst m)\<lparr>td_sequence := Some \<lparr>qd_arguments = args, qd_pos = p\<rparr>\<rparr>, snd m))
     else if attr \<noteq> ''version'' then p_err (''unsupported mutation directive '' @ attr)
     else bindP (p_version (snd m)) (\<lambda>v. retP ((fst m)\<lparr>td_version := v\<rparr>, True))))"

definition slot_directive :: "ext \<Rightarrow> slot_decl \<Rightarrow> slot_decl parser" where
  "slot_directive x s = bindP (p_need ''@'') (\<lambda>_. bindP p_ident (\<lambda>attr.
     if attr \<noteq> ''deprecated'' then p_err (''unsupported slot directive '' @ attr)
     else if od_deprecated s \<noteq> None then p_err ''duplicate deprecated''
     else bindP (p_deprecation x) (\<lambda>r. retP (s\<lparr>od_deprecated := Some r\<rparr>))))"

definition patch_names :: "string \<Rightarrow> string list option parser" where
  "patch_names operation = bindP (p_eat ''<'') (\<lambda>b.
     if b then (if operation \<noteq> ''update'' then p_err ''field restriction requires update''
       else bindP (p_names ''>'') (\<lambda>n. retP (Some n)))
     else retP None)"

definition slot_bindings :: "ext \<Rightarrow> json parser" where
  "slot_bindings x = bindP p_peek (\<lambda>s. if s = ''('' then p_arguments x else retP (JObj []))"

definition slot_cardinality :: "string parser" where
  "slot_cardinality = bindP brackets (\<lambda>list. if list then retP ''list''
     else bindP (p_eat ''?'') (\<lambda>b. retP (if b then ''optional'' else ''single'')))"

definition mutation_slot :: "ext \<Rightarrow> pos \<Rightarrow> slot_decl parser" where
  "mutation_slot x p = bindP p_ident (\<lambda>slot. bindP p_ident (\<lambda>model. bindP (p_need ''.'') (\<lambda>_.
     bindP p_ident (\<lambda>operation.
     if operation \<notin> {''create'', ''update'', ''delete''} then p_err ''unknown operation''
     else bindP (patch_names operation) (\<lambda>patch. bindP (slot_bindings x) (\<lambda>bindings.
       bindP slot_cardinality (\<lambda>cardinality.
         p_while at_directive (slot_directive x)
           \<lparr>od_name = slot, od_model = model, od_operation = operation, od_cardinality = cardinality,
            od_patch = patch, od_bindings = bindings, od_deprecated = None, od_pos = p\<rparr>)))))))"

definition mutation_member :: "ext \<Rightarrow> mutation_decl \<times> bool \<Rightarrow> (mutation_decl \<times> bool) parser" where
  "mutation_member x m = bindP p_pos (\<lambda>p. bindP (p_eat ''@'') (\<lambda>b.
     if b then mutation_directive x p m
     else bindP (mutation_slot x p) (\<lambda>s. retP ((fst m)\<lparr>td_slots := td_slots (fst m) @ [s]\<rparr>, snd m))))"

definition mutation_block :: "ext \<Rightarrow> string \<Rightarrow> pos \<Rightarrow> mutation_decl parser" where
  "mutation_block x name p = bindP (p_while (until ''}'') (mutation_member x)
       (\<lparr>td_name = name, td_version = 1, td_slots = [], td_sequence = None, td_pos = p\<rparr>, False))
     (\<lambda>m. retP (fst m))"

definition prerequisite_member :: "prerequisite_field list \<Rightarrow> prerequisite_field list parser" where
  "prerequisite_member fs = bindP p_pos (\<lambda>p. bindP p_ident (\<lambda>name. bindP p_ident (\<lambda>ty.
     bindP (p_sep '')'') (\<lambda>_. retP (fs @ [\<lparr>pf_name = name, pf_type = ty, pf_pos = p\<rparr>])))))"

definition prerequisite_block :: "string \<Rightarrow> pos \<Rightarrow> prerequisite_decl parser" where
  "prerequisite_block name p = bindP (p_need ''('') (\<lambda>_.
     bindP (p_while (until '')'') prerequisite_member [])
     (\<lambda>fs. retP \<lparr>pd_name = name, pd_fields = fs, pd_pos = p\<rparr>))"

section \<open>The source\<close>

definition p_declaration :: "ext \<Rightarrow> declarations \<Rightarrow> declarations parser" where
  "p_declaration x d = bindP p_pos (\<lambda>p. bindP p_take (\<lambda>kind. bindP p_ident (\<lambda>name.
     if kind = ''prerequisite''
     then bindP (prerequisite_block name p)
       (\<lambda>b. retP (d\<lparr>dc_prerequisites := dc_prerequisites d @ [b]\<rparr>))
     else bindP (p_need ''{'') (\<lambda>_.
       if kind = ''enum''
       then bindP (enum_block x name p) (\<lambda>b. retP (d\<lparr>dc_enums := dc_enums d @ [b]\<rparr>))
       else if kind = ''model''
       then bindP (model_block x name p) (\<lambda>b. retP (d\<lparr>dc_models := dc_models d @ [b]\<rparr>))
       else if kind = ''mutation''
       then bindP (mutation_block x name p) (\<lambda>b. retP (d\<lparr>dc_mutations := dc_mutations d @ [b]\<rparr>))
       else p_err (''unsupported declaration '' @ kind)))))"

definition no_declarations :: declarations where
  "no_declarations = \<lparr>dc_enums = [], dc_models = [], dc_mutations = [], dc_prerequisites = [],
     dc_end = \<lparr>ps_line = 0, ps_col = 0\<rparr>\<rparr>"

definition p_source :: "ext \<Rightarrow> declarations parser" where
  "p_source x = bindP (p_while before_eof (p_declaration x) no_declarations)
     (\<lambda>d. bindP p_pos (\<lambda>p. retP (d\<lparr>dc_end := p\<rparr>)))"

definition parse :: "ext \<Rightarrow> string \<Rightarrow> declarations compiled" where
  "parse x source = bindE (lex source) (\<lambda>ts. bindE (p_source x ts) (\<lambda>(d, _). Inr d))"

end
