(* ===== verification/Descriptors.thy ===== *)
theory Descriptors
  imports Protocol
begin

text \<open>
  The derived decoders of the runtime descriptors (\<open>crates/core/src/schema.rs\<close>), and
  \<open>Schema::from_value\<close>. A struct is read from an object by name or from an array by position;
  an absent field with a default takes it. A scalar's name is read from a string.
\<close>

definition decode_list :: "(json \<Rightarrow> 'a res) \<Rightarrow> json \<Rightarrow> 'a list res" where
  "decode_list f v = bindE (ok_or (as_array v) derive_error) (emap f)"

definition decode_string :: "json \<Rightarrow> string res" where
  "decode_string v = ok_or (as_str v) derive_error"

definition decode_bool :: "json \<Rightarrow> bool res" where
  "decode_bool v = (case v of JBool b \<Rightarrow> Inr b | _ \<Rightarrow> Inl derive_error)"

definition decode_u64 :: "json \<Rightarrow> nat res" where
  "decode_u64 v = ok_or (as_u64 v) derive_error"

definition needed :: "string list \<Rightarrow> json \<Rightarrow> string \<Rightarrow> (json \<Rightarrow> 'a res) \<Rightarrow> 'a res" where
  "needed names v name f = bindE (ok_or (wire_field names v name) derive_error) f"

definition defaulted :: "string list \<Rightarrow> json \<Rightarrow> string \<Rightarrow> 'a \<Rightarrow> (json \<Rightarrow> 'a res) \<Rightarrow> 'a res" where
  "defaulted names v name d f = (case wire_field names v name of None \<Rightarrow> Inr d | Some w \<Rightarrow> f w)"

definition shaped :: "string list \<Rightarrow> json \<Rightarrow> unit res" where
  "shaped names v = ensure (wire_shape names v) derive_error"

definition scalar_named :: "string \<Rightarrow> scalar_type option" where
  "scalar_named s = map_of
     [(''string'', StString), (''boolean'', StBoolean), (''int'', StInt), (''float'', StFloat),
      (''dateTime'', StDateTime), (''uuid'', StUuid)] s"

text \<open>The variant of a type is its \<open>kind\<close>.\<close>

lemma wire_field_size: "wire_field names v name = Some w \<Longrightarrow> size w < size v"
proof (cases v)
  case (JArr vs)
  assume "wire_field names v name = Some w"
  then have "w \<in> set vs" by (auto simp: wire_field_def JArr dest!: map_of_SomeD set_zip_rightD)
  then show ?thesis using size_list_estimation' [of w vs _ size] by (simp add: JArr less_Suc_eq_le)
next
  case (JObj kvs)
  assume "wire_field names v name = Some w"
  then have "(name, w) \<in> set kvs" by (auto simp: wire_field_def JObj dest: map_of_SomeD)
  from size_entry [OF this] show ?thesis by (simp add: JObj)
qed (auto simp: wire_field_def)

function decode_type :: "json \<Rightarrow> value_type res" where
  "decode_type v =
     bindE (shaped [''kind'', ''name''] v)
     (\<lambda>_. bindE (needed [''kind'', ''name''] v ''kind'' decode_string)
     (\<lambda>kind.
        if kind = ''scalar''
        then needed [''kind'', ''name''] v ''name''
          (\<lambda>w. bindE (decode_string w) (\<lambda>n. map_sum id TScalar (ok_or (scalar_named n) derive_error)))
        else if kind = ''enum''
        then needed [''kind'', ''name''] v ''name'' (\<lambda>w. map_sum id TEnum (decode_string w))
        else if kind = ''list''
        then (case wire_field [''kind'', ''element''] v ''element'' of
            None \<Rightarrow> Inl derive_error
          | Some w \<Rightarrow> map_sum id TList (decode_type w))
        else Inl derive_error))"
  by pat_completeness auto
termination
  by (relation "measure size") (auto dest: wire_field_size)

declare decode_type.simps [simp del]

definition enum_names :: "string list" where
  "enum_names = [''name'', ''values'']"

definition decode_enum :: "json \<Rightarrow> enum_desc res" where
  "decode_enum v =
     bindE (shaped enum_names v)
     (\<lambda>_. bindE (needed enum_names v ''name'' decode_string)
     (\<lambda>n. bindE (needed enum_names v ''values'' (decode_list decode_string))
     (\<lambda>vs. Inr \<lparr>e_name = n, e_values = vs\<rparr>)))"

definition field_names :: "string list" where
  "field_names = [''name'', ''type'', ''nullable'', ''default'']"

definition decode_field :: "json \<Rightarrow> field_desc res" where
  "decode_field v =
     bindE (shaped field_names v)
     (\<lambda>_. bindE (needed field_names v ''name'' decode_string)
     (\<lambda>n. bindE (needed field_names v ''type'' decode_type)
     (\<lambda>ty. bindE (needed field_names v ''nullable'' decode_bool)
     (\<lambda>nullable. bindE (defaulted field_names v ''default'' None
         (\<lambda>w. Inr (if is_null w then None else Some w)))
     (\<lambda>d. Inr \<lparr>f_name = n, f_type = ty, f_nullable = nullable, f_default = d\<rparr>)))))"

definition relation_names :: "string list" where
  "relation_names = [''name'', ''target'', ''fields'', ''targetFields'', ''onDelete'']"

definition decode_relation :: "json \<Rightarrow> relation_desc res" where
  "decode_relation v =
     bindE (shaped relation_names v)
     (\<lambda>_. bindE (needed relation_names v ''name'' decode_string)
     (\<lambda>n. bindE (needed relation_names v ''target'' decode_string)
     (\<lambda>t. bindE (needed relation_names v ''fields'' (decode_list decode_string))
     (\<lambda>fs. bindE (needed relation_names v ''targetFields'' (decode_list decode_string))
     (\<lambda>ts. bindE (needed relation_names v ''onDelete'' decode_string)
     (\<lambda>d. Inr \<lparr>r_name = n, r_target = t, r_fields = fs, r_target_fields = ts, r_on_delete = d\<rparr>))))))"

definition model_names :: "string list" where
  "model_names = [''name'', ''version'', ''identity'', ''fields'', ''relations'', ''unique'']"

definition decode_model :: "json \<Rightarrow> model_desc res" where
  "decode_model v =
     bindE (shaped model_names v)
     (\<lambda>_. bindE (needed model_names v ''name'' decode_string)
     (\<lambda>n. bindE (defaulted model_names v ''version'' 1 decode_u64)
     (\<lambda>version. bindE (needed model_names v ''identity'' (decode_list decode_string))
     (\<lambda>identity. bindE (needed model_names v ''fields'' (decode_list decode_field))
     (\<lambda>fs. bindE (defaulted model_names v ''relations'' [] (decode_list decode_relation))
     (\<lambda>rs. bindE (defaulted model_names v ''unique'' [] (decode_list (decode_list decode_string)))
     (\<lambda>us. Inr \<lparr>m_name = n, m_version = version, m_identity = identity, m_fields = fs,
        m_relations = rs, m_unique = us\<rparr>)))))))"

definition requirement_names :: "string list" where
  "requirement_names = [''model'', ''field'', ''name'', ''arguments'']"

definition decode_string_map :: "json \<Rightarrow> (string \<times> string) list res" where
  "decode_string_map v =
     bindE (ok_or (as_object v) derive_error)
     (\<lambda>kvs. bindE (emap (\<lambda>(k, w). map_sum id (Pair k) (decode_string w)) kvs) (\<lambda>ps. Inr (bt_of ps)))"

definition decode_requirement :: "json \<Rightarrow> requirement_desc res" where
  "decode_requirement v =
     bindE (shaped requirement_names v)
     (\<lambda>_. bindE (needed requirement_names v ''model'' decode_string)
     (\<lambda>m. bindE (needed requirement_names v ''field'' decode_string)
     (\<lambda>f. bindE (needed requirement_names v ''name'' decode_string)
     (\<lambda>n. bindE (needed requirement_names v ''arguments'' decode_string_map)
     (\<lambda>args. Inr \<lparr>q_model = m, q_field = f, q_name = n, q_arguments = args\<rparr>)))))"

definition schema_names :: "string list" where
  "schema_names = [''enums'', ''models'', ''requirements'', ''prerequisites'', ''clientPolicies'']"

definition decode_schema :: "json \<Rightarrow> schema res" where
  "decode_schema v =
     bindE (shaped schema_names v)
     (\<lambda>_. bindE (needed schema_names v ''enums'' (decode_list decode_enum))
     (\<lambda>es. bindE (needed schema_names v ''models'' (decode_list decode_model))
     (\<lambda>ms. bindE (defaulted schema_names v ''requirements'' [] (decode_list decode_requirement))
     (\<lambda>qs. bindE (defaulted schema_names v ''prerequisites'' [] (decode_list Inr))
     (\<lambda>ps. bindE (defaulted schema_names v ''clientPolicies'' [] (decode_list Inr))
     (\<lambda>cs. Inr \<lparr>s_enums = es, s_models = ms, s_requirements = qs, s_prerequisites = ps, s_policies = cs\<rparr>))))))"

definition schema_from_value :: "json \<Rightarrow> schema res" where
  "schema_from_value v = bindE (decode_schema v) (\<lambda>s. bindE (validate s) (\<lambda>_. Inr s))"

section \<open>Decoding what was written\<close>

lemma wire_obj: "wire_field names (obj kvs) k = map_of (rev kvs) k"
  by (simp add: wire_field_def obj_def map_of_bt_of)

lemma shaped_obj [simp]: "shaped names (obj kvs) = Inr ()"
  by (simp add: shaped_def wire_shape_def obj_def)

lemma needed_obj: "map_of (rev kvs) k = Some w \<Longrightarrow> needed names (obj kvs) k f = f w"
  by (simp add: needed_def wire_obj)

lemma defaulted_obj:
  "defaulted names (obj kvs) k d f = (case map_of (rev kvs) k of None \<Rightarrow> Inr d | Some w \<Rightarrow> f w)"
  by (simp add: defaulted_def wire_obj)

lemma decode_list_map:
  "(\<And>x. x \<in> set xs \<Longrightarrow> f (g x) = Inr (h x)) \<Longrightarrow> decode_list f (JArr (map g xs)) = Inr (map h xs)"
  by (auto simp: decode_list_def emap_map intro!: emap_all_ok)

lemma decode_strings: "decode_list decode_string (JArr (map JStr ss)) = Inr ss"
  using decode_list_map [of ss decode_string JStr id] by (simp add: decode_string_def)

lemma decode_values: "decode_list Inr (JArr vs) = Inr vs"
  using decode_list_map [of vs Inr id id] by simp

end
