(* ===== verification/Generating.thy ===== *)
theory Generating
  imports Descriptors
begin

text \<open>
  The compiler's validated schema (\<open>Validated\<close> of \<open>crates/compiler/src/validate.rs\<close>) and its
  rendering as the runtime descriptors (\<open>crates/compiler/src/generate.rs\<close>). A field's type has
  the constructors of the runtime's, so it is that type.
\<close>

section \<open>The validated schema\<close>

record v_field =
  vf_name :: string
  vf_type :: value_type
  vf_nullable :: bool

datatype on_delete = DeleteNone | DeleteCascade

record v_relation =
  vr_name :: string
  vr_target :: string
  vr_fields :: "string list"
  vr_target_fields :: "string list"
  vr_on_delete :: on_delete

record v_model =
  vm_name :: string
  vm_version :: nat
  vm_identity :: "string list"
  vm_fields :: "v_field list"
  vm_relations :: "v_relation list"
  vm_unique :: "string list list"

record v_constraint =
  vu_model :: string
  vu_fields :: "string list"

record v_inverse =
  vi_model :: string
  vi_name :: string
  vi_target :: string
  vi_list :: bool
  vi_nullable :: bool
  vi_relation :: "string option"
  vi_reference :: string
  vi_fields :: "string list"

record v_requirement =
  vq_model :: string
  vq_field :: string
  vq_prerequisite :: string
  vq_arguments :: "string list"

record v_prerequisite =
  vp_name :: string
  vp_fields :: "(string \<times> string) list"

datatype slot_operation = SlotCreate | SlotUpdate | SlotDelete

datatype slot_count = Single | Optional | Many

record v_binding =
  vb_relation :: string
  vb_slot :: string
  vb_fields :: "string list"

record v_slot =
  vs_name :: string
  vs_model :: string
  vs_operation :: slot_operation
  vs_cardinality :: slot_count
  vs_patch :: "string list option"
  vs_bindings :: "v_binding list"

text \<open>A call of \<open>@@sequence(after: \<dots>)\<close>: the mutation, and a path for each of its slots named.\<close>

record v_call =
  vc_mutation :: string
  vc_bindings :: "(string \<times> string list) list"

record v_mutation =
  vt_name :: string
  vt_version :: nat
  vt_slots :: "v_slot list"
  vt_sequence :: "v_call list option"

datatype deprecation =
    DeprecatedValue string string "string option"
  | DeprecatedField string string "string option"
  | DeprecatedSlot string string "string option"

record validated =
  vd_enums :: "enum_desc list"
  vd_models :: "v_model list"
  vd_unique :: "v_constraint list"
  vd_inverses :: "v_inverse list"
  vd_requirements :: "v_requirement list"
  vd_prerequisites :: "v_prerequisite list"
  vd_mutations :: "v_mutation list"
  vd_deprecations :: "deprecation list"

section \<open>Rendering\<close>

definition jstrs :: "string list \<Rightarrow> json" where
  "jstrs ss = JArr (map JStr ss)"

fun jopt :: "string option \<Rightarrow> json" where
  "jopt None = JNull"
| "jopt (Some s) = JStr s"

fun scalar_text :: "scalar_type \<Rightarrow> string" where
  "scalar_text StString = ''string''"
| "scalar_text StBoolean = ''boolean''"
| "scalar_text StInt = ''int''"
| "scalar_text StFloat = ''float''"
| "scalar_text StUuid = ''uuid''"
| "scalar_text StDateTime = ''dateTime''"

fun on_delete_text :: "on_delete \<Rightarrow> string" where
  "on_delete_text DeleteNone = ''none''"
| "on_delete_text DeleteCascade = ''delete''"

fun operation_text :: "slot_operation \<Rightarrow> string" where
  "operation_text SlotCreate = ''create''"
| "operation_text SlotUpdate = ''update''"
| "operation_text SlotDelete = ''delete''"

fun cardinality_text :: "slot_count \<Rightarrow> string" where
  "cardinality_text Single = ''single''"
| "cardinality_text Optional = ''optional''"
| "cardinality_text Many = ''list''"

fun type_json :: "value_type \<Rightarrow> json" where
  "type_json (TScalar s) = obj [(''kind'', JStr ''scalar''), (''name'', JStr (scalar_text s))]"
| "type_json (TEnum n) = obj [(''kind'', JStr ''enum''), (''name'', JStr n)]"
| "type_json (TList t) = obj [(''kind'', JStr ''list''), (''element'', type_json t)]"

definition field_json :: "v_field \<Rightarrow> json" where
  "field_json f = obj [(''name'', JStr (vf_name f)), (''nullable'', JBool (vf_nullable f)),
     (''type'', type_json (vf_type f))]"

definition relation_json :: "v_relation \<Rightarrow> json" where
  "relation_json r = obj [(''name'', JStr (vr_name r)), (''target'', JStr (vr_target r)),
     (''fields'', jstrs (vr_fields r)), (''targetFields'', jstrs (vr_target_fields r)),
     (''onDelete'', JStr (on_delete_text (vr_on_delete r)))]"

definition model_json :: "v_model \<Rightarrow> json" where
  "model_json m = obj [(''name'', JStr (vm_name m)), (''version'', jnat (vm_version m)),
     (''identity'', jstrs (vm_identity m)), (''fields'', JArr (map field_json (vm_fields m))),
     (''relations'', JArr (map relation_json (vm_relations m))),
     (''unique'', JArr (map jstrs (vm_unique m)))]"

definition enum_json :: "enum_desc \<Rightarrow> json" where
  "enum_json e = obj [(''name'', JStr (e_name e)), (''values'', jstrs (e_values e))]"

definition binding_json :: "v_binding \<Rightarrow> json" where
  "binding_json b = obj [(''slot'', JStr (vb_slot b)), (''fields'', jstrs (vb_fields b))]"

definition slot_json :: "v_slot \<Rightarrow> json" where
  "slot_json s =
     (let v = obj [(''name'', JStr (vs_name s)), (''model'', JStr (vs_model s)),
          (''operation'', JStr (operation_text (vs_operation s))),
          (''cardinality'', JStr (cardinality_text (vs_cardinality s)))];
        v = (case vs_patch s of None \<Rightarrow> v | Some fs \<Rightarrow> set_key v ''allowedPatchFields'' (jstrs fs)) in
      if vs_bindings s = [] then v
      else set_key v ''bindings'' (JArr (map binding_json (vs_bindings s))))"

definition call_json :: "v_call \<Rightarrow> json" where
  "call_json c = obj [(''name'', JStr (vc_mutation c)),
     (''arguments'', obj (map (\<lambda>(s, p). (s, JStr (join ''.'' p))) (vc_bindings c)))]"

definition v_mutation_json :: "v_mutation \<Rightarrow> json" where
  "v_mutation_json m = obj [(''name'', JStr (vt_name m)), (''version'', jnat (vt_version m)),
     (''slots'', JArr (map slot_json (vt_slots m))),
     (''sequence'', case vt_sequence m of None \<Rightarrow> JNull
        | Some calls \<Rightarrow> obj [(''after'', JArr (map call_json calls))])]"

definition requirement_json :: "v_requirement \<Rightarrow> json" where
  "requirement_json r = obj [(''model'', JStr (vq_model r)), (''field'', JStr (vq_field r)),
     (''name'', JStr (vq_prerequisite r)),
     (''arguments'', obj (map (\<lambda>a. (a, JStr ''self'')) (vq_arguments r)))]"

definition prerequisite_json :: "v_prerequisite \<Rightarrow> json" where
  "prerequisite_json p = obj [(''name'', JStr (vp_name p)),
     (''fields'', JArr (map (\<lambda>(n, ty). obj [(''name'', JStr n), (''type'', JStr ty)]) (vp_fields p)))]"

definition schema_json :: "validated \<Rightarrow> json" where
  "schema_json v = obj [(''models'', JArr (map model_json (vd_models v))),
     (''enums'', JArr (map enum_json (vd_enums v))),
     (''requirements'', JArr (map requirement_json (vd_requirements v))),
     (''prerequisites'', JArr (map prerequisite_json (vd_prerequisites v))),
     (''clientPolicies'', JArr (map v_mutation_json (vd_mutations v)))]"

definition constraint_json :: "v_constraint \<Rightarrow> json" where
  "constraint_json c = obj [(''model'', JStr (vu_model c)), (''fields'', jstrs (vu_fields c))]"

definition inverse_json :: "v_inverse \<Rightarrow> json" where
  "inverse_json i = obj [(''model'', JStr (vi_model i)), (''name'', JStr (vi_name i)),
     (''target'', JStr (vi_target i)), (''list'', JBool (vi_list i)), (''nullable'', JBool (vi_nullable i)),
     (''relationName'', jopt (vi_relation i)), (''reference'', JStr (vi_reference i)),
     (''fields'', jstrs (vi_fields i))]"

fun deprecation_json :: "deprecation \<Rightarrow> json" where
  "deprecation_json (DeprecatedValue en v r) =
     obj [(''kind'', JStr ''enumValue''), (''enum'', JStr en), (''value'', JStr v), (''reason'', jopt r)]"
| "deprecation_json (DeprecatedField m f r) =
     obj [(''kind'', JStr ''field''), (''model'', JStr m), (''field'', JStr f), (''reason'', jopt r)]"
| "deprecation_json (DeprecatedSlot m s r) =
     obj [(''kind'', JStr ''slot''), (''mutation'', JStr m), (''slot'', JStr s), (''reason'', jopt r)]"

definition descriptors :: "validated \<Rightarrow> json" where
  "descriptors v = obj [(''schema'', schema_json v),
     (''mutations'', JArr (map v_mutation_json (vd_mutations v))),
     (''loaders'', jstrs (map vm_name (vd_models v))),
     (''uniqueConstraints'', JArr (map constraint_json (vd_unique v))),
     (''inverses'', JArr (map inverse_json (vd_inverses v))),
     (''requirements'', JArr (map requirement_json (vd_requirements v))),
     (''prerequisites'', JArr (map prerequisite_json (vd_prerequisites v))),
     (''deprecations'', JArr (map deprecation_json (vd_deprecations v)))]"

section \<open>What the runtime reads\<close>

text \<open>The typed descriptors of a validated schema, and that the runtime reads exactly them.\<close>

definition field_desc_of :: "v_field \<Rightarrow> field_desc" where
  "field_desc_of f = \<lparr>f_name = vf_name f, f_type = vf_type f, f_nullable = vf_nullable f, f_default = None\<rparr>"

definition relation_desc_of :: "v_relation \<Rightarrow> relation_desc" where
  "relation_desc_of r = \<lparr>r_name = vr_name r, r_target = vr_target r, r_fields = vr_fields r,
     r_target_fields = vr_target_fields r, r_on_delete = on_delete_text (vr_on_delete r)\<rparr>"

definition model_desc_of :: "v_model \<Rightarrow> model_desc" where
  "model_desc_of m = \<lparr>m_name = vm_name m, m_version = vm_version m, m_identity = vm_identity m,
     m_fields = map field_desc_of (vm_fields m), m_relations = map relation_desc_of (vm_relations m),
     m_unique = vm_unique m\<rparr>"

definition requirement_desc_of :: "v_requirement \<Rightarrow> requirement_desc" where
  "requirement_desc_of r = \<lparr>q_model = vq_model r, q_field = vq_field r, q_name = vq_prerequisite r,
     q_arguments = bt_of (map (\<lambda>a. (a, ''self'')) (vq_arguments r))\<rparr>"

definition schema_of :: "validated \<Rightarrow> schema" where
  "schema_of v = \<lparr>s_enums = vd_enums v, s_models = map model_desc_of (vd_models v),
     s_requirements = map requirement_desc_of (vd_requirements v),
     s_prerequisites = map prerequisite_json (vd_prerequisites v),
     s_policies = map v_mutation_json (vd_mutations v)\<rparr>"

lemma decode_jstrs [simp]: "decode_list decode_string (jstrs ss) = Inr ss"
  by (simp add: jstrs_def decode_strings)

lemma scalar_named_text [simp]: "scalar_named (scalar_text s) = Some s"
  by (cases s) (simp_all add: scalar_named_def)

lemmas decoding = needed_obj defaulted_obj wire_obj decode_string_def decode_bool_def decode_u64_def

lemma decode_type_json [simp]: "decode_type (type_json t) = Inr t"
proof (induction t)
  case (TScalar s)
  show ?case by (simp add: decode_type.simps decoding)
next
  case (TEnum n)
  show ?case by (simp add: decode_type.simps decoding)
next
  case (TList t)
  then show ?case by (simp add: decode_type.simps [of "obj _"] decoding)
qed

lemma decode_field_json [simp]: "decode_field (field_json f) = Inr (field_desc_of f)"
  by (simp add: decode_field_def field_json_def field_desc_of_def decoding)

lemma decode_enum_json [simp]: "decode_enum (enum_json e) = Inr e"
  by (simp add: decode_enum_def enum_json_def decoding)

lemma decode_relation_json [simp]: "decode_relation (relation_json r) = Inr (relation_desc_of r)"
  by (simp add: decode_relation_def relation_json_def relation_desc_of_def decoding)

lemma decode_model_json [simp]: "decode_model (model_json m) = Inr (model_desc_of m)"
proof -
  have "decode_list (decode_list decode_string) (JArr (map jstrs us)) = Inr us" for us
    using decode_list_map [of us _ jstrs id] by simp
  then show ?thesis
    by (simp add: decode_model_def model_json_def model_desc_of_def decoding decode_list_map)
qed

lemma emap_pairs: "emap (\<lambda>(k, w). map_sum id (Pair k) (decode_string w)) (map (\<lambda>(k, s). (k, JStr s)) ps) = Inr ps"
  by (induction ps) (auto simp: decode_string_def)

lemma bt_ins_map: "bt_ins k (f v) (map (\<lambda>(k, v). (k, f v)) m) = map (\<lambda>(k, v). (k, f v)) (bt_ins k v m)"
  by (induction k v m rule: bt_ins.induct) auto

lemma bt_of_map: "bt_of (map (\<lambda>(k, v). (k, f v)) kvs) = map (\<lambda>(k, v). (k, f v)) (bt_of kvs)"
proof -
  have "fold (\<lambda>(k, v). bt_ins k v) (map (\<lambda>(k, v). (k, f v)) kvs) (map (\<lambda>(k, v). (k, f v)) m) =
    map (\<lambda>(k, v). (k, f v)) (fold (\<lambda>(k, v). bt_ins k v) kvs m)" for m
    by (induction kvs arbitrary: m) (auto simp: bt_ins_map)
  from this [of "[]"] show ?thesis by (simp add: bt_of_def)
qed

lemma decode_string_map_obj: "decode_string_map (obj (map (\<lambda>(k, s). (k, JStr s)) ps)) = Inr (bt_of ps)"
  by (simp add: decode_string_map_def obj_def bt_of_map emap_pairs bt_of_sorted)

lemma decode_requirement_json [simp]: "decode_requirement (requirement_json r) = Inr (requirement_desc_of r)"
proof -
  have "map (\<lambda>a. (a, JStr ''self'')) as = map (\<lambda>(k, s). (k, JStr s)) (map (\<lambda>a. (a, ''self'')) as)" for as :: "string list"
    by simp
  then show ?thesis
    by (simp only: requirement_json_def)
      (simp add: decode_requirement_def requirement_desc_of_def decoding decode_string_map_obj
        del: map_map)
qed

lemma decode_schema_json: "decode_schema (schema_json v) = Inr (schema_of v)"
  by (simp add: decode_schema_def schema_json_def schema_of_def decoding decode_list_map decode_values
      decode_list_map [of _ _ _ id, simplified])

end
