(* ===== verification/Validating.thy ===== *)
theory Validating
  imports Parsing Generating
begin

text \<open>
  The compiler's validation (\<open>crates/compiler/src/validate.rs\<close>): declarations to a validated
  schema, every rule with its diagnostic and position, every \<open>unwrap\<close> and index a \<open>Panic\<close> when
  it fails. The candidates for inverses and requirements, which the code collects while it
  walks the fields, are listed apart: an error drops them.
\<close>

section \<open>Refusals\<close>

definition refuse :: "pos \<Rightarrow> string \<Rightarrow> 'a compiled" where
  "refuse p msg = Inl (Diagnostic (at_pos p msg))"

definition demand :: "bool \<Rightarrow> pos \<Rightarrow> string \<Rightarrow> unit compiled" where
  "demand b p msg = (if b then Inr () else refuse p msg)"

definition found :: "'a option \<Rightarrow> pos \<Rightarrow> string \<Rightarrow> 'a compiled" where
  "found v p msg = (case v of Some a \<Rightarrow> Inr a | None \<Rightarrow> refuse p msg)"

definition unwrap :: "'a option \<Rightarrow> 'a compiled" where
  "unwrap v = (case v of Some a \<Rightarrow> Inr a | None \<Rightarrow> Inl Panic)"

section \<open>Lookups\<close>

definition is_model :: "declarations \<Rightarrow> string \<Rightarrow> model_decl option" where
  "is_model d name = find (\<lambda>m. md_name m = name) (dc_models d)"

definition decl_field :: "model_decl \<Rightarrow> string \<Rightarrow> field_decl option" where
  "decl_field m name = find (\<lambda>f. fd_name f = name) (md_fields m)"

definition strings :: "json list \<Rightarrow> string list" where
  "strings vs = map (\<lambda>v. case as_str v of Some s \<Rightarrow> s | None \<Rightarrow> []) vs"

definition attribute :: "field_decl \<Rightarrow> string \<Rightarrow> json option" where
  "attribute f k = map_of (fd_attributes f) k"

definition v_model_of :: "v_model list \<Rightarrow> string \<Rightarrow> v_model option" where
  "v_model_of ms name = find (\<lambda>m. vm_name m = name) ms"

definition scalar_source :: "string \<Rightarrow> scalar_type option" where
  "scalar_source name = map_of
     [(''String'', StString), (''Bool'', StBoolean), (''Boolean'', StBoolean), (''Int'', StInt),
      (''Float'', StFloat), (''UUID'', StUuid), (''DateTime'', StDateTime)] name"

definition generated_names :: "string list" where
  "generated_names =
     [''Channels'', ''Client'', ''ClientSyncState'', ''Connection'', ''GeneratedClient'',
      ''GeneratedTransaction'', ''LiveModels'', ''LivePort'', ''Mutate'', ''MutatePort'',
      ''MutationName'', ''PendingMutation'', ''Present'', ''ReadPort'', ''RebuildReport'',
      ''Rejection'', ''RuntimeConnection'', ''SyncServer'', ''SyncState'', ''Transaction'',
      ''TxModels'', ''WritePort'']"

section \<open>Names, fields and identities\<close>

definition check_name :: "string \<times> pos \<Rightarrow> string list \<Rightarrow> string list compiled" where
  "check_name np seen = (case np of (name, p) \<Rightarrow>
     bindE (demand (name \<notin> set seen) p (''duplicate declaration '' @ name))
     (\<lambda>_. bindE (demand (name \<notin> set generated_names) p
         (name @ '' is a name the generated client uses; choose another''))
     (\<lambda>_. Inr (bs_ins name seen))))"

definition declared_names :: "declarations \<Rightarrow> (string \<times> pos) list" where
  "declared_names d = sort_key (\<lambda>np. (ps_line (snd np), ps_col (snd np)))
     (map (\<lambda>e. (ed_name e, ed_pos e)) (dc_enums d) @ map (\<lambda>m. (md_name m, md_pos m)) (dc_models d))"

definition check_field :: "field_decl \<Rightarrow> string list \<Rightarrow> string list compiled" where
  "check_field f seen =
     bindE (demand (fd_name f \<notin> set seen) (fd_pos f) ''duplicate field'')
     (\<lambda>_. bindE (demand (\<not> (fd_list f \<and> fd_nullable f)) (fd_pos f) ''lists cannot be nullable'')
     (\<lambda>_. Inr (bs_ins (fd_name f) seen)))"

definition check_id :: "model_decl \<Rightarrow> string \<Rightarrow> string list \<Rightarrow> string list compiled" where
  "check_id m i seen =
     bindE (found (decl_field m i) (md_pos m) (''identity field '' @ i @ '' missing''))
     (\<lambda>f. bindE (demand (i \<notin> set seen) (md_pos m) (''duplicate identity field '' @ i))
     (\<lambda>_. bindE (demand (\<not> (fd_nullable f \<or> fd_list f)) (fd_pos f)
         ''identity fields must be non-nullable scalars'')
     (\<lambda>_. Inr (bs_ins i seen))))"

definition check_model :: "model_decl \<Rightarrow> unit compiled" where
  "check_model m =
     bindE (demand (\<not> reserved_model_name (md_name m)) (md_pos m)
       (''model name '' @ md_name m @ '' uses a reserved prefix (ahead_, sqlite_)''))
     (\<lambda>_. bindE (efold check_field (md_fields m) [])
     (\<lambda>_. bindE (demand (md_identity m \<noteq> []) (md_pos m) ''model requires an @@id identity'')
     (\<lambda>_. bindE (efold (check_id m) (md_identity m) []) (\<lambda>_. Inr ()))))"

section \<open>Structure\<close>

definition check_via :: "model_decl \<Rightarrow> model_decl \<Rightarrow> pos \<Rightarrow> json \<times> string \<Rightarrow> unit compiled" where
  "check_via m target p lr =
     bindE (found (find (\<lambda>f. JStr (fd_name f) = fst lr) (md_fields m)) p ''unknown reference field'')
     (\<lambda>lf. bindE (found (decl_field target (snd lr)) p ''unknown target identity'')
     (\<lambda>rf. demand (\<not> (fd_type lf \<noteq> fd_type rf \<or> fd_list lf)) p ''reference field type mismatch''))"

definition target_delete :: "json \<Rightarrow> pos \<Rightarrow> on_delete compiled" where
  "target_delete reference p = (case get reference ''onTargetDelete'' of
       None \<Rightarrow> Inr DeleteNone
     | Some v \<Rightarrow> if v = JStr ''none'' then Inr DeleteNone
         else if v = JStr ''delete'' then Inr DeleteCascade
         else refuse p ''unsupported onTargetDelete'')"

definition relation_of :: "model_decl \<Rightarrow> model_decl \<Rightarrow> field_decl \<Rightarrow> json \<Rightarrow> v_relation compiled" where
  "relation_of m target f reference =
     bindE (demand (\<not> fd_list f) (fd_pos f) ''reference must be singular'')
     (\<lambda>_. bindE (unwrap (as_object reference))
     (\<lambda>kvs. bindE (demand (set (bt_keys kvs) \<subseteq> {''0'', ''via'', ''onTargetDelete''}) (fd_pos f)
         ''unknown reference argument'')
     (\<lambda>_. bindE (found (as_array (index reference ''via'')) (fd_pos f) ''reference requires via fields'')
     (\<lambda>via. bindE (demand (length via = length (md_identity target)) (fd_pos f)
         ''reference identity arity mismatch'')
     (\<lambda>_. bindE (echeck (check_via m target (fd_pos f)) (zip via (md_identity target)))
     (\<lambda>_. bindE (target_delete reference (fd_pos f))
     (\<lambda>del. Inr \<lparr>vr_name = fd_name f, vr_target = md_name target, vr_fields = strings via,
        vr_target_fields = md_identity target, vr_on_delete = del\<rparr>)))))))"

text \<open>A field is a relation, the inverse of one (kept for later), or stored.\<close>

definition structure_field :: "declarations \<Rightarrow> model_decl \<Rightarrow> field_decl \<Rightarrow>
    v_relation list \<times> field_decl list \<Rightarrow> (v_relation list \<times> field_decl list) compiled" where
  "structure_field d m f acc = (case is_model d (fd_type f) of
       Some target \<Rightarrow> (case attribute f ''reference'' of
           Some reference \<Rightarrow> bindE (relation_of m target f reference) (\<lambda>r. Inr (fst acc @ [r], snd acc))
         | None \<Rightarrow> Inr acc)
     | None \<Rightarrow> bindE (demand (attribute f ''reference'' = None \<and> attribute f ''inverse'' = None) (fd_pos f)
           ''relation directive requires model type'')
         (\<lambda>_. Inr (fst acc, snd acc @ [f])))"

definition stored_field :: "declarations \<Rightarrow> field_decl \<Rightarrow> v_field compiled" where
  "stored_field d f =
     bindE (case scalar_source (fd_type f) of
         Some s \<Rightarrow> Inr (TScalar s)
       | None \<Rightarrow> if \<exists>e \<in> set (dc_enums d). ed_name e = fd_type f then Inr (TEnum (fd_type f))
           else refuse (fd_pos f) (''unknown or unsupported field type '' @ fd_type f))
     (\<lambda>ty. Inr \<lparr>vf_name = fd_name f, vf_type = (if fd_list f then TList ty else ty),
        vf_nullable = fd_nullable f\<rparr>)"

definition structure_model :: "declarations \<Rightarrow> model_decl \<Rightarrow> v_model compiled" where
  "structure_model d m =
     bindE (efold (structure_field d m) (md_fields m) ([], []))
     (\<lambda>(relations, stored). bindE (emap (stored_field d) stored)
     (\<lambda>fields. bindE (echeck (\<lambda>(f, decl). demand (\<not> (vf_name f \<in> set (md_identity m) \<and> \<not> is_scalar (vf_type f)))
           (fd_pos decl) ''identity fields must be non-nullable scalars'') (zip fields stored))
     (\<lambda>_. Inr \<lparr>vm_name = md_name m, vm_version = md_version m, vm_identity = md_identity m,
        vm_fields = fields, vm_relations = relations, vm_unique = map ud_fields (md_unique m)\<rparr>)))"

definition inverse_fields :: "declarations \<Rightarrow> (model_decl \<times> field_decl) list" where
  "inverse_fields d = concat (map (\<lambda>m. map (Pair m)
     (filter (\<lambda>f. is_model d (fd_type f) \<noteq> None \<and> attribute f ''reference'' = None) (md_fields m))) (dc_models d))"

definition requirement_fields :: "declarations \<Rightarrow> (model_decl \<times> field_decl \<times> json) list" where
  "requirement_fields d = concat (map (\<lambda>m. List.map_filter
     (\<lambda>f. map_option (\<lambda>v. (m, f, v)) (attribute f ''requires'')) (md_fields m)) (dc_models d))"

section \<open>Slots\<close>

definition bind_slot :: "v_model list \<Rightarrow> mutation_decl \<Rightarrow> slot_decl \<Rightarrow> string \<times> json \<Rightarrow> v_binding compiled" where
  "bind_slot ms m s rp =
     bindE (found (v_model_of ms (od_model s)) (od_pos s) ''unknown bound model'')
     (\<lambda>model. bindE (found (find (\<lambda>r. vr_name r = fst rp) (vm_relations model)) (od_pos s) ''unknown binding relation'')
     (\<lambda>rel. bindE (found (find (\<lambda>p. as_str (snd rp) = Some (od_name p)) (td_slots m)) (od_pos s) ''unknown parent slot'')
     (\<lambda>parent. bindE (demand (\<not> (od_model parent \<noteq> vr_target rel \<or> od_cardinality parent \<noteq> ''single'')) (od_pos s)
         ''binding parent must be single matching model'')
     (\<lambda>_. Inr \<lparr>vb_relation = fst rp, vb_slot = od_name parent, vb_fields = vr_fields rel\<rparr>))))"

definition operation_of :: "string \<Rightarrow> slot_operation" where
  "operation_of s = (if s = ''create'' then SlotCreate else if s = ''update'' then SlotUpdate else SlotDelete)"

definition cardinality_of :: "string \<Rightarrow> slot_count" where
  "cardinality_of s = (if s = ''list'' then Many else if s = ''optional'' then Optional else Single)"

definition slot_of :: "v_model list \<Rightarrow> mutation_decl \<Rightarrow> slot_decl \<Rightarrow> v_slot compiled" where
  "slot_of ms m s =
     bindE (unwrap (as_object (od_bindings s)))
     (\<lambda>kvs. bindE (emap (bind_slot ms m s) kvs)
     (\<lambda>bindings. Inr \<lparr>vs_name = od_name s, vs_model = od_model s, vs_operation = operation_of (od_operation s),
        vs_cardinality = cardinality_of (od_cardinality s), vs_patch = od_patch s, vs_bindings = bindings\<rparr>))"

definition mutation_of :: "v_model list \<Rightarrow> mutation_decl \<Rightarrow> v_mutation compiled" where
  "mutation_of ms m = bindE (emap (slot_of ms m) (td_slots m))
     (\<lambda>slots. Inr \<lparr>vt_name = td_name m, vt_version = td_version m, vt_slots = slots, vt_sequence = None\<rparr>)"

text \<open>An update without a restriction may patch every stored field outside the identity.\<close>

definition default_slot :: "v_model list \<Rightarrow> v_slot \<times> slot_decl \<Rightarrow> v_slot compiled" where
  "default_slot ms sd = (case sd of (s, decl) \<Rightarrow>
     if vs_operation s = SlotUpdate \<and> vs_patch s = None
     then bindE (found (v_model_of ms (vs_model s)) (od_pos decl) ''unknown mutation model'')
       (\<lambda>m. Inr (s\<lparr>vs_patch := Some (map vf_name (filter (\<lambda>f. vf_name f \<notin> set (vm_identity m)) (vm_fields m)))\<rparr>))
     else Inr s)"

definition default_patches :: "v_model list \<Rightarrow> v_mutation \<times> mutation_decl \<Rightarrow> v_mutation compiled" where
  "default_patches ms md = bindE (emap (default_slot ms) (zip (vt_slots (fst md)) (td_slots (snd md))))
     (\<lambda>slots. Inr ((fst md)\<lparr>vt_slots := slots\<rparr>))"

section \<open>Inverses\<close>

definition inverse_name :: "field_decl \<Rightarrow> json" where
  "inverse_name f = (case attribute f ''inverse'' of Some v \<Rightarrow> index v ''0'' | None \<Rightarrow> JNull)"

definition inverse_candidates :: "model_decl \<Rightarrow> model_decl \<Rightarrow> json \<Rightarrow> field_decl list" where
  "inverse_candidates m target name = filter (\<lambda>f. fd_type f = md_name m \<and>
     (case attribute f ''reference'' of Some v \<Rightarrow> is_null name \<or> index v ''0'' = name | None \<Rightarrow> False)) (md_fields target)"

definition same_fields :: "string list \<Rightarrow> string list \<Rightarrow> bool" where
  "same_fields key values \<longleftrightarrow> length values = length key \<and> set key \<subseteq> set values"

definition relation_name_of :: "json \<Rightarrow> pos \<Rightarrow> string option compiled" where
  "relation_name_of v p = (case v of JNull \<Rightarrow> Inr None | JStr s \<Rightarrow> Inr (Some s)
     | _ \<Rightarrow> refuse p ''inverse relation name must be an identifier'')"

definition inverse_of :: "declarations \<Rightarrow> v_model list \<Rightarrow> model_decl \<times> field_decl \<Rightarrow> v_inverse compiled" where
  "inverse_of d ms mf = (case mf of (m, f) \<Rightarrow>
     bindE (unwrap (is_model d (fd_type f)))
     (\<lambda>target. case inverse_candidates m target (inverse_name f) of
         [reference] \<Rightarrow>
           bindE (unwrap (Option.bind (attribute reference ''reference'') (\<lambda>v. as_array (index v ''via''))))
           (\<lambda>via. bindE (if fd_list f then Inr ()
               else bindE (unwrap (v_model_of ms (md_name target)))
                 (\<lambda>n. demand (same_fields (strings via) (vm_identity n)
                       \<or> (\<exists>u \<in> set (vm_unique n). same_fields (strings via) u)) (fd_pos f)
                     ''singular inverse requires unique reference fields''))
           (\<lambda>_. bindE (relation_name_of (inverse_name f) (fd_pos f))
           (\<lambda>name. Inr \<lparr>vi_model = md_name m, vi_name = fd_name f, vi_target = md_name target,
              vi_list = fd_list f, vi_nullable = fd_nullable f, vi_relation = name,
              vi_reference = fd_name reference, vi_fields = strings via\<rparr>)))
       | _ \<Rightarrow> refuse (fd_pos f)
           ''inverse must resolve to exactly one reference; use a shared relation name''))"

section \<open>Prerequisites and requirements\<close>

definition prerequisite_types :: "string list" where
  "prerequisite_types = [''String'', ''UUID'', ''DateTime'', ''Int'', ''Float'', ''Bool'', ''Boolean'']"

definition check_prerequisite :: "prerequisite_decl \<Rightarrow> string list \<Rightarrow> string list compiled" where
  "check_prerequisite p seen =
     bindE (demand (pd_name p \<notin> set seen) (pd_pos p) ''duplicate prerequisite'')
     (\<lambda>_. bindE (efold (\<lambda>f names. bindE (demand (pf_name f \<notin> set names \<and> pf_type f \<in> set prerequisite_types)
           (pf_pos f) ''invalid prerequisite field'') (\<lambda>_. Inr (bs_ins (pf_name f) names))) (pd_fields p) [])
     (\<lambda>_. Inr (bs_ins (pd_name p) seen)))"

definition prerequisite_of :: "prerequisite_decl \<Rightarrow> v_prerequisite" where
  "prerequisite_of p = \<lparr>vp_name = pd_name p, vp_fields = map (\<lambda>f. (pf_name f, pf_type f)) (pd_fields p)\<rparr>"

definition check_self :: "field_decl \<Rightarrow> (string \<times> json) list \<Rightarrow> string \<times> string \<Rightarrow> unit compiled" where
  "check_self f arguments pf =
     bindE (found (map_of arguments (fst pf)) (fd_pos f) ''missing prerequisite argument'')
     (\<lambda>e. bindE (demand (e = JStr ''self'') (fd_pos f) ''prerequisite argument currently requires self'')
     (\<lambda>_. demand (fd_type f = snd pf) (fd_pos f) ''prerequisite argument type mismatch''))"

definition requirement_of :: "v_prerequisite list \<Rightarrow> model_decl \<times> field_decl \<times> json \<Rightarrow> v_requirement compiled" where
  "requirement_of ps mfv = (case mfv of (m, f, v) \<Rightarrow>
     bindE (unwrap (as_object v))
     (\<lambda>args. bindE (demand (length args = 1 \<and> map_of args ''0'' \<noteq> None) (fd_pos f) ''requires expects one invocation'')
     (\<lambda>_. bindE (unwrap (map_of args ''0''))
     (\<lambda>invocation. bindE (found (find (\<lambda>p. as_str (index invocation ''name'') = Some (vp_name p)) ps) (fd_pos f)
         ''unknown prerequisite'')
     (\<lambda>decl. bindE (found (as_object (index invocation ''arguments'')) (fd_pos f)
         ''requires expects invocation arguments'')
     (\<lambda>arguments. bindE (demand (length arguments = length (vp_fields decl)) (fd_pos f)
         ''prerequisite argument mismatch'')
     (\<lambda>_. bindE (echeck (check_self f arguments) (vp_fields decl))
     (\<lambda>_. Inr \<lparr>vq_model = md_name m, vq_field = fd_name f, vq_prerequisite = vp_name decl,
        vq_arguments = bt_keys arguments\<rparr>))))))))"

section \<open>Sequences\<close>

definition walk_relation :: "v_model list \<Rightarrow> pos \<Rightarrow> string \<Rightarrow> v_model \<Rightarrow> v_model compiled" where
  "walk_relation ms p part current =
     bindE (found (find (\<lambda>r. vr_name r = part) (vm_relations current)) p ''unknown sequence relation path'')
     (\<lambda>r. unwrap (v_model_of ms (vr_target r)))"

fun position :: "('a \<Rightarrow> bool) \<Rightarrow> 'a list \<Rightarrow> nat option" where
  "position P [] = None"
| "position P (a # as) = (if P a then Some 0 else map_option Suc (position P as))"

definition at_index :: "'a list \<Rightarrow> nat \<Rightarrow> 'a compiled" where
  "at_index as i = (if i < length as then Inr (as ! i) else Inl Panic)"

definition sequence_binding :: "v_model list \<Rightarrow> v_mutation \<Rightarrow> mutation_decl \<Rightarrow> pos \<Rightarrow> v_mutation \<Rightarrow>
    string \<times> json \<Rightarrow> (string \<times> string list) compiled" where
  "sequence_binding ms m decl p target se =
     bindE (found (find (\<lambda>s. vs_name s = fst se) (vt_slots target)) p ''unknown sequence target slot'')
     (\<lambda>target_slot. bindE (found (as_str (snd se)) p ''sequence requires slot path'')
     (\<lambda>text. let path = split_on (\<lambda>c. c = CHR ''.'') text in
       bindE (found (find (\<lambda>s. vs_name s = hd path) (vt_slots m)) p ''unknown sequence source slot'')
       (\<lambda>source_slot. bindE (unwrap (position (\<lambda>s. vs_name s = vs_name source_slot) (vt_slots m)))
       (\<lambda>i. bindE (at_index (td_slots decl) i)
       (\<lambda>source_decl. bindE (found (v_model_of ms (vs_model source_slot)) (od_pos source_decl) ''unknown mutation model'')
       (\<lambda>start. bindE (efold (walk_relation ms p) (tl path) start)
       (\<lambda>current. bindE (demand (vm_name current = vs_model target_slot) p ''sequence target model mismatch'')
       (\<lambda>_. Inr (fst se, path)))))))))"

definition sequence_call :: "v_model list \<Rightarrow> v_mutation list \<Rightarrow> v_mutation \<Rightarrow> mutation_decl \<Rightarrow> pos \<Rightarrow>
    json \<Rightarrow> v_call compiled" where
  "sequence_call ms all m decl p call =
     bindE (found (find (\<lambda>t. as_str (index call ''name'') = Some (vt_name t)) all) p ''unknown sequence mutation'')
     (\<lambda>target. bindE (found (as_object (index call ''arguments'')) p ''sequence requires invocation'')
     (\<lambda>args. bindE (emap (sequence_binding ms m decl p target) args)
     (\<lambda>bindings. Inr \<lparr>vc_mutation = vt_name target, vc_bindings = bindings\<rparr>)))"

definition sequence_of :: "v_model list \<Rightarrow> v_mutation list \<Rightarrow> v_mutation \<times> mutation_decl \<Rightarrow> v_call list option compiled" where
  "sequence_of ms all md = (case td_sequence (snd md) of
       None \<Rightarrow> Inr None
     | Some s \<Rightarrow> bindE (unwrap (as_object (qd_arguments s)))
         (\<lambda>kvs. bindE (demand (length kvs = 1 \<and> map_of kvs ''after'' \<noteq> None) (qd_pos s) ''sequence requires after'')
         (\<lambda>_. bindE (unwrap (map_of kvs ''after''))
         (\<lambda>v. bindE (found (as_array v) (qd_pos s) ''sequence after must be list'')
         (\<lambda>calls. bindE (emap (sequence_call ms all (fst md) (snd md) (qd_pos s)) calls)
         (\<lambda>cs. Inr (Some cs)))))))"

section \<open>Unique constraints and deprecations\<close>

definition constraints :: "declarations \<Rightarrow> (v_constraint \<times> pos) list" where
  "constraints d = concat (map (\<lambda>m. map (\<lambda>u. (\<lparr>vu_model = md_name m, vu_fields = ud_fields u\<rparr>, ud_pos u))
     (md_unique m)) (dc_models d))"

definition check_unique :: "v_model list \<Rightarrow> v_constraint \<times> pos \<Rightarrow> unit compiled" where
  "check_unique ms cp =
     bindE (unwrap (v_model_of ms (vu_model (fst cp))))
     (\<lambda>m. demand (\<not> (vu_fields (fst cp) = [] \<or> (\<exists>f \<in> set (vu_fields (fst cp)). f \<notin> vf_name ` set (vm_fields m))))
       (snd cp) ''invalid unique fields'')"

definition deprecations_of :: "declarations \<Rightarrow> deprecation list" where
  "deprecations_of d =
     concat (map (\<lambda>e. map (\<lambda>(v, r). DeprecatedValue (ed_name e) v r) (ed_deprecated e)) (dc_enums d)) @
     concat (map (\<lambda>m. List.map_filter (\<lambda>f. map_option (DeprecatedField (md_name m) (fd_name f)) (fd_deprecated f))
       (md_fields m)) (dc_models d)) @
     concat (map (\<lambda>m. List.map_filter (\<lambda>s. map_option (DeprecatedSlot (td_name m) (od_name s)) (od_deprecated s))
       (td_slots m)) (dc_mutations d))"

section \<open>Mutations\<close>

definition check_patch :: "v_model \<Rightarrow> pos \<Rightarrow> string \<Rightarrow> string list \<Rightarrow> string list compiled" where
  "check_patch m p f seen =
     bindE (demand (f \<notin> set seen \<and> f \<notin> set (vm_identity m) \<and> f \<in> vf_name ` set (vm_fields m)) p
       ''invalid allowed patch field'')
     (\<lambda>_. Inr (bs_ins f seen))"

definition check_slot_decl :: "v_model list \<Rightarrow> v_slot \<times> slot_decl \<Rightarrow> string list \<Rightarrow> string list compiled" where
  "check_slot_decl ms sd seen = (case sd of (s, decl) \<Rightarrow>
     bindE (demand (vs_name s \<notin> set seen) (od_pos decl) ''duplicate slot'')
     (\<lambda>_. bindE (found (v_model_of ms (vs_model s)) (od_pos decl) ''unknown mutation model'')
     (\<lambda>m. bindE (case vs_patch s of None \<Rightarrow> Inr []
         | Some fs \<Rightarrow> efold (check_patch m (od_pos decl)) fs [])
     (\<lambda>_. Inr (bs_ins (vs_name s) seen)))))"

text \<open>The slot a later one cannot be told apart from, looking back to the nearest single slot.\<close>

fun ambiguous :: "v_slot \<Rightarrow> v_slot list \<Rightarrow> v_slot option" where
  "ambiguous later [] = None"
| "ambiguous later (e # es) =
     (if vs_model e = vs_model later \<and> vs_operation e = vs_operation later \<and> vs_cardinality e \<noteq> Single
      then Some e
      else if vs_cardinality e = Single then None
      else ambiguous later es)"

definition check_ambiguous :: "v_mutation \<Rightarrow> mutation_decl \<Rightarrow> nat \<Rightarrow> unit compiled" where
  "check_ambiguous m decl j =
     bindE (at_index (vt_slots m) j)
     (\<lambda>later. case ambiguous later (rev (take j (vt_slots m))) of
         None \<Rightarrow> Inr ()
       | Some earlier \<Rightarrow> bindE (at_index (td_slots decl) j)
           (\<lambda>s. refuse (od_pos s) (''ambiguous slot: '' @ vs_name later @ '' cannot be told apart from '' @ vs_name earlier)))"

definition check_mutation_decl :: "v_model list \<Rightarrow> v_mutation \<times> mutation_decl \<Rightarrow> string list \<Rightarrow> string list compiled" where
  "check_mutation_decl ms md seen = (case md of (m, decl) \<Rightarrow>
     bindE (demand (vt_name m \<notin> set seen) (td_pos decl) ''duplicate mutation'')
     (\<lambda>_. bindE (demand (vt_slots m \<noteq> []) (td_pos decl) ''mutation requires slots'')
     (\<lambda>_. bindE (efold (check_slot_decl ms) (zip (vt_slots m) (td_slots decl)) [])
     (\<lambda>_. bindE (echeck (check_ambiguous m decl) [1..<length (vt_slots m)])
     (\<lambda>_. Inr (bs_ins (vt_name m) seen))))))"

section \<open>The whole\<close>

definition core_check :: "pos \<Rightarrow> validated \<Rightarrow> unit compiled" where
  "core_check eof v = (case schema_from_value (schema_json v) of
       Inr _ \<Rightarrow> Inr () | Inl e \<Rightarrow> refuse eof (err_text e))"

definition check_declarations :: "declarations \<Rightarrow> unit compiled" where
  "check_declarations d =
     bindE (efold check_name (declared_names d) []) (\<lambda>_. echeck check_model (dc_models d))"

definition validated_mutations :: "declarations \<Rightarrow> v_model list \<Rightarrow> v_mutation list compiled" where
  "validated_mutations d ms =
     bindE (emap (mutation_of ms) (dc_mutations d))
     (\<lambda>mutations. emap (default_patches ms) (zip mutations (dc_mutations d)))"

definition with_sequences :: "declarations \<Rightarrow> v_model list \<Rightarrow> v_mutation list \<Rightarrow> v_mutation list compiled" where
  "with_sequences d ms mutations =
     bindE (emap (sequence_of ms mutations) (zip mutations (dc_mutations d)))
     (\<lambda>sequences. Inr (map (\<lambda>(m, q). m\<lparr>vt_sequence := q\<rparr>) (zip mutations sequences)))"

definition validate_decls :: "declarations \<Rightarrow> validated compiled" where
  "validate_decls d =
     bindE (check_declarations d)
     (\<lambda>_. bindE (emap (structure_model d) (dc_models d))
     (\<lambda>models. bindE (validated_mutations d models)
     (\<lambda>mutations. bindE (emap (inverse_of d models) (inverse_fields d))
     (\<lambda>inverses. bindE (efold check_prerequisite (dc_prerequisites d) [])
     (\<lambda>_. let prerequisites = map prerequisite_of (dc_prerequisites d) in
       bindE (emap (requirement_of prerequisites) (requirement_fields d))
       (\<lambda>requirements. bindE (with_sequences d models mutations)
       (\<lambda>mutations. bindE (echeck (check_unique models) (constraints d))
       (\<lambda>_. let v = \<lparr>vd_enums = map (\<lambda>e. \<lparr>e_name = ed_name e, e_values = ed_values e\<rparr>) (dc_enums d),
              vd_models = models, vd_unique = map fst (constraints d), vd_inverses = inverses,
              vd_requirements = requirements, vd_prerequisites = prerequisites,
              vd_mutations = mutations, vd_deprecations = deprecations_of d\<rparr> in
         bindE (core_check (dc_end d) v)
         (\<lambda>_. bindE (efold (check_mutation_decl models) (zip mutations (dc_mutations d)) [])
         (\<lambda>_. Inr v))))))))))"

definition compile_validated :: "ext \<Rightarrow> string \<Rightarrow> validated compiled" where
  "compile_validated x source = bindE (parse x source) validate_decls"

definition compile :: "ext \<Rightarrow> string \<Rightarrow> json compiled" where
  "compile x source = bindE (compile_validated x source) (\<lambda>v. Inr (descriptors v))"

end
