(* ===== verification/Parses.thy ===== *)
theory Parses
  imports Parsing
begin

text \<open>
  The parser returns on every source, with a declaration or a diagnostic: each step leaves no more
  tokens than it had, and a repeated step takes at least one. What it yields has the shapes the
  validation relies on.
\<close>

section \<open>What a step leaves\<close>

text \<open>
  \<open>steps k r\<close>: the step neither panics nor goes round without end, and when it succeeds it
  leaves fewer than \<open>k\<close> tokens, the end marker among them. On at most \<open>n\<close> tokens, a parser
  that is \<open>tame n\<close> gives nothing back, and one that \<open>takes n\<close> leaves fewer than it was given.
\<close>

named_theorems taming \<open>parsers that are tame, or take a token\<close>

definition steps :: "nat \<Rightarrow> ('a \<times> token list) compiled \<Rightarrow> bool" where
  "steps k r \<longleftrightarrow> (case r of Inr (a, us) \<Rightarrow> ends us \<and> length us < k
     | Inl (Diagnostic _) \<Rightarrow> True | Inl _ \<Rightarrow> False)"

definition tame :: "nat \<Rightarrow> 'a parser \<Rightarrow> bool" where
  "tame n p \<longleftrightarrow> (\<forall>ts. ends ts \<longrightarrow> length ts \<le> n \<longrightarrow> steps (Suc (length ts)) (p ts))"

definition takes :: "nat \<Rightarrow> 'a parser \<Rightarrow> bool" where
  "takes n p \<longleftrightarrow> (\<forall>ts. ends ts \<longrightarrow> length ts \<le> n \<longrightarrow> steps (length ts) (p ts))"

lemma ends_tl: "ends (t # ts) \<Longrightarrow> tk_text t \<noteq> eof_text \<Longrightarrow> ends ts"
  by (auto simp: ends_def split: if_splits)

lemma ends_nonempty [simp]: "\<not> ends []"
  by (simp add: ends_def)

lemma steps_mono: "steps k r \<Longrightarrow> k \<le> n \<Longrightarrow> steps n r"
  by (auto simp: steps_def split: sum.splits stop.splits)

lemma tameD: "tame n p \<Longrightarrow> ends ts \<Longrightarrow> length ts \<le> n \<Longrightarrow> length ts < k \<Longrightarrow> steps k (p ts)"
  by (meson Suc_le_eq steps_mono tame_def)

lemma takesD: "takes n p \<Longrightarrow> ends ts \<Longrightarrow> length ts \<le> n \<Longrightarrow> length ts \<le> k \<Longrightarrow> steps k (p ts)"
  by (meson steps_mono takes_def)

lemma tameI: "(\<And>ts. ends ts \<Longrightarrow> length ts \<le> n \<Longrightarrow> steps (Suc (length ts)) (p ts)) \<Longrightarrow> tame n p"
  by (simp add: tame_def)

lemma takesI: "(\<And>ts. ends ts \<Longrightarrow> length ts \<le> n \<Longrightarrow> steps (length ts) (p ts)) \<Longrightarrow> takes n p"
  by (simp add: takes_def)

lemma steps_bind:
  assumes "steps k (p ts)" and "\<And>a us. ends us \<Longrightarrow> length us < k \<Longrightarrow> p ts = Inr (a, us) \<Longrightarrow> steps n (f a us)"
  shows "steps n (bindP p f ts)"
proof (cases "p ts")
  case (Inl e)
  with assms(1) show ?thesis by (simp add: steps_def bindP_def)
next
  case (Inr r)
  with assms(1) assms(2) [of "snd r" "fst r"] show ?thesis
    by (simp add: steps_def [of k] bindP_def split: prod.splits)
qed

lemma takes_tame: "takes n p \<Longrightarrow> tame n p"
  by (rule tameI, rule takesD) auto

lemma tame_bind:
  assumes "tame n p" and "\<And>a. tame n (f a)"
  shows "tame n (bindP p f)"
proof (rule tameI, rule steps_bind)
  fix ts :: "token list" assume e: "ends ts" "length ts \<le> n"
  from e show "steps (Suc (length ts)) (p ts)" by (intro tameD [OF assms(1)]) auto
  fix a us assume "ends us" "length us < (Suc (length ts))"
  with e show "steps (Suc (length ts)) (f a us)" by (intro tameD [OF assms(2)]) auto
qed

lemma takes_bind:
  assumes "takes n p" and "\<And>a. tame n (f a)"
  shows "takes n (bindP p f)"
proof (rule takesI, rule steps_bind)
  fix ts :: "token list" assume e: "ends ts" "length ts \<le> n"
  from e show "steps (length ts) (p ts)" by (intro takesD [OF assms(1)]) auto
  fix a us assume "ends us" "length us < (length ts)"
  with e show "steps (length ts) (f a us)" by (intro tameD [OF assms(2)]) auto
qed

lemma takes_bind_later:
  assumes "tame n p" and "\<And>a. takes n (f a)"
  shows "takes n (bindP p f)"
proof (rule takesI, rule steps_bind)
  fix ts :: "token list" assume e: "ends ts" "length ts \<le> n"
  from e show "steps (Suc (length ts)) (p ts)" by (intro tameD [OF assms(1)]) auto
  fix a us assume "ends us" "length us < (Suc (length ts))"
  with e show "steps (length ts) (f a us)" by (intro takesD [OF assms(2)]) auto
qed

lemma tame_steps [taming]: "tame n (retP a)" "tame n p_pos" "tame n p_peek" "tame n p_second"
  by (auto simp: tame_def steps_def retP_def p_pos_def p_peek_def p_second_def split: list.splits)

lemma err_takes [taming]: "takes n (p_err msg)"
  by (auto simp: takes_def steps_def p_err_def split: list.splits)

lemma err_tame [taming]: "tame n (p_err msg)"
  by (rule takes_tame) (rule err_takes)

lemma take_token: "ends ts \<Longrightarrow> p_take ts = Inr (s, us) \<Longrightarrow> s \<noteq> eof_text \<Longrightarrow> length us < length ts"
  by (cases ts) (auto simp: p_take_def p_peek_def bindP_def)

lemma take_tame [taming]: "tame n p_take"
  by (auto simp: tame_def steps_def p_take_def p_peek_def bindP_def dest: ends_tl split: list.splits)

lemma eat_tame [taming]: "tame n (p_eat s)"
  by (auto simp: p_eat_def intro!: tame_bind taming)

lemma eat_token: "ends ts \<Longrightarrow> p_eat s ts = Inr (True, us) \<Longrightarrow> s \<noteq> eof_text \<Longrightarrow> length us < length ts"
  by (cases ts) (auto simp: p_eat_def p_take_def p_peek_def bindP_def retP_def split: if_splits)

text \<open>A token that is eaten is taken, and what follows has one less.\<close>

lemma takes_eat:
  assumes "s \<noteq> eof_text" and "tame (n - 1) (f True)" and "takes n (f False)"
  shows "takes n (bindP (p_eat s) f)"
proof (rule takesI, rule steps_bind)
  fix ts :: "token list" and b us assume e: "ends ts" "ends us" "length ts \<le> n"
    and u: "length us < Suc (length ts)" "p_eat s ts = Inr (b, us)"
  show "steps (length ts) (f b us)"
  proof (cases b)
    case True
    with eat_token [OF e(1)] u assms(1) have "length us < length ts" by auto
    with True assms(2) e show ?thesis by (auto intro: tameD)
  next
    case False
    with u assms e show ?thesis by (auto intro: takesD)
  qed
qed (auto intro: tameD eat_tame)

lemma need_takes [taming]: "s \<noteq> eof_text \<Longrightarrow> takes n (p_need s)"
  unfolding p_need_def by (rule takes_eat) (auto intro: taming)

lemma need_tame [taming]: "tame n (p_need s)"
  by (auto simp: p_need_def intro!: tame_bind taming)

lemma takes_need:
  assumes "s \<noteq> eof_text" and "tame (n - 1) (f ())"
  shows "takes n (bindP (p_need s) f)"
proof (rule takesI, rule steps_bind)
  fix ts :: "token list" and b us assume e: "ends ts" "ends us" "length ts \<le> n" and "length us < length ts"
  with assms(2) show "steps (length ts) (f b us)" by (auto intro: tameD)
next
  fix ts :: "token list" assume "ends ts" "length ts \<le> n"
  then show "steps (length ts) (p_need s ts)"
    by (rule takesD [OF need_takes [OF assms(1)]]) simp
qed

lemma eof_no_ident: "\<not> is_ident eof_text"
  by (simp add: is_ident_def eof_text_def is_alpha_def is_lower_def is_upper_def)

lemma ident_takes [taming]: "takes n p_ident"
  unfolding p_ident_def
proof (rule takesI, rule steps_bind)
  fix ts :: "token list" and s us assume e: "ends ts" "ends us"
    and u: "length us < Suc (length ts)" "p_take ts = Inr (s, us)"
  show "steps (length ts) ((if is_ident s then retP s else p_err ''expected identifier'') us)"
  proof (cases "is_ident s")
    case True
    with eof_no_ident have "s \<noteq> eof_text" by auto
    with take_token [OF e(1) u(2)] e True show ?thesis by (simp add: retP_def steps_def)
  next
    case False
    with u e show ?thesis by (auto intro: takesD err_takes)
  qed
qed (auto intro: tameD take_tame)

lemma ident_tame [taming]: "tame n p_ident"
  by (rule takes_tame) (rule ident_takes)

lemma sep_tame [taming]: "tame n (p_sep e)"
  by (auto simp: p_sep_def intro!: tame_bind taming)

lemma until_tame [taming]: "tame n (until e)" "tame n at_directive" "tame n before_eof"
  by (auto simp: until_def at_directive_def before_eof_def intro!: tame_bind taming)

lemma while_steps:
  assumes "tame n cond" and "\<And>s. takes n (body s)"
  shows "ends ts \<Longrightarrow> length ts \<le> n \<Longrightarrow> steps (Suc (length ts)) (p_while cond body s ts)"
proof (induction ts arbitrary: s rule: length_induct)
  case (1 ts)
  show ?case
    unfolding p_while.simps [of cond body s ts]
  proof (rule steps_bind)
    from assms(1) 1(2,3) show "steps (Suc (length ts)) (cond ts)" by (auto intro: tameD)
    fix go us assume u: "ends us" "length us < Suc (length ts)"
    have "steps (Suc (length ts))
        (bindP (body s) (\<lambda>s' us'. if length us' < length ts then p_while cond body s' us' else Inl Diverge) us)"
    proof (rule steps_bind)
      from u 1(3) show "steps (length us) (body s us)" by (intro takesD [OF assms(2)]) auto
      fix s' us' assume v: "ends us'" "length us' < length us"
      with 1 u have "steps (Suc (length us')) (p_while cond body s' us')" by auto
      with u v show "steps (Suc (length ts))
          (if length us' < length ts then p_while cond body s' us' else Inl Diverge)"
        by (auto intro: steps_mono)
    qed
    with u show "steps (Suc (length ts)) (if \<not> go then Inr (s, us)
        else bindP (body s) (\<lambda>s' us'. if length us' < length ts then p_while cond body s' us' else Inl Diverge) us)"
      by (simp add: steps_def [of _ "Inr (s, us)"])
  qed
qed

lemma while_tame [taming]: "tame n cond \<Longrightarrow> (\<And>s. takes n (body s)) \<Longrightarrow> tame n (p_while cond body s)"
  by (rule tameI) (rule while_steps)

lemma dotted_tame [taming]: "tame n (p_dotted name)"
  by (auto simp: p_dotted_def intro!: taming takes_bind)

lemma key_tame [taming]: "tame n (p_key k)"
  by (auto simp: p_key_def intro!: tame_bind taming)

text \<open>A string is only read where one starts, so it is a token that is taken.\<close>

lemma takes_string:
  assumes "\<And>s. \<not> string_start s \<Longrightarrow> takes n (q s)"
  shows "takes n (bindP p_peek (\<lambda>s. if string_start s then p_string x else q s))"
proof (rule takesI, rule steps_bind)
  fix ts :: "token list" and s us assume e: "ends ts" "ends us" "length ts \<le> n" and p: "p_peek ts = Inr (s, us)"
  from p have us: "us = ts" and t: "\<And>w vs. p_take us = Inr (w, vs) \<Longrightarrow> w = s"
    by (auto simp: p_peek_def p_take_def bindP_def split: list.splits)
  show "steps (length ts) ((if string_start s then p_string x else q s) us)"
  proof (cases "string_start s")
    case True
    then have ne: "s \<noteq> eof_text" by (auto simp: string_start_def starts_with_def quotes_def eof_text_def)
    have "steps (length ts) (p_string x us)"
      unfolding p_string_def
    proof (rule steps_bind)
      from e us show "steps (Suc (length ts)) (p_take us)" by (auto intro: tameD taming)
      fix w vs assume v: "ends vs" "p_take us = Inr (w, vs)"
      with take_token [of us] t e us ne have "length vs < length ts" by blast
      with v show "steps (length ts) ((case from_str x w of Inl e \<Rightarrow> p_err ''invalid string'' | Inr v \<Rightarrow> retP v) vs)"
        by (auto simp: retP_def steps_def [of _ "Inr _"] split: sum.splits intro!: takesD [where n = "length vs"] err_takes)
    qed
    with True show ?thesis by simp
  next
    case False
    with assms e us show ?thesis by (auto intro: takesD)
  qed
qed (auto intro: tameD taming)

lemma name_takes [taming]: "takes n p_name"
  unfolding p_name_def by (rule takes_bind) (auto intro: taming)

lemma list_tame [taming]: "takes n e \<Longrightarrow> tame n (p_list e)"
  unfolding p_list_def by (rule tame_bind) (auto intro!: taming takes_bind tame_bind)

lemma argument_takes [taming]: "takes n e \<Longrightarrow> takes n (p_argument e a)"
  unfolding p_argument_def
  by (rule takes_bind_later [OF key_tame], rule takes_bind) (auto intro!: taming tame_bind)

lemma call_takes [taming]: "takes (n - 1) e \<Longrightarrow> takes n (p_call e)"
  unfolding p_call_def by (rule takes_need) (auto simp: eof_text_def intro!: taming tame_bind)

lemma takes_less: "takes n p \<Longrightarrow> m \<le> n \<Longrightarrow> takes m p"
  by (auto simp: takes_def)

text \<open>Fuel for the nesting: as many as there are tokens is enough.\<close>

lemma expression_takes: "takes n (p_expression x n)"
proof (induction n)
  case 0
  show ?case by (auto simp: takes_def)
next
  case (Suc n)
  show ?case
    unfolding p_expression.simps
  proof (rule takes_eat)
    show "tame (Suc n - 1) (if True then p_list (p_expression x n)
       else bindP p_peek (\<lambda>s. if string_start s then p_string x else bindP p_name (\<lambda>name. bindP p_peek (\<lambda>s.
         if s = ''('' then bindP (p_call (p_expression x n))
             (\<lambda>args. retP (obj [(''name'', JStr name), (''arguments'', args)]))
         else retP (JStr name)))))"
      using Suc by (simp add: taming)
    have "takes (Suc n) (p_call (p_expression x n))" using Suc by (intro taming) simp
    then have call: "tame (Suc n) (p_call (p_expression x n))" by (rule takes_tame)
    have "takes (Suc n) (bindP p_peek (\<lambda>s. if string_start s then p_string x else bindP p_name (\<lambda>name. bindP p_peek (\<lambda>s.
         if s = ''('' then bindP (p_call (p_expression x n))
             (\<lambda>args. retP (obj [(''name'', JStr name), (''arguments'', args)]))
         else retP (JStr name)))))"
      by (intro takes_string takes_bind [OF name_takes]) (auto intro!: tame_bind call tame_steps)
    then show "takes (Suc n) (if False then p_list (p_expression x n)
       else bindP p_peek (\<lambda>s. if string_start s then p_string x else bindP p_name (\<lambda>name. bindP p_peek (\<lambda>s.
         if s = ''('' then bindP (p_call (p_expression x n))
             (\<lambda>args. retP (obj [(''name'', JStr name), (''arguments'', args)]))
         else retP (JStr name)))))" by simp
  qed (simp add: eof_text_def)
qed

lemma arguments_takes [taming]: "takes n (p_arguments x)"
proof (rule takesI)
  fix ts :: "token list" assume e: "ends ts"
  have "takes (length ts) (p_call (p_expression x (length ts)))"
    by (intro taming takes_less [OF expression_takes]) simp
  with e show "steps (length ts) (p_arguments x ts)" by (auto simp: p_arguments_def intro: takesD)
qed

lemma arguments_tame [taming]: "tame n (p_arguments x)"
  by (rule takes_tame) (rule arguments_takes)

lemma deprecation_tame [taming]: "tame n (p_deprecation x)"
proof -
  have "tame n (p_reason x)"
    unfolding p_reason_def by (auto intro!: tame_bind taming split: sum.splits json.splits)
  then show ?thesis unfolding p_deprecation_def by (auto intro!: tame_bind taming)
qed

lemma version_tame [taming]: "tame n (p_version seen)"
  unfolding p_version_def by (auto intro!: tame_bind taming split: option.splits)

lemma names_tame [taming]: "tame n (p_names e)"
  unfolding p_names_def by (intro taming takes_bind tame_bind)

lemma at_takes: "(\<And>u. tame n (f u)) \<Longrightarrow> takes n (bindP (p_need ''@'') f)"
  by (rule takes_bind) (auto intro!: taming simp: eof_text_def)

lemma directive_takes [taming]:
  "takes n (enum_directive x value m)" "takes n (field_directive x f)" "takes n (slot_directive x s)"
  unfolding enum_directive_def field_directive_def slot_directive_def
  by (auto intro!: at_takes tame_bind taming)

lemma brackets_tame [taming]: "tame n brackets"
  unfolding brackets_def by (auto intro!: tame_bind taming)

lemma enum_takes [taming]: "takes n (enum_value x vs)"
  unfolding enum_value_def by (auto intro!: takes_bind tame_bind taming)

lemma enum_block_tame [taming]: "tame n (enum_block x name p)"
  unfolding enum_block_def by (auto intro!: tame_bind taming)

lemma model_field_takes [taming]: "takes n (model_field x p)"
  unfolding model_field_def by (auto intro!: takes_bind tame_bind taming)

lemma model_directive_tame [taming]: "tame n (model_directive p m)"
  unfolding model_directive_def by (auto intro!: tame_bind taming)

lemma mutation_directive_tame [taming]: "tame n (mutation_directive x p m)"
  unfolding mutation_directive_def by (auto intro!: tame_bind taming)

lemma slot_parts_tame [taming]:
  "tame n (patch_names operation)" "tame n (slot_bindings x)" "tame n slot_cardinality"
  unfolding patch_names_def slot_bindings_def slot_cardinality_def by (auto intro!: tame_bind taming)

lemma mutation_slot_takes [taming]: "takes n (mutation_slot x p)"
  unfolding mutation_slot_def by (auto intro!: takes_bind tame_bind taming)

lemma member_takes [taming]: "takes n (model_member x m)" "takes n (mutation_member x t)"
  unfolding model_member_def mutation_member_def
  by (rule takes_bind_later [OF tame_steps(2)], rule takes_eat; auto intro!: takes_bind taming simp: eof_text_def)+

lemma block_tame [taming]: "tame n (model_block x name p)" "tame n (mutation_block x name p)"
  unfolding model_block_def mutation_block_def by (auto intro!: tame_bind taming)

lemma prerequisite_tame [taming]: "tame n (prerequisite_block name p)"
proof -
  have "takes n (prerequisite_member fs)" for n fs
    unfolding prerequisite_member_def
    by (rule takes_bind_later [OF tame_steps(2)]) (auto intro!: takes_bind tame_bind taming)
  then show ?thesis unfolding prerequisite_block_def by (auto intro!: tame_bind taming)
qed

lemma declaration_takes [taming]: "takes n (p_declaration x d)"
  unfolding p_declaration_def
  by (rule takes_bind_later [OF tame_steps(2)], rule takes_bind_later [OF take_tame], rule takes_bind)
    (auto intro!: tame_bind taming)

lemma source_tame: "tame n (p_source x)"
  unfolding p_source_def by (auto intro!: tame_bind taming)

text \<open>Parsing neither panics nor goes round without end.\<close>

definition returned :: "'a compiled \<Rightarrow> bool" where
  "returned r \<longleftrightarrow> r \<noteq> Inl Panic \<and> r \<noteq> Inl Diverge"

lemma returned_bind: "returned m \<Longrightarrow> (\<And>a. m = Inr a \<Longrightarrow> returned (f a)) \<Longrightarrow> returned (bindE m f)"
  by (cases m) (auto simp: returned_def)

lemma returned_pure: "returned (Inr a)" "returned (Inl (Diagnostic e))"
  by (simp_all add: returned_def)

lemma returned_cases:
  "(b \<Longrightarrow> returned f) \<Longrightarrow> (\<not> b \<Longrightarrow> returned g) \<Longrightarrow> returned (if b then f else g)"
  "(v = None \<Longrightarrow> returned f) \<Longrightarrow> (\<And>a. v = Some a \<Longrightarrow> returned (h a)) \<Longrightarrow>
     returned (case v of None \<Rightarrow> f | Some a \<Rightarrow> h a)"
  "(\<And>a c. q = (a, c) \<Longrightarrow> returned (k a c)) \<Longrightarrow> returned (case q of (a, c) \<Rightarrow> k a c)"
  by (auto split: option.splits prod.splits)

lemma lex_returned: "returned (lex_from cs line col)"
proof (induction cs line col rule: lex_from.induct)
  case (1 line col)
  show ?case by (simp add: returned_def)
next
  case (2 c cs line col)
  show ?case
    unfolding lex_from.simps(2) [of c cs line col] Let_def
    by (intro returned_cases returned_bind returned_pure)
      (rule 2(1-4) [OF refl]; assumption | rule 2(5) [OF refl _ _ _ _ _ _ sym]; assumption
        | rule 2(6) [OF refl]; assumption)+
qed

lemma parse_returned: "returned (parse x source)"
  unfolding parse_def lex_def
proof (intro returned_bind lex_returned)
  fix ts assume "lex_from (chars source) 1 1 = Inr ts"
  then have "ends ts" by (rule lex_ends)
  with source_tame [of "length ts" x] have "steps (Suc (length ts)) (p_source x ts)" by (auto intro: tameD)
  then show "returned (p_source x ts)" by (auto simp: steps_def returned_def)
qed (auto simp: returned_def)

section \<open>What a step yields\<close>

text \<open>The arguments of a directive, a slot or a sequence are always an object.\<close>

definition yields :: "('a \<Rightarrow> bool) \<Rightarrow> 'a parser \<Rightarrow> bool" where
  "yields P p \<longleftrightarrow> (\<forall>ts a us. p ts = Inr (a, us) \<longrightarrow> P a)"

lemma yieldsD: "yields P p \<Longrightarrow> p ts = Inr (a, us) \<Longrightarrow> P a"
  by (auto simp: yields_def)

lemma yields_ret: "P a \<Longrightarrow> yields P (retP a)"
  by (simp add: yields_def retP_def)

lemma yields_err: "yields P (p_err msg)"
  by (auto simp: yields_def p_err_def split: list.splits)

lemma yields_bind: "(\<And>a. yields P (f a)) \<Longrightarrow> yields P (bindP p f)"
  by (auto simp: yields_def bindP_def bindE_Inr_iff)

lemma yields_bind_of: "yields Q p \<Longrightarrow> (\<And>a. Q a \<Longrightarrow> yields P (f a)) \<Longrightarrow> yields P (bindP p f)"
  unfolding yields_def bindP_def by (fastforce simp: bindE_Inr_iff)

lemma yields_if: "(b \<Longrightarrow> yields P f) \<Longrightarrow> (\<not> b \<Longrightarrow> yields P g) \<Longrightarrow> yields P (if b then f else g)"
  by simp

lemma while_yields: "(\<And>s. P s \<Longrightarrow> yields P (body s)) \<Longrightarrow> P s \<Longrightarrow> yields P (p_while cond body s)"
proof -
  assume body: "\<And>s. P s \<Longrightarrow> yields P (body s)" and "P s"
  have "P s \<Longrightarrow> p_while cond body s ts = Inr (a, us) \<Longrightarrow> P a" for ts a us
  proof (induction ts arbitrary: s rule: length_induct)
    case (1 ts)
    from 1(3) obtain go vs where c: "cond ts = Inr (go, vs)"
      by (subst (asm) p_while.simps) (auto simp: bindP_def bindE_Inr_iff)
    show ?case
    proof (cases go)
      case False
      with c 1(2,3) show ?thesis by (subst (asm) p_while.simps) (auto simp: bindP_def)
    next
      case True
      with c 1(3) obtain s' ws where b: "body s vs = Inr (s', ws)" and l: "length ws < length ts"
          and w: "p_while cond body s' ws = Inr (a, us)"
        by (subst (asm) (2) p_while.simps) (auto simp: bindP_def bindE_Inr_iff split: if_splits)
      from body [OF 1(2)] b have "P s'" by (rule yieldsD)
      with 1(1) l w show ?thesis by blast
    qed
  qed
  with \<open>P s\<close> show ?thesis by (auto simp: yields_def)
qed

lemmas yields_rules = yields_ret yields_err yields_if yields_bind

definition is_obj :: "json \<Rightarrow> bool" where
  "is_obj v \<longleftrightarrow> as_object v \<noteq> None"

definition field_made :: "field_decl \<Rightarrow> bool" where
  "field_made f \<longleftrightarrow> list_all (\<lambda>kv. is_obj (snd kv)) (fd_attributes f)"

definition model_made :: "model_decl \<Rightarrow> bool" where
  "model_made m \<longleftrightarrow> list_all field_made (md_fields m)"

text \<open>Only an update names the fields it may patch.\<close>

definition slot_made :: "slot_decl \<Rightarrow> bool" where
  "slot_made s \<longleftrightarrow> is_obj (od_bindings s) \<and> (od_patch s \<noteq> None \<longrightarrow> od_operation s = ''update'')"

definition mutation_made :: "mutation_decl \<Rightarrow> bool" where
  "mutation_made m \<longleftrightarrow> td_name m \<noteq> [] \<and> 0 < td_version m \<and> td_version m \<le> max_safe_integer \<and>
     list_all slot_made (td_slots m)
     \<and> pred_option (\<lambda>q. is_obj (qd_arguments q)) (td_sequence m)"

definition made :: "declarations \<Rightarrow> bool" where
  "made d \<longleftrightarrow> list_all model_made (dc_models d) \<and> list_all mutation_made (dc_mutations d)"

lemma arguments_object: "yields is_obj (p_arguments x)"
proof -
  have "yields is_obj (p_call e)" for e
    unfolding p_call_def by (intro yields_rules) (simp add: is_obj_def)
  then show ?thesis by (auto simp: yields_def p_arguments_def)
qed

lemma list_all_bt_ins: "list_all P m \<Longrightarrow> P (k, v) \<Longrightarrow> list_all P (bt_ins k v m)"
  by (induction k v m rule: bt_ins.induct) auto

lemma field_made_yields: "field_made f \<Longrightarrow> yields field_made (field_directive x f)"
  unfolding field_directive_def
  by (intro yields_bind_of [OF arguments_object] yields_rules) (auto simp: field_made_def list_all_bt_ins)

lemma model_field_yields: "yields field_made (model_field x p)"
  unfolding model_field_def
  by (intro yields_bind while_yields field_made_yields) (auto simp: field_made_def)

lemma model_member_yields:
  assumes "model_made (fst m)"
  shows "yields (model_made \<circ> fst) (model_member x m)"
  unfolding model_member_def model_directive_def
  by (intro yields_if yields_bind_of [OF model_field_yields] yields_ret yields_bind yields_err)
    (use assms in \<open>auto simp: model_made_def\<close>)

lemma slot_yields: "yields slot_made (mutation_slot x p)"
proof -
  have b: "yields is_obj (slot_bindings x)"
    unfolding slot_bindings_def
    by (intro yields_bind yields_if arguments_object yields_ret) (simp add: is_obj_def)
  have n: "yields (\<lambda>n. n \<noteq> None \<longrightarrow> op = ''update'') (patch_names op)" for op
    unfolding patch_names_def by (intro yields_bind yields_if yields_err yields_ret) auto
  have d: "slot_made s \<Longrightarrow> yields slot_made (slot_directive x s)" for s
    unfolding slot_directive_def by (intro yields_rules) (simp add: slot_made_def)
  show ?thesis
    unfolding mutation_slot_def
    by (intro yields_bind_of [OF b] yields_bind_of [OF n] yields_if yields_err while_yields d yields_bind)
      (auto simp: slot_made_def)
qed

lemma ident_yields: "yields (\<lambda>s. s \<noteq> []) p_ident"
  unfolding p_ident_def by (intro yields_bind yields_if yields_ret yields_err) (auto simp: is_ident_def)

lemma version_yields: "yields (\<lambda>v. 0 < v \<and> v \<le> max_safe_integer) (p_version seen)"
  unfolding p_version_def
  by (intro yields_if yields_bind yields_err) (auto split: option.splits intro!: yields_err yields_bind yields_ret)

lemma mutation_member_yields:
  assumes "mutation_made (fst m)"
  shows "yields (mutation_made \<circ> fst) (mutation_member x m)"
  unfolding mutation_member_def mutation_directive_def
  by (intro yields_if yields_bind_of [OF slot_yields] yields_bind_of [OF arguments_object]
      yields_bind_of [OF version_yields] yields_ret yields_bind yields_err)
    (use assms in \<open>auto simp: mutation_made_def\<close>)

lemma model_block_yields: "yields model_made (model_block x name p)"
  unfolding model_block_def
  by (rule yields_bind_of [OF while_yields [where P = "model_made \<circ> fst"]])
    (auto intro!: model_member_yields yields_ret simp: model_made_def)

lemma mutation_block_yields: "name \<noteq> [] \<Longrightarrow> yields mutation_made (mutation_block x name p)"
  unfolding mutation_block_def
  by (rule yields_bind_of [OF while_yields [where P = "mutation_made \<circ> fst"]])
    (auto intro!: mutation_member_yields yields_ret simp: mutation_made_def max_safe_integer_def)

lemma source_yields: "yields made (p_source x)"
proof -
  have "yields made (p_declaration x d)" if "made d" for d
    unfolding p_declaration_def
    by (intro yields_if yields_bind_of [OF ident_yields] yields_bind_of [OF model_block_yields]
        yields_bind_of [OF mutation_block_yields] yields_ret yields_bind yields_err)
      (use that in \<open>auto simp: made_def\<close>)
  then show ?thesis
    unfolding p_source_def
    by (intro yields_bind_of [OF while_yields [where P = made]] yields_bind yields_ret)
      (auto simp: made_def no_declarations_def)
qed

lemma parse_made: "parse x source = Inr d \<Longrightarrow> made d"
  using source_yields by (auto simp: parse_def bindE_Inr_iff intro: yieldsD)

end
