(* ===== verification/Compiling.thy ===== *)
theory Compiling
  imports Validating Parses
begin

text \<open>
  Compiling neither panics nor goes round without end: every \<open>unwrap\<close> and index of the
  validation is given what it needs by the parser or by an earlier rule.
\<close>

section \<open>Stages that return\<close>

named_theorems returning \<open>computations that end in a value or a diagnostic\<close>

lemma returned_demand [returning]: "returned (demand b p msg)"
  by (simp add: demand_def refuse_def returned_def)

lemma returned_found [returning]: "returned (found v p msg)"
  by (simp add: found_def refuse_def returned_def split: option.splits)

lemma returned_refuse [returning]: "returned (refuse p msg)"
  by (simp add: refuse_def returned_def)

lemma returned_unwrap: "v \<noteq> None \<Longrightarrow> returned (unwrap v)"
  by (auto simp: unwrap_def returned_def)

lemma returned_at: "i < length as \<Longrightarrow> returned (at_index as i)"
  by (simp add: at_index_def returned_def)

lemma returned_emap: "(\<And>a. a \<in> set as \<Longrightarrow> returned (f a)) \<Longrightarrow> returned (emap f as)"
  by (induction as) (auto intro!: returned_bind returned_pure)

lemma returned_echeck: "(\<And>a. a \<in> set as \<Longrightarrow> returned (f a)) \<Longrightarrow> returned (echeck f as)"
  by (induction as) (auto intro!: returned_bind returned_pure)

lemma returned_efold: "(\<And>a b. a \<in> set as \<Longrightarrow> returned (f a b)) \<Longrightarrow> returned (efold f as b)"
  by (induction as arbitrary: b) (auto intro!: returned_bind returned_pure)

lemmas returned_intros = returned_bind returned_emap returned_echeck returned_efold returned_cases
  returned_pure returned_demand returned_found returned_refuse

lemma demand_Inr [simp]: "demand b p msg = Inr u \<longleftrightarrow> b"
  by (simp add: demand_def refuse_def)

lemma found_Inr [simp]: "found v p msg = Inr a \<longleftrightarrow> v = Some a"
  by (simp add: found_def refuse_def split: option.splits)

lemma unwrap_Inr [simp]: "unwrap v = Inr a \<longleftrightarrow> v = Some a"
  by (simp add: unwrap_def split: option.splits)

lemma check_declarations_returned: "returned (check_declarations d)"
  unfolding check_declarations_def check_name_def check_model_def check_field_def check_id_def
  by (intro returned_intros)

lemma attribute_made: "field_made f \<Longrightarrow> attribute f k = Some v \<Longrightarrow> as_object v \<noteq> None"
  by (auto simp: field_made_def attribute_def is_obj_def list_all_iff dest!: map_of_SomeD)

lemma structure_returned: "model_made m \<Longrightarrow> returned (structure_model d m)"
  unfolding structure_model_def structure_field_def relation_of_def check_via_def target_delete_def
    stored_field_def
  by (intro returned_intros returned_unwrap; (auto dest: attribute_made simp: model_made_def list_all_iff)?)

lemma structure_model_fields:
  assumes "structure_model d m = Inr v"
  shows "vm_name v = md_name m"
    and "r \<in> set (vm_relations v) \<Longrightarrow> is_model d (vr_target r) \<noteq> None"
    and "f \<in> set (md_fields m) \<Longrightarrow> is_model d (fd_type f) \<noteq> None \<Longrightarrow> attribute f ''reference'' = Some w \<Longrightarrow>
      as_array (index w ''via'') \<noteq> None"
proof -
  from assms obtain acc where acc: "efold (structure_field d m) (md_fields m) ([], []) = Inr acc"
    and v: "vm_name v = md_name m" "vm_relations v = fst acc"
    by (auto simp: structure_model_def bindE_Inr_iff split: prod.splits)
  from v show "vm_name v = md_name m" by simp
  have target: "relation_of m t f w = Inr r \<Longrightarrow> is_model d n = Some t \<Longrightarrow> is_model d (vr_target r) \<noteq> None" for t f w r n
    by (auto simp: relation_of_def bindE_Inr_iff is_model_def find_None_iff dest: find_Some_in)
  have "list_all (\<lambda>r. is_model d (vr_target r) \<noteq> None) (fst acc)"
  proof (rule efold_inv [where P = "\<lambda>acc. list_all (\<lambda>r. is_model d (vr_target r) \<noteq> None) (fst acc)", OF acc])
    fix f a b assume "structure_field d m f a = Inr b" "list_all (\<lambda>r. is_model d (vr_target r) \<noteq> None) (fst a)"
    then show "list_all (\<lambda>r. is_model d (vr_target r) \<noteq> None) (fst b)"
      by (auto simp: structure_field_def bindE_Inr_iff dest: target split: option.splits)
  qed simp
  with v show "r \<in> set (vm_relations v) \<Longrightarrow> is_model d (vr_target r) \<noteq> None"
    by (auto simp: list_all_iff)
  show "as_array (index w ''via'') \<noteq> None"
    if "f \<in> set (md_fields m)" "is_model d (fd_type f) \<noteq> None" "attribute f ''reference'' = Some w"
    using efold_each [OF acc that(1)] that(2,3)
    by (auto simp: structure_field_def relation_of_def bindE_Inr_iff split: option.splits)
qed

lemma lookup_None:
  "v_model_of ms n = None \<longleftrightarrow> n \<notin> vm_name ` set ms"
  "is_model d n = None \<longleftrightarrow> n \<notin> md_name ` set (dc_models d)"
  by (auto simp: v_model_of_def is_model_def find_None_iff)

lemma models_found:
  assumes ms: "emap (structure_model d) (dc_models d) = Inr ms"
  shows "v_model_of ms n \<noteq> None \<longleftrightarrow> is_model d n \<noteq> None"
    and "v \<in> set ms \<Longrightarrow> r \<in> set (vm_relations v) \<Longrightarrow> v_model_of ms (vr_target r) \<noteq> None"
    and "m \<in> set (dc_models d) \<Longrightarrow> f \<in> set (md_fields m) \<Longrightarrow> is_model d (fd_type f) \<noteq> None \<Longrightarrow>
      attribute f ''reference'' = Some w \<Longrightarrow> as_array (index w ''via'') \<noteq> None"
proof -
  from ms have all: "list_all2 (\<lambda>m v. structure_model d m = Inr v) (dc_models d) ms"
    by (simp add: emap_Inr_iff)
  then have "map vm_name ms = map md_name (dc_models d)"
    by (induction rule: list_all2_induct) (auto simp: structure_model_fields(1))
  from arg_cong [OF this, of set] have "vm_name ` set ms = md_name ` set (dc_models d)" by simp
  then have names: "v_model_of ms k \<noteq> None \<longleftrightarrow> is_model d k \<noteq> None" for k
    by (simp add: lookup_None del: not_None_eq)
  then show "v_model_of ms n \<noteq> None \<longleftrightarrow> is_model d n \<noteq> None" .
  show "v \<in> set ms \<Longrightarrow> r \<in> set (vm_relations v) \<Longrightarrow> v_model_of ms (vr_target r) \<noteq> None"
  proof -
    assume "v \<in> set ms" and r: "r \<in> set (vm_relations v)"
    with emap_mem [OF ms] obtain m where "structure_model d m = Inr v" by blast
    from structure_model_fields(2) [OF this r] show ?thesis using names by simp
  qed
  show "m \<in> set (dc_models d) \<Longrightarrow> f \<in> set (md_fields m) \<Longrightarrow> is_model d (fd_type f) \<noteq> None \<Longrightarrow>
      attribute f ''reference'' = Some w \<Longrightarrow> as_array (index w ''via'') \<noteq> None"
  proof -
    assume m: "m \<in> set (dc_models d)" and f: "f \<in> set (md_fields m)" "is_model d (fd_type f) \<noteq> None"
      "attribute f ''reference'' = Some w"
    from all m obtain v where "structure_model d m = Inr v"
      by (auto simp: list_all2_conv_all_nth in_set_conv_nth)
    from structure_model_fields(3) [OF this f] show ?thesis .
  qed
qed

lemma validated_mutations_returned: "list_all mutation_made (dc_mutations d) \<Longrightarrow> returned (validated_mutations d ms)"
  unfolding validated_mutations_def mutation_of_def slot_of_def bind_slot_def default_patches_def default_slot_def
  by (intro returned_intros returned_unwrap) (auto simp: mutation_made_def slot_made_def list_all_iff is_obj_def)

lemma inverse_returned:
  assumes ms: "emap (structure_model d) (dc_models d) = Inr ms" and mf: "mf \<in> set (inverse_fields d)"
  shows "returned (inverse_of d ms mf)"
proof -
  obtain m f where mf': "mf = (m, f)" and m: "m \<in> set (dc_models d)" and f: "is_model d (fd_type f) \<noteq> None"
    using mf by (auto simp: inverse_fields_def)
  have self: "is_model d (md_name m) \<noteq> None" using m by (auto simp: is_model_def find_None_iff)
  {
    fix target reference assume t: "is_model d (fd_type f) = Some target"
      and c: "inverse_candidates m target (inverse_name f) = [reference]"
    from t have tm: "target \<in> set (dc_models d)" and tn: "md_name target = fd_type f"
      by (auto simp: is_model_def dest: find_Some_in)
    from c have "reference \<in> set (inverse_candidates m target (inverse_name f))" by simp
    then obtain w where r: "reference \<in> set (md_fields target)" "fd_type reference = md_name m"
        "attribute reference ''reference'' = Some w"
      by (auto simp: inverse_candidates_def split: option.splits)
    with models_found(3) [OF ms tm r(1)] self have "Option.bind (attribute reference ''reference'') (\<lambda>v. as_array (index v ''via'')) \<noteq> None"
      by simp
    moreover have "v_model_of ms (md_name target) \<noteq> None" using models_found(1) [OF ms] tn f by simp
    ultimately have "Option.bind (attribute reference ''reference'') (\<lambda>v. as_array (index v ''via'')) \<noteq> None"
      "v_model_of ms (md_name target) \<noteq> None" by blast+
  }
  note ok = this
  show ?thesis
    unfolding inverse_of_def mf' prod.case
  proof (intro returned_bind returned_unwrap f)
    fix target assume "unwrap (is_model d (fd_type f)) = Inr target"
    then have t: "is_model d (fd_type f) = Some target" by simp
    show "returned (case inverse_candidates m target (inverse_name f) of
         [reference] \<Rightarrow>
           bindE (unwrap (Option.bind (attribute reference ''reference'') (\<lambda>v. as_array (index v ''via''))))
           (\<lambda>via. bindE (if fd_list f then Inr ()
               else bindE (unwrap (v_model_of ms (md_name target)))
                 (\<lambda>n. demand (same_fields (strings via) (vm_identity n)
                       \<or> (\<exists>u \<in> set (vm_unique n). same_fields (strings via) u)) (fd_pos f)
                     ''singular inverse requires unique reference fields''))
           (\<lambda>_. bindE (relation_name_of (inverse_name f) (fd_pos f))
           (\<lambda>name. Inr \<lparr>vi_model = md_name m, vi_name = fd_name f, vi_target = md_name target,
              vi_list = fd_list f, vi_nullable = fd_nullable f, vi_relation = name,
              vi_reference = fd_name reference, vi_fields = strings via\<rparr>)))
       | _ \<Rightarrow> refuse (fd_pos f)
           ''inverse must resolve to exactly one reference; use a shared relation name'')"
      using ok [OF t]
      by (auto simp: relation_name_of_def split: list.splits json.splits
          intro!: returned_intros returned_unwrap)
  qed
qed

lemma requirement_returned:
  assumes "made d" and q: "q \<in> set (requirement_fields d)"
  shows "returned (requirement_of ps q)"
proof -
  obtain m f v where q': "q = (m, f, v)" and m: "m \<in> set (dc_models d)" and f: "f \<in> set (md_fields m)"
      "attribute f ''requires'' = Some v"
    using q by (auto simp: requirement_fields_def map_filter_def)
  with assms(1) have "as_object v \<noteq> None"
    by (auto simp: made_def model_made_def list_all_iff simp del: not_None_eq dest!: attribute_made)
  then show ?thesis
    unfolding requirement_of_def check_self_def q' prod.case
    by (intro returned_intros returned_unwrap) auto
qed

lemma position_found: "a \<in> set as \<Longrightarrow> P a \<Longrightarrow> \<exists>i. position P as = Some i"
  by (induction as) auto

lemma position_less: "position P as = Some i \<Longrightarrow> i < length as"
  by (induction as arbitrary: i) (auto split: if_splits)

lemma walk_returned:
  assumes "\<And>v r. v \<in> set ms \<Longrightarrow> r \<in> set (vm_relations v) \<Longrightarrow> v_model_of ms (vr_target r) \<noteq> None"
  shows "v \<in> set ms \<Longrightarrow> returned (efold (walk_relation ms p) path v)"
proof (induction path arbitrary: v)
  case Nil
  then show ?case by (simp add: returned_pure)
next
  case (Cons part path)
  have "returned (walk_relation ms p part v)"
    unfolding walk_relation_def using Cons.prems assms
    by (intro returned_bind returned_found returned_unwrap) (auto dest: find_Some_in)
  moreover have "w \<in> set ms" if "walk_relation ms p part v = Inr w" for w
    using that by (auto simp: walk_relation_def bindE_Inr_iff v_model_of_def dest: find_Some_in)
  ultimately show ?case using Cons.IH by (auto intro!: returned_bind)
qed

definition same_slots :: "v_mutation \<Rightarrow> mutation_decl \<Rightarrow> bool" where
  "same_slots m decl \<longleftrightarrow> length (vt_slots m) = length (td_slots decl)"

lemma mutation_of_slots: "mutation_of ms m = Inr v \<Longrightarrow> same_slots v m"
  by (auto simp: mutation_of_def bindE_Inr_iff same_slots_def simp del: emap_Inr_iff dest!: emap_Inr_length)

lemma default_patches_slots: "default_patches ms (m, decl) = Inr v \<Longrightarrow> same_slots m decl \<Longrightarrow> same_slots v decl"
  by (auto simp: default_patches_def bindE_Inr_iff same_slots_def dest!: emap_Inr_length)

lemma validated_mutations_slots:
  assumes "validated_mutations d ms = Inr all"
  shows "list_all2 same_slots all (dc_mutations d)"
proof -
  from assms obtain first where f: "emap (mutation_of ms) (dc_mutations d) = Inr first"
    and a: "emap (default_patches ms) (zip first (dc_mutations d)) = Inr all"
    by (auto simp: validated_mutations_def bindE_Inr_iff)
  from f have "list_all2 same_slots first (dc_mutations d)"
    by (auto simp: emap_Inr_iff list_all2_conv_all_nth intro: mutation_of_slots)
  moreover from a have "list_all2 (\<lambda>md v. default_patches ms md = Inr v) (zip first (dc_mutations d)) all"
    by (simp add: emap_Inr_iff)
  ultimately show ?thesis
    by (auto simp: list_all2_conv_all_nth) (metis default_patches_slots)
qed

lemma sequence_returned:
  assumes found: "\<And>v r. v \<in> set ms \<Longrightarrow> r \<in> set (vm_relations v) \<Longrightarrow> v_model_of ms (vr_target r) \<noteq> None"
    and "same_slots m decl" and "mutation_made decl"
  shows "returned (sequence_of ms all (m, decl))"
proof -
  have "returned (sequence_binding ms m decl p target se)" for p target se
    unfolding sequence_binding_def Let_def
  proof (intro returned_bind returned_found returned_demand returned_pure, goal_cases)
    case (1 ts t s)
    then have "s \<in> set (vt_slots m)" by (auto dest: find_Some_in)
    with position_found [of s "vt_slots m" "\<lambda>s'. vs_name s' = vs_name s"] show ?case
      by (auto intro!: returned_unwrap)
  next
    case (2 ts t s i)
    then have "i < length (vt_slots m)" by (auto dest: position_less)
    with assms(2) show ?case by (simp add: returned_at same_slots_def)
  next
    case (3 ts t s i sd start)
    then show ?case by (intro walk_returned found) (auto simp: v_model_of_def dest: find_Some_in)
  qed
  then show ?thesis
    unfolding sequence_of_def sequence_call_def using assms(3)
    by (auto intro!: returned_intros returned_unwrap simp: mutation_made_def is_obj_def split: option.splits)
qed

lemma check_unique_returned:
  assumes "emap (structure_model d) (dc_models d) = Inr ms" and "c \<in> set (constraints d)"
  shows "returned (check_unique ms c)"
proof -
  from assms(2) have "is_model d (vu_model (fst c)) \<noteq> None"
    by (auto simp: constraints_def lookup_None)
  with models_found(1) [OF assms(1)] show ?thesis
    unfolding check_unique_def by (intro returned_intros returned_unwrap) simp
qed

lemma core_check_returned: "returned (core_check eof v)"
  by (auto simp: core_check_def refuse_def returned_def split: sum.splits)

lemma check_mutation_returned:
  assumes "same_slots m decl"
  shows "returned (check_mutation_decl ms (m, decl) seen)"
proof -
  have "returned (check_ambiguous m decl j)" if "j \<in> set [1..<length (vt_slots m)]" for j
    unfolding check_ambiguous_def using that assms
    by (intro returned_intros returned_at) (auto simp: same_slots_def)
  then show ?thesis
    unfolding check_mutation_decl_def check_slot_decl_def check_patch_def prod.case
    by (intro returned_intros)
qed

lemma prerequisites_returned: "returned (efold check_prerequisite ps seen)"
  unfolding check_prerequisite_def by (intro returned_intros)

lemma with_sequences_slots:
  assumes "with_sequences d ms all = Inr fin" and "list_all2 same_slots all (dc_mutations d)"
  shows "list_all2 same_slots fin (dc_mutations d)"
  using assms by (auto simp: with_sequences_def bindE_Inr_iff list_all2_conv_all_nth same_slots_def dest: emap_Inr_length)

lemma slots_zip: "list_all2 same_slots ms ds \<Longrightarrow> (m, decl) \<in> set (zip ms ds) \<Longrightarrow> same_slots m decl"
  by (auto simp: list_all2_iff)

lemma validate_returned:
  assumes "made d"
  shows "returned (validate_decls d)"
  unfolding validate_decls_def Let_def
proof (intro returned_bind, goal_cases)
  case 1
  show ?case by (rule check_declarations_returned)
next
  case 2
  from assms show ?case by (intro returned_emap structure_returned) (auto simp: made_def list_all_iff)
next
  case 3
  from assms show ?case by (intro validated_mutations_returned) (auto simp: made_def)
next
  case 4
  then show ?case by (auto intro: returned_emap inverse_returned)
next
  case 5
  show ?case by (rule prerequisites_returned)
next
  case 6
  with assms show ?case by (intro returned_emap requirement_returned)
next
  case (7 u ms all)
  have "returned (sequence_of ms all (m, decl))" if "(m, decl) \<in> set (zip all (dc_mutations d))" for m decl
  proof (rule sequence_returned)
    show "v \<in> set ms \<Longrightarrow> r \<in> set (vm_relations v) \<Longrightarrow> v_model_of ms (vr_target r) \<noteq> None" for v r
      by (rule models_found(2) [OF 7(2)])
    from that validated_mutations_slots [OF 7(3)] show "same_slots m decl" by (rule slots_zip [rotated])
    from that assms show "mutation_made decl" by (auto simp: made_def list_all_iff dest: set_zip_rightD)
  qed
  then show ?case unfolding with_sequences_def by (auto intro!: returned_intros)
next
  case (8 u ms all)
  then show ?case by (auto intro: returned_echeck check_unique_returned)
next
  case 9
  show ?case by (rule core_check_returned)
next
  case (10 u ms all invs ps rs fin)
  from with_sequences_slots [OF 10(7) validated_mutations_slots [OF 10(3)]]
  show ?case by (auto intro!: returned_efold check_mutation_returned dest: slots_zip)
next
  case 11
  show ?case by (rule returned_pure)
qed

lemma compile_validated_returned: "returned (compile_validated x source)"
  unfolding compile_validated_def
  by (auto intro!: returned_bind parse_returned validate_returned dest: parse_made)

text \<open>
  C34: compiling ends. On every source text the compiler returns its descriptors or a diagnostic:
  no loop of the parser runs on, no \<open>unwrap\<close>, index or \<open>expect\<close> of the parser, the validation or
  the rendering panics, whatever the source declares.
\<close>

theorem compile_ends: "(\<exists>v. compile x source = Inr v) \<or> (\<exists>msg. compile x source = Inl (Diagnostic msg))"
proof -
  have "returned (compile x source)"
    unfolding compile_def by (intro returned_bind compile_validated_returned returned_pure)
  moreover have "e = Panic \<or> e = Diverge \<or> (\<exists>msg. e = Diagnostic msg)" for e by (cases e) auto
  ultimately show ?thesis by (cases "compile x source") (auto simp: returned_def)
qed

end
