(* ===== verification/Declared.thy ===== *)
theory Declared
  imports Compiling
begin

text \<open>
  What a compiled schema says: the runtime reads from the compiler's output exactly the models,
  fields, relations and enums the source declares, and that schema is well formed.
\<close>

section \<open>The declared schema\<close>

definition declared_type :: "field_decl \<Rightarrow> value_type" where
  "declared_type f = (let ty = (case scalar_source (fd_type f) of Some s \<Rightarrow> TScalar s | None \<Rightarrow> TEnum (fd_type f)) in
     if fd_list f then TList ty else ty)"

definition declared_field :: "field_decl \<Rightarrow> field_desc" where
  "declared_field f = \<lparr>f_name = fd_name f, f_type = declared_type f, f_nullable = fd_nullable f, f_default = None\<rparr>"

definition stored_fields :: "declarations \<Rightarrow> model_decl \<Rightarrow> field_decl list" where
  "stored_fields d m = filter (\<lambda>f. is_model d (fd_type f) = None) (md_fields m)"

definition reference_fields :: "declarations \<Rightarrow> model_decl \<Rightarrow> field_decl list" where
  "reference_fields d m =
     filter (\<lambda>f. is_model d (fd_type f) \<noteq> None \<and> attribute f ''reference'' \<noteq> None) (md_fields m)"

text \<open>
  The relation of a reference field: named by the field, from the fields its \<open>via\<close> lists, in that
  order, to the identity of the model of its type, and cascading exactly when it says so.
\<close>

definition declares_relation :: "declarations \<Rightarrow> field_decl \<Rightarrow> relation_desc \<Rightarrow> bool" where
  "declares_relation d f r \<longleftrightarrow> r_name r = fd_name f \<and> r_target r = fd_type f \<and>
     (\<exists>reference target. attribute f ''reference'' = Some reference \<and> is_model d (fd_type f) = Some target \<and>
        index reference ''via'' = JArr (map JStr (r_fields r)) \<and> r_target_fields r = md_identity target \<and>
        r_on_delete r = (if get reference ''onTargetDelete'' = Some (JStr ''delete'') then ''delete'' else ''none''))"

definition declares_model :: "declarations \<Rightarrow> model_decl \<Rightarrow> model_desc \<Rightarrow> bool" where
  "declares_model d m desc \<longleftrightarrow>
     m_name desc = md_name m \<and> m_version desc = md_version m \<and> m_identity desc = md_identity m \<and>
     m_unique desc = map ud_fields (md_unique m) \<and>
     m_fields desc = map declared_field (stored_fields d m) \<and>
     list_all2 (declares_relation d) (reference_fields d m) (m_relations desc)"

definition declares :: "declarations \<Rightarrow> schema \<Rightarrow> bool" where
  "declares d s \<longleftrightarrow>
     map (\<lambda>e. (e_name e, e_values e)) (s_enums s) = map (\<lambda>e. (ed_name e, ed_values e)) (dc_enums d) \<and>
     list_all2 (declares_model d) (dc_models d) (s_models s)"

lemma stored_field_declared: "stored_field d f = Inr g \<Longrightarrow> field_desc_of g = declared_field f"
  by (auto simp: stored_field_def bindE_Inr_iff field_desc_of_def declared_field_def declared_type_def Let_def
      refuse_def split: option.splits if_splits)

lemma via_strings:
  assumes "echeck (check_via m target p) (zip via ids) = Inr u" and "length via = length ids"
  shows "map JStr (strings via) = via"
proof -
  have "\<exists>s. v = JStr s" if "v \<in> set via" for v
  proof -
    from that assms(2) obtain i where "(v, i) \<in> set (zip via ids)" by (metis in_set_impl_in_set_zip1)
    with assms(1) have "check_via m target p (v, i) = Inr ()" by (auto simp: echeck_Inr_iff)
    then show ?thesis by (auto simp: check_via_def bindE_Inr_iff dest: find_Some_in)
  qed
  then have "\<forall>v \<in> set via. \<exists>s. v = JStr s" by blast
  then show ?thesis by (induction via) (auto simp: strings_def)
qed

lemma relation_declared:
  assumes r: "relation_of m target f reference = Inr r" and a: "attribute f ''reference'' = Some reference"
    and t: "is_model d (fd_type f) = Some target"
  shows "declares_relation d f (relation_desc_of r)"
proof -
  from r obtain via del where via: "as_array (index reference ''via'') = Some via" "length via = length (md_identity target)"
      "echeck (check_via m target (fd_pos f)) (zip via (md_identity target)) = Inr ()"
    and del: "target_delete reference (fd_pos f) = Inr del"
    and r': "r = \<lparr>vr_name = fd_name f, vr_target = md_name target, vr_fields = strings via,
        vr_target_fields = md_identity target, vr_on_delete = del\<rparr>"
    by (auto simp: relation_of_def bindE_Inr_iff)
  from via(1) have "index reference ''via'' = JArr via" by (cases "index reference ''via''") simp_all
  with via_strings [OF via(3,2)] have "index reference ''via'' = JArr (map JStr (strings via))" by simp
  moreover have "on_delete_text del = (if get reference ''onTargetDelete'' = Some (JStr ''delete'') then ''delete'' else ''none'')"
    using del by (auto simp: target_delete_def refuse_def split: option.splits if_splits)
  moreover have "md_name target = fd_type f" using t by (auto simp: is_model_def dest: find_Some_in)
  ultimately show ?thesis using a t by (simp add: declares_relation_def r' relation_desc_of_def)
qed

lemma structure_fields:
  assumes "efold (structure_field d m) fs acc = Inr acc'"
  shows "snd acc' = snd acc @ filter (\<lambda>f. is_model d (fd_type f) = None) fs"
    and "\<exists>rs. fst acc' = fst acc @ rs \<and> list_all2 (declares_relation d)
      (filter (\<lambda>f. is_model d (fd_type f) \<noteq> None \<and> attribute f ''reference'' \<noteq> None) fs) (map relation_desc_of rs)"
proof -
  have "snd acc' = snd acc @ filter (\<lambda>f. is_model d (fd_type f) = None) fs \<and>
    (\<exists>rs. fst acc' = fst acc @ rs \<and> list_all2 (declares_relation d)
      (filter (\<lambda>f. is_model d (fd_type f) \<noteq> None \<and> attribute f ''reference'' \<noteq> None) fs) (map relation_desc_of rs))"
    using assms
  proof (induction fs arbitrary: acc)
    case (Cons f fs)
    then obtain b where b: "structure_field d m f acc = Inr b" "efold (structure_field d m) fs b = Inr acc'"
      by (auto simp: bindE_Inr_iff)
    from Cons.IH [OF b(2)] obtain rs where rs: "snd acc' = snd b @ filter (\<lambda>f. is_model d (fd_type f) = None) fs"
      "fst acc' = fst b @ rs" "list_all2 (declares_relation d)
        (filter (\<lambda>f. is_model d (fd_type f) \<noteq> None \<and> attribute f ''reference'' \<noteq> None) fs) (map relation_desc_of rs)" by blast
    show ?case
    proof (cases "is_model d (fd_type f)")
      case None
      with b(1) rs show ?thesis by (auto simp: structure_field_def bindE_Inr_iff)
    next
      case (Some target)
      note target = this
      show ?thesis
      proof (cases "attribute f ''reference''")
        case None
        with b(1) rs target show ?thesis by (auto simp: structure_field_def)
      next
        case (Some reference)
        with b(1) target obtain r where r: "relation_of m target f reference = Inr r" "b = (fst acc @ [r], snd acc)"
          by (auto simp: structure_field_def bindE_Inr_iff)
        from relation_declared [OF r(1) Some target] rs r(2) target Some show ?thesis
          by (intro conjI exI [of _ "r # rs"]) simp_all
      qed
    qed
  qed simp
  then show "snd acc' = snd acc @ filter (\<lambda>f. is_model d (fd_type f) = None) fs"
    and "\<exists>rs. fst acc' = fst acc @ rs \<and> list_all2 (declares_relation d)
      (filter (\<lambda>f. is_model d (fd_type f) \<noteq> None \<and> attribute f ''reference'' \<noteq> None) fs) (map relation_desc_of rs)"
    by blast+
qed

lemma structure_declared:
  assumes "structure_model d m = Inr v"
  shows "declares_model d m (model_desc_of v)"
proof -
  from assms obtain acc fs where acc: "efold (structure_field d m) (md_fields m) ([], []) = Inr acc"
    and fs: "emap (stored_field d) (snd acc) = Inr fs" and v: "vm_name v = md_name m" "vm_version v = md_version m"
      "vm_identity v = md_identity m" "vm_fields v = fs" "vm_relations v = fst acc" "vm_unique v = map ud_fields (md_unique m)"
    by (auto simp: structure_model_def bindE_Inr_iff split: prod.splits)
  from fs have "map field_desc_of fs = map declared_field (snd acc)"
    by (auto simp: emap_Inr_iff list_all2_conv_all_nth stored_field_declared intro!: nth_equalityI)
  with v structure_fields [OF acc] show ?thesis
    by (auto simp: declares_model_def model_desc_of_def stored_fields_def reference_fields_def)
qed

section \<open>What validation establishes\<close>

lemma validated_parts:
  assumes "validate_decls d = Inr v"
  obtains all where "emap (structure_model d) (dc_models d) = Inr (vd_models v)"
    and "validated_mutations d (vd_models v) = Inr all"
    and "with_sequences d (vd_models v) all = Inr (vd_mutations v)"
    and "vd_enums v = map (\<lambda>e. \<lparr>e_name = ed_name e, e_values = ed_values e\<rparr>) (dc_enums d)"
    and "core_check (dc_end d) v = Inr ()"
    and "is_ok (efold (check_mutation_decl (vd_models v)) (zip (vd_mutations v) (dc_mutations d)) [])"
  using assms by (auto simp: validate_decls_def bindE_Inr_iff Let_def)

lemma core_check_ok: "core_check eof v = Inr u \<Longrightarrow> schema_from_value (schema_json v) = Inr (schema_of v)"
  by (auto simp: core_check_def schema_from_value_def decode_schema_json bindE_Inr_iff refuse_def split: sum.splits)

lemma compile_Inr:
  assumes "compile x source = Inr c"
  obtains d v where "parse x source = Inr d" and "validate_decls d = Inr v" and "c = descriptors v"
  using assms by (auto simp: compile_def compile_validated_def bindE_Inr_iff)

lemma descriptors_schema [simp]: "index (descriptors v) ''schema'' = schema_json v"
  by (simp add: descriptors_def index_def get_obj)

text \<open>
  C33: the compiled schema is the declared one. When a source compiles, the runtime reads the
  schema descriptor back, accepts it by its own validation, and finds in it the declared models
  and enums, and no others: every model in its order with its version, its identity and its
  stored fields with their types and nullability, without defaults, its uniques, and exactly its
  references, each from the fields it names, in that order, to the identity of its target, with
  the deletion rule it declares.
\<close>

theorem compiled_schema_is_declared:
  assumes "compile x source = Inr c"
  shows "\<exists>d s. parse x source = Inr d \<and> schema_from_value (index c ''schema'') = Inr s \<and>
    declares d s \<and> schema_ok s"
proof -
  from assms obtain d v where d: "parse x source = Inr d" and v: "validate_decls d = Inr v" and c: "c = descriptors v"
    by (rule compile_Inr)
  from v obtain all where models: "emap (structure_model d) (dc_models d) = Inr (vd_models v)"
    and enums: "vd_enums v = map (\<lambda>e. \<lparr>e_name = ed_name e, e_values = ed_values e\<rparr>) (dc_enums d)"
    and core: "core_check (dc_end d) v = Inr ()"
    by (rule validated_parts)
  from core have s: "schema_from_value (schema_json v) = Inr (schema_of v)" by (rule core_check_ok)
  from models have "list_all2 (declares_model d) (dc_models d) (map model_desc_of (vd_models v))"
    by (auto simp: emap_Inr_iff list_all2_conv_all_nth structure_declared)
  with enums have "declares d (schema_of v)" by (simp add: declares_def schema_of_def comp_def)
  moreover from s have "schema_ok (schema_of v)"
    by (auto simp: schema_from_value_def decode_schema_json bindE_Inr_iff validate_ok_iff)
  ultimately show ?thesis using d s c by auto
qed

end
