(* ===== verification/History.thy ===== *)
theory History
  imports Validating
begin

text \<open>
  The compiler's histories (\<open>crates/compiler/src/history.rs\<close>): what a mutation's input and a
  model's read contract were when a version was published, which changes a version may take,
  and what has to stay. The values are the JSON the code works on.
\<close>

definition fail :: "string \<Rightarrow> 'a compiled" where
  "fail msg = Inl (Diagnostic msg)"

definition need :: "'a option \<Rightarrow> string \<Rightarrow> 'a compiled" where
  "need v msg = (case v of Some a \<Rightarrow> Inr a | None \<Rightarrow> fail msg)"

definition unless :: "bool \<Rightarrow> string \<Rightarrow> unit compiled" where
  "unless b msg = (if b then fail msg else Inr ())"

definition items_at :: "json \<Rightarrow> string \<Rightarrow> json list compiled" where
  "items_at v k = need (as_array (index v k)) (''history: expected '' @ k @ '' array'')"

definition named :: "json list \<Rightarrow> json \<Rightarrow> json option" where
  "named items name = find (\<lambda>i. index i ''name'' = name) items"

definition items_or_none :: "json \<Rightarrow> json list" where
  "items_or_none v = (case as_array v of Some vs \<Rightarrow> vs | None \<Rightarrow> [])"

section \<open>Mutation inputs\<close>

definition allows_field :: "json list \<Rightarrow> json \<Rightarrow> bool" where
  "allows_field used f \<longleftrightarrow> (\<exists>s \<in> set used. index s ''operation'' = JStr ''create'' \<or>
     (index s ''operation'' = JStr ''update'' \<and>
      (case as_array (index s ''allowedPatchFields'') of None \<Rightarrow> True
       | Some a \<Rightarrow> index f ''name'' \<in> set a)))"

definition field_enum :: "json \<Rightarrow> string list \<Rightarrow> string list compiled" where
  "field_enum f names =
     (if index (index f ''type'') ''kind'' = JStr ''enum''
      then bindE (unwrap (as_str (index (index f ''type'') ''name''))) (\<lambda>n. Inr (bs_ins n names))
      else Inr names)"

text \<open>The models the slots use, the enums of the fields kept, and the fields known of each.\<close>

definition capture_used :: "json list \<Rightarrow> json \<Rightarrow> json list \<times> string list \<times> (string \<times> json) list \<Rightarrow>
    (json list \<times> string list \<times> (string \<times> json) list) compiled" where
  "capture_used slots model acc = (case acc of (models, enums, known) \<Rightarrow>
     let used = filter (\<lambda>s. index s ''model'' = index model ''name'') slots in
     if used = [] then Inr acc
     else bindE (items_at model ''identity'')
       (\<lambda>identity. bindE (items_at model ''fields'')
       (\<lambda>fs. bindE (unwrap (as_str (index model ''name'')))
       (\<lambda>name. let selected = filter (\<lambda>f. index f ''name'' \<in> set identity \<or> allows_field used f) fs in
         bindE (efold field_enum selected enums)
         (\<lambda>enums. Inr (models @ [obj [(''name'', index model ''name''), (''identity'', JArr identity),
              (''fields'', JArr selected)]],
            enums, bt_ins name (JArr (map (\<lambda>f. index f ''name'') fs)) known))))))"

definition named_enums :: "json list \<Rightarrow> string list \<Rightarrow> json list compiled" where
  "named_enums es names = bindE (emap (\<lambda>e. bindE (unwrap (as_str (index e ''name''))) (\<lambda>n. Inr (e, n))) es)
     (\<lambda>ps. Inr (map fst (filter (\<lambda>p. snd p \<in> set names) ps)))"

definition requires_field :: "json list \<Rightarrow> json \<Rightarrow> bool" where
  "requires_field models r \<longleftrightarrow> (\<exists>m \<in> set models. index m ''name'' = index r ''model'' \<and>
     (\<exists>f \<in> set (items_or_none (index m ''fields'')). index f ''name'' = index r ''field''))"

definition capture :: "json \<Rightarrow> json \<Rightarrow> json compiled" where
  "capture config mutation =
     bindE (items_at mutation ''slots'')
     (\<lambda>slots. bindE (items_at (index config ''schema'') ''models'')
     (\<lambda>ms. bindE (efold (capture_used slots) ms ([], [], []))
     (\<lambda>(models, enums, known). bindE (items_at (index config ''schema'') ''enums'')
     (\<lambda>es. bindE (named_enums es enums)
     (\<lambda>enums. let requirements = filter (requires_field models) (items_or_none (index config ''requirements''));
          prerequisites = filter (\<lambda>p. \<exists>r \<in> set requirements. index r ''name'' = index p ''name'')
            (items_or_none (index config ''prerequisites'')) in
        Inr (obj [(''name'', index mutation ''name''), (''version'', index mutation ''version''),
          (''slots'', JArr slots), (''input'', obj [(''models'', JArr models), (''enums'', JArr enums)]),
          (''knownFields'', JObj known), (''requirements'', JArr requirements),
          (''prerequisites'', JArr prerequisites), (''sequence'', index mutation ''sequence'')]))))))"

section \<open>Which input changes a version takes\<close>

definition without_patch :: "json \<Rightarrow> (json \<times> json option) compiled" where
  "without_patch s = bindE (need (as_object s) ''invalid slot'')
     (\<lambda>kvs. Inr (JObj (bt_del ''allowedPatchFields'' kvs), map_of kvs ''allowedPatchFields''))"

definition patch_kept :: "json option \<Rightarrow> json option \<Rightarrow> bool compiled" where
  "patch_kept old new = (case old of None \<Rightarrow> Inr True
     | Some p \<Rightarrow> bindE (need (as_array p) ''invalid patch fields'')
         (\<lambda>fs. Inr (\<forall>f \<in> set fs. case Option.bind new as_array of Some a \<Rightarrow> f \<in> set a | None \<Rightarrow> False)))"

definition slot_kept :: "json \<times> json \<Rightarrow> bool compiled" where
  "slot_kept ab = bindE (without_patch (fst ab)) (\<lambda>l. bindE (without_patch (snd ab))
     (\<lambda>r. if fst l \<noteq> fst r then Inr False else patch_kept (snd l) (snd r)))"

text \<open>\<open>return Ok(false)\<close> from a loop: the first refusal decides.\<close>

fun all_of :: "('a \<Rightarrow> bool compiled) \<Rightarrow> 'a list \<Rightarrow> bool compiled" where
  "all_of f [] = Inr True"
| "all_of f (a # as) = bindE (f a) (\<lambda>b. if b then all_of f as else Inr False)"

definition and_then :: "bool compiled \<Rightarrow> bool compiled \<Rightarrow> bool compiled" where
  "and_then a b = bindE a (\<lambda>ok. if ok then b else Inr False)"

definition enum_kept :: "json \<Rightarrow> json \<Rightarrow> bool compiled" where
  "enum_kept new e = bindE (items_at (index new ''input'') ''enums'')
     (\<lambda>es. case named es (index e ''name'') of None \<Rightarrow> Inr False
        | Some next_enum \<Rightarrow> bindE (items_at e ''values'')
            (\<lambda>vs. all_of (\<lambda>v. bindE (unwrap (as_array (index next_enum ''values''))) (\<lambda>a. Inr (v \<in> set a))) vs))"

definition model_kept :: "json list \<Rightarrow> json \<Rightarrow> json \<Rightarrow> bool compiled" where
  "model_kept slots new m = bindE (items_at (index new ''input'') ''models'')
     (\<lambda>ms. case named ms (index m ''name'') of None \<Rightarrow> Inr False
        | Some next_model \<Rightarrow>
            if index m ''identity'' \<noteq> index next_model ''identity'' then Inr False
            else and_then
              (bindE (items_at m ''fields'') (all_of (\<lambda>f. bindE (items_at next_model ''fields'')
                 (\<lambda>fs. Inr (named fs (index f ''name'') = Some f)))))
              (if \<exists>s \<in> set slots. index s ''model'' = index m ''name'' \<and> index s ''operation'' = JStr ''create''
               then bindE (items_at next_model ''fields'') (all_of (\<lambda>f. bindE (items_at m ''fields'')
                 (\<lambda>fs. Inr (\<not> (named fs (index f ''name'') = None \<and> index f ''nullable'' \<noteq> JBool True)))))
               else Inr True))"

definition compatible :: "json \<Rightarrow> json \<Rightarrow> bool compiled" where
  "compatible old new =
     bindE (items_at old ''slots'')
     (\<lambda>a. bindE (items_at new ''slots'')
     (\<lambda>b. if length a \<noteq> length b then Inr False
        else and_then (all_of slot_kept (zip a b))
          (and_then (bindE (items_at (index old ''input'') ''enums'') (all_of (enum_kept new)))
          (and_then (bindE (items_at (index old ''input'') ''models'') (all_of (model_kept b new)))
             (Inr (index old ''requirements'' = index new ''requirements'' \<and>
                index old ''sequence'' = index new ''sequence''))))))"

section \<open>The mutation history\<close>

definition version_keys :: "(string \<times> json) list \<Rightarrow> nat list compiled" where
  "version_keys vs = emap (\<lambda>kv. need (parse_u64 (fst kv)) ''invalid retained version'') vs"

definition versions_of :: "(string \<times> json) list \<Rightarrow> string \<Rightarrow> (string \<times> json) list compiled" where
  "versions_of entries name = need (as_object (case map_of entries name of Some v \<Rightarrow> v | None \<Rightarrow> JObj []))
     ''invalid history versions''"

definition keep_mutation :: "json \<Rightarrow> json \<Rightarrow> (string \<times> json) list \<Rightarrow> (string \<times> json) list compiled" where
  "keep_mutation current mutation entries =
     bindE (need (as_str (index mutation ''name'')) ''unnamed mutation'')
     (\<lambda>name. bindE (need (as_u64 (index mutation ''version'')) ''invalid mutation version'')
     (\<lambda>version. bindE (capture current mutation)
     (\<lambda>snapshot. bindE (versions_of entries name)
     (\<lambda>versions. bindE (version_keys versions)
     (\<lambda>keys. let latest = fold max keys 0 in
        bindE (unless (version < latest) (name @ '': version cannot decrease from '' @ decimal latest))
        (\<lambda>_. bindE (case map_of versions (decimal version) of None \<Rightarrow> Inr True
            | Some previous \<Rightarrow> compatible previous snapshot)
        (\<lambda>ok. bindE (unless (\<not> ok) (name @ '' v'' @ decimal version @ '': incompatible input change; increase @@version''))
        (\<lambda>_. Inr (bt_ins name (JObj (bt_ins (decimal version) snapshot versions)) entries)))))))))"

definition declared_prerequisite :: "json \<Rightarrow> json \<Rightarrow> json option" where
  "declared_prerequisite v name = Option.bind (as_array (index v ''prerequisites'')) (\<lambda>d. named d name)"

definition check_snapshot :: "ext \<Rightarrow> json \<Rightarrow> json \<Rightarrow> unit compiled" where
  "check_snapshot x current snapshot = echeck (\<lambda>r.
     unless (declared_prerequisite current (index r ''name'') \<noteq> declared_prerequisite snapshot (index r ''name''))
       (''retained mutation still requires original prerequisite '' @ x_text x (index r ''name'')))
     (items_or_none (index snapshot ''requirements''))"

definition check_retained :: "ext \<Rightarrow> json \<Rightarrow> string \<times> json \<Rightarrow> unit compiled" where
  "check_retained x current entry =
     bindE (need (as_object (snd entry)) ''invalid history versions'')
     (echeck (\<lambda>kv. check_snapshot x current (snd kv)))"

definition history_start :: "string \<Rightarrow> json option \<Rightarrow> json" where
  "history_start key history = (case history of Some h \<Rightarrow> h
     | None \<Rightarrow> obj [(''formatVersion'', jnat 1), (key, JObj [])])"

text \<open>The entries of a history, when its format is known.\<close>

definition history_entries :: "string \<Rightarrow> string \<Rightarrow> json \<Rightarrow> (string \<times> json) list compiled" where
  "history_entries key msg h =
     (if index h ''formatVersion'' \<noteq> jnat 1 then fail msg else need (as_object (index h key)) msg)"

definition not_removed :: "string \<Rightarrow> json list \<Rightarrow> string \<times> json \<Rightarrow> unit compiled" where
  "not_removed kind items entry =
     unless (\<forall>m \<in> set items. index m ''name'' \<noteq> JStr (fst entry))
       (''retained '' @ kind @ '' '' @ fst entry @ '' cannot be removed'')"

definition reconcile_history :: "ext \<Rightarrow> json \<Rightarrow> json option \<Rightarrow> json compiled" where
  "reconcile_history x current history =
     (let h = history_start ''mutations'' history in
      bindE (history_entries ''mutations'' ''unsupported mutation history format'' h)
      (\<lambda>entries. bindE (items_at current ''mutations'')
      (\<lambda>mutations. bindE (echeck (not_removed ''mutation'' mutations) entries)
      (\<lambda>_. bindE (efold (keep_mutation current) mutations entries)
      (\<lambda>kept. bindE (echeck (check_retained x current) kept)
      (\<lambda>_. Inr (set_key h ''mutations'' (JObj kept))))))))"

section \<open>Read contracts\<close>

definition capture_model :: "json \<Rightarrow> json \<Rightarrow> json compiled" where
  "capture_model config model =
     bindE (items_at model ''fields'')
     (\<lambda>fs. let used = bs_of (List.map_filter (\<lambda>f. as_str (index (index f ''type'') ''name''))
          (filter (\<lambda>f. index (index f ''type'') ''kind'' = JStr ''enum'') fs)) in
      bindE (items_at (index config ''schema'') ''enums'')
      (\<lambda>es. Inr (obj [(''name'', index model ''name''), (''version'', index model ''version''),
         (''identity'', index model ''identity''), (''fields'', JArr fs),
         (''enums'', JArr (filter (\<lambda>e. case as_str (index e ''name'') of Some n \<Rightarrow> n \<in> set used
            | None \<Rightarrow> False) es))])))"

definition field_break :: "ext \<Rightarrow> json \<Rightarrow> json \<Rightarrow> string option compiled" where
  "field_break x new f = bindE (items_at new ''fields'')
     (\<lambda>fs. case named fs (index f ''name'') of
         None \<Rightarrow> Inr (Some (''removing or renaming field '' @ x_text x (index f ''name'')))
       | Some next_field \<Rightarrow>
           if next_field \<noteq> f then Inr (Some (''changing the type of field '' @ x_text x (index f ''name'')))
           else Inr None)"

definition added_break :: "ext \<Rightarrow> json \<Rightarrow> json \<Rightarrow> string option compiled" where
  "added_break x old f = bindE (items_at old ''fields'')
     (\<lambda>fs. if named fs (index f ''name'') = None \<and> index f ''nullable'' \<noteq> JBool True
        then Inr (Some (''adding required field '' @ x_text x (index f ''name''))) else Inr None)"

definition enum_break :: "ext \<Rightarrow> json \<Rightarrow> json \<Rightarrow> string option compiled" where
  "enum_break x new e = bindE (items_at new ''enums'')
     (\<lambda>es. if named es (index e ''name'') \<noteq> Some e
        then Inr (Some (''changing the values of enum '' @ x_text x (index e ''name''))) else Inr None)"

fun first_break :: "('a \<Rightarrow> string option compiled) \<Rightarrow> 'a list \<Rightarrow> string option compiled" where
  "first_break f [] = Inr None"
| "first_break f (a # as) = bindE (f a) (\<lambda>r. case r of None \<Rightarrow> first_break f as | Some _ \<Rightarrow> Inr r)"

definition else_break :: "string option compiled \<Rightarrow> string option compiled \<Rightarrow> string option compiled" where
  "else_break a b = bindE a (\<lambda>r. case r of None \<Rightarrow> b | Some _ \<Rightarrow> Inr r)"

definition model_break :: "ext \<Rightarrow> json \<Rightarrow> json \<Rightarrow> string option compiled" where
  "model_break x old new =
     else_break (bindE (items_at old ''fields'') (first_break (field_break x new)))
     (else_break (bindE (items_at new ''fields'') (first_break (added_break x old)))
        (bindE (items_at old ''enums'') (first_break (enum_break x new))))"

definition identity_kept :: "string \<Rightarrow> json \<Rightarrow> string \<times> json \<Rightarrow> unit compiled" where
  "identity_kept name snapshot kv = unless (index (snd kv) ''identity'' \<noteq> index snapshot ''identity'')
     (name @ '': identity change is not supported; a model version describes the record structure, not its identity'')"

definition keep_model :: "ext \<Rightarrow> json \<Rightarrow> json \<Rightarrow> (string \<times> json) list \<Rightarrow> (string \<times> json) list compiled" where
  "keep_model x current model entries =
     bindE (need (as_str (index model ''name'')) ''unnamed model'')
     (\<lambda>name. bindE (need (as_u64 (index model ''version'')) ''invalid model version'')
     (\<lambda>version. bindE (capture_model current model)
     (\<lambda>snapshot. bindE (versions_of entries name)
     (\<lambda>versions. bindE (version_keys versions)
     (\<lambda>keys. bindE (case sort keys of [] \<Rightarrow> Inr ()
          | k # ks \<Rightarrow> unless (version < last (k # ks))
              (name @ '': version cannot decrease from '' @ decimal (last (k # ks))))
     (\<lambda>_. bindE (echeck (identity_kept name snapshot) versions)
     (\<lambda>_. bindE (case map_of versions (decimal version) of None \<Rightarrow> Inr None
          | Some previous \<Rightarrow> model_break x previous snapshot)
     (\<lambda>reason. case reason of
          Some r \<Rightarrow> fail (name @ '' v'' @ decimal version @ '': '' @ r
            @ '' changes the read contract; increase @@version and keep the old loader'')
        | None \<Rightarrow> Inr (bt_ins name (JObj (bt_ins (decimal version) snapshot versions)) entries)))))))))"

definition reconcile_model_history :: "ext \<Rightarrow> json \<Rightarrow> json option \<Rightarrow> json compiled" where
  "reconcile_model_history x current history =
     (let h = history_start ''models'' history in
      bindE (history_entries ''models'' ''unsupported model history format'' h)
      (\<lambda>entries. bindE (items_at (index current ''schema'') ''models'')
      (\<lambda>models. bindE (echeck (not_removed ''model'' models) entries)
      (\<lambda>_. bindE (efold (keep_model x current) models entries)
      (\<lambda>kept. Inr (set_key h ''models'' (JObj kept)))))))"

section \<open>The fence\<close>

definition fence_version :: "json \<Rightarrow> nat" where
  "fence_version m = (case Option.bind (get m ''version'') as_u64 of Some n \<Rightarrow> n | None \<Rightarrow> 1)"

definition fence_model :: "ext \<Rightarrow> json \<Rightarrow> json \<Rightarrow> unit compiled" where
  "fence_model x after m = bindE (items_at after ''models'')
     (\<lambda>ms. bindE (need (named ms (index m ''name''))
         (''schema fence: published model '' @ x_text x (index m ''name'') @ '' removed''))
     (\<lambda>next_model. if fence_version m < fence_version next_model then Inr ()
        else bindE (items_at m ''fields'') (echeck (\<lambda>f. bindE (items_at next_model ''fields'')
          (\<lambda>fs. bindE (need (named fs (index f ''name'')) (''schema fence: published field ''
             @ x_text x (index m ''name'') @ ''.'' @ x_text x (index f ''name'') @ '' removed''))
          (\<lambda>_. Inr ()))))))"

definition check_fence :: "ext \<Rightarrow> json \<Rightarrow> json \<Rightarrow> unit compiled" where
  "check_fence x published current = bindE (items_at published ''models'') (echeck (fence_model x current))"

end
