(* ===== verification/Building.thy ===== *)
theory Building
  imports History Contract
begin

text \<open>
  The compiler's command (\<open>crates/compiler/src/main.rs\<close>) between its arguments and the files
  it writes, and the derived decoding of the configuration the server starts with
  (\<open>Config::decode\<close> of \<open>crates/server/src/lib.rs\<close>). A file is its path and its text, if it
  exists; which files are written and how they are staged is input and output.
\<close>

section \<open>The sources\<close>

definition source_lines :: "string \<Rightarrow> nat" where
  "source_lines s = length (filter (\<lambda>c. c = CHR 0x0A) s)"

fun join_sources :: "(string \<times> string) list \<Rightarrow> string \<Rightarrow> (nat \<times> string) list \<Rightarrow> string \<times> (nat \<times> string) list" where
  "join_sources [] source origins = (source, origins)"
| "join_sources ((path, text') # fs) source origins =
     join_sources fs (source @ text' @ newline) (origins @ [(source_lines source + 1, path)])"

text \<open>A diagnostic at a line of the joined text is reported at its file's line.\<close>

definition relabel :: "(nat \<times> string) list \<Rightarrow> string \<Rightarrow> 'a compiled" where
  "relabel origins e =
     (let parts = split_on (\<lambda>c. c = CHR '':'') e;
          line = (case parse_u64 (hd parts) of Some n \<Rightarrow> n | None \<Rightarrow> 1) in
      bindE (unwrap (find (\<lambda>o'. fst o' \<le> line) (rev origins)))
      (\<lambda>(start, path). fail (path @ '':'' @ decimal (line - start + 1) @ '':'' @
         (if tl parts = [] then e else join '':'' (tl parts)))))"

definition compile_files :: "ext \<Rightarrow> (string \<times> string) list \<Rightarrow> json compiled" where
  "compile_files x files =
     (case join_sources files [] [] of (source, origins) \<Rightarrow>
        (case compile x source of Inl (Diagnostic e) \<Rightarrow> relabel origins e | r \<Rightarrow> r))"

section \<open>The command\<close>

type_synonym text_file = "string \<times> string option"

record command =
  cl_sources :: "(string \<times> string) list"
  cl_history :: text_file
  cl_explicit :: bool
  cl_initialize :: bool
  cl_superseded :: text_file
  cl_models :: text_file
  cl_explicit_models :: bool
  cl_initialize_models :: bool
  cl_fence :: text_file

definition exists_file :: "text_file \<Rightarrow> bool" where
  "exists_file f \<longleftrightarrow> snd f \<noteq> None"

definition read_json :: "ext \<Rightarrow> text_file \<Rightarrow> json option compiled" where
  "read_json x f = (case snd f of None \<Rightarrow> Inr None
     | Some t \<Rightarrow> (case from_str x t of Inr v \<Rightarrow> Inr (Some v)
         | Inl e \<Rightarrow> fail (fst f @ '': '' @ err_text e)))"

definition relocates :: "command \<Rightarrow> bool" where
  "relocates c \<longleftrightarrow> \<not> cl_explicit c \<and> \<not> exists_file (cl_history c) \<and> exists_file (cl_superseded c)"

definition check_command :: "command \<Rightarrow> unit compiled" where
  "check_command c =
     bindE (unless (cl_initialize c \<and> (exists_file (cl_history c) \<or> relocates c))
       ''mutation history already exists; initialization refused'')
     (\<lambda>_. bindE (unless (cl_explicit c \<and> \<not> exists_file (cl_history c) \<and> \<not> cl_initialize c)
       ''missing mutation history; restore it or initialize explicitly'')
     (\<lambda>_. bindE (unless (cl_initialize_models c \<and> exists_file (cl_models c))
       ''model history already exists; initialization refused'')
     (\<lambda>_. bindE (unless (cl_explicit_models c \<and> \<not> exists_file (cl_models c) \<and> \<not> cl_initialize_models c)
       ''missing model history; restore it or initialize explicitly'')
     (\<lambda>_. unless (cl_sources c = []) ''input directory has no .model files''))))"

definition first_versions :: "json list \<Rightarrow> bool" where
  "first_versions vs \<longleftrightarrow> (\<forall>m \<in> set vs. index m ''version'' = jnat 1)"

definition check_initial :: "command \<Rightarrow> json \<Rightarrow> unit compiled" where
  "check_initial c config =
     bindE (if cl_initialize c
       then bindE (unwrap (as_array (index config ''mutations'')))
         (\<lambda>ms. unless (\<not> first_versions ms) ''initial mutation history must begin at version 1'')
       else Inr ())
     (\<lambda>_. if cl_initialize_models c
       then bindE (unwrap (as_array (index (index config ''schema'') ''models'')))
         (\<lambda>ms. unless (\<not> first_versions ms) ''initial model history must begin at version 1'')
       else Inr ())"

text \<open>Every retained version, in the order of the history.\<close>

definition retained :: "json \<Rightarrow> string \<Rightarrow> json list compiled" where
  "retained history key =
     bindE (unwrap (as_object (index history key)))
     (\<lambda>entries. bindE (emap (\<lambda>kv. bindE (unwrap (as_object (snd kv))) (\<lambda>vs. Inr (map snd vs))) entries)
     (\<lambda>vss. Inr (concat vss)))"

fun remove_key :: "json \<Rightarrow> string \<Rightarrow> json" where
  "remove_key (JObj kvs) k = JObj (bt_del k kvs)"
| "remove_key v k = v"

record outputs =
  ou_schema :: json
  ou_backend :: json
  ou_history :: json
  ou_models :: json

definition assemble :: "json \<Rightarrow> json \<Rightarrow> json \<Rightarrow> outputs compiled" where
  "assemble config history models =
     bindE (retained history ''mutations'')
     (\<lambda>historical. bindE (retained models ''models'')
     (\<lambda>contracts.
        let c1 = set_key config ''backendMutations'' (JArr historical);
            c2 = set_key c1 ''schema'' (set_key (index c1 ''schema'') ''clientPolicies'' (JArr historical));
            c3 = set_key c2 ''backendModels'' (JArr contracts);
            backend = set_key (set_key c3 ''mutations'' (JArr historical)) ''models'' (index c3 ''backendModels'') in
        Inr \<lparr>ou_schema = index c3 ''schema'',
          ou_backend = remove_key (remove_key backend ''backendMutations'') ''backendModels'',
          ou_history = history, ou_models = models\<rparr>))"

definition run_compiler :: "ext \<Rightarrow> command \<Rightarrow> outputs compiled" where
  "run_compiler x c =
     bindE (check_command c)
     (\<lambda>_. bindE (compile_files x (cl_sources c))
     (\<lambda>config. bindE (check_initial c config)
     (\<lambda>_. bindE (read_json x (cl_fence c))
     (\<lambda>fence. bindE (case fence of None \<Rightarrow> Inr () | Some f \<Rightarrow> check_fence x f (index config ''schema''))
     (\<lambda>_. bindE (read_json x (if relocates c then cl_superseded c else cl_history c))
     (\<lambda>previous. bindE (reconcile_history x config previous)
     (\<lambda>history. bindE (read_json x (cl_models c))
     (\<lambda>previous_models. bindE (reconcile_model_history x config previous_models)
     (\<lambda>models. assemble config history models)))))))))"

section \<open>The server's configuration\<close>

definition binding_names :: "string list" where
  "binding_names = [''fields'', ''slot'']"

definition decode_binding :: "json \<Rightarrow> binding res" where
  "decode_binding v =
     bindE (shaped binding_names v)
     (\<lambda>_. bindE (needed binding_names v ''fields'' (decode_list decode_string))
     (\<lambda>fs. bindE (needed binding_names v ''slot'' decode_string)
     (\<lambda>s. Inr \<lparr>bd_fields = fs, bd_slot = s\<rparr>)))"

definition slot_names :: "string list" where
  "slot_names = [''name'', ''model'', ''operation'', ''cardinality'', ''allowedPatchFields'', ''bindings'']"

definition decode_slot_desc :: "json \<Rightarrow> slot res" where
  "decode_slot_desc v =
     bindE (shaped slot_names v)
     (\<lambda>_. bindE (needed slot_names v ''name'' decode_string)
     (\<lambda>n. bindE (needed slot_names v ''model'' decode_string)
     (\<lambda>m. bindE (needed slot_names v ''operation'' decode_string)
     (\<lambda>op. bindE (needed slot_names v ''cardinality'' decode_string)
     (\<lambda>card. bindE (defaulted slot_names v ''allowedPatchFields'' [] (decode_list decode_string))
     (\<lambda>patch. bindE (defaulted slot_names v ''bindings'' [] (decode_list decode_binding))
     (\<lambda>bs. Inr \<lparr>sl_name = n, sl_model = m, sl_operation = op, sl_cardinality = card,
        sl_patch = patch, sl_bindings = bs\<rparr>)))))))"

definition mutation_names :: "string list" where
  "mutation_names = [''name'', ''version'', ''slots'', ''input'', ''knownFields'']"

definition decode_known :: "json \<Rightarrow> (string \<times> string list) list res" where
  "decode_known v =
     bindE (ok_or (as_object v) derive_error)
     (\<lambda>kvs. bindE (emap (\<lambda>(k, w). map_sum id (Pair k) (decode_list decode_string w)) kvs) (\<lambda>ps. Inr (bt_of ps)))"

definition decode_server_mutation :: "json \<Rightarrow> server_mutation res" where
  "decode_server_mutation v =
     bindE (shaped mutation_names v)
     (\<lambda>_. bindE (needed mutation_names v ''name'' decode_string)
     (\<lambda>n. bindE (needed mutation_names v ''version'' decode_u64)
     (\<lambda>version. bindE (needed mutation_names v ''slots'' (decode_list decode_slot_desc))
     (\<lambda>slots. bindE (defaulted mutation_names v ''input'' None
         (\<lambda>w. if is_null w then Inr None else map_sum id Some (decode_schema w)))
     (\<lambda>input. bindE (defaulted mutation_names v ''knownFields'' [] decode_known)
     (\<lambda>known. Inr \<lparr>sm_name = n, sm_version = version, sm_slots = slots, sm_input = input,
        sm_known = known\<rparr>))))))"

definition contract_names :: "string list" where
  "contract_names = [''name'', ''version'', ''identity'', ''fields'', ''enums'']"

definition decode_contract :: "json \<Rightarrow> contract res" where
  "decode_contract v =
     bindE (shaped contract_names v)
     (\<lambda>_. bindE (needed contract_names v ''name'' decode_string)
     (\<lambda>n. bindE (needed contract_names v ''version'' decode_u64)
     (\<lambda>version. bindE (needed contract_names v ''identity'' (decode_list decode_string))
     (\<lambda>identity. bindE (needed contract_names v ''fields'' (decode_list decode_field))
     (\<lambda>fs. bindE (defaulted contract_names v ''enums'' [] (decode_list decode_enum))
     (\<lambda>es. Inr \<lparr>ct_name = n, ct_version = version, ct_identity = identity, ct_fields = fs, ct_enums = es\<rparr>))))))"

definition config_names :: "string list" where
  "config_names = [''schema'', ''mutations'', ''loaders'', ''models'']"

definition decode_config :: "json \<Rightarrow> config res" where
  "decode_config v =
     bindE (shaped config_names v)
     (\<lambda>_. bindE (needed config_names v ''schema'' decode_schema)
     (\<lambda>s. bindE (needed config_names v ''mutations'' (decode_list decode_server_mutation))
     (\<lambda>ms. bindE (needed config_names v ''loaders'' (decode_list decode_string))
     (\<lambda>ls. bindE (defaulted config_names v ''models'' [] (decode_list decode_contract))
     (\<lambda>cs. Inr \<lparr>cf_schema = s, cf_mutations = ms, cf_loaders = ls, cf_models = cs\<rparr>)))))"

definition config_from_value :: "json \<Rightarrow> config sres" where
  "config_from_value v = bindE (sres config_code (decode_config v)) config_decode"

end
