(* ===== verification/Contracts.thy ===== *)
theory Contracts
  imports Declared Building Compat
begin

text \<open>
  Read contracts across builds: what \<open>reconcile_model_history\<close> keeps, and what it means for the
  clients of earlier builds.
\<close>

section \<open>A contract's snapshot\<close>

definition uses_enum :: "v_field \<Rightarrow> string option" where
  "uses_enum f = (case vf_type f of TEnum n \<Rightarrow> Some n | _ \<Rightarrow> None)"

definition used_enums :: "validated \<Rightarrow> v_model \<Rightarrow> enum_desc list" where
  "used_enums v m = filter (\<lambda>e. Some (e_name e) \<in> uses_enum ` set (vm_fields m)) (vd_enums v)"

definition contract_json :: "validated \<Rightarrow> v_model \<Rightarrow> json" where
  "contract_json v m = obj [(''name'', JStr (vm_name m)), (''version'', jnat (vm_version m)),
     (''identity'', jstrs (vm_identity m)), (''fields'', JArr (map field_json (vm_fields m))),
     (''enums'', JArr (map enum_json (used_enums v m)))]"

definition contract_desc :: "validated \<Rightarrow> v_model \<Rightarrow> contract" where
  "contract_desc v m = \<lparr>ct_name = vm_name m, ct_version = vm_version m, ct_identity = vm_identity m,
     ct_fields = map field_desc_of (vm_fields m), ct_enums = used_enums v m\<rparr>"

lemma decode_contract_json: "decode_contract (contract_json v m) = Inr (contract_desc v m)"
  by (simp add: decode_contract_def contract_json_def contract_desc_def decoding decode_list_map
      decode_list_map [of _ _ _ id, simplified])

lemma items_at_obj: "map_of (rev kvs) k = Some (JArr vs) \<Longrightarrow> items_at (obj kvs) k = Inr vs"
  by (simp add: items_at_def index_def get_obj need_def)

lemma index_obj: "index (obj kvs) k = (case map_of (rev kvs) k of None \<Rightarrow> JNull | Some w \<Rightarrow> w)"
  by (simp add: index_def get_obj)

lemma type_kind: "index (type_json t) ''kind'' = JStr ''enum'' \<longleftrightarrow> (\<exists>n. t = TEnum n)"
  by (cases t) (simp_all add: index_obj)

lemma field_json_index:
  "index (field_json f) ''name'' = JStr (vf_name f)"
  "index (field_json f) ''type'' = type_json (vf_type f)"
  "index (field_json f) ''nullable'' = JBool (vf_nullable f)"
  by (simp_all add: field_json_def index_obj)

lemma enum_json_index: "index (enum_json e) ''name'' = JStr (e_name e)"
  by (simp add: enum_json_def index_obj)

lemma model_json_parts [simp]:
  "items_at (model_json m) ''fields'' = Inr (map field_json (vm_fields m))"
  "index (model_json m) ''name'' = JStr (vm_name m)"
  "index (model_json m) ''version'' = jnat (vm_version m)"
  "index (model_json m) ''identity'' = jstrs (vm_identity m)"
  by (simp_all add: model_json_def items_at_obj index_obj)

lemma schema_json_parts [simp]:
  "items_at (schema_json v) ''enums'' = Inr (map enum_json (vd_enums v))"
  "items_at (schema_json v) ''models'' = Inr (map model_json (vd_models v))"
  by (simp_all add: schema_json_def items_at_obj)

lemma filter_map_same: "(\<And>a. P (g a) \<longleftrightarrow> Q a) \<Longrightarrow> filter P (map g xs) = map g (filter Q xs)"
  by (induction xs) auto

lemma enum_names_used:
  "List.map_filter (\<lambda>f. as_str (index (index f ''type'') ''name''))
      (filter (\<lambda>f. index (index f ''type'') ''kind'' = JStr ''enum'') (map field_json fs)) =
   List.map_filter uses_enum fs"
proof (induction fs)
  case (Cons f fs)
  then show ?case
    by (cases "vf_type f") (simp_all add: map_filter_simps field_json_index uses_enum_def index_obj)
qed (simp add: map_filter_simps)

lemma set_map_filter: "set (List.map_filter f xs) = {y. Some y \<in> f ` set xs}"
  by (induction xs) (auto simp: map_filter_simps split: option.splits)

lemma capture_model_descriptors: "capture_model (descriptors v) (model_json m) = Inr (contract_json v m)"
  by (simp add: capture_model_def contract_json_def used_enums_def jstrs_def [of "vm_identity m"]
      enum_names_used set_map_filter enum_json_index
      filter_map_same [where g = enum_json and Q = "\<lambda>e. Some (e_name e) \<in> uses_enum ` set (vm_fields m)"])

lemma contract_json_parts [simp]:
  "items_at (contract_json v m) ''fields'' = Inr (map field_json (vm_fields m))"
  "items_at (contract_json v m) ''enums'' = Inr (map enum_json (used_enums v m))"
  "index (contract_json v m) ''identity'' = jstrs (vm_identity m)"
  by (simp_all add: contract_json_def items_at_obj index_obj)

section \<open>What no break means\<close>

lemma named_map: "(\<And>a. index (g a) ''name'' = JStr (k a)) \<Longrightarrow>
    named (map g xs) (JStr n) = map_option g (find (\<lambda>a. k a = n) xs)"
  by (induction xs) (auto simp: named_def)

lemma field_json_inject [simp]: "field_json f = field_json g \<longleftrightarrow> f = g"
proof
  assume "field_json f = field_json g"
  from arg_cong [OF this, of decode_field] show "f = g"
    by (auto simp: field_desc_of_def intro: v_field.equality)
qed simp

lemma enum_json_inject [simp]: "enum_json e = enum_json e' \<longleftrightarrow> e = e'"
proof
  assume "enum_json e = enum_json e'"
  from arg_cong [OF this, of decode_enum] show "e = e'" by simp
qed simp

lemma first_break_None: "first_break f as = Inr None \<longleftrightarrow> (\<forall>a \<in> set as. f a = Inr None)"
  by (induction as) (auto simp: bindE_Inr_iff split: option.splits)

lemma else_break_None: "else_break a b = Inr None \<longleftrightarrow> a = Inr None \<and> b = Inr None"
  by (auto simp: else_break_def bindE_Inr_iff split: option.splits)

text \<open>
  A contract reads an older one when it has all of its fields and enums as they were; the fields
  it adds are nullable.
\<close>

definition reads_as :: "validated \<Rightarrow> v_model \<Rightarrow> validated \<Rightarrow> v_model \<Rightarrow> bool" where
  "reads_as v m w n \<longleftrightarrow>
     (\<forall>f \<in> set (vm_fields m). find (\<lambda>g. vf_name g = vf_name f) (vm_fields n) = Some f) \<and>
     (\<forall>e \<in> set (used_enums v m). find (\<lambda>d. e_name d = e_name e) (used_enums w n) = Some e)"

lemma reads_trans: "reads_as v m w n \<Longrightarrow> reads_as w n u k \<Longrightarrow> reads_as v m u k"
  unfolding reads_as_def by (meson find_Some_in)

lemma model_break_reads: "model_break x (contract_json v m) (contract_json w n) = Inr None \<Longrightarrow> reads_as v m w n"
proof -
  assume "model_break x (contract_json v m) (contract_json w n) = Inr None"
  then have f: "\<forall>f \<in> set (vm_fields m). field_break x (contract_json w n) (field_json f) = Inr None"
    and e: "\<forall>e \<in> set (used_enums v m). enum_break x (contract_json w n) (enum_json e) = Inr None"
    by (simp_all add: model_break_def else_break_None first_break_None)
  show ?thesis
    unfolding reads_as_def
  proof (intro conjI ballI)
    fix g assume "g \<in> set (vm_fields m)"
    with f have "field_break x (contract_json w n) (field_json g) = Inr None" by blast
    then show "find (\<lambda>h. vf_name h = vf_name g) (vm_fields n) = Some g"
      by (simp add: field_break_def field_json_index named_map [of field_json vf_name] split: option.splits if_splits)
  next
    fix d assume "d \<in> set (used_enums v m)"
    with e have "enum_break x (contract_json w n) (enum_json d) = Inr None" by blast
    then show "find (\<lambda>h. e_name h = e_name d) (used_enums w n) = Some d"
      by (auto simp: enum_break_def enum_json_index named_map [of enum_json e_name] split: if_splits)
  qed
qed

section \<open>The history\<close>

text \<open>The snapshot of a version in a history.\<close>

definition kept_at :: "string \<Rightarrow> json \<Rightarrow> string \<Rightarrow> nat \<Rightarrow> json option" where
  "kept_at key h name version = Option.bind (get (index h key) name) (\<lambda>vs. get vs (decimal version))"

definition entry_at :: "(string \<times> json) list \<Rightarrow> string \<Rightarrow> nat \<Rightarrow> json option" where
  "entry_at entries name version = Option.bind (map_of entries name) (\<lambda>vs. get vs (decimal version))"

text \<open>One step of the reconciliation: the model's own version is kept as captured, the others stay.\<close>

lemma versions_of_Inr:
  "versions_of entries name = Inr versions \<Longrightarrow>
    (case map_of entries name of Some v \<Rightarrow> v | None \<Rightarrow> JObj []) = JObj versions"
  by (cases "case map_of entries name of Some v \<Rightarrow> v | None \<Rightarrow> JObj []")
    (auto simp: versions_of_def need_def fail_def)

lemma keep_model_entry:
  assumes "keep_model x (descriptors v) (model_json m) entries = Inr entries'"
  shows "entry_at entries' name version =
    (if name = vm_name m \<and> version = vm_version m then Some (contract_json v m)
     else entry_at entries name version)"
    and "entry_at entries (vm_name m) (vm_version m) = Some old \<Longrightarrow> model_break x old (contract_json v m) = Inr None"
proof -
  from assms obtain versions where vs: "versions_of entries (vm_name m) = Inr versions"
    and br: "(case map_of versions (decimal (vm_version m)) of None \<Rightarrow> Inr None
        | Some previous \<Rightarrow> model_break x previous (contract_json v m)) = Inr None"
    and e: "entries' = bt_ins (vm_name m) (JObj (bt_ins (decimal (vm_version m)) (contract_json v m) versions)) entries"
    by (auto simp: keep_model_def bindE_Inr_iff need_def capture_model_descriptors fail_def split: option.splits)
  from vs have old: "entry_at entries (vm_name m) k = map_of versions (decimal k)" for k
    using versions_of_Inr [OF vs] by (cases "map_of entries (vm_name m)") (auto simp: entry_at_def)
  with e show "entry_at entries' name version =
    (if name = vm_name m \<and> version = vm_version m then Some (contract_json v m)
     else entry_at entries name version)"
    by (auto simp: entry_at_def)
  show "entry_at entries (vm_name m) (vm_version m) = Some old \<Longrightarrow> model_break x old (contract_json v m) = Inr None"
    using br old by simp
qed

lemma keep_model_identity:
  assumes "keep_model x (descriptors v) (model_json m) entries = Inr entries'"
    and "entry_at entries (vm_name m) k = Some old"
  shows "index old ''identity'' = jstrs (vm_identity m)"
proof -
  from assms(1) obtain versions where vs: "versions_of entries (vm_name m) = Inr versions"
    and i: "\<forall>kv \<in> set versions. identity_kept (vm_name m) (contract_json v m) kv = Inr ()"
    by (auto simp: keep_model_def bindE_Inr_iff need_def capture_model_descriptors fail_def echeck_Inr_iff
        split: option.splits)
  from versions_of_Inr [OF vs] assms(2) have "map_of versions (decimal k) = Some old"
    by (cases "map_of entries (vm_name m)") (auto simp: entry_at_def)
  then have "(decimal k, old) \<in> set versions" by (rule map_of_SomeD)
  with i have "identity_kept (vm_name m) (contract_json v m) (decimal k, old) = Inr ()" by blast
  then show ?thesis by (simp add: identity_kept_def unless_def fail_def split: if_splits)
qed

text \<open>A whole pass over the models of a schema, whose names are distinct.\<close>

lemma keep_models:
  assumes "efold (keep_model x (descriptors v)) (map model_json ms) entries = Inr entries'"
    and "distinct (map vm_name ms)"
  shows "name \<notin> vm_name ` set ms \<Longrightarrow> entry_at entries' name k = entry_at entries name k"
    and "m \<in> set ms \<Longrightarrow> entry_at entries' (vm_name m) k =
      (if k = vm_version m then Some (contract_json v m) else entry_at entries (vm_name m) k)"
    and "m \<in> set ms \<Longrightarrow> entry_at entries (vm_name m) (vm_version m) = Some old \<Longrightarrow>
      model_break x old (contract_json v m) = Inr None"
    and "m \<in> set ms \<Longrightarrow> entry_at entries (vm_name m) k = Some old \<Longrightarrow>
      index old ''identity'' = jstrs (vm_identity m)"
proof -
  have "(name \<notin> vm_name ` set ms \<longrightarrow> entry_at entries' name k = entry_at entries name k) \<and>
    (m \<in> set ms \<longrightarrow> entry_at entries' (vm_name m) k =
      (if k = vm_version m then Some (contract_json v m) else entry_at entries (vm_name m) k)) \<and>
    (m \<in> set ms \<longrightarrow> entry_at entries (vm_name m) (vm_version m) = Some old \<longrightarrow>
      model_break x old (contract_json v m) = Inr None) \<and>
    (m \<in> set ms \<longrightarrow> entry_at entries (vm_name m) k = Some old \<longrightarrow>
      index old ''identity'' = jstrs (vm_identity m))" for name k m old
    using assms
  proof (induction ms arbitrary: entries name k m old)
    case (Cons a ms)
    then obtain mid where mid: "keep_model x (descriptors v) (model_json a) entries = Inr mid"
      and rest: "efold (keep_model x (descriptors v)) (map model_json ms) mid = Inr entries'"
      by (auto simp: bindE_Inr_iff)
    from Cons.prems(2) have d: "distinct (map vm_name ms)" "vm_name a \<notin> vm_name ` set ms" by auto
    note IH = Cons.IH [OF rest d(1)]
    have first: "entry_at mid n j = (if n = vm_name a \<and> j = vm_version a then Some (contract_json v a) else entry_at entries n j)" for n j
      by (rule keep_model_entry(1) [OF mid])
    show ?case
    proof (intro conjI impI)
      show "name \<notin> vm_name ` set (a # ms) \<Longrightarrow> entry_at entries' name k = entry_at entries name k"
        using IH [of name k] first by auto
      assume m: "m \<in> set (a # ms)"
      have inn: "m \<in> set ms" if "m \<noteq> a" using that m by auto
      have other: "vm_name m \<noteq> vm_name a" if "m \<noteq> a" using inn [OF that] d(2) by (metis imageI)
      show "entry_at entries' (vm_name m) k =
          (if k = vm_version m then Some (contract_json v m) else entry_at entries (vm_name m) k)"
        using IH [of "vm_name m" k m] IH [of "vm_name a" k] first d(2) other inn by (cases "m = a") auto
      show "model_break x old (contract_json v m) = Inr None" if "entry_at entries (vm_name m) (vm_version m) = Some old"
        using IH [of _ _ m old] first that keep_model_entry(2) [OF mid] other inn by (cases "m = a") auto
      show "index old ''identity'' = jstrs (vm_identity m)" if "entry_at entries (vm_name m) k = Some old"
        using IH [of _ k m old] first that keep_model_identity [OF mid] other inn by (cases "m = a") auto
    qed
  qed simp
  then show "name \<notin> vm_name ` set ms \<Longrightarrow> entry_at entries' name k = entry_at entries name k"
    and "m \<in> set ms \<Longrightarrow> entry_at entries' (vm_name m) k =
      (if k = vm_version m then Some (contract_json v m) else entry_at entries (vm_name m) k)"
    and "m \<in> set ms \<Longrightarrow> entry_at entries (vm_name m) (vm_version m) = Some old \<Longrightarrow>
      model_break x old (contract_json v m) = Inr None"
    and "m \<in> set ms \<Longrightarrow> entry_at entries (vm_name m) k = Some old \<Longrightarrow>
      index old ''identity'' = jstrs (vm_identity m)"
    by blast+
qed

lemma reconcile_entries:
  assumes "reconcile_model_history x (descriptors v) previous = Inr h"
  obtains entries entries' where "efold (keep_model x (descriptors v)) (map model_json (vd_models v)) entries = Inr entries'"
    and "\<And>n k. kept_at ''models'' h n k = entry_at entries' n k"
    and "\<And>h0 n k. previous = Some h0 \<Longrightarrow> kept_at ''models'' h0 n k = entry_at entries n k"
    and "\<And>n. n \<in> fst ` set entries \<Longrightarrow> n \<in> vm_name ` set (vd_models v)"
proof -
  let ?h = "history_start ''models'' previous"
  from assms obtain entries entries' where
      e: "history_entries ''models'' ''unsupported model history format'' ?h = Inr entries"
    and removed: "\<forall>en \<in> set entries. not_removed ''model'' (map model_json (vd_models v)) en = Inr ()"
    and e': "efold (keep_model x (descriptors v)) (map model_json (vd_models v)) entries = Inr entries'"
    and h: "h = set_key ?h ''models'' (JObj entries')"
    by (auto simp: reconcile_model_history_def bindE_Inr_iff Let_def echeck_Inr_iff)
  from e have obj: "index ?h ''models'' = JObj entries" and fmt: "index ?h ''formatVersion'' = jnat 1"
    by (cases "index ?h ''models''"; simp add: history_entries_def need_def fail_def split: if_splits)+
  have "kept_at ''models'' h n k = entry_at entries' n k" for n k
  proof -
    from fmt obtain kvs where "?h = JObj kvs" by (cases ?h) (auto simp: index_def)
    with h show ?thesis by (simp add: kept_at_def entry_at_def index_def)
  qed
  moreover have "kept_at ''models'' h0 n k = entry_at entries n k" if "previous = Some h0" for h0 n k
    using obj that by (simp add: history_start_def kept_at_def entry_at_def)
  moreover have "n \<in> vm_name ` set (vd_models v)" if "n \<in> fst ` set entries" for n
    using removed that by (force simp: not_removed_def unless_def fail_def split: if_splits)
  ultimately show thesis using that e' by blast
qed

section \<open>Across builds\<close>

text \<open>The histories that later builds make of a history.\<close>

inductive later :: "ext \<Rightarrow> json \<Rightarrow> json \<Rightarrow> bool" for x h where
  same: "later x h h"
| build: "later x h k \<Longrightarrow> compile x source = Inr c \<Longrightarrow> reconcile_model_history x c (Some k) = Inr l \<Longrightarrow> later x h l"

lemma schema_of_model: "schema_from_value (schema_json v) = Inr (schema_of v) \<Longrightarrow> schema_ok (schema_of v)"
  by (auto simp: schema_from_value_def decode_schema_json bindE_Inr_iff validate_ok_iff)

lemma compiled_schema: "compile x source = Inr c \<Longrightarrow> \<exists>v. c = descriptors v \<and> schema_ok (schema_of v)"
  by (metis compile_Inr core_check_ok schema_of_model validated_parts)

lemma schema_of_names: "schema_ok (schema_of v) \<Longrightarrow> distinct (map vm_name (vd_models v))"
  by (simp add: schema_ok_def schema_of_def model_desc_of_def comp_def)

text \<open>A published contract as a later history keeps it: still there, and readable by the older.\<close>

definition published :: "validated \<Rightarrow> v_model \<Rightarrow> json \<Rightarrow> bool" where
  "published v m h \<longleftrightarrow> (\<exists>w n. kept_at ''models'' h (vm_name m) (vm_version m) = Some (contract_json w n) \<and>
     schema_ok (schema_of w) \<and> n \<in> set (vd_models w) \<and> vm_name n = vm_name m \<and> vm_identity n = vm_identity m \<and>
     reads_as v m w n)"

lemma reads_refl:
  assumes "schema_ok (schema_of v)" and "m \<in> set (vd_models v)"
  shows "reads_as v m v m"
proof -
  from assms have "model_ok (schema_of v) (model_desc_of m)" by (simp add: schema_ok_def schema_of_def)
  then have "distinct (map vf_name (vm_fields m))"
    by (simp add: model_ok_def model_desc_of_def comp_def field_desc_of_def)
  moreover from assms(1) have "distinct (map e_name (vd_enums v))" by (simp add: schema_ok_def schema_of_def)
  then have "distinct (map e_name (used_enums v m))" by (simp add: used_enums_def distinct_map_filter)
  ultimately show ?thesis by (auto simp: reads_as_def find_same_key)
qed

lemma published_first:
  assumes "reconcile_model_history x (descriptors v) previous = Inr h" and "schema_ok (schema_of v)"
    and "m \<in> set (vd_models v)"
  shows "published v m h"
proof -
  from assms(1) obtain entries entries' where
      e: "efold (keep_model x (descriptors v)) (map model_json (vd_models v)) entries = Inr entries'"
    and h: "\<And>n k. kept_at ''models'' h n k = entry_at entries' n k"
    using reconcile_entries by metis
  from keep_models(2) [OF e schema_of_names [OF assms(2)] assms(3)] h assms(2,3) reads_refl [OF assms(2,3)]
  show ?thesis by (auto simp: published_def)
qed

lemma jstrs_inject [simp]: "jstrs a = jstrs b \<longleftrightarrow> a = b"
  by (auto simp: jstrs_def inj_map_eq_map inj_def)

lemma published_next:
  assumes "published v m h" and "reconcile_model_history x (descriptors u) (Some h) = Inr k" and "schema_ok (schema_of u)"
  shows "published v m k"
proof -
  from assms(1) obtain w n where w: "kept_at ''models'' h (vm_name m) (vm_version m) = Some (contract_json w n)"
      "schema_ok (schema_of w)" "n \<in> set (vd_models w)" "vm_name n = vm_name m" "vm_identity n = vm_identity m"
      "reads_as v m w n"
    by (auto simp: published_def)
  from assms(2) obtain entries entries' where
      e: "efold (keep_model x (descriptors u)) (map model_json (vd_models u)) entries = Inr entries'"
    and k: "\<And>n j. kept_at ''models'' k n j = entry_at entries' n j"
    and h: "\<And>n j. kept_at ''models'' h n j = entry_at entries n j"
    by (rule reconcile_entries) blast
  note each = keep_models [OF e schema_of_names [OF assms(3)]]
  from w(1) h have old: "entry_at entries (vm_name m) (vm_version m) = Some (contract_json w n)" by simp
  show ?thesis
  proof (cases "\<exists>p \<in> set (vd_models u). vm_name p = vm_name m \<and> vm_version p = vm_version m")
    case True
    then obtain p where p: "p \<in> set (vd_models u)" "vm_name p = vm_name m" "vm_version p = vm_version m" by blast
    with each(3) [OF p(1)] old have "reads_as w n u p" by (auto intro: model_break_reads)
    with w(6) have "reads_as v m u p" by (rule reads_trans)
    moreover from each(4) [OF p(1), of "vm_version m"] p(2) old w(5) have "vm_identity p = vm_identity m" by simp
    ultimately show ?thesis
      using each(2) [OF p(1), of "vm_version m"] p k assms(3) by (auto simp: published_def)
  next
    case False
    have "entry_at entries' (vm_name m) (vm_version m) = entry_at entries (vm_name m) (vm_version m)"
    proof (cases "vm_name m \<in> vm_name ` set (vd_models u)")
      case True
      then obtain p where p: "p \<in> set (vd_models u)" "vm_name p = vm_name m" by auto
      with False have "vm_version m \<noteq> vm_version p" by auto
      with each(2) [OF p(1), of "vm_version m"] p(2) show ?thesis by simp
    qed (rule each(1))
    with k old w show ?thesis by (auto simp: published_def)
  qed
qed

lemma later_published:
  "later x h k \<Longrightarrow> published v m h \<Longrightarrow> published v m k"
proof (induction rule: later.induct)
  case (build k source c l)
  from compiled_schema [OF build.hyps(2)] obtain u where "c = descriptors u" "schema_ok (schema_of u)" by blast
  with published_next [OF build.IH [OF build.prems], of x u] build.hyps(3) show ?case by blast
qed

section \<open>A state read by an older client\<close>

text \<open>The fields of a state that a model's descriptor names.\<close>

definition restricted :: "model_desc \<Rightarrow> json \<Rightarrow> json" where
  "restricted m w = obj (map (\<lambda>f. (f_name f, index w (f_name f))) (state_fields m))"

lemma find_distinct: "distinct (map k xs) \<Longrightarrow> y \<in> set xs \<Longrightarrow> k y = n \<Longrightarrow> find (\<lambda>z. k z = n) xs = Some y"
  using find_same_key by metis

lemma zip_map_pair: "zip (map f xs) (map g xs) = map (\<lambda>a. (f a, g a)) xs"
  by (induction xs) auto

text \<open>A field both contracts have gives the same values the same normal forms.\<close>

lemma same_values:
  assumes s: "schema_ok (schema_of v)" and m: "m \<in> set (vd_models v)" and w: "schema_ok (schema_of w)"
    and reads: "reads_as v m w n" and f: "f \<in> set (vm_fields m)"
  shows "normalize_value x (contract_schema (contract_desc w n)) (field_desc_of f) a =
    normalize_value x (schema_of v) (field_desc_of f) a"
proof -
  let ?c = "contract_schema (contract_desc w n)"
  from s m have mo: "model_ok (schema_of v) (model_desc_of m)" by (simp add: schema_ok_def schema_of_def)
  have "field_desc_of f \<in> set (m_fields (model_desc_of m))" using f by (simp add: model_desc_of_def)
  with mo have ty: "type_ok (schema_of v) (vf_type f)"
    by (auto simp: model_ok_def field_ok_def field_desc_of_def)
  have "value_n x ?c (vf_type f) a = value_n x (schema_of v) (vf_type f) a"
  proof (cases "vf_type f")
    case (TEnum name)
    from ty TEnum obtain e where e: "e \<in> set (vd_enums v)" "e_name e = name" by (auto simp: schema_of_def)
    with f TEnum have "e \<in> set (used_enums v m)" by (force simp: used_enums_def uses_enum_def)
    with reads e(2) have d: "find (\<lambda>d. e_name d = name) (used_enums w n) = Some e" by (auto simp: reads_as_def)
    from w have dw: "distinct (map e_name (used_enums w n))"
      by (simp add: schema_ok_def schema_of_def used_enums_def distinct_map_filter)
    have "en = e" if "en \<in> set (used_enums w n)" "e_name en = name" for en
      using find_distinct [OF dw that] d by simp
    moreover have "e \<in> set (used_enums w n)" using d by (auto dest: find_Some_in)
    ultimately have "(\<exists>en \<in> set (used_enums w n). e_name en = name \<and> t \<in> set (e_values en)) \<longleftrightarrow> t \<in> set (e_values e)" for t
      using e(2) by blast
    moreover from s have dv: "distinct (map e_name (vd_enums v))" by (simp add: schema_ok_def schema_of_def)
    have "en = e" if "en \<in> set (vd_enums v)" "e_name en = name" for en
      using find_distinct [OF dv that] find_distinct [OF dv e] by simp
    with e have "(\<exists>en \<in> set (vd_enums v). e_name en = name \<and> t \<in> set (e_values en)) \<longleftrightarrow> t \<in> set (e_values e)" for t
      by blast
    ultimately show ?thesis
      by (simp add: TEnum value_n_enum contract_schema_def contract_desc_def schema_of_def del: value_n.simps)
  next
    case (TList ty')
    with ty show ?thesis by (cases ty') (auto cong: emap_cong)
  qed simp
  then show ?thesis by (simp add: normalize_value_def field_desc_of_def)
qed

lemma older_client_reads:
  assumes x: "ext_ok x" and s: "schema_ok (schema_of v)" and m: "m \<in> set (vd_models v)"
    and w: "schema_ok (schema_of w)" and n: "n \<in> set (vd_models w)" "vm_name n = vm_name m" "vm_identity n = vm_identity m"
    and reads: "reads_as v m w n"
    and state: "normalize_state x (contract_schema (contract_desc w n)) (vm_name m) row = Inr state"
    and times: "storable_record (contract_schema (contract_desc w n)) (vm_name m) state"
  shows "validate_state x (schema_of v) (vm_name m) state = Inr (restricted (model_desc_of m) state)"
proof -
  let ?c = "contract_schema (contract_desc w n)"
  from w n(1) have wo: "model_ok (schema_of w) (model_desc_of n)" by (simp add: schema_ok_def schema_of_def)
  obtain cn where cn: "model_of ?c (vm_name m) = Inr cn" and fs: "m_fields cn = map field_desc_of (vm_fields n)"
    and idn: "m_identity cn = vm_identity m"
    by (simp add: model_of_def contract_schema_def contract_desc_def n ok_or_def)
  from state obtain input ws where ws: "emap (state_value x ?c input) (state_fields cn) = Inr ws"
    and st: "state = JObj (bt_of (zip (map f_name (state_fields cn)) ws))"
    unfolding normalize_state_def by (rule state_of_Inr) (use cn in auto)
  let ?r = "bt_of (zip (map f_name (state_fields cn)) ws)"
  have len: "length ws = length (state_fields cn)" using ws by (rule emap_Inr_length)
  have dn: "distinct (map f_name (m_fields cn))" using wo fs by (simp add: model_ok_def model_desc_of_def)
  then have ds: "distinct (map f_name (state_fields cn))" by (simp add: state_fields_def distinct_map_filter)
  let ?m = "model_desc_of m"
  from s have "distinct (map m_name (s_models (schema_of v)))" by (simp add: schema_ok_def)
  then have mv: "model_of (schema_of v) (vm_name m) = Inr ?m"
    using find_distinct [of m_name "s_models (schema_of v)" ?m "vm_name m"] m
    by (simp add: model_of_def schema_of_def model_desc_of_def ok_or_def)
  have keys: "set (bt_keys ?r) = f_name ` set (state_fields cn)"
    using len by (metis bt_keys_def keys_bt_of length_map map_fst_zip set_map)
  have each: "state_value x (schema_of v) ?r g = Inr (index state (f_name g))" if g: "g \<in> set (state_fields ?m)" for g
  proof -
    from g obtain f where f: "f \<in> set (vm_fields m)" "g = field_desc_of f" "vf_name f \<notin> set (vm_identity m)"
      by (auto simp: state_fields_def model_desc_of_def field_desc_of_def)
    from reads f(1) have "f \<in> set (vm_fields n)" by (auto simp: reads_as_def dest: find_Some_in)
    with f fs idn have gs: "g \<in> set (state_fields cn)" by (auto simp: state_fields_def field_desc_of_def)
    then obtain i where i: "i < length (state_fields cn)" "state_fields cn ! i = g" by (metis in_set_conv_nth)
    have l: "map_of ?r (f_name g) = Some (ws ! i)"
      using map_of_bt_of_zip [of "map f_name (state_fields cn)" ws i] ds len i by simp
    from emap_nth [OF ws i(1)] i(2) obtain a where a: "normalize_value x ?c g a = Inr (ws ! i)"
      by (auto simp: state_value_def res_elims)
    have fo: "field_of cn (f_name g) = Some g"
      using gs find_distinct [OF dn] by (auto simp: field_of_def state_fields_def)
    have "storable_fields cn ?r" using times st cn by (simp add: storable_record_def)
    then have "storable (f_type g) (ws ! i)" using l fo by (rule storable_fieldsD)
    from normalize_value_idem [OF x a this] have "normalize_value x (schema_of v) g (ws ! i) = Inr (ws ! i)"
      using same_values [OF s m w reads f(1)] f(2) by simp
    with l st show ?thesis by (simp add: state_value_def index_def)
  qed
  have "emap (state_value x (schema_of v) ?r) (state_fields ?m) = Inr (map (\<lambda>g. index state (f_name g)) (state_fields ?m))"
    using each by (intro emap_all_ok) auto
  moreover have "\<not> (\<exists>k \<in> set (bt_keys ?r). k \<in> set (m_identity ?m))"
    unfolding keys using idn by (auto simp: state_fields_def model_desc_of_def)
  ultimately show ?thesis
    using mv by (simp add: validate_state_def state_of_def state_loop restricted_def obj_def zip_map_pair st)
qed

text \<open>
  C31: a published read contract stays readable. Take a model of a source that compiles, and the
  history its build writes. Whatever builds follow, the history still keeps that version of the
  model under the same identity; and each state the server normalises under the contract it keeps
  there, and that holds no dateTime whose UTC year leaves 0000 to 9999 (which normalisation does
  not take again), is one that the client of the first build accepts, reading its own fields of
  it. This is the promise behind serving an old client from a newer schema.
\<close>

theorem published_contract_stays_readable:
  assumes "ext_ok x" and "compile x source = Inr c" and "schema_from_value (index c ''schema'') = Inr s"
    and "model_of s name = Inr m" and "reconcile_model_history x c previous = Inr h" and "later x h k"
  shows "\<exists>snapshot ct. kept_at ''models'' k name (m_version m) = Some snapshot \<and>
    decode_contract snapshot = Inr ct \<and> ct_identity ct = m_identity m \<and>
    (\<forall>row state. normalize_state x (contract_schema ct) name row = Inr state \<longrightarrow>
       storable_record (contract_schema ct) name state \<longrightarrow>
       validate_state x s name state = Inr (restricted m state))"
proof -
  from compiled_schema [OF assms(2)] obtain v where c: "c = descriptors v" and v: "schema_ok (schema_of v)" by blast
  with assms(3) have s: "s = schema_of v"
    by (auto simp: schema_from_value_def decode_schema_json bindE_Inr_iff)
  from model_of_in [OF assms(4)] s obtain p where p: "p \<in> set (vd_models v)" "m = model_desc_of p" "vm_name p = name"
    by (auto simp: schema_of_def model_desc_of_def)
  have "published v p k"
    by (rule later_published [OF assms(6)]) (use published_first [OF _ v p(1)] assms(5) c in blast)
  then obtain w n where w: "kept_at ''models'' k (vm_name p) (vm_version p) = Some (contract_json w n)"
      "schema_ok (schema_of w)" "n \<in> set (vd_models w)" "vm_name n = vm_name p" "vm_identity n = vm_identity p"
      "reads_as v p w n"
    by (auto simp: published_def)
  have mv: "m_version m = vm_version p" "m_identity m = vm_identity p" using p(2) by (simp_all add: model_desc_of_def)
  show ?thesis
  proof (intro exI conjI)
    show "kept_at ''models'' k name (m_version m) = Some (contract_json w n)" using w(1) p(3) mv by simp
    show "decode_contract (contract_json w n) = Inr (contract_desc w n)" by (rule decode_contract_json)
    show "ct_identity (contract_desc w n) = m_identity m" using w(5) mv by (simp add: contract_desc_def)
    show "\<forall>row state. normalize_state x (contract_schema (contract_desc w n)) name row = Inr state \<longrightarrow>
       storable_record (contract_schema (contract_desc w n)) name state \<longrightarrow>
       validate_state x s name state = Inr (restricted m state)"
      using older_client_reads [OF assms(1) v p(1) w(2-6)] s p(2,3) by blast
  qed
qed

end
