(* ===== verification/Snapshots.thy ===== *)
theory Snapshots
  imports Contracts
begin

text \<open>
  A mutation's input as the history keeps it (\<open>capture\<close>), and as the server reads it back.
\<close>

section \<open>The captured input\<close>

definition slots_on :: "v_mutation \<Rightarrow> v_model \<Rightarrow> v_slot list" where
  "slots_on mu m = filter (\<lambda>s. vs_model s = vm_name m) (vt_slots mu)"

definition slot_allows :: "v_slot \<Rightarrow> string \<Rightarrow> bool" where
  "slot_allows s f \<longleftrightarrow> vs_operation s = SlotCreate \<or>
     (vs_operation s = SlotUpdate \<and> (case vs_patch s of None \<Rightarrow> True | Some fs \<Rightarrow> f \<in> set fs))"

definition input_fields :: "v_mutation \<Rightarrow> v_model \<Rightarrow> v_field list" where
  "input_fields mu m = filter (\<lambda>f. vf_name f \<in> set (vm_identity m) \<or>
     (\<exists>s \<in> set (slots_on mu m). slot_allows s (vf_name f))) (vm_fields m)"

definition input_models :: "v_model list \<Rightarrow> v_mutation \<Rightarrow> v_model list" where
  "input_models ms mu = filter (\<lambda>m. slots_on mu m \<noteq> []) ms"

definition input_enum :: "v_model list \<Rightarrow> v_mutation \<Rightarrow> string \<Rightarrow> bool" where
  "input_enum ms mu n \<longleftrightarrow> (\<exists>m \<in> set (input_models ms mu). \<exists>f \<in> set (input_fields mu m). vf_type f = TEnum n)"

definition input_enums :: "validated \<Rightarrow> v_mutation \<Rightarrow> enum_desc list" where
  "input_enums v mu = filter (\<lambda>e. input_enum (vd_models v) mu (e_name e)) (vd_enums v)"

definition input_model_json :: "v_mutation \<Rightarrow> v_model \<Rightarrow> json" where
  "input_model_json mu m = obj [(''name'', JStr (vm_name m)), (''identity'', jstrs (vm_identity m)),
     (''fields'', JArr (map field_json (input_fields mu m)))]"

definition known_entry :: "v_model \<Rightarrow> string \<times> json" where
  "known_entry m = (vm_name m, jstrs (map vf_name (vm_fields m)))"

definition snapshot_requirements :: "validated \<Rightarrow> v_mutation \<Rightarrow> json list" where
  "snapshot_requirements v mu =
     filter (requires_field (map (input_model_json mu) (input_models (vd_models v) mu)))
       (map requirement_json (vd_requirements v))"

definition snapshot_json :: "validated \<Rightarrow> v_mutation \<Rightarrow> json" where
  "snapshot_json v mu = obj [(''name'', JStr (vt_name mu)), (''version'', jnat (vt_version mu)),
     (''slots'', JArr (map slot_json (vt_slots mu))),
     (''input'', obj [(''models'', JArr (map (input_model_json mu) (input_models (vd_models v) mu))),
        (''enums'', JArr (map enum_json (input_enums v mu)))]),
     (''knownFields'', obj (map known_entry (input_models (vd_models v) mu))),
     (''requirements'', JArr (snapshot_requirements v mu)),
     (''prerequisites'', JArr (filter (\<lambda>p. \<exists>r \<in> set (snapshot_requirements v mu). index r ''name'' = index p ''name'')
        (map prerequisite_json (vd_prerequisites v)))),
     (''sequence'', index (v_mutation_json mu) ''sequence'')]"

lemma set_key_obj: "set_key (obj kvs) k w = obj (kvs @ [(k, w)])"
  by (simp add: obj_def bt_of_def)

lemma slot_json_obj: "slot_json s = obj ([(''name'', JStr (vs_name s)), (''model'', JStr (vs_model s)),
     (''operation'', JStr (operation_text (vs_operation s))),
     (''cardinality'', JStr (cardinality_text (vs_cardinality s)))] @
     (case vs_patch s of None \<Rightarrow> [] | Some fs \<Rightarrow> [(''allowedPatchFields'', jstrs fs)]) @
     (if vs_bindings s = [] then [] else [(''bindings'', JArr (map binding_json (vs_bindings s)))]))"
  by (simp add: slot_json_def Let_def set_key_obj split: option.splits)

lemma slot_json_index:
  "index (slot_json s) ''name'' = JStr (vs_name s)"
  "index (slot_json s) ''model'' = JStr (vs_model s)"
  "index (slot_json s) ''operation'' = JStr (operation_text (vs_operation s))"
  "index (slot_json s) ''allowedPatchFields'' = (case vs_patch s of None \<Rightarrow> JNull | Some fs \<Rightarrow> jstrs fs)"
  by (simp_all add: slot_json_obj index_obj split: option.splits)

lemma operation_text_simps [simp]:
  "operation_text o' = ''create'' \<longleftrightarrow> o' = SlotCreate"
  "operation_text o' = ''update'' \<longleftrightarrow> o' = SlotUpdate"
  by (cases o'; simp)+

lemma allows_field_slot: "allows_field (map slot_json ss) (field_json f) \<longleftrightarrow> (\<exists>s \<in> set ss. slot_allows s (vf_name f))"
  by (auto simp: allows_field_def slot_json_index field_json_index slot_allows_def jstrs_def split: option.splits)

lemma field_enums:
  "\<exists>es. efold field_enum (map field_json fs) names = Inr es \<and>
    set es = set names \<union> {n. \<exists>f \<in> set fs. vf_type f = TEnum n}"
proof (induction fs arbitrary: names)
  case (Cons f fs)
  show ?case
  proof (cases "\<exists>n. vf_type f = TEnum n")
    case True
    then obtain n where n: "vf_type f = TEnum n" ..
    have "field_enum (field_json f) names = Inr (bs_ins n names)"
      by (simp add: field_enum_def field_json_index n index_obj unwrap_def)
    moreover obtain es where "efold field_enum (map field_json fs) (bs_ins n names) = Inr es"
      "set es = set (bs_ins n names) \<union> {n. \<exists>f \<in> set fs. vf_type f = TEnum n}"
      using Cons.IH by blast
    ultimately show ?thesis using n by auto
  next
    case False
    then have "field_enum (field_json f) names = Inr names"
      by (simp add: field_enum_def field_json_index type_kind)
    with Cons.IH [of names] False show ?thesis by auto
  qed
qed simp

lemma list_at_identity [simp]: "items_at (model_json m) ''identity'' = Inr (map JStr (vm_identity m))"
  by (simp add: model_json_def items_at_obj jstrs_def)

lemma capture_model_used:
  assumes "slots_on mu m \<noteq> []"
  shows "\<exists>es. capture_used (map slot_json (vt_slots mu)) (model_json m) (models, enums, known) =
      Inr (models @ [input_model_json mu m], es, bt_ins (fst (known_entry m)) (snd (known_entry m)) known) \<and>
    set es = set enums \<union> {n. \<exists>f \<in> set (input_fields mu m). vf_type f = TEnum n}"
proof -
  let ?used = "filter (\<lambda>s. index s ''model'' = index (model_json m) ''name'') (map slot_json (vt_slots mu))"
  have used: "?used = map slot_json (slots_on mu m)"
    unfolding slots_on_def by (rule filter_map_same) (simp add: slot_json_index)
  have selected: "filter (\<lambda>f. index f ''name'' \<in> set (map JStr (vm_identity m)) \<or> allows_field (map slot_json (slots_on mu m)) f)
      (map field_json (vm_fields m)) = map field_json (input_fields mu m)"
    unfolding input_fields_def by (rule filter_map_same) (auto simp: field_json_index allows_field_slot)
  obtain es where es: "efold field_enum (map field_json (input_fields mu m)) enums = Inr es"
      "set es = set enums \<union> {n. \<exists>f \<in> set (input_fields mu m). vf_type f = TEnum n}"
    using field_enums by blast
  with assms selected show ?thesis
    unfolding capture_used_def prod.case used Let_def
    by (simp add: unwrap_def input_model_json_def jstrs_def known_entry_def field_json_index comp_def)
qed

lemma capture_models:
  "\<exists>es. efold (capture_used (map slot_json (vt_slots mu))) (map model_json ms) (models, enums, known) =
      Inr (models @ map (input_model_json mu) (input_models ms mu), es,
        fold (\<lambda>(k, w). bt_ins k w) (map known_entry (input_models ms mu)) known) \<and>
    set es = set enums \<union> {n. input_enum ms mu n}"
proof (induction ms arbitrary: models enums known)
  case Nil
  show ?case by (simp add: input_models_def input_enum_def)
next
  case (Cons m ms)
  show ?case
  proof (cases "slots_on mu m = []")
    case True
    have "filter (\<lambda>s. index s ''model'' = index (model_json m) ''name'') (map slot_json (vt_slots mu)) = map slot_json (slots_on mu m)"
      unfolding slots_on_def by (rule filter_map_same) (simp add: slot_json_index)
    with True have "capture_used (map slot_json (vt_slots mu)) (model_json m) (models, enums, known) = Inr (models, enums, known)"
      by (simp add: capture_used_def)
    with True Cons.IH [of models enums known] show ?thesis
      by (simp add: input_models_def input_enum_def)
  next
    case False
    obtain es where es: "capture_used (map slot_json (vt_slots mu)) (model_json m) (models, enums, known) =
        Inr (models @ [input_model_json mu m], es, bt_ins (fst (known_entry m)) (snd (known_entry m)) known)"
      "set es = set enums \<union> {n. \<exists>f \<in> set (input_fields mu m). vf_type f = TEnum n}"
      using capture_model_used [OF False] by blast
    obtain es' where es': "efold (capture_used (map slot_json (vt_slots mu))) (map model_json ms)
        (models @ [input_model_json mu m], es, bt_ins (fst (known_entry m)) (snd (known_entry m)) known) =
      Inr ((models @ [input_model_json mu m]) @ map (input_model_json mu) (input_models ms mu), es',
        fold (\<lambda>(k, w). bt_ins k w) (map known_entry (input_models ms mu))
          (bt_ins (fst (known_entry m)) (snd (known_entry m)) known))"
      "set es' = set es \<union> {n. input_enum ms mu n}"
      using Cons.IH by blast
    have "input_models (m # ms) mu = m # input_models ms mu" using False by (simp add: input_models_def)
    moreover have "input_enum (m # ms) mu n \<longleftrightarrow> (\<exists>f \<in> set (input_fields mu m). vf_type f = TEnum n) \<or> input_enum ms mu n" for n
      using False by (auto simp: input_enum_def input_models_def)
    ultimately show ?thesis using es es' by (auto simp: split_def)
  qed
qed

lemma named_enums_json:
  assumes "\<And>e. e_name e \<in> set names \<longleftrightarrow> P e"
  shows "named_enums (map enum_json es) names = Inr (map enum_json (filter P es))"
proof -
  have "emap (\<lambda>e. bindE (unwrap (as_str (index e ''name''))) (\<lambda>n. Inr (e, n))) (map enum_json es) =
      Inr (map (\<lambda>e. (enum_json e, e_name e)) es)"
    by (induction es) (auto simp: enum_json_index unwrap_def)
  moreover have "map fst (filter (\<lambda>p. snd p \<in> set names) (map (\<lambda>e. (enum_json e, e_name e)) es)) = map enum_json (filter P es)"
    by (induction es) (auto simp: assms)
  ultimately show ?thesis by (simp add: named_enums_def)
qed

lemma mutation_json_parts [simp]:
  "items_at (v_mutation_json mu) ''slots'' = Inr (map slot_json (vt_slots mu))"
  "index (v_mutation_json mu) ''name'' = JStr (vt_name mu)"
  "index (v_mutation_json mu) ''version'' = jnat (vt_version mu)"
  by (simp_all add: v_mutation_json_def items_at_obj index_obj)

lemma descriptors_parts [simp]:
  "items_or_none (index (descriptors v) ''requirements'') = map requirement_json (vd_requirements v)"
  "items_or_none (index (descriptors v) ''prerequisites'') = map prerequisite_json (vd_prerequisites v)"
  "items_at (descriptors v) ''mutations'' = Inr (map v_mutation_json (vd_mutations v))"
  by (simp_all add: descriptors_def items_or_none_def index_obj items_at_obj)

lemma capture_descriptors: "capture (descriptors v) (v_mutation_json mu) = Inr (snapshot_json v mu)"
proof -
  obtain es where es: "efold (capture_used (map slot_json (vt_slots mu))) (map model_json (vd_models v)) ([], [], []) =
      Inr (map (input_model_json mu) (input_models (vd_models v) mu), es, bt_of (map known_entry (input_models (vd_models v) mu)))"
      "set es = {n. input_enum (vd_models v) mu n}"
    using capture_models [of mu "vd_models v" "[]" "[]" "[]"] by (auto simp: bt_of_def)
  from es(2) have "named_enums (map enum_json (vd_enums v)) es = Inr (map enum_json (input_enums v mu))"
    unfolding input_enums_def by (intro named_enums_json) auto
  with es(1) show ?thesis
    by (simp add: capture_def snapshot_json_def snapshot_requirements_def Let_def obj_def [of "map known_entry _"])
qed

section \<open>What the server reads\<close>

definition binding_desc_of :: "v_binding \<Rightarrow> binding" where
  "binding_desc_of b = \<lparr>bd_fields = vb_fields b, bd_slot = vb_slot b\<rparr>"

definition slot_desc_of :: "v_slot \<Rightarrow> slot" where
  "slot_desc_of s = \<lparr>sl_name = vs_name s, sl_model = vs_model s, sl_operation = operation_text (vs_operation s),
     sl_cardinality = cardinality_text (vs_cardinality s),
     sl_patch = (case vs_patch s of None \<Rightarrow> [] | Some fs \<Rightarrow> fs),
     sl_bindings = map binding_desc_of (vs_bindings s)\<rparr>"

definition input_model_desc :: "v_mutation \<Rightarrow> v_model \<Rightarrow> model_desc" where
  "input_model_desc mu m = \<lparr>m_name = vm_name m, m_version = 1, m_identity = vm_identity m,
     m_fields = map field_desc_of (input_fields mu m), m_relations = [], m_unique = []\<rparr>"

definition input_schema_desc :: "validated \<Rightarrow> v_mutation \<Rightarrow> schema" where
  "input_schema_desc v mu = \<lparr>s_enums = input_enums v mu,
     s_models = map (input_model_desc mu) (input_models (vd_models v) mu),
     s_requirements = [], s_prerequisites = [], s_policies = []\<rparr>"

definition mutation_desc_of :: "validated \<Rightarrow> v_mutation \<Rightarrow> server_mutation" where
  "mutation_desc_of v mu = \<lparr>sm_name = vt_name mu, sm_version = vt_version mu,
     sm_slots = map slot_desc_of (vt_slots mu), sm_input = Some (input_schema_desc v mu),
     sm_known = bt_of (map (\<lambda>m. (vm_name m, map vf_name (vm_fields m))) (input_models (vd_models v) mu))\<rparr>"

lemma decode_binding_json: "decode_binding (binding_json b) = Inr (binding_desc_of b)"
  by (simp add: decode_binding_def binding_json_def binding_desc_of_def decoding)

lemma decode_slot_json: "decode_slot_desc (slot_json s) = Inr (slot_desc_of s)"
  by (cases "vs_patch s"; cases "vs_bindings s = []")
    (simp_all add: decode_slot_desc_def slot_json_obj slot_desc_of_def decoding decode_list_map
      decode_binding_json decode_strings del: map_is_Nil_conv)

lemma decode_input_model: "decode_model (input_model_json mu m) = Inr (input_model_desc mu m)"
  by (simp add: decode_model_def input_model_json_def input_model_desc_def decoding decode_list_map)

lemma decode_input_schema:
  "decode_schema (obj [(''models'', JArr (map (input_model_json mu) (input_models (vd_models v) mu))),
      (''enums'', JArr (map enum_json (input_enums v mu)))]) = Inr (input_schema_desc v mu)"
  by (simp add: decode_schema_def input_schema_desc_def decoding decode_list_map decode_input_model
      decode_list_map [of _ _ _ id, simplified])

lemma emap_known: "emap (\<lambda>(k, w). map_sum id (Pair k) (decode_list decode_string w)) (map (\<lambda>(k, s). (k, jstrs s)) ps) = Inr ps"
  by (induction ps) auto

lemma decode_known_obj: "decode_known (obj (map (\<lambda>(k, s). (k, jstrs s)) ps)) = Inr (bt_of ps)"
  by (simp add: decode_known_def obj_def bt_of_map emap_known bt_of_sorted)

lemma obj_not_null [simp]: "\<not> is_null (obj kvs)"
  by (simp add: is_null_def obj_def)

lemma decode_snapshot: "decode_server_mutation (snapshot_json v mu) = Inr (mutation_desc_of v mu)"
proof -
  have known: "map known_entry ms = map (\<lambda>(k, s). (k, jstrs s)) (map (\<lambda>m. (vm_name m, map vf_name (vm_fields m))) ms)" for ms
    by (simp add: known_entry_def)
  show ?thesis
    unfolding snapshot_json_def known
    by (simp add: decode_server_mutation_def mutation_desc_of_def decoding decode_list_map decode_slot_json
        decode_input_schema decode_known_obj del: map_map)
qed

end
