(* ===== verification/Starting.thy ===== *)
theory Starting
  imports Snapshots
begin

text \<open>
  The server starts on what the compiler builds: the captured inputs of every mutation are
  mutations \<open>Config::decode\<close> accepts, build after build.
\<close>

section \<open>A validated mutation\<close>

definition slot_from :: "v_model list \<Rightarrow> mutation_decl \<Rightarrow> v_slot \<Rightarrow> slot_decl \<Rightarrow> bool" where
  "slot_from ms decl s ds \<longleftrightarrow> vs_name s = od_name ds \<and> vs_model s = od_model ds \<and>
     vs_operation s = operation_of (od_operation ds) \<and> vs_cardinality s = cardinality_of (od_cardinality ds) \<and>
     (vs_patch s \<noteq> None \<longrightarrow> vs_operation s = SlotUpdate) \<and>
     (\<exists>kvs. as_object (od_bindings ds) = Some kvs \<and> emap (bind_slot ms decl ds) kvs = Inr (vs_bindings s))"

definition mutation_from :: "v_model list \<Rightarrow> v_mutation \<Rightarrow> mutation_decl \<Rightarrow> bool" where
  "mutation_from ms mu decl \<longleftrightarrow> vt_name mu = td_name decl \<and> vt_version mu = td_version decl \<and>
     list_all2 (slot_from ms decl) (vt_slots mu) (td_slots decl)"

lemma slot_of_from:
  assumes "slot_made ds" and "slot_of ms decl ds = Inr s"
  shows "slot_from ms decl s ds"
  using assms by (auto simp: slot_of_def bindE_Inr_iff slot_from_def slot_made_def operation_of_def)

lemma mutation_of_from:
  assumes "mutation_made decl" and "mutation_of ms decl = Inr mu"
  shows "mutation_from ms mu decl"
proof -
  from assms(2) obtain ss where ss: "emap (slot_of ms decl) (td_slots decl) = Inr ss"
    and mu: "mu = \<lparr>vt_name = td_name decl, vt_version = td_version decl, vt_slots = ss, vt_sequence = None\<rparr>"
    by (auto simp: mutation_of_def bindE_Inr_iff)
  from ss assms(1) have "list_all2 (slot_from ms decl) ss (td_slots decl)"
    by (auto simp: emap_Inr_iff list_all2_conv_all_nth mutation_made_def list_all_length intro: slot_of_from)
  with mu show ?thesis by (simp add: mutation_from_def)
qed

lemma default_slot_from:
  assumes "slot_from ms decl s ds" and "default_slot ms (s, ds) = Inr s'"
  shows "slot_from ms decl s' ds"
  using assms by (auto simp: default_slot_def slot_from_def bindE_Inr_iff split: if_splits)

lemma zip_from:
  assumes "emap g (zip as ds) = Inr bs" and "list_all2 P as ds"
    and "\<And>a d b. P a d \<Longrightarrow> g (a, d) = Inr b \<Longrightarrow> Q b d"
  shows "list_all2 Q bs ds"
  using assms unfolding emap_Inr_iff list_all2_conv_all_nth by simp (metis)

lemma default_patches_from:
  assumes "mutation_from ms mu decl" and "default_patches ms (mu, decl) = Inr mu'"
  shows "mutation_from ms mu' decl"
proof -
  from assms(2) obtain ss where ss: "emap (default_slot ms) (zip (vt_slots mu) (td_slots decl)) = Inr ss"
    and mu: "mu' = mu\<lparr>vt_slots := ss\<rparr>"
    by (auto simp: default_patches_def bindE_Inr_iff)
  from assms(1) have l: "list_all2 (slot_from ms decl) (vt_slots mu) (td_slots decl)" by (simp add: mutation_from_def)
  from zip_from [OF ss l, of "slot_from ms decl"] have "list_all2 (slot_from ms decl) ss (td_slots decl)"
    by (blast intro: default_slot_from)
  with mu assms(1) show ?thesis by (simp add: mutation_from_def)
qed

lemma with_sequences_from:
  assumes "with_sequences d ms all = Inr fin" and "list_all2 (mutation_from ns) all (dc_mutations d)"
  shows "list_all2 (mutation_from ns) fin (dc_mutations d)"
proof -
  from assms(1) obtain qs where qs: "emap (sequence_of ms all) (zip all (dc_mutations d)) = Inr qs"
    and fin: "fin = map (\<lambda>(m, q). m\<lparr>vt_sequence := q\<rparr>) (zip all qs)"
    by (auto simp: with_sequences_def bindE_Inr_iff)
  from emap_Inr_length [OF qs] list_all2_lengthD [OF assms(2)] have "length qs = length all" by simp
  with assms(2) show ?thesis by (simp add: fin list_all2_conv_all_nth mutation_from_def)
qed

lemma validated_from:
  assumes "validate_decls d = Inr v" and "made d"
  shows "list_all2 (mutation_from (vd_models v)) (vd_mutations v) (dc_mutations d)"
proof -
  from assms(1) obtain all where all: "validated_mutations d (vd_models v) = Inr all"
    and seq: "with_sequences d (vd_models v) all = Inr (vd_mutations v)"
    by (rule validated_parts)
  from all obtain first where f: "emap (mutation_of (vd_models v)) (dc_mutations d) = Inr first"
    and a: "emap (default_patches (vd_models v)) (zip first (dc_mutations d)) = Inr all"
    by (auto simp: validated_mutations_def bindE_Inr_iff)
  from f assms(2) have "list_all2 (mutation_from (vd_models v)) first (dc_mutations d)"
    unfolding emap_Inr_iff list_all2_conv_all_nth made_def list_all_length by (auto intro: mutation_of_from)
  from zip_from [OF a this, of "mutation_from (vd_models v)"]
  have "list_all2 (mutation_from (vd_models v)) all (dc_mutations d)" by (blast intro: default_patches_from)
  with seq show ?thesis by (rule with_sequences_from)
qed

text \<open>What the last checks establish of a mutation.\<close>

definition patch_checked :: "v_model \<Rightarrow> string list \<Rightarrow> bool" where
  "patch_checked m fs \<longleftrightarrow> distinct fs \<and> (\<forall>f \<in> set fs. f \<notin> set (vm_identity m) \<and> f \<in> vf_name ` set (vm_fields m))"

definition slot_checked :: "v_model list \<Rightarrow> v_slot \<Rightarrow> bool" where
  "slot_checked ms s \<longleftrightarrow> (\<exists>m. v_model_of ms (vs_model s) = Some m \<and>
     (\<forall>fs. vs_patch s = Some fs \<longrightarrow> patch_checked m fs))"

lemma check_slot_decl_iff:
  "check_slot_decl ms (s, ds) seen = Inr seen' \<longleftrightarrow>
    slot_checked ms s \<and> vs_name s \<notin> set seen \<and> seen' = bs_ins (vs_name s) seen"
proof -
  have "(\<exists>b. efold (check_patch m p) fs [] = Inr b) \<longleftrightarrow> patch_checked m fs" for m p fs
    using efold_bs_ins_ok [of fs "check_patch m p" "\<lambda>f. f \<notin> set (vm_identity m) \<and> f \<in> vf_name ` set (vm_fields m)" "\<lambda>f. f" "[]"]
    by (auto simp: check_patch_def bindE_Inr_iff patch_checked_def)
  then show ?thesis
    by (auto simp: check_slot_decl_def bindE_Inr_iff slot_checked_def split: option.splits)
qed

lemma checked_slots:
  assumes "efold (check_slot_decl ms) (zip ss ds) seen = Inr seen'" and "length ss = length ds"
  shows "(\<forall>s \<in> set ss. slot_checked ms s) \<and> distinct (map vs_name ss)"
proof -
  have iff: "check_slot_decl ms sd a = Inr b \<longleftrightarrow>
      slot_checked ms (fst sd) \<and> vs_name (fst sd) \<notin> set a \<and> b = bs_ins (vs_name (fst sd)) a" for sd a b
    by (cases sd) (simp add: check_slot_decl_iff)
  have "(\<forall>sd \<in> set (zip ss ds). slot_checked ms (fst sd)) \<and> distinct (map (\<lambda>sd. vs_name (fst sd)) (zip ss ds))"
    using efold_bs_ins [of "zip ss ds" "check_slot_decl ms" "\<lambda>sd. slot_checked ms (fst sd)" "\<lambda>sd. vs_name (fst sd)", OF iff]
      assms(1) by blast
  moreover have "map (\<lambda>sd. vs_name (fst sd)) (zip ss ds) = map vs_name ss"
  proof -
    have "map (\<lambda>sd. vs_name (fst sd)) (zip ss ds) = map vs_name (map fst (zip ss ds))" by simp
    with assms(2) show ?thesis by (simp only: map_fst_zip)
  qed
  moreover have "fst ` set (zip ss ds) = set ss" using assms(2) by (metis map_fst_zip set_map)
  ultimately show ?thesis by (metis (no_types, lifting) imageE)
qed

lemma checked_mutation:
  assumes "validate_decls d = Inr v" and "made d" and "mu \<in> set (vd_mutations v)"
  obtains decl where "decl \<in> set (dc_mutations d)" and "mutation_from (vd_models v) mu decl"
    and "vt_slots mu \<noteq> []" and "\<forall>s \<in> set (vt_slots mu). slot_checked (vd_models v) s"
    and "distinct (map vs_name (vt_slots mu))"
proof -
  note from' = validated_from [OF assms(1,2)]
  from assms(3) from' obtain decl where z: "(mu, decl) \<in> set (zip (vd_mutations v) (dc_mutations d))"
    by (metis in_set_impl_in_set_zip1 list_all2_lengthD)
  with from' have m: "mutation_from (vd_models v) mu decl" "decl \<in> set (dc_mutations d)"
    by (auto simp: list_all2_iff dest: set_zip_rightD)
  from assms(1) have "is_ok (efold (check_mutation_decl (vd_models v)) (zip (vd_mutations v) (dc_mutations d)) [])"
    by (rule validated_parts)
  then obtain acc where "efold (check_mutation_decl (vd_models v)) (zip (vd_mutations v) (dc_mutations d)) [] = Inr acc"
    by (auto simp: is_ok_iff)
  from efold_each [OF this z] obtain a b where "check_mutation_decl (vd_models v) (mu, decl) a = Inr b" by blast
  then obtain seen where "vt_slots mu \<noteq> []" and seen: "efold (check_slot_decl (vd_models v)) (zip (vt_slots mu) (td_slots decl)) [] = Inr seen"
    by (auto simp: check_mutation_decl_def bindE_Inr_iff)
  with checked_slots [OF seen] m show thesis
    using that by (auto simp: mutation_from_def list_all2_lengthD)
qed

end
