(* ===== verification/Inputs.thy ===== *)
theory Inputs
  imports Starting
begin

text \<open>
  The input a mutation's snapshot carries is a schema of its own, over which its slots and
  bindings are what the server checks them to be.
\<close>

section \<open>The input schema\<close>

lemma find_filter_same: "(\<And>y. y \<in> set xs \<Longrightarrow> P y \<Longrightarrow> Q y) \<Longrightarrow> find P (filter Q xs) = find P xs"
  by (induction xs) auto

lemma find_map: "find P (map g xs) = map_option g (find (\<lambda>a. P (g a)) xs)"
  by (induction xs) auto

lemma v_model_of_desc:
  "v_model_of (vd_models v) n = Some m \<Longrightarrow> model_of (schema_of v) n = Inr (model_desc_of m)"
  by (simp add: v_model_of_def model_of_def schema_of_def find_map model_desc_of_def ok_or_def)

lemma v_model_of_in: "v_model_of ms n = Some m \<Longrightarrow> m \<in> set ms \<and> vm_name m = n"
  by (auto simp: v_model_of_def dest: find_Some_in)

lemma input_model_of:
  assumes "v_model_of (vd_models v) n = Some m" and "slots_on mu m \<noteq> []"
  shows "model_of (input_schema_desc v mu) n = Inr (input_model_desc mu m)"
proof -
  have "slots_on mu p \<noteq> []" if "vm_name p = n" for p
    using that assms v_model_of_in [OF assms(1)] by (simp add: slots_on_def)
  then have "find (\<lambda>p. vm_name p = n) (input_models (vd_models v) mu) = find (\<lambda>p. vm_name p = n) (vd_models v)"
    unfolding input_models_def by (intro find_filter_same) auto
  with assms(1) show ?thesis
    by (simp add: model_of_def input_schema_desc_def find_map input_model_desc_def v_model_of_def ok_or_def)
qed

lemma input_model_ok:
  assumes s: "schema_ok (schema_of v)" and m: "m \<in> set (input_models (vd_models v) mu)"
  shows "model_ok (input_schema_desc v mu) (input_model_desc mu m)"
proof -
  let ?d = "input_model_desc mu m"
  have mv: "m \<in> set (vd_models v)" using m by (simp add: input_models_def)
  with s have mo: "model_ok (schema_of v) (model_desc_of m)" by (simp add: schema_ok_def schema_of_def)
  have id: "vf_name f \<in> set (vm_identity m) \<Longrightarrow> f \<in> set (vm_fields m) \<Longrightarrow> f \<in> set (input_fields mu m)" for f
    by (simp add: input_fields_def)
  have "field_ok (input_schema_desc v mu) f" if f: "f \<in> set (m_fields ?d)" for f
  proof -
    from f obtain g where g: "g \<in> set (input_fields mu m)" "f = field_desc_of g" by (auto simp: input_model_desc_def)
    then have "field_desc_of g \<in> set (m_fields (model_desc_of m))" by (auto simp: input_fields_def model_desc_of_def)
    with mo g(2) have fo: "field_ok (schema_of v) f" by (auto simp: model_ok_def)
    have "type_ok (input_schema_desc v mu) (f_type f)"
    proof (cases "f_type f")
      case (TEnum n)
      with g have "vf_type g = TEnum n" by (simp add: field_desc_of_def)
      with g(1) m have "input_enum (vd_models v) mu n" by (auto simp: input_enum_def)
      with fo TEnum show ?thesis by (auto simp: field_ok_def schema_of_def input_schema_desc_def input_enums_def)
    qed (use fo in \<open>auto simp: field_ok_def\<close>)
    with fo show ?thesis by (simp add: field_ok_def)
  qed
  moreover have "distinct (map f_name (m_fields ?d))"
  proof -
    from mo have "distinct (map vf_name (vm_fields m))"
      by (simp add: model_ok_def model_desc_of_def comp_def field_desc_of_def)
    then show ?thesis
      by (simp add: input_model_desc_def comp_def field_desc_of_def input_fields_def distinct_map_filter)
  qed
  moreover have "identity_ok ?d n" if n: "n \<in> set (vm_identity m)" for n
  proof -
    from mo n have "identity_ok (model_desc_of m) n" by (simp add: model_ok_def model_desc_of_def)
    moreover have "find (\<lambda>f. vf_name f = n) (input_fields mu m) = find (\<lambda>f. vf_name f = n) (vm_fields m)"
      unfolding input_fields_def by (rule find_filter_same) (use n in auto)
    then have "field_of ?d n = field_of (model_desc_of m) n"
      by (simp add: field_of_def input_model_desc_def model_desc_of_def find_map field_desc_of_def)
    ultimately show ?thesis by (simp add: identity_ok_def)
  qed
  ultimately show ?thesis
    using mo by (simp add: model_ok_def input_model_desc_def model_desc_of_def max_safe_integer_def)
qed

lemma input_schema_ok:
  assumes s: "schema_ok (schema_of v)" and "vt_slots mu \<noteq> []"
    and "\<forall>s \<in> set (vt_slots mu). slot_checked (vd_models v) s"
  shows "schema_ok (input_schema_desc v mu)"
proof -
  from assms(2) obtain sl where sl: "sl \<in> set (vt_slots mu)" by (cases "vt_slots mu") auto
  with assms(3) obtain m where "v_model_of (vd_models v) (vs_model sl) = Some m" by (auto simp: slot_checked_def)
  with sl v_model_of_in have "m \<in> set (input_models (vd_models v) mu)"
    by (fastforce simp: input_models_def slots_on_def filter_empty_conv)
  then have "input_models (vd_models v) mu \<noteq> []" by auto
  moreover have "distinct (map e_name (input_enums v mu) @ map vm_name (input_models (vd_models v) mu))"
  proof -
    from s have d: "distinct (map e_name (vd_enums v) @ map vm_name (vd_models v))"
      by (simp add: schema_ok_def schema_of_def comp_def model_desc_of_def)
    then have "distinct (map e_name (input_enums v mu))" "distinct (map vm_name (input_models (vd_models v) mu))"
      by (simp_all add: input_enums_def input_models_def distinct_map_filter)
    moreover have "set (map e_name (input_enums v mu)) \<subseteq> set (map e_name (vd_enums v))"
      "set (map vm_name (input_models (vd_models v) mu)) \<subseteq> set (map vm_name (vd_models v))"
      by (auto simp: input_enums_def input_models_def)
    ultimately show ?thesis using d by (simp only: distinct_append) blast
  qed
  moreover have "\<forall>e \<in> set (input_enums v mu). enum_ok e"
    using s by (simp add: schema_ok_def schema_of_def input_enums_def)
  moreover have "\<forall>m \<in> set (input_models (vd_models v) mu). model_ok (input_schema_desc v mu) (input_model_desc mu m)"
    using input_model_ok [OF s] by blast
  moreover have "m_name \<circ> input_model_desc mu = vm_name"
    by (rule ext) (simp add: input_model_desc_def)
  moreover have "s_enums (input_schema_desc v mu) = input_enums v mu"
    "s_models (input_schema_desc v mu) = map (input_model_desc mu) (input_models (vd_models v) mu)"
    "s_requirements (input_schema_desc v mu) = []"
    by (simp_all add: input_schema_desc_def)
  moreover have "m_unique (input_model_desc mu m) = []" "m_relations (input_model_desc mu m) = []" for m
    by (simp_all add: input_model_desc_def)
  ultimately show ?thesis unfolding schema_ok_def by simp
qed

section \<open>Slots and bindings\<close>

lemma check_slot_ok:
  assumes s: "schema_ok (schema_of v)" and sl: "sl \<in> set (vt_slots mu)" and checked: "slot_checked (vd_models v) sl"
    and patch: "vs_patch sl \<noteq> None \<longrightarrow> vs_operation sl = SlotUpdate"
  shows "check_slot (input_schema_desc v mu) (slot_desc_of sl) seen = Inr b \<longleftrightarrow>
    sl_name (slot_desc_of sl) \<notin> set seen \<and> b = bs_ins (sl_name (slot_desc_of sl)) seen"
proof -
  from checked obtain m where m: "v_model_of (vd_models v) (vs_model sl) = Some m"
    and fs: "\<And>fs. vs_patch sl = Some fs \<Longrightarrow> patch_checked m fs"
    by (auto simp: slot_checked_def)
  have on: "sl \<in> set (slots_on mu m)" using sl v_model_of_in [OF m] by (simp add: slots_on_def)
  then have model: "model_of (input_schema_desc v mu) (vs_model sl) = Inr (input_model_desc mu m)"
    by (intro input_model_of [OF m]) auto
  have caps: "\<exists>b. efold (check_capability (input_model_desc mu m)) (sl_patch (slot_desc_of sl)) [] = Inr b"
  proof (cases "vs_patch sl")
    case None
    then show ?thesis by (simp add: slot_desc_of_def)
  next
    case (Some ps)
    with patch have up: "vs_operation sl = SlotUpdate" by simp
    have "f \<in> f_name ` set (m_fields (input_model_desc mu m))" if f: "f \<in> set ps" for f
    proof -
      from fs [OF Some] f obtain g where g: "g \<in> set (vm_fields m)" "vf_name g = f" by (auto simp: patch_checked_def)
      have "slot_allows sl f" using up Some f by (simp add: slot_allows_def)
      with on g have "g \<in> set (input_fields mu m)" by (auto simp: input_fields_def)
      with g(2) show ?thesis by (force simp: input_model_desc_def field_desc_of_def)
    qed
    moreover have "m_identity (input_model_desc mu m) = vm_identity m" by (simp add: input_model_desc_def)
    ultimately have "(\<exists>b. efold (check_capability (input_model_desc mu m)) ps [] = Inr b)"
      using fs [OF Some]
        efold_bs_ins_ok [of ps "check_capability (input_model_desc mu m)"
          "\<lambda>f. f \<notin> set (vm_identity m) \<and> f \<in> f_name ` set (m_fields (input_model_desc mu m))" "\<lambda>f. f" "[]"]
      by (auto simp: check_capability_def bindE_Inr_iff ensure_Inr_iff patch_checked_def)
    with Some show ?thesis by (simp add: slot_desc_of_def)
  qed
  have op: "operation_text (vs_operation sl) \<in> {''create'', ''update'', ''delete''}"
    "cardinality_text (vs_cardinality sl) \<in> {''single'', ''optional'', ''list''}"
    by (cases "vs_operation sl"; simp) (cases "vs_cardinality sl"; simp)
  have "sl_operation (slot_desc_of sl) = ''update'' \<or> sl_patch (slot_desc_of sl) = []"
    using patch by (cases "vs_patch sl") (simp_all add: slot_desc_of_def)
  with caps model op show ?thesis
    by (auto simp: check_slot_def bindE_Inr_iff ensure_Inr_iff sres_Inr_iff slot_desc_of_def simp del: insert_iff)
qed

text \<open>
  A binding can be served when the fields of its reference are part of the captured input: each
  is of the model's identity, or a slot of the mutation on that model creates it or may patch it.
\<close>

definition field_captured :: "v_model list \<Rightarrow> v_mutation \<Rightarrow> v_slot \<Rightarrow> string \<Rightarrow> bool" where
  "field_captured ms mu s f \<longleftrightarrow> (\<exists>m \<in> set ms. vm_name m = vs_model s \<and> f \<in> set (vm_identity m)) \<or>
     (\<exists>p \<in> set (vt_slots mu). vs_model p = vs_model s \<and> slot_allows p f)"

definition binds_captured :: "v_model list \<Rightarrow> v_mutation \<Rightarrow> bool" where
  "binds_captured ms mu \<longleftrightarrow> (\<forall>s \<in> set (vt_slots mu). \<forall>b \<in> set (vs_bindings s). \<forall>f \<in> set (vb_fields b).
     field_captured ms mu s f)"

lemma relation_target:
  assumes s: "schema_ok (schema_of v)" and m: "m \<in> set (vd_models v)" and r: "r \<in> set (vm_relations m)"
  obtains t where "v_model_of (vd_models v) (vr_target r) = Some t"
    and "length (vr_fields r) = length (vm_identity t)" and "set (vr_fields r) \<subseteq> vf_name ` set (vm_fields m)"
proof -
  have "relation_desc_of r \<in> set (m_relations (model_desc_of m))" using r by (simp add: model_desc_of_def)
  moreover have "model_desc_of m \<in> set (s_models (schema_of v))" using m by (simp add: schema_of_def)
  ultimately have "relation_ok (schema_of v) (model_desc_of m) (relation_desc_of r)"
    using s unfolding schema_ok_def by blast
  then obtain target where target: "model_of (schema_of v) (vr_target r) = Inr target"
    and l: "list_all2 (\<lambda>l t. \<exists>f g. field_of (model_desc_of m) l = Some f \<and> field_of target t = Some g \<and> f_type f = f_type g)
          (vr_fields r) (m_identity target)"
    by (auto simp: relation_ok_def relation_desc_of_def)
  from target obtain t where t: "v_model_of (vd_models v) (vr_target r) = Some t"
    by (auto simp: model_of_def schema_of_def find_map v_model_of_def model_desc_of_def res_elims)
  with v_model_of_desc target have td: "target = model_desc_of t" by fastforce
  have "l \<in> vf_name ` set (vm_fields m)" if "field_of (model_desc_of m) l = Some f" for l f
    using field_of_in [OF that] by (auto simp: model_desc_of_def field_desc_of_def)
  with l have "set (vr_fields r) \<subseteq> vf_name ` set (vm_fields m)"
    by (auto simp: list_all2_conv_all_nth in_set_conv_nth) metis
  moreover from l td have "length (vr_fields r) = length (vm_identity t)"
    by (auto dest: list_all2_lengthD simp: model_desc_of_def)
  ultimately show thesis using that t by blast
qed

lemma check_binding_iff:
  assumes s: "schema_ok (schema_of v)" and from': "mutation_from (vd_models v) mu decl"
    and d: "distinct (map vs_name (vt_slots mu))"
    and sl: "sl \<in> set (vt_slots mu)" and b: "b \<in> set (vs_bindings sl)"
  shows "check_binding (input_schema_desc v mu) (mutation_desc_of v mu) (slot_desc_of sl) (binding_desc_of b) = Inr () \<longleftrightarrow>
    (\<forall>f \<in> set (vb_fields b). field_captured (vd_models v) mu sl f)"
proof -
  let ?i = "input_schema_desc v mu"
  from from' have l: "list_all2 (slot_from (vd_models v) decl) (vt_slots mu) (td_slots decl)" by (simp add: mutation_from_def)
  with sl obtain ds where ds: "slot_from (vd_models v) decl sl ds"
    by (metis in_set_conv_nth list_all2_conv_all_nth)
  then obtain kvs where "emap (bind_slot (vd_models v) decl ds) kvs = Inr (vs_bindings sl)" by (auto simp: slot_from_def)
  from emap_mem [OF this b] obtain rp where "bind_slot (vd_models v) decl ds rp = Inr b" by blast
  then obtain m r parent where "v_model_of (vd_models v) (od_model ds) = Some m"
    and "find (\<lambda>r. vr_name r = fst rp) (vm_relations m) = Some r"
    and "find (\<lambda>p. as_str (snd rp) = Some (od_name p)) (td_slots decl) = Some parent"
    and parent: "od_model parent = vr_target r" "od_cardinality parent = ''single''"
    and b': "vb_slot b = od_name parent" "vb_fields b = vr_fields r"
    by (auto simp: bind_slot_def bindE_Inr_iff)
  then have m: "v_model_of (vd_models v) (vs_model sl) = Some m" and r: "r \<in> set (vm_relations m)"
    and pin: "parent \<in> set (td_slots decl)"
    using ds by (auto simp: slot_from_def dest: find_Some_in)
  from v_model_of_in [OF m] obtain t where t: "v_model_of (vd_models v) (vr_target r) = Some t"
      "length (vr_fields r) = length (vm_identity t)" "set (vr_fields r) \<subseteq> vf_name ` set (vm_fields m)"
    using relation_target [OF s _ r] by blast
  from pin l obtain p where p: "p \<in> set (vt_slots mu)" "slot_from (vd_models v) decl p parent"
    by (metis in_set_conv_nth list_all2_conv_all_nth)
  then have pn: "vs_name p = vb_slot b" "vs_model p = vr_target r" "vs_cardinality p = Single"
    using parent b' by (auto simp: slot_from_def cardinality_of_def)
  have "find (\<lambda>q. vs_name q = vb_slot b) (vt_slots mu) = Some p" by (rule find_distinct [OF d p(1) pn(1)])
  then have found_p: "find (\<lambda>q. sl_name q = bd_slot (binding_desc_of b)) (sm_slots (mutation_desc_of v mu)) = Some (slot_desc_of p)"
    by (simp add: mutation_desc_of_def find_map slot_desc_of_def binding_desc_of_def)
  have "p \<in> set (slots_on mu t)" using p(1) pn(2) v_model_of_in [OF t(1)] by (simp add: slots_on_def)
  then have mp: "model_of ?i (vs_model p) = Inr (input_model_desc mu t)"
    unfolding pn(2) by (intro input_model_of [OF t(1)]) auto
  have on: "sl \<in> set (slots_on mu m)" using sl v_model_of_in [OF m] by (simp add: slots_on_def)
  then have mc: "model_of ?i (vs_model sl) = Inr (input_model_desc mu m)" by (intro input_model_of [OF m]) auto
  have names: "distinct (map vm_name (vd_models v))"
    using s by (simp add: schema_ok_def schema_of_def model_desc_of_def comp_def)
  have same: "n = m" if "n \<in> set (vd_models v)" "vm_name n = vs_model sl" for n
    using that v_model_of_in [OF m] names by (metis distinct_map inj_onD)
  have "f \<in> vf_name ` set (input_fields mu m) \<longleftrightarrow> field_captured (vd_models v) mu sl f" if "f \<in> set (vb_fields b)" for f
  proof -
    from that t(3) b'(2) have "f \<in> vf_name ` set (vm_fields m)" by auto
    then have "f \<in> vf_name ` set (input_fields mu m) \<longleftrightarrow> f \<in> set (vm_identity m) \<or> (\<exists>q \<in> set (slots_on mu m). slot_allows q f)"
      by (auto simp: input_fields_def)
    also have "\<dots> \<longleftrightarrow> field_captured (vd_models v) mu sl f"
      using same v_model_of_in [OF m] by (auto simp: field_captured_def slots_on_def)
    finally show ?thesis .
  qed
  moreover have "f_name ` set (m_fields (input_model_desc mu m)) = vf_name ` set (input_fields mu m)"
    by (simp add: input_model_desc_def field_desc_of_def image_image)
  ultimately have sub: "set (vb_fields b) \<subseteq> f_name ` set (m_fields (input_model_desc mu m)) \<longleftrightarrow>
      (\<forall>f \<in> set (vb_fields b). field_captured (vd_models v) mu sl f)" by (simp add: subset_iff Ball_def)
  have "check_binding ?i (mutation_desc_of v mu) (slot_desc_of sl) (binding_desc_of b) = Inr () \<longleftrightarrow>
      set (vb_fields b) \<subseteq> f_name ` set (m_fields (input_model_desc mu m))"
    using found_p mp mc pn(3) t(2) b'(2)
    by (simp add: check_binding_def ensure_Inr_iff sres_def slot_desc_of_def binding_desc_of_def)
      (simp add: input_model_desc_def)
  with sub show ?thesis by simp
qed

text \<open>A mutation the server accepts whatever else it serves.\<close>

definition servable :: "server_mutation \<Rightarrow> bool" where
  "servable m \<longleftrightarrow> sm_name m \<noteq> [] \<and> positive_counter (sm_version m) \<and>
     (\<exists>s. sm_input m = Some s \<and> schema_ok s \<and> is_ok (efold (check_slot s) (sm_slots m) []) \<and>
       (\<forall>sl \<in> set (sm_slots m). \<forall>b \<in> set (sl_bindings sl). check_binding s m sl b = Inr ()))"

lemma positive_version: "0 < n \<Longrightarrow> n \<le> max_safe_integer \<Longrightarrow> positive_counter n"
  by (simp add: positive_counter_def read_counter_jnat)

lemma snapshot_servable:
  assumes "validate_decls d = Inr v" and "made d" and mu: "mu \<in> set (vd_mutations v)"
    and "binds_captured (vd_models v) mu"
  shows "servable (mutation_desc_of v mu)"
proof -
  from assms(1) have s: "schema_ok (schema_of v)"
    by (metis core_check_ok schema_of_model validated_parts)
  from checked_mutation [OF assms(1,2) mu] obtain decl where decl: "decl \<in> set (dc_mutations d)"
      "mutation_from (vd_models v) mu decl" "vt_slots mu \<noteq> []"
      "\<forall>s \<in> set (vt_slots mu). slot_checked (vd_models v) s" "distinct (map vs_name (vt_slots mu))" .
  from decl(1) assms(2) have md: "mutation_made decl" by (simp add: made_def list_all_iff)
  have patch: "vs_patch sl \<noteq> None \<longrightarrow> vs_operation sl = SlotUpdate" if "sl \<in> set (vt_slots mu)" for sl
    using that decl(2) by (fastforce simp: mutation_from_def slot_from_def list_all2_conv_all_nth in_set_conv_nth)
  have "\<exists>b. efold (check_slot (input_schema_desc v mu)) (map slot_desc_of (vt_slots mu)) [] = Inr b"
  proof (subst efold_bs_ins_ok [where P = "\<lambda>_. True" and key = sl_name])
    fix sl seen b assume "sl \<in> set (map slot_desc_of (vt_slots mu))"
    then obtain t where t: "t \<in> set (vt_slots mu)" "sl = slot_desc_of t" by auto
    from check_slot_ok [OF s t(1) _ patch [OF t(1)], of seen b] decl(4) t
    show "check_slot (input_schema_desc v mu) sl seen = Inr b \<longleftrightarrow> True \<and> sl_name sl \<notin> set seen \<and> b = bs_ins (sl_name sl) seen"
      by simp
  qed (use decl(5) in \<open>simp add: slot_desc_of_def comp_def\<close>)
  moreover have "check_binding (input_schema_desc v mu) (mutation_desc_of v mu) sl b = Inr ()"
    if "sl \<in> set (map slot_desc_of (vt_slots mu))" "b \<in> set (sl_bindings sl)" for sl b
    using that check_binding_iff [OF s decl(2,5)] assms(4) by (auto simp: slot_desc_of_def binds_captured_def)
  ultimately show ?thesis
    using input_schema_ok [OF s decl(3,4)] md decl(2) positive_version
    by (simp add: servable_def mutation_desc_of_def mutation_made_def mutation_from_def is_ok_iff)
qed

end
