(* ===== verification/Builds.thy ===== *)
theory Builds
  imports Inputs
begin

text \<open>
  Build after build: the histories stay well formed, and the server starts on every backend
  the compiler writes, with every published version still served.
\<close>

section \<open>Well-formed histories\<close>

definition kept_entry :: "(string \<Rightarrow> string \<Rightarrow> json \<Rightarrow> bool) \<Rightarrow> string \<times> json \<Rightarrow> bool" where
  "kept_entry P e \<longleftrightarrow> (\<exists>kvs. snd e = JObj kvs \<and> bt_ok kvs \<and> list_all (\<lambda>kv. P (fst e) (fst kv) (snd kv)) kvs)"

definition kept :: "(string \<Rightarrow> string \<Rightarrow> json \<Rightarrow> bool) \<Rightarrow> (string \<times> json) list \<Rightarrow> bool" where
  "kept P entries \<longleftrightarrow> bt_ok entries \<and> list_all (kept_entry P) entries"

lemma kept_Nil: "kept P []"
  by (simp add: kept_def)

lemma kept_ins:
  assumes "kept P entries" and "versions_of entries name = Inr versions" and "P name k snap"
  shows "kept P (bt_ins name (JObj (bt_ins k snap versions)) entries)"
proof -
  have "kept_entry P (name, JObj versions)"
  proof (cases "map_of entries name")
    case None
    with versions_of_Inr [OF assms(2)] show ?thesis by (simp add: kept_entry_def)
  next
    case (Some vs)
    then have "(name, vs) \<in> set entries" by (rule map_of_SomeD)
    with assms(1) Some versions_of_Inr [OF assms(2)] show ?thesis by (auto simp: kept_def list_all_iff)
  qed
  then have "kept_entry P (name, JObj (bt_ins k snap versions))"
    using assms(3) by (auto simp: kept_entry_def intro: list_all_bt_ins)
  with assms(1) show ?thesis by (auto simp: kept_def intro: list_all_bt_ins)
qed

fun entry_snapshots :: "string \<times> json \<Rightarrow> json list" where
  "entry_snapshots (name, JObj kvs) = map snd kvs"
| "entry_snapshots _ = []"

lemma retained_kept:
  assumes "kept P entries" and "index h key = JObj entries"
  shows "retained h key = Inr (concat (map entry_snapshots entries))"
proof -
  have "emap (\<lambda>kv. bindE (unwrap (as_object (snd kv))) (\<lambda>vs. Inr (map snd vs))) entries = Inr (map entry_snapshots entries)"
  proof (rule emap_all_ok, rule ballI)
    fix e assume "e \<in> set entries"
    with assms(1) have "kept_entry P e" by (simp add: kept_def list_all_iff)
    then show "bindE (unwrap (as_object (snd e))) (\<lambda>vs. Inr (map snd vs)) = Inr (entry_snapshots e)"
      by (cases e) (auto simp: kept_entry_def unwrap_def)
  qed
  with assms(2) show ?thesis by (simp add: retained_def unwrap_def)
qed

lemma emap_append: "emap f (as @ bs) = bindE (emap f as) (\<lambda>cs. bindE (emap f bs) (\<lambda>ds. Inr (cs @ ds)))"
proof (induction as)
  case Nil
  show ?case by (cases "emap f bs") simp_all
next
  case (Cons a as)
  then show ?case by (cases "f a"; cases "emap f as"; cases "emap f bs") simp_all
qed

text \<open>The versions of one name, decoded.\<close>

lemma versions_decoded:
  assumes "list_all (\<lambda>kv. P name (fst kv) (snd kv)) kvs"
    and dec: "\<And>k snap. P name k snap \<Longrightarrow> \<exists>m. dec snap = Inr m \<and> nm m = name \<and> k = decimal (ver m) \<and> Q m"
  shows "\<exists>ms. emap dec (map snd kvs) = Inr ms \<and> (\<forall>m \<in> set ms. Q m \<and> nm m = name) \<and>
    map (\<lambda>m. decimal (ver m)) ms = map fst kvs"
  using assms(1)
proof (induction kvs)
  case (Cons kv kvs)
  then obtain ms where ms: "emap dec (map snd kvs) = Inr ms" "\<forall>m \<in> set ms. Q m \<and> nm m = name"
      "map (\<lambda>m. decimal (ver m)) ms = map fst kvs" by auto
  from Cons.prems dec obtain m where "dec (snd kv) = Inr m" "nm m = name" "fst kv = decimal (ver m)" "Q m"
    by fastforce
  with ms show ?case by (intro exI [of _ "m # ms"]) simp
qed simp

lemma entries_decoded:
  assumes "kept P entries"
    and dec: "\<And>name k snap. P name k snap \<Longrightarrow> \<exists>m. dec snap = Inr m \<and> nm m = name \<and> k = decimal (ver m) \<and> Q m"
  shows "\<exists>ms. emap dec (concat (map entry_snapshots entries)) = Inr ms \<and>
    (\<forall>m \<in> set ms. Q m \<and> nm m \<in> fst ` set entries) \<and> distinct (map (\<lambda>m. (nm m, ver m)) ms) \<and>
    (\<forall>name k. entry_at entries name k \<noteq> None \<longrightarrow> (\<exists>m \<in> set ms. nm m = name \<and> ver m = k))"
  using assms(1)
proof (induction entries)
  case Nil
  show ?case by (simp add: entry_at_def)
next
  case (Cons e entries)
  obtain name vs where e: "e = (name, vs)" by (cases e)
  from Cons.prems have tail: "kept P entries" and new: "name \<notin> fst ` set entries"
    by (auto simp: kept_def e bt_ok_Cons)
  from Cons.prems obtain kvs where kvs: "vs = JObj kvs" "bt_ok kvs" "list_all (\<lambda>kv. P name (fst kv) (snd kv)) kvs"
    by (auto simp: kept_def kept_entry_def e)
  from versions_decoded [where P = P and name = name and dec = dec and nm = nm and ver = ver and Q = Q, OF kvs(3) dec] obtain here where here: "emap dec (map snd kvs) = Inr here"
      "\<forall>m \<in> set here. Q m \<and> nm m = name" "map (\<lambda>m. decimal (ver m)) here = map fst kvs" by blast
  from Cons.IH [OF tail] obtain ms where ms: "emap dec (concat (map entry_snapshots entries)) = Inr ms"
      "\<forall>m \<in> set ms. Q m \<and> nm m \<in> fst ` set entries" "distinct (map (\<lambda>m. (nm m, ver m)) ms)"
      "\<And>n k. entry_at entries n k \<noteq> None \<Longrightarrow> \<exists>m \<in> set ms. nm m = n \<and> ver m = k" by blast
  have "emap dec (concat (map entry_snapshots (e # entries))) = Inr (here @ ms)"
    using here(1) ms(1) by (simp add: e kvs(1) emap_append)
  moreover have "distinct (map (\<lambda>m. (nm m, ver m)) (here @ ms))"
  proof -
    have "distinct (map (\<lambda>m. decimal (ver m)) here)" using here(3) bt_ok_distinct [OF kvs(2)] by simp
    then have "distinct (map (\<lambda>m. (nm m, ver m)) here)" by (auto simp: distinct_map inj_on_def)
    moreover have "nm m \<noteq> nm m'" if "m \<in> set here" "m' \<in> set ms" for m m'
      using that here(2) ms(2) new by auto
    ultimately show ?thesis using ms(3) by auto
  qed
  moreover have "\<exists>m \<in> set (here @ ms). nm m = n \<and> ver m = k" if at: "entry_at (e # entries) n k \<noteq> None" for n k
  proof (cases "n = name")
    case True
    with at kvs(1) have "map_of kvs (decimal k) \<noteq> None" by (simp add: entry_at_def e)
    then have "decimal k \<in> fst ` set kvs" by (simp only: map_of_eq_None_iff) blast
    with here(3) obtain m where "m \<in> set here" "decimal (ver m) = decimal k" by (metis (no_types, lifting) imageE list.set_map)
    with here(2) True show ?thesis by auto
  next
    case False
    with at have "entry_at entries n k \<noteq> None" by (simp add: entry_at_def e)
    with ms(4) show ?thesis by fastforce
  qed
  moreover have "\<forall>m \<in> set (here @ ms). Q m \<and> nm m \<in> fst ` set (e # entries)"
    using here(2) ms(2) e by auto
  ultimately show ?case by blast
qed

text \<open>What is decoded is what the entries hold, each under its own name and version.\<close>

lemma kept_snapshots:
  assumes "kept P entries"
  shows "snap \<in> set (concat (map entry_snapshots entries)) \<longleftrightarrow>
    (\<exists>name k kvs. map_of entries name = Some (JObj kvs) \<and> map_of kvs k = Some snap \<and> P name k snap)"
proof -
  have d: "distinct (map fst entries)" using assms by (auto simp: kept_def intro: bt_ok_distinct)
  have e: "\<exists>kvs. vs = JObj kvs \<and> distinct (map fst kvs) \<and> (\<forall>(k, snap) \<in> set kvs. P name k snap)" if "(name, vs) \<in> set entries" for name vs
    using that assms by (fastforce simp: kept_def kept_entry_def list_all_iff intro: bt_ok_distinct)
  show ?thesis
  proof
    assume "snap \<in> set (concat (map entry_snapshots entries))"
    then obtain name vs where nv: "(name, vs) \<in> set entries" "snap \<in> set (entry_snapshots (name, vs))" by auto
    from e [OF nv(1)] obtain kvs where kvs: "vs = JObj kvs" "distinct (map fst kvs)" "\<forall>(k, snap) \<in> set kvs. P name k snap" by blast
    with nv(2) obtain k where k: "(k, snap) \<in> set kvs" by auto
    from kvs k nv(1) d have "map_of entries name = Some (JObj kvs)" "map_of kvs k = Some snap" "P name k snap" by auto
    then show "\<exists>name k kvs. map_of entries name = Some (JObj kvs) \<and> map_of kvs k = Some snap \<and> P name k snap" by blast
  next
    assume "\<exists>name k kvs. map_of entries name = Some (JObj kvs) \<and> map_of kvs k = Some snap \<and> P name k snap"
    then obtain name k kvs where m: "map_of entries name = Some (JObj kvs)" "map_of kvs k = Some snap" by blast
    from m(2) have "snap \<in> set (entry_snapshots (name, JObj kvs))" by (force dest: map_of_SomeD)
    moreover from m(1) have "(name, JObj kvs) \<in> set entries" by (rule map_of_SomeD)
    ultimately show "snap \<in> set (concat (map entry_snapshots entries))" unfolding set_concat set_map by blast
  qed
qed

lemma emap_set: "emap f as = Inr bs \<Longrightarrow> b \<in> set bs \<longleftrightarrow> (\<exists>a \<in> set as. f a = Inr b)"
  by (induction as arbitrary: bs) (auto simp: bindE_Inr_iff)

lemma entries_exact:
  assumes "kept P entries" and "emap dec (concat (map entry_snapshots entries)) = Inr ms"
    and dec: "\<And>name k snap m. P name k snap \<Longrightarrow> dec snap = Inr m \<Longrightarrow> nm m = name \<and> k = decimal (ver m)"
  shows "m \<in> set ms \<longleftrightarrow> (\<exists>snap. entry_at entries (nm m) (ver m) = Some snap \<and> dec snap = Inr m)"
proof
  assume "m \<in> set ms"
  with emap_set [OF assms(2)] obtain snap where snap: "snap \<in> set (concat (map entry_snapshots entries))" "dec snap = Inr m"
    by blast
  from snap(1) kept_snapshots [OF assms(1)] obtain name k kvs where
      e: "map_of entries name = Some (JObj kvs)" "map_of kvs k = Some snap" "P name k snap" by blast
  with dec [OF e(3) snap(2)] have "entry_at entries (nm m) (ver m) = Some snap" by (simp add: entry_at_def)
  with snap(2) show "\<exists>snap. entry_at entries (nm m) (ver m) = Some snap \<and> dec snap = Inr m" by blast
next
  assume "\<exists>snap. entry_at entries (nm m) (ver m) = Some snap \<and> dec snap = Inr m"
  then obtain snap vs where snap: "map_of entries (nm m) = Some vs" "get vs (decimal (ver m)) = Some snap" "dec snap = Inr m"
    by (auto simp: entry_at_def split: Option.bind_splits)
  from snap(1) assms(1) obtain kvs where kvs: "vs = JObj kvs" "list_all (\<lambda>kv. P (nm m) (fst kv) (snd kv)) kvs"
    by (fastforce simp: kept_def kept_entry_def list_all_iff dest!: map_of_SomeD)
  with snap(2) have at: "map_of kvs (decimal (ver m)) = Some snap" by simp
  with kvs(2) have "P (nm m) (decimal (ver m)) snap" by (auto simp: list_all_iff dest!: map_of_SomeD)
  with snap(1) kvs(1) at kept_snapshots [OF assms(1)] have "snap \<in> set (concat (map entry_snapshots entries))" by blast
  with emap_set [OF assms(2)] snap(3) show "m \<in> set ms" by blast
qed

section \<open>The two histories of a build\<close>

definition kept_input :: "string \<Rightarrow> string \<Rightarrow> json \<Rightarrow> bool" where
  "kept_input name k snap \<longleftrightarrow> (\<exists>m. decode_server_mutation snap = Inr m \<and> sm_name m = name \<and>
     k = decimal (sm_version m) \<and> servable m)"

definition kept_contract :: "string \<Rightarrow> string \<Rightarrow> json \<Rightarrow> bool" where
  "kept_contract name k snap \<longleftrightarrow> (\<exists>w n. snap = contract_json w n \<and> schema_ok (schema_of w) \<and>
     n \<in> set (vd_models w) \<and> vm_name n = name \<and> k = decimal (vm_version n))"

lemma keep_mutation_kept:
  assumes "keep_mutation (descriptors v) (v_mutation_json mu) entries = Inr entries'"
    and "kept kept_input entries" and "servable (mutation_desc_of v mu)"
  shows "kept kept_input entries'"
proof -
  from assms(1) obtain versions where vs: "versions_of entries (vt_name mu) = Inr versions"
    and e: "entries' = bt_ins (vt_name mu) (JObj (bt_ins (decimal (vt_version mu)) (snapshot_json v mu) versions)) entries"
    by (auto simp: keep_mutation_def bindE_Inr_iff need_def capture_descriptors fail_def Let_def split: option.splits)
  have "kept_input (vt_name mu) (decimal (vt_version mu)) (snapshot_json v mu)"
    using assms(3) by (simp add: kept_input_def decode_snapshot) (simp add: mutation_desc_of_def)
  from kept_ins [OF assms(2) vs this] e show "kept kept_input entries'" by simp
qed

lemma keep_mutation_entry:
  assumes "keep_mutation (descriptors v) (v_mutation_json mu) entries = Inr entries'"
  shows "entry_at entries' n k =
    (if n = vt_name mu \<and> k = vt_version mu then Some (snapshot_json v mu) else entry_at entries n k)"
proof -
  from assms obtain versions where vs: "versions_of entries (vt_name mu) = Inr versions"
    and e: "entries' = bt_ins (vt_name mu) (JObj (bt_ins (decimal (vt_version mu)) (snapshot_json v mu) versions)) entries"
    by (auto simp: keep_mutation_def bindE_Inr_iff need_def capture_descriptors fail_def Let_def split: option.splits)
  have old: "entry_at entries (vt_name mu) j = map_of versions (decimal j)" for j
    using versions_of_Inr [OF vs] by (cases "map_of entries (vt_name mu)") (auto simp: entry_at_def)
  with e show ?thesis by (auto simp: entry_at_def)
qed

text \<open>Among the items of one source, the one of a name and version.\<close>

definition item_at :: "('a \<Rightarrow> string) \<Rightarrow> ('a \<Rightarrow> nat) \<Rightarrow> 'a list \<Rightarrow> string \<Rightarrow> nat \<Rightarrow> 'a option" where
  "item_at nm ver as n k = find (\<lambda>a. nm a = n \<and> ver a = k) as"

lemma entries_after:
  assumes "efold keep (map mk as) entries = Inr entries'" and "distinct (map nm as)"
    and step: "\<And>a b b' n k. a \<in> set as \<Longrightarrow> keep (mk a) b = Inr b' \<Longrightarrow>
      entry_at b' n k = (if n = nm a \<and> k = ver a then Some (snap a) else entry_at b n k)"
  shows "entry_at entries' n k = (case item_at nm ver as n k of Some a \<Rightarrow> Some (snap a) | None \<Rightarrow> entry_at entries n k)"
  using assms
proof (induction as arbitrary: entries)
  case Nil
  then show ?case by (simp add: item_at_def)
next
  case (Cons a as)
  from Cons.prems(1) obtain mid where mid: "keep (mk a) entries = Inr mid" "efold keep (map mk as) mid = Inr entries'"
    by (auto simp: bindE_Inr_iff)
  have e: "entry_at mid n k = (if n = nm a \<and> k = ver a then Some (snap a) else entry_at entries n k)"
    by (rule Cons.prems(3) [OF _ mid(1)]) simp
  have IH: "entry_at entries' n k = (case item_at nm ver as n k of Some a \<Rightarrow> Some (snap a) | None \<Rightarrow> entry_at mid n k)"
    by (rule Cons.IH [OF mid(2)]) (use Cons.prems in auto)
  have "item_at nm ver as (nm a) k = None"
  proof -
    from Cons.prems(2) have "nm b \<noteq> nm a" if "b \<in> set as" for b using that by simp (metis imageI)
    then show ?thesis by (auto simp: item_at_def find_None_iff)
  qed
  with IH e show ?case
    by (cases "n = nm a \<and> k = ver a") (auto simp: item_at_def split: option.split)
qed

lemma keep_mutations_kept:
  assumes "efold (keep_mutation (descriptors v)) (map v_mutation_json mus) entries = Inr entries'"
    and "kept kept_input entries" and "\<forall>mu \<in> set mus. servable (mutation_desc_of v mu)"
  shows "kept kept_input entries'"
  using assms
proof (induction mus arbitrary: entries)
  case (Cons mu mus)
  then obtain mid where mid: "keep_mutation (descriptors v) (v_mutation_json mu) entries = Inr mid"
    and rest: "efold (keep_mutation (descriptors v)) (map v_mutation_json mus) mid = Inr entries'"
    by (auto simp: bindE_Inr_iff)
  have "servable (mutation_desc_of v mu)" using Cons.prems(3) by simp
  from Cons.IH [OF rest keep_mutation_kept [OF mid Cons.prems(2) this]] Cons.prems(3) show ?case by simp
qed simp

lemma keep_model_kept:
  assumes "keep_model x (descriptors v) (model_json m) entries = Inr entries'"
    and "kept kept_contract entries" and "schema_ok (schema_of v)" and "m \<in> set (vd_models v)"
  shows "kept kept_contract entries'"
proof -
  from assms(1) obtain versions where vs: "versions_of entries (vm_name m) = Inr versions"
    and e: "entries' = bt_ins (vm_name m) (JObj (bt_ins (decimal (vm_version m)) (contract_json v m) versions)) entries"
    by (auto simp: keep_model_def bindE_Inr_iff need_def capture_model_descriptors fail_def split: option.splits)
  have "kept_contract (vm_name m) (decimal (vm_version m)) (contract_json v m)"
    using assms(3,4) by (auto simp: kept_contract_def)
  from kept_ins [OF assms(2) vs this] e show ?thesis by simp
qed

lemma keep_models_kept:
  assumes "efold (keep_model x (descriptors v)) (map model_json ms) entries = Inr entries'"
    and "kept kept_contract entries" and "schema_ok (schema_of v)" and "set ms \<subseteq> set (vd_models v)"
  shows "kept kept_contract entries'"
  using assms
proof (induction ms arbitrary: entries)
  case (Cons m ms)
  then obtain mid where mid: "keep_model x (descriptors v) (model_json m) entries = Inr mid"
    and rest: "efold (keep_model x (descriptors v)) (map model_json ms) mid = Inr entries'"
    by (auto simp: bindE_Inr_iff)
  from Cons.prems(4) have "m \<in> set (vd_models v)" by simp
  from Cons.IH [OF rest keep_model_kept [OF mid Cons.prems(2,3) this]] Cons.prems show ?case by simp
qed simp

section \<open>The server starts\<close>

lemma schema_ok_policies: "schema_ok (s\<lparr>s_policies := ps\<rparr>) \<longleftrightarrow> schema_ok s"
proof -
  have "type_ok (s\<lparr>s_policies := ps\<rparr>) t = type_ok s t" for t by (cases t) simp_all
  then have "model_ok (s\<lparr>s_policies := ps\<rparr>) m = model_ok s m" for m
    by (simp add: model_ok_def field_ok_def)
  moreover have "model_of (s\<lparr>s_policies := ps\<rparr>) n = model_of s n" for n by (simp add: model_of_def)
  ultimately show ?thesis by (simp add: schema_ok_def requirement_ok_def relation_ok_def)
qed

lemma servable_checked:
  assumes "servable m"
  shows "check_mutation c m seen = Inr b \<longleftrightarrow>
    (sm_name m, sm_version m) \<notin> set seen \<and> b = bs_ins (sm_name m, sm_version m) seen"
  using assms
  by (auto simp: servable_def check_mutation_def bindE_Inr_iff ensure_Inr_iff sres_Inr_iff input_schema_def
      validate_ok_iff is_ok_iff)

lemma servable_bindings:
  "servable m \<Longrightarrow> echeck (\<lambda>sl. echeck (check_binding (input_schema c m) m sl) (sl_bindings sl)) (sm_slots m) = Inr ()"
  by (auto simp: servable_def input_schema_def echeck_Inr_iff)

text \<open>A configuration of servable mutations, and of contracts of the models as they are now.\<close>

definition contract_fits :: "schema \<Rightarrow> contract \<Rightarrow> bool" where
  "contract_fits s ct \<longleftrightarrow> positive_counter (ct_version ct) \<and> schema_ok (contract_schema ct) \<and>
     (\<exists>m. model_of s (ct_name ct) = Inr m \<and> ct_identity ct = m_identity m)"

lemma check_contract_fits:
  "contract_fits s ct \<Longrightarrow> check_contract s ct seen = Inr b \<longleftrightarrow>
    (ct_name ct, ct_version ct) \<notin> set seen \<and> b = bs_ins (ct_name ct, ct_version ct) seen"
  by (auto simp: contract_fits_def check_contract_def bindE_Inr_iff ensure_Inr_iff sres_Inr_iff validate_ok_iff)

lemma config_decode_ok:
  assumes "schema_ok (cf_schema c)"
    and "\<forall>m \<in> set (cf_mutations c). servable m" and "distinct (map (\<lambda>m. (sm_name m, sm_version m)) (cf_mutations c))"
    and "\<forall>l \<in> set (cf_loaders c). is_ok (model_of (cf_schema c) l)"
    and "\<forall>ct \<in> set (cf_models c). contract_fits (cf_schema c) ct"
    and "distinct (map (\<lambda>ct. (ct_name ct, ct_version ct)) (cf_models c))"
    and "\<forall>m \<in> set (s_models (cf_schema c)). \<exists>ct \<in> set (cf_models c). ct_name ct = m_name m \<and> ct_version ct = m_version m"
  shows "config_decode c = Inr c"
proof -
  have models: "cf_models c \<noteq> []" using assms(1,7) by (cases "s_models (cf_schema c)") (auto simp: schema_ok_def)
  obtain seen where "efold (check_mutation c) (cf_mutations c) [] = Inr seen"
    using efold_bs_ins_ok [of "cf_mutations c" "check_mutation c" "\<lambda>_. True" "\<lambda>m. (sm_name m, sm_version m)" "[]"]
      servable_checked assms(2,3) by auto
  moreover have "echeck (\<lambda>m. echeck (\<lambda>sl. echeck (check_binding (input_schema c m) m sl) (sl_bindings sl)) (sm_slots m))
      (cf_mutations c) = Inr ()"
    unfolding echeck_Inr_iff [of _ "cf_mutations c"] using servable_bindings assms(2) by blast
  moreover have "echeck (\<lambda>l. bindE (sres config_code (model_of (cf_schema c) l)) (\<lambda>_. Inr ())) (cf_loaders c) = Inr ()"
    using assms(4) by (fastforce simp: echeck_Inr_iff is_ok_iff sres_def)
  moreover obtain retained where r: "efold (check_contract (cf_schema c)) (cf_models c) [] = Inr retained"
    "set retained = (\<lambda>ct. (ct_name ct, ct_version ct)) ` set (cf_models c)"
  proof -
    have iff: "check_contract (cf_schema c) ct a = Inr b \<longleftrightarrow> True \<and> (ct_name ct, ct_version ct) \<notin> set a \<and>
        b = bs_ins (ct_name ct, ct_version ct) a" if "ct \<in> set (cf_models c)" for ct a b
      using check_contract_fits assms(5) that by simp
    have "efold (check_contract (cf_schema c)) (cf_models c) [] =
        Inr (fold bs_ins (map (\<lambda>ct. (ct_name ct, ct_version ct)) (cf_models c)) [])"
      using efold_bs_ins [where key = "\<lambda>ct. (ct_name ct, ct_version ct)" and f = "check_contract (cf_schema c)"
        and xs = "cf_models c" and acc = "[]" and P = "\<lambda>_. True", OF iff] assms(6) by simp
    from that [OF this] show thesis by simp
  qed
  moreover have "echeck (\<lambda>m. ensure ((m_name m, m_version m) \<in> set retained)
      (config_bad (''model '' @ m_name m @ '' v'' @ decimal (m_version m) @ '' is not a retained contract'')))
      (s_models (cf_schema c)) = Inr ()"
  proof -
    have "(m_name m, m_version m) \<in> set retained" if m: "m \<in> set (s_models (cf_schema c))" for m
    proof -
      from assms(7) m obtain ct where "ct \<in> set (cf_models c)" "ct_name ct = m_name m" "ct_version ct = m_version m" by blast
      with r(2) show ?thesis by (auto simp: image_iff intro: bexI [of _ ct])
    qed
    then show ?thesis by (simp add: echeck_Inr_iff)
  qed
  moreover have "validate (cf_schema c) = Inr ()" using assms(1) by (simp add: validate_ok_iff)
  ultimately show ?thesis
    using models by (simp add: config_decode_def Let_def sres_def)
qed

section \<open>What a build writes\<close>

lemma history_entries_obj: "history_entries key msg h = Inr entries \<Longrightarrow> index h key = JObj entries \<and> (\<exists>kvs. h = JObj kvs)"
  by (cases h; cases "index h key"; simp add: history_entries_def need_def fail_def index_def split: if_splits)

lemma history_start_none: "history_entries key msg (history_start key None) = Inr entries \<Longrightarrow> key \<noteq> ''formatVersion'' \<Longrightarrow> entries = []"
  by (drule history_entries_obj) (auto simp: history_start_def index_obj)

text \<open>The backend's parts, as the server's decoder finds them.\<close>

lemma wire_remove: "wire_field names (remove_key v k) k' = (if k = k' \<and> is_object v then None else wire_field names v k')"
  by (cases v) (auto simp: wire_field_def is_object_def bt.get_del_same bt.get_del_other)

lemma descriptors_obj: "\<exists>kvs. descriptors v = obj kvs"
  by (auto simp: descriptors_def)

lemma assembled_backend:
  assumes "assemble (descriptors v) h k = Inr out"
  obtains historical contracts where "retained h ''mutations'' = Inr historical" and "retained k ''models'' = Inr contracts"
    and "decode_config (ou_backend out) =
      bindE (decode_list decode_server_mutation (JArr historical))
        (\<lambda>ms. bindE (decode_list decode_contract (JArr contracts))
        (\<lambda>cs. Inr \<lparr>cf_schema = (schema_of v)\<lparr>s_policies := historical\<rparr>, cf_mutations = ms,
          cf_loaders = map vm_name (vd_models v), cf_models = cs\<rparr>))"
    and "ou_history out = h" and "ou_models out = k"
proof -
  from assms obtain historical contracts where r: "retained h ''mutations'' = Inr historical" "retained k ''models'' = Inr contracts"
    and out: "ou_history out = h" "ou_models out = k"
    and backend: "ou_backend out = (let c1 = set_key (descriptors v) ''backendMutations'' (JArr historical);
            c2 = set_key c1 ''schema'' (set_key (index c1 ''schema'') ''clientPolicies'' (JArr historical));
            c3 = set_key c2 ''backendModels'' (JArr contracts);
            backend = set_key (set_key c3 ''mutations'' (JArr historical)) ''models'' (index c3 ''backendModels'') in
        remove_key (remove_key backend ''backendMutations'') ''backendModels'')"
    by (auto simp: assemble_def bindE_Inr_iff Let_def)
  let ?schema = "obj ([(''models'', JArr (map model_json (vd_models v))),
     (''enums'', JArr (map enum_json (vd_enums v))),
     (''requirements'', JArr (map requirement_json (vd_requirements v))),
     (''prerequisites'', JArr (map prerequisite_json (vd_prerequisites v))),
     (''clientPolicies'', JArr (map v_mutation_json (vd_mutations v))), (''clientPolicies'', JArr historical)])"
  have schema: "decode_schema ?schema = Inr ((schema_of v)\<lparr>s_policies := historical\<rparr>)"
    by (simp add: decode_schema_def schema_of_def decoding decode_list_map decode_values
        decode_list_map [of _ _ _ id, simplified])
  have fields: "wire_field names (ou_backend out) ''schema'' = Some ?schema"
    "wire_field names (ou_backend out) ''mutations'' = Some (JArr historical)"
    "wire_field names (ou_backend out) ''loaders'' = Some (jstrs (map vm_name (vd_models v)))"
    "wire_field names (ou_backend out) ''models'' = Some (JArr contracts)" for names
    unfolding backend
    by (simp_all add: Let_def descriptors_def set_key_obj wire_remove wire_obj index_obj schema_json_def)
  have "\<exists>kvs. ou_backend out = JObj kvs"
    unfolding backend by (simp add: Let_def descriptors_def set_key_obj) (simp add: obj_def)
  then have "shaped config_names (ou_backend out) = Inr ()" by (auto simp: shaped_def wire_shape_def)
  then have "decode_config (ou_backend out) =
      bindE (decode_list decode_server_mutation (JArr historical))
        (\<lambda>ms. bindE (decode_list decode_contract (JArr contracts))
        (\<lambda>cs. Inr \<lparr>cf_schema = (schema_of v)\<lparr>s_policies := historical\<rparr>, cf_mutations = ms,
          cf_loaders = map vm_name (vd_models v), cf_models = cs\<rparr>))"
    by (simp add: decode_config_def needed_def defaulted_def fields schema)
  with r out that show thesis by blast
qed

section \<open>Build after build\<close>

text \<open>What a build checked: the declarations of its source. Its bindings are captured when every
  one of its mutations carries the fields its slots are bound by.\<close>

definition source_of :: "command \<Rightarrow> string" where
  "source_of c = fst (join_sources (cl_sources c) [] [])"

definition checked_source :: "ext \<Rightarrow> command \<Rightarrow> validated option" where
  "checked_source x c = (case parse x (source_of c) of Inl _ \<Rightarrow> None
     | Inr d \<Rightarrow> (case validate_decls d of Inl _ \<Rightarrow> None | Inr v \<Rightarrow> Some v))"

definition captures_bindings :: "validated \<Rightarrow> bool" where
  "captures_bindings v \<longleftrightarrow> (\<forall>mu \<in> set (vd_mutations v). binds_captured (vd_models v) mu)"

definition servable_source :: "ext \<Rightarrow> command \<Rightarrow> bool" where
  "servable_source x c \<longleftrightarrow> (case checked_source x c of None \<Rightarrow> False | Some v \<Rightarrow> captures_bindings v)"

text \<open>A history file holds what the previous build wrote.\<close>

definition holds :: "ext \<Rightarrow> text_file \<Rightarrow> json \<Rightarrow> bool" where
  "holds x f v \<longleftrightarrow> (\<exists>t. snd f = Some t \<and> from_str x t = Inr v)"

text \<open>Build after build: the commands, newest first, and what the last one wrote.\<close>

inductive built :: "ext \<Rightarrow> command list \<Rightarrow> outputs \<Rightarrow> bool" for x where
  first: "run_compiler x c = Inr out \<Longrightarrow> servable_source x c \<Longrightarrow>
     snd (cl_history c) = None \<Longrightarrow> snd (cl_superseded c) = None \<Longrightarrow> snd (cl_models c) = None \<Longrightarrow> built x [c] out"
| next_build: "built x cs prev \<Longrightarrow> run_compiler x c = Inr out \<Longrightarrow> servable_source x c \<Longrightarrow>
     holds x (cl_history c) (ou_history prev) \<Longrightarrow> holds x (cl_models c) (ou_models prev) \<Longrightarrow> built x (c # cs) out"

text \<open>The newest build that declares a version of a mutation, or of a model, as it was checked.\<close>

fun latest :: "(validated \<Rightarrow> 'a list) \<Rightarrow> ('a \<Rightarrow> string) \<Rightarrow> ('a \<Rightarrow> nat) \<Rightarrow> ext \<Rightarrow> command list \<Rightarrow> string \<Rightarrow> nat \<Rightarrow>
    (validated \<times> 'a) option" where
  "latest items nm ver x [] n k = None"
| "latest items nm ver x (c # cs) n k = (case checked_source x c of None \<Rightarrow> latest items nm ver x cs n k
     | Some v \<Rightarrow> (case item_at nm ver (items v) n k of Some a \<Rightarrow> Some (v, a)
         | None \<Rightarrow> latest items nm ver x cs n k))"

abbreviation latest_mutation :: "ext \<Rightarrow> command list \<Rightarrow> string \<Rightarrow> nat \<Rightarrow> (validated \<times> v_mutation) option" where
  "latest_mutation \<equiv> latest vd_mutations vt_name vt_version"

abbreviation latest_model :: "ext \<Rightarrow> command list \<Rightarrow> string \<Rightarrow> nat \<Rightarrow> (validated \<times> v_model) option" where
  "latest_model \<equiv> latest vd_models vm_name vm_version"

lemma compile_files_Inr: "compile_files x files = Inr c \<Longrightarrow> compile x (fst (join_sources files [] [])) = Inr c"
  by (auto simp: compile_files_def relabel_def fail_def bindE_Inr_iff Let_def split: prod.splits sum.splits stop.splits)

lemma run_compiler_Inr:
  assumes "run_compiler x c = Inr out"
  obtains d v previous previous_models h k where "checked_source x c = Some v" and "validate_decls d = Inr v" and "made d"
    and "read_json x (if relocates c then cl_superseded c else cl_history c) = Inr previous"
    and "reconcile_history x (descriptors v) previous = Inr h"
    and "read_json x (cl_models c) = Inr previous_models"
    and "reconcile_model_history x (descriptors v) previous_models = Inr k"
    and "assemble (descriptors v) h k = Inr out"
proof -
  from assms(1) obtain config previous previous_models h k where c: "compile_files x (cl_sources c) = Inr config"
    and rest: "read_json x (if relocates c then cl_superseded c else cl_history c) = Inr previous"
      "reconcile_history x config previous = Inr h" "read_json x (cl_models c) = Inr previous_models"
      "reconcile_model_history x config previous_models = Inr k" "assemble config h k = Inr out"
    by (auto simp: run_compiler_def bindE_Inr_iff)
  from compile_files_Inr [OF c] obtain d v where "parse x (source_of c) = Inr d" "validate_decls d = Inr v" "config = descriptors v"
    unfolding source_of_def by (rule compile_Inr)
  with rest show thesis by (auto simp: checked_source_def intro: that dest: parse_made)
qed

lemma mutation_names:
  assumes "validate_decls d = Inr v" and "made d"
  shows "distinct (map vt_name (vd_mutations v))"
proof -
  let ?z = "zip (vd_mutations v) (dc_mutations d)"
  from assms(1) have "is_ok (efold (check_mutation_decl (vd_models v)) ?z [])" by (rule validated_parts)
  then obtain acc where acc: "efold (check_mutation_decl (vd_models v)) ?z [] = Inr acc" by (auto simp: is_ok_iff)
  have "distinct (map (\<lambda>md. vt_name (fst md)) z) \<and> (\<forall>md \<in> set z. vt_name (fst md) \<notin> set seen)"
    if "efold (check_mutation_decl (vd_models v)) z seen = Inr acc" for z seen acc
    using that
  proof (induction z arbitrary: seen)
    case (Cons md z)
    obtain m decl where md: "md = (m, decl)" by (rule prod.exhaust)
    from Cons.prems obtain b where b: "check_mutation_decl (vd_models v) (m, decl) seen = Inr b"
      and rest: "efold (check_mutation_decl (vd_models v)) z b = Inr acc"
      by (auto simp: md bindE_Inr_iff)
    from b have m: "vt_name m \<notin> set seen" "b = bs_ins (vt_name m) seen"
      by (auto simp: check_mutation_decl_def bindE_Inr_iff)
    from Cons.IH [OF rest] m md show ?case by auto
  qed simp
  from this [OF acc] have "distinct (map vt_name (map fst ?z))" by (simp add: comp_def)
  with list_all2_lengthD [OF validated_from [OF assms]] show ?thesis by simp
qed

definition histories_kept :: "outputs \<Rightarrow> bool" where
  "histories_kept out \<longleftrightarrow>
     (\<exists>entries. index (ou_history out) ''mutations'' = JObj entries \<and> kept kept_input entries) \<and>
     (\<exists>entries. index (ou_models out) ''models'' = JObj entries \<and> kept kept_contract entries)"

text \<open>What the histories a build starts from hold: nothing, or what an earlier build kept.\<close>

definition start_kept :: "json option \<Rightarrow> json option \<Rightarrow> bool" where
  "start_kept previous previous_models \<longleftrightarrow>
     (\<forall>h. previous = Some h \<longrightarrow> (\<exists>entries. index h ''mutations'' = JObj entries \<and> kept kept_input entries)) \<and>
     (\<forall>h. previous_models = Some h \<longrightarrow> (\<exists>entries. index h ''models'' = JObj entries \<and> kept kept_contract entries))"

lemma start_entries:
  assumes "history_entries key msg (history_start key previous) = Inr entries" and "key \<noteq> ''formatVersion''"
    and "\<forall>h. previous = Some h \<longrightarrow> (\<exists>entries. index h key = JObj entries \<and> kept P entries)"
  shows "kept P entries"
proof (cases previous)
  case None
  with history_start_none [of key msg entries] assms(1,2) show ?thesis by (simp add: kept_Nil)
next
  case (Some h)
  with history_entries_obj [OF assms(1)] assms(3) show ?thesis by (auto simp: history_start_def)
qed

lemma start_at:
  assumes "history_entries key msg (history_start key previous) = Inr entries" and "key \<noteq> ''formatVersion''"
  shows "entry_at entries n k = Option.bind previous (\<lambda>h. kept_at key h n k)"
proof (cases previous)
  case None
  with history_start_none [of key msg entries] assms show ?thesis by (simp add: entry_at_def)
next
  case (Some h)
  with history_entries_obj [OF assms(1)] show ?thesis by (simp add: history_start_def kept_at_def entry_at_def)
qed

lemma reconcile_kept:
  assumes "reconcile_history x (descriptors v) previous = Inr h"
    and "\<forall>mu \<in> set (vd_mutations v). servable (mutation_desc_of v mu)" and "start_kept previous pm"
    and "distinct (map vt_name (vd_mutations v))"
  obtains entries where "index h ''mutations'' = JObj entries" and "kept kept_input entries"
    and "\<And>n k. entry_at entries n k = (case item_at vt_name vt_version (vd_mutations v) n k of
      Some mu \<Rightarrow> Some (snapshot_json v mu)
    | None \<Rightarrow> Option.bind previous (\<lambda>h. kept_at ''mutations'' h n k))"
proof -
  let ?h = "history_start ''mutations'' previous"
  from assms(1) obtain entries entries' where
      e: "history_entries ''mutations'' ''unsupported mutation history format'' ?h = Inr entries"
    and e': "efold (keep_mutation (descriptors v)) (map v_mutation_json (vd_mutations v)) entries = Inr entries'"
    and h: "h = set_key ?h ''mutations'' (JObj entries')"
    by (auto simp: reconcile_history_def bindE_Inr_iff Let_def)
  have "kept kept_input entries" using assms(3) by (intro start_entries [OF e]) (auto simp: start_kept_def)
  from keep_mutations_kept [OF e' this assms(2)] have k: "kept kept_input entries'" .
  have before: "entry_at entries n k = Option.bind previous (\<lambda>h. kept_at ''mutations'' h n k)" for n k
    by (rule start_at [OF e]) simp
  have after: "entry_at entries' n k = (case item_at vt_name vt_version (vd_mutations v) n k of
      Some mu \<Rightarrow> Some (snapshot_json v mu) | None \<Rightarrow> Option.bind previous (\<lambda>h. kept_at ''mutations'' h n k))" for n k
    unfolding before [symmetric] by (rule entries_after [OF e' assms(4)]) (rule keep_mutation_entry)
  from history_entries_obj [OF e] h have "index h ''mutations'' = JObj entries'" by (auto simp: index_def)
  from that [OF this k after] show thesis .
qed

lemma reconcile_models_kept:
  assumes "reconcile_model_history x (descriptors v) previous = Inr k"
    and "schema_ok (schema_of v)" and "start_kept p previous"
  obtains entries where "index k ''models'' = JObj entries" and "kept kept_contract entries"
    and "\<And>n. n \<in> fst ` set entries \<Longrightarrow> n \<in> vm_name ` set (vd_models v)"
    and "\<And>m. m \<in> set (vd_models v) \<Longrightarrow> entry_at entries (vm_name m) (vm_version m) \<noteq> None"
    and "\<And>n k. entry_at entries n k = (case item_at vm_name vm_version (vd_models v) n k of
      Some m \<Rightarrow> Some (contract_json v m)
    | None \<Rightarrow> Option.bind previous (\<lambda>h. kept_at ''models'' h n k))"
    and "\<And>m j old. m \<in> set (vd_models v) \<Longrightarrow> entry_at entries (vm_name m) j = Some old \<Longrightarrow>
      index old ''identity'' = jstrs (vm_identity m)"
proof -
  let ?h = "history_start ''models'' previous"
  from assms(1) obtain entries entries' where
      e: "history_entries ''models'' ''unsupported model history format'' ?h = Inr entries"
    and removed: "\<forall>en \<in> set entries. not_removed ''model'' (map model_json (vd_models v)) en = Inr ()"
    and e': "efold (keep_model x (descriptors v)) (map model_json (vd_models v)) entries = Inr entries'"
    and k: "k = set_key ?h ''models'' (JObj entries')"
    by (auto simp: reconcile_model_history_def bindE_Inr_iff Let_def echeck_Inr_iff)
  have "kept kept_contract entries" using assms(3) by (intro start_entries [OF e]) (auto simp: start_kept_def)
  from keep_models_kept [OF e' this assms(2) subset_refl] have kept': "kept kept_contract entries'" .
  note each = keep_models [OF e' schema_of_names [OF assms(2)]]
  have names: "n \<in> vm_name ` set (vd_models v)" if n: "n \<in> fst ` set entries'" for n
  proof -
    have "fst ` set entries' \<subseteq> fst ` set entries \<union> vm_name ` set (vd_models v)"
    proof (rule efold_inv [where P = "\<lambda>es. fst ` set es \<subseteq> fst ` set entries \<union> vm_name ` set (vd_models v)", OF e'])
      fix mj a b assume mj: "mj \<in> set (map model_json (vd_models v))" and b: "keep_model x (descriptors v) mj a = Inr b"
        and a: "fst ` set a \<subseteq> fst ` set entries \<union> vm_name ` set (vd_models v)"
      from mj obtain m where m: "m \<in> set (vd_models v)" "mj = model_json m" by auto
      with b obtain w where "b = bt_ins (vm_name m) w a"
        by (auto simp: keep_model_def bindE_Inr_iff need_def fail_def split: option.splits)
      with a m(1) show "fst ` set b \<subseteq> fst ` set entries \<union> vm_name ` set (vd_models v)"
        by (simp add: set_keys_bt_ins)
    qed simp
    moreover have "fst ` set entries \<subseteq> vm_name ` set (vd_models v)"
      using removed by (force simp: not_removed_def unless_def fail_def split: if_splits)
    ultimately show ?thesis using n by blast
  qed
  have before: "entry_at entries n j = Option.bind previous (\<lambda>h. kept_at ''models'' h n j)" for n j
    by (rule start_at [OF e]) simp
  have after: "entry_at entries' n j = (case item_at vm_name vm_version (vd_models v) n j of
      Some m \<Rightarrow> Some (contract_json v m) | None \<Rightarrow> Option.bind previous (\<lambda>h. kept_at ''models'' h n j))" for n j
    unfolding before [symmetric]
    by (rule entries_after [OF e' schema_of_names [OF assms(2)]]) (rule keep_model_entry(1))
  from history_entries_obj [OF e] k have idx: "index k ''models'' = JObj entries'" by (auto simp: index_def)
  have own: "entry_at entries' (vm_name m) (vm_version m) \<noteq> None" if "m \<in> set (vd_models v)" for m
    using each(2) [OF that, of "vm_version m"] by simp
  have identity: "index old ''identity'' = jstrs (vm_identity m)"
    if "m \<in> set (vd_models v)" "entry_at entries' (vm_name m) j = Some old" for m j old
    using each(2,4) [OF that(1), of j] that(2) by (auto split: if_splits)
  from that [OF idx kept' names own after identity] show thesis .
qed

text \<open>The contract of a checked model is a schema the server checks, of that model's identity.\<close>

lemma contract_schema_ok:
  assumes s: "schema_ok (schema_of w)" and n: "n \<in> set (vd_models w)"
  shows "schema_ok (contract_schema (contract_desc w n))"
proof -
  let ?c = "contract_schema (contract_desc w n)"
  let ?m = "\<lparr>m_name = vm_name n, m_version = vm_version n, m_identity = vm_identity n,
    m_fields = map field_desc_of (vm_fields n), m_relations = [], m_unique = []\<rparr>"
  have c: "s_models ?c = [?m]" "s_enums ?c = used_enums w n" "s_requirements ?c = []"
    by (simp_all add: contract_schema_def contract_desc_def)
  from s n have mo: "model_ok (schema_of w) (model_desc_of n)" by (simp add: schema_ok_def schema_of_def)
  have "field_ok ?c f" if "f \<in> set (m_fields ?m)" for f
  proof -
    from that obtain g where g: "g \<in> set (vm_fields n)" "f = field_desc_of g" by auto
    with mo have fo: "field_ok (schema_of w) f" by (auto simp: model_ok_def model_desc_of_def)
    have "type_ok ?c (f_type f)"
    proof (cases "f_type f")
      case (TEnum name)
      with g have "Some name \<in> uses_enum ` set (vm_fields n)" by (force simp: uses_enum_def field_desc_of_def)
      with fo TEnum c(2) show ?thesis by (auto simp: field_ok_def schema_of_def used_enums_def)
    qed (use fo in \<open>auto simp: field_ok_def\<close>)
    with fo show ?thesis by (simp add: field_ok_def)
  qed
  moreover have "identity_ok ?m name = identity_ok (model_desc_of n) name" for name
    by (simp add: identity_ok_def field_of_def model_desc_of_def)
  ultimately have "model_ok ?c ?m"
    using mo by (simp add: model_ok_def model_desc_of_def)
  moreover have "distinct (map e_name (used_enums w n) @ [vm_name n])"
    using s n by (auto simp: schema_ok_def schema_of_def used_enums_def distinct_map_filter model_desc_of_def)
  moreover have "\<forall>e \<in> set (used_enums w n). enum_ok e"
    using s by (simp add: schema_ok_def schema_of_def used_enums_def)
  ultimately show ?thesis
    using c by (simp add: schema_ok_def)
qed

lemma kept_contract_decoded:
  assumes "kept_contract name k snap"
  shows "\<exists>ct. decode_contract snap = Inr ct \<and> ct_name ct = name \<and> k = decimal (ct_version ct) \<and>
    positive_counter (ct_version ct) \<and> schema_ok (contract_schema ct) \<and> index snap ''identity'' = jstrs (ct_identity ct)"
proof -
  from assms obtain w n where w: "snap = contract_json w n" "schema_ok (schema_of w)" "n \<in> set (vd_models w)"
      "vm_name n = name" "k = decimal (vm_version n)"
    by (auto simp: kept_contract_def)
  then have "model_ok (schema_of w) (model_desc_of n)" by (simp add: schema_ok_def schema_of_def)
  then have "positive_counter (vm_version n)"
    by (simp add: model_ok_def model_desc_of_def positive_counter_def read_counter_jnat)
  moreover have "index (contract_json w n) ''identity'' = jstrs (vm_identity n)" by (simp add: contract_json_def index_obj)
  ultimately show ?thesis
    using w contract_schema_ok [OF w(2,3)] by (simp add: decode_contract_json) (simp add: contract_desc_def)
qed

end
