(* ===== verification/Backends.thy ===== *)
theory Backends
  imports Builds
begin

text \<open>
  The compiler and the server together: the server starts on the backend of every build, and
  serves every mutation version and every read contract an earlier build published.
\<close>

section \<open>One build\<close>

lemma kept_weaken:
  assumes "kept P entries"
    and "\<And>name kvs k snap. map_of entries name = Some (JObj kvs) \<Longrightarrow> map_of kvs k = Some snap \<Longrightarrow>
      P name k snap \<Longrightarrow> P' name k snap"
  shows "kept P' entries"
proof -
  have "kept_entry P' e" if e: "e \<in> set entries" for e
  proof -
    obtain name vs where nv: "e = (name, vs)" by (cases e)
    from assms(1) e nv obtain kvs where kvs: "vs = JObj kvs" "bt_ok kvs" "list_all (\<lambda>kv. P name (fst kv) (snd kv)) kvs"
      by (auto simp: kept_def kept_entry_def list_all_iff)
    have "map_of entries name = Some (JObj kvs)"
      using assms(1) e nv kvs(1) bt_ok_distinct [of entries] by (simp add: kept_def)
    moreover have "map_of kvs k = Some snap" if "(k, snap) \<in> set kvs" for k snap
      using that bt_ok_distinct [OF kvs(2)] by simp
    ultimately have "P' name k snap" if "(k, snap) \<in> set kvs" for k snap
      using that assms(2) kvs(3) by (auto simp: list_all_iff)
    with kvs nv show ?thesis by (auto simp: kept_entry_def list_all_iff)
  qed
  with assms(1) show ?thesis by (auto simp: kept_def list_all_iff)
qed

lemma kept_at_entry: "index h key = JObj entries \<Longrightarrow> kept_at key h name version = entry_at entries name version"
  by (simp add: kept_at_def entry_at_def)

text \<open>The mutations of a kept history, as the server decodes them.\<close>

lemma kept_mutations_decoded:
  assumes "kept kept_input entries"
  obtains ms where "emap decode_server_mutation (concat (map entry_snapshots entries)) = Inr ms"
    and "\<forall>m \<in> set ms. servable m" and "distinct (map (\<lambda>m. (sm_name m, sm_version m)) ms)"
    and "\<And>m. m \<in> set ms \<longleftrightarrow>
      (\<exists>snap. entry_at entries (sm_name m) (sm_version m) = Some snap \<and> decode_server_mutation snap = Inr m)"
proof -
  from entries_decoded [OF assms, of decode_server_mutation sm_name sm_version servable]
  obtain ms where ms: "emap decode_server_mutation (concat (map entry_snapshots entries)) = Inr ms"
      "\<forall>m \<in> set ms. servable m" "distinct (map (\<lambda>m. (sm_name m, sm_version m)) ms)"
    unfolding kept_input_def by blast
  have "m \<in> set ms \<longleftrightarrow>
      (\<exists>snap. entry_at entries (sm_name m) (sm_version m) = Some snap \<and> decode_server_mutation snap = Inr m)" for m
    by (rule entries_exact [OF assms ms(1)]) (auto simp: kept_input_def)
  with that ms show thesis by blast
qed

lemma kept_contracts_decoded:
  assumes k: "kept kept_contract entries"
    and names: "\<And>n. n \<in> fst ` set entries \<Longrightarrow> n \<in> vm_name ` set (vd_models v)"
    and identity: "\<And>m j old. m \<in> set (vd_models v) \<Longrightarrow> entry_at entries (vm_name m) j = Some old \<Longrightarrow>
      index old ''identity'' = jstrs (vm_identity m)"
    and s: "schema_ok (schema_of v)"
  obtains cts where "emap decode_contract (concat (map entry_snapshots entries)) = Inr cts"
    and "\<forall>ct \<in> set cts. contract_fits (schema_of v) ct" and "distinct (map (\<lambda>ct. (ct_name ct, ct_version ct)) cts)"
    and "\<And>name j. entry_at entries name j \<noteq> None \<Longrightarrow> \<exists>ct \<in> set cts. ct_name ct = name \<and> ct_version ct = j"
    and "\<And>ct. ct \<in> set cts \<longleftrightarrow>
      (\<exists>snap. entry_at entries (ct_name ct) (ct_version ct) = Some snap \<and> decode_contract snap = Inr ct)"
proof -
  let ?P = "\<lambda>name k snap. \<exists>ct. decode_contract snap = Inr ct \<and> ct_name ct = name \<and> k = decimal (ct_version ct) \<and>
    contract_fits (schema_of v) ct"
  have kept: "kept ?P entries"
  proof (rule kept_weaken [OF k])
    fix name kvs j snap
    assume at: "map_of entries name = Some (JObj kvs)" "map_of kvs j = Some snap" and kc: "kept_contract name j snap"
    from kept_contract_decoded [OF kc] obtain ct where ct: "decode_contract snap = Inr ct" "ct_name ct = name"
        "j = decimal (ct_version ct)" "positive_counter (ct_version ct)" "schema_ok (contract_schema ct)"
        "index snap ''identity'' = jstrs (ct_identity ct)" by blast
    from at(1) have "name \<in> fst ` set entries" by (metis fst_conv imageI map_of_SomeD)
    from names [OF this] obtain m where m: "m \<in> set (vd_models v)" "vm_name m = name" by auto
    have "v_model_of (vd_models v) name = Some m"
      unfolding v_model_of_def using schema_of_names [OF s] m by (intro find_distinct) auto
    then have "model_of (schema_of v) name = Inr (model_desc_of m)" by (rule v_model_of_desc)
    moreover have "entry_at entries (vm_name m) (ct_version ct) = Some snap"
      using at ct(3) m(2) by (simp add: entry_at_def)
    with identity [OF m(1)] ct(6) have "ct_identity ct = m_identity (model_desc_of m)" by (simp add: model_desc_of_def)
    ultimately have "contract_fits (schema_of v) ct" using ct by (simp add: contract_fits_def)
    with ct show "?P name j snap" by blast
  qed
  from entries_decoded [OF kept, of decode_contract ct_name ct_version "contract_fits (schema_of v)"]
  obtain cts where cts: "emap decode_contract (concat (map entry_snapshots entries)) = Inr cts"
      "\<forall>ct \<in> set cts. contract_fits (schema_of v) ct" "distinct (map (\<lambda>ct. (ct_name ct, ct_version ct)) cts)"
      "\<And>name j. entry_at entries name j \<noteq> None \<Longrightarrow> \<exists>ct \<in> set cts. ct_name ct = name \<and> ct_version ct = j" by blast
  have "ct \<in> set cts \<longleftrightarrow>
      (\<exists>snap. entry_at entries (ct_name ct) (ct_version ct) = Some snap \<and> decode_contract snap = Inr ct)" for ct
    by (rule entries_exact [OF kept cts(1)]) auto
  with that cts show thesis by blast
qed

text \<open>
  What a server started on a backend serves: the mutations and the read contracts of the two
  histories behind it, and nothing else.
\<close>

definition serves :: "outputs \<Rightarrow> config \<Rightarrow> bool" where
  "serves out c \<longleftrightarrow>
     (\<forall>m. m \<in> set (cf_mutations c) \<longleftrightarrow>
        (\<exists>snap. kept_at ''mutations'' (ou_history out) (sm_name m) (sm_version m) = Some snap \<and>
           decode_server_mutation snap = Inr m)) \<and>
     (\<forall>ct. ct \<in> set (cf_models c) \<longleftrightarrow>
        (\<exists>snap. kept_at ''models'' (ou_models out) (ct_name ct) (ct_version ct) = Some snap \<and>
           decode_contract snap = Inr ct)) \<and>
     distinct (map (\<lambda>ct. (ct_name ct, ct_version ct)) (cf_models c))"

text \<open>The histories hold exactly what the builds published, each version as it was last checked.\<close>

definition histories_exact :: "ext \<Rightarrow> command list \<Rightarrow> outputs \<Rightarrow> bool" where
  "histories_exact x cs out \<longleftrightarrow>
     (\<forall>n k. kept_at ''mutations'' (ou_history out) n k = map_option (\<lambda>(v, mu). snapshot_json v mu) (latest_mutation x cs n k)) \<and>
     (\<forall>n k. kept_at ''models'' (ou_models out) n k = map_option (\<lambda>(v, m). contract_json v m) (latest_model x cs n k))"

lemma one_build:
  assumes v: "validate_decls d = Inr v" and d: "made d" and captured: "captures_bindings v"
    and h: "reconcile_history x (descriptors v) previous = Inr h"
    and k: "reconcile_model_history x (descriptors v) previous_models = Inr k"
    and out: "assemble (descriptors v) h k = Inr out" and start: "start_kept previous previous_models"
  shows "histories_kept out" and "\<exists>c. config_from_value (ou_backend out) = Inr c \<and> serves out c"
    and "\<And>n j. kept_at ''mutations'' (ou_history out) n j = (case item_at vt_name vt_version (vd_mutations v) n j of
      Some mu \<Rightarrow> Some (snapshot_json v mu) | None \<Rightarrow> Option.bind previous (\<lambda>h. kept_at ''mutations'' h n j))"
    and "\<And>n j. kept_at ''models'' (ou_models out) n j = (case item_at vm_name vm_version (vd_models v) n j of
      Some m \<Rightarrow> Some (contract_json v m) | None \<Rightarrow> Option.bind previous_models (\<lambda>h. kept_at ''models'' h n j))"
proof -
  from v have s: "schema_ok (schema_of v)" by (metis core_check_ok schema_of_model validated_parts)
  have serv: "\<forall>mu \<in> set (vd_mutations v). servable (mutation_desc_of v mu)"
    using snapshot_servable [OF v d(1)] captured by (simp add: captures_bindings_def)
  obtain es where es: "index h ''mutations'' = JObj es" "kept kept_input es"
      "\<And>n j. entry_at es n j = (case item_at vt_name vt_version (vd_mutations v) n j of
        Some mu \<Rightarrow> Some (snapshot_json v mu) | None \<Rightarrow> Option.bind previous (\<lambda>h. kept_at ''mutations'' h n j))"
    by (rule reconcile_kept [OF h serv start mutation_names [OF v d]]) blast
  obtain ks where ks: "index k ''models'' = JObj ks" "kept kept_contract ks"
      "\<And>n. n \<in> fst ` set ks \<Longrightarrow> n \<in> vm_name ` set (vd_models v)"
      "\<And>m. m \<in> set (vd_models v) \<Longrightarrow> entry_at ks (vm_name m) (vm_version m) \<noteq> None"
      "\<And>n j. entry_at ks n j = (case item_at vm_name vm_version (vd_models v) n j of
        Some m \<Rightarrow> Some (contract_json v m) | None \<Rightarrow> Option.bind previous_models (\<lambda>h. kept_at ''models'' h n j))"
      "\<And>m j old. m \<in> set (vd_models v) \<Longrightarrow> entry_at ks (vm_name m) j = Some old \<Longrightarrow>
        index old ''identity'' = jstrs (vm_identity m)"
    by (rule reconcile_models_kept [OF k s start]) blast
  obtain ms where ms:
      "emap decode_server_mutation (concat (map entry_snapshots es)) = Inr ms"
      "\<forall>m \<in> set ms. servable m" "distinct (map (\<lambda>m. (sm_name m, sm_version m)) ms)"
      "\<And>m. m \<in> set ms \<longleftrightarrow>
        (\<exists>snap. entry_at es (sm_name m) (sm_version m) = Some snap \<and> decode_server_mutation snap = Inr m)"
    by (rule kept_mutations_decoded [OF es(2)]) blast
  obtain cts where cts:
      "emap decode_contract (concat (map entry_snapshots ks)) = Inr cts"
      "\<forall>ct \<in> set cts. contract_fits (schema_of v) ct" "distinct (map (\<lambda>ct. (ct_name ct, ct_version ct)) cts)"
      "\<And>name j. entry_at ks name j \<noteq> None \<Longrightarrow> \<exists>ct \<in> set cts. ct_name ct = name \<and> ct_version ct = j"
      "\<And>ct. ct \<in> set cts \<longleftrightarrow>
        (\<exists>snap. entry_at ks (ct_name ct) (ct_version ct) = Some snap \<and> decode_contract snap = Inr ct)"
    by (rule kept_contracts_decoded [OF ks(2) _ _ s]) (use ks(3,6) in blast)+
  from assembled_backend [OF out] obtain hs ct_js where backend: "retained h ''mutations'' = Inr hs"
      "retained k ''models'' = Inr ct_js"
      "decode_config (ou_backend out) =
        bindE (decode_list decode_server_mutation (JArr hs))
          (\<lambda>ms. bindE (decode_list decode_contract (JArr ct_js))
          (\<lambda>cs. Inr \<lparr>cf_schema = (schema_of v)\<lparr>s_policies := hs\<rparr>, cf_mutations = ms,
            cf_loaders = map vm_name (vd_models v), cf_models = cs\<rparr>))"
      and kept_out: "ou_history out = h" "ou_models out = k" .
  from kept_out es ks(1,2) show "histories_kept out" by (auto simp: histories_kept_def)
  show "kept_at ''mutations'' (ou_history out) n j = (case item_at vt_name vt_version (vd_mutations v) n j of
      Some mu \<Rightarrow> Some (snapshot_json v mu) | None \<Rightarrow> Option.bind previous (\<lambda>h. kept_at ''mutations'' h n j))" for n j
    unfolding kept_out kept_at_entry [OF es(1)] by (rule es(3))
  show "kept_at ''models'' (ou_models out) n j = (case item_at vm_name vm_version (vd_models v) n j of
      Some m \<Rightarrow> Some (contract_json v m) | None \<Rightarrow> Option.bind previous_models (\<lambda>h. kept_at ''models'' h n j))" for n j
    unfolding kept_out kept_at_entry [OF ks(1)] by (rule ks(5))
  let ?c = "\<lparr>cf_schema = (schema_of v)\<lparr>s_policies := hs\<rparr>, cf_mutations = ms,
    cf_loaders = map vm_name (vd_models v), cf_models = cts\<rparr>"
  from retained_kept [OF es(2,1)] retained_kept [OF ks(2,1)] backend(1,2)
  have "hs = concat (map entry_snapshots es)" "ct_js = concat (map entry_snapshots ks)" by simp_all
  with backend(3) ms(1) cts(1) have c: "decode_config (ou_backend out) = Inr ?c" by (simp add: decode_list_def)
  have models: "model_of (cf_schema ?c) n = model_of (schema_of v) n" for n by (simp add: model_of_def)
  have "config_decode ?c = Inr ?c"
  proof (rule config_decode_ok)
    show "schema_ok (cf_schema ?c)" using s by (simp add: schema_ok_policies)
    show "\<forall>l \<in> set (cf_loaders ?c). is_ok (model_of (cf_schema ?c) l)"
      unfolding models using v_model_of_desc find_distinct [OF schema_of_names [OF s]]
      by (fastforce simp: v_model_of_def is_ok_iff)
    show "\<forall>ct \<in> set (cf_models ?c). contract_fits (cf_schema ?c) ct"
      using cts(2) by (simp add: contract_fits_def models [simplified])
    show "\<forall>m \<in> set (s_models (cf_schema ?c)). \<exists>ct \<in> set (cf_models ?c). ct_name ct = m_name m \<and> ct_version ct = m_version m"
      using ks(4) cts(4) by (fastforce simp: schema_of_def model_desc_of_def)
  qed (use ms(2,3) cts(3) in simp_all)
  with c have "config_from_value (ou_backend out) = Inr ?c" by (simp add: config_from_value_def sres_def)
  moreover have "serves out ?c"
    unfolding serves_def kept_out kept_at_entry [OF es(1)] kept_at_entry [OF ks(1)]
    using ms(4) cts(3,5) by simp
  ultimately show "\<exists>c. config_from_value (ou_backend out) = Inr c \<and> serves out c" by blast
qed

section \<open>Build after build\<close>

lemma read_absent: "snd f = None \<Longrightarrow> read_json x f = Inr r \<Longrightarrow> r = None"
  by (simp add: read_json_def)

lemma read_held: "holds x f w \<Longrightarrow> read_json x f = Inr r \<Longrightarrow> r = Some w"
  by (auto simp: read_json_def holds_def)

text \<open>What a build starts from is what an earlier build kept.\<close>

lemma built_starts:
  assumes "built x cs out"
  shows "histories_kept out \<and> histories_exact x cs out \<and>
    (\<exists>c. config_from_value (ou_backend out) = Inr c \<and> serves out c)"
  using assms
proof (induction rule: built.induct)
  case (first c out)
  then have "\<not> relocates c" by (simp add: relocates_def exists_file_def)
  from first(1) obtain d v previous previous_models h k where src: "checked_source x c = Some v" and
      b: "validate_decls d = Inr v" "made d"
      "read_json x (if relocates c then cl_superseded c else cl_history c) = Inr previous"
      "reconcile_history x (descriptors v) previous = Inr h" "read_json x (cl_models c) = Inr previous_models"
      "reconcile_model_history x (descriptors v) previous_models = Inr k" "assemble (descriptors v) h k = Inr out"
    by (rule run_compiler_Inr)
  from src first(2) have cap: "captures_bindings v" by (simp add: servable_source_def)
  from b(3,5) first(3,5) \<open>\<not> relocates c\<close> have none: "previous = None" "previous_models = None"
    by (auto dest!: read_absent)
  then have "start_kept previous previous_models" by (simp add: start_kept_def)
  note one = one_build [OF b(1,2) cap b(4,6,7) this]
  have "histories_exact x [c] out"
    using one(3,4) src by (simp add: histories_exact_def none split: option.splits)
  with one(1,2) show ?case by blast
next
  case (next_build cs prev c out)
  then have "\<not> relocates c" by (auto simp: relocates_def exists_file_def holds_def)
  from next_build(2) obtain d v previous previous_models h k where src: "checked_source x c = Some v" and
      b: "validate_decls d = Inr v" "made d"
      "read_json x (if relocates c then cl_superseded c else cl_history c) = Inr previous"
      "reconcile_history x (descriptors v) previous = Inr h" "read_json x (cl_models c) = Inr previous_models"
      "reconcile_model_history x (descriptors v) previous_models = Inr k" "assemble (descriptors v) h k = Inr out"
    by (rule run_compiler_Inr)
  from src next_build(3) have cap: "captures_bindings v" by (simp add: servable_source_def)
  from b(3,5) next_build(4,5) \<open>\<not> relocates c\<close>
  have some: "previous = Some (ou_history prev)" "previous_models = Some (ou_models prev)"
    by (auto dest!: read_held)
  with next_build(6) have "start_kept previous previous_models"
    by (auto simp: start_kept_def histories_kept_def)
  note one = one_build [OF b(1,2) cap b(4,6,7) this]
  have "histories_exact x (c # cs) out"
    using one(3,4) src next_build(6) by (simp add: histories_exact_def some split: option.splits)
  with one(1,2) show ?case by blast
qed

lemma latest_named: "latest items nm ver x cs n k = Some (v, a) \<Longrightarrow> nm a = n \<and> ver a = k"
  by (induction cs) (auto simp: item_at_def split: option.splits dest: find_Some_in)

lemma find_version:
  assumes "distinct (map (\<lambda>ct. (nm ct, ver ct)) cts)" and "ct \<in> set cts" and "nm ct = n" and "ver ct = k"
  shows "find (\<lambda>ct. nm ct = n \<and> ver ct = k) cts = Some ct"
  using assms by (induction cts) force+

text \<open>
  C32: the server starts on every backend and serves what was published, neither less nor more.
  Take any number of builds, each from the histories the one before wrote, of sources whose
  slots are bound by captured fields only. The server decodes the last backend and accepts it. Its
  mutations are, for every name and version any of the builds declared, the input captured by the
  newest of the builds that declared it; and its read contract of a model version is the one of
  the newest build that declared it.
\<close>

theorem built_backend_starts:
  assumes "built x cs out"
  shows "\<exists>c. config_from_value (ou_backend out) = Inr c \<and>
    (\<forall>m. m \<in> set (cf_mutations c) \<longleftrightarrow>
      (\<exists>v mu. latest_mutation x cs (sm_name m) (sm_version m) = Some (v, mu) \<and> m = mutation_desc_of v mu)) \<and>
    (\<forall>n k. contract_of c n k = map_option (\<lambda>(v, mo). contract_schema (contract_desc v mo)) (latest_model x cs n k))"
proof -
  from built_starts [OF assms] obtain c where e: "histories_exact x cs out"
    and c: "config_from_value (ou_backend out) = Inr c" "serves out c" by blast
  have "m \<in> set (cf_mutations c) \<longleftrightarrow>
      (\<exists>v mu. latest_mutation x cs (sm_name m) (sm_version m) = Some (v, mu) \<and> m = mutation_desc_of v mu)" for m
    using c(2) e by (auto simp: serves_def histories_exact_def decode_snapshot)
  moreover have "contract_of c n k = map_option (\<lambda>(v, mo). contract_schema (contract_desc v mo)) (latest_model x cs n k)" for n k
  proof (cases "latest_model x cs n k")
    case None
    with c(2) e have "ct_name ct \<noteq> n \<or> ct_version ct \<noteq> k" if "ct \<in> set (cf_models c)" for ct
      using that by (auto simp: serves_def histories_exact_def)
    then have "find (\<lambda>ct. ct_name ct = n \<and> ct_version ct = k) (cf_models c) = None"
      by (auto simp: find_None_iff)
    with None show ?thesis by (simp add: contract_of_def)
  next
    case (Some vm)
    then obtain v mo where vm: "latest_model x cs n k = Some (v, mo)" by (cases vm) simp
    from latest_named [OF this] have nk: "ct_name (contract_desc v mo) = n" "ct_version (contract_desc v mo) = k"
      by (simp_all add: contract_desc_def)
    with vm c(2) e have "contract_desc v mo \<in> set (cf_models c)"
      by (simp add: serves_def histories_exact_def decode_contract_json)
    from find_version [where nm = ct_name and ver = ct_version, OF _ this nk] c(2) vm show ?thesis
      by (simp add: contract_of_def serves_def)
  qed
  ultimately show ?thesis using c(1) by blast
qed

section \<open>A backend the server refuses\<close>

text \<open>The captured input of a declared mutation is in the backend, whatever the history held.\<close>

lemma own_snapshot:
  assumes v: "validate_decls d = Inr v" and d: "made d" and mu: "mu \<in> set (vd_mutations v)"
    and h: "reconcile_history x (descriptors v) previous = Inr h" and hs: "retained h ''mutations'' = Inr hs"
  shows "snapshot_json v mu \<in> set hs"
proof -
  let ?h = "history_start ''mutations'' previous"
  from h obtain entries entries' where
      e: "history_entries ''mutations'' ''unsupported mutation history format'' ?h = Inr entries"
    and e': "efold (keep_mutation (descriptors v)) (map v_mutation_json (vd_mutations v)) entries = Inr entries'"
    and h': "h = set_key ?h ''mutations'' (JObj entries')"
    by (auto simp: reconcile_history_def bindE_Inr_iff Let_def)
  have "item_at vt_name vt_version (vd_mutations v) (vt_name mu) (vt_version mu) = Some mu"
    unfolding item_at_def by (rule find_version [OF _ mu refl refl])
      (use mutation_names [OF v d] in \<open>auto simp: distinct_map inj_on_def\<close>)
  then have "entry_at entries' (vt_name mu) (vt_version mu) = Some (snapshot_json v mu)"
    using entries_after [OF e' mutation_names [OF v d] keep_mutation_entry] by simp
  then obtain vs where vs: "map_of entries' (vt_name mu) = Some vs" "get vs (decimal (vt_version mu)) = Some (snapshot_json v mu)"
    by (auto simp: entry_at_def split: Option.bind_splits)
  from vs(2) obtain kvs where "vs = JObj kvs" "map_of kvs (decimal (vt_version mu)) = Some (snapshot_json v mu)"
    by (cases vs) auto
  then have kvs: "vs = JObj kvs" "snapshot_json v mu \<in> snd ` set kvs" by (auto dest!: map_of_SomeD intro: rev_image_eqI)
  from history_entries_obj [OF e] h' have "index h ''mutations'' = JObj entries'" by (auto simp: index_def)
  with hs obtain vss where vss: "emap (\<lambda>kv. bindE (unwrap (as_object (snd kv))) (\<lambda>vs. Inr (map snd vs))) entries' = Inr vss"
    "hs = concat vss" by (auto simp: retained_def bindE_Inr_iff)
  have "map snd kvs \<in> set vss"
    unfolding emap_set [OF vss(1)] using map_of_SomeD [OF vs(1)] kvs(1) by (force simp: unwrap_def)
  moreover have "snapshot_json v mu \<in> set (map snd kvs)" using kvs(2) by simp
  ultimately show ?thesis unfolding vss(2) set_concat by blast
qed

text \<open>
  C35: a binding outside the captured input makes a backend that cannot start. The compiler
  accepts a slot bound by a reference whose fields are neither of the model's identity nor
  created or patched by a slot of the mutation on that model, as in a comment that is updated by
  its text and bound to its book. Whatever the histories, the server refuses every backend such
  a source is built to.
\<close>

theorem uncaptured_binding_refused:
  assumes "run_compiler x c = Inr out" and "checked_source x c = Some v" and "\<not> captures_bindings v"
  shows "\<exists>e. config_from_value (ou_backend out) = Inl e"
proof (rule ccontr)
  assume "\<nexists>e. config_from_value (ou_backend out) = Inl e"
  then obtain cfg where cfg: "config_from_value (ou_backend out) = Inr cfg" by (metis sum.exhaust)
  from assms(1) obtain d v' previous previous_models h k where "checked_source x c = Some v'" and
      b: "validate_decls d = Inr v'" "made d"
      "reconcile_history x (descriptors v') previous = Inr h" "assemble (descriptors v') h k = Inr out"
    by (rule run_compiler_Inr)
  with assms(2) have b: "validate_decls d = Inr v" "made d"
      "reconcile_history x (descriptors v) previous = Inr h" "assemble (descriptors v) h k = Inr out" by simp_all
  from b(1) have s: "schema_ok (schema_of v)" by (metis core_check_ok schema_of_model validated_parts)
  from assms(3) obtain mu sl bd f where mu: "mu \<in> set (vd_mutations v)" "sl \<in> set (vt_slots mu)"
      "bd \<in> set (vs_bindings sl)" "f \<in> set (vb_fields bd)" "\<not> field_captured (vd_models v) mu sl f"
    by (auto simp: captures_bindings_def binds_captured_def)
  obtain hs ct_js where backend: "retained h ''mutations'' = Inr hs"
      "decode_config (ou_backend out) =
        bindE (decode_list decode_server_mutation (JArr hs))
          (\<lambda>ms. bindE (decode_list decode_contract (JArr ct_js))
          (\<lambda>cs. Inr \<lparr>cf_schema = (schema_of v)\<lparr>s_policies := hs\<rparr>, cf_mutations = ms,
            cf_loaders = map vm_name (vd_models v), cf_models = cs\<rparr>))"
    by (rule assembled_backend [OF b(4)])
  from cfg obtain c0 where c0: "decode_config (ou_backend out) = Inr c0" "config_decode c0 = Inr cfg"
    by (auto simp: config_from_value_def bindE_Inr_iff sres_Inr_iff)
  from c0(1) backend(2) obtain ms where ms: "emap decode_server_mutation hs = Inr ms" "cf_mutations c0 = ms"
    by (auto simp: bindE_Inr_iff decode_list_def)
  let ?m = "mutation_desc_of v mu"
  have "?m \<in> set (cf_mutations c0)"
    unfolding ms(2) emap_set [OF ms(1)] using own_snapshot [OF b(1,2) mu(1) b(3) backend(1)] decode_snapshot by blast
  moreover have "slot_desc_of sl \<in> set (sm_slots ?m)" using mu(2) by (simp add: mutation_desc_of_def)
  moreover have "binding_desc_of bd \<in> set (sl_bindings (slot_desc_of sl))" using mu(3) by (simp add: slot_desc_of_def)
  moreover have "\<forall>m \<in> set (cf_mutations c0). \<forall>sl \<in> set (sm_slots m). \<forall>b \<in> set (sl_bindings sl).
      check_binding (input_schema c0 m) m sl b = Inr ()"
    using c0(2) by (auto simp: config_decode_def bindE_Inr_iff echeck_Inr_iff)
  ultimately have "check_binding (input_schema c0 ?m) ?m (slot_desc_of sl) (binding_desc_of bd) = Inr ()" by blast
  moreover have "input_schema c0 ?m = input_schema_desc v mu" by (simp add: input_schema_def mutation_desc_of_def)
  moreover from checked_mutation [OF b(1,2) mu(1)] obtain decl where
      "mutation_from (vd_models v) mu decl" "distinct (map vs_name (vt_slots mu))" .
  ultimately show False using check_binding_iff [OF s _ _ mu(2,3)] mu(4,5) by simp
qed

end
