(* ===== verification/CompilerRuns.thy ===== *)
theory CompilerRuns
  imports Backends Examples
begin

text \<open>
  The compiler on concrete sources: a first build, a second one that adds a nullable field to a
  published model, and a source whose backend the server refuses.
\<close>

section \<open>Two builds\<close>

definition tiny_source :: string where
  "tiny_source = ''model Note { id String text String @@id(id) }
mutation Add { note Note.create }''"

definition tiny_next :: string where
  "tiny_next = ''model Note { id String text String tag String? @@id(id) }
mutation Add { note Note.create }''"

definition files_of :: "string \<Rightarrow> json option \<Rightarrow> json option \<Rightarrow> command" where
  "files_of s history models = \<lparr>cl_sources = [(''a.model'', s)], cl_history = (''h'', map_option print_json history),
    cl_explicit = False, cl_initialize = False, cl_superseded = (''o'', None),
    cl_models = (''m'', map_option print_json models), cl_explicit_models = False, cl_initialize_models = False,
    cl_fence = (''f'', None)\<rparr>"

abbreviation first_files :: command where
  "first_files \<equiv> files_of tiny_source None None"

definition next_files :: "outputs \<Rightarrow> command" where
  "next_files out = files_of tiny_next (Some (ou_history out)) (Some (ou_models out))"

definition string_field :: "string \<Rightarrow> bool \<Rightarrow> field_desc" where
  "string_field n b = \<lparr>f_name = n, f_type = TScalar StString, f_nullable = b, f_default = None\<rparr>"

definition note_model :: model_desc where
  "note_model = \<lparr>m_name = ''Note'', m_version = 1, m_identity = [''id''],
     m_fields = [string_field ''id'' False, string_field ''text'' False], m_relations = [], m_unique = []\<rparr>"

definition tagged_contract :: contract where
  "tagged_contract = \<lparr>ct_name = ''Note'', ct_version = 1, ct_identity = [''id''],
     ct_fields = [string_field ''id'' False, string_field ''text'' False, string_field ''tag'' True], ct_enums = []\<rparr>"

definition keeps_tagged :: "outputs \<Rightarrow> bool" where
  "keeps_tagged out \<longleftrightarrow> (case kept_at ''models'' (ou_models out) ''Note'' 1 of None \<Rightarrow> False
     | Some snapshot \<Rightarrow> decode_contract snapshot = Inr tagged_contract)"

lemma tiny_next_note:
  "case checked_source x0 (files_of tiny_next None None) of None \<Rightarrow> False
   | Some v \<Rightarrow> item_at vm_name vm_version (vd_models v) ''Note'' 1 \<noteq> None"
  by code_simp

lemma tiny_compiles:
  "case compile x0 (source_of first_files) of Inl _ \<Rightarrow> False
   | Inr c \<Rightarrow> (case schema_from_value (index c ''schema'') of Inl _ \<Rightarrow> False
     | Inr s \<Rightarrow> model_of s ''Note'' = Inr note_model)"
  by code_simp

lemma two_builds:
  "case run_compiler x0 first_files of Inl _ \<Rightarrow> False
   | Inr out \<Rightarrow> servable_source x0 first_files \<and>
      from_str x0 (print_json (ou_history out)) = Inr (ou_history out) \<and>
      from_str x0 (print_json (ou_models out)) = Inr (ou_models out) \<and>
      (case run_compiler x0 (next_files out) of Inl _ \<Rightarrow> False
       | Inr out' \<Rightarrow> servable_source x0 (next_files out) \<and> keeps_tagged out')"
  by code_simp

definition first_out :: outputs where
  "first_out = (case run_compiler x0 first_files of Inr out \<Rightarrow> out | Inl _ \<Rightarrow> undefined)"

definition next_out :: outputs where
  "next_out = (case run_compiler x0 (next_files first_out) of Inr out \<Rightarrow> out | Inl _ \<Rightarrow> undefined)"

lemma builds:
  "run_compiler x0 first_files = Inr first_out" "servable_source x0 first_files"
  "run_compiler x0 (next_files first_out) = Inr next_out" "servable_source x0 (next_files first_out)"
  "from_str x0 (print_json (ou_history first_out)) = Inr (ou_history first_out)"
  "from_str x0 (print_json (ou_models first_out)) = Inr (ou_models first_out)"
  "keeps_tagged next_out"
  using two_builds by (auto simp: first_out_def next_out_def split: sum.splits)

lemma run_compiler_models:
  assumes "run_compiler x c = Inr out"
  obtains config previous where "compile x (source_of c) = Inr config" and "read_json x (cl_models c) = Inr previous"
    and "reconcile_model_history x config previous = Inr (ou_models out)"
proof -
  from assms obtain config previous k where c: "compile_files x (cl_sources c) = Inr config"
    and m: "read_json x (cl_models c) = Inr previous" "reconcile_model_history x config previous = Inr k"
    and out: "\<exists>h. assemble config h k = Inr out"
    by (auto simp: run_compiler_def bindE_Inr_iff)
  from out have "ou_models out = k" by (auto simp: assemble_def bindE_Inr_iff Let_def)
  with that compile_files_Inr [OF c] m show thesis by (simp add: source_of_def)
qed

lemma first_kept:
  obtains c s where "compile x0 (source_of first_files) = Inr c" and "schema_from_value (index c ''schema'') = Inr s"
    and "model_of s ''Note'' = Inr note_model" and "reconcile_model_history x0 c None = Inr (ou_models first_out)"
proof -
  from run_compiler_models [OF builds(1)] obtain c previous where c: "compile x0 (source_of first_files) = Inr c"
    and previous: "read_json x0 (cl_models first_files) = Inr previous"
    and h: "reconcile_model_history x0 c previous = Inr (ou_models first_out)" .
  from previous have "previous = None" by (simp add: files_of_def read_json_def)
  moreover from tiny_compiles c obtain s where "schema_from_value (index c ''schema'') = Inr s"
      "model_of s ''Note'' = Inr note_model"
    by (auto split: sum.splits)
  ultimately show thesis using that c h by blast
qed

lemma next_kept: "later x0 (ou_models first_out) (ou_models next_out)"
proof -
  from run_compiler_models [OF builds(3)] obtain c previous where c: "compile x0 (source_of (next_files first_out)) = Inr c"
    and previous: "read_json x0 (cl_models (next_files first_out)) = Inr previous"
    and h: "reconcile_model_history x0 c previous = Inr (ou_models next_out)" .
  from previous have "previous = Some (ou_models first_out)"
    by (simp add: next_files_def files_of_def read_json_def builds(6))
  with later.build [OF later.same c] h show ?thesis by blast
qed

lemma two_builds_latest: "latest_model x0 [next_files first_out, first_files] ''Note'' 1 \<noteq> None"
proof -
  have "checked_source x0 (next_files first_out) = checked_source x0 (files_of tiny_next None None)"
    by (simp add: checked_source_def source_of_def next_files_def files_of_def)
  with tiny_next_note show ?thesis by (auto split: option.splits)
qed

section \<open>The properties on them\<close>

theorem compiled_schema_is_declared_witness:
  "\<exists>c d s. compile x0 (source_of first_files) = Inr c \<and> parse x0 (source_of first_files) = Inr d \<and>
     schema_from_value (index c ''schema'') = Inr s \<and> declares d s \<and> schema_ok s \<and>
     model_of s ''Note'' = Inr note_model"
proof -
  from first_kept obtain c s where c: "compile x0 (source_of first_files) = Inr c"
      "schema_from_value (index c ''schema'') = Inr s" "model_of s ''Note'' = Inr note_model" .
  with compiled_schema_is_declared [OF c(1)] show ?thesis by auto
qed

text \<open>A note with a tag, as the second build's contract normalises it.\<close>

definition tagged :: json where
  "tagged = JObj [(''tag'', JStr ''new''), (''text'', JStr ''hi'')]"

lemma tagged_normal: "normalize_state x0 (contract_schema tagged_contract) ''Note'' tagged = Inr tagged"
  by code_simp

lemma tagged_storable: "storable_record (contract_schema tagged_contract) ''Note'' tagged"
  by (simp add: storable_record_def storable_fields_def model_of_def contract_schema_def tagged_contract_def
      string_field_def field_of_def tagged_def ok_or_def)

lemma tagged_restricted: "restricted note_model tagged = JObj [(''text'', JStr ''hi'')]"
  by code_simp

theorem published_contract_stays_readable_witness:
  "\<exists>c s h k. compile x0 (source_of first_files) = Inr c \<and> schema_from_value (index c ''schema'') = Inr s \<and>
     reconcile_model_history x0 c None = Inr h \<and> later x0 h k \<and> 
     validate_state x0 s ''Note'' tagged = Inr (JObj [(''text'', JStr ''hi'')])"
proof -
  from first_kept obtain c s where c: "compile x0 (source_of first_files) = Inr c"
      "schema_from_value (index c ''schema'') = Inr s" "model_of s ''Note'' = Inr note_model"
      "reconcile_model_history x0 c None = Inr (ou_models first_out)" .
  have "m_version note_model = 1" by (simp add: note_model_def)
  with published_contract_stays_readable [OF x0_ok c next_kept] builds(7) tagged_normal tagged_storable
  have "validate_state x0 s ''Note'' tagged = Inr (restricted note_model tagged)"
    by (auto simp: keeps_tagged_def)
  with c next_kept tagged_restricted show ?thesis by auto
qed

theorem built_backend_starts_witness:
  "\<exists>c. built x0 [next_files first_out, first_files] next_out \<and> config_from_value (ou_backend next_out) = Inr c \<and>
     contract_of c ''Note'' 1 \<noteq> None"
proof -
  have "built x0 [first_files] first_out"
    by (rule built.first [OF builds(1,2)]) (simp_all add: files_of_def)
  moreover have "holds x0 (cl_history (next_files first_out)) (ou_history first_out)"
    "holds x0 (cl_models (next_files first_out)) (ou_models first_out)"
    using builds(5,6) by (simp_all add: holds_def next_files_def files_of_def)
  ultimately have b: "built x0 [next_files first_out, first_files] next_out"
    using builds(3,4) by (blast intro: built.next_build)
  have "latest_model x0 [next_files first_out, first_files] ''Note'' 1 \<noteq> None"
    using two_builds_latest .
  with built_backend_starts [OF b] b show ?thesis by auto
qed

section \<open>A backend the server refuses\<close>

definition bound_source :: string where
  "bound_source = ''model Book { id String @@id(id) }
model Comment { id String text String? book_id String book Book @reference(via: [book_id]) @@id(id) }
mutation Edit { book Book.update comment Comment.update<text>(book: book) }''"

lemma bound_built:
  "case run_compiler x0 (files_of bound_source None None) of Inl _ \<Rightarrow> False | Inr _ \<Rightarrow> True"
  "case checked_source x0 (files_of bound_source None None) of None \<Rightarrow> False | Some v \<Rightarrow> \<not> captures_bindings v"
  by code_simp+

theorem uncaptured_binding_refused_witness:
  "\<exists>out e. run_compiler x0 (files_of bound_source None None) = Inr out \<and>
     config_from_value (ou_backend out) = Inl e"
proof -
  from bound_built obtain out v where "run_compiler x0 (files_of bound_source None None) = Inr out"
      "checked_source x0 (files_of bound_source None None) = Some v" "\<not> captures_bindings v"
    by (auto split: sum.splits option.splits)
  from uncaptured_binding_refused [OF this] this(1) show ?thesis by blast
qed

end
