(* ===== verification/Queries.thy ===== *)
theory Queries
  imports Rows Client
begin

text \<open>
  Queries (\<open>crates/client/src/query.rs\<close>): rows of a model that match a filter, in an order, and
  the records at the two ends of a reference. The filter runs in SQL (\<open>rows_where\<close>); the order
  is the code's own: nulls first, texts by UTF-16 code units, numbers by \<open>f64::total_cmp\<close>.
\<close>

section \<open>Ordering\<close>

datatype ordering = OLess | OEqual | OGreater

fun reversed :: "ordering \<Rightarrow> ordering" where
  "reversed OLess = OGreater"
| "reversed OEqual = OEqual"
| "reversed OGreater = OLess"

definition ord_of :: "'a::linorder \<Rightarrow> 'a \<Rightarrow> ordering" where
  "ord_of a b = (if a < b then OLess else if a = b then OEqual else OGreater)"

text \<open>\<open>f64::total_cmp\<close> of numbers: by value, and the negative zero before the positive one.\<close>

definition signed :: "f64 \<Rightarrow> int \<Rightarrow> int" where
  "signed f e = (if f_neg f then -1 else 1) * int (f_mant f) * 2 ^ nat (f_exp f - e)"

definition total_cmp :: "f64 \<Rightarrow> f64 \<Rightarrow> ordering" where
  "total_cmp f g =
     (let e = min (f_exp f) (f_exp g) in
      if signed f e = signed g e then ord_of (\<not> f_neg f) (\<not> f_neg g)
      else ord_of (signed f e) (signed g e))"

definition compare :: "json \<Rightarrow> json \<Rightarrow> ordering" where
  "compare a b = (case (a, b) of
       (JNull, JNull) \<Rightarrow> OEqual
     | (JNull, _) \<Rightarrow> OLess
     | (_, JNull) \<Rightarrow> OGreater
     | (JStr s, JStr t) \<Rightarrow> ord_of (utf16 s) (utf16 t)
     | (JBool p, JBool q) \<Rightarrow> ord_of p q
     | (JNum m, JNum n) \<Rightarrow> (case (as_f64 a, as_f64 b) of
           (Some f, Some g) \<Rightarrow> total_cmp f g | _ \<Rightarrow> OEqual)
     | _ \<Rightarrow> OEqual)"

text \<open>\<open>sort_by\<close>: a stable sort.\<close>

fun insert_by :: "('a \<Rightarrow> 'a \<Rightarrow> ordering) \<Rightarrow> 'a \<Rightarrow> 'a list \<Rightarrow> 'a list" where
  "insert_by c a [] = [a]"
| "insert_by c a (b # bs) = (if c a b = OGreater then b # insert_by c a bs else a # b # bs)"

definition sort_by :: "('a \<Rightarrow> 'a \<Rightarrow> ordering) \<Rightarrow> 'a list \<Rightarrow> 'a list" where
  "sort_by c as = foldr (insert_by c) as []"

section \<open>Queries\<close>

datatype direction = Ascending | Descending

record query_order =
  qo_field :: string
  qo_direction :: direction

record query_spec =
  qs_filter :: "(string \<times> json) list"
  qs_order :: "query_order list"
  qs_limit :: "nat option"

fun first_order :: "ordering list \<Rightarrow> ordering" where
  "first_order [] = OEqual"
| "first_order (OEqual # os) = first_order os"
| "first_order (o' # os) = o'"

definition directed :: "direction \<Rightarrow> ordering \<Rightarrow> ordering" where
  "directed d o' = (case d of Ascending \<Rightarrow> o' | Descending \<Rightarrow> reversed o')"

definition row_order :: "model_desc \<Rightarrow> query_order list \<Rightarrow> json \<Rightarrow> json \<Rightarrow> ordering" where
  "row_order m os a b = first_order
     (map (\<lambda>q. directed (qo_direction q) (compare (index a (qo_field q)) (index b (qo_field q)))) os @
      map (\<lambda>f. compare (index a f) (index b f)) (m_identity m))"

definition query_field :: "model_desc \<Rightarrow> string \<Rightarrow> field_desc res" where
  "query_field m name = ok_or (field_of m name) (invalid (''unknown query field '' @ name))"

definition condition :: "ext \<Rightarrow> schema \<Rightarrow> model_desc \<Rightarrow> string \<times> json \<Rightarrow> (string \<times> json) res" where
  "condition x s m nv =
     bindE (query_field m (fst nv))
     (\<lambda>f. bindE (ensure (\<not> is_list (f_type f)) (invalid ''list predicates unsupported''))
     (\<lambda>_. bindE (normalize_value x s f (snd nv)) (\<lambda>v. Inr (fst nv, v))))"

definition check_order :: "model_desc \<Rightarrow> query_order \<Rightarrow> unit res" where
  "check_order m q =
     bindE (query_field m (qo_field q))
     (\<lambda>f. ensure (is_scalar (f_type f)) (invalid ''ordering requires scalar field''))"

definition limited :: "nat option \<Rightarrow> 'a list \<Rightarrow> 'a list" where
  "limited n as = (case n of None \<Rightarrow> as | Some k \<Rightarrow> take k as)"

definition evaluate :: "ext \<Rightarrow> schema \<Rightarrow> string \<Rightarrow> query_spec \<Rightarrow> json list eng" where
  "evaluate x s name spec =
     bindM (liftM (model_of s name))
     (\<lambda>m. bindM (liftM (emap (condition x s m) (qs_filter spec)))
     (\<lambda>conds. bindM (liftM (echeck (check_order m) (qs_order spec)))
     (\<lambda>_. bindM (rows_where x (m_name m) m conds)
     (\<lambda>rows. retM (limited (qs_limit spec) (sort_by (row_order m (qs_order spec)) rows))))))"

definition relation_named :: "model_desc \<Rightarrow> (relation_desc \<Rightarrow> bool) \<Rightarrow> string \<Rightarrow> relation_desc res" where
  "relation_named m P msg = ok_or (find P (m_relations m)) (invalid msg)"

text \<open>The identity a row refers to, unless a field of the reference is null.\<close>

definition referenced_identity :: "relation_desc \<Rightarrow> json \<Rightarrow> json option" where
  "referenced_identity r row =
     (if \<exists>(local, _) \<in> set (zip (r_fields r) (r_target_fields r)). is_null (index row local) then None
      else Some (obj (map (\<lambda>(local, target). (target, index row local)) (zip (r_fields r) (r_target_fields r)))))"

definition related :: "ext \<Rightarrow> schema \<Rightarrow> rkey \<Rightarrow> string \<Rightarrow> json option eng" where
  "related x s k name =
     bindM (liftM (record_key x s (k_model k) (k_identity k)))
     (\<lambda>key. bindM (liftM (model_of s (k_model key)))
     (\<lambda>m. bindM (liftM (relation_named m (\<lambda>r. r_name r = name) ''unknown relation''))
     (\<lambda>r. bindM (read_row x s key)
     (\<lambda>found. case found of None \<Rightarrow> retM None
        | Some row \<Rightarrow> (case referenced_identity r row of None \<Rightarrow> retM None
            | Some identity \<Rightarrow> bindM (liftM (record_key x s (r_target r) identity)) (read_row x s))))))"

definition referencing :: "ext \<Rightarrow> schema \<Rightarrow> rkey \<Rightarrow> string \<Rightarrow> string \<Rightarrow> json list eng" where
  "referencing x s k source name =
     bindM (liftM (record_key x s (k_model k) (k_identity k)))
     (\<lambda>key. bindM (liftM (model_of s source))
     (\<lambda>m. bindM (liftM (relation_named m (\<lambda>r. r_name r = name \<and> r_target r = k_model key) ''unknown inverse relation''))
     (\<lambda>r. evaluate x s source \<lparr>qs_filter = bt_of (map (\<lambda>(local, target). (local, index (k_identity key) target))
          (zip (r_fields r) (r_target_fields r))), qs_order = [], qs_limit = None\<rparr>)))"

text \<open>The client's calls: over the committed content, or inside a transaction.\<close>

definition query_filter :: "json \<Rightarrow> query_spec res" where
  "query_filter v = bindE (ok_or (as_object v) derive_error)
     (\<lambda>kvs. Inr \<lparr>qs_filter = kvs, qs_order = [], qs_limit = None\<rparr>)"

definition client_query :: "ext \<Rightarrow> string \<Rightarrow> json \<Rightarrow> json list call" where
  "client_query x name v c = (case query_filter v of
       Inl e \<Rightarrow> (Inl e, c)
     | Inr spec \<Rightarrow> view (evaluate x (c_schema c) name spec) c)"

definition client_query_spec :: "ext \<Rightarrow> string \<Rightarrow> query_spec \<Rightarrow> json list call" where
  "client_query_spec x name spec c = view (evaluate x (c_schema c) name spec) c"

definition client_related :: "ext \<Rightarrow> rkey \<Rightarrow> string \<Rightarrow> json option call" where
  "client_related x k name c = view (related x (c_schema c) k name) c"

definition client_referencing :: "ext \<Rightarrow> rkey \<Rightarrow> string \<Rightarrow> string \<Rightarrow> json list call" where
  "client_referencing x k source name c = view (referencing x (c_schema c) k source name) c"

definition tx_query :: "ext \<Rightarrow> schema \<Rightarrow> string \<Rightarrow> json \<Rightarrow> json list tx" where
  "tx_query x s name v depth = bindM (liftM (query_filter v)) (evaluate x s name)"

definition tx_query_spec :: "ext \<Rightarrow> schema \<Rightarrow> string \<Rightarrow> query_spec \<Rightarrow> json list tx" where
  "tx_query_spec x s name spec depth = evaluate x s name spec"

definition tx_related :: "ext \<Rightarrow> schema \<Rightarrow> rkey \<Rightarrow> string \<Rightarrow> json option tx" where
  "tx_related x s k name depth = related x s k name"

definition tx_referencing :: "ext \<Rightarrow> schema \<Rightarrow> rkey \<Rightarrow> string \<Rightarrow> string \<Rightarrow> json list tx" where
  "tx_referencing x s k source name depth = referencing x s k source name"

text \<open>Rows as objects: column names must be distinct.\<close>

definition rows_to_objects :: "string list \<Rightarrow> json list list \<Rightarrow> json list res" where
  "rows_to_objects cols rows =
     bindE (ensure (length (bs_of cols) = length cols) (invalid ''SQL result column names must be unique; use aliases''))
     (\<lambda>_. Inr (map (\<lambda>row. obj (zip cols row)) rows))"

end
