(* ===== verification/QueryOk.thy ===== *)
theory QueryOk
  imports Queries Complex_Main "HOL-Library.Multiset"
begin

text \<open>
  What a query answers, over tables of normal rows: exactly the rows whose fields have the
  values asked for, in an order that is one, and at the two ends of a reference the same records.
\<close>

section \<open>Comparisons that are an order\<close>

definition ordered_on :: "'a set \<Rightarrow> ('a \<Rightarrow> 'a \<Rightarrow> ordering) \<Rightarrow> bool" where
  "ordered_on A c \<longleftrightarrow> (\<forall>a \<in> A. \<forall>b \<in> A. c b a = reversed (c a b)) \<and>
     (\<forall>a \<in> A. \<forall>b \<in> A. \<forall>d \<in> A. c a b \<noteq> OGreater \<longrightarrow> c b d \<noteq> OGreater \<longrightarrow>
        c a d \<noteq> OGreater \<and> (c a d = OEqual \<longrightarrow> c a b = OEqual \<and> c b d = OEqual))"

lemma ordered_onI:
  assumes "\<And>a b. a \<in> A \<Longrightarrow> b \<in> A \<Longrightarrow> c b a = reversed (c a b)"
    and "\<And>a b d. a \<in> A \<Longrightarrow> b \<in> A \<Longrightarrow> d \<in> A \<Longrightarrow> c a b \<noteq> OGreater \<Longrightarrow> c b d \<noteq> OGreater \<Longrightarrow>
      c a d \<noteq> OGreater \<and> (c a d = OEqual \<longrightarrow> c a b = OEqual \<and> c b d = OEqual)"
  shows "ordered_on A c"
  unfolding ordered_on_def using assms by blast

lemma ordered_flip: "ordered_on A c \<Longrightarrow> a \<in> A \<Longrightarrow> b \<in> A \<Longrightarrow> c b a = reversed (c a b)"
  unfolding ordered_on_def by blast

lemma ordered_trans:
  "ordered_on A c \<Longrightarrow> a \<in> A \<Longrightarrow> b \<in> A \<Longrightarrow> d \<in> A \<Longrightarrow> c a b \<noteq> OGreater \<Longrightarrow> c b d \<noteq> OGreater \<Longrightarrow>
   c a d \<noteq> OGreater \<and> (c a d = OEqual \<longrightarrow> c a b = OEqual \<and> c b d = OEqual)"
  unfolding ordered_on_def by blast

lemma reversed_iff: "reversed o' = OGreater \<longleftrightarrow> o' = OLess" "reversed o' = OLess \<longleftrightarrow> o' = OGreater"
  "reversed o' = OEqual \<longleftrightarrow> o' = OEqual" "reversed (reversed o') = o'"
  by (cases o'; simp)+

lemma ordered_ord_of: "ordered_on A (\<lambda>a b. ord_of (k a) (k b))"
  by (rule ordered_onI) (auto simp: ord_of_def split: if_splits)

lemma ordered_reversed:
  assumes "ordered_on A c"
  shows "ordered_on A (\<lambda>a b. reversed (c a b))"
proof (rule ordered_onI)
  show "reversed (c b a) = reversed (reversed (c a b))" if "a \<in> A" "b \<in> A" for a b
    using ordered_flip [OF assms that] by simp
next
  fix a b d assume m: "a \<in> A" "b \<in> A" "d \<in> A" "reversed (c a b) \<noteq> OGreater" "reversed (c b d) \<noteq> OGreater"
  note flip = ordered_flip [OF assms]
  have "c d b \<noteq> OGreater" "c b a \<noteq> OGreater"
    using m(4,5) flip [OF m(2,3)] flip [OF m(1,2)] by (simp_all add: reversed_iff)
  from ordered_trans [OF assms m(3,2,1) this]
  have "c d a \<noteq> OGreater \<and> (c d a = OEqual \<longrightarrow> c d b = OEqual \<and> c b a = OEqual)" .
  then show "reversed (c a d) \<noteq> OGreater \<and> (reversed (c a d) = OEqual \<longrightarrow> reversed (c a b) = OEqual \<and> reversed (c b d) = OEqual)"
    unfolding flip [OF m(1,3)] flip [OF m(1,2)] flip [OF m(2,3)] by (simp add: reversed_iff)
qed

lemma ordered_first:
  "\<forall>c \<in> set cs. ordered_on A c \<Longrightarrow> ordered_on A (\<lambda>a b. first_order (map (\<lambda>c. c a b) cs))"
proof (induction cs)
  case Nil
  show ?case by (rule ordered_onI) simp_all
next
  case (Cons c cs)
  then have c: "ordered_on A c" and f: "ordered_on A (\<lambda>a b. first_order (map (\<lambda>c. c a b) cs))" by simp_all
  have cons: "first_order (map (\<lambda>c. c a b) (c # cs)) =
      (case c a b of OEqual \<Rightarrow> first_order (map (\<lambda>c. c a b) cs) | o' \<Rightarrow> o')" for a b
    by (cases "c a b") simp_all
  show ?case
  proof (rule ordered_onI)
    show "first_order (map (\<lambda>c. c b a) (c # cs)) = reversed (first_order (map (\<lambda>c. c a b) (c # cs)))"
      if "a \<in> A" "b \<in> A" for a b
      unfolding cons ordered_flip [OF c that] ordered_flip [OF f that] by (cases "c a b") simp_all
  next
    fix a b d assume m: "a \<in> A" "b \<in> A" "d \<in> A"
    assume "first_order (map (\<lambda>c. c a b) (c # cs)) \<noteq> OGreater" "first_order (map (\<lambda>c. c b d) (c # cs)) \<noteq> OGreater"
    then show "first_order (map (\<lambda>c. c a d) (c # cs)) \<noteq> OGreater \<and>
        (first_order (map (\<lambda>c. c a d) (c # cs)) = OEqual \<longrightarrow>
          first_order (map (\<lambda>c. c a b) (c # cs)) = OEqual \<and> first_order (map (\<lambda>c. c b d) (c # cs)) = OEqual)"
      unfolding cons using ordered_trans [OF c m] ordered_trans [OF f m]
      by (cases "c a b"; cases "c b d"; cases "c a d") simp_all
  qed
qed

section \<open>Sorting\<close>

lemma insert_by_mset: "mset (insert_by c a bs) = add_mset a (mset bs)"
  by (induction bs) auto

lemma sort_by_mset: "mset (sort_by c as) = mset as"
  by (induction as) (simp_all add: sort_by_def insert_by_mset)

lemma insert_by_set: "set (insert_by c a bs) = insert a (set bs)"
  by (induction bs) auto

lemma insert_by_sorted:
  assumes "ordered_on A c" and "a \<in> A" and "set bs \<subseteq> A" and "sorted_wrt (\<lambda>a b. c a b \<noteq> OGreater) bs"
  shows "sorted_wrt (\<lambda>a b. c a b \<noteq> OGreater) (insert_by c a bs)"
  using assms(3,4)
proof (induction bs)
  case (Cons b bs)
  have flip: "c b a = reversed (c a b)" using ordered_flip [OF assms(1,2)] Cons.prems(1) by simp
  have trans: "c a d \<noteq> OGreater" if "c a b \<noteq> OGreater" "d \<in> set bs" for d
    using ordered_trans [OF assms(1,2), of b d] Cons.prems that by auto
  show ?case
  proof (cases "c a b = OGreater")
    case True
    with flip Cons show ?thesis by (simp add: insert_by_set)
  next
    case False
    with trans Cons.prems(2) show ?thesis by simp
  qed
qed simp

lemma sort_by_sorted:
  assumes "ordered_on (set as) c"
  shows "sorted_wrt (\<lambda>a b. c a b \<noteq> OGreater) (sort_by c as)"
proof -
  have "sorted_wrt (\<lambda>a b. c a b \<noteq> OGreater) (sort_by c bs)" if "set bs \<subseteq> set as" for bs
    using that
  proof (induction bs)
    case (Cons b bs)
    then have "set (sort_by c bs) \<subseteq> set as" using sort_by_mset [of c bs] by (metis insert_subset list.simps(15) set_mset_mset)
    with Cons insert_by_sorted [OF assms, of b "sort_by c bs"] show ?case by (simp add: sort_by_def)
  qed (simp add: sort_by_def)
  then show ?thesis by simp
qed

section \<open>Values of one column\<close>

definition f_real :: "f64 \<Rightarrow> real" where
  "f_real f = (if f_neg f then -1 else 1) * real (f_mant f) * 2 powi f_exp f"

lemma signed_real: "e \<le> f_exp f \<Longrightarrow> real_of_int (signed f e) = f_real f * 2 powi (- e)"
  by (simp add: signed_def f_real_def power_int_diff power_int_minus field_simps flip: power_int_of_nat)

lemma total_cmp_real:
  "total_cmp f g = (if f_real f = f_real g then ord_of (\<not> f_neg f) (\<not> f_neg g) else ord_of (f_real f) (f_real g))"
proof -
  let ?e = "min (f_exp f) (f_exp g)"
  have r: "real_of_int (signed f ?e) = f_real f * 2 powi (- ?e)" "real_of_int (signed g ?e) = f_real g * 2 powi (- ?e)"
    by (simp_all add: signed_real)
  have pos: "(0::real) < 2 powi (- ?e)" by simp
  have "signed f ?e = signed g ?e \<longleftrightarrow> f_real f = f_real g"
    unfolding of_int_eq_iff [where 'a = real, symmetric] r using pos by simp
  moreover have "signed f ?e < signed g ?e \<longleftrightarrow> f_real f < f_real g"
    unfolding of_int_less_iff [where 'a = real, symmetric] r using pos by simp
  ultimately show ?thesis by (simp add: total_cmp_def Let_def ord_of_def)
qed

lemma total_cmp_ordered:
  "total_cmp g f = reversed (total_cmp f g)"
  "total_cmp f g \<noteq> OGreater \<Longrightarrow> total_cmp g h \<noteq> OGreater \<Longrightarrow>
   total_cmp f h \<noteq> OGreater \<and> (total_cmp f h = OEqual \<longrightarrow> total_cmp f g = OEqual \<and> total_cmp g h = OEqual)"
  unfolding total_cmp_real ord_of_def by (auto split: if_splits)

text \<open>The values of a scalar column are nulls and values of one kind.\<close>

inductive alike :: "json set \<Rightarrow> bool" where
  texts: "\<forall>v \<in> A. v = JNull \<or> (\<exists>t. v = JStr t) \<Longrightarrow> alike A"
| bools: "\<forall>v \<in> A. v = JNull \<or> (\<exists>b. v = JBool b) \<Longrightarrow> alike A"
| numbers: "\<forall>v \<in> A. v = JNull \<or> (\<exists>n. v = JNum n) \<Longrightarrow> alike A"

lemma as_f64_number: "\<exists>f. as_f64 (JNum n) = Some f"
  by (cases n) simp_all

lemma compare_simps:
  "compare JNull JNull = OEqual" "v \<noteq> JNull \<Longrightarrow> compare JNull v = OLess" "v \<noteq> JNull \<Longrightarrow> compare v JNull = OGreater"
  "compare (JStr s) (JStr t) = ord_of (utf16 s) (utf16 t)" "compare (JBool p) (JBool q) = ord_of p q"
  "compare (JNum m) (JNum n) = total_cmp (the (as_f64 (JNum m))) (the (as_f64 (JNum n)))"
  using as_f64_number [of m] as_f64_number [of n]
  by (auto simp: compare_def split: json.splits)

lemma compare_ordered:
  assumes "alike A"
  shows "ordered_on A compare"
proof (rule ordered_onI)
  fix a b assume m: "a \<in> A" "b \<in> A"
  show "compare b a = reversed (compare a b)"
  proof (cases "a = JNull \<or> b = JNull")
    case True
    then show ?thesis by (cases "a = JNull"; cases "b = JNull") (simp_all add: compare_simps)
  next
    case False
    from assms show ?thesis
    proof cases
      case texts
      with m False obtain t u where "a = JStr t" "b = JStr u" by blast
      then show ?thesis by (auto simp: compare_simps ord_of_def)
    next
      case bools
      with m False obtain t u where "a = JBool t" "b = JBool u" by blast
      then show ?thesis by (auto simp: compare_simps ord_of_def)
    next
      case numbers
      with m False obtain t u where "a = JNum t" "b = JNum u" by blast
      then show ?thesis by (simp only: compare_simps) (rule total_cmp_ordered(1))
    qed
  qed
next
  fix a b d assume m: "a \<in> A" "b \<in> A" "d \<in> A" "compare a b \<noteq> OGreater" "compare b d \<noteq> OGreater"
  show "compare a d \<noteq> OGreater \<and> (compare a d = OEqual \<longrightarrow> compare a b = OEqual \<and> compare b d = OEqual)"
  proof (cases "a = JNull \<or> b = JNull \<or> d = JNull")
    case True
    with m(4,5) show ?thesis
      by (cases "a = JNull"; cases "b = JNull"; cases "d = JNull") (simp_all add: compare_simps)
  next
    case False
    from assms show ?thesis
    proof cases
      case texts
      with m(1-3) have "a = JNull \<or> (\<exists>s. a = JStr s)" "b = JNull \<or> (\<exists>s. b = JStr s)" "d = JNull \<or> (\<exists>s. d = JStr s)"
        by simp_all
      with False obtain s t u where "a = JStr s" "b = JStr t" "d = JStr u" by auto
      with m(4,5) ordered_trans [OF ordered_ord_of [of UNIV utf16], of s t u] show ?thesis
        by (simp add: compare_simps)
    next
      case bools
      with m(1-3) have "a = JNull \<or> (\<exists>s. a = JBool s)" "b = JNull \<or> (\<exists>s. b = JBool s)" "d = JNull \<or> (\<exists>s. d = JBool s)"
        by simp_all
      with False obtain s t u where "a = JBool s" "b = JBool t" "d = JBool u" by auto
      with m(4,5) ordered_trans [OF ordered_ord_of [of UNIV "\<lambda>p :: bool. p"], of s t u] show ?thesis
        by (simp add: compare_simps)
    next
      case numbers
      with m(1-3) have "a = JNull \<or> (\<exists>s. a = JNum s)" "b = JNull \<or> (\<exists>s. b = JNum s)" "d = JNull \<or> (\<exists>s. d = JNum s)"
        by simp_all
      with False obtain s t u where k: "a = JNum s" "b = JNum t" "d = JNum u" by auto
      from total_cmp_ordered(2) [OF m(4,5) [unfolded k compare_simps]] show ?thesis unfolding k compare_simps .
    qed
  qed
qed

lemma ordered_map:
  assumes "ordered_on (g ` A) c"
  shows "ordered_on A (\<lambda>a b. c (g a) (g b))"
proof (rule ordered_onI)
  show "c (g b) (g a) = reversed (c (g a) (g b))" if "a \<in> A" "b \<in> A" for a b
    by (rule ordered_flip [OF assms]) (use that in simp_all)
  show "c (g a) (g d) \<noteq> OGreater \<and> (c (g a) (g d) = OEqual \<longrightarrow> c (g a) (g b) = OEqual \<and> c (g b) (g d) = OEqual)"
    if "a \<in> A" "b \<in> A" "d \<in> A" "c (g a) (g b) \<noteq> OGreater" "c (g b) (g d) \<noteq> OGreater" for a b d
    by (rule ordered_trans [OF assms]) (use that in simp_all)
qed

section \<open>The order a query asks for\<close>

text \<open>
  When a value of a column is smaller than another: null is smaller than any value, texts compare
  by their UTF-16 code units, \<open>false\<close> is smaller than \<open>true\<close>, and numbers compare by
  the real number they stand for, the negative zero before the positive one.
\<close>

fun smaller :: "json \<Rightarrow> json \<Rightarrow> bool" where
  "smaller JNull v \<longleftrightarrow> v \<noteq> JNull"
| "smaller (JStr s) (JStr t) \<longleftrightarrow> (utf16 s, utf16 t) \<in> lexord {(a, b). a < b}"
| "smaller (JBool p) (JBool q) \<longleftrightarrow> \<not> p \<and> q"
| "smaller (JNum m) (JNum n) \<longleftrightarrow> (let f = the (as_f64 (JNum m)); g = the (as_f64 (JNum n)) in
     f_real f < f_real g \<or> f_real f = f_real g \<and> f_neg f \<and> \<not> f_neg g)"
| "smaller _ _ \<longleftrightarrow> False"

text \<open>Whether a row may stand before another, by a list of fields, each in its direction: the
  first of them in which the two rows differ decides.\<close>

fun may_precede :: "(string \<times> direction) list \<Rightarrow> json \<Rightarrow> json \<Rightarrow> bool" where
  "may_precede [] a b \<longleftrightarrow> True"
| "may_precede ((n, Ascending) # ks) a b \<longleftrightarrow>
     smaller (index a n) (index b n) \<or> \<not> smaller (index b n) (index a n) \<and> may_precede ks a b"
| "may_precede ((n, Descending) # ks) a b \<longleftrightarrow>
     smaller (index b n) (index a n) \<or> \<not> smaller (index a n) (index b n) \<and> may_precede ks a b"

definition order_keys :: "model_desc \<Rightarrow> query_order list \<Rightarrow> (string \<times> direction) list" where
  "order_keys m os = map (\<lambda>q. (qo_field q, qo_direction q)) os @ map (\<lambda>n. (n, Ascending)) (m_identity m)"

lemma compare_smaller:
  assumes "alike A" and "a \<in> A" and "b \<in> A"
  shows "compare a b = OLess \<longleftrightarrow> smaller a b" and "compare a b = OGreater \<longleftrightarrow> smaller b a"
proof -
  have one: "compare u v = OLess \<longleftrightarrow> smaller u v" if "u \<in> A" "v \<in> A" for u v
  proof (cases "u = JNull \<or> v = JNull")
    case True
    then show ?thesis
      by (cases "u = JNull"; cases "v = JNull"; cases u) (simp_all add: compare_simps)
  next
    case False
    from assms(1) show ?thesis
    proof cases
      case texts
      with that False obtain s t where "u = JStr s" "v = JStr t" by blast
      then show ?thesis by (simp add: compare_simps ord_of_def list_less_def)
    next
      case bools
      with that False obtain s t where "u = JBool s" "v = JBool t" by blast
      then show ?thesis by (auto simp: compare_simps ord_of_def)
    next
      case numbers
      with that False obtain s t where "u = JNum s" "v = JNum t" by blast
      then show ?thesis by (simp add: compare_simps total_cmp_real ord_of_def Let_def)
    qed
  qed
  from one assms(2,3) show "compare a b = OLess \<longleftrightarrow> smaller a b" by blast
  have "compare b a = reversed (compare a b)" using compare_ordered [OF assms(1)] assms(2,3) by (rule ordered_flip)
  then have "compare a b = OGreater \<longleftrightarrow> compare b a = OLess" by (cases "compare a b") simp_all
  with one assms(2,3) show "compare a b = OGreater \<longleftrightarrow> smaller b a" by blast
qed

section \<open>Rows in their table\<close>

definition table_of :: "ext \<Rightarrow> model_desc \<Rightarrow> json list \<Rightarrow> table" where
  "table_of x m rows = map (\<lambda>r. (identity_params x m r, row_params x m r)) rows"

lemma row_value:
  assumes "row_ok x s m row" and "field_of m n = Some f"
  shows "normalize_value x s f (index row n) = Inr (index row n)"
proof -
  from assms(1) obtain kvs where row: "row = JObj kvs" "normal_values x s m kvs" "fst ` set kvs = set (columns m)"
    by (auto simp: row_ok_def)
  from field_of_in [OF assms(2)] row(3) have "n \<in> fst ` set kvs" by (auto simp: columns_def)
  then obtain v where v: "map_of kvs n = Some v" by (metis map_of_eq_None_iff not_None_eq)
  with normal_valuesD [OF row(2) v assms(2)] row(1) show ?thesis by (simp add: index_def)
qed

text \<open>A column of a scalar field.\<close>

lemma column_alike:
  assumes "is_scalar (f_type f)" and "\<forall>v \<in> A. normalize_value x s f v = Inr v"
  shows "alike A"
proof -
  from assms(1) obtain ty where ty: "f_type f = TScalar ty" by (cases "f_type f") auto
  have v: "v = JNull \<or> scalar x ty v = Inr v" if "v \<in> A" for v
    using assms(2) that ty by (auto simp: normalize_value_def is_null_def split: if_splits)
  show ?thesis
  proof (cases ty)
    case StBoolean
    have "\<forall>v \<in> A. v = JNull \<or> (\<exists>b. v = JBool b)"
      using v by (fastforce simp: StBoolean scalar_def split: json.splits)
    then show ?thesis by (rule alike.bools)
  next
    case StInt
    have "\<forall>v \<in> A. v = JNull \<or> (\<exists>n. v = JNum n)"
      using v by (fastforce simp: StInt jint_def elim: scalar_int_range)
    then show ?thesis by (rule alike.numbers)
  next
    case StFloat
    have "\<forall>v \<in> A. v = JNull \<or> (\<exists>n. v = JNum n)"
      using v by (fastforce simp: StFloat scalar_def res_elims)
    then show ?thesis by (rule alike.numbers)
  next
    case StString
    have "\<forall>v \<in> A. v = JNull \<or> (\<exists>t. v = JStr t)"
      using v by (fastforce simp: StString scalar_def split: json.splits)
    then show ?thesis by (rule alike.texts)
  next
    case StUuid
    have "\<forall>v \<in> A. v = JNull \<or> (\<exists>t. v = JStr t)"
      using v by (fastforce simp: StUuid scalar_def res_elims split: if_splits prod.splits)
    then show ?thesis by (rule alike.texts)
  next
    case StDateTime
    have "\<forall>v \<in> A. v = JNull \<or> (\<exists>t. v = JStr t)"
      using v by (fastforce simp: StDateTime scalar_def res_elims split: if_splits)
    then show ?thesis by (rule alike.texts)
  qed
qed

lemma column_ordered:
  assumes "field_of m n = Some f" and "is_scalar (f_type f)" and "\<forall>r \<in> A. row_ok x s m r"
  shows "ordered_on A (\<lambda>a b. compare (index a n) (index b n))"
proof (rule ordered_map [where g = "\<lambda>r. index r n"])
  have "\<forall>v \<in> (\<lambda>r. index r n) ` A. normalize_value x s f v = Inr v"
    using assms(1,3) row_value by auto
  with assms(2) show "ordered_on ((\<lambda>r. index r n) ` A) compare" by (intro compare_ordered column_alike)
qed

lemma row_order_ordered:
  assumes "model_ok s m" and "echeck (check_order m) os = Inr ()" and "\<forall>r \<in> A. row_ok x s m r"
  shows "ordered_on A (row_order m os)"
proof -
  have "ordered_on A (\<lambda>a b. directed d (compare (index a n) (index b n)))"
    if "field_of m n = Some f" "is_scalar (f_type f)" for d n f
    using column_ordered [OF that assms(3)] ordered_reversed by (cases d) (simp_all add: directed_def)
  moreover have "\<exists>f. field_of m (qo_field q) = Some f \<and> is_scalar (f_type f)" if "q \<in> set os" for q
    using assms(2) that by (auto simp: echeck_Inr_iff check_order_def query_field_def res_elims)
  moreover have "\<exists>f. field_of m n = Some f \<and> is_scalar (f_type f)" if "n \<in> set (m_identity m)" for n
    using assms(1) that by (auto simp: model_ok_def identity_ok_def split: option.splits)
  ultimately have "\<forall>c \<in> set (map (\<lambda>q a b. directed (qo_direction q) (compare (index a (qo_field q)) (index b (qo_field q)))) os @
      map (\<lambda>n a b. compare (index a n) (index b n)) (m_identity m)). ordered_on A c"
    using column_ordered [OF _ _ assms(3)] by fastforce
  from ordered_first [OF this] show ?thesis
    by (simp add: row_order_def [abs_def] comp_def)
qed

text \<open>The order the code sorts by is the one asked for.\<close>

lemma row_order_asked:
  assumes "model_ok s m" and "echeck (check_order m) os = Inr ()" and "row_ok x s m a" and "row_ok x s m b"
  shows "row_order m os a b \<noteq> OGreater \<longleftrightarrow> may_precede (order_keys m os) a b"
proof -
  have vs: "compare (index a n) (index b n) = OLess \<longleftrightarrow> smaller (index a n) (index b n)"
      "compare (index a n) (index b n) = OGreater \<longleftrightarrow> smaller (index b n) (index a n)"
    if "field_of m n = Some f" "is_scalar (f_type f)" for n f
  proof -
    have "alike {index a n, index b n}"
      using row_value [OF assms(3) that(1)] row_value [OF assms(4) that(1)] by (intro column_alike [OF that(2)]) auto
    from compare_smaller [OF this]
    show "compare (index a n) (index b n) = OLess \<longleftrightarrow> smaller (index a n) (index b n)"
      "compare (index a n) (index b n) = OGreater \<longleftrightarrow> smaller (index b n) (index a n)" by simp_all
  qed
  have keys: "first_order (map (\<lambda>(n, d). directed d (compare (index a n) (index b n))) ks) \<noteq> OGreater \<longleftrightarrow> may_precede ks a b"
    if "\<forall>(n, d) \<in> set ks. \<exists>f. field_of m n = Some f \<and> is_scalar (f_type f)" for ks
    using that
  proof (induction ks)
    case (Cons k ks)
    obtain n d where k: "k = (n, d)" by (rule prod.exhaust)
    with Cons.prems obtain f where f: "field_of m n = Some f" "is_scalar (f_type f)" by auto
    from Cons k vs [OF f] show ?case
      by (cases d; cases "compare (index a n) (index b n)") (auto simp: directed_def)
  qed simp
  have "\<exists>f. field_of m (qo_field q) = Some f \<and> is_scalar (f_type f)" if "q \<in> set os" for q
    using assms(2) that by (auto simp: echeck_Inr_iff check_order_def query_field_def res_elims)
  moreover have "\<exists>f. field_of m n = Some f \<and> is_scalar (f_type f)" if "n \<in> set (m_identity m)" for n
    using assms(1) that by (auto simp: model_ok_def identity_ok_def split: option.splits)
  ultimately have "\<forall>(n, d) \<in> set (order_keys m os). \<exists>f. field_of m n = Some f \<and> is_scalar (f_type f)"
    by (auto simp: order_keys_def)
  from keys [OF this] show ?thesis
    by (simp add: row_order_def order_keys_def comp_def directed_def)
qed

section \<open>The rows that match\<close>

lemma jint_inject: "jint i = jint j \<longleftrightarrow> i = j"
  by (cases "i < 0"; cases "j < 0") (simp_all add: jint_def eq_nat_nat_iff not_less)

text \<open>SQL's equality of two normal values is their equality.\<close>

lemma normal_number: "value_n x s (TScalar StInt) v = Inr v \<Longrightarrow> \<exists>i. v = jint i \<and> parameter x v = SInt i"
proof -
  assume "value_n x s (TScalar StInt) v = Inr v"
  then obtain i where i: "v = jint i" "nat (abs i) \<le> max_safe_integer" by (auto elim: scalar_int_range)
  from as_i64_jint [OF i(2)] i(1) show ?thesis by (auto simp: parameter_def)
qed

lemma normal_float: "value_n x s (TScalar StFloat) v = Inr v \<Longrightarrow> \<exists>g. v = JNum (Float g) \<and> f_canon g = g \<and> parameter x v = SReal g"
  by (auto simp: scalar_def res_elims parameter_def as_i64_def)

lemma normal_text:
  assumes "value_n x s ty v = Inr v" and "\<not> is_list ty" and "ty \<noteq> TScalar StInt" "ty \<noteq> TScalar StFloat" "ty \<noteq> TScalar StBoolean"
  shows "\<exists>t. v = JStr t \<and> parameter x v = SText t"
proof (cases ty)
  case (TScalar a)
  with assms show ?thesis
    by (cases a) (auto simp: scalar_def res_elims parameter_def split: json.splits if_splits prod.splits)
next
  case (TEnum n)
  with assms(1) show ?thesis by (cases v) (auto simp: parameter_def split: if_splits)
qed (use assms(2) in simp)

lemma normal_bool: "value_n x s (TScalar StBoolean) v = Inr v \<Longrightarrow> \<exists>b. v = JBool b \<and> parameter x v = SInt (if b then 1 else 0)"
  by (auto simp: scalar_def parameter_def split: json.splits)

lemma parameter_null: "normalize_value x s f v = Inr v \<Longrightarrow> \<not> is_list (f_type f) \<Longrightarrow> parameter x v = SNull \<longleftrightarrow> v = JNull"
proof (cases "v = JNull")
  case False
  assume n: "normalize_value x s f v = Inr v" "\<not> is_list (f_type f)"
  with False have v: "value_n x s (f_type f) v = Inr v" by (simp add: normalize_value_def is_null_def)
  from False show ?thesis
    using normal_text [OF v n(2)] v normal_number normal_float normal_bool
    by (cases "f_type f = TScalar StInt"; cases "f_type f = TScalar StFloat"; cases "f_type f = TScalar StBoolean") fastforce+
qed (simp add: parameter_def)

lemma sql_eq_normal:
  assumes "normalize_value x s f u = Inr u" and "normalize_value x s f v = Inr v" and "\<not> is_list (f_type f)" and "v \<noteq> JNull"
  shows "sql_eq (parameter x u) (parameter x v) \<longleftrightarrow> u = v"
proof (cases "u = JNull")
  case True
  with assms(4) show ?thesis by (simp add: parameter_def)
next
  case False
  have n: "value_n x s (f_type f) u = Inr u" "value_n x s (f_type f) v = Inr v"
    using assms(1,2,4) False by (simp_all add: normalize_value_def is_null_def)
  consider "f_type f = TScalar StInt" | "f_type f = TScalar StFloat" | "f_type f = TScalar StBoolean"
    | "f_type f \<noteq> TScalar StInt" "f_type f \<noteq> TScalar StFloat" "f_type f \<noteq> TScalar StBoolean" by blast
  then show ?thesis
  proof cases
    case 1
    from normal_number [OF n(1) [unfolded 1]] normal_number [OF n(2) [unfolded 1]] obtain i j where
        "u = jint i" "v = jint j" "parameter x u = SInt i" "parameter x v = SInt j" by blast
    then show ?thesis by (simp add: jint_inject)
  next
    case 2
    from normal_float [OF n(1) [unfolded 2]] normal_float [OF n(2) [unfolded 2]] show ?thesis by auto
  next
    case 3
    from normal_bool [OF n(1) [unfolded 3]] normal_bool [OF n(2) [unfolded 3]] show ?thesis
      by (auto split: if_splits)
  next
    case 4
    from normal_text [OF n(1) assms(3) 4] normal_text [OF n(2) assms(3) 4] show ?thesis by auto
  qed
qed

definition matches :: "(string \<times> json) list \<Rightarrow> json \<Rightarrow> bool" where
  "matches conds row \<longleftrightarrow> (\<forall>(n, v) \<in> set conds. index row n = v)"

lemma filter_matches_row:
  assumes "model_ok s m" and "row_ok x s m row"
    and "\<forall>(n, v) \<in> set conds. \<exists>f. field_of m n = Some f \<and> \<not> is_list (f_type f) \<and> normalize_value x s f v = Inr v"
  shows "filter_matches x m conds (row_params x m row) \<longleftrightarrow> matches conds row"
proof -
  have "(if is_null v then cell m (row_params x m row) n = SNull else sql_eq (cell m (row_params x m row) n) (parameter x v))
      \<longleftrightarrow> index row n = v" if nv: "(n, v) \<in> set conds" for n v
  proof -
    from assms(3) nv obtain f where f: "field_of m n = Some f" "\<not> is_list (f_type f)" "normalize_value x s f v = Inr v" by blast
    from row_value [OF assms(2) f(1)] have u: "normalize_value x s f (index row n) = Inr (index row n)" .
    show ?thesis
      using row_cell [OF assms(1) f(1)] parameter_null [OF u f(2)] sql_eq_normal [OF u f(3,2)] by (simp add: is_null_def)
  qed
  then show ?thesis by (fastforce simp: filter_matches_def matches_def)
qed

lemma conditions_normal:
  assumes "ext_ok x" and "emap (condition x s m) fs = Inr conds"
    and "\<forall>(n, v) \<in> set conds. \<forall>f. field_of m n = Some f \<longrightarrow> storable (f_type f) v"
  shows "\<forall>(n, v) \<in> set conds. \<exists>f. field_of m n = Some f \<and> \<not> is_list (f_type f) \<and> normalize_value x s f v = Inr v"
proof clarify
  fix n v assume nv: "(n, v) \<in> set conds"
  with assms(2) obtain w where "condition x s m (n, w) = Inr (n, v)"
    by (fastforce simp: emap_Inr_iff list_all2_conv_all_nth in_set_conv_nth condition_def res_elims)
  then obtain f where f: "field_of m n = Some f" "\<not> is_list (f_type f)" "normalize_value x s f w = Inr v"
    by (auto simp: condition_def query_field_def res_elims)
  with assms(3) nv normalize_value_idem [OF assms(1) f(3)]
  show "\<exists>f. field_of m n = Some f \<and> \<not> is_list (f_type f) \<and> normalize_value x s f v = Inr v" by blast
qed

lemma matching_rows:
  assumes "model_ok s m" and "\<forall>r \<in> set rows. row_ok x s m r" and "d_tables d table = table_of x m rows"
    and "\<forall>(n, v) \<in> set conds. \<exists>f. field_of m n = Some f \<and> \<not> is_list (f_type f) \<and> normalize_value x s f v = Inr v"
  shows "rows_matching x table m conds d = Inr (filter (matches conds) rows)"
proof -
  have "filter (\<lambda>kv. filter_matches x m conds (snd kv)) (table_of x m rows) =
      table_of x m (filter (matches conds) rows)"
    using assms(2) by (induction rows) (auto simp: table_of_def filter_matches_row [OF assms(1) _ assms(4)])
  moreover have "emap (\<lambda>kv. decode_row x m (columns m) (map column_value (snd kv))) (table_of x m rs) = Inr rs"
    if "set rs \<subseteq> set rows" for rs
    using that assms(2) by (induction rs) (auto simp: table_of_def row_codec [OF _ assms(1)])
  ultimately show ?thesis using assms(3) by (simp add: rows_matching_def)
qed

section \<open>What a query answers\<close>

definition holds_rows :: "ext \<Rightarrow> schema \<Rightarrow> model_desc \<Rightarrow> json list \<Rightarrow> db \<Rightarrow> bool" where
  "holds_rows x s m rows d \<longleftrightarrow> d_tables d (m_name m) = table_of x m rows \<and>
     (\<forall>r \<in> set rows. row_ok x s m r) \<and> distinct (map (identity_of_row m) rows)"

lemma evaluate_rows:
  assumes "schema_ok s" and "model_of s name = Inr m" and "holds_rows x s m rows (w_db w)"
    and "emap (condition x s m) (qs_filter spec) = Inr conds" and "echeck (check_order m) (qs_order spec) = Inr ()"
    and "\<forall>(n, v) \<in> set conds. \<exists>f. field_of m n = Some f \<and> \<not> is_list (f_type f) \<and> normalize_value x s f v = Inr v"
  shows "evaluate x s name spec w = (Inr (limited (qs_limit spec)
     (sort_by (row_order m (qs_order spec)) (filter (matches conds) rows))), w)"
proof -
  have mo: "model_ok s m" using assms(1,2) by (rule schema_ok_model)
  have "rows_matching x (m_name m) m conds (w_db w) = Inr (filter (matches conds) rows)"
    using assms(3) by (intro matching_rows [OF mo _ _ assms(6)]) (simp_all add: holds_rows_def)
  then have "rows_where x (m_name m) m conds w = (Inr (filter (matches conds) rows), w)"
    by (simp add: rows_where_def query_res_def bindM_def)
  then show ?thesis using assms(2,4,5) by (simp add: evaluate_def)
qed

text \<open>
  C24: a query answers what it was asked. Over a table of normal rows, a query whose fields
  exist, whose order is over scalar fields and whose filter values are storable (no dateTime
  whose UTC year leaves 0000 to 9999) answers the rows whose fields have the normalised values of
  its filter, each exactly once. A row comes before another only if the first field asked for in
  which they differ is smaller in it, or larger where the direction is descending, or, if none
  differs, the first identity field that does is smaller in it; nulls are smallest, texts compare
  by UTF-16 code units and numbers by value. Then the answer is cut to the limit; and nothing
  changes.
\<close>
theorem query_answers:
  assumes "schema_ok s" and "ext_ok x" and "model_of s name = Inr m" and "holds_rows x s m rows (w_db w)"
    and "emap (condition x s m) (qs_filter spec) = Inr conds" and "echeck (check_order m) (qs_order spec) = Inr ()"
    and "\<forall>(n, v) \<in> set conds. \<forall>f. field_of m n = Some f \<longrightarrow> storable (f_type f) v"
  shows "\<exists>sorted. evaluate x s name spec w = (Inr (limited (qs_limit spec) sorted), w) \<and>
     mset sorted = mset (filter (\<lambda>row. \<forall>(n, v) \<in> set conds. index row n = v) rows) \<and>
     sorted_wrt (may_precede (order_keys m (qs_order spec))) sorted"
proof (intro exI conjI)
  let ?rows = "filter (matches conds) rows"
  let ?sorted = "sort_by (row_order m (qs_order spec)) ?rows"
  show "evaluate x s name spec w = (Inr (limited (qs_limit spec) ?sorted), w)"
    by (rule evaluate_rows [OF assms(1,3,4,5,6) conditions_normal [OF assms(2,5,7)]])
  show ms: "mset ?sorted = mset (filter (\<lambda>row. \<forall>(n, v) \<in> set conds. index row n = v) rows)"
    by (simp add: sort_by_mset matches_def [abs_def])
  have mo: "model_ok s m" using assms(1,3) by (rule schema_ok_model)
  have ok: "row_ok x s m r" if "r \<in> set ?sorted" for r
    using that assms(4) mset_eq_setD [OF ms] by (auto simp: holds_rows_def)
  have "sorted_wrt (\<lambda>a b. row_order m (qs_order spec) a b \<noteq> OGreater) ?sorted"
    using assms(4) by (intro sort_by_sorted row_order_ordered [OF mo assms(6)]) (auto simp: holds_rows_def)
  then show "sorted_wrt (may_precede (order_keys m (qs_order spec))) ?sorted"
    by (rule sorted_wrt_mono_rel [rotated]) (simp only: row_order_asked [OF mo assms(6) ok ok])
qed

end
