(* ===== verification/References.thy ===== *)
theory References
  imports QueryOk
begin

text \<open>
  The two ends of a reference: the records \<open>referencing\<close> finds for a target are those whose
  \<open>related\<close> record it is.
\<close>

section \<open>Keys of rows\<close>

definition key_of :: "model_desc \<Rightarrow> json \<Rightarrow> rkey" where
  "key_of m row = \<lparr>k_model = m_name m, k_identity = identity_of_row m row\<rparr>"

text \<open>An object with a normal value that is not null for every identity field is a key.\<close>

lemma identity_made:
  assumes "schema_ok s" and "model_of s name = Inr m"
    and "\<And>n f. n \<in> set (m_identity m) \<Longrightarrow> field_of m n = Some f \<Longrightarrow> normalize_value x s f (g n) = Inr (g n)"
  defines "o' \<equiv> obj (map (\<lambda>n. (n, g n)) (m_identity m))"
  shows "record_key x s name o' = Inr \<lparr>k_model = name, k_identity = o'\<rparr>"
proof -
  from assms(1,2) have mo: "model_ok s m" by (rule schema_ok_model)
  then have d: "distinct (m_identity m)" by (simp add: model_ok_def)
  have z: "map (\<lambda>n. (n, g n)) (m_identity m) = zip (m_identity m) (map g (m_identity m))"
    by (simp add: zip_map2 zip_same_conv_map)
  let ?r = "bt_of (zip (m_identity m) (map g (m_identity m)))"
  have "emap (identity_value x s m ?r) (m_identity m) = Inr (map g (m_identity m))"
  proof (rule emap_all_ok, rule ballI)
    fix n assume n: "n \<in> set (m_identity m)"
    then obtain i where i: "i < length (m_identity m)" "n = m_identity m ! i" by (metis in_set_conv_nth)
    from mo n obtain f where f: "field_of m n = Some f" by (auto simp: model_ok_def identity_ok_def split: option.splits)
    from map_of_bt_of_zip [OF d, of "map g (m_identity m)" i] i have "map_of ?r n = Some (g n)" by simp
    with f assms(3) [OF n f] show "identity_value x s m ?r n = Inr (g n)" by (simp add: identity_value_def)
  qed
  moreover have "set (bt_keys ?r) = set (m_identity m)"
    by (metis bt_keys_def keys_bt_of length_map map_fst_zip set_map)
  ultimately show ?thesis using d assms(2)
    by (simp add: o'_def obj_def z record_key_def identity_loop length_bt_of_zip bex_simps)
qed

lemma identity_index:
  assumes "n \<in> set ns"
  shows "index (obj (map (\<lambda>n. (n, g n)) ns)) n = g n"
proof -
  have "map_of (rev (map (\<lambda>n. (n, g n)) ns)) n = Some (g n)"
    using assms by (simp add: rev_map map_of_map_restrict)
  then show ?thesis by (simp add: index_def obj_def map_of_bt_of)
qed

lemma row_key_made:
  assumes "schema_ok s" and "model_of s name = Inr m" and "row_ok x s m row"
  shows "record_key x s name (identity_of_row m row) = Inr (key_of m row)"
  using identity_made [OF assms(1,2), where g = "index row" and x = x] row_value [OF assms(3)] model_of_in [OF assms(2)]
  by (simp add: identity_of_row_def key_of_def)

text \<open>The row read by a normal identity is the one that has its values.\<close>

lemma params_inject:
  assumes "model_ok s m" and "n \<in> set (m_identity m)"
    and "\<And>f. field_of m n = Some f \<Longrightarrow> normalize_value x s f u = Inr u"
    and "\<And>f. field_of m n = Some f \<Longrightarrow> normalize_value x s f v = Inr v"
  shows "parameter x u = parameter x v \<longleftrightarrow> u = v"
proof
  from assms(1,2) obtain f where f: "field_of m n = Some f" "\<not> f_nullable f" "is_scalar (f_type f)"
    by (auto simp: model_ok_def identity_ok_def split: option.splits)
  from f(3) have l: "\<not> is_list (f_type f)" by (cases "f_type f") simp_all
  from assms(4) [OF f(1)] f(2) have v: "v \<noteq> JNull" by (auto simp: normalize_value_def is_null_def)
  assume p: "parameter x u = parameter x v"
  have "parameter x v \<noteq> SNull" using parameter_null [OF assms(4) [OF f(1)] l] v by simp
  then have "sql_eq (parameter x u) (parameter x v)" unfolding p by (cases "parameter x v") simp_all
  with sql_eq_normal [OF assms(3,4) l v] f(1) show "u = v" by simp
qed simp

lemma identity_params_eq:
  assumes "model_ok s m"
    and "\<And>n f. n \<in> set (m_identity m) \<Longrightarrow> field_of m n = Some f \<Longrightarrow> normalize_value x s f (index a n) = Inr (index a n)"
    and "\<And>n f. n \<in> set (m_identity m) \<Longrightarrow> field_of m n = Some f \<Longrightarrow> normalize_value x s f (index b n) = Inr (index b n)"
  shows "identity_params x m a = identity_params x m b \<longleftrightarrow> (\<forall>n \<in> set (m_identity m). index a n = index b n)"
  using params_inject [OF assms(1) _ assms(2,3)] by (simp add: identity_params_def)

lemma read_made:
  assumes "schema_ok s" and "model_of s name = Inr m" and "holds_rows x s m rows (w_db w)"
    and "\<And>n f. n \<in> set (m_identity m) \<Longrightarrow> field_of m n = Some f \<Longrightarrow> normalize_value x s f (index i n) = Inr (index i n)"
  shows "read_row x s \<lparr>k_model = name, k_identity = i\<rparr> w =
     (Inr (find (\<lambda>r. \<forall>n \<in> set (m_identity m). index r n = index i n) rows), w)"
proof -
  from assms(1,2) have mo: "model_ok s m" by (rule schema_ok_model)
  from assms(3) have rows: "\<forall>r \<in> set rows. row_ok x s m r" and t: "d_tables (w_db w) name = table_of x m rows"
    using model_of_in [OF assms(2)] by (simp_all add: holds_rows_def)
  have "map_of (table_of x m rs) (identity_params x m i) =
      map_option (row_params x m) (find (\<lambda>r. \<forall>n \<in> set (m_identity m). index r n = index i n) rs)"
    if "set rs \<subseteq> set rows" for rs
    using that
  proof (induction rs)
    case (Cons r rs)
    with rows have "row_ok x s m r" by simp
    note r = row_value [OF this]
    have "identity_params x m r = identity_params x m i \<longleftrightarrow> (\<forall>n \<in> set (m_identity m). index r n = index i n)"
      by (rule identity_params_eq [OF mo]) (erule r, erule (1) assms(4))
    then have "identity_params x m i = identity_params x m r \<longleftrightarrow> (\<forall>n \<in> set (m_identity m). index r n = index i n)"
      by (simp only: eq_commute)
    moreover from Cons have "map_of (table_of x m rs) (identity_params x m i) =
        map_option (row_params x m) (find (\<lambda>r. \<forall>n \<in> set (m_identity m). index r n = index i n) rs)" by simp
    ultimately show ?case by (simp add: table_of_def)
  qed (simp add: table_of_def)
  from this [OF subset_refl] have "row_at x m name i (w_db w) =
      Inr (find (\<lambda>r. \<forall>n \<in> set (m_identity m). index r n = index i n) rows)"
    using rows row_codec [OF _ mo] by (auto simp: row_at_def t split: option.splits dest!: find_Some_in)
  then show ?thesis using assms(2) by (simp add: read_row_def row_get_def query_res_def bindM_def)
qed

section \<open>The two ends\<close>

lemma fields_of_reference:
  assumes "schema_ok s" and "model_of s source = Inr m" and "model_of s target = Inr t"
    and "r \<in> set (m_relations m)" and "r_target r = target"
  shows "r_target_fields r = m_identity t" and "length (r_fields r) = length (m_identity t)"
    and "(l, n) \<in> set (zip (r_fields r) (m_identity t)) \<Longrightarrow>
      \<exists>f g. field_of m l = Some f \<and> field_of t n = Some g \<and> f_type f = f_type g \<and> is_scalar (f_type g) \<and> \<not> f_nullable g"
proof -
  have "relation_ok s m r" using assms(1,2,4) model_of_in by (auto simp: schema_ok_def)
  then have ok: "r_target_fields r = m_identity t"
      "list_all2 (\<lambda>l n. \<exists>f g. field_of m l = Some f \<and> field_of t n = Some g \<and> f_type f = f_type g) (r_fields r) (m_identity t)"
    using assms(3,5) by (auto simp: relation_ok_def)
  then show "r_target_fields r = m_identity t" and "length (r_fields r) = length (m_identity t)"
    by (simp_all add: list_all2_lengthD)
  assume z: "(l, n) \<in> set (zip (r_fields r) (m_identity t))"
  from schema_ok_model [OF assms(1,3)] have "identity_ok t n" using set_zip_rightD [OF z] by (simp add: model_ok_def)
  with ok(2) z show "\<exists>f g. field_of m l = Some f \<and> field_of t n = Some g \<and> f_type f = f_type g \<and> is_scalar (f_type g) \<and> \<not> f_nullable g"
    by (fastforce simp: list_all2_iff identity_ok_def split: option.splits)
qed

text \<open>Across a reference a value that is not null is normal at both ends or at none.\<close>

lemma normal_across:
  assumes "f_type f = f_type g" and "v \<noteq> JNull"
  shows "normalize_value x s f v = Inr v \<longleftrightarrow> normalize_value x s g v = Inr v"
  using assms by (simp add: normalize_value_def is_null_def)

lemma normal_present: "normalize_value x s g v = Inr v \<Longrightarrow> \<not> f_nullable g \<Longrightarrow> v \<noteq> JNull"
  by (auto simp: normalize_value_def is_null_def)

definition points_at :: "model_desc \<Rightarrow> relation_desc \<Rightarrow> json \<Rightarrow> json \<Rightarrow> bool" where
  "points_at t r row goal \<longleftrightarrow> (\<forall>(l, n) \<in> set (zip (r_fields r) (m_identity t)). index row l = index goal n)"

lemma find_named:
  "distinct (map r_name rs) \<Longrightarrow> r \<in> set rs \<Longrightarrow> P r \<Longrightarrow> (\<And>q. P q \<Longrightarrow> r_name q = r_name r) \<Longrightarrow>
   find P rs = Some r"
proof (induction rs)
  case (Cons q rs)
  show ?case
  proof (cases "q = r")
    case False
    with Cons.prems(2) have "r \<in> set rs" by simp
    then have "r_name r \<in> r_name ` set rs" by simp
    moreover have "r_name q \<notin> r_name ` set rs" using Cons.prems(1) by simp
    ultimately have "r_name q \<noteq> r_name r" by metis
    with Cons.prems(4) [of q] have "\<not> P q" by blast
    moreover have "distinct (map r_name rs)" using Cons.prems(1) by simp
    from Cons.IH [OF this \<open>r \<in> set rs\<close> Cons.prems(3,4)] have "find P rs = Some r" .
    ultimately show ?thesis by simp
  qed (simp add: Cons.prems(3))
qed simp

lemma find_relation:
  assumes "schema_ok s" and "model_of s source = Inr m" and "r \<in> set (m_relations m)" and "P r"
    and "\<And>q. P q \<Longrightarrow> r_name q = r_name r"
  shows "relation_named m P msg = Inr r"
proof -
  have "distinct (map r_name (m_relations m))" using assms(1,2) model_of_in by (auto simp: schema_ok_def)
  then have "find P (m_relations m) = Some r" using assms(3-5) by (rule find_named)
  then show ?thesis by (simp add: relation_named_def)
qed

lemma identity_row_index: "n \<in> set (m_identity m) \<Longrightarrow> index (identity_of_row m row) n = index row n"
  unfolding identity_of_row_def by (rule identity_index)

lemma identity_of_row_eq:
  "identity_of_row m a = identity_of_row m b \<longleftrightarrow> (\<forall>n \<in> set (m_identity m). index a n = index b n)"
  (is "?l \<longleftrightarrow> ?r")
proof
  assume l: ?l
  show ?r
  proof
    fix n assume n: "n \<in> set (m_identity m)"
    from arg_cong [OF l, of "\<lambda>i. index i n"] show "index a n = index b n"
      by (simp only: identity_row_index [OF n])
  qed
next
  assume ?r
  then have "map (\<lambda>f. (f, index a f)) (m_identity m) = map (\<lambda>f. (f, index b f)) (m_identity m)" by simp
  then show ?l unfolding identity_of_row_def by (rule arg_cong)
qed

lemma find_keyed:
  "distinct (map g rows) \<Longrightarrow> row \<in> set rows \<Longrightarrow> (\<forall>r. P r \<longleftrightarrow> g r = g row) \<Longrightarrow> find P rows = Some row"
proof (induction rows)
  case (Cons q rows)
  show ?case
  proof (cases "q = row")
    case False
    with Cons.prems have "row \<in> set rows" "g q \<noteq> g row" by (auto simp: image_iff)
    with Cons show ?thesis by simp
  qed (simp add: Cons.prems(3))
qed simp

lemma read_own:
  assumes "schema_ok s" and "model_of s name = Inr m" and "holds_rows x s m rows (w_db w)" and "row \<in> set rows"
  shows "read_row x s (key_of m row) w = (Inr (Some row), w)"
proof -
  from assms(3,4) have d: "distinct (map (identity_of_row m) rows)" and ok: "row_ok x s m row"
    by (simp_all add: holds_rows_def)
  have "find (\<lambda>r. \<forall>n \<in> set (m_identity m). index r n = index (identity_of_row m row) n) rows = Some row"
    by (rule find_keyed [OF d assms(4)]) (simp add: identity_of_row_eq identity_row_index)
  with read_made [OF assms(1-3), of "identity_of_row m row"] row_value [OF ok] model_of_in [OF assms(2)]
  show ?thesis by (simp add: key_of_def identity_row_index)
qed

lemma zip_to_keys:
  assumes "distinct ns" and "length ls = length ns"
  shows "map (\<lambda>(l, n). (n, h l)) (zip ls ns) = map (\<lambda>n. (n, h (the (map_of (zip ns ls) n)))) ns"
  using assms by (intro nth_equalityI) (simp_all add: map_of_zip_nth)

lemma referenced_identity_made:
  assumes "schema_ok s" and "model_of s source = Inr m" and "model_of s target = Inr t"
    and "r \<in> set (m_relations m)" and "r_target r = target" and "row_ok x s m row"
    and "\<forall>l \<in> set (r_fields r). index row l \<noteq> JNull"
  obtains i where "referenced_identity r row = Some i"
    and "record_key x s target i = Inr \<lparr>k_model = target, k_identity = i\<rparr>"
    and "\<And>n f. n \<in> set (m_identity t) \<Longrightarrow> field_of t n = Some f \<Longrightarrow> normalize_value x s f (index i n) = Inr (index i n)"
    and "\<And>goal. points_at t r row goal \<longleftrightarrow> (\<forall>n \<in> set (m_identity t). index goal n = index i n)"
proof
  note rel = fields_of_reference [OF assms(1-5)]
  let ?ns = "m_identity t" and ?ls = "r_fields r"
  let ?g = "\<lambda>n. index row (the (map_of (zip ?ns ?ls) n))"
  let ?i = "obj (map (\<lambda>n. (n, ?g n)) ?ns)"
  have d: "distinct ?ns" using schema_ok_model [OF assms(1,3)] by (simp add: model_ok_def)
  from assms(7) show "referenced_identity r row = Some ?i"
    by (auto simp: referenced_identity_def rel(1) is_null_def zip_to_keys [OF d rel(2)] dest: set_zip_leftD)
  have at: "?g (?ns ! j) = index row (?ls ! j)" if "j < length ?ns" for j
    using that by (simp add: map_of_zip_nth [OF rel(2) [symmetric] d] rel(2))
  have norm: "normalize_value x s g (?g n) = Inr (?g n)" if n: "n \<in> set ?ns" and g: "field_of t n = Some g" for n g
  proof -
    from n obtain j where j: "j < length ?ns" "n = ?ns ! j" by (metis in_set_conv_nth)
    with rel(2) have "(?ls ! j, n) \<in> set (zip ?ls ?ns)" and l: "?ls ! j \<in> set ?ls" by (auto simp: in_set_zip)
    from rel(3) [OF this(1)] g obtain f where f: "field_of m (?ls ! j) = Some f" "f_type f = f_type g" by auto
    from row_value [OF assms(6) f(1)] normal_across [OF f(2)] assms(7) l show ?thesis by (simp add: at [OF j(1)] j(2))
  qed
  show "record_key x s target ?i = Inr \<lparr>k_model = target, k_identity = ?i\<rparr>"
    by (rule identity_made [OF assms(1,3)]) (rule norm)
  show "normalize_value x s f (index ?i n) = Inr (index ?i n)" if "n \<in> set ?ns" "field_of t n = Some f" for n f
    using norm [OF that] by (simp only: identity_index [OF that(1)])
  show "points_at t r row goal \<longleftrightarrow> (\<forall>n \<in> set ?ns. index goal n = index ?i n)" for goal
  proof -
    have "points_at t r row goal \<longleftrightarrow> (\<forall>j < length ?ns. index row (?ls ! j) = index goal (?ns ! j))"
      using rel(2) by (auto simp: points_at_def in_set_zip)
    also have "\<dots> \<longleftrightarrow> (\<forall>n \<in> set ?ns. ?g n = index goal n)" using at by (auto simp: all_set_conv_all_nth)
    also have "\<dots> \<longleftrightarrow> (\<forall>n \<in> set ?ns. index goal n = ?g n)" by (intro ball_cong refl eq_commute)
    also have "\<dots> \<longleftrightarrow> (\<forall>n \<in> set ?ns. index goal n = index ?i n)"
      by (intro ball_cong refl) (simp only: identity_index)
    finally show ?thesis .
  qed
qed

text \<open>\<open>related\<close> reads the row its reference points at, and nothing through a null.\<close>

lemma related_reads:
  assumes "schema_ok s" and "model_of s source = Inr m" and "model_of s target = Inr t"
    and "r \<in> set (m_relations m)" and "r_target r = target"
    and "holds_rows x s m rows (w_db w)" and "holds_rows x s t targets (w_db w)" and "row \<in> set rows"
  shows "related x s (key_of m row) (r_name r) w = (Inr (find (points_at t r row) targets), w)"
proof -
  from assms(6,8) have ok: "row_ok x s m row" by (simp add: holds_rows_def)
  have k: "record_key x s (k_model (key_of m row)) (k_identity (key_of m row)) = Inr (key_of m row)"
    using row_key_made [OF assms(1,2) ok] model_of_in [OF assms(2)] by (simp add: key_of_def)
  have rn: "relation_named m (\<lambda>q. r_name q = r_name r) ''unknown relation'' = Inr r"
    by (rule find_relation [OF assms(1,2,4)]) simp_all
  have own: "model_of s (k_model (key_of m row)) = Inr m" using assms(2) model_of_in [OF assms(2)] by (simp add: key_of_def)
  note go = related_def k own rn read_own [OF assms(1,2,6,8)]
  show ?thesis
  proof (cases "\<forall>l \<in> set (r_fields r). index row l \<noteq> JNull")
    case True
    obtain i where i: "referenced_identity r row = Some i"
        "record_key x s target i = Inr \<lparr>k_model = target, k_identity = i\<rparr>"
        "\<And>n f. n \<in> set (m_identity t) \<Longrightarrow> field_of t n = Some f \<Longrightarrow> normalize_value x s f (index i n) = Inr (index i n)"
        "\<And>goal. points_at t r row goal \<longleftrightarrow> (\<forall>n \<in> set (m_identity t). index goal n = index i n)"
      by (rule referenced_identity_made [OF assms(1-5) ok True]) blast
    from i(4) have p: "points_at t r row = (\<lambda>goal. \<forall>n \<in> set (m_identity t). index goal n = index i n)" by (rule ext)
    show ?thesis using read_made [OF assms(1,3,7) i(3)] by (simp add: go i(1,2) assms(5) p)
  next
    case False
    note rel = fields_of_reference [OF assms(1-5)]
    from False obtain l n where ln: "(l, n) \<in> set (zip (r_fields r) (m_identity t))" "index row l = JNull"
      using rel(2) by (metis in_set_impl_in_set_zip1)
    then have "referenced_identity r row = None" by (auto simp: referenced_identity_def rel(1) is_null_def)
    moreover have "\<not> points_at t r row goal" if "goal \<in> set targets" for goal
    proof -
      from that assms(7) have "row_ok x s t goal" by (simp add: holds_rows_def)
      with rel(3) [OF ln(1)] have "index goal n \<noteq> JNull" by (metis row_value normal_present)
      with ln show ?thesis by (force simp: points_at_def)
    qed
    then have "find (points_at t r row) targets = None" by (simp add: find_None_iff)
    ultimately show ?thesis by (simp add: go)
  qed
qed

text \<open>\<open>referencing\<close> finds the rows that point at the record.\<close>

lemma referencing_reads:
  assumes "schema_ok s" and "model_of s source = Inr m" and "model_of s target = Inr t"
    and "r \<in> set (m_relations m)" and "r_target r = target" and "distinct (r_fields r)"
    and "holds_rows x s m rows (w_db w)" and "holds_rows x s t targets (w_db w)" and "goal \<in> set targets"
  shows "\<exists>found. referencing x s (key_of t goal) source (r_name r) w = (Inr found, w) \<and>
     mset found = mset (filter (\<lambda>row. points_at t r row goal) rows)"
proof -
  note rel = fields_of_reference [OF assms(1-5)]
  from assms(8,9) have ok: "row_ok x s t goal" by (simp add: holds_rows_def)
  have tn: "m_name t = target" using model_of_in [OF assms(3)] by simp
  have k: "record_key x s (k_model (key_of t goal)) (k_identity (key_of t goal)) = Inr (key_of t goal)"
    using row_key_made [OF assms(1,3) ok] tn by (simp add: key_of_def)
  have rn: "relation_named m (\<lambda>q. r_name q = r_name r \<and> r_target q = target) ''unknown inverse relation'' = Inr r"
    by (rule find_relation [OF assms(1,2,4)]) (simp_all add: assms(5))
  let ?pairs = "map (\<lambda>(l, n). (l, index (identity_of_row t goal) n)) (zip (r_fields r) (m_identity t))"
  let ?conds = "bt_of ?pairs"
  have d: "distinct (map fst ?pairs)" using assms(6) rel(2) by (simp add: comp_def case_prod_beta' map_fst_zip)
  have same: "map_of ?conds = map_of ?pairs" by (simp only: map_of_bt_of distinct_map_of_rev [OF d])
  have mem: "(l, v) \<in> set ?conds \<longleftrightarrow> (l, v) \<in> set ?pairs" for l v
    by (simp only: map_of_eq_Some_iff [OF d, symmetric] map_of_eq_Some_iff [OF bt_ok_distinct [OF bt_ok_bt_of], symmetric] same)
  have each: "\<exists>f n. (l, n) \<in> set (zip (r_fields r) (m_identity t)) \<and> v = index goal n \<and> field_of m l = Some f \<and>
      \<not> is_list (f_type f) \<and> normalize_value x s f v = Inr v" if lv: "(l, v) \<in> set ?conds" for l v
  proof -
    from lv mem obtain n where n: "(l, n) \<in> set (zip (r_fields r) (m_identity t))" "v = index (identity_of_row t goal) n" by auto
    with set_zip_rightD [OF n(1)] have v: "v = index goal n" by (simp add: identity_row_index)
    from rel(3) [OF n(1)] obtain f g where f: "field_of m l = Some f" "field_of t n = Some g" "f_type f = f_type g"
        "is_scalar (f_type g)" "\<not> f_nullable g" by blast
    from row_value [OF ok f(2)] have g: "normalize_value x s g v = Inr v" by (simp add: v)
    from g normal_across [OF f(3) normal_present [OF g f(5)]] have "normalize_value x s f v = Inr v" by simp
    moreover have "\<not> is_list (f_type f)" using f(3,4) by (cases "f_type g") simp_all
    ultimately show ?thesis using n(1) v f(1) by blast
  qed
  have "emap (condition x s m) ?conds = Inr (map (\<lambda>nv. nv) ?conds)"
  proof (rule emap_all_ok, clarify)
    fix l v assume "(l, v) \<in> set ?conds"
    from each [OF this] show "condition x s m (l, v) = Inr (l, v)" by (auto simp: condition_def query_field_def)
  qed
  then have conds: "emap (condition x s m) ?conds = Inr ?conds" by simp
  let ?spec = "\<lparr>qs_filter = ?conds, qs_order = [], qs_limit = None\<rparr>"
  have ev: "evaluate x s source ?spec w = (Inr (sort_by (row_order m []) (filter (matches ?conds) rows)), w)"
  proof -
    have "\<forall>(n, v) \<in> set ?conds. \<exists>f. field_of m n = Some f \<and> \<not> is_list (f_type f) \<and> normalize_value x s f v = Inr v"
      using each by blast
    from evaluate_rows [OF assms(1,2,7) _ _ this, of ?spec] conds show ?thesis by (simp add: limited_def)
  qed
  have pm: "matches ?conds row \<longleftrightarrow> points_at t r row goal" for row
  proof -
    have "matches ?conds row \<longleftrightarrow> (\<forall>(l, v) \<in> set ?pairs. index row l = v)"
      unfolding matches_def using mem by (metis (mono_tags, lifting) case_prodI2 case_prodD)
    also have "\<dots> \<longleftrightarrow> points_at t r row goal"
      unfolding points_at_def using identity_row_index by (fastforce dest: set_zip_rightD)
    finally show ?thesis .
  qed
  have "filter (matches ?conds) rows = filter (\<lambda>row. points_at t r row goal) rows"
    by (rule filter_cong [OF refl pm])
  moreover have "referencing x s (key_of t goal) source (r_name r) w = evaluate x s source ?spec w"
    using assms(2) by (simp add: referencing_def k rn rel(1)) (simp add: key_of_def rn tn rel(1))
  ultimately show ?thesis using ev by (simp add: sort_by_mset)
qed

text \<open>
  C25: the two ends of a reference agree. In a valid schema, for a reference that names no field
  twice (validation does not ask for that), and over tables of normal rows, the rows
  \<open>referencing\<close> finds for a stored record of the target model are exactly the rows of the source
  model whose \<open>related\<close> record it is; a row with a null in the reference is related to nothing
  and found for nothing.
\<close>
theorem referencing_inverts_related:
  assumes "schema_ok s" and "model_of s source = Inr m" and "model_of s target = Inr t"
    and "r \<in> set (m_relations m)" and "r_target r = target" and "distinct (r_fields r)"
    and "holds_rows x s m rows (w_db w)" and "holds_rows x s t targets (w_db w)" and "goal \<in> set targets"
  shows "\<exists>found. referencing x s (key_of t goal) source (r_name r) w = (Inr found, w) \<and>
     set found = {row \<in> set rows. related x s (key_of m row) (r_name r) w = (Inr (Some goal), w)}"
proof -
  have d: "distinct (map (identity_of_row t) targets)" using assms(8) by (simp add: holds_rows_def)
  from referencing_reads [OF assms] obtain found where
    found: "referencing x s (key_of t goal) source (r_name r) w = (Inr found, w)"
      "mset found = mset (filter (\<lambda>row. points_at t r row goal) rows)" by blast
  have "find (points_at t r row) targets = Some goal \<longleftrightarrow> points_at t r row goal" for row
  proof
    assume p: "points_at t r row goal"
    with assms(9) obtain other where o': "find (points_at t r row) targets = Some other"
      using find_None [of "points_at t r row" targets] by fastforce
    from find_Some_in [OF this] have other: "other \<in> set targets" "points_at t r row other" by simp_all
    have "\<exists>l. (l, n) \<in> set (zip (r_fields r) (m_identity t))" if "n \<in> set (m_identity t)" for n
      using that fields_of_reference(2) [OF assms(1-5)] by (metis in_set_impl_in_set_zip2)
    with p other(2) have "identity_of_row t other = identity_of_row t goal"
      unfolding identity_of_row_eq points_at_def by fastforce
    with d other(1) assms(9) have "other = goal" by (simp add: distinct_map inj_on_def)
    with o' show "find (points_at t r row) targets = Some goal" by simp
  qed (auto dest: find_Some_in)
  with related_reads [OF assms(1-5,7,8)] have "set found = {row \<in> set rows. related x s (key_of m row) (r_name r) w = (Inr (Some goal), w)}"
    using mset_eq_setD [OF found(2)] by auto
  with found(1) show ?thesis by blast
qed

end
