(* ===== verification/QueryRuns.thy ===== *)
theory QueryRuns
  imports Samples References
begin

text \<open>Concrete queries: the witnesses of the properties of queries and references.\<close>

definition list_row :: "string \<Rightarrow> json" where
  "list_row i = JObj [(''id'', JStr i), (''title'', JStr ''a'')]"

definition task_row :: "nat \<Rightarrow> json \<Rightarrow> string \<Rightarrow> json" where
  "task_row n l t = JObj [(''id'', jnat n), (''listId'', l), (''state'', JStr ''open''), (''title'', JStr t)]"

definition lists :: "json list" where
  "lists = [list_row ''l1'', list_row ''l2'']"

definition tasks :: "json list" where
  "tasks = [task_row 1 (JStr ''l1'') ''milk'', task_row 2 JNull ''eggs'', task_row 3 (JStr ''l1'') ''bread'']"

definition queried :: work where
  "queried = work0\<lparr>w_db := db0\<lparr>d_tables := (\<lambda>n. if n = ''Task'' then table_of x0 task_model tasks
     else if n = ''List'' then table_of x0 list_model lists else [])\<rparr>\<rparr>"

lemma samples_found: "model_of s0 ''List'' = Inr list_model" "model_of s0 ''Task'' = Inr task_model"
  by (simp_all add: model_of_def s0_defs)

lemma list_rows_ok: "row_ok x0 s0 list_model (list_row i)"
  by (auto simp: row_ok_def list_row_def normal_values_def columns_def s0_defs scalar_eval list_texts_ok_def
      bt_ok_def split: if_splits)

lemma task_rows_ok: "n < 100 \<Longrightarrow> row_ok x0 s0 task_model (task_row n JNull t)"
    "n < 100 \<Longrightarrow> row_ok x0 s0 task_model (task_row n (JStr l) t)"
  by (auto simp: row_ok_def task_row_def normal_values_def columns_def s0_defs scalar_eval list_texts_ok_def
      bt_ok_def split: if_splits)

lemma queried_rows: "holds_rows x0 s0 list_model lists (w_db queried)" "holds_rows x0 s0 task_model tasks (w_db queried)"
  using list_rows_ok task_rows_ok
  by (simp_all add: holds_rows_def queried_def work0_def lists_def tasks_def identity_of_row_def s0_defs
      obj_def bt_of_def index_def list_row_def task_row_def)

definition by_title :: query_spec where
  "by_title = \<lparr>qs_filter = [(''listId'', JStr ''l1'')],
     qs_order = [\<lparr>qo_field = ''title'', qo_direction = Descending\<rparr>], qs_limit = Some 1\<rparr>"

theorem query_answers_witness:
  "\<exists>sorted. fst (evaluate x0 s0 ''Task'' by_title queried) = Inr (take 1 sorted) \<and> length sorted = 2"
proof -
  have c: "emap (condition x0 s0 task_model) (qs_filter by_title) = Inr [(''listId'', JStr ''l1'')]"
    by (simp add: by_title_def condition_def query_field_def s0_defs scalar_eval)
  have o': "echeck (check_order task_model) (qs_order by_title) = Inr ()"
    by (simp add: by_title_def check_order_def query_field_def s0_defs scalar_eval)
  have s: "\<forall>(n, v) \<in> set [(''listId'', JStr ''l1'')]. \<forall>f. field_of task_model n = Some f \<longrightarrow> storable (f_type f) v"
    by (simp add: s0_defs field_of_def)
  from query_answers [OF s0_ok x0_ok samples_found(2) queried_rows(2) c o' s] obtain sorted where
      "evaluate x0 s0 ''Task'' by_title queried = (Inr (limited (qs_limit by_title) sorted), queried)"
      "mset sorted = mset (filter (\<lambda>row. \<forall>(n, v) \<in> set [(''listId'', JStr ''l1'')]. index row n = v) tasks)" by blast
  moreover from this(2) have "length sorted = 2"
    by (simp add: tasks_def task_row_def index_def flip: size_mset)
  ultimately show ?thesis by (auto simp: by_title_def limited_def)
qed

theorem referencing_inverts_related_witness:
  "\<exists>found. fst (referencing x0 s0 (key_of list_model (list_row ''l1'')) ''Task'' ''list'' queried) = Inr found \<and>
     (task_row 1 (JStr ''l1'') ''milk'' \<in> set found \<longleftrightarrow>
      fst (related x0 s0 (key_of task_model (task_row 1 (JStr ''l1'') ''milk'')) ''list'' queried) = Inr (Some (list_row ''l1'')))"
proof -
  let ?r = "\<lparr>r_name = ''list'', r_target = ''List'', r_fields = [''listId''], r_target_fields = [''id''], r_on_delete = ''delete''\<rparr>"
  have r: "?r \<in> set (m_relations task_model)" "r_target ?r = ''List''" "distinct (r_fields ?r)"
    by (simp_all add: task_model_def)
  have g: "list_row ''l1'' \<in> set lists" by (simp add: lists_def)
  have t: "task_row 1 (JStr ''l1'') ''milk'' \<in> set tasks" by (simp add: tasks_def)
  note reads = related_reads [OF s0_ok samples_found(2,1) r(1,2) queried_rows(2,1) t]
  from referencing_inverts_related [OF s0_ok samples_found(2,1) r queried_rows(2,1) g] t reads show ?thesis
    by fastforce
qed

section \<open>A reference with a repeated field\<close>

text \<open>
  \<open>validate\<close> accepts a reference that names one field twice. Its rows refer to a record by both
  values, so \<open>related\<close> finds nothing here; but the filter \<open>referencing\<close> builds is a map by
  field, so it keeps only the last pair, and finds the row.
\<close>

definition pair_model :: model_desc where
  "pair_model = \<lparr>m_name = ''Pair'', m_version = 1, m_identity = [''a'', ''b''],
     m_fields = [field ''a'' (TScalar StString) False, field ''b'' (TScalar StString) False], m_relations = [], m_unique = []\<rparr>"

definition item_model :: model_desc where
  "item_model = \<lparr>m_name = ''Item'', m_version = 1, m_identity = [''id''],
     m_fields = [field ''id'' (TScalar StString) False, field ''both'' (TScalar StString) False],
     m_relations = [\<lparr>r_name = ''pair'', r_target = ''Pair'', r_fields = [''both'', ''both''],
       r_target_fields = [''a'', ''b''], r_on_delete = ''none''\<rparr>], m_unique = []\<rparr>"

definition s2 :: schema where
  "s2 = \<lparr>s_enums = [], s_models = [pair_model, item_model], s_requirements = [], s_prerequisites = [], s_policies = []\<rparr>"

definition pair_row :: json where
  "pair_row = JObj [(''a'', JStr ''x''), (''b'', JStr ''y'')]"

definition item_row :: json where
  "item_row = JObj [(''both'', JStr ''y''), (''id'', JStr ''i'')]"

definition paired :: work where
  "paired = work0\<lparr>w_db := db0\<lparr>d_tables := (\<lambda>n. if n = ''Pair'' then table_of x0 pair_model [pair_row]
     else if n = ''Item'' then table_of x0 item_model [item_row] else [])\<rparr>\<rparr>"

lemma s2_ok: "schema_ok s2"
  by (auto simp: schema_ok_def s2_def pair_model_def item_model_def model_ok_def field_def max_safe_integer_def
      field_ok_def enum_ok_def identity_ok_def field_of_def relation_ok_def model_of_def reserved_model_name_def
      starts_with_def lowercase_def to_lower_def is_upper_def Let_def)

theorem repeated_reference_field:
  "schema_ok s2 \<and> fst (referencing x0 s2 (key_of pair_model pair_row) ''Item'' ''pair'' paired) = Inr [item_row] \<and>
   fst (related x0 s2 (key_of item_model item_row) ''pair'' paired) = Inr None"
proof (intro conjI s2_ok)
  show "fst (referencing x0 s2 (key_of pair_model pair_row) ''Item'' ''pair'' paired) = Inr [item_row]" by code_simp
  show "fst (related x0 s2 (key_of item_model item_row) ''pair'' paired) = Inr None" by code_simp
qed

end
