(* ===== verification/Encoding.thy ===== *)
theory Encoding
  imports Descriptors
begin

text \<open>
  The derived encoders of the runtime descriptors (\<open>crates/core/src/schema.rs\<close>), which the
  client stores its schema by: what is written is read back.
\<close>

section \<open>Encoders\<close>

fun scalar_name :: "scalar_type \<Rightarrow> string" where
  "scalar_name StString = ''string''"
| "scalar_name StBoolean = ''boolean''"
| "scalar_name StInt = ''int''"
| "scalar_name StFloat = ''float''"
| "scalar_name StDateTime = ''dateTime''"
| "scalar_name StUuid = ''uuid''"

fun encode_type :: "value_type \<Rightarrow> json" where
  "encode_type (TScalar t) = obj [(''kind'', JStr ''scalar''), (''name'', JStr (scalar_name t))]"
| "encode_type (TEnum n) = obj [(''kind'', JStr ''enum''), (''name'', JStr n)]"
| "encode_type (TList t) = obj [(''kind'', JStr ''list''), (''element'', encode_type t)]"

definition strings_json :: "string list \<Rightarrow> json" where
  "strings_json ss = JArr (map JStr ss)"

text \<open>\<open>skip_serializing_if\<close>: an empty list or an absent default is left out.\<close>

definition unless_empty :: "string \<Rightarrow> json list \<Rightarrow> (string \<times> json) list" where
  "unless_empty k vs = (if vs = [] then [] else [(k, JArr vs)])"

definition encode_enum :: "enum_desc \<Rightarrow> json" where
  "encode_enum e = obj [(''name'', JStr (e_name e)), (''values'', strings_json (e_values e))]"

definition encode_field :: "field_desc \<Rightarrow> json" where
  "encode_field f = obj ([(''name'', JStr (f_name f)), (''type'', encode_type (f_type f)),
     (''nullable'', JBool (f_nullable f))] @ (case f_default f of None \<Rightarrow> [] | Some v \<Rightarrow> [(''default'', v)]))"

definition encode_relation :: "relation_desc \<Rightarrow> json" where
  "encode_relation r = obj [(''name'', JStr (r_name r)), (''target'', JStr (r_target r)),
     (''fields'', strings_json (r_fields r)), (''targetFields'', strings_json (r_target_fields r)),
     (''onDelete'', JStr (r_on_delete r))]"

definition encode_model :: "model_desc \<Rightarrow> json" where
  "encode_model m = obj ([(''name'', JStr (m_name m)), (''version'', jnat (m_version m)),
     (''identity'', strings_json (m_identity m)), (''fields'', JArr (map encode_field (m_fields m)))]
     @ unless_empty ''relations'' (map encode_relation (m_relations m))
     @ unless_empty ''unique'' (map strings_json (m_unique m)))"

definition encode_requirement :: "requirement_desc \<Rightarrow> json" where
  "encode_requirement q = obj [(''model'', JStr (q_model q)), (''field'', JStr (q_field q)),
     (''name'', JStr (q_name q)), (''arguments'', obj (map (\<lambda>(k, v). (k, JStr v)) (q_arguments q)))]"

definition encode_schema :: "schema \<Rightarrow> json" where
  "encode_schema s = obj ([(''enums'', JArr (map encode_enum (s_enums s))),
     (''models'', JArr (map encode_model (s_models s)))]
     @ unless_empty ''requirements'' (map encode_requirement (s_requirements s))
     @ unless_empty ''prerequisites'' (s_prerequisites s)
     @ unless_empty ''clientPolicies'' (s_policies s))"

section \<open>What is written is read back\<close>

text \<open>A default of null is read as none, and arguments are a \<open>BTreeMap\<close>.\<close>

definition writable :: "schema \<Rightarrow> bool" where
  "writable s \<longleftrightarrow> (\<forall>m \<in> set (s_models s). \<forall>f \<in> set (m_fields m). f_default f \<noteq> Some JNull) \<and>
     (\<forall>q \<in> set (s_requirements s). bt_ok (q_arguments q))"

lemma scalar_named_name: "scalar_named (scalar_name t) = Some t"
  by (cases t) (simp_all add: scalar_named_def)

lemma decode_type_encode: "decode_type (encode_type t) = Inr t"
proof (induction t)
  case (TScalar t)
  show ?case by (subst decode_type.simps) (simp add: needed_obj decode_string_def scalar_named_name)
next
  case (TEnum n)
  show ?case by (subst decode_type.simps) (simp add: needed_obj decode_string_def)
next
  case (TList t)
  then show ?case by (subst decode_type.simps) (simp add: needed_obj decode_string_def wire_obj)
qed

lemma decode_strings_json: "decode_list decode_string (strings_json ss) = Inr ss"
  by (simp add: strings_json_def decode_strings)

lemma decode_enum_encode: "decode_enum (encode_enum e) = Inr e"
  by (simp add: decode_enum_def encode_enum_def enum_names_def needed_obj decode_strings_json decode_string_def)

lemma decode_field_encode: "f_default f \<noteq> Some JNull \<Longrightarrow> decode_field (encode_field f) = Inr f"
  by (auto simp: decode_field_def encode_field_def field_names_def needed_obj defaulted_obj decode_string_def
      decode_bool_def decode_type_encode is_null_def split: option.splits)

lemma decode_relation_encode: "decode_relation (encode_relation r) = Inr r"
  by (simp add: decode_relation_def encode_relation_def relation_names_def needed_obj decode_strings_json decode_string_def)

lemma defaulted_read:
  assumes "map_of (rev kvs) k = map_of (unless_empty k (map g as)) k" and "\<And>a. a \<in> set as \<Longrightarrow> f (g a) = Inr a"
  shows "defaulted names (obj kvs) k [] (decode_list f) = Inr as"
  using assms decode_list_map [of as f g id] by (auto simp: defaulted_obj unless_empty_def)

lemma needed_list:
  assumes "map_of (rev kvs) k = Some (JArr (map g as))" and "\<And>a. a \<in> set as \<Longrightarrow> f (g a) = Inr a"
  shows "needed names (obj kvs) k (decode_list f) = Inr as"
  using assms decode_list_map [of as f g id] by (simp add: needed_obj)

lemma decode_model_encode:
  assumes "\<forall>f \<in> set (m_fields m). f_default f \<noteq> Some JNull"
  shows "decode_model (encode_model m) = Inr m"
proof -
  have "defaulted model_names (encode_model m) ''relations'' [] (decode_list decode_relation) = Inr (m_relations m)"
    unfolding encode_model_def
    by (rule defaulted_read [where g = encode_relation]) (simp_all add: unless_empty_def decode_relation_encode)
  moreover have "defaulted model_names (encode_model m) ''unique'' [] (decode_list (decode_list decode_string)) = Inr (m_unique m)"
    unfolding encode_model_def
    by (rule defaulted_read [where g = strings_json]) (simp_all add: unless_empty_def decode_strings_json)
  moreover have "needed model_names (encode_model m) ''fields'' (decode_list decode_field) = Inr (m_fields m)"
    unfolding encode_model_def
    by (rule needed_list [where g = encode_field]) (simp_all add: unless_empty_def decode_field_encode assms)
  moreover have "needed model_names (encode_model m) ''identity'' (decode_list decode_string) = Inr (m_identity m)"
    by (simp add: encode_model_def needed_obj unless_empty_def decode_strings_json)
  moreover have "defaulted model_names (encode_model m) ''version'' 1 decode_u64 = Inr (m_version m)"
    by (simp add: encode_model_def defaulted_obj unless_empty_def decode_u64_def)
  moreover have "needed model_names (encode_model m) ''name'' decode_string = Inr (m_name m)"
    by (simp add: encode_model_def needed_obj unless_empty_def decode_string_def)
  moreover have "shaped model_names (encode_model m) = Inr ()" by (simp add: encode_model_def)
  ultimately show ?thesis by (simp add: decode_model_def)
qed

lemma decode_requirement_encode:
  assumes "bt_ok (q_arguments q)"
  shows "decode_requirement (encode_requirement q) = Inr q"
proof -
  let ?args = "map (\<lambda>(k, v). (k, JStr v)) (q_arguments q)"
  have "map fst ?args = map fst (q_arguments q)" by (simp add: comp_def case_prod_beta')
  then have "bt_ok ?args" using assms by (simp only: bt_ok_def)
  then have "as_object (obj ?args) = Some ?args" by (simp add: obj_def bt_of_sorted)
  moreover have "emap (\<lambda>(k, w). map_sum id (Pair k) (decode_string w)) ?args = Inr (map id (q_arguments q))"
    unfolding emap_map by (rule emap_all_ok) (auto simp: decode_string_def)
  ultimately have "decode_string_map (obj ?args) = Inr (q_arguments q)"
    using assms by (simp add: decode_string_map_def bt_of_sorted)
  then show ?thesis
    by (simp add: decode_requirement_def encode_requirement_def requirement_names_def needed_obj decode_string_def)
qed

text \<open>A schema that was stored is read back as it is.\<close>

lemma decode_schema_encode:
  assumes "writable s"
  shows "decode_schema (encode_schema s) = Inr s"
proof -
  have "needed schema_names (encode_schema s) ''enums'' (decode_list decode_enum) = Inr (s_enums s)"
    unfolding encode_schema_def
    by (rule needed_list [where g = encode_enum]) (simp_all add: unless_empty_def decode_enum_encode)
  moreover have "needed schema_names (encode_schema s) ''models'' (decode_list decode_model) = Inr (s_models s)"
    unfolding encode_schema_def using assms
    by (intro needed_list [where g = encode_model]) (simp_all add: unless_empty_def decode_model_encode writable_def)
  moreover have "defaulted schema_names (encode_schema s) ''requirements'' [] (decode_list decode_requirement) = Inr (s_requirements s)"
    unfolding encode_schema_def using assms
    by (intro defaulted_read [where g = encode_requirement])
      (simp_all add: unless_empty_def decode_requirement_encode writable_def)
  moreover have "defaulted schema_names (encode_schema s) ''prerequisites'' [] (decode_list Inr) = Inr (s_prerequisites s)"
    unfolding encode_schema_def by (rule defaulted_read [where g = id]) (simp_all add: unless_empty_def)
  moreover have "defaulted schema_names (encode_schema s) ''clientPolicies'' [] (decode_list Inr) = Inr (s_policies s)"
    unfolding encode_schema_def by (rule defaulted_read [where g = id]) (simp_all add: unless_empty_def)
  moreover have "shaped schema_names (encode_schema s) = Inr ()" by (simp add: encode_schema_def)
  ultimately show ?thesis by (simp add: decode_schema_def)
qed

end
