(* ===== verification/Layouts.thy ===== *)
theory Layouts
  imports Encoding Client Compat
begin

text \<open>
  One database file and how opening makes it fit a schema (\<open>crates/client/src/ddl.rs\<close>, the
  descriptor of \<open>schema_store.rs\<close>, the counts of \<open>lib.rs\<close>): which layout a file has, whether its
  tables can be reconciled with a schema, and the reconciliation.
\<close>

section \<open>A file\<close>

text \<open>
  A model table's columns with their declared types, and its primary key. A row keeps its values
  in the order of the columns.
\<close>

record table_layout =
  ly_columns :: "(string \<times> string) list"
  ly_identity :: "string list"

text \<open>
  What a file holds: its framework tables, the columns of two of them, the stored schema, the
  model tables' layouts, the unique indexes by name, and the rows. SQLite compares the names of
  tables, columns and indexes without their case: the layouts and the indexes are kept by the name
  in lower case.
\<close>

record dbfile =
  fl_framework :: "string list"
  fl_client_columns :: "string list"
  fl_mutation_columns :: "string list"
  fl_descriptor :: "string option"
  fl_layouts :: "string \<Rightarrow> table_layout option"
  fl_indexes :: "string list"
  fl_db :: db

definition empty_db :: db where
  "empty_db = \<lparr>d_client = None, d_stamps = [], d_subs = [], d_mutations = [], d_operations = [],
     d_deps = [], d_prereqs = [], d_rejections = [], d_tables = (\<lambda>_. [])\<rparr>"

definition empty_file :: dbfile where
  "empty_file = \<lparr>fl_framework = [], fl_client_columns = [], fl_mutation_columns = [], fl_descriptor = None,
     fl_layouts = (\<lambda>_. None), fl_indexes = [], fl_db = empty_db\<rparr>"

abbreviation layout_at :: "dbfile \<Rightarrow> string \<Rightarrow> table_layout option" where
  "layout_at fl table \<equiv> fl_layouts fl (lowercase table)"

text \<open>A table's new layout and rows, under every spelling of its name.\<close>

definition put_table :: "string \<Rightarrow> table_layout \<Rightarrow> (table \<Rightarrow> table) \<Rightarrow> dbfile \<Rightarrow> dbfile" where
  "put_table table l g fl = fl\<lparr>fl_layouts := (fl_layouts fl)(lowercase table \<mapsto> l),
     fl_db := (fl_db fl)\<lparr>d_tables :=
       (\<lambda>t. (if lowercase t = lowercase table then g else id) (d_tables (fl_db fl) t))\<rparr>\<rparr>"

lemma put_table_simps [simp]:
  "fl_layouts (put_table t l g fl) = (fl_layouts fl)(lowercase t \<mapsto> l)"
  "fl_indexes (put_table t l g fl) = fl_indexes fl" "fl_descriptor (put_table t l g fl) = fl_descriptor fl"
  "fl_framework (put_table t l g fl) = fl_framework fl"
  "fl_client_columns (put_table t l g fl) = fl_client_columns fl"
  "fl_mutation_columns (put_table t l g fl) = fl_mutation_columns fl"
  "fl_db (put_table t l g fl) = (fl_db fl)\<lparr>d_tables := (\<lambda>u. if lowercase u = lowercase t then g (d_tables (fl_db fl) u)
     else d_tables (fl_db fl) u)\<rparr>"
  by (simp_all add: put_table_def fun_eq_iff)

type_synonym 'a filing = "(dbfile, err, 'a) comp"

text \<open>
  SQLite's part: the text \<open>json_object\<close> makes of named values, and the value a column of a
  declared type takes from the literal of its default.
\<close>

record sqlite =
  q_object :: "(string \<times> sqlval) list \<Rightarrow> string"
  q_literal :: "string \<Rightarrow> string \<Rightarrow> sqlval"

section \<open>The framework's tables\<close>

definition framework_tables :: "string list" where
  "framework_tables = [''ahead_schema'', ''ahead_client'', ''ahead_record'', ''ahead_subscription'',
     ''ahead_mutation'', ''ahead_mutation_operation'', ''ahead_mutation_dependency'',
     ''ahead_mutation_prerequisite'', ''ahead_rejection'']"

definition legacy_tables :: "string list" where
  "legacy_tables = [''ahead_claim'', ''ahead_push_checkpoint'']"

definition client_columns :: "string list" where
  "client_columns = [''last_completed_push'', ''push_models'']"

text \<open>\<open>CREATE TABLE IF NOT EXISTS\<close> of every framework table.\<close>

definition framework_ddl :: "dbfile \<Rightarrow> dbfile" where
  "framework_ddl fl = fl\<lparr>
     fl_framework := fl_framework fl @ filter (\<lambda>t. t \<notin> set (fl_framework fl)) framework_tables,
     fl_client_columns := (if ''ahead_client'' \<in> set (fl_framework fl) then fl_client_columns fl
       else [''client_id'', ''next_ordinal'', ''next_push'', ''generation'', ''last_completed_push'', ''push_models'']),
     fl_mutation_columns := (if ''ahead_mutation'' \<in> set (fl_framework fl) then fl_mutation_columns fl
       else [''ordinal'', ''name'', ''version'', ''push'', ''diverged''])\<rparr>"

text \<open>\<open>ADDED_COLUMNS\<close>: \<open>diverged INTEGER NOT NULL DEFAULT 0\<close>.\<close>

definition add_framework_columns :: "dbfile \<Rightarrow> dbfile" where
  "add_framework_columns fl =
     (if ''diverged'' \<in> set (fl_mutation_columns fl) then fl
      else fl\<lparr>fl_mutation_columns := fl_mutation_columns fl @ [''diverged''],
        fl_db := (fl_db fl)\<lparr>d_mutations := map (\<lambda>(n, r). (n, r\<lparr>mr_diverged := False\<rparr>)) (d_mutations (fl_db fl))\<rparr>\<rparr>)"

datatype file_layout = FreshLayout | CurrentLayout | LegacyLayout string

definition check_layout :: "dbfile \<Rightarrow> file_layout" where
  "check_layout fl =
     (case find (\<lambda>t. t \<in> set (fl_framework fl)) legacy_tables of
        Some t \<Rightarrow> LegacyLayout (''table '' @ t)
      | None \<Rightarrow>
          if ''ahead_client'' \<notin> set (fl_framework fl) then FreshLayout
          else (case find (\<lambda>c. c \<notin> set (fl_client_columns fl)) client_columns of
              Some c \<Rightarrow> LegacyLayout (''ahead_client lacks '' @ c)
            | None \<Rightarrow> CurrentLayout))"

section \<open>Columns\<close>

fun storage_type :: "value_type \<Rightarrow> string" where
  "storage_type (TScalar t) = (if t = StBoolean \<or> t = StInt then ''INTEGER''
     else if t = StFloat then ''REAL'' else ''TEXT'')"
| "storage_type _ = ''TEXT''"

text \<open>Single quotes are doubled.\<close>

definition sql_quoted :: "string \<Rightarrow> string" where
  "sql_quoted s = [CHR 0x27] @ concat (map (\<lambda>c. if c = CHR 0x27 then [c, c] else [c]) s) @ [CHR 0x27]"

definition literal :: "ext \<Rightarrow> field_desc \<Rightarrow> string res" where
  "literal x f =
     bindE (ok_or (f_default f) (invalid (''column '' @ f_name f @ '' is not nullable and has no default'')))
     (\<lambda>v. case v of
        JBool b \<Rightarrow> Inr (if b then ''1'' else ''0'')
      | JNum n \<Rightarrow> Inr (x_text x v)
      | JStr s \<Rightarrow> Inr (sql_quoted s)
      | JNull \<Rightarrow> Inl (invalid (''column '' @ f_name f @ '' default cannot be null''))
      | _ \<Rightarrow> Inr (sql_quoted (x_text x v)))"

text \<open>The values the rows of a table take in a new column.\<close>

definition column_default :: "sqlite \<Rightarrow> ext \<Rightarrow> field_desc \<Rightarrow> sqlval res" where
  "column_default q x f =
     (if f_nullable f then Inr SNull
      else map_sum id (q_literal q (storage_type (f_type f))) (literal x f))"

definition named_cell :: "string list \<Rightarrow> sqlval list \<Rightarrow> string \<Rightarrow> sqlval" where
  "named_cell names vals n = (case map_of (zip names vals) n of Some v \<Rightarrow> v | None \<Rightarrow> SNull)"

definition create_table :: "ext \<Rightarrow> string \<Rightarrow> model_desc \<Rightarrow> unit filing" where
  "create_table x table m fl =
     (if layout_at fl table \<noteq> None then (Inr (), fl)
      else if lowercase table \<in> set (fl_indexes fl) then (Inl (constraint_error x ''name''), fl)
      else if \<not> distinct (map (\<lambda>f. lowercase (f_name f)) (m_fields m))
      then (Inl (constraint_error x ''duplicate column name''), fl)
      else (Inr (), put_table table
          \<lparr>ly_columns = map (\<lambda>f. (f_name f, storage_type (f_type f))) (m_fields m), ly_identity = m_identity m\<rparr>
          (\<lambda>_. []) fl))"

definition add_column :: "ext \<Rightarrow> string \<Rightarrow> string \<Rightarrow> sqlval \<Rightarrow> string \<Rightarrow> unit filing" where
  "add_column x name ty v table fl =
     (case layout_at fl table of
        None \<Rightarrow> (Inl (constraint_error x ''no such table''), fl)
      | Some l \<Rightarrow>
          if lowercase name \<in> lowercase ` fst ` set (ly_columns l)
          then (Inl (constraint_error x ''duplicate column name''), fl)
          else (Inr (), put_table table (l\<lparr>ly_columns := ly_columns l @ [(name, ty)]\<rparr>)
            (map (\<lambda>(k, vals). (k, map (named_cell (map fst (ly_columns l)) vals) (map fst (ly_columns l)) @ [v]))) fl))"

definition index_name :: "model_desc \<Rightarrow> string list \<Rightarrow> string" where
  "index_name m cols = m_name m @ ''_'' @ join ''_'' cols @ ''_unique''"

text \<open>\<open>CREATE UNIQUE INDEX IF NOT EXISTS\<close>, which fails over rows that are not unique.\<close>

fun rows_unique :: "string list \<Rightarrow> string list \<Rightarrow> table \<Rightarrow> bool" where
  "rows_unique names cols [] = True"
| "rows_unique names cols ((k, vals) # rows) =
     ((\<forall>(_, other) \<in> set rows. \<not> list_all (\<lambda>c. sql_eq (named_cell names vals c) (named_cell names other c)) cols) \<and>
      rows_unique names cols rows)"

definition create_index :: "ext \<Rightarrow> model_desc \<Rightarrow> string list \<Rightarrow> unit filing" where
  "create_index x m cols fl =
     (let name = lowercase (index_name m cols) in
      if name \<in> set (fl_indexes fl) then (Inr (), fl)
      else if fl_layouts fl name \<noteq> None then (Inl (constraint_error x ''name''), fl)
      else (case layout_at fl (m_name m) of
          None \<Rightarrow> (Inl (constraint_error x ''no such table''), fl)
        | Some l \<Rightarrow>
            if \<not> rows_unique (map fst (ly_columns l)) cols (d_tables (fl_db fl) (m_name m))
            then (Inl (constraint_error x ''UNIQUE''), fl)
            else (Inr (), fl\<lparr>fl_indexes := name # fl_indexes fl\<rparr>)))"

section \<open>Reconciliation\<close>

text \<open>
  A column of the schema against the table's: \<open>None\<close> when the table lacks it, otherwise the
  declared type, in capitals.
\<close>

definition to_upper :: "char \<Rightarrow> char" where
  "to_upper c = (if is_lower c then char_of (byte c - 32) else c)"

definition column_type :: "table_layout \<Rightarrow> string \<Rightarrow> string option" where
  "column_type l n = map_option (map to_upper) (map_of (ly_columns l) n)"

definition type_clash :: "model_desc \<Rightarrow> field_desc \<Rightarrow> string \<Rightarrow> string" where
  "type_clash m f ty = ''column '' @ m_name m @ ''.'' @ f_name f @ '' is '' @ ty @ '' in the database but ''
     @ storage_type (f_type f) @ '' in the schema''"

text \<open>Why a table cannot be used: the refusals of the reconciliation, by reading only.\<close>

definition column_fits :: "model_desc \<Rightarrow> table_layout \<Rightarrow> field_desc \<Rightarrow> string + unit" where
  "column_fits m l f = (case column_type l (f_name f) of
       Some ty \<Rightarrow> ensure (ty = storage_type (f_type f)) (type_clash m f ty)
     | None \<Rightarrow> ensure (f_nullable f \<or> f_default f \<noteq> None)
         (''column '' @ m_name m @ ''.'' @ f_name f @ '' is not nullable and has no default''))"

definition table_fits :: "dbfile \<Rightarrow> model_desc \<Rightarrow> string + unit" where
  "table_fits fl m = (case layout_at fl (m_name m) of
       None \<Rightarrow> Inr ()
     | Some l \<Rightarrow> bindE (ensure (ly_identity l = m_identity m) (''identity columns of '' @ m_name m @ '' changed''))
         (\<lambda>_. echeck (column_fits m l) (m_fields m)))"

definition incompatibility :: "schema \<Rightarrow> dbfile \<Rightarrow> string option" where
  "incompatibility s fl = (case echeck (table_fits fl) (s_models s) of Inl reason \<Rightarrow> Some reason | Inr _ \<Rightarrow> None)"

definition reconcile_column :: "sqlite \<Rightarrow> ext \<Rightarrow> model_desc \<Rightarrow> table_layout \<Rightarrow> field_desc \<Rightarrow> unit filing" where
  "reconcile_column q x m l f = (case column_type l (f_name f) of
       Some ty \<Rightarrow> liftM (ensure (ty = storage_type (f_type f)) (invalid (type_clash m f ty)))
     | None \<Rightarrow> bindM (liftM (column_default q x f))
         (\<lambda>v. forM (add_column x (f_name f) (storage_type (f_type f)) v) [m_name m, before_table (m_name m)]))"

text \<open>
  The order of a table's columns is not visible, as every statement names its columns: they are
  kept with the schema's columns first, in the schema's order.
\<close>

definition column_order :: "model_desc \<Rightarrow> table_layout \<Rightarrow> string list" where
  "column_order m l = columns m @ filter (\<lambda>n. n \<notin> set (columns m)) (map fst (ly_columns l))"

definition in_order :: "model_desc \<Rightarrow> string \<Rightarrow> dbfile \<Rightarrow> dbfile" where
  "in_order m table fl = (case layout_at fl table of
       None \<Rightarrow> fl
     | Some l \<Rightarrow> put_table table
         (l\<lparr>ly_columns := map (\<lambda>n. (n, case map_of (ly_columns l) n of Some ty \<Rightarrow> ty | None \<Rightarrow> '''')) (column_order m l)\<rparr>)
         (map (\<lambda>(k, vals). (k, map (named_cell (map fst (ly_columns l)) vals) (column_order m l)))) fl)"

definition reconcile_model :: "sqlite \<Rightarrow> ext \<Rightarrow> model_desc \<Rightarrow> unit filing" where
  "reconcile_model q x m fl = (case layout_at fl (m_name m) of
       None \<Rightarrow> bindM (forM (\<lambda>t. create_table x t m) [m_name m, before_table (m_name m)])
         (\<lambda>_. forM (create_index x m) (m_unique m)) fl
     | Some l \<Rightarrow>
         bindM (liftM (ensure (ly_identity l = m_identity m)
           (invalid (''identity columns of '' @ m_name m @ '' changed; cannot open''))))
         (\<lambda>_. bindM (forM (reconcile_column q x m l) (m_fields m))
         (\<lambda>_. bindM (forM (create_index x m) (m_unique m))
         (\<lambda>_. modifyM (in_order m (before_table (m_name m)) \<circ> in_order m (m_name m))))) fl)"

definition reconcile :: "sqlite \<Rightarrow> ext \<Rightarrow> schema \<Rightarrow> unit filing" where
  "reconcile q x s = forM (reconcile_model q x) (s_models s)"

section \<open>The stored schema\<close>

definition descriptor_text :: "ext \<Rightarrow> schema \<Rightarrow> string" where
  "descriptor_text x s = canonical_json x (encode_schema s)"

definition write_descriptor :: "ext \<Rightarrow> schema \<Rightarrow> unit filing" where
  "write_descriptor x s = modifyM (\<lambda>fl. fl\<lparr>fl_descriptor := Some (descriptor_text x s)\<rparr>)"

definition read_descriptor :: "ext \<Rightarrow> dbfile \<Rightarrow> schema option res" where
  "read_descriptor x fl = (case fl_descriptor fl of
       None \<Rightarrow> Inr None
     | Some t \<Rightarrow> bindE (from_str x t) (\<lambda>v. bindE (schema_from_value v) (\<lambda>s. Inr (Some s))))"

section \<open>Counts\<close>

definition count_mutations :: "ext \<Rightarrow> dbfile \<Rightarrow> nat res" where
  "count_mutations x fl = (if ''ahead_mutation'' \<in> set (fl_framework fl) then Inr (length (d_mutations (fl_db fl)))
     else Inl (constraint_error x ''no such table''))"

text \<open>Rows without a stamp and without a pending operation: nothing will ever send them.\<close>

definition row_identity :: "sqlite \<Rightarrow> model_desc \<Rightarrow> string list \<Rightarrow> sqlval list \<Rightarrow> string" where
  "row_identity q m names vals = q_object q (map (\<lambda>k. (k, named_cell names vals k)) (sort (m_identity m)))"

definition count_unsent :: "sqlite \<Rightarrow> ext \<Rightarrow> dbfile \<Rightarrow> model_desc \<Rightarrow> nat \<Rightarrow> nat res" where
  "count_unsent q x fl m n = (case layout_at fl (m_name m) of
       None \<Rightarrow> Inl (constraint_error x ''no such table'')
     | Some l \<Rightarrow> Inr (n + length (filter (\<lambda>(_, vals).
         let identity = row_identity q m (map fst (ly_columns l)) vals in
         map_of (d_stamps (fl_db fl)) (m_name m, identity) = None \<and>
         \<not> (\<exists>(_, r) \<in> set (d_operations (fl_db fl)). or_model r = m_name m \<and> or_identity r = identity))
         (d_tables (fl_db fl) (m_name m)))))"

definition count_direct :: "sqlite \<Rightarrow> ext \<Rightarrow> schema \<Rightarrow> dbfile \<Rightarrow> nat res" where
  "count_direct q x s fl = efold (count_unsent q x fl) (s_models s) 0"

end
