(* ===== verification/Opening.thy ===== *)
theory Opening
  imports Layouts
begin

text \<open>
  Opening a client's database and rebuilding it beside (\<open>open\<close>, \<open>open_at\<close>, \<open>rebuild\<close> of
  \<open>crates/client/src/lib.rs\<close>, \<open>schema_store.rs\<close>). The files of the application's directory are
  the state; what can fail outside the program is an argument.
\<close>

section \<open>The directory\<close>

text \<open>
  The database files by name, and the text of the sidecar \<open><path>.current\<close>, if there is one.
\<close>

record disk =
  dk_files :: "(string \<times> dbfile) list"
  dk_sidecar :: "string option"

type_synonym 'a disk_op = "(disk, err, 'a) comp"

text \<open>
  Outcomes outside the program: whether the sidecar cannot be read or the directory not listed,
  which files cannot be opened or removed, how the transactions fare, the new client id.
\<close>

record env =
  v_unreadable :: bool
  v_unlisted :: bool
  v_open :: "string \<Rightarrow> err option"
  v_reopen :: "err option"
  v_removes :: "string \<Rightarrow> bool"
  v_io :: io
  v_write :: io
  v_sidecar :: "err option"
  v_uuid :: string

definition strip_prefix :: "string \<Rightarrow> string \<Rightarrow> string option" where
  "strip_prefix p s = (if starts_with p s then Some (drop (length p) s) else None)"

text \<open>The file the sidecar names, or the path's own; a sidecar that cannot be read names nothing.\<close>

definition current_file :: "env \<Rightarrow> string \<Rightarrow> disk \<Rightarrow> string" where
  "current_file v p d = (case dk_sidecar d of
       None \<Rightarrow> p
     | Some t \<Rightarrow> if v_unreadable v \<or> trim t = [] then p else trim t)"

definition set_current_file :: "env \<Rightarrow> string \<Rightarrow> unit disk_op" where
  "set_current_file v file d = (case v_sidecar v of
       Some e \<Rightarrow> (Inl e, d)
     | None \<Rightarrow> (Inr (), d\<lparr>dk_sidecar := Some (file @ newline)\<rparr>))"

definition file_number :: "string \<Rightarrow> string \<Rightarrow> nat" where
  "file_number p file = (case strip_prefix (p @ ''.'') file of
       None \<Rightarrow> 0
     | Some rest \<Rightarrow> (case parse_u64 rest of None \<Rightarrow> 0 | Some n \<Rightarrow> n))"

definition numbered :: "string \<Rightarrow> string \<Rightarrow> bool" where
  "numbered p file \<longleftrightarrow> (case strip_prefix (p @ ''.'') file of
       None \<Rightarrow> False
     | Some rest \<Rightarrow> rest \<noteq> [] \<and> list_all is_digit rest)"

definition numbered_files :: "env \<Rightarrow> string \<Rightarrow> disk \<Rightarrow> string list" where
  "numbered_files v p d = (if v_unlisted v then [] else filter (numbered p) (map fst (dk_files d)))"

text \<open>One above the highest number, in 64 bits.\<close>

definition next_free_file :: "env \<Rightarrow> string \<Rightarrow> disk \<Rightarrow> string" where
  "next_free_file v p d =
     (let highest = fold max (map (file_number p) (numbered_files v p d)) 0 in
      p @ ''.'' @ decimal ((highest + 1) mod 2 ^ 64))"

text \<open>Removing a file can fail; nobody looks.\<close>

definition remove_database_files :: "env \<Rightarrow> string \<Rightarrow> disk \<Rightarrow> disk" where
  "remove_database_files v file d =
     (if v_removes v file then d\<lparr>dk_files := bt_del file (dk_files d)\<rparr> else d)"

text \<open>Opening a store creates its file when there is none.\<close>

definition factory :: "env \<Rightarrow> string \<Rightarrow> unit disk_op" where
  "factory v file d = (case v_open v file of
       Some e \<Rightarrow> (Inl e, d)
     | None \<Rightarrow> (Inr (), if map_of (dk_files d) file = None
         then d\<lparr>dk_files := bt_ins file empty_file (dk_files d)\<rparr> else d))"

text \<open>A computation on the store opened at a file.\<close>

definition on_file :: "string \<Rightarrow> 'a filing \<Rightarrow> 'a disk_op" where
  "on_file file m d = (case map_of (dk_files d) file of
       None \<Rightarrow> (Inl (invalid ''store not open''), d)
     | Some fl \<Rightarrow> (case m fl of (r, fl') \<Rightarrow> (r, d\<lparr>dk_files := bt_ins file fl' (dk_files d)\<rparr>)))"

section \<open>Opening one store\<close>

definition new_client :: "schema \<Rightarrow> string \<Rightarrow> nat \<Rightarrow> db \<Rightarrow> client" where
  "new_client s i g d = \<lparr>c_store = \<lparr>s_file = d, s_open = None\<rparr>, c_schema = s, c_id = i, c_generation = g,
     c_watchers = [], c_session = None, c_last_changed = [], c_pulls = pulls_default\<rparr>"

text \<open>The client row, made with the first open.\<close>

definition client_identity :: "string \<Rightarrow> (string \<times> nat) filing" where
  "client_identity i fl = (case d_client (fl_db fl) of
       Some r \<Rightarrow> (Inr (cl_id r, cl_generation r), fl)
     | None \<Rightarrow> (Inr (i, 1), fl\<lparr>fl_db := (fl_db fl)\<lparr>d_client := Some \<lparr>cl_id = i, cl_next_ordinal = 1,
         cl_next_push = 1, cl_generation = 1, cl_last_completed = 0, cl_push_models = None\<rparr>\<rparr>\<rparr>))"

definition fit :: "sqlite \<Rightarrow> ext \<Rightarrow> string \<Rightarrow> schema \<Rightarrow> (string \<times> nat) filing" where
  "fit q x i s = bindM (reconcile q x s) (\<lambda>_. bindM (write_descriptor x s) (\<lambda>_. client_identity i))"

text \<open>
  The framework's tables are made first, outside the transaction; the schema's tables, the
  descriptor and the client row inside it. A store that is dropped drops its transaction.
\<close>

definition open_store :: "sqlite \<Rightarrow> ext \<Rightarrow> io \<Rightarrow> string \<Rightarrow> schema \<Rightarrow> client filing" where
  "open_store q x io i s fl =
     (case validate s of
        Inl e \<Rightarrow> (Inl e, fl)
      | Inr _ \<Rightarrow> (case check_layout fl of
          LegacyLayout what \<Rightarrow> (Inl (invalid (''this database was created by an earlier Ahead runtime ('' @ what
            @ ''); open it through a path so it can be rebuilt beside'')), fl)
        | _ \<Rightarrow>
          (let fl' = add_framework_columns (framework_ddl fl) in
           case io_begin io of
             Some e \<Rightarrow> (Inl e, fl')
           | None \<Rightarrow> (case fit q x i s fl' of
               (Inl e, _) \<Rightarrow> (Inl (case io_rollback io of Some e' \<Rightarrow> e' | None \<Rightarrow> e), fl')
             | (Inr (i', g), fl'') \<Rightarrow> (case io_commit io of
                 Some e \<Rightarrow> (Inl e, fl')
               | None \<Rightarrow> (Inr (new_client s i' g (fl_db fl'')), fl''))))))"

section \<open>Opening a path\<close>

record pending_rebuild =
  pr_old :: string
  pr_reason :: string
  pr_pending :: nat
  pr_direct :: nat

record rebuild_report =
  rr_old :: string
  rr_new :: string
  rr_reason :: string
  rr_pending :: nat
  rr_direct :: nat

record schema_state =
  sc_rebuilt :: bool
  sc_pending :: "pending_rebuild option"
  sc_last :: "rebuild_report option"

text \<open>A client with the file its store is open at, the outcome of the check, and its origin.\<close>

record opened =
  h_client :: client
  h_file :: string
  h_state :: schema_state
  h_origin :: "(string \<times> schema) option"

definition no_state :: schema_state where
  "no_state = \<lparr>sc_rebuilt = False, sc_pending = None, sc_last = None\<rparr>"

definition open_file :: "sqlite \<Rightarrow> ext \<Rightarrow> env \<Rightarrow> string \<Rightarrow> schema \<Rightarrow> opened disk_op" where
  "open_file q x v file s =
     bindM (on_file file (open_store q x (v_io v) (v_uuid v) s))
     (\<lambda>c. retM \<lparr>h_client = c, h_file = file, h_state = no_state, h_origin = None\<rparr>)"

text \<open>A numbered file above the one in use is taken for the rest of an interrupted rebuild.\<close>

definition remove_strays :: "env \<Rightarrow> string \<Rightarrow> string \<Rightarrow> disk \<Rightarrow> disk" where
  "remove_strays v p in_use d = fold (remove_database_files v)
     (filter (\<lambda>f. file_number p in_use < file_number p f) (numbered_files v p d)) d"

text \<open>The old file's channels, as far as they can be read.\<close>

definition old_channels :: "env \<Rightarrow> string \<Rightarrow> disk \<Rightarrow> string list" where
  "old_channels v file d = (case v_reopen v of
       Some _ \<Rightarrow> []
     | None \<Rightarrow> (case map_of (dk_files d) file of
         None \<Rightarrow> []
       | Some fl \<Rightarrow> if ''ahead_subscription'' \<in> set (fl_framework fl) then map fst (d_subs (fl_db fl)) else []))"

text \<open>The client's committed content is what its file holds.\<close>

definition flushed :: "opened \<Rightarrow> disk \<Rightarrow> disk" where
  "flushed h d = (case map_of (dk_files d) (h_file h) of
       None \<Rightarrow> d
     | Some fl \<Rightarrow> d\<lparr>dk_files := bt_ins (h_file h) (fl\<lparr>fl_db := s_file (c_store (h_client h))\<rparr>) (dk_files d)\<rparr>)"

definition carry :: "ext \<Rightarrow> env \<Rightarrow> string list \<Rightarrow> opened \<Rightarrow> opened disk_op" where
  "carry x v channels h d =
     (if channels = [] then (Inr h, d)
      else (case client_write x (v_write v) (forM (\<lambda>channel. set_cursor channel 0) channels) (h_client h) of
          (r, c) \<Rightarrow> (let h' = h\<lparr>h_client := c\<rparr> in (map_sum id (\<lambda>_. h') r, flushed h' d))))"

definition rebuild_beside ::
  "sqlite \<Rightarrow> ext \<Rightarrow> env \<Rightarrow> string \<Rightarrow> string \<Rightarrow> schema \<Rightarrow> string \<Rightarrow> nat \<Rightarrow> nat \<Rightarrow> opened disk_op" where
  "rebuild_beside q x v p old s reason pending alone =
     bindM (modifyM (remove_strays v p old))
     (\<lambda>_. bindM (getsM (next_free_file v p))
     (\<lambda>new. bindM (getsM (old_channels v old))
     (\<lambda>channels. bindM (factory v new)
     (\<lambda>_. bindM (open_file q x v new s)
     (\<lambda>h. bindM (carry x v channels h)
     (\<lambda>h. bindM (set_current_file v new)
     (\<lambda>_. retM (h\<lparr>h_state := \<lparr>sc_rebuilt = True, sc_pending = sc_pending (h_state h),
        sc_last = Some \<lparr>rr_old = old, rr_new = new, rr_reason = reason, rr_pending = pending, rr_direct = alone\<rparr>\<rparr>\<rparr>))))))))"

text \<open>A database of the current layout, by the schema it was built for.\<close>

definition open_stored ::
  "sqlite \<Rightarrow> ext \<Rightarrow> env \<Rightarrow> string \<Rightarrow> string \<Rightarrow> schema \<Rightarrow> bool \<Rightarrow> schema \<Rightarrow> opened disk_op" where
  "open_stored q x v p file s discard stored = (case compatibility stored s of
       Incompatible reason \<Rightarrow>
         bindM (on_file file (readM (count_mutations x)))
         (\<lambda>pending. bindM (on_file file (readM (count_direct q x stored)))
         (\<lambda>alone. if 0 < pending \<and> \<not> discard
            then bindM (open_file q x v file stored)
              (\<lambda>h. retM (h\<lparr>h_state := (h_state h)\<lparr>sc_pending := Some \<lparr>pr_old = file, pr_reason = reason,
                 pr_pending = pending, pr_direct = alone\<rparr>\<rparr>\<rparr>))
            else rebuild_beside q x v p file s reason pending alone))
     | _ \<Rightarrow> open_file q x v file s)"

definition open_unrecorded :: "sqlite \<Rightarrow> ext \<Rightarrow> env \<Rightarrow> string \<Rightarrow> string \<Rightarrow> schema \<Rightarrow> opened disk_op" where
  "open_unrecorded q x v p file s =
     bindM (on_file file (getsM (incompatibility s)))
     (\<lambda>unfit. case unfit of
        None \<Rightarrow> open_file q x v file s
      | Some reason \<Rightarrow> bindM (on_file file (readM (count_mutations x)))
          (\<lambda>pending. rebuild_beside q x v p file s reason pending 0))"

definition open_at :: "sqlite \<Rightarrow> ext \<Rightarrow> env \<Rightarrow> string \<Rightarrow> schema \<Rightarrow> bool \<Rightarrow> opened disk_op" where
  "open_at q x v p s discard =
     bindM (liftM (validate s))
     (\<lambda>_. bindM (getsM (current_file v p))
     (\<lambda>file. bindM (factory v file)
     (\<lambda>_. bindM (on_file file (getsM check_layout))
     (\<lambda>layout. bindM
       (case layout of
          FreshLayout \<Rightarrow> open_file q x v file s
        | LegacyLayout what \<Rightarrow> bindM (on_file file (getsM (count_mutations x)))
            (\<lambda>n. rebuild_beside q x v p file s what (case n of Inr k \<Rightarrow> k | Inl _ \<Rightarrow> 0) 0)
        | CurrentLayout \<Rightarrow> bindM (on_file file (modifyM framework_ddl))
            (\<lambda>_. bindM (on_file file (readM (read_descriptor x)))
            (\<lambda>stored. case stored of
               None \<Rightarrow> open_unrecorded q x v p file s
             | Some s' \<Rightarrow> open_stored q x v p file s discard s')))
     (\<lambda>h. retM (h\<lparr>h_origin := Some (p, s)\<rparr>))))))"

section \<open>Rebuilding\<close>

definition take_over :: "client \<Rightarrow> opened \<Rightarrow> opened" where
  "take_over old fresh = fresh\<lparr>h_client :=
     notify (bs_of (map m_name (s_models (c_schema (h_client fresh))))) ((h_client fresh)\<lparr>c_watchers := c_watchers old\<rparr>)\<rparr>"

definition client_rebuild :: "sqlite \<Rightarrow> ext \<Rightarrow> env \<Rightarrow> bool \<Rightarrow> (opened \<times> disk, err, rebuild_report) comp" where
  "client_rebuild q x v discard od = (case od of (h, d) \<Rightarrow>
     (case sc_pending (h_state h) of
        None \<Rightarrow> (Inl (invalid ''no rebuild is pending''), od)
      | Some pr \<Rightarrow>
          if c_session (h_client h) \<noteq> None then (Inl (invalid ''client transaction active''), od)
          else (case fst (pending_count (h_client h)) of
              Inl e \<Rightarrow> (Inl e, od)
            | Inr remaining \<Rightarrow>
                if 0 < remaining \<and> \<not> discard
                then (Inl (invalid (decimal remaining @ '' unsent mutations remain in '' @ pr_old pr
                  @ ''; send them or rebuild with discardPending'')), od)
                else (case h_origin h of
                    None \<Rightarrow> (Inl (invalid ''client was not opened through a path''), od)
                  | Some (p, s) \<Rightarrow> (let h' = h\<lparr>h_origin := None\<rparr> in
                      case open_at q x v p s True (flushed h d) of
                        (Inl e, d') \<Rightarrow> (Inl e, (h', d'))
                      | (Inr fresh, d') \<Rightarrow> (case sc_last (h_state fresh) of
                          None \<Rightarrow> (Inl (invalid ''rebuild produced no report''), (h', d'))
                        | Some report \<Rightarrow> (Inr report, (take_over (h_client h) fresh, d'))))))))"

end
