(* ===== verification/OpenOk.thy ===== *)
theory OpenOk
  imports Opening
begin

text \<open>
  What opening keeps. A file that is opened keeps its queue, its stamps and every value of every
  row; the files beside it are not touched, unless they are numbered above the one in use.
\<close>

section \<open>What a file keeps\<close>

definition undiverged :: "(nat \<times> mutation_row) list \<Rightarrow> (nat \<times> mutation_row) list" where
  "undiverged ms = map (\<lambda>(n, r). (n, r\<lparr>mr_diverged := False\<rparr>)) ms"

definition queue_kept :: "db \<Rightarrow> db \<Rightarrow> bool" where
  "queue_kept d d' \<longleftrightarrow> undiverged (d_mutations d') = undiverged (d_mutations d) \<and> d_operations d' = d_operations d \<and>
     d_deps d' = d_deps d \<and> d_prereqs d' = d_prereqs d \<and> d_rejections d' = d_rejections d \<and>
     d_stamps d' = d_stamps d \<and> d_subs d' = d_subs d \<and> (d_client d \<noteq> None \<longrightarrow> d_client d' = d_client d)"

definition values_kept :: "string list \<Rightarrow> table \<Rightarrow> string list \<Rightarrow> table \<Rightarrow> bool" where
  "values_kept names t names' t' \<longleftrightarrow> set names \<subseteq> set names' \<and>
     list_all2 (\<lambda>(k, v) (k', v'). k' = k \<and> (\<forall>n \<in> set names. named_cell names' v' n = named_cell names v n)) t t'"

definition column_names :: "table_layout \<Rightarrow> string list" where
  "column_names l = map fst (ly_columns l)"

definition kept_table :: "string \<Rightarrow> dbfile \<Rightarrow> dbfile \<Rightarrow> bool" where
  "kept_table t fl fl' \<longleftrightarrow> (\<forall>l. layout_at fl t = Some l \<longrightarrow> (\<exists>l'. layout_at fl' t = Some l' \<and>
     values_kept (column_names l) (d_tables (fl_db fl) t) (column_names l') (d_tables (fl_db fl') t)))"

definition kept_file :: "dbfile \<Rightarrow> dbfile \<Rightarrow> bool" where
  "kept_file fl fl' \<longleftrightarrow> queue_kept (fl_db fl) (fl_db fl') \<and> (\<forall>t. kept_table t fl fl')"

lemma values_kept_refl: "values_kept names t names t"
  by (auto simp: values_kept_def intro!: list_all2_refl)

lemma values_kept_trans:
  assumes "values_kept a t b u" and "values_kept b u c v"
  shows "values_kept a t c v"
proof -
  let ?P = "\<lambda>a b (k, v) (k', v'). k' = k \<and> (\<forall>n \<in> set a. named_cell b v' n = named_cell a v n)"
  have s: "set a \<subseteq> set b" using assms(1) by (simp add: values_kept_def)
  have "list_all2 (?P a c) t v"
  proof (rule list_all2_trans)
    show "?P a b r r' \<Longrightarrow> ?P b c r' r'' \<Longrightarrow> ?P a c r r''" for r r' r'' using s by (auto simp: subset_iff)
    show "list_all2 (?P a b) t u" "list_all2 (?P b c) u v" using assms by (simp_all add: values_kept_def)
  qed
  with assms show ?thesis by (auto simp: values_kept_def)
qed

lemma kept_table_refl: "kept_table t fl fl"
  by (auto simp: kept_table_def values_kept_refl)

lemma kept_table_trans: "kept_table t a b \<Longrightarrow> kept_table t b c \<Longrightarrow> kept_table t a c"
  unfolding kept_table_def using values_kept_trans by meson

lemma queue_kept_refl: "queue_kept d d"
  by (simp add: queue_kept_def)

lemma queue_kept_trans: "queue_kept a b \<Longrightarrow> queue_kept b c \<Longrightarrow> queue_kept a c"
  by (auto simp: queue_kept_def)

interpretation kept_file: kept kept_file
proof
  show "kept_file s s" for s by (simp add: kept_file_def queue_kept_refl kept_table_refl)
  show "kept_file s u" if "kept_file s t" "kept_file t u" for s t u
    using that queue_kept_trans kept_table_trans unfolding kept_file_def by blast
qed

text \<open>A change of one table.\<close>

lemma put_table_kept:
  assumes "\<And>l rows. layout_at fl t = Some l \<Longrightarrow> values_kept (column_names l) rows (column_names l') (g rows)"
  shows "kept_file fl (put_table t l' g fl)"
  using assms by (auto simp: kept_file_def kept_table_def queue_kept_def values_kept_refl)

lemma kept_tables: "fl_layouts fl' = fl_layouts fl \<Longrightarrow> d_tables (fl_db fl') = d_tables (fl_db fl) \<Longrightarrow>
    queue_kept (fl_db fl) (fl_db fl') \<Longrightarrow> kept_file fl fl'"
  by (auto simp: kept_file_def kept_table_def values_kept_refl)

lemma framework_kept: "kept_file fl (add_framework_columns (framework_ddl fl))" "kept_file fl (framework_ddl fl)"
  by (auto simp: add_framework_columns_def framework_ddl_def undiverged_def queue_kept_def intro!: kept_tables)

lemma named_cell_map: "n \<in> set ns \<Longrightarrow> named_cell ns (map f ns) n = f n"
  by (simp add: named_cell_def map_of_zip_map)

lemma named_cell_append: "n \<in> set ns \<Longrightarrow> named_cell (ns @ [m]) (map f ns @ [v]) n = f n"
  by (simp add: named_cell_def map_of_zip_map map_add_def)

lemma create_table_kept: "keeps kept_file (create_table x t m)"
  by (rule keepsI) (auto simp: create_table_def kept_file.refl split: if_splits intro!: put_table_kept)

lemma add_column_kept: "keeps kept_file (add_column x n ty v t)"
proof (rule keepsI)
  fix fl r fl' assume a: "add_column x n ty v t fl = (r, fl')"
  show "kept_file fl fl'"
  proof (cases "fl' = fl")
    case False
    with a obtain l where l: "layout_at fl t = Some l" by (auto simp: add_column_def split: option.splits if_splits)
    define names where "names = map fst (ly_columns l)"
    with a False l have fl': "fl' = put_table t (l\<lparr>ly_columns := ly_columns l @ [(n, ty)]\<rparr>)
        (map (\<lambda>(k, vals). (k, map (named_cell names vals) names @ [v]))) fl"
      by (auto simp: add_column_def split: if_splits)
    have "values_kept names rows (names @ [n]) (map (\<lambda>(k, vals). (k, map (named_cell names vals) names @ [v])) rows)" for rows
      by (auto simp: values_kept_def list_all2_map2 named_cell_append intro!: list_all2_refl)
    then show ?thesis
      unfolding fl' by (intro put_table_kept) (auto simp: l column_names_def names_def)
  qed (simp add: kept_file.refl)
qed

lemma in_order_kept: "kept_file fl (in_order m t fl)"
proof (cases "layout_at fl t")
  case None
  then show ?thesis by (simp add: in_order_def kept_file.refl)
next
  case (Some l)
  have sub: "set (map fst (ly_columns l)) \<subseteq> set (column_order m l)" by (auto simp: column_order_def)
  then have "values_kept (column_names l) rows (column_order m l)
      (map (\<lambda>(k, vals). (k, map (named_cell (map fst (ly_columns l)) vals) (column_order m l))) rows)" for rows
    unfolding values_kept_def list_all2_map2 column_names_def
    by (intro conjI list_all2_refl) (auto simp: named_cell_map subset_iff)
  moreover have "column_names (l\<lparr>ly_columns := map (\<lambda>n. (n, g n)) ns\<rparr>) = ns" for g ns
    by (simp add: column_names_def comp_def)
  ultimately show ?thesis
    unfolding in_order_def Some option.case by (intro put_table_kept) (simp add: Some)
qed

lemma create_index_kept: "keeps kept_file (create_index x m cols)"
  by (rule keepsI) (auto simp: create_index_def Let_def kept_file.refl queue_kept_refl split: if_splits option.splits
    intro!: kept_tables)

lemma reconcile_column_kept: "keeps kept_file (reconcile_column q x m l f)"
  unfolding reconcile_column_def
  by (cases "column_type l (f_name f)") (auto intro!: kept_file.keeps_rules add_column_kept)

lemma reconcile_model_kept: "keeps kept_file (reconcile_model q x m)"
proof (rule keepsI)
  fix fl r fl' assume run: "reconcile_model q x m fl = (r, fl')"
  have "keeps kept_file (modifyM (in_order m (before_table (m_name m)) \<circ> in_order m (m_name m)))"
    by (rule keepsI) (auto intro: kept_file.trans in_order_kept)
  then have "keeps kept_file (bindM (forM (\<lambda>t. create_table x t m) [m_name m, before_table (m_name m)])
         (\<lambda>_. forM (create_index x m) (m_unique m)))"
    and "keeps kept_file (bindM (liftM b) (\<lambda>_. bindM (forM (reconcile_column q x m l) (m_fields m))
         (\<lambda>_. bindM (forM (create_index x m) (m_unique m))
         (\<lambda>_. modifyM (in_order m (before_table (m_name m)) \<circ> in_order m (m_name m))))))" for l and b :: "err + unit"
    by (intro kept_file.keeps_bind kept_file.keeps_forM kept_file.keeps_pure create_table_kept create_index_kept
        reconcile_column_kept; assumption)+
  with run show "kept_file fl fl'"
    by (auto simp: reconcile_model_def split: option.splits dest: keepsD)
qed

lemma fit_kept: "keeps kept_file (fit q x i s)"
proof -
  have "keeps kept_file (write_descriptor x s)"
    unfolding write_descriptor_def by (rule keepsI) (auto intro!: kept_tables simp: queue_kept_refl)
  moreover have "keeps kept_file (client_identity i)"
    by (rule keepsI) (auto simp: client_identity_def queue_kept_def kept_file.refl split: option.splits intro!: kept_tables)
  ultimately show ?thesis unfolding fit_def reconcile_def
    by (intro kept_file.keeps_bind kept_file.keeps_forM reconcile_model_kept)
qed

lemma open_store_kept: "keeps kept_file (open_store q x io i s)"
proof (rule keepsI)
  fix fl r fl' assume run: "open_store q x io i s fl = (r, fl')"
  have "kept_file fl t" if "fit q x i s (add_framework_columns (framework_ddl fl)) = (u, t)" for u t
    using kept_file.trans [OF framework_kept(1) keepsD [OF fit_kept that]] .
  with run show "kept_file fl fl'"
    by (auto simp: open_store_def Let_def kept_file.refl framework_kept
        split: sum.splits file_layout.splits option.splits prod.splits)
qed

section \<open>What a directory keeps\<close>

text \<open>A file that is there stays there and is kept.\<close>

definition stays_at :: "string \<Rightarrow> disk \<Rightarrow> disk \<Rightarrow> bool" where
  "stays_at f d d' \<longleftrightarrow> (\<forall>fl. map_of (dk_files d) f = Some fl \<longrightarrow> (\<exists>fl'. map_of (dk_files d') f = Some fl' \<and> kept_file fl fl'))"

interpretation stays_at: kept "stays_at f"
proof
  show "stays_at f s s" for s by (simp add: stays_at_def kept_file.refl)
  show "stays_at f s u" if "stays_at f s t" "stays_at f t u" for s t u
    using that kept_file.trans unfolding stays_at_def by meson
qed

lemma on_file_kept:
  assumes "keeps kept_file m"
  shows "keeps (stays_at f) (on_file g m)"
  using keepsD [OF assms]
  by (auto intro!: keepsI simp: on_file_def stays_at_def map_of_bt_ins kept_file.refl split: option.splits prod.splits)

lemma on_file_reads: "keeps (stays_at f) (on_file g (getsM h))" "keeps (stays_at f) (on_file g (readM k))"
  by (auto intro!: on_file_kept kept_file.keeps_rules)

lemma factory_kept: "keeps (stays_at f) (factory v g)"
  by (auto intro!: keepsI simp: factory_def stays_at_def map_of_bt_ins kept_file.refl split: option.splits if_splits)

lemma open_file_kept: "keeps (stays_at f) (open_file q x v g s)"
  unfolding open_file_def by (intro stays_at.keeps_rules on_file_kept open_store_kept)

lemma set_current_file_kept: "keeps (stays_at f) (set_current_file v g)"
  by (auto intro!: keepsI simp: set_current_file_def stays_at_def kept_file.refl split: option.splits)

section \<open>Numbered files\<close>

definition stray :: "string \<Rightarrow> string \<Rightarrow> string \<Rightarrow> bool" where
  "stray p in_use f \<longleftrightarrow> numbered p f \<and> file_number p in_use < file_number p f"

text \<open>The next number is a 64-bit one.\<close>

definition room :: "string \<Rightarrow> disk \<Rightarrow> bool" where
  "room p d \<longleftrightarrow> (\<forall>f \<in> fst ` set (dk_files d). file_number p f + 1 < 2 ^ 64)"

lemma decimal_digits: "decimal n \<noteq> [] \<and> list_all is_digit (decimal n)"
proof (induction n rule: decimal.induct)
  case (1 n)
  have digit: "k < 10 \<Longrightarrow> is_digit (char_of (48 + k))" for k :: nat by (simp add: is_digit_def)
  from 1 digit [of n] digit [of "n mod 10"] show ?case by (subst (1 2) decimal.simps) auto
qed

lemma parse_decimal: "n < 2 ^ 64 \<Longrightarrow> parse_u64 (decimal n) = Some n"
proof -
  assume n: "n < 2 ^ 64"
  obtain c r where c: "decimal n = c # r" using decimal_digits [of n] by (cases "decimal n") auto
  then have "c \<noteq> CHR ''+''" using decimal_digits [of n] by (auto simp: is_digit_def)
  with c n decimal_digits [of n] number_of_decimal [of n] show ?thesis by (simp add: parse_u64_def)
qed

lemma strip_prefix_append [simp]: "strip_prefix p (p @ r) = Some r"
  by (simp add: strip_prefix_def starts_with_append)

lemma numbered_file: "numbered p (p @ ''.'' @ decimal n)" "n < 2 ^ 64 \<Longrightarrow> file_number p (p @ ''.'' @ decimal n) = n"
proof -
  have s: "strip_prefix (p @ ''.'') (p @ ''.'' @ decimal n) = Some (decimal n)"
    using strip_prefix_append [of "p @ ''.''" "decimal n"] by simp
  then show "numbered p (p @ ''.'' @ decimal n)" using decimal_digits [of n] by (simp add: numbered_def)
  show "n < 2 ^ 64 \<Longrightarrow> file_number p (p @ ''.'' @ decimal n) = n" using s by (simp add: file_number_def parse_decimal)
qed

lemma fold_max: "n \<in> set ns \<or> n \<le> a \<Longrightarrow> n \<le> fold max ns (a :: nat)"
proof (induction ns arbitrary: a)
  case (Cons m ns)
  from Cons.prems have "n \<in> set ns \<or> n \<le> max m a" by auto
  from Cons.IH [OF this] show ?case by simp
qed simp

lemma fold_max_in: "fold max ns (a :: nat) \<in> insert a (set ns)"
proof (induction ns arbitrary: a)
  case (Cons m ns)
  from Cons.IH [of "max m a"] show ?case by (auto simp: max_def split: if_splits)
qed simp

lemma next_free_new:
  assumes "\<not> v_unlisted v" and "room p d"
  shows "next_free_file v p d \<notin> fst ` set (dk_files d)"
proof
  let ?ns = "map (file_number p) (numbered_files v p d)"
  assume f: "next_free_file v p d \<in> fst ` set (dk_files d)"
  have "fold max ?ns 0 + 1 < 2 ^ 64"
    using fold_max_in [of ?ns 0] assms(2) by (fastforce simp: numbered_files_def room_def split: if_splits)
  then have n: "next_free_file v p d = p @ ''.'' @ decimal (fold max ?ns 0 + 1)"
      "file_number p (next_free_file v p d) = fold max ?ns 0 + 1"
    using numbered_file(2) [of "fold max ?ns 0 + 1" p] by (simp_all add: next_free_file_def)
  with f assms(1) have "next_free_file v p d \<in> set (numbered_files v p d)"
    using numbered_file(1) [of p "fold max ?ns 0 + 1"] by (auto simp: numbered_files_def)
  then have "file_number p (next_free_file v p d) \<le> fold max ?ns 0" by (intro fold_max) simp
  with n(2) show False by simp
qed

lemma map_of_bt_del: "map_of (bt_del k m) = (map_of m)(k := None)"
  by (induction m) (auto simp: bt_del_def fun_eq_iff)

lemma remove_kept: "f \<notin> set gs \<Longrightarrow> map_of (dk_files (fold (remove_database_files v) gs d)) f = map_of (dk_files d) f"
  by (induction gs arbitrary: d) (auto simp: remove_database_files_def map_of_bt_del)

lemma remove_fewer: "fst ` set (dk_files (fold (remove_database_files v) gs d)) \<subseteq> fst ` set (dk_files d)"
proof (induction gs arbitrary: d)
  case (Cons g gs)
  have "fst ` set (dk_files (remove_database_files v g d)) \<subseteq> fst ` set (dk_files d)"
    by (auto simp: remove_database_files_def bt_del_def)
  with Cons.IH [of "remove_database_files v g d"] show ?case by simp
qed simp

lemma strays_kept: "\<not> stray p old f \<Longrightarrow> map_of (dk_files (remove_strays v p old d)) f = map_of (dk_files d) f"
  unfolding remove_strays_def by (rule remove_kept) (auto simp: numbered_files_def stray_def)

section \<open>Opening keeps the files\<close>

lemma open_file_at:
  assumes "open_file q x v g s d = (Inr h, d')"
  shows "h_file h = g" and "h_state h = no_state" and "h_origin h = None" and "c_schema (h_client h) = s"
  using assms by (auto simp: open_file_def bindM_ok_iff on_file_def open_store_def Let_def new_client_def
      split: option.splits prod.splits sum.splits file_layout.splits)

lemma flushed_other: "f \<noteq> h_file h \<Longrightarrow> map_of (dk_files (flushed h d)) f = map_of (dk_files d) f"
  by (auto simp: flushed_def split: option.splits)

lemma carry_other:
  assumes "carry x v channels h d = (r, d')" and "f \<noteq> h_file h"
  shows "map_of (dk_files d') f = map_of (dk_files d) f"
  using assms flushed_other by (auto simp: carry_def Let_def split: if_splits prod.splits)

lemma open_carry_kept:
  assumes "f \<noteq> g"
  shows "keeps (stays_at f) (bindM (open_file q x v g s) (carry x v channels))"
proof (rule keepsI)
  fix d r d' assume run: "bindM (open_file q x v g s) (carry x v channels) d = (r, d')"
  obtain r1 d1 where o': "open_file q x v g s d = (r1, d1)" by fastforce
  from keepsD [OF open_file_kept o'] have k: "stays_at f d d1" .
  show "stays_at f d d'"
  proof (cases r1)
    case (Inl e)
    with run o' k show ?thesis by (auto simp: bindM_def)
  next
    case (Inr h)
    with run o' have c: "carry x v channels h d1 = (r, d')" by (simp add: bindM_def)
    from open_file_at(1) o' Inr assms have "f \<noteq> h_file h" by blast
    from carry_other [OF c this] k show ?thesis by (simp add: stays_at_def)
  qed
qed

lemma rebuild_beside_kept:
  assumes run: "rebuild_beside q x v p old s reason pending alone d = (r, d')"
    and "\<not> v_unlisted v" and "room p d" and "\<not> stray p old f"
  shows "stays_at f d d'"
proof (cases "map_of (dk_files d) f")
  case (Some fl)
  let ?d = "remove_strays v p old d" and ?new = "next_free_file v p (remove_strays v p old d)"
  have same: "map_of (dk_files ?d) f = map_of (dk_files d) f" using strays_kept [OF assms(4)] .
  have "room p ?d"
    using assms(3) remove_fewer unfolding room_def remove_strays_def by blast
  then have "?new \<notin> fst ` set (dk_files ?d)" by (rule next_free_new [OF assms(2)])
  with Some same have "f \<noteq> ?new" by (force dest: map_of_SomeD)
  let ?rest = "\<lambda>h. bindM (set_current_file v ?new) (\<lambda>_. retM (h\<lparr>h_state := \<lparr>sc_rebuilt = True, sc_pending = sc_pending (h_state h),
        sc_last = Some \<lparr>rr_old = old, rr_new = ?new, rr_reason = reason, rr_pending = pending, rr_direct = alone\<rparr>\<rparr>\<rparr>))"
  let ?all = "bindM (factory v ?new) (\<lambda>_. bindM (bindM (open_file q x v ?new s) (carry x v (old_channels v old ?d))) ?rest)"
  have "keeps (stays_at f) ?all"
    by (intro stays_at.keeps_bind stays_at.keeps_pure factory_kept open_carry_kept set_current_file_kept \<open>f \<noteq> ?new\<close>)
  moreover have "?all ?d = (r, d')" using run by (simp add: rebuild_beside_def bindM_assoc)
  ultimately have "stays_at f ?d d'" by (rule keepsD)
  with same show ?thesis by (simp add: stays_at_def)
qed (simp add: stays_at_def)

text \<open>
  Reads and changes of an open file leave the directory's names alone; a computation is careful
  with a file when it keeps it wherever there is a number left.
\<close>

definition in_place :: "string \<Rightarrow> disk \<Rightarrow> disk \<Rightarrow> bool" where
  "in_place f d d' \<longleftrightarrow> dk_sidecar d' = dk_sidecar d \<and> fst ` set (dk_files d') = fst ` set (dk_files d) \<and> stays_at f d d'"

interpretation in_place: kept "in_place f"
proof
  show "in_place f s s" for s by (simp add: in_place_def stays_at.refl)
  show "in_place f s u" if "in_place f s t" "in_place f t u" for s t u
    using that stays_at.trans unfolding in_place_def by metis
qed

lemma on_file_in_place:
  assumes "keeps kept_file m"
  shows "keeps (in_place f) (on_file g m)"
proof (rule keepsI)
  fix d r d' assume run: "on_file g m d = (r, d')"
  show "in_place f d d'"
  proof (cases "map_of (dk_files d) g")
    case None
    with run show ?thesis by (simp add: on_file_def in_place.refl)
  next
    case (Some fl)
    then have "insert g (fst ` set (dk_files d)) = fst ` set (dk_files d)" by (force dest: map_of_SomeD)
    moreover from Some run obtain fl' where "d' = d\<lparr>dk_files := bt_ins g fl' (dk_files d)\<rparr>"
      by (auto simp: on_file_def split: prod.splits)
    ultimately show ?thesis using keepsD [OF on_file_kept [OF assms] run] by (simp add: in_place_def)
  qed
qed

definition careful :: "string \<Rightarrow> string \<Rightarrow> 'a disk_op \<Rightarrow> bool" where
  "careful p f m \<longleftrightarrow> (\<forall>d r d'. m d = (r, d') \<longrightarrow> room p d \<longrightarrow> stays_at f d d')"

lemma careful_keeps: "keeps (stays_at f) m \<Longrightarrow> careful p f m"
  by (auto simp: careful_def dest: keepsD)

lemma careful_bind:
  assumes "keeps (in_place f) m" and "\<And>a. careful p f (k a)"
  shows "careful p f (bindM m k)"
  unfolding careful_def
proof (intro allI impI)
  fix d r d' assume run: "bindM m k d = (r, d')" and room: "room p d"
  obtain r1 d1 where m: "m d = (r1, d1)" by fastforce
  from keepsD [OF assms(1) m] have k: "in_place f d d1" .
  then have "room p d1" using room by (simp add: room_def in_place_def)
  with run m k assms(2) stays_at.refl have "stays_at f d1 d'"
    by (cases r1) (auto simp: bindM_def careful_def)
  with k show "stays_at f d d'" unfolding in_place_def by (blast intro: stays_at.trans)
qed

lemma careful_then:
  assumes "careful p f m"
  shows "careful p f (bindM m (\<lambda>a. retM (g a)))"
  using assms by (fastforce simp: careful_def bindM_def split: prod.splits sum.splits)

lemma careful_rebuild: "\<not> v_unlisted v \<Longrightarrow> \<not> stray p old f \<Longrightarrow> careful p f (rebuild_beside q x v p old s reason n k)"
  unfolding careful_def using rebuild_beside_kept by blast

lemmas careful_rules = careful_bind careful_then careful_rebuild careful_keeps [OF open_file_kept] keeps_cases
  on_file_in_place kept_file.keeps_pure

lemma careful_stored:
  assumes "\<not> v_unlisted v" and "\<not> stray p g f"
  shows "careful p f (open_stored q x v p g s discard stored)"
proof (cases "compatibility stored s")
  case (Incompatible reason)
  then show ?thesis using assms
    by (auto simp: open_stored_def intro!: careful_rules)
qed (auto simp: open_stored_def intro!: careful_rules)

lemma careful_unrecorded:
  assumes "\<not> v_unlisted v" and "\<not> stray p g f"
  shows "careful p f (open_unrecorded q x v p g s)"
  unfolding open_unrecorded_def using assms
  by (auto intro!: careful_rules split: option.splits)

text \<open>The file the directory's sidecar names.\<close>

definition in_use :: "string \<Rightarrow> disk \<Rightarrow> string" where
  "in_use p d = (case dk_sidecar d of None \<Rightarrow> p | Some t \<Rightarrow> if trim t = [] then p else trim t)"

lemma current_in_use: "\<not> v_unreadable v \<Longrightarrow> current_file v p d = in_use p d"
  by (simp add: current_file_def in_use_def split: option.splits)

definition numbers_left :: "string \<Rightarrow> disk \<Rightarrow> bool" where
  "numbers_left p d \<longleftrightarrow> room p d \<and> file_number p (in_use p d) + 1 < 2 ^ 64"

lemma open_at_careful:
  assumes "open_at q x v p s discard d = (r, d')"
    and "\<not> v_unlisted v" and "\<not> stray p (current_file v p d) f" and "room p d"
    and "file_number p (current_file v p d) + 1 < 2 ^ 64"
  shows "stays_at f d d'"
proof (cases "validate s = Inr ()")
  case False
  then obtain e where "validate s = Inl e" by (cases "validate s") auto
  with assms(1) show ?thesis by (simp add: open_at_def stays_at.refl)
next
  case True
  let ?g = "current_file v p d"
  let ?rest = "bindM (on_file ?g (getsM check_layout))
     (\<lambda>layout. bindM
       (case layout of
          FreshLayout \<Rightarrow> open_file q x v ?g s
        | LegacyLayout what \<Rightarrow> bindM (on_file ?g (getsM (count_mutations x)))
            (\<lambda>n. rebuild_beside q x v p ?g s what (case n of Inr k \<Rightarrow> k | Inl _ \<Rightarrow> 0) 0)
        | CurrentLayout \<Rightarrow> bindM (on_file ?g (modifyM framework_ddl))
            (\<lambda>_. bindM (on_file ?g (readM (read_descriptor x)))
            (\<lambda>stored. case stored of
               None \<Rightarrow> open_unrecorded q x v p ?g s
             | Some s' \<Rightarrow> open_stored q x v p ?g s discard s')))
     (\<lambda>h. retM (h\<lparr>h_origin := Some (p, s)\<rparr>)))"
  have run: "bindM (factory v ?g) (\<lambda>_. ?rest) d = (r, d')" using assms(1) True by (simp add: open_at_def)
  have ddl: "keeps kept_file (modifyM framework_ddl)" by (rule keepsI) (auto intro: framework_kept)
  have "careful p f (case layout of
          FreshLayout \<Rightarrow> open_file q x v ?g s
        | LegacyLayout what \<Rightarrow> bindM (on_file ?g (getsM (count_mutations x)))
            (\<lambda>n. rebuild_beside q x v p ?g s what (case n of Inr k \<Rightarrow> k | Inl _ \<Rightarrow> 0) 0)
        | CurrentLayout \<Rightarrow> bindM (on_file ?g (modifyM framework_ddl))
            (\<lambda>_. bindM (on_file ?g (readM (read_descriptor x)))
            (\<lambda>stored. case stored of
               None \<Rightarrow> open_unrecorded q x v p ?g s
             | Some s' \<Rightarrow> open_stored q x v p ?g s discard s')))" for layout
    using assms(2,3) by (cases layout)
      (auto intro!: careful_bind careful_rebuild careful_keeps [OF open_file_kept] on_file_in_place ddl kept_file.keeps_pure
        careful_stored careful_unrecorded split: option.splits)
  then have rest: "careful p f ?rest"
    by (intro careful_bind careful_then on_file_in_place kept_file.keeps_pure)
  show ?thesis
  proof (cases "factory v ?g d")
    case (Pair r1 d1)
    from keepsD [OF factory_kept Pair] have k: "stays_at f d d1" .
    have "fst ` set (dk_files d1) \<subseteq> insert ?g (fst ` set (dk_files d))"
    proof (cases "dk_files d1 = bt_ins ?g empty_file (dk_files d)")
      case False
      with Pair show ?thesis by (auto simp: factory_def split: option.splits if_splits)
    qed (simp only: set_keys_bt_ins subset_refl)
    from subsetD [OF this] have sub: "\<And>g. g \<in> fst ` set (dk_files d1) \<Longrightarrow> g = ?g \<or> g \<in> fst ` set (dk_files d)"
      by (simp only: insert_iff)
    have "room p d1" unfolding room_def
    proof
      fix g assume "g \<in> fst ` set (dk_files d1)"
      from sub [OF this] show "file_number p g + 1 < 2 ^ 64"
        by (rule disjE) (simp_all only: assms(5) bspec [OF assms(4) [unfolded room_def]])
    qed
    with rest run Pair stays_at.refl have "stays_at f d1 d'" unfolding careful_def by (cases r1) (auto simp: bindM_def)
    with k show ?thesis by (rule stays_at.trans)
  qed
qed

text \<open>
  C27: opening never loses a file. If the sidecar can be read or is absent, the directory can be
  listed and its numbers stay below \<open>2 ^ 64\<close>, then, whatever else fails in \<open>open_at\<close>, every file
  of the directory is still there, with its queue, stamps and subscriptions and with every value
  of every row, except a numbered file above the one in use (the rest of an interrupted rebuild).
  A sidecar that is there and cannot be read is taken for absent, and then the file that was in
  use may be removed as such a rest (\<open>OpenRuns\<close> runs that case).
\<close>
theorem opening_keeps_files:
  assumes "open_at q x v p s discard d = (r, d')" and "\<not> v_unreadable v" and "\<not> v_unlisted v" and "numbers_left p d"
    and "map_of (dk_files d) f = Some fl" and "\<not> (numbered p f \<and> file_number p (in_use p d) < file_number p f)"
  shows "\<exists>fl'. map_of (dk_files d') f = Some fl' \<and> queue_kept (fl_db fl) (fl_db fl') \<and> (\<forall>t. kept_table t fl fl')"
proof -
  from assms have "stays_at f d d'"
    by (intro open_at_careful [OF assms(1)]) (simp_all add: current_in_use stray_def numbers_left_def)
  with assms(5) show ?thesis by (simp add: stays_at_def kept_file_def)
qed

end
