(* ===== verification/Handover.thy ===== *)
theory Handover
  imports OpenOk Fencing
begin

text \<open>
  What an open client has in hand: the content of the file the sidecar names, with the whole
  queue that was there, and a sidecar that moves only once the new file is ready.
\<close>

section \<open>A store that is open\<close>

definition same_frame :: "dbfile \<Rightarrow> dbfile \<Rightarrow> bool" where
  "same_frame fl fl' \<longleftrightarrow> fl_framework fl' = fl_framework fl \<and> fl_client_columns fl' = fl_client_columns fl \<and>
     fl_mutation_columns fl' = fl_mutation_columns fl"

interpretation same_frame: kept same_frame
  by unfold_locales (simp_all add: same_frame_def)

lemma in_order_frame: "same_frame fl (in_order m t fl)"
  by (simp add: in_order_def same_frame_def split: option.splits)

lemma steps_frame: "keeps same_frame (create_table x t m)" "keeps same_frame (add_column x n ty v t)"
  "keeps same_frame (create_index x m cols)" "keeps same_frame (write_descriptor x s)"
  "keeps same_frame (client_identity i)"
  by (rule keepsI; force simp: create_table_def add_column_def create_index_def Let_def write_descriptor_def
      client_identity_def same_frame_def split: if_splits option.splits)+

lemma in_order_frame2: "keeps same_frame (modifyM (in_order m t \<circ> in_order m u))"
  by (rule keepsI) (auto intro: same_frame.trans in_order_frame)

lemma reconcile_model_frame: "keeps same_frame (reconcile_model q x m)"
proof (rule keepsI)
  fix fl r fl' assume run: "reconcile_model q x m fl = (r, fl')"
  have "keeps same_frame (reconcile_column q x m l f)" for l f
    unfolding reconcile_column_def
    by (cases "column_type l (f_name f)") (auto intro!: same_frame.keeps_rules steps_frame)
  then have "keeps same_frame (bindM (forM (\<lambda>t. create_table x t m) [m_name m, before_table (m_name m)])
         (\<lambda>_. forM (create_index x m) (m_unique m)))"
    and "keeps same_frame (bindM (liftM b) (\<lambda>_. bindM (forM (reconcile_column q x m l) (m_fields m))
         (\<lambda>_. bindM (forM (create_index x m) (m_unique m))
         (\<lambda>_. modifyM (in_order m (before_table (m_name m)) \<circ> in_order m (m_name m))))))" for l and b :: "err + unit"
    by (intro same_frame.keeps_bind same_frame.keeps_forM same_frame.keeps_pure steps_frame in_order_frame2; assumption)+
  with run show "same_frame fl fl'"
    by (auto simp: reconcile_model_def split: option.splits dest: keepsD)
qed

lemma fit_frame: "keeps same_frame (fit q x i s)"
  unfolding fit_def reconcile_def
  by (intro same_frame.keeps_bind same_frame.keeps_forM reconcile_model_frame steps_frame)

lemma framework_layout:
  assumes "\<And>what. check_layout fl \<noteq> LegacyLayout what"
  shows "check_layout (framework_ddl fl) = CurrentLayout"
proof -
  have s: "set (fl_framework (framework_ddl fl)) = set (fl_framework fl) \<union> set framework_tables"
    by (auto simp: framework_ddl_def)
  have none: "find (\<lambda>t. t \<in> set (fl_framework fl)) legacy_tables = None"
  proof (cases "find (\<lambda>t. t \<in> set (fl_framework fl)) legacy_tables")
    case (Some t)
    with assms [of "''table '' @ t"] show ?thesis by (simp add: check_layout_def)
  qed
  have "\<forall>t \<in> set legacy_tables. t \<notin> set framework_tables" by code_simp
  with none have "find (\<lambda>t. t \<in> set (fl_framework (framework_ddl fl))) legacy_tables = None"
    unfolding s find_None by blast
  moreover have "''ahead_client'' \<in> set (fl_framework (framework_ddl fl))"
    unfolding s by (simp add: framework_tables_def)
  moreover have "find (\<lambda>c. c \<notin> set (fl_client_columns (framework_ddl fl))) client_columns = None"
  proof (cases "''ahead_client'' \<in> set (fl_framework fl)")
    case True
    show ?thesis
    proof (cases "find (\<lambda>c. c \<notin> set (fl_client_columns fl)) client_columns")
      case None
      with True show ?thesis by (simp add: framework_ddl_def)
    next
      case (Some c)
      with True none assms [of "''ahead_client lacks '' @ c"] show ?thesis by (simp add: check_layout_def)
    qed
  next
    case False
    then show ?thesis by (simp add: framework_ddl_def client_columns_def)
  qed
  ultimately show ?thesis by (simp add: check_layout_def)
qed

lemma check_layout_db: "check_layout (fl\<lparr>fl_db := d\<rparr>) = check_layout fl"
  by (simp add: check_layout_def cong: option.case_cong)

lemma same_frame_layout: "same_frame fl fl' \<Longrightarrow> check_layout fl' = check_layout fl"
  by (simp add: same_frame_def check_layout_def cong: option.case_cong)

lemma check_layout_added: "check_layout (add_framework_columns fl) = check_layout fl"
  by (simp add: check_layout_def add_framework_columns_def cong: option.case_cong)

text \<open>A store that is ready for a client: its layout, its descriptor, its content.\<close>

definition ready :: "ext \<Rightarrow> client \<Rightarrow> dbfile \<Rightarrow> bool" where
  "ready x c fl \<longleftrightarrow> check_layout fl = CurrentLayout \<and> fl_descriptor fl = Some (descriptor_text x (c_schema c)) \<and>
     fl_db fl = committed c"

lemma open_store_ready:
  assumes "open_store q x io i s fl = (Inr c, fl')"
  shows "ready x c fl'" and "c_schema c = s" and "idle c"
proof -
  from assms obtain i' g where f: "fit q x i s (add_framework_columns (framework_ddl fl)) = (Inr (i', g), fl')"
      "c = new_client s i' g (fl_db fl')" and l: "\<And>what. check_layout fl \<noteq> LegacyLayout what"
    by (auto simp: open_store_def Let_def split: sum.splits file_layout.splits option.splits prod.splits)
  from f(1) obtain a b where "write_descriptor x s a = (Inr (), b)" "client_identity i b = (Inr (i', g), fl')"
    by (auto simp: fit_def bindM_ok_iff)
  then have "fl_descriptor fl' = Some (descriptor_text x s)"
    by (auto simp: write_descriptor_def client_identity_def split: option.splits)
  moreover have "check_layout fl' = CurrentLayout"
    using same_frame_layout [OF keepsD [OF fit_frame f(1)]] framework_layout [OF l] by (simp add: check_layout_added)
  ultimately show "ready x c fl'" by (simp add: ready_def f(2) new_client_def committed_def)
  show "c_schema c = s" "idle c" by (simp_all add: f(2) new_client_def idle_def)
qed

lemma open_file_ready:
  assumes "open_file q x v g s d = (Inr h, d')"
  shows "\<exists>fl. map_of (dk_files d) g \<noteq> None \<and> map_of (dk_files d') g = Some fl \<and> ready x (h_client h) fl"
    and "dk_sidecar d' = dk_sidecar d" and "idle (h_client h)"
  using assms open_store_ready
  by (fastforce simp: open_file_def bindM_ok_iff on_file_def split: option.splits prod.splits)+

section \<open>Carrying the channels\<close>

lemma abandon_fails: "abandon x io e c \<noteq> (Inr v, c')"
  by (simp add: abandon_def split: prod.splits sum.splits)

lemma write_commits:
  assumes "client_write x io body c = (Inr v, c')" and "idle c"
  shows "\<exists>w. body (fresh_work (committed c)) = (Inr v, w) \<and> committed c' = bump_generation (w_db w)"
    and "c_schema c' = c_schema c"
proof -
  have s: "c_session c = None" "c_store c = \<lparr>s_file = committed c, s_open = None\<rparr>"
    using assms(2) idle_store by (simp_all add: idle_def)
  let ?s = "\<lparr>s_file = committed c, s_open = Some (committed c, [])\<rparr>"
  from assms(1) s have b: "store_begin x io (c_store c) = (Inr (), ?s)" "open_work [] ?s = fresh_work (committed c)"
    by (auto simp: client_write_def store_begin_def open_work_def fresh_work_def split: option.splits)
  obtain r w where w: "body (fresh_work (committed c)) = (r, w)" by fastforce
  have "(\<exists>w. body (fresh_work (committed c)) = (Inr v, w) \<and> committed c' = bump_generation (w_db w)) \<and> c_schema c' = c_schema c"
  proof (cases r)
    case (Inl e)
    with assms(1) s b w show ?thesis by (simp add: client_write_def fenced_def abandon_fails)
  next
    case (Inr u)
    let ?w = "w\<lparr>w_db := bump_generation (w_db w)\<rparr>"
    have f: "fenced (c_generation c) body (fresh_work (committed c)) = (if generation_of (w_db w) = Some (c_generation c)
        then (Inr u, ?w) else (Inl (invalid ''stale client writer; reopen runtime''), w))"
      using w Inr by (simp add: fenced_def bindM_def fence_run)
    show ?thesis
    proof (cases "generation_of (w_db w) = Some (c_generation c)")
      case True
      with assms(1) s b f have "finish x io (w_changed ?w) u (c\<lparr>c_store := close_work ?w ?s\<rparr>) = (Inr v, c')"
        by (simp add: client_write_def)
      then show ?thesis using w Inr
        by (cases "io_commit io") (auto simp: finish_def store_commit_def close_work_def notify_def committed_def split: prod.splits)
    next
      case False
      with assms(1) s b f show ?thesis by (simp add: client_write_def abandon_fails)
    qed
  qed
  then show "\<exists>w. body (fresh_work (committed c)) = (Inr v, w) \<and> committed c' = bump_generation (w_db w)"
    and "c_schema c' = c_schema c" by simp_all
qed

lemma cursors_keep_queue:
  assumes "forM (\<lambda>ch. set_cursor ch 0) chs w = (r, w')"
  shows "d_mutations (w_db w') = d_mutations (w_db w)"
  using assms
proof (rule forM_rel [where R = "\<lambda>w w'. d_mutations (w_db w') = d_mutations (w_db w)"])
  show "d_mutations (w_db t) = d_mutations (w_db s)" if "set_cursor ch 0 s = (r, t)" for ch s r t
    using that by (auto simp: set_cursor_def exec_all_def exec_def Let_def)
qed simp_all

lemma carry_ready:
  assumes "carry x v chs h d = (Inr h', d')" and "map_of (dk_files d) (h_file h) = Some fl" and "ready x (h_client h) fl"
    and "idle (h_client h)"
  shows "h_file h' = h_file h" and "h_state h' = h_state h" and "c_schema (h_client h') = c_schema (h_client h)"
    and "d_mutations (committed (h_client h')) = d_mutations (fl_db fl)" and "dk_sidecar d' = dk_sidecar d"
    and "\<exists>fl'. map_of (dk_files d') (h_file h) = Some fl' \<and> ready x (h_client h') fl'"
proof -
  have "h_file h' = h_file h \<and> h_state h' = h_state h \<and> c_schema (h_client h') = c_schema (h_client h) \<and>
      d_mutations (committed (h_client h')) = d_mutations (fl_db fl) \<and> dk_sidecar d' = dk_sidecar d \<and>
      (\<exists>fl'. map_of (dk_files d') (h_file h) = Some fl' \<and> ready x (h_client h') fl')"
  proof (cases "chs = []")
    case True
    with assms show ?thesis by (auto simp: carry_def ready_def)
  next
    case False
    with assms(1) obtain c' where c: "client_write x (v_write v) (forM (\<lambda>ch. set_cursor ch 0) chs) (h_client h) = (Inr (), c')"
        "h' = h\<lparr>h_client := c'\<rparr>" "d' = flushed h' d"
      by (cases "client_write x (v_write v) (forM (\<lambda>ch. set_cursor ch 0) chs) (h_client h)";
          cases "fst (client_write x (v_write v) (forM (\<lambda>ch. set_cursor ch 0) chs) (h_client h))")
        (auto simp: carry_def Let_def)
    from write_commits [OF c(1) assms(4)] obtain w where
        w: "forM (\<lambda>ch. set_cursor ch 0) chs (fresh_work (committed (h_client h))) = (Inr (), w)"
          "committed c' = bump_generation (w_db w)" "c_schema c' = c_schema (h_client h)" by blast
    from cursors_keep_queue [OF w(1)] w(2) assms(3) have "d_mutations (committed c') = d_mutations (fl_db fl)"
      by (simp add: bump_generation_def fresh_work_def ready_def)
    with c w(3) assms(2,3) show ?thesis by (simp add: flushed_def ready_def committed_def check_layout_db)
  qed
  then show "h_file h' = h_file h" "h_state h' = h_state h" "c_schema (h_client h') = c_schema (h_client h)"
    "d_mutations (committed (h_client h')) = d_mutations (fl_db fl)" "dk_sidecar d' = dk_sidecar d"
    "\<exists>fl'. map_of (dk_files d') (h_file h) = Some fl' \<and> ready x (h_client h') fl'" by simp_all
qed

section \<open>The sidecar moves last\<close>

definition steady :: "disk \<Rightarrow> disk \<Rightarrow> bool" where
  "steady d d' \<longleftrightarrow> dk_sidecar d' = dk_sidecar d"

interpretation steady: kept steady
  by unfold_locales (simp_all add: steady_def)

lemma on_file_steady: "keeps steady (on_file g m)"
  by (rule keepsI) (auto simp: on_file_def steady_def split: option.splits prod.splits)

lemma open_file_steady: "keeps steady (open_file q x v g s)"
  unfolding open_file_def by (intro steady.keeps_rules on_file_steady)

lemma factory_steady: "keeps steady (factory v g)"
  by (rule keepsI) (auto simp: factory_def steady_def split: option.splits if_splits)

lemma carry_steady: "keeps steady (carry x v chs h)"
  by (rule keepsI) (auto simp: carry_def Let_def flushed_def steady_def split: if_splits prod.splits option.splits)

lemma remove_steady: "dk_sidecar (fold (remove_database_files v) gs d) = dk_sidecar d"
  by (induction gs arbitrary: d) (simp_all add: remove_database_files_def)

lemma strays_steady: "dk_sidecar (remove_strays v p old d) = dk_sidecar d"
  by (simp add: remove_strays_def remove_steady)

text \<open>What a rebuild leaves, by its outcome.\<close>

definition rebuilt :: "ext \<Rightarrow> string \<Rightarrow> schema \<Rightarrow> rebuild_report \<Rightarrow> opened \<Rightarrow> disk \<Rightarrow> bool" where
  "rebuilt x old s rep h d \<longleftrightarrow> dk_sidecar d = Some (h_file h @ newline) \<and> d_mutations (committed (h_client h)) = [] \<and>
     c_schema (h_client h) = s \<and> sc_last (h_state h) = Some rep \<and> sc_pending (h_state h) = None \<and>
     (\<exists>fl. map_of (dk_files d) (h_file h) = Some fl \<and> ready x (h_client h) fl)"

lemma rebuild_beside_fails: "rebuild_beside q x v p old s reason n k d = (Inl e, d') \<Longrightarrow> dk_sidecar d' = dk_sidecar d"
proof -
  assume run: "rebuild_beside q x v p old s reason n k d = (Inl e, d')"
  let ?d = "remove_strays v p old d" and ?new = "next_free_file v p (remove_strays v p old d)"
  let ?ready = "bindM (factory v ?new) (\<lambda>_. bindM (open_file q x v ?new s) (carry x v (old_channels v old ?d)))"
  have s: "keeps steady ?ready" by (intro steady.keeps_bind factory_steady open_file_steady carry_steady)
  let ?rest = "\<lambda>h. bindM (set_current_file v ?new) (\<lambda>_. retM (h\<lparr>h_state := \<lparr>sc_rebuilt = True, sc_pending = sc_pending (h_state h),
        sc_last = Some \<lparr>rr_old = old, rr_new = ?new, rr_reason = reason, rr_pending = n, rr_direct = k\<rparr>\<rparr>\<rparr>))"
  have "bindM ?ready ?rest ?d = (Inl e, d')" using run by (simp add: rebuild_beside_def bindM_assoc)
  moreover obtain r1 d1 where r: "?ready ?d = (r1, d1)" by fastforce
  ultimately have "dk_sidecar d' = dk_sidecar d1"
    by (cases r1) (auto simp: bindM_def set_current_file_def split: option.splits)
  with keepsD [OF s r] show ?thesis by (simp add: steady_def strays_steady)
qed

lemma undiverged_empty: "undiverged ms = undiverged [] \<longleftrightarrow> ms = []"
  by (simp add: undiverged_def)

lemma rebuild_beside_ready:
  assumes run: "rebuild_beside q x v p old s reason n k d = (Inr h, d')" and "\<not> v_unlisted v" and "room p d"
  shows "\<exists>new. rebuilt x old s \<lparr>rr_old = old, rr_new = new, rr_reason = reason, rr_pending = n, rr_direct = k\<rparr> h d'"
proof -
  let ?d = "remove_strays v p old d" and ?new = "next_free_file v p (remove_strays v p old d)"
  let ?rep = "\<lparr>rr_old = old, rr_new = ?new, rr_reason = reason, rr_pending = n, rr_direct = k\<rparr>"
  from run obtain d1 h1 d2 h2 d3 where f: "factory v ?new ?d = (Inr (), d1)"
    and o': "open_file q x v ?new s d1 = (Inr h1, d2)" and c: "carry x v (old_channels v old ?d) h1 d2 = (Inr h2, d3)"
    and l: "set_current_file v ?new d3 = (Inr (), d')"
    and h: "h = h2\<lparr>h_state := \<lparr>sc_rebuilt = True, sc_pending = sc_pending (h_state h2), sc_last = Some ?rep\<rparr>\<rparr>"
    by (auto simp: rebuild_beside_def bindM_ok_iff)
  have "room p ?d" using assms(3) remove_fewer unfolding room_def remove_strays_def by blast
  from next_free_new [OF assms(2) this] f have fresh: "map_of (dk_files d1) ?new = Some empty_file"
    by (auto simp: factory_def map_of_eq_None_iff split: option.splits if_splits)
  from open_file_ready(1) [OF o'] obtain fl where fl: "map_of (dk_files d2) ?new = Some fl" "ready x (h_client h1) fl" by blast
  from keepsD [OF open_file_kept o', of ?new] fresh fl(1) have "queue_kept (fl_db empty_file) (fl_db fl)"
    by (simp add: stays_at_def kept_file_def)
  then have none: "d_mutations (fl_db fl) = []"
    by (simp add: queue_kept_def empty_file_def empty_db_def undiverged_empty)
  note at = open_file_at [OF o']
  from carry_ready [OF c, of fl] fl at(1) open_file_ready(3) [OF o']
  have c': "h_file h2 = ?new" "h_state h2 = h_state h1" "c_schema (h_client h2) = c_schema (h_client h1)"
    "d_mutations (committed (h_client h2)) = d_mutations (fl_db fl)"
    "\<exists>fl'. map_of (dk_files d3) ?new = Some fl' \<and> ready x (h_client h2) fl'" by simp_all
  have "rebuilt x old s ?rep h d'"
    using c' none at l by (auto simp: rebuilt_def h set_current_file_def no_state_def split: option.splits)
  then show ?thesis by blast
qed

end
