(* ===== verification/Handed.thy ===== *)
theory Handed
  imports Handover
begin

text \<open>Every way \<open>open_at\<close> succeeds, and what becomes of unsent work.\<close>

section \<open>The two ways to succeed\<close>

definition placed :: "string option \<Rightarrow> string set \<Rightarrow> string \<Rightarrow> dbfile \<Rightarrow> disk \<Rightarrow> bool" where
  "placed sidecar names g fl d \<longleftrightarrow> dk_sidecar d = sidecar \<and> fst ` set (dk_files d) = names \<and> map_of (dk_files d) g = Some fl"

lemma on_file_placed:
  assumes "on_file g m d = (r, d')" and "placed sc ns g fl d"
  obtains fl' where "m fl = (r, fl')" and "placed sc ns g fl' d'"
proof -
  from assms obtain fl' where m: "m fl = (r, fl')" "d' = d\<lparr>dk_files := bt_ins g fl' (dk_files d)\<rparr>"
    by (auto simp: on_file_def placed_def split: prod.splits)
  have "insert g (fst ` set (dk_files d)) = fst ` set (dk_files d)"
    using assms(2) by (force simp: placed_def dest: map_of_SomeD)
  with assms(2) m(2) have "placed sc ns g fl' d'" by (simp add: placed_def)
  with m(1) show thesis by (rule that)
qed

lemma placed_room: "placed sc ns g fl d \<Longrightarrow> placed sc ns g fl' d' \<Longrightarrow> room p d' = room p d"
  by (simp add: placed_def room_def)

text \<open>Opened in place, or rebuilt beside with a report.\<close>

definition in_hand :: "ext \<Rightarrow> string option \<Rightarrow> string \<Rightarrow> dbfile \<Rightarrow> opened \<Rightarrow> disk \<Rightarrow> bool" where
  "in_hand x sidecar g fl h d \<longleftrightarrow> h_file h = g \<and> dk_sidecar d = sidecar \<and>
     (\<exists>fl'. map_of (dk_files d) g = Some fl' \<and> ready x (h_client h) fl' \<and> kept_file fl fl')"

definition queue_length :: "dbfile \<Rightarrow> nat" where
  "queue_length fl = (if ''ahead_mutation'' \<in> set (fl_framework fl) then length (d_mutations (fl_db fl)) else 0)"

definition left_behind :: "ext \<Rightarrow> schema \<Rightarrow> string \<Rightarrow> dbfile \<Rightarrow> bool \<Rightarrow> opened \<Rightarrow> disk \<Rightarrow> bool" where
  "left_behind x s g fl discard h d \<longleftrightarrow> (\<exists>rep. rebuilt x g s rep h d \<and> rr_old rep = g \<and> rr_pending rep = queue_length fl \<and>
     (discard \<or> queue_length fl = 0 \<or> check_layout fl \<noteq> CurrentLayout \<or> fl_descriptor fl = None))"

lemma open_file_in_hand:
  assumes "open_file q x v g s d = (Inr h, d')" and "placed sc ns g fl1 d" and "kept_file fl fl1"
  shows "in_hand x sc g fl h d'"
proof -
  from open_file_ready [OF assms(1)] obtain fl' where fl': "map_of (dk_files d') g = Some fl'" "ready x (h_client h) fl'"
      "dk_sidecar d' = dk_sidecar d" by blast
  from keepsD [OF open_file_kept assms(1), of g] assms(2) fl'(1) have "kept_file fl1 fl'"
    by (simp add: stays_at_def placed_def)
  with assms(2,3) fl' open_file_at(1) [OF assms(1)] kept_file.trans show ?thesis by (auto simp: in_hand_def placed_def)
qed

lemma rebuilt_left:
  assumes "rebuild_beside q x v p g s reason n k d = (Inr h, d')" and "\<not> v_unlisted v" and "room p d"
    and "n = queue_length fl" and "discard \<or> n = 0 \<or> check_layout fl \<noteq> CurrentLayout \<or> fl_descriptor fl = None"
  shows "left_behind x s g fl discard h d'"
  using rebuild_beside_ready [OF assms(1-3)] assms(4,5) unfolding left_behind_def by fastforce

lemma open_stored_outcome:
  assumes "open_stored q x v p g s discard stored d = (Inr h, d')" and "placed sc ns g fl1 d" and "kept_file fl fl1"
    and "\<not> v_unlisted v" and "room p d" and "queue_length fl1 = queue_length fl"
  shows "in_hand x sc g fl h d' \<or> left_behind x s g fl discard h d'"
proof (cases "compatibility stored s")
  case (Incompatible reason)
  with assms(1) obtain n d1 k d2 where c: "on_file g (readM (count_mutations x)) d = (Inr n, d1)"
      "on_file g (readM (count_direct q x stored)) d1 = (Inr k, d2)"
    and rest: "(if 0 < n \<and> \<not> discard
            then bindM (open_file q x v g stored)
              (\<lambda>h. retM (h\<lparr>h_state := (h_state h)\<lparr>sc_pending := Some \<lparr>pr_old = g, pr_reason = reason,
                 pr_pending = n, pr_direct = k\<rparr>\<rparr>\<rparr>))
            else rebuild_beside q x v p g s reason n k) d2 = (Inr h, d')"
    by (auto simp: open_stored_def bindM_ok_iff)
  from on_file_placed [OF c(1) assms(2)] have n: "count_mutations x fl1 = Inr n" "placed sc ns g fl1 d1" by auto
  from on_file_placed [OF c(2) n(2)] have p2: "placed sc ns g fl1 d2" by auto
  have q: "n = queue_length fl" using n(1) assms(6) by (simp add: count_mutations_def queue_length_def split: if_splits)
  show ?thesis
  proof (cases "0 < n \<and> \<not> discard")
    case True
    with rest obtain h0 where h0: "open_file q x v g stored d2 = (Inr h0, d')" "h_client h = h_client h0" "h_file h = h_file h0"
      by (auto simp: bindM_ok_iff)
    from open_file_in_hand [OF h0(1) p2 assms(3)] h0(2,3) show ?thesis by (simp add: in_hand_def)
  next
    case False
    with rest have "rebuild_beside q x v p g s reason n k d2 = (Inr h, d')" by simp
    from rebuilt_left [OF this assms(4) _ q] False assms(5) placed_room [OF assms(2) p2] show ?thesis by auto
  qed
qed (use assms open_file_in_hand in \<open>auto simp: open_stored_def\<close>)

lemma open_unrecorded_outcome:
  assumes "open_unrecorded q x v p g s d = (Inr h, d')" and "placed sc ns g fl1 d" and "kept_file fl fl1"
    and "\<not> v_unlisted v" and "room p d" and "queue_length fl1 = queue_length fl" and "fl_descriptor fl = None"
  shows "in_hand x sc g fl h d' \<or> left_behind x s g fl discard h d'"
proof -
  from assms(1) obtain u d1 where u: "on_file g (getsM (incompatibility s)) d = (Inr u, d1)"
    and rest: "(case u of None \<Rightarrow> open_file q x v g s | Some reason \<Rightarrow> bindM (on_file g (readM (count_mutations x)))
          (\<lambda>pending. rebuild_beside q x v p g s reason pending 0)) d1 = (Inr h, d')"
    by (auto simp: open_unrecorded_def bindM_ok_iff)
  from on_file_placed [OF u assms(2)] have p1: "placed sc ns g fl1 d1" by auto
  show ?thesis
  proof (cases u)
    case None
    with rest open_file_in_hand [OF _ p1 assms(3)] show ?thesis by simp
  next
    case (Some reason)
    with rest obtain n d2 where n: "on_file g (readM (count_mutations x)) d1 = (Inr n, d2)"
        "rebuild_beside q x v p g s reason n 0 d2 = (Inr h, d')" by (auto simp: bindM_ok_iff)
    from on_file_placed [OF n(1) p1] have "count_mutations x fl1 = Inr n" and p2: "placed sc ns g fl1 d2" by auto
    then have "n = queue_length fl" using assms(6) by (simp add: count_mutations_def queue_length_def split: if_splits)
    from rebuilt_left [OF n(2) assms(4) _ this] assms(5,7) placed_room [OF assms(2) p2] show ?thesis by auto
  qed
qed

definition tables_there :: "dbfile \<Rightarrow> bool" where
  "tables_there fl \<longleftrightarrow> ''ahead_mutation'' \<in> set (fl_framework fl) \<or> d_mutations (fl_db fl) = []"

lemma queue_length_there: "tables_there fl \<Longrightarrow> queue_length fl = length (d_mutations (fl_db fl))"
  by (auto simp: tables_there_def queue_length_def)

lemma ddl_there: "tables_there fl \<Longrightarrow> tables_there (framework_ddl fl) \<and> queue_length (framework_ddl fl) = queue_length fl"
  by (auto simp: tables_there_def queue_length_def framework_ddl_def)

lemma factory_placed:
  assumes "factory v g d = (Inr (), d')"
  shows "placed (dk_sidecar d) (insert g (fst ` set (dk_files d))) g
    (case map_of (dk_files d) g of None \<Rightarrow> empty_file | Some fl \<Rightarrow> fl) d'"
proof (cases "map_of (dk_files d) g")
  case (Some fl)
  then have "g \<in> fst ` set (dk_files d)" by (force dest: map_of_SomeD)
  with Some assms show ?thesis by (auto simp: factory_def placed_def split: option.splits)
next
  case None
  with assms have "d' = d\<lparr>dk_files := bt_ins g empty_file (dk_files d)\<rparr>" by (auto simp: factory_def split: option.splits)
  with None show ?thesis by (simp add: placed_def)
qed

lemma origin_outcome: "in_hand x sc g fl (h\<lparr>h_origin := o'\<rparr>) d \<longleftrightarrow> in_hand x sc g fl h d"
  "left_behind x s g fl discard (h\<lparr>h_origin := o'\<rparr>) d \<longleftrightarrow> left_behind x s g fl discard h d"
  by (simp_all add: in_hand_def left_behind_def rebuilt_def)

lemma open_at_outcome:
  fixes d :: disk and v :: env and p :: string
  defines "fl \<equiv> (case map_of (dk_files d) (current_file v p d) of None \<Rightarrow> empty_file | Some fl \<Rightarrow> fl)"
  assumes "open_at q x v p s discard d = (Inr h, d')" and "\<not> v_unlisted v" and "room p d"
    and "file_number p (current_file v p d) + 1 < 2 ^ 64" and "tables_there fl"
  shows "in_hand x (dk_sidecar d) (current_file v p d) fl h d' \<or> left_behind x s (current_file v p d) fl discard h d'"
proof -
  let ?g = "current_file v p d" and ?sc = "dk_sidecar d"
  let ?ns = "insert ?g (fst ` set (dk_files d))"
  from assms(2) obtain d0 l d1 h0 where f: "factory v ?g d = (Inr (), d0)" and l: "on_file ?g (getsM check_layout) d0 = (Inr l, d1)"
    and run: "(case l of
          FreshLayout \<Rightarrow> open_file q x v ?g s
        | LegacyLayout what \<Rightarrow> bindM (on_file ?g (getsM (count_mutations x)))
            (\<lambda>n. rebuild_beside q x v p ?g s what (case n of Inr k \<Rightarrow> k | Inl _ \<Rightarrow> 0) 0)
        | CurrentLayout \<Rightarrow> bindM (on_file ?g (modifyM framework_ddl))
            (\<lambda>_. bindM (on_file ?g (readM (read_descriptor x)))
            (\<lambda>stored. case stored of
               None \<Rightarrow> open_unrecorded q x v p ?g s
             | Some s' \<Rightarrow> open_stored q x v p ?g s discard s'))) d1 = (Inr h0, d')"
    and h: "h = h0\<lparr>h_origin := Some (p, s)\<rparr>"
    by (auto simp: open_at_def bindM_ok_iff)
  from factory_placed [OF f] have p0: "placed ?sc ?ns ?g fl d0" by (simp add: fl_def)
  from on_file_placed [OF l p0] have lay: "l = check_layout fl" and p1: "placed ?sc ?ns ?g fl d1" by auto
  have room: "room p d2" if "placed ?sc ?ns ?g fl2 d2" for fl2 d2
    using that assms(4,5) by (auto simp: placed_def room_def)
  have "in_hand x ?sc ?g fl h0 d' \<or> left_behind x s ?g fl discard h0 d'"
  proof (cases l)
    case FreshLayout
    with run open_file_in_hand [OF _ p1 kept_file.refl] show ?thesis by simp
  next
    case (LegacyLayout what)
    with run obtain n d2 where n: "on_file ?g (getsM (count_mutations x)) d1 = (Inr n, d2)"
        "rebuild_beside q x v p ?g s what (case n of Inr k \<Rightarrow> k | Inl _ \<Rightarrow> 0) 0 d2 = (Inr h0, d')"
      by (auto simp: bindM_ok_iff)
    from on_file_placed [OF n(1) p1] have m: "n = count_mutations x fl" and p2: "placed ?sc ?ns ?g fl d2" by auto
    have "(case n of Inr k \<Rightarrow> k | Inl _ \<Rightarrow> 0) = queue_length fl" by (simp add: m count_mutations_def queue_length_def)
    from rebuilt_left [OF n(2) assms(3) room [OF p2] this] LegacyLayout lay show ?thesis by simp
  next
    case CurrentLayout
    with run obtain d2 stored d3 where c: "on_file ?g (modifyM framework_ddl) d1 = (Inr (), d2)"
        "on_file ?g (readM (read_descriptor x)) d2 = (Inr stored, d3)"
        "(case stored of None \<Rightarrow> open_unrecorded q x v p ?g s | Some s' \<Rightarrow> open_stored q x v p ?g s discard s') d3 = (Inr h0, d')"
      by (auto simp: bindM_ok_iff)
    from on_file_placed [OF c(1) p1] have p2: "placed ?sc ?ns ?g (framework_ddl fl) d2" by auto
    from on_file_placed [OF c(2) p2] have r: "read_descriptor x (framework_ddl fl) = Inr stored" and p3: "placed ?sc ?ns ?g (framework_ddl fl) d3"
      by auto
    have k: "queue_length (framework_ddl fl) = queue_length fl" using ddl_there [OF assms(6)] by simp
    show ?thesis
    proof (cases stored)
      case None
      with r have "fl_descriptor fl = None"
        by (auto simp: read_descriptor_def framework_ddl_def res_elims split: option.splits)
      with None c(3) open_unrecorded_outcome [OF _ p3 framework_kept(2) assms(3) room [OF p3] k] show ?thesis by simp
    next
      case (Some s')
      with c(3) open_stored_outcome [OF _ p3 framework_kept(2) assms(3) room [OF p3] k] show ?thesis by simp
    qed
  qed
  then show ?thesis by (simp add: h origin_outcome)
qed

text \<open>A step that fails has not moved the sidecar.\<close>

definition moves_last :: "'a disk_op \<Rightarrow> bool" where
  "moves_last m \<longleftrightarrow> (\<forall>d e d'. m d = (Inl e, d') \<longrightarrow> dk_sidecar d' = dk_sidecar d)"

lemma moves_steady: "keeps steady m \<Longrightarrow> moves_last m"
  by (auto simp: moves_last_def steady_def dest: keepsD)

lemma moves_bind: "keeps steady m \<Longrightarrow> (\<And>a. moves_last (k a)) \<Longrightarrow> moves_last (bindM m k)"
  unfolding moves_last_def
  by (fastforce simp: bindM_def steady_def split: prod.splits sum.splits dest: keepsD)

lemma moves_then: "moves_last m \<Longrightarrow> moves_last (bindM m (\<lambda>a. retM (g a)))"
  by (auto simp: moves_last_def bindM_def split: prod.splits sum.splits)

lemma rebuild_moves_last: "moves_last (rebuild_beside q x v p old s reason n k)"
  unfolding moves_last_def using rebuild_beside_fails by blast

lemmas moves_rules = moves_bind moves_then rebuild_moves_last moves_steady [OF open_file_steady] on_file_steady factory_steady
  steady.keeps_pure

lemma open_at_moves_last: "moves_last (open_at q x v p s discard)"
proof -
  have "moves_last (open_stored q x v p g s discard stored)" for g stored
    unfolding open_stored_def by (cases "compatibility stored s") (auto intro!: moves_rules)
  moreover have "moves_last (open_unrecorded q x v p g s)" for g
    unfolding open_unrecorded_def by (auto intro!: moves_rules split: option.splits)
  ultimately show ?thesis unfolding open_at_def
    by (intro moves_rules) (auto intro!: moves_rules split: file_layout.splits option.splits)
qed

text \<open>
  C29: the sidecar moves last. If the sidecar can be read or is absent, the directory can be
  listed, its numbers stay below \<open>2 ^ 64\<close>, and the file in use has the mutation table if it
  holds mutations, then, whatever else fails while a path is opened, the sidecar still names
  the file it named. When the open succeeds, the client is at the file in use, with the sidecar
  as it was, or the sidecar names the client's new file; and by then that file is complete: it
  has the current layout, records the schema the client runs with, and holds exactly the client's
  committed content.
\<close>
theorem sidecar_moves_last:
  assumes "open_at q x v p s discard d = (r, d')" and "\<not> v_unreadable v" and "\<not> v_unlisted v" and "numbers_left p d"
    and "tables_there (case map_of (dk_files d) (in_use p d) of None \<Rightarrow> empty_file | Some fl \<Rightarrow> fl)"
  shows "case r of
      Inl e \<Rightarrow> dk_sidecar d' = dk_sidecar d
    | Inr h \<Rightarrow> (dk_sidecar d' = dk_sidecar d \<and> h_file h = in_use p d \<or> dk_sidecar d' = Some (h_file h @ newline)) \<and>
        (\<exists>fl. map_of (dk_files d') (h_file h) = Some fl \<and> check_layout fl = CurrentLayout \<and>
           fl_descriptor fl = Some (descriptor_text x (c_schema (h_client h))) \<and> fl_db fl = committed (h_client h))"
proof (cases r)
  case (Inl e)
  with assms(1) open_at_moves_last show ?thesis by (auto simp: moves_last_def)
next
  case (Inr h)
  with assms(1) have run: "open_at q x v p s discard d = (Inr h, d')" by simp
  have g: "current_file v p d = in_use p d" using assms(2) by (rule current_in_use)
  from assms(4) have n: "room p d" "file_number p (in_use p d) + 1 < 2 ^ 64" by (simp_all add: numbers_left_def)
  from open_at_outcome [OF run assms(3) n(1), unfolded g, OF n(2) assms(5)] Inr show ?thesis
    by (auto simp: in_hand_def left_behind_def rebuilt_def ready_def)
qed

text \<open>
  C28: unsent work is accounted for. Take a sidecar that can be read or is absent, a directory
  that can be listed, with numbers below \<open>2 ^ 64\<close>, and in it a file in use that has the mutation
  table if it holds mutations, as every real file has. A successful open of that file either is at it with the
  whole queue, or has rebuilt beside it and reports the old file and the exact number of mutations
  left there. It leaves mutations behind only when the caller agreed to discard them, or the file
  is of an earlier layout or records no schema.
\<close>
theorem unsent_work_accounted_for:
  assumes "open_at q x v p s discard d = (Inr h, d')" and "\<not> v_unreadable v" and "\<not> v_unlisted v" and "numbers_left p d"
    and "map_of (dk_files d) (in_use p d) = Some fl" and "tables_there fl"
  shows "h_file h = in_use p d \<and> undiverged (d_mutations (committed (h_client h))) = undiverged (d_mutations (fl_db fl)) \<or>
    (\<exists>rep. sc_last (h_state h) = Some rep \<and> rr_old rep = in_use p d \<and> rr_pending rep = length (d_mutations (fl_db fl)) \<and>
       (discard \<or> d_mutations (fl_db fl) = [] \<or> check_layout fl \<noteq> CurrentLayout \<or> fl_descriptor fl = None))"
proof -
  have g: "current_file v p d = in_use p d" using assms(2) by (rule current_in_use)
  from assms(4) have n: "room p d" "file_number p (in_use p d) + 1 < 2 ^ 64" by (simp_all add: numbers_left_def)
  from open_at_outcome [OF assms(1,3) n(1), unfolded g, OF n(2)] assms(5,6) queue_length_there [OF assms(6)] show ?thesis
    by (auto simp: in_hand_def left_behind_def rebuilt_def ready_def kept_file_def queue_kept_def)
qed

section \<open>A rebuild that fails\<close>

text \<open>
  C30: a rebuild that fails is the last one. When the reopening inside \<open>rebuild\<close> fails, its error
  is returned and the client is unchanged, its pending rebuild still reported; but the origin has
  been taken, so every later rebuild of this client, even one that may discard and whatever has
  become of the directory, fails because the client \<open>was not opened through a path\<close>.
\<close>
theorem failed_rebuild_is_final:
  assumes "sc_pending (h_state h) = Some pr" and "c_session (h_client h) = None"
    and "fst (pending_count (h_client h)) = Inr n" and "n = 0 \<or> discard" and "h_origin h = Some (p, s)"
    and "open_at q x v p s True (flushed h d) = (Inl e, d1)"
  shows "\<exists>h'. client_rebuild q x v discard (h, d) = (Inl e, (h', d1)) \<and> h_client h' = h_client h \<and> h_state h' = h_state h \<and>
    (\<forall>v' d2. fst (client_rebuild q x v' True (h', d2)) = Inl (invalid ''client was not opened through a path''))"
  using assms by (auto simp: client_rebuild_def)

end
