(* ===== verification/OpenRuns.thy ===== *)
theory OpenRuns
  imports Handed Samples
begin

text \<open>Concrete directories: the witnesses of the properties of opening and rebuilding.\<close>

definition q0 :: sqlite where
  "q0 = \<lparr>q_object = (\<lambda>_. ''''), q_literal = (\<lambda>ty t. SText t)\<rparr>"

definition v0 :: env where
  "v0 = \<lparr>v_unreadable = False, v_unlisted = False, v_open = (\<lambda>_. None), v_reopen = None, v_removes = (\<lambda>_. True),
     v_io = io_ok, v_write = io_ok, v_sidecar = None, v_uuid = ''c''\<rparr>"

text \<open>A small schema, its file with one unsent mutation, and a schema whose model is another.\<close>

definition small :: "string \<Rightarrow> schema" where
  "small n = \<lparr>s_enums = [], s_models = [\<lparr>m_name = ''List'', m_version = 1, m_identity = [''id''],
     m_fields = [field ''id'' (TScalar StString) False, field n (TScalar StString) False], m_relations = [], m_unique = []\<rparr>],
     s_requirements = [], s_prerequisites = [], s_policies = []\<rparr>"

definition small_file :: dbfile where
  "small_file = snd (open_store q0 x0 io_ok ''c'' (small ''title'') empty_file)"

definition disk1 :: disk where
  "disk1 = \<lparr>dk_files = [(''a'', small_file\<lparr>fl_db := w_db queued0\<rparr>)], dk_sidecar = None\<rparr>"

lemma disk1_ok: "numbers_left ''a'' disk1" "in_use ''a'' disk1 = ''a''"
    "case map_of (dk_files disk1) ''a'' of Some fl \<Rightarrow> tables_there fl \<and> length (d_mutations (fl_db fl)) = 1 | None \<Rightarrow> False"
  subgoal by code_simp
  subgoal by code_simp
  subgoal by code_simp
  done

lemma disk1_file: "map_of (dk_files disk1) ''a'' = Some (small_file\<lparr>fl_db := w_db queued0\<rparr>)"
  by (simp add: disk1_def)

lemma made_ok: "tables_there (small_file\<lparr>fl_db := w_db queued0\<rparr>)" "length (d_mutations (w_db queued0)) = 1"
  using disk1_ok(3) by (simp_all add: disk1_file)

text \<open>With the unsent mutation discarded the client opens beside; otherwise it waits.\<close>

lemma discarding: "case open_at q0 x0 v0 ''a'' (small ''name'') True disk1 of
    (Inr h, d) \<Rightarrow> h_file h = ''a.1'' \<and> dk_sidecar d = Some (''a.1'' @ newline) | _ \<Rightarrow> False"
  by code_simp

lemma waiting: "case open_at q0 x0 v0 ''a'' (small ''name'') False disk1 of
    (Inr h, d) \<Rightarrow> h_file h = ''a'' \<and> sc_last (h_state h) = None \<and> sc_pending (h_state h) \<noteq> None \<and>
      Option.is_none (c_session (h_client h)) \<and> fst (pending_count (h_client h)) = Inr 1 \<and>
      h_origin h = Some (''a'', small ''name'') | _ \<Rightarrow> False"
  by code_simp

theorem opening_keeps_files_witness:
  "\<exists>fl. map_of (dk_files (snd (open_at q0 x0 v0 ''a'' (small ''name'') True disk1))) ''a'' = Some fl \<and> length (d_mutations (fl_db fl)) = 1"
proof -
  obtain r d' where run: "open_at q0 x0 v0 ''a'' (small ''name'') True disk1 = (r, d')" by fastforce
  have "\<not> (numbered ''a'' ''a'' \<and> file_number ''a'' (in_use ''a'' disk1) < file_number ''a'' ''a'')"
    by (simp add: disk1_ok(2))
  from opening_keeps_files [OF run _ _ disk1_ok(1) disk1_file this] obtain fl where
      fl: "map_of (dk_files d') ''a'' = Some fl" "queue_kept (w_db queued0) (fl_db fl)"
    by (auto simp: v0_def)
  then have "length (undiverged (d_mutations (fl_db fl))) = length (undiverged (d_mutations (w_db queued0)))"
    by (simp add: queue_kept_def)
  with fl(1) made_ok(2) show ?thesis by (simp add: run undiverged_def)
qed

theorem sidecar_moves_last_witness:
  "\<exists>fl. map_of (dk_files (snd (open_at q0 x0 v0 ''a'' (small ''name'') True disk1))) ''a.1'' = Some fl \<and> check_layout fl = CurrentLayout"
proof -
  from runE [OF discarding] obtain h d' where
    run: "open_at q0 x0 v0 ''a'' (small ''name'') True disk1 = (Inr h, d')" and h: "h_file h = ''a.1''" by blast
  have "tables_there (case map_of (dk_files disk1) (in_use ''a'' disk1) of None \<Rightarrow> empty_file | Some fl \<Rightarrow> fl)"
    by (simp add: disk1_ok(2) disk1_file made_ok(1))
  from sidecar_moves_last [OF run _ _ disk1_ok(1) this] h run show ?thesis by (auto simp: v0_def)
qed

theorem unsent_work_accounted_for_witness:
  "case open_at q0 x0 v0 ''a'' (small ''name'') False disk1 of
     (Inr h, _) \<Rightarrow> undiverged (d_mutations (committed (h_client h))) = undiverged (d_mutations (w_db queued0)) | _ \<Rightarrow> False"
proof -
  from runE [OF waiting] obtain h d' where
    run: "open_at q0 x0 v0 ''a'' (small ''name'') False disk1 = (Inr h, d')" and h: "sc_last (h_state h) = None" by blast
  have "map_of (dk_files disk1) (in_use ''a'' disk1) = Some (small_file\<lparr>fl_db := w_db queued0\<rparr>)"
    by (simp add: disk1_ok(2) disk1_file)
  from unsent_work_accounted_for [OF run _ _ disk1_ok(1) this made_ok(1)] h run show ?thesis by (simp add: v0_def)
qed

section \<open>A rebuild that fails\<close>

theorem failed_rebuild_is_final_witness:
  "case open_at q0 x0 v0 ''a'' (small ''name'') False disk1 of
     (Inr h, d) \<Rightarrow> (case client_rebuild q0 x0 (v0\<lparr>v_open := (\<lambda>_. Some (invalid ''disk I/O error''))\<rparr>) True (h, d) of
        (_, (h', d')) \<Rightarrow> fst (client_rebuild q0 x0 v0 True (h', d')) = Inl (invalid ''client was not opened through a path''))
   | _ \<Rightarrow> False"
proof -
  let ?v = "v0\<lparr>v_open := (\<lambda>_. Some (invalid ''disk I/O error''))\<rparr>"
  from runE [OF waiting] obtain h d where
    run: "open_at q0 x0 v0 ''a'' (small ''name'') False disk1 = (Inr h, d)" and
    h: "sc_pending (h_state h) \<noteq> None" "Option.is_none (c_session (h_client h))"
      "fst (pending_count (h_client h)) = Inr 1" "h_origin h = Some (''a'', small ''name'')" by blast
  from h(1) obtain pr where pr: "sc_pending (h_state h) = Some pr" by blast
  have "validate (small ''name'') = Inr ()" by code_simp
  then have "open_at q0 x0 ?v ''a'' (small ''name'') True (flushed h d) = (Inl (invalid ''disk I/O error''), flushed h d)"
    by (simp add: open_at_def factory_def)
  from failed_rebuild_is_final [OF pr _ h(3) _ h(4) this, of True] h(2) run show ?thesis
    by (auto simp: Option.is_none_def split: option.splits)
qed

section \<open>A sidecar that cannot be read\<close>

text \<open>
  The file in use is \<open>a.1\<close>, with an unsent mutation. When the sidecar cannot be read the open
  takes \<open>a\<close>, finds it incompatible and rebuilds it: \<open>a.1\<close> is removed as a stray.
\<close>

definition disk2 :: disk where
  "disk2 = \<lparr>dk_files = [(''a'', small_file), (''a.1'', (snd (open_store q0 x0 io_ok ''c'' (small ''name'') empty_file))\<lparr>fl_db := w_db queued0\<rparr>)],
     dk_sidecar = Some (''a.1'' @ newline)\<rparr>"

lemma unread_sidecar_loses_work:
  "case open_at q0 x0 (v0\<lparr>v_unreadable := True\<rparr>) ''a'' (small ''name'') False disk2 of
     (Inr h, d) \<Rightarrow> h_file h = ''a.1'' \<and> d_mutations (committed (h_client h)) = [] | _ \<Rightarrow> False"
  "case open_at q0 x0 v0 ''a'' (small ''name'') False disk2 of
     (Inr h, d) \<Rightarrow> h_file h = ''a.1'' \<and> length (d_mutations (committed (h_client h))) = 1 | _ \<Rightarrow> False"
  by code_simp+

end
