(* ===== verification/Migrating.thy ===== *)
theory Migrating
  imports Handed QueryOk
begin

text \<open>
  Opening under a compatible schema: the file built for the stored schema becomes one built for
  the incoming schema, and every row keeps the values it had.
\<close>

section \<open>A file built for a schema\<close>

definition model_tables :: "model_desc \<Rightarrow> string list" where
  "model_tables m = [m_name m, before_table (m_name m)]"

definition layout_of :: "model_desc \<Rightarrow> table_layout" where
  "layout_of m = \<lparr>ly_columns = map (\<lambda>f. (f_name f, storage_type (f_type f))) (m_fields m), ly_identity = m_identity m\<rparr>"

definition holds_table :: "ext \<Rightarrow> schema \<Rightarrow> model_desc \<Rightarrow> json list \<Rightarrow> string \<Rightarrow> dbfile \<Rightarrow> bool" where
  "holds_table x s m rows t fl \<longleftrightarrow> layout_at fl t = Some (layout_of m) \<and>
     d_tables (fl_db fl) t = table_of x m rows \<and> (\<forall>r \<in> set rows. row_ok x s m r)"

text \<open>The names of a schema's tables and indexes, as SQLite compares them: in lower case.\<close>

definition table_keys :: "model_desc \<Rightarrow> string set" where
  "table_keys m = lowercase ` set (model_tables m)"

definition index_keys :: "model_desc \<Rightarrow> string set" where
  "index_keys m = (\<lambda>u. lowercase (index_name m u)) ` set (m_unique m)"

definition index_names :: "schema \<Rightarrow> string set" where
  "index_names s = (\<Union>m \<in> set (s_models s). index_keys m)"

definition table_names :: "schema \<Rightarrow> string set" where
  "table_names s = (\<Union>m \<in> set (s_models s). table_keys m)"

definition built_for :: "ext \<Rightarrow> schema \<Rightarrow> (string \<Rightarrow> json list) \<Rightarrow> dbfile \<Rightarrow> bool" where
  "built_for x s rows fl \<longleftrightarrow> (\<forall>m \<in> set (s_models s). \<forall>t \<in> set (model_tables m). holds_table x s m (rows t) t fl) \<and>
     {t. fl_layouts fl t \<noteq> None} = table_names s \<and> set (fl_indexes fl) = index_names s"

text \<open>
  The names of a schema stay apart for SQLite: without their case, no two models have one name, no
  two fields of a model do, and no index has the name of a table.
\<close>

definition names_apart :: "schema \<Rightarrow> bool" where
  "names_apart s \<longleftrightarrow> distinct (map (\<lambda>m. lowercase (m_name m)) (s_models s)) \<and>
     (\<forall>m \<in> set (s_models s). distinct (map (\<lambda>f. lowercase (f_name f)) (m_fields m))) \<and>
     index_names s \<inter> table_names s = {}"

text \<open>The defaults are values of their fields, and SQLite reads their literals as these values.\<close>

definition defaults_ok :: "sqlite \<Rightarrow> ext \<Rightarrow> schema \<Rightarrow> bool" where
  "defaults_ok q x s \<longleftrightarrow> (\<forall>m \<in> set (s_models s). \<forall>f \<in> set (m_fields m). \<forall>d. f_default f = Some d \<longrightarrow>
     normalize_value x s f d = Inr d \<and> (as_array d \<noteq> None \<longrightarrow> text_ok x d) \<and>
     (\<exists>t. literal x f = Inr t \<and> q_literal q (storage_type (f_type f)) t = parameter x d))"

section \<open>A row with its new fields\<close>

definition added_value :: "field_desc \<Rightarrow> json" where
  "added_value f = (if f_nullable f then JNull else (case f_default f of None \<Rightarrow> JNull | Some d \<Rightarrow> d))"

definition grown_row :: "model_desc \<Rightarrow> model_desc \<Rightarrow> json \<Rightarrow> json" where
  "grown_row old new r = obj (map (\<lambda>f. (f_name f, if f_name f \<in> set (columns old) then index r (f_name f) else added_value f))
     (m_fields new))"

text \<open>What a compatible schema says of a stored model.\<close>

definition grows :: "ext \<Rightarrow> schema \<Rightarrow> schema \<Rightarrow> model_desc \<Rightarrow> model_desc \<Rightarrow> bool" where
  "grows x s s' old new \<longleftrightarrow> m_name new = m_name old \<and> m_identity new = m_identity old \<and> m_unique new = m_unique old \<and>
     (\<forall>f \<in> set (m_fields old). \<exists>g. field_of new (f_name f) = Some g \<and> f_type g = f_type f \<and>
        (\<forall>v. normalize_value x s' g v = normalize_value x s f v)) \<and>
     (\<forall>g \<in> set (m_fields new). f_name g \<notin> set (columns old) \<longrightarrow> f_nullable g \<or> f_default g \<noteq> None)"

lemma compatible_grows:
  assumes "schema_ok s" and "schema_ok s'" and "\<And>r. compatibility s s' \<noteq> Incompatible r" and "old \<in> set (s_models s)"
  obtains new where "new \<in> set (s_models s')" and "grows x s s' old new"
proof -
  have "efold (old_model s s') (s_models s) [] \<noteq> Inl r" for r
    using assms(3) [of r] by (auto simp: compatibility_def)
  then obtain steps where "efold (old_model s s') (s_models s) [] = Inr steps" by (meson sumE)
  from efold_each [OF this assms(4)] obtain a b where "old_model s s' old a = Inr b" by blast
  then obtain new where new: "find (\<lambda>m. m_name m = m_name old) (s_models s') = Some new"
    and id: "m_identity new = m_identity old" "m_unique new = m_unique old"
    and each: "\<forall>f \<in> set (m_fields old). old_field s s' old new f = Inr ()"
    and fs: "efold (new_field old new) (m_fields new) a = Inr b"
    by (auto simp: old_model_def res_elims split: option.splits)
  from find_Some_in [OF new] have m: "new \<in> set (s_models s')" "m_name new = m_name old" by simp_all
  have "\<exists>g. field_of new (f_name f) = Some g \<and> f_type g = f_type f \<and> (\<forall>v. normalize_value x s' g v = normalize_value x s f v)"
    if f: "f \<in> set (m_fields old)" for f
  proof -
    have "model_ok s old" using assms(1,4) by (simp add: schema_ok_def)
    from field_of_mem [OF this f] have "field_of old (f_name f) = Some f" .
    from compatible_field [OF assms(1,2,4) each this, of x] obtain g where
      g: "field_of new (f_name f) = Some g" "\<forall>v. normalize_value x s' g v = normalize_value x s f v" by blast
    with each f have "f_type g = f_type f" by (auto simp: old_field_def split: option.splits if_splits)
    with g show ?thesis by blast
  qed
  moreover have "f_nullable g \<or> f_default g \<noteq> None" if "g \<in> set (m_fields new)" "f_name g \<notin> set (columns old)" for g
  proof -
    from efold_each [OF fs that(1)] obtain c d where "new_field old new g c = Inr d" by blast
    moreover have "\<not> (\<exists>h \<in> set (m_fields old). f_name h = f_name g)" using that(2) by (metis columns_def image_eqI set_map)
    ultimately show ?thesis by (auto simp: new_field_def split: if_splits)
  qed
  ultimately have "grows x s s' old new" using m(2) id by (simp add: grows_def)
  with m(1) show thesis by (rule that)
qed

lemma grown_index:
  assumes "model_ok s new" and "field_of new n = Some f"
  shows "index (grown_row old new r) n = (if n \<in> set (columns old) then index r n else added_value f)"
proof -
  let ?g = "\<lambda>f. if f_name f \<in> set (columns old) then index r (f_name f) else added_value f"
  from field_of_in [OF assms(2)] have f: "f \<in> set (m_fields new)" "f_name f = n" by simp_all
  have d: "distinct (map fst (map (\<lambda>f. (f_name f, ?g f)) (m_fields new)))"
    using assms(1) by (simp add: comp_def model_ok_def)
  have "map_of (map (\<lambda>f. (f_name f, ?g f)) (m_fields new)) n = Some (?g f)"
    using f by (intro map_of_is_SomeI [OF d]) auto
  then have "map_of (rev (map (\<lambda>f. (f_name f, ?g f)) (m_fields new))) n = Some (?g f)"
    by (simp only: distinct_map_of_rev [OF d])
  then show ?thesis using f(2) by (simp add: grown_row_def obj_def index_def map_of_bt_of)
qed

text \<open>A row that has its new fields is a row of the new model.\<close>

lemma grown_columns: "grows x s s' old new \<Longrightarrow> set (columns old) \<subseteq> set (columns new)"
proof
  fix n assume g: "grows x s s' old new" and "n \<in> set (columns old)"
  then obtain f where "f \<in> set (m_fields old)" "f_name f = n" by (auto simp: columns_def)
  with g obtain h where "field_of new n = Some h" by (auto simp: grows_def)
  from field_of_in [OF this] show "n \<in> set (columns new)" by (auto simp: columns_def)
qed

lemma grown_row_ok:
  assumes "schema_ok s" and "schema_ok s'" and "old \<in> set (s_models s)" and "new \<in> set (s_models s')"
    and "grows x s s' old new" and "defaults_ok q x s'" and "row_ok x s old r"
  shows "row_ok x s' new (grown_row old new r)"
proof -
  from assms(1-4) have mo: "model_ok s old" "model_ok s' new" by (simp_all add: schema_ok_def)
  let ?g = "\<lambda>f. if f_name f \<in> set (columns old) then index r (f_name f) else added_value f"
  let ?kvs = "bt_of (map (\<lambda>f. (f_name f, ?g f)) (m_fields new))"
  have keys: "fst ` set ?kvs = set (columns new)" by (auto simp: keys_bt_of columns_def image_image)
  have each: "normalize_value x s' f (?g f) = Inr (?g f) \<and> (as_array (?g f) \<noteq> None \<longrightarrow> text_ok x (?g f))"
    if f: "f \<in> set (m_fields new)" for f
  proof (cases "f_name f \<in> set (columns old)")
    case True
    then obtain f0 where f0: "f0 \<in> set (m_fields old)" "f_name f0 = f_name f" by (auto simp: columns_def)
    from field_of_mem [OF mo(1) f0(1)] f0(2) have at: "field_of old (f_name f) = Some f0" by simp
    from assms(5) f0 field_of_mem [OF mo(2) f] have "normalize_value x s' f v = normalize_value x s f0 v" for v
      by (fastforce simp: grows_def)
    moreover from row_value [OF assms(7) at] have "normalize_value x s f0 (index r (f_name f)) = Inr (index r (f_name f))" .
    moreover have "as_array (index r (f_name f)) \<noteq> None \<longrightarrow> text_ok x (index r (f_name f))"
    proof -
      from assms(7) obtain kvs where row: "r = JObj kvs" "fst ` set kvs = set (columns old)" "list_texts_ok x kvs"
        by (auto simp: row_ok_def)
      with True obtain v where "map_of kvs (f_name f) = Some v" by (metis map_of_eq_None_iff not_None_eq)
      with row show ?thesis by (auto simp: index_def list_texts_ok_def dest!: map_of_SomeD)
    qed
    ultimately show ?thesis using True by simp
  next
    case False
    with assms(5) f have "f_nullable f \<or> f_default f \<noteq> None" by (simp add: grows_def)
    with assms(4,6) f False show ?thesis
      by (fastforce simp: added_value_def defaults_ok_def normalize_value_def is_null_def)
  qed
  have at: "map_of ?kvs n = Some v \<Longrightarrow> \<exists>f. field_of new n = Some f \<and> v = ?g f" for n v
  proof -
    assume v: "map_of ?kvs n = Some v"
    have "n \<in> fst ` set ?kvs" by (rule rev_image_eqI [OF map_of_SomeD [OF v]]) simp
    then obtain f where f: "f \<in> set (m_fields new)" "f_name f = n" unfolding keys by (auto simp: columns_def)
    from field_of_mem [OF mo(2) f(1)] f(2) have fo: "field_of new n = Some f" by simp
    from grown_index [OF mo(2) fo, of old r] v f(2) have "v = ?g f" by (simp add: grown_row_def obj_def index_def)
    with fo show ?thesis by blast
  qed
  have "normal_values x s' new ?kvs"
    unfolding normal_values_def
  proof (intro conjI allI impI bt_ok_bt_of)
    fix n v assume "map_of ?kvs n = Some v"
    from at [OF this] obtain f where f: "field_of new n = Some f" "v = ?g f" by blast
    with each [of f] field_of_in [OF f(1)] show "\<exists>f. field_of new n = Some f \<and> normalize_value x s' f v = Inr v" by blast
  qed
  moreover have "list_texts_ok x ?kvs"
    unfolding list_texts_ok_def
  proof clarify
    fix n v a assume nv: "(n, v) \<in> set ?kvs" and a: "as_array v = Some a"
    from nv have "map_of ?kvs n = Some v" by (simp only: map_of_eq_Some_iff [OF bt_ok_distinct [OF bt_ok_bt_of]])
    from at [OF this] obtain f where f: "field_of new n = Some f" "v = ?g f" by blast
    with each [of f] field_of_in [OF f(1)] a show "text_ok x v" by simp
  qed
  ultimately show ?thesis using keys by (auto simp: row_ok_def grown_row_def obj_def)
qed

end
