(* ===== verification/Migrated.thy ===== *)
theory Migrated
  imports Migrating Register
begin

text \<open>The reconciliation, model by model, of a file built for a compatible schema.\<close>

section \<open>One table on its way\<close>

definition column_ty :: "model_desc \<Rightarrow> string \<Rightarrow> string" where
  "column_ty m n = (case field_of m n of Some f \<Rightarrow> storage_type (f_type f) | None \<Rightarrow> '''')"

text \<open>The old rows with some of the new columns.\<close>

definition growing :: "ext \<Rightarrow> model_desc \<Rightarrow> model_desc \<Rightarrow> string list \<Rightarrow> json list \<Rightarrow> string \<Rightarrow> dbfile \<Rightarrow> bool" where
  "growing x old new cols rows t fl \<longleftrightarrow>
     layout_at fl t = Some \<lparr>ly_columns = map (\<lambda>n. (n, column_ty new n)) cols, ly_identity = m_identity old\<rparr> \<and>
     d_tables (fl_db fl) t = map (\<lambda>r. (identity_params x old r, map (\<lambda>n. parameter x (index (grown_row old new r) n)) cols)) rows"

text \<open>Nothing but some tables changes, named in lower case.\<close>

definition only :: "string set \<Rightarrow> dbfile \<Rightarrow> dbfile \<Rightarrow> bool" where
  "only ts fl fl' \<longleftrightarrow> fl_indexes fl' = fl_indexes fl \<and> {t. fl_layouts fl' t \<noteq> None} = {t. fl_layouts fl t \<noteq> None} \<and>
     (\<forall>u. lowercase u \<notin> ts \<longrightarrow> layout_at fl' u = layout_at fl u \<and> d_tables (fl_db fl') u = d_tables (fl_db fl) u)"

lemma only_refl: "only ts fl fl"
  by (simp add: only_def)

lemma only_trans: "only ts a b \<Longrightarrow> only ts b c \<Longrightarrow> only ts a c"
  by (simp add: only_def)

lemma only_more: "only ts a b \<Longrightarrow> ts \<subseteq> us \<Longrightarrow> only us a b"
  unfolding only_def by (metis subsetD)

lemma growing_only: "growing x old new cols rows u fl \<Longrightarrow> only ts fl fl' \<Longrightarrow> lowercase u \<notin> ts \<Longrightarrow> growing x old new cols rows u fl'"
  by (simp add: growing_def only_def)

lemma holds_only: "holds_table x s m rows u fl \<Longrightarrow> only ts fl fl' \<Longrightarrow> lowercase u \<notin> ts \<Longrightarrow> holds_table x s m rows u fl'"
  by (simp add: holds_table_def only_def)

lemma upper_storage: "map to_upper (storage_type t) = storage_type t"
proof -
  have "map to_upper ''INTEGER'' = ''INTEGER''" "map to_upper ''REAL'' = ''REAL''" "map to_upper ''TEXT'' = ''TEXT''"
    by code_simp+
  then show ?thesis by (cases t) (simp_all del: list.map)
qed

lemma layout_type: "column_type (layout_of m) n = (case field_of m n of None \<Rightarrow> None | Some f \<Rightarrow> Some (storage_type (f_type f)))"
proof -
  have "map_of (map (\<lambda>f. (f_name f, storage_type (f_type f))) fs) n =
      (case find (\<lambda>f. f_name f = n) fs of None \<Rightarrow> None | Some f \<Rightarrow> Some (storage_type (f_type f)))" for fs
    by (induction fs) auto
  from this [of "m_fields m"] show ?thesis
    by (auto simp: column_type_def layout_of_def field_of_def upper_storage split: option.splits)
qed

lemma growing_start:
  assumes "model_ok s old" and "model_ok s' new" and "grows x s s' old new" and "holds_table x s old rows t fl"
  shows "growing x old new (columns old) rows t fl"
proof -
  have at: "\<exists>g. field_of new n = Some g \<and> (\<forall>f. field_of old n = Some f \<longrightarrow> f_type g = f_type f)" if "n \<in> set (columns old)" for n
  proof -
    from that obtain f where f: "f \<in> set (m_fields old)" "f_name f = n" by (auto simp: columns_def)
    with assms(3) obtain g where "field_of new n = Some g" "f_type g = f_type f" by (auto simp: grows_def)
    with field_of_mem [OF assms(1) f(1)] f(2) show ?thesis by auto
  qed
  have ty: "column_ty new (f_name f) = storage_type (f_type f)" if "f \<in> set (m_fields old)" for f
    using at [of "f_name f"] field_of_mem [OF assms(1) that] that by (auto simp: column_ty_def columns_def)
  have "index (grown_row old new r) n = index r n" if n: "n \<in> set (columns old)" for r n
  proof -
    from at [OF n] obtain g where "field_of new n = Some g" by blast
    from grown_index [OF assms(2) this] n show ?thesis by simp
  qed
  then show ?thesis using assms(4) ty
    by (simp add: growing_def holds_table_def layout_of_def columns_def table_of_def row_params_def)
qed

lemma add_column_grows:
  assumes "growing x old new cols rows t fl" and "model_ok s' new" and "field_of new n = Some f" and "n \<notin> set (columns old)"
    and "lowercase n \<notin> lowercase ` set cols"
  shows "\<exists>fl'. add_column x n (storage_type (f_type f)) (parameter x (added_value f)) t fl = (Inr (), fl') \<and>
     growing x old new (cols @ [n]) rows t fl' \<and> only {lowercase t} fl fl'"
proof -
  let ?l = "\<lparr>ly_columns = map (\<lambda>n. (n, column_ty new n)) cols, ly_identity = m_identity old\<rparr>"
  let ?row = "\<lambda>r n. parameter x (index (grown_row old new r) n)"
  from assms(1) have l: "layout_at fl t = Some ?l"
    and rows: "d_tables (fl_db fl) t = map (\<lambda>r. (identity_params x old r, map (?row r) cols)) rows"
    by (simp_all add: growing_def)
  have names: "map fst (ly_columns ?l) = cols" by (simp add: comp_def)
  have "map (named_cell cols (map (?row r) cols)) cols = map (?row r) cols" for r by (simp add: named_cell_map)
  moreover have "?row r n = parameter x (added_value f)" for r using grown_index [OF assms(2,3), of old r] assms(4) by simp
  moreover have "column_ty new n = storage_type (f_type f)" using assms(3) by (simp add: column_ty_def)
  moreover have "lowercase n \<notin> lowercase ` fst ` set (ly_columns ?l)" using assms(5) by (simp add: image_image)
  ultimately show ?thesis
    unfolding add_column_def l option.case names using l by (auto simp: growing_def only_def rows comp_def)
qed

lemma default_value:
  assumes "defaults_ok q x s'" and "new \<in> set (s_models s')" and "f \<in> set (m_fields new)" and "f_nullable f \<or> f_default f \<noteq> None"
  shows "column_default q x f = Inr (parameter x (added_value f))"
proof (cases "f_nullable f")
  case True
  then show ?thesis by (simp add: column_default_def added_value_def parameter_def)
next
  case False
  with assms(4) obtain d where d: "f_default f = Some d" by auto
  with assms(1-3) obtain t where "literal x f = Inr t" "q_literal q (storage_type (f_type f)) t = parameter x d"
    unfolding defaults_ok_def by blast
  with False d show ?thesis by (simp add: column_default_def added_value_def)
qed

section \<open>A stored model\<close>

text \<open>A stored model, the incoming one, and the rows of its two tables.\<close>

definition migrates :: "sqlite \<Rightarrow> ext \<Rightarrow> schema \<Rightarrow> schema \<Rightarrow> model_desc \<Rightarrow> model_desc \<Rightarrow> bool" where
  "migrates q x s s' old new \<longleftrightarrow> schema_ok s \<and> schema_ok s' \<and> old \<in> set (s_models s) \<and> new \<in> set (s_models s') \<and>
     grows x s s' old new \<and> defaults_ok q x s' \<and> names_apart s'"

lemma migrates_ok:
  assumes "migrates q x s s' old new"
  shows "model_ok s old" and "model_ok s' new" and "m_name new = m_name old" and "m_identity new = m_identity old"
    and "m_unique new = m_unique old" and "grows x s s' old new" and "inj_on lowercase (set (columns new))"
proof -
  from assms have "distinct (map lowercase (columns new))"
    by (simp add: migrates_def names_apart_def columns_def comp_def)
  then show "inj_on lowercase (set (columns new))" by (simp add: distinct_map)
qed (use assms in \<open>simp_all add: migrates_def schema_ok_def grows_def\<close>)

lemma tables_apart: "model_ok s m \<Longrightarrow> lowercase (m_name m) \<noteq> lowercase (before_table n)"
  using before_reserved [of n] by (auto simp: model_ok_def reserved_model_name_def Let_def)

lemma before_apart: "lowercase (before_table u) = lowercase (before_table v) \<longleftrightarrow> lowercase u = lowercase v"
  by (simp add: before_table_def lowercase_def)

definition on_way :: "ext \<Rightarrow> model_desc \<Rightarrow> model_desc \<Rightarrow> (string \<Rightarrow> json list) \<Rightarrow> string list \<Rightarrow> dbfile \<Rightarrow> bool" where
  "on_way x old new rows cols fl \<longleftrightarrow> (\<forall>t \<in> set (model_tables new). growing x old new cols (rows t) t fl)"

lemma column_grows:
  assumes P: "migrates q x s s' old new" and "on_way x old new rows cols fl" and "f \<in> set (m_fields new)" and "set (columns old) \<subseteq> set cols"
    and "f_name f \<notin> set (columns old) \<Longrightarrow> lowercase (f_name f) \<notin> lowercase ` set cols"
  shows "\<exists>fl'. reconcile_column q x new (layout_of old) f fl = (Inr (), fl') \<and>
     on_way x old new rows (if f_name f \<in> set (columns old) then cols else cols @ [f_name f]) fl' \<and> only (table_keys new) fl fl'"
proof -
  note ok = migrates_ok [OF P]
  have mem: "new \<in> set (s_models s')" and defaults: "defaults_ok q x s'" using P by (simp_all add: migrates_def)
  note apart = tables_apart [OF ok(2), of "m_name new"]
  show ?thesis
proof (cases "f_name f \<in> set (columns old)")
  case True
  then obtain f0 where f0: "f0 \<in> set (m_fields old)" "f_name f0 = f_name f" by (auto simp: columns_def)
  with field_of_mem [OF ok(1) f0(1)] have "column_type (layout_of old) (f_name f) = Some (storage_type (f_type f0))"
    by (simp add: layout_type)
  moreover from ok(6) f0 field_of_mem [OF ok(2) assms(3)] have "f_type f = f_type f0" by (fastforce simp: grows_def)
  ultimately show ?thesis using True assms(2) by (simp add: reconcile_column_def only_refl)
next
  case False
  let ?n = "f_name f" and ?ty = "storage_type (f_type f)" and ?v = "parameter x (added_value f)"
  have fo: "field_of new ?n = Some f" using field_of_mem [OF ok(2) assms(3)] .
  have "field_of old ?n = None"
  proof (rule ccontr)
    assume "field_of old ?n \<noteq> None"
    then obtain g where "field_of old ?n = Some g" by blast
    from field_of_in [OF this] have "?n \<in> f_name ` set (m_fields old)" by (metis image_eqI)
    with False show False by (simp add: columns_def)
  qed
  then have none: "column_type (layout_of old) ?n = None" by (simp add: layout_type)
  have d: "column_default q x f = Inr ?v"
    using default_value [OF defaults mem assms(3)] ok(6) False assms(3) by (simp add: grows_def)
  from assms(2) have g: "growing x old new cols (rows (m_name new)) (m_name new) fl"
      "growing x old new cols (rows (before_table (m_name new))) (before_table (m_name new)) fl"
    by (simp_all add: on_way_def model_tables_def)
  from add_column_grows [OF g(1) ok(2) fo False assms(5) [OF False]] obtain fl1 where
    a1: "add_column x ?n ?ty ?v (m_name new) fl = (Inr (), fl1)"
      "growing x old new (cols @ [?n]) (rows (m_name new)) (m_name new) fl1" "only {lowercase (m_name new)} fl fl1" by blast
  from growing_only [OF g(2) a1(3)] apart have "growing x old new cols (rows (before_table (m_name new))) (before_table (m_name new)) fl1"
    by simp
  from add_column_grows [OF this ok(2) fo False assms(5) [OF False]] obtain fl2 where
    a2: "add_column x ?n ?ty ?v (before_table (m_name new)) fl1 = (Inr (), fl2)"
      "growing x old new (cols @ [?n]) (rows (before_table (m_name new))) (before_table (m_name new)) fl2"
      "only {lowercase (before_table (m_name new))} fl1 fl2" by blast
  from growing_only [OF a1(2) a2(3)] apart have "growing x old new (cols @ [?n]) (rows (m_name new)) (m_name new) fl2" by simp
  with a2(2) have "on_way x old new rows (cols @ [?n]) fl2" by (simp add: on_way_def model_tables_def)
  moreover have "only (table_keys new) fl fl2"
    using only_trans [OF only_more [OF a1(3), of "table_keys new"] only_more [OF a2(3)]] by (simp add: table_keys_def model_tables_def)
  moreover have "reconcile_column q x new (layout_of old) f fl = (Inr (), fl2)"
    by (simp add: reconcile_column_def none d a1(1) a2(1))
  ultimately show ?thesis using False by auto
qed
qed

lemma columns_grow:
  assumes P: "migrates q x s s' old new" and "on_way x old new rows cols fl" and "set fs \<subseteq> set (m_fields new)" and "distinct (map f_name fs)" and "set (columns old) \<subseteq> set cols"
    and "set cols \<subseteq> set (columns new)" and "set cols \<inter> f_name ` set fs \<subseteq> set (columns old)"
  shows "\<exists>fl'. forM (reconcile_column q x new (layout_of old)) fs fl = (Inr (), fl') \<and>
     on_way x old new rows (cols @ map f_name (filter (\<lambda>f. f_name f \<notin> set (columns old)) fs)) fl' \<and> only (table_keys new) fl fl'"
  using assms(2-)
proof (induction fs arbitrary: cols fl)
  case Nil
  then show ?case by (simp add: only_refl)
next
  case (Cons f fs)
  let ?cols = "if f_name f \<in> set (columns old) then cols else cols @ [f_name f]"
  have "lowercase (f_name f) \<notin> lowercase ` set cols" if "f_name f \<notin> set (columns old)"
  proof
    assume "lowercase (f_name f) \<in> lowercase ` set cols"
    then obtain n where n: "n \<in> set cols" "lowercase (f_name f) = lowercase n" by blast
    moreover have "f_name f \<in> set (columns new)" using Cons.prems(2) by (auto simp: columns_def)
    ultimately have "f_name f = n" using inj_onD [OF migrates_ok(7) [OF P], of "f_name f" n] Cons.prems(5) by blast
    with n(1) that Cons.prems(6) show False by auto
  qed
  with column_grows [OF P, of rows cols fl f] Cons.prems obtain fl1 where
    r: "reconcile_column q x new (layout_of old) f fl = (Inr (), fl1)" "on_way x old new rows ?cols fl1" "only (table_keys new) fl fl1"
    by auto
  have "\<exists>fl'. forM (reconcile_column q x new (layout_of old)) fs fl1 = (Inr (), fl') \<and>
     on_way x old new rows (?cols @ map f_name (filter (\<lambda>f. f_name f \<notin> set (columns old)) fs)) fl' \<and> only (table_keys new) fl1 fl'"
    using Cons.prems by (intro Cons.IH r(2)) (auto simp: columns_def)
  then obtain fl2 where f2: "forM (reconcile_column q x new (layout_of old)) fs fl1 = (Inr (), fl2)"
      "on_way x old new rows (?cols @ map f_name (filter (\<lambda>f. f_name f \<notin> set (columns old)) fs)) fl2"
      "only (table_keys new) fl1 fl2" by blast
  from only_trans [OF r(3) f2(3)] r(1) f2(1,2) show ?case by (cases "f_name f \<in> set (columns old)") simp_all
qed

lemma indexes_there:
  "(\<And>u. u \<in> set us \<Longrightarrow> lowercase (index_name m u) \<in> set (fl_indexes fl)) \<Longrightarrow> forM (create_index x m) us fl = (Inr (), fl)"
  by (induction us) (simp_all add: create_index_def)

text \<open>In the schema's order, the grown rows are a table of the new model.\<close>

lemma in_order_holds:
  assumes P: "migrates q x s s' old new" and g: "growing x old new cols rows t fl" and c: "set cols = set (columns new)"
    and rows: "\<forall>r \<in> set rows. row_ok x s old r"
  shows "holds_table x s' new (map (grown_row old new) rows) t (in_order new t fl)" and "only {lowercase t} fl (in_order new t fl)"
proof -
  note ok = migrates_ok [OF P]
  let ?l = "\<lparr>ly_columns = map (\<lambda>n. (n, column_ty new n)) cols, ly_identity = m_identity old\<rparr>"
  let ?row = "\<lambda>r n. parameter x (index (grown_row old new r) n)"
  from g have l: "layout_at fl t = Some ?l"
    and t: "d_tables (fl_db fl) t = map (\<lambda>r. (identity_params x old r, map (?row r) cols)) rows"
    by (simp_all add: growing_def)
  have names: "map fst (ly_columns ?l) = cols" by (simp add: comp_def)
  have order: "column_order new ?l = columns new"
    unfolding column_order_def names using c by (simp add: filter_empty_conv)
  have cells: "map (named_cell cols (map (?row r) cols)) (columns new) = map (?row r) (columns new)" for r
    using c by (simp add: named_cell_map)
  have ty: "map (\<lambda>n. (n, case map_of (ly_columns ?l) n of Some ty \<Rightarrow> ty | None \<Rightarrow> '''')) (columns new) = ly_columns (layout_of new)"
  proof -
    have "(case map_of (ly_columns ?l) (f_name f) of Some ty \<Rightarrow> ty | None \<Rightarrow> '''') = storage_type (f_type f)"
      if f: "f \<in> set (m_fields new)" for f
    proof -
      have "f_name f \<in> set cols" using f c by (simp add: columns_def)
      then have "map_of (map (\<lambda>n. (n, column_ty new n)) cols) (f_name f) = Some (column_ty new (f_name f))"
        by (simp add: map_of_map_restrict)
      then show ?thesis using field_of_mem [OF ok(2) f] by (simp add: column_ty_def)
    qed
    then show ?thesis by (simp add: columns_def layout_of_def)
  qed
  have keys: "identity_params x new (grown_row old new r) = identity_params x old r" for r
  proof -
    have "index (grown_row old new r) n = index r n" if n: "n \<in> set (m_identity old)" for n
    proof -
      from ok(1) n obtain f where "field_of old n = Some f" by (auto simp: model_ok_def identity_ok_def split: option.splits)
      from field_of_in [OF this] have o': "n \<in> set (columns old)" by (auto simp: columns_def)
      from n ok(4) have "n \<in> set (m_identity new)" by simp
      with ok(2) have "identity_ok new n" by (simp add: model_ok_def)
      then obtain h where "field_of new n = Some h" by (auto simp: identity_ok_def split: option.splits)
      from grown_index [OF ok(2) this] o' show ?thesis by simp
    qed
    then show ?thesis by (simp add: identity_params_def ok(4))
  qed
  let ?fl = "in_order new t fl"
  have run: "?fl = put_table t (?l\<lparr>ly_columns := ly_columns (layout_of new)\<rparr>)
      (map (\<lambda>(k, vals). (k, map (named_cell cols vals) (columns new)))) fl"
    unfolding in_order_def l option.case order names ty ..
  have here: "layout_at ?fl t = Some (?l\<lparr>ly_columns := ly_columns (layout_of new)\<rparr>)"
    "d_tables (fl_db ?fl) t = map (\<lambda>r. (identity_params x old r, map (?row r) (columns new))) rows"
    unfolding run by (simp_all add: t comp_def cells)
  have "row_ok x s' new (grown_row old new r)" if "r \<in> set rows" for r
    using grown_row_ok [of s s' old new x q r] P rows that by (auto simp: migrates_def)
  then show "holds_table x s' new (map (grown_row old new) rows) t (in_order new t fl)"
    using ok(4) here by (simp add: holds_table_def layout_of_def table_of_def row_params_def columns_def comp_def keys)
  show "only {lowercase t} fl (in_order new t fl)" unfolding run using l by (auto simp: only_def)
qed

lemma stored_model:
  assumes P: "migrates q x s s' old new" and h: "\<forall>t \<in> set (model_tables old). holds_table x s old (rows t) t fl"
    and i: "index_keys old \<subseteq> set (fl_indexes fl)"
  shows "\<exists>fl'. reconcile_model q x new fl = (Inr (), fl') \<and> only (table_keys new) fl fl' \<and>
     (\<forall>t \<in> set (model_tables new). holds_table x s' new (map (grown_row old new) (rows t)) t fl')"
proof -
  note ok = migrates_ok [OF P]
  let ?main = "m_name new" and ?before = "before_table (m_name new)"
  have ts: "model_tables old = model_tables new" by (simp add: model_tables_def ok(3))
  have start: "on_way x old new rows (columns old) fl"
    using h growing_start [OF ok(1,2,6)] by (simp add: on_way_def ts)
  have d: "distinct (map f_name (m_fields new))" using ok(2) by (simp add: model_ok_def)
  let ?cols = "columns old @ map f_name (filter (\<lambda>f. f_name f \<notin> set (columns old)) (m_fields new))"
  have "set (columns old) \<inter> f_name ` set (m_fields new) \<subseteq> set (columns old)" by blast
  from columns_grow [OF P start subset_refl d subset_refl grown_columns [OF ok(6)] this] obtain fl1 where
    f1: "forM (reconcile_column q x new (layout_of old)) (m_fields new) fl = (Inr (), fl1)"
      "on_way x old new rows ?cols fl1" "only (table_keys new) fl fl1" by blast
  have c: "set ?cols = set (columns new)" using grown_columns [OF ok(6)] by (auto simp: columns_def)
  have rows: "\<forall>r \<in> set (rows t). row_ok x s old r" if "t \<in> set (model_tables new)" for t
    using h that by (simp add: ts holds_table_def)
  from f1(2) have g: "growing x old new ?cols (rows ?main) ?main fl1" "growing x old new ?cols (rows ?before) ?before fl1"
    by (simp_all add: on_way_def model_tables_def)
  have in_main: "?main \<in> set (model_tables new)" and in_before: "?before \<in> set (model_tables new)"
    by (simp_all add: model_tables_def)
  then have keys: "lowercase ?main \<in> table_keys new" "lowercase ?before \<in> table_keys new"
    unfolding table_keys_def by blast+
  note main = in_order_holds [OF P g(1) c rows [OF in_main]]
  have "growing x old new ?cols (rows ?before) ?before (in_order new ?main fl1)"
    using growing_only [OF g(2) main(2)] tables_apart [OF ok(2), of ?main] by auto
  note before = in_order_holds [OF P this c rows [OF in_before]]
  let ?fl = "in_order new ?before (in_order new ?main fl1)"
  have "holds_table x s' new (map (grown_row old new) (rows ?main)) ?main ?fl"
    using holds_only [OF main(1) before(2)] tables_apart [OF ok(2), of ?main] by simp
  with before(1) have "\<forall>t \<in> set (model_tables new). holds_table x s' new (map (grown_row old new) (rows t)) t ?fl"
    by (simp add: model_tables_def)
  moreover have "only (table_keys new) fl ?fl"
    using keys
    by (intro only_trans [OF f1(3) only_trans [OF only_more [OF main(2)] only_more [OF before(2)]]]) simp_all
  moreover have "reconcile_model q x new fl = (Inr (), ?fl)"
  proof -
    from h ok(3) have l: "layout_at fl ?main = Some (layout_of old)" by (simp add: holds_table_def model_tables_def)
    have "forM (create_index x new) (m_unique new) fl1 = (Inr (), fl1)"
      using i f1(3) ok(3,5) by (intro indexes_there) (auto simp: index_keys_def index_name_def only_def)
    moreover have "ly_identity (layout_of old) = m_identity new" by (simp add: layout_of_def ok(4))
    ultimately show ?thesis using f1(1) by (simp add: reconcile_model_def l ensure_def)
  qed
  ultimately show ?thesis by blast
qed

end
