(* ===== verification/Migration.thy ===== *)
theory Migration
  imports Migrated
begin

text \<open>Opening under a compatible schema: the whole reconciliation, and the theorem.\<close>

section \<open>A model that is new\<close>

lemma shared_table:
  assumes "model_ok s a" and "model_ok s' b" and "t \<in> table_keys a" and "t \<in> table_keys b"
  shows "lowercase (m_name a) = lowercase (m_name b)"
  using assms(3,4) tables_apart [OF assms(1), of "m_name b"] tables_apart [OF assms(2), of "m_name a"]
  by (auto simp: table_keys_def model_tables_def before_apart)

lemma indexes_made:
  assumes "layout_at fl (m_name m) = Some l" and "d_tables (fl_db fl) (m_name m) = []"
    and "\<And>u. u \<in> set us \<Longrightarrow> layout_at fl (index_name m u) = None"
  shows "\<exists>is. forM (create_index x m) us fl = (Inr (), fl\<lparr>fl_indexes := is\<rparr>) \<and>
     set is = set (fl_indexes fl) \<union> (\<lambda>u. lowercase (index_name m u)) ` set us"
  using assms
proof (induction us arbitrary: fl)
  case Nil
  have "forM (create_index x m) [] fl = (Inr (), fl\<lparr>fl_indexes := fl_indexes fl\<rparr>)" by simp
  then show ?case by fastforce
next
  case (Cons u us)
  let ?n = "lowercase (index_name m u)"
  let ?fl = "if ?n \<in> set (fl_indexes fl) then fl else fl\<lparr>fl_indexes := ?n # fl_indexes fl\<rparr>"
  have one: "create_index x m u fl = (Inr (), ?fl)"
    using Cons.prems by (simp add: create_index_def Let_def)
  have "\<exists>is. forM (create_index x m) us ?fl = (Inr (), ?fl\<lparr>fl_indexes := is\<rparr>) \<and> set is = set (fl_indexes ?fl) \<union> (\<lambda>u. lowercase (index_name m u)) ` set us"
    by (rule Cons.IH) (use Cons.prems in simp_all)
  then obtain "is" where i: "forM (create_index x m) us ?fl = (Inr (), ?fl\<lparr>fl_indexes := is\<rparr>)"
      "set is = set (fl_indexes ?fl) \<union> (\<lambda>u. lowercase (index_name m u)) ` set us" by blast
  have "?fl\<lparr>fl_indexes := is\<rparr> = fl\<lparr>fl_indexes := is\<rparr>" "set (fl_indexes ?fl) = insert ?n (set (fl_indexes fl))" by auto
  with one i show ?case by (intro exI [of _ "is"]) simp
qed

lemma new_model:
  assumes "model_ok s' m" and "distinct (map (\<lambda>f. lowercase (f_name f)) (m_fields m))"
    and "\<And>t. t \<in> table_keys m \<Longrightarrow> fl_layouts fl t = None \<and> t \<notin> set (fl_indexes fl)"
    and "\<And>i. i \<in> index_keys m \<Longrightarrow> fl_layouts fl i = None \<and> i \<notin> table_keys m"
  shows "\<exists>fl'. reconcile_model q x m fl = (Inr (), fl') \<and> (\<forall>t \<in> set (model_tables m). holds_table x s' m [] t fl') \<and>
     {t. fl_layouts fl' t \<noteq> None} = {t. fl_layouts fl t \<noteq> None} \<union> table_keys m \<and>
     set (fl_indexes fl') = set (fl_indexes fl) \<union> index_keys m \<and>
     (\<forall>u. lowercase u \<notin> table_keys m \<longrightarrow> layout_at fl' u = layout_at fl u \<and> d_tables (fl_db fl') u = d_tables (fl_db fl) u)"
proof -
  let ?main = "m_name m" and ?before = "before_table (m_name m)"
  have ne: "lowercase ?main \<noteq> lowercase ?before" by (rule tables_apart [OF assms(1)])
  have keys: "table_keys m = {lowercase ?main, lowercase ?before}" by (simp add: table_keys_def model_tables_def)
  have free: "layout_at fl ?main = None" "layout_at fl ?before = None"
      "lowercase ?main \<notin> set (fl_indexes fl)" "lowercase ?before \<notin> set (fl_indexes fl)"
    using assms(3) by (simp_all add: keys)
  let ?fl = "put_table ?before (layout_of m) (\<lambda>_. []) (put_table ?main (layout_of m) (\<lambda>_. []) fl)"
  have made: "forM (\<lambda>t. create_table x t m) [?main, ?before] fl = (Inr (), ?fl)"
    using free ne assms(2) by (simp add: create_table_def layout_of_def)
  have "\<exists>is. forM (create_index x m) (m_unique m) ?fl = (Inr (), ?fl\<lparr>fl_indexes := is\<rparr>) \<and>
     set is = set (fl_indexes ?fl) \<union> (\<lambda>u. lowercase (index_name m u)) ` set (m_unique m)"
    by (rule indexes_made [where l = "layout_of m"]) (use assms(4) ne in \<open>simp_all add: keys index_keys_def\<close>)
  then obtain "is" where i: "forM (create_index x m) (m_unique m) ?fl = (Inr (), ?fl\<lparr>fl_indexes := is\<rparr>)"
      "set is = set (fl_indexes fl) \<union> index_keys m" by (auto simp: index_keys_def)
  have "reconcile_model q x m fl = (Inr (), ?fl\<lparr>fl_indexes := is\<rparr>)"
    using made i(1) free(1) by (simp add: reconcile_model_def del: forM.simps)
  moreover have "\<forall>t \<in> set (model_tables m). holds_table x s' m [] t (?fl\<lparr>fl_indexes := is\<rparr>)"
    using ne by (simp add: holds_table_def table_of_def model_tables_def)
  moreover have "{t. fl_layouts (?fl\<lparr>fl_indexes := is\<rparr>) t \<noteq> None} = {t. fl_layouts fl t \<noteq> None} \<union> table_keys m"
    by (auto simp: keys)
  moreover have "\<forall>u. lowercase u \<notin> table_keys m \<longrightarrow> layout_at (?fl\<lparr>fl_indexes := is\<rparr>) u = layout_at fl u \<and>
      d_tables (fl_db (?fl\<lparr>fl_indexes := is\<rparr>)) u = d_tables (fl_db fl) u"
    by (simp add: keys)
  ultimately show ?thesis using i(2) by (intro exI [of _ "?fl\<lparr>fl_indexes := is\<rparr>"]) simp
qed

section \<open>All models\<close>

definition new_rows :: "schema \<Rightarrow> (string \<Rightarrow> json list) \<Rightarrow> model_desc \<Rightarrow> string \<Rightarrow> json list" where
  "new_rows s rows m t = (case find (\<lambda>old. m_name old = m_name m) (s_models s) of
       Some old \<Rightarrow> map (grown_row old m) (rows t) | None \<Rightarrow> [])"

definition reconciled :: "ext \<Rightarrow> schema \<Rightarrow> schema \<Rightarrow> (string \<Rightarrow> json list) \<Rightarrow> model_desc list \<Rightarrow> model_desc list \<Rightarrow> dbfile \<Rightarrow> bool" where
  "reconciled x s s' rows past todo fl \<longleftrightarrow>
     (\<forall>m \<in> set past. \<forall>t \<in> set (model_tables m). holds_table x s' m (new_rows s rows m t) t fl) \<and>
     (\<forall>m \<in> set todo. \<forall>old \<in> set (s_models s). m_name old = m_name m \<longrightarrow>
        (\<forall>t \<in> set (model_tables old). holds_table x s old (rows t) t fl)) \<and>
     {t. fl_layouts fl t \<noteq> None} = table_names s \<union> (\<Union>m \<in> set past. table_keys m) \<and>
     set (fl_indexes fl) = index_names s \<union> (\<Union>m \<in> set past. index_keys m)"

text \<open>What two compatible schemas and a file have to do with each other.\<close>

definition compatible_with :: "sqlite \<Rightarrow> ext \<Rightarrow> schema \<Rightarrow> schema \<Rightarrow> bool" where
  "compatible_with q x s s' \<longleftrightarrow> schema_ok s \<and> schema_ok s' \<and> (\<forall>r. compatibility s s' \<noteq> Incompatible r) \<and>
     names_apart s' \<and> defaults_ok q x s'"

lemma compatible_pair:
  assumes "compatible_with q x s s'" and "old \<in> set (s_models s)"
  obtains new where "migrates q x s s' old new"
proof -
  from assms have c: "schema_ok s" "schema_ok s'" "\<And>r. compatibility s s' \<noteq> Incompatible r" "defaults_ok q x s'" "names_apart s'"
    by (simp_all add: compatible_with_def)
  from compatible_grows [OF c(1-3) assms(2), of x] obtain new where "new \<in> set (s_models s')" "grows x s s' old new" by blast
  with c assms(2) show thesis by (intro that) (simp add: migrates_def)
qed

lemma same_name: "schema_ok s \<Longrightarrow> a \<in> set (s_models s) \<Longrightarrow> b \<in> set (s_models s) \<Longrightarrow> m_name a = m_name b \<Longrightarrow> a = b"
  by (auto simp: schema_ok_def distinct_map inj_on_def)

lemma same_folded:
  "names_apart s \<Longrightarrow> a \<in> set (s_models s) \<Longrightarrow> b \<in> set (s_models s) \<Longrightarrow> lowercase (m_name a) = lowercase (m_name b) \<Longrightarrow> a = b"
  by (auto simp: names_apart_def distinct_map inj_on_def)

lemma names_grow:
  assumes "compatible_with q x s s'"
  shows "index_names s \<subseteq> index_names s'" and "table_names s \<subseteq> table_names s'"
proof -
  have "index_keys old \<subseteq> index_names s' \<and> table_keys old \<subseteq> table_names s'"
    if old: "old \<in> set (s_models s)" for old
  proof -
    from compatible_pair [OF assms old] obtain new where P: "migrates q x s s' old new" .
    note ok = migrates_ok [OF P]
    have "new \<in> set (s_models s')" using P by (simp add: migrates_def)
    moreover have "index_keys old = index_keys new" "table_keys old = table_keys new"
      by (simp_all add: index_keys_def index_name_def table_keys_def model_tables_def ok(3,5))
    ultimately show ?thesis by (auto simp: index_names_def table_names_def)
  qed
  then show "index_names s \<subseteq> index_names s'" "table_names s \<subseteq> table_names s'"
    unfolding index_names_def [of s] table_names_def [of s] by blast+
qed

lemma reconcile_one:
  assumes C: "compatible_with q x s s'" and ms: "s_models s' = past @ m # todo" and I: "reconciled x s s' rows past (m # todo) fl"
  shows "\<exists>fl'. reconcile_model q x m fl = (Inr (), fl') \<and> reconciled x s s' rows (past @ [m]) todo fl'"
proof -
  from C have ok: "schema_ok s" "schema_ok s'" "names_apart s'" by (simp_all add: compatible_with_def)
  have m: "m \<in> set (s_models s')" and past: "set past \<subseteq> set (s_models s')" and todo: "set todo \<subseteq> set (s_models s')"
    using ms by auto
  have mo: "model_ok s' a" if "a \<in> set (s_models s')" for a using ok(2) that by (simp add: schema_ok_def)
  have "distinct (s_models s')" using ok(2) by (auto simp: schema_ok_def distinct_map)
  then have new: "m \<notin> set past" "m \<notin> set todo" using ms by auto
  have other: "t \<notin> table_keys m" if "a \<in> set past \<union> set todo" "t \<in> table_keys a" for a t
  proof
    assume t: "t \<in> table_keys m"
    have a: "a \<in> set (s_models s')" using that(1) past todo by blast
    from shared_table [OF mo [OF a] mo [OF m] that(2) t] same_folded [OF ok(3) a m] have "a = m" by simp
    with that(1) new show False by blast
  qed
  have old_other: "t \<notin> table_keys m" if "a \<in> set todo" "old \<in> set (s_models s)" "m_name old = m_name a" "t \<in> table_keys old"
    for a old t
  proof -
    have "table_keys old = table_keys a" using that(3) by (simp add: table_keys_def model_tables_def)
    with that(4) have "t \<in> table_keys a" by simp
    then show ?thesis by (rule other [rotated]) (simp add: that(1))
  qed
  from I have past_ok: "\<forall>a \<in> set past. \<forall>t \<in> set (model_tables a). holds_table x s' a (new_rows s rows a t) t fl"
    and todo_ok: "\<forall>a \<in> insert m (set todo). \<forall>old \<in> set (s_models s). m_name old = m_name a \<longrightarrow>
        (\<forall>t \<in> set (model_tables old). holds_table x s old (rows t) t fl)"
    and lay: "{t. fl_layouts fl t \<noteq> None} = table_names s \<union> (\<Union>a \<in> set past. table_keys a)"
    and idx: "set (fl_indexes fl) = index_names s \<union> (\<Union>a \<in> set past. index_keys a)"
    by (simp_all add: reconciled_def)
  have conclude: "reconciled x s s' rows (past @ [m]) todo fl'"
    if here: "\<forall>t \<in> set (model_tables m). holds_table x s' m (new_rows s rows m t) t fl'"
      and same: "\<forall>u. lowercase u \<notin> table_keys m \<longrightarrow> layout_at fl' u = layout_at fl u \<and> d_tables (fl_db fl') u = d_tables (fl_db fl) u"
      and lay': "{t. fl_layouts fl' t \<noteq> None} = {t. fl_layouts fl t \<noteq> None} \<union> table_keys m"
      and idx': "set (fl_indexes fl') = set (fl_indexes fl) \<union> index_keys m" for fl'
    unfolding reconciled_def
  proof (intro conjI)
    have key: "lowercase t \<in> table_keys a" if "t \<in> set (model_tables a)" for t a using that by (simp add: table_keys_def)
    have kept: "holds_table x s'' a rs t fl'" if "holds_table x s'' a rs t fl" "lowercase t \<notin> table_keys m" for s'' a rs t
      using that same by (simp add: holds_table_def)
    show "\<forall>a \<in> set (past @ [m]). \<forall>t \<in> set (model_tables a). holds_table x s' a (new_rows s rows a t) t fl'"
    proof (intro ballI)
      fix a t assume a: "a \<in> set (past @ [m])" and t: "t \<in> set (model_tables a)"
      show "holds_table x s' a (new_rows s rows a t) t fl'"
      proof (cases "a = m")
        case False
        with a have "a \<in> set past" by simp
        then show ?thesis using past_ok kept other [OF _ key [OF t]] t by blast
      qed (use here t in simp)
    qed
    show "\<forall>a \<in> set todo. \<forall>old \<in> set (s_models s). m_name old = m_name a \<longrightarrow>
        (\<forall>t \<in> set (model_tables old). holds_table x s old (rows t) t fl')"
      using todo_ok kept old_other key by blast
    show "{t. fl_layouts fl' t \<noteq> None} = table_names s \<union> (\<Union>a \<in> set (past @ [m]). table_keys a)"
      unfolding lay' lay by auto
    show "set (fl_indexes fl') = index_names s \<union> (\<Union>a \<in> set (past @ [m]). index_keys a)"
      unfolding idx' idx by auto
  qed
  show ?thesis
  proof (cases "find (\<lambda>old. m_name old = m_name m) (s_models s)")
    case (Some old)
    from find_Some_in [OF Some] have old: "old \<in> set (s_models s)" "m_name old = m_name m" by simp_all
    from compatible_pair [OF C old(1)] obtain n where P: "migrates q x s s' old n" .
    have "n \<in> set (s_models s')" using P by (simp add: migrates_def)
    from same_name [OF ok(2) this m] migrates_ok(3) [OF P] old(2) have n: "n = m" by simp
    note P = P [unfolded n]
    have h: "\<forall>t \<in> set (model_tables old). holds_table x s old (rows t) t fl" using todo_ok old by blast
    have own: "index_keys old \<subseteq> index_names s" using old(1) by (auto simp: index_names_def)
    from stored_model [OF P h] own idx obtain fl' where
      f: "reconcile_model q x m fl = (Inr (), fl')" "only (table_keys m) fl fl'"
        "\<forall>t \<in> set (model_tables m). holds_table x s' m (map (grown_row old m) (rows t)) t fl'" by blast
    have "table_keys old \<subseteq> table_names s" using old(1) unfolding table_names_def by blast
    moreover have "table_keys old = table_keys m" using old(2) by (simp add: table_keys_def model_tables_def)
    ultimately have "table_keys m \<subseteq> {t. fl_layouts fl t \<noteq> None}" unfolding lay by (simp only: le_supI1)
    moreover have "index_keys m \<subseteq> set (fl_indexes fl)"
      using own idx migrates_ok(3,5) [OF P] by (auto simp: index_keys_def index_name_def)
    ultimately have "reconciled x s s' rows (past @ [m]) todo fl'"
      using f(2,3) by (intro conclude) (auto simp: only_def new_rows_def Some)
    with f(1) show ?thesis by blast
  next
    case None
    then have fresh: "m_name old \<noteq> m_name m" if "old \<in> set (s_models s)" for old using that by (auto simp: find_None)
    have apart: "t \<notin> table_names s" if t: "t \<in> table_keys m" for t
    proof
      assume "t \<in> table_names s"
      then obtain old where old: "old \<in> set (s_models s)" "t \<in> table_keys old" by (auto simp: table_names_def)
      from compatible_pair [OF C old(1)] obtain n where P: "migrates q x s s' old n" .
      then have n: "n \<in> set (s_models s')" "m_name n = m_name old" using migrates_ok(3) [OF P] by (simp_all add: migrates_def)
      have "t \<in> table_keys n" using old(2) n(2) by (simp add: table_keys_def model_tables_def)
      from shared_table [OF mo [OF n(1)] mo [OF m] this t] same_folded [OF ok(3) n(1) m] have "n = m" by simp
      with fresh [OF old(1)] n(2) show False by simp
    qed
    have nolay: "fl_layouts fl t = None" if "t \<in> table_keys m" for t
    proof (rule ccontr)
      assume "fl_layouts fl t \<noteq> None"
      with lay apart [OF that] obtain a where a: "a \<in> set past" "t \<in> table_keys a" by blast
      have "t \<notin> table_keys m" by (rule other [OF _ a(2)]) (simp add: a(1))
      with that show False by simp
    qed
    have sub: "{t. fl_layouts fl t \<noteq> None} \<subseteq> table_names s'" "set (fl_indexes fl) \<subseteq> index_names s'"
      unfolding lay idx using names_grow [OF C] past by (auto simp: table_names_def index_names_def)
    have mt: "table_keys m \<subseteq> table_names s'" and mi: "index_keys m \<subseteq> index_names s'"
      using m by (auto simp: table_names_def index_names_def)
    have noidx: "t \<notin> set (fl_indexes fl)" if "t \<in> table_keys m" for t
      using that mt sub(2) ok(3) by (auto simp: names_apart_def)
    have u: "fl_layouts fl i = None \<and> i \<notin> table_keys m" if "i \<in> index_keys m" for i
      using that mi mt sub(1) ok(3) unfolding names_apart_def by blast
    have fields: "distinct (map (\<lambda>f. lowercase (f_name f)) (m_fields m))"
      using ok(3) m by (simp add: names_apart_def)
    from new_model [where x = x and q = q, OF mo [OF m] fields conjI [OF nolay noidx] u] obtain fl' where
      f: "reconcile_model q x m fl = (Inr (), fl')" "\<forall>t \<in> set (model_tables m). holds_table x s' m [] t fl'"
        "{t. fl_layouts fl' t \<noteq> None} = {t. fl_layouts fl t \<noteq> None} \<union> table_keys m"
        "set (fl_indexes fl') = set (fl_indexes fl) \<union> index_keys m"
        "\<forall>u. lowercase u \<notin> table_keys m \<longrightarrow> layout_at fl' u = layout_at fl u \<and> d_tables (fl_db fl') u = d_tables (fl_db fl) u"
      by blast
    from f(2-5) have "reconciled x s s' rows (past @ [m]) todo fl'"
      by (intro conclude) (simp_all add: new_rows_def None)
    with f(1) show ?thesis by blast
  qed
qed

lemma reconcile_all:
  assumes "compatible_with q x s s'" and "s_models s' = past @ todo" and "reconciled x s s' rows past todo fl"
  shows "\<exists>fl'. forM (reconcile_model q x) todo fl = (Inr (), fl') \<and> reconciled x s s' rows (s_models s') [] fl'"
  using assms(2,3)
proof (induction todo arbitrary: past fl)
  case Nil
  then show ?case by simp
next
  case (Cons m todo)
  from reconcile_one [OF assms(1) Cons.prems] obtain fl1 where
    f: "reconcile_model q x m fl = (Inr (), fl1)" "reconciled x s s' rows (past @ [m]) todo fl1" by blast
  from Cons.IH [OF _ f(2)] Cons.prems(1) f(1) show ?case by simp
qed

section \<open>The opening\<close>

definition rows_after :: "schema \<Rightarrow> schema \<Rightarrow> (string \<Rightarrow> json list) \<Rightarrow> string \<Rightarrow> json list" where
  "rows_after s s' rows t = (case find (\<lambda>m. t \<in> set (model_tables m)) (s_models s') of
       Some m \<Rightarrow> new_rows s rows m t | None \<Rightarrow> [])"

lemma rows_after_at:
  assumes "schema_ok s'" and "m \<in> set (s_models s')" and "t \<in> set (model_tables m)"
  shows "rows_after s s' rows t = new_rows s rows m t"
proof (cases "find (\<lambda>m. t \<in> set (model_tables m)) (s_models s')")
  case None
  with assms show ?thesis by (auto simp: find_None)
next
  case (Some m')
  from find_Some_in [OF Some] have m': "m' \<in> set (s_models s')" "t \<in> set (model_tables m')" by simp_all
  from assms(1) have ok: "model_ok s' a" if "a \<in> set (s_models s')" for a using that by (simp add: schema_ok_def)
  have "m_name a \<noteq> before_table n" if "model_ok s' a" for a n using tables_apart [OF that, of n] by auto
  moreover have "before_table u = before_table v \<longleftrightarrow> u = v" for u v by (simp add: before_table_def)
  ultimately have "m_name m' = m_name m"
    using assms(3) m'(2) ok [OF m'(1)] ok [OF assms(2)] by (auto simp: model_tables_def dest: sym)
  with same_name [OF assms(1) m'(1) assms(2)]
  have "m' = m" by simp
  with Some show ?thesis by (simp add: rows_after_def)
qed

text \<open>A finished reconciliation has built the file for the incoming schema.\<close>

lemma reconciled_built:
  assumes "compatible_with q x s s'" and "reconciled x s s' rows (s_models s') [] fl"
  shows "built_for x s' (rows_after s s' rows) fl"
proof -
  from assms(1) have ok: "schema_ok s'" by (simp add: compatible_with_def)
  from assms(2) have h: "\<forall>m \<in> set (s_models s'). \<forall>t \<in> set (model_tables m). holds_table x s' m (new_rows s rows m t) t fl"
    and "{t. fl_layouts fl t \<noteq> None} = table_names s \<union> table_names s'"
    and "set (fl_indexes fl) = index_names s \<union> index_names s'"
    by (simp_all add: reconciled_def table_names_def [of s'] index_names_def [of s'])
  with names_grow [OF assms(1)] have "{t. fl_layouts fl t \<noteq> None} = table_names s'" "set (fl_indexes fl) = index_names s'"
    by blast+
  with h show ?thesis by (simp add: built_for_def rows_after_at [OF ok])
qed

lemma built_reconciled:
  assumes "built_for x s rows fl"
  shows "reconciled x s s' rows [] todo fl"
  using assms by (simp add: reconciled_def built_for_def)

lemma built_for_same:
  assumes "fl_layouts fl' = fl_layouts fl" and "fl_indexes fl' = fl_indexes fl" and "d_tables (fl_db fl') = d_tables (fl_db fl)"
  shows "built_for x s rows fl' \<longleftrightarrow> built_for x s rows fl"
  using assms by (simp add: built_for_def holds_table_def)

lemma fit_compatible:
  assumes "compatible_with q x s s'" and "built_for x s rows fl"
  shows "\<exists>i' g fl'. fit q x i s' fl = (Inr (i', g), fl') \<and> built_for x s' (rows_after s s' rows) fl'"
proof -
  have "s_models s' = [] @ s_models s'" by simp
  from reconcile_all [OF assms(1) this built_reconciled [OF assms(2)]] obtain fl1 where
    f: "reconcile q x s' fl = (Inr (), fl1)" "reconciled x s s' rows (s_models s') [] fl1"
    by (auto simp: reconcile_def)
  let ?fl = "fl1\<lparr>fl_descriptor := Some (descriptor_text x s')\<rparr>"
  obtain r fl' where c: "client_identity i ?fl = (Inr r, fl')" and
    same: "fl_layouts fl' = fl_layouts fl1" "fl_indexes fl' = fl_indexes fl1" "d_tables (fl_db fl') = d_tables (fl_db fl1)"
    by (cases "d_client (fl_db fl1)") (simp_all add: client_identity_def)
  have "fit q x i s' fl = (Inr r, fl')" using f(1) c by (simp add: fit_def write_descriptor_def)
  moreover have "built_for x s' (rows_after s s' rows) fl'"
    using reconciled_built [OF assms(1) f(2)] built_for_same [OF same] by simp
  ultimately show ?thesis by (cases r) blast
qed

lemma open_compatible:
  assumes "compatible_with q x s s'" and "built_for x s rows fl" and "check_layout fl = CurrentLayout"
    and "io_begin io = None" and "io_commit io = None"
  shows "\<exists>c fl'. open_store q x io i s' fl = (Inr c, fl') \<and> committed c = fl_db fl' \<and> built_for x s' (rows_after s s' rows) fl'"
proof -
  let ?fl = "add_framework_columns (framework_ddl fl)"
  have "built_for x s rows ?fl"
    using assms(2) by (subst built_for_same) (simp_all add: add_framework_columns_def framework_ddl_def)
  from fit_compatible [OF assms(1) this, of i] obtain i' g fl' where
    f: "fit q x i s' ?fl = (Inr (i', g), fl')" "built_for x s' (rows_after s s' rows) fl'" by blast
  from assms(1) have "validate s' = Inr ()" by (simp add: compatible_with_def validate_ok_iff)
  with assms(3-5) f show ?thesis by (simp add: open_store_def Let_def new_client_def committed_def)
qed

text \<open>What becomes of the rows of a stored model.\<close>

definition carried :: "schema \<Rightarrow> (string \<Rightarrow> json list) \<Rightarrow> (string \<Rightarrow> json list) \<Rightarrow> model_desc \<Rightarrow> bool" where
  "carried s' rows rows' old \<longleftrightarrow> (\<exists>new \<in> set (s_models s'). m_name new = m_name old \<and> set (columns old) \<subseteq> set (columns new) \<and>
     (\<forall>t \<in> set (model_tables old). list_all2 (\<lambda>r r'. \<forall>f \<in> set (m_fields new).
        index r' (f_name f) = (if f_name f \<in> set (columns old) then index r (f_name f) else added_value f)) (rows t) (rows' t)))"

lemma rows_carried:
  assumes "compatible_with q x s s'" and "old \<in> set (s_models s)"
  shows "carried s' rows (rows_after s s' rows) old"
proof -
  from compatible_pair [OF assms] obtain new where P: "migrates q x s s' old new" .
  note ok = migrates_ok [OF P]
  from P have new: "new \<in> set (s_models s')" by (simp add: migrates_def)
  from assms(1) have sok: "schema_ok s" "schema_ok s'" by (simp_all add: compatible_with_def)
  have "find (\<lambda>m. m_name m = m_name new) (s_models s) = Some old"
  proof (cases "find (\<lambda>m. m_name m = m_name new) (s_models s)")
    case None
    with assms(2) ok(3) show ?thesis by (auto simp: find_None)
  next
    case (Some m)
    with find_Some_in [OF Some] same_name [OF sok(1) _ assms(2), of m] ok(3) show ?thesis by simp
  qed
  then have at: "rows_after s s' rows t = map (grown_row old new) (rows t)" if "t \<in> set (model_tables old)" for t
    using rows_after_at [OF sok(2) new, of t] that ok(3) by (simp add: new_rows_def model_tables_def)
  have "index (grown_row old new r) (f_name f) = (if f_name f \<in> set (columns old) then index r (f_name f) else added_value f)"
    if "f \<in> set (m_fields new)" for r f
    using grown_index [OF ok(2) field_of_mem [OF ok(2) that]] .
  then have "\<forall>t \<in> set (model_tables old). list_all2 (\<lambda>r r'. \<forall>f \<in> set (m_fields new).
        index r' (f_name f) = (if f_name f \<in> set (columns old) then index r (f_name f) else added_value f)) (rows t) (rows_after s s' rows t)"
    by (auto simp: at list_all2_map2 intro!: list_all2_refl)
  with new ok(3) grown_columns [OF ok(6)] show ?thesis unfolding carried_def by blast
qed

text \<open>
  C26: opening a file under a compatible schema migrates it. Take a current file that holds rows of
  a valid schema, and a valid schema that \<open>compatibility\<close> does not refuse, whose names SQLite
  keeps apart (without their case, no two models have one name, no two fields of a model do, and
  no unique index has the name of a table) and whose defaults are normal values that SQLite
  reads back from their literals. If beginning and committing do not fail, the open succeeds, the
  file is then built for the incoming schema, and every row of every stored model, optimistic and
  authoritative, keeps all its values and takes the default or null in each new field.
\<close>
theorem opening_migrates_rows:
  assumes "validate s = Inr ()" and "validate s' = Inr ()" and "\<forall>r. compatibility s s' \<noteq> Incompatible r"
    and "names_apart s'" and "defaults_ok q x s'"
    and "built_for x s rows fl" and "check_layout fl = CurrentLayout" and "io_begin io = None" and "io_commit io = None"
  shows "\<exists>c fl' rows'. open_store q x io i s' fl = (Inr c, fl') \<and> committed c = fl_db fl' \<and> built_for x s' rows' fl' \<and>
     (\<forall>old \<in> set (s_models s). carried s' rows rows' old)"
proof -
  from assms(1-5) have C: "compatible_with q x s s'" by (simp add: compatible_with_def validate_ok_iff)
  from open_compatible [OF C assms(6-9)] rows_carried [OF C] show ?thesis by blast
qed

end
