(* ===== verification/MigrationRuns.thy ===== *)
theory MigrationRuns
  imports Migration QueryRuns
begin

text \<open>A concrete migration: tasks and lists opened under a schema with a rank, 3 by default, and a note.\<close>

definition q1 :: sqlite where
  "q1 = \<lparr>q_object = (\<lambda>_. ''''), q_literal = (\<lambda>ty t. if ty = ''INTEGER'' then SInt (int (number_of t)) else SText t)\<rparr>"

definition ranked :: model_desc where
  "ranked = task_model\<lparr>m_fields := m_fields task_model @
     [(field ''rank'' (TScalar StInt) False)\<lparr>f_default := Some (jnat 3)\<rparr>, field ''note'' (TScalar StString) True]\<rparr>"

definition s3 :: schema where
  "s3 = s0\<lparr>s_models := [list_model, ranked]\<rparr>"

definition stored_file :: dbfile where
  "stored_file = (framework_ddl empty_file)\<lparr>
     fl_layouts := [''list'' \<mapsto> layout_of list_model, ''ahead_before_list'' \<mapsto> layout_of list_model,
       ''task'' \<mapsto> layout_of task_model, ''ahead_before_task'' \<mapsto> layout_of task_model],
     fl_indexes := [''task_title_unique''], fl_db := w_db queried\<rparr>"

definition stored_rows :: "string \<Rightarrow> json list" where
  "stored_rows t = (if t = ''Task'' then tasks else if t = ''List'' then lists else [])"

lemma s3_valid: "validate s3 = Inr ()"
  by code_simp

lemma s0_s3: "compatibility s0 s3 = Additive [AddField ''Task'' ''rank'', AddField ''Task'' ''note'']"
  by (simp add: compatibility_def s3_def ranked_def s0_defs old_model_def new_field_def old_field_def
      field_of_def added_models_def relation_tuple_def enum_values_def Let_def)

lemma s3_names: "names_apart s3"
  by (simp add: names_apart_def index_names_def table_names_def index_keys_def table_keys_def index_name_def model_tables_def
      before_table_def s3_def ranked_def s0_defs lowercase_def) (simp add: to_lower_def is_upper_def)

lemma s3_defaults: "defaults_ok q1 x0 s3"
proof -
  let ?f = "(field ''rank'' (TScalar StInt) False)\<lparr>f_default := Some (jnat 3)\<rparr>"
  have "normalize_value x0 s3 ?f (jnat 3) = Inr (jnat 3)" by code_simp
  moreover have "literal x0 ?f = Inr ''3''" by code_simp
  moreover have "q_literal q1 (storage_type (f_type ?f)) ''3'' = parameter x0 (jnat 3)" by code_simp
  moreover have "as_array (jnat 3) = None" by code_simp
  ultimately show ?thesis by (simp add: defaults_ok_def s3_def ranked_def s0_defs)
qed

lemma folded_names:
  "lowercase ''List'' = ''list''" "lowercase ''ahead_before_List'' = ''ahead_before_list''"
  "lowercase ''Task'' = ''task''" "lowercase ''ahead_before_Task'' = ''ahead_before_task''"
  "lowercase (index_name task_model [''title'']) = ''task_title_unique''"
  by code_simp+

lemma before_names: "before_table ''List'' = ''ahead_before_List''" "before_table ''Task'' = ''ahead_before_Task''"
  by (simp_all add: before_table_def)

lemma stored_layouts:
  "fl_layouts stored_file = [''list'' \<mapsto> layout_of list_model, ''ahead_before_list'' \<mapsto> layout_of list_model,
       ''task'' \<mapsto> layout_of task_model, ''ahead_before_task'' \<mapsto> layout_of task_model]"
  "d_tables (fl_db stored_file) = d_tables (w_db queried)" "fl_indexes stored_file = [''task_title_unique'']"
  by (simp_all add: stored_file_def)

lemma stored_tables:
  "d_tables (w_db queried) ''List'' = table_of x0 list_model lists" "d_tables (w_db queried) ''Task'' = table_of x0 task_model tasks"
  "d_tables (w_db queried) ''ahead_before_List'' = []" "d_tables (w_db queried) ''ahead_before_Task'' = []"
  by (simp_all add: queried_def work0_def)

lemma model_names: "m_name list_model = ''List''" "m_name task_model = ''Task''"
  by (simp_all add: s0_defs)

lemma stored_built: "built_for x0 s0 stored_rows stored_file"
proof -
  have "holds_table x0 s0 list_model (stored_rows ''List'') ''List'' stored_file"
    "holds_table x0 s0 list_model (stored_rows ''ahead_before_List'') ''ahead_before_List'' stored_file"
    "holds_table x0 s0 task_model (stored_rows ''Task'') ''Task'' stored_file"
    "holds_table x0 s0 task_model (stored_rows ''ahead_before_Task'') ''ahead_before_Task'' stored_file"
    using list_rows_ok task_rows_ok
    by (simp_all add: holds_table_def stored_layouts stored_tables folded_names stored_rows_def)
      (simp_all add: table_of_def lists_def tasks_def)
  then have "\<forall>t \<in> set (model_tables list_model). holds_table x0 s0 list_model (stored_rows t) t stored_file"
    "\<forall>t \<in> set (model_tables task_model). holds_table x0 s0 task_model (stored_rows t) t stored_file"
    by (simp_all add: model_tables_def before_names model_names)
  moreover have "table_names s0 = {''list'', ''ahead_before_list'', ''task'', ''ahead_before_task''}"
    by (simp add: table_names_def table_keys_def model_tables_def before_names model_names folded_names s0_def insert_commute)
  then have "{t. fl_layouts stored_file t \<noteq> None} = table_names s0"
    by (auto simp: stored_layouts)
  moreover have "index_names s0 = {''task_title_unique''}"
    using folded_names(5) by (simp add: index_names_def index_keys_def s0_defs)
  ultimately show ?thesis by (simp add: built_for_def stored_layouts(3) s0_def)
qed

theorem opening_migrates_rows_witness:
  "\<exists>c fl' rows'. open_store q1 x0 io_ok ''c'' s3 stored_file = (Inr c, fl') \<and> d_tables (committed c) ''Task'' = table_of x0 ranked (rows' ''Task'') \<and>
     map (\<lambda>r. (index r ''title'', index r ''rank'', index r ''note'')) (rows' ''Task'') =
       [(JStr ''milk'', jnat 3, JNull), (JStr ''eggs'', jnat 3, JNull), (JStr ''bread'', jnat 3, JNull)]"
proof -
  have v: "validate s0 = Inr ()" "\<forall>r. compatibility s0 s3 \<noteq> Incompatible r" using s0_ok by (simp_all add: validate_ok_iff s0_s3)
  have l: "check_layout stored_file = CurrentLayout" by code_simp
  from opening_migrates_rows [OF v(1) s3_valid v(2) s3_names s3_defaults stored_built l, of io_ok "''c''"] obtain c fl' rows' where
    run: "open_store q1 x0 io_ok ''c'' s3 stored_file = (Inr c, fl')" "committed c = fl_db fl'" "built_for x0 s3 rows' fl'"
    and each: "\<forall>old \<in> set (s_models s0). carried s3 stored_rows rows' old" by (auto simp: io_ok_def)
  have "carried s3 stored_rows rows' task_model" using each by (simp add: s0_def)
  then have "list_all2 (\<lambda>r r'. \<forall>f \<in> set (m_fields ranked).
        index r' (f_name f) = (if f_name f \<in> set (columns task_model) then index r (f_name f) else added_value f)) tasks (rows' ''Task'')"
    by (auto simp: carried_def s3_def model_tables_def stored_rows_def list_model_def task_model_def ranked_def)
  then obtain r1 r2 r3 where rs: "rows' ''Task'' = [r1, r2, r3]" and
    "index r1 ''title'' = JStr ''milk''" "index r1 ''rank'' = jnat 3" "index r1 ''note'' = JNull"
    "index r2 ''title'' = JStr ''eggs''" "index r2 ''rank'' = jnat 3" "index r2 ''note'' = JNull"
    "index r3 ''title'' = JStr ''bread''" "index r3 ''rank'' = jnat 3" "index r3 ''note'' = JNull"
    by (auto simp: tasks_def list_all2_Cons1 ranked_def task_model_def field_def columns_def task_row_def index_def added_value_def)
  moreover have "d_tables (fl_db fl') ''Task'' = table_of x0 ranked (rows' ''Task'')"
    using run(3) by (simp add: built_for_def s3_def holds_table_def model_tables_def ranked_def task_model_def)
  ultimately show ?thesis using run(1,2) by auto
qed

end
