(* ===== verification/Spec2Isabelle.thy ===== *)
theory Spec2Isabelle
  imports Compat Connection Runs Deliveries CompilerRuns QueryRuns OpenRuns MigrationRuns
begin

text \<open>
  Ahead, a local-first synchronisation framework: its core, its client engine, its server and
  the compiler of its schema language.

  An application writes to a local SQLite database through a client. Every write is a mutation:
  its operations are applied at once to the visible rows and queued; a batch of queued mutations
  is frozen and pushed; the server runs each mutation's handler and answers a receipt with the
  authoritative records, each under a stamp. What other clients change arrives as pages of
  records, one range of cursors per channel, pulled over HTTP or pushed over a live socket.
  Records are staged by stamp, so the path a record takes does not matter. Models and mutations
  are declared in a schema language; its compiler writes the descriptors the client and the
  server load, and keeps every published version of them readable.

  \<^bold>\<open>Parts and theories.\<close> Paths are under \<open>src/crates\<close>.
    \<^item> \<open>Prelude\<close>: results with early return (\<open>bindE\<close>, \<open>ensure\<close>, \<open>ok_or\<close>, the loops \<open>emap\<close>, \<open>efold\<close>,
      \<open>echeck\<close>), computations over a state (\<open>bindM\<close>, \<open>forM\<close>, \<open>foldM\<close>), the locale \<open>kept\<close> of
      relations a computation keeps, \<open>BTreeMap\<close> and \<open>BTreeSet\<close> as sorted lists, the locale
      \<open>keyed_store\<close>. \<open>Text\<close>: Rust strings as their UTF-8 bytes. \<open>Json\<close> (\<open>core/src/lib.rs\<close>): JSON
      values, numbers with their binary64 reading, canonical text.
    \<^item> \<open>Schema\<close>, \<open>Compat\<close> (\<open>core/src/schema.rs\<close>): descriptors and their validation, record keys,
      normalisation of values, states and patches; which schema may open which database.
      \<open>Examples\<close>: a concrete printer, parser and schema.
    \<^item> \<open>Protocol\<close> (\<open>core/src/protocol.rs\<close>): every wire body, its decoder, validator and encoder.
    \<^item> \<open>Database\<close> (\<open>client/src/ddl.rs\<close>, \<open>rows.rs\<close>, \<open>store.rs\<close>, \<open>sqlite/src/lib.rs\<close>): the tables with
      their constraints and savepoints; the codec between records and rows. \<open>Engine\<close>
      (\<open>engine.rs\<close>, \<open>ledger.rs\<close>), \<open>Queue\<close> (\<open>queue.rs\<close>), \<open>Mutate\<close> and \<open>Enqueue\<close> (\<open>mutate.rs\<close>),
      \<open>Policies\<close> (\<open>policies.rs\<close>), \<open>Authority\<close> (\<open>authority.rs\<close>), \<open>Push\<close> (\<open>push.rs\<close>): the engine's
      operations inside one transaction, in the order they call each other.
    \<^item> \<open>Pulls\<close> (\<open>PullLedger\<close> of \<open>client/src/lib.rs\<close>), \<open>Client\<close> (the handle: store, write path with its
      fence, notifications, sessions, calls), \<open>Downlink\<close> (\<open>downlink.rs\<close> and the \<open>SyncCycle\<close> of
      \<open>transport.rs\<close>), \<open>Connection\<close> (\<open>connection.rs\<close>: when a lane runs, on 64-bit clocks), \<open>Live\<close>
      (\<open>live.rs\<close>: the live lane), \<open>Queries\<close> (\<open>query.rs\<close>: filters, ordering, the two ends of a
      reference).
    \<^item> \<open>Encoding\<close> (the descriptor \<open>serde\<close> writes, \<open>core/src/schema.rs\<close>), \<open>Layouts\<close> (\<open>ddl.rs\<close>: a
      file's layout, the reconciliation of its tables and indexes with a schema; the counts of
      \<open>lib.rs\<close>), \<open>Opening\<close> (\<open>schema_store.rs\<close>; \<open>open\<close>, \<open>open_at\<close>, \<open>rebuild_beside\<close>, \<open>rebuild\<close> of
      \<open>lib.rs\<close>): which file of the directory a client opens, when it is rebuilt beside, and what is
      carried over.
    \<^item> \<open>Contract\<close>, \<open>Serving\<close>, \<open>Readback\<close>, \<open>Serve\<close>, \<open>Subscriptions\<close> (\<open>server/src\<close>): the
      configuration and the decoding of uploaded mutations (\<open>lib.rs\<close>), the host's requests and
      answers (\<open>host.rs\<close>), stamps, loads and publications of a settled mutation (\<open>readback.rs\<close>),
      push, pull and external settlement (\<open>lib.rs\<close>), negotiation and the per-socket session
      (\<open>live.rs\<close>).
    \<^item> \<open>Lexing\<close>, \<open>Parsing\<close>, \<open>Validating\<close>, \<open>Generating\<close>, \<open>History\<close>, \<open>Building\<close>
      (\<open>compiler/src\<close>): the compiler, stage by stage: tokens and declarations (\<open>parse.rs\<close>), every rule
      (\<open>validate.rs\<close>), the descriptors (\<open>generate.rs\<close>), the histories of published versions
      (\<open>history.rs\<close>), the command over the files it reads (\<open>main.rs\<close>). \<open>Descriptors\<close> and \<open>Building\<close>
      also decode what it writes, as \<open>serde\<close> derives it for the runtime (\<open>core/src/schema.rs\<close>) and
      the server (\<open>server/src/lib.rs\<close>).

  \<^bold>\<open>State.\<close> The client database is the record \<open>db\<close>, a transaction in progress \<open>work\<close> (the
  database, the savepoints, the records changed), the handle \<open>client\<close>, the lane \<open>lane\<close>, a
  server's socket \<open>socket_session\<close>. A database file is a \<open>dbfile\<close> (which tables, columns and
  indexes it has, its descriptor, its \<open>db\<close>), the application's directory a \<open>disk\<close> (files by name and
  the sidecar), an open client with its file and origin an \<open>opened\<close>. A method on \<open>&mut self\<close> that returns a \<open>Result\<close> is a
  computation that gives a result and the state it leaves, also when it fails. Each error,
  panic and early return of the code is a branch of its definition.

  \<^bold>\<open>What the lemmas show.\<close>
    \<^item> C1-C5 \<open>Sockets\<close>, \<open>Batches\<close>, \<open>Service\<close>: a socket's stream has no gap and forgets no commit;
      a push brackets each mutation by its savepoint and is idempotent; a served page answers
      its request and moves every channel on.
    \<^item> C6-C8 \<open>Stamps\<close>, \<open>Register\<close>: stamps never go back; staging a record refines one write to a
      register in which the newest stamp wins, so deliveries in any order converge.
    \<^item> C9-C14 \<open>Integrity\<close>, \<open>Rejection\<close>, \<open>Freezing\<close>, \<open>Retrying\<close>, \<open>Acknowledge\<close>: database integrity,
      exactly the dependents of a rejection go, what a frozen batch holds, that it is sent again
      byte for byte whatever was written meanwhile, and what a receipt completes or why it is
      refused. The locales of \<open>Frames\<close> and
      \<open>Writes\<close> carry a relation from single statements to the whole engine; \<open>Rows\<close> is the row
      codec's round trip.
    \<^item> C15-C21 \<open>Calls\<close>, \<open>Fencing\<close>, \<open>Paging\<close>, \<open>Pulls\<close>: what every sequence of calls keeps of the
      committed content; writes are atomic, a writer that fell behind never writes, a session is
      a transaction; what a page moves, which answers are stale, and that a stale answer can end
      a cycle as completed.
    \<^item> C22-C23 \<open>LiveOk\<close>: the lane stays in order under every event, and a session that fails to
      begin leaves the lane stalled; old epochs are ignored.
    \<^item> C24-C25 \<open>QueryOk\<close>: the order of a query is one (reversal, transitivity), and it answers
      exactly the rows asked for. \<open>References\<close>: the two ends of a reference agree. \<open>QueryRuns\<close>:
      concrete queries, one of them over a reference that names a field twice.
    \<^item> C26 \<open>Migrating\<close>, \<open>Migrated\<close>, \<open>Migration\<close>: opening under a compatible schema migrates every row.
      The reconciliation is followed column by column (\<open>growing\<close>), table by table (\<open>stored_model\<close>)
      and model by model (\<open>reconciled\<close>).
    \<^item> C27-C30 \<open>OpenOk\<close>, \<open>Handover\<close>, \<open>Handed\<close>: opening never loses a file, accounts for unsent work,
      and moves the sidecar last; a rebuild that fails is the last one. Three relations are carried
      through every step with the locale \<open>kept\<close>: what a file keeps, what a directory keeps of a
      file, that the sidecar stays. \<open>OpenRuns\<close>, \<open>MigrationRuns\<close>: concrete directories, one in which
      a sidecar that cannot be read costs unsent work.
    \<^item> C31-C35 the compiler. \<open>Contracts\<close>: what a build published stays readable by its clients
      whatever later builds do. \<open>Snapshots\<close>, \<open>Starting\<close>, \<open>Inputs\<close>, \<open>Builds\<close>, \<open>Backends\<close>: the
      server starts on every backend whose bindings are over captured fields, and serves exactly the
      versions ever published, each as its newest build declared it; on another it does not start.
      \<open>Declared\<close>: the runtime reads exactly the declared schema. \<open>Parses\<close>, \<open>Compiling\<close>: the
      compiler neither panics nor loops. \<open>CompilerRuns\<close>: builds of concrete sources, one of them
      of a source that compiles and whose backend the server refuses.
    \<^item> C36-C37 \<open>Schema\<close>: validation against its specification, keys as normal forms. \<open>Compat\<close>:
      compatible schemas keep stored records valid. \<open>Encoding\<close>: a written descriptor reads back as
      the schema.
    \<^item> C38 \<open>Connection\<close>: retry delays bounded, one cycle in flight, no wake lost.
    \<^item> C39-C40 \<open>Protocol\<close>: bodies round trip, and an acknowledgement can miss a set of channels it
      should confirm.
    \<^item> \<open>Examples\<close>, \<open>Samples\<close>, \<open>Runs\<close>, \<open>Deliveries\<close> hold concrete inputs and the witnesses.

  \<^bold>\<open>Parameters.\<close> The record \<open>ext\<close> holds the package functions: \<open>serde_json\<close>'s string escapes,
  printer and parser, \<open>serde_jcs\<close>, \<open>uuid\<close>, \<open>chrono\<close> and SQLite's constraint messages. What a
  property needs of them is a named hypothesis (\<open>canonical_ok\<close>: a printed value parses to itself;
  \<open>ext_ok\<close>: normalised texts are stable), and \<open>Examples\<close> has functions that satisfy it. The
  outcome of beginning, committing and rolling back a transaction is an argument (\<open>io\<close>), so a
  property holds for every way they fail; \<open>env\<close> says the same of opening, reading, listing and
  removing files. The record \<open>sqlite\<close> holds what SQLite makes of a default's literal and of
  \<open>json_object\<close>; \<open>defaults_ok\<close> is what C26 needs of the literals, \<open>names_apart\<close> what it needs of
  the schema's names: SQLite compares names without case, which validation does not, so a valid
  schema may name a field \<open>Title\<close> beside \<open>title\<close> and fail to open. The server's \<open>host\<close> (storage, handlers, loaders) is any
  function from requests to answers over a state of its own; \<open>remembers\<close> is the storage contract
  that C4 assumes, and \<open>Deliveries\<close> has a host that keeps it.

  \<^bold>\<open>Bounds and termination.\<close> The limits are the code's: 20 mutations and 256 KiB a push, 50
  changes a channel and page, 64 queued live frames, 1024 remembered pulls, counters up to
  2^53 - 1. Counters are natural numbers, as every one is checked against that limit where it
  enters; the counters that count calls in memory (epochs, generations) do not wrap, which on
  64 bits they could only after 2^64 calls. Clock arithmetic of \<open>Connection\<close> is on 64-bit words. File
  numbers are read and counted in 64 bits; C27-C29 ask for numbers left (\<open>numbers_left\<close>).
  One definition uses fuel, the compiler's \<open>p_expression\<close>, whose calls nest as deep as the tokens
  do: the tokens left are enough, as \<open>Parses\<close> shows; the size of the machine's stack is not modelled. The parser's loops (\<open>p_while\<close>) stop with an
  outcome of their own when a turn takes no token, which C34 excludes. The deletion cascade
  (\<open>descend_loop\<close>) ends because each step sees a new record, the rejection closure
  (\<open>reject_closure\<close>) because each round rejects a queued mutation more, canonical text because
  values are finite.

  \<^bold>\<open>Not modelled.\<close> Raw SQL (\<open>read_sql\<close>), as SQLite itself is modelled by what the client's
  statements do to its tables: the layouts compare names without case as SQLite does, but the rows
  of two models whose names differ in case only are kept apart, where SQLite has one table; of a
  database file, the companions SQLite keeps beside it and columns with other types than the schema's; of
  the sidecar, the temporary file it is renamed from; the wording of derived \<open>serde\<close> errors
  (their occurrence is); the accessors of the socket session. Of the compiler, the text templates
  of the generated TypeScript and Dart (\<open>emit.rs\<close>), and of its command the parsing of arguments,
  the listing of the input directory and the staging of the files it writes. The simulator (a
  test harness) and the bindings (glue) are outside this development.
\<close>

end
